(* ===== verification/Prelude.thy ===== *)
theory Prelude
  imports Main "HOL-Library.Word"
begin

text \<open>
  Shared vocabulary of the development: the Go types the components use (bytes, byte slices,
  fixed-size identifiers), big-endian integer layouts, and the generic list lemmas that the
  component proofs rely on. Nothing in this theory models a particular source file; the
  definitions are the parts of the Go language and of its standard library
  (\<^verbatim>\<open>copy\<close>, \<^verbatim>\<open>encoding/binary\<close>, slice expressions) that the sources use.
\<close>

unbundle bit_operations_syntax

type_synonym byte = "8 word"
type_synonym u32 = "32 word"
type_synonym u64 = "64 word"

text \<open>
  A digest function such as \<^verbatim>\<open>sha256.Sum256\<close>; the only fact about it that the code relies on
  unconditionally is the length of its result.
\<close>

type_synonym hash = "byte list \<Rightarrow> byte list"

definition hash32 :: "hash \<Rightarrow> bool" where
  "hash32 sha \<longleftrightarrow> (\<forall>x. length (sha x) = 32)"

named_theorems gf_hom \<open>the embedding of bytes into the field GF(256)\<close>
named_theorems store_simps \<open>rewriting the chunk store operations\<close>
named_theorems ledger_simps \<open>rewriting the escrow ledger operations\<close>

subsection \<open>Slices\<close>

text \<open>\<^verbatim>\<open>copy(dst, src)\<close>: the first \<open>min (length dst) (length src)\<close> bytes are replaced.\<close>

definition copy_slice :: "'a list \<Rightarrow> 'a list \<Rightarrow> 'a list" where
  "copy_slice dst src = take (length dst) src @ drop (length src) dst"

lemma length_copy_slice [simp]: "length (copy_slice dst src) = length dst"
  by (simp add: copy_slice_def)

lemma copy_slice_nth:
  "i < length dst \<Longrightarrow> copy_slice dst src ! i = (if i < length src then src ! i else dst ! i)"
  by (auto simp: copy_slice_def nth_append)

lemma copy_slice_same_length [simp]: "length dst = length src \<Longrightarrow> copy_slice dst src = src"
  by (simp add: copy_slice_def)

text \<open>The sub-slice \<^verbatim>\<open>xs[lo:hi]\<close>.\<close>

definition slice :: "nat \<Rightarrow> nat \<Rightarrow> 'a list \<Rightarrow> 'a list" where
  "slice lo hi xs = take (hi - lo) (drop lo xs)"

lemma slice_take: "b \<le> n \<Longrightarrow> slice a b (take n xs) = slice a b xs"
  by (simp add: slice_def drop_take min_def)

lemma length_slice [simp]: "hi \<le> length xs \<Longrightarrow> length (slice lo hi xs) = hi - lo"
  by (simp add: slice_def)

lemma slice_nth: "lo + i < hi \<Longrightarrow> hi \<le> length xs \<Longrightarrow> slice lo hi xs ! i = xs ! (lo + i)"
  by (simp add: slice_def)

text \<open>\<^verbatim>\<open>copy(buf[off:], src)\<close>.\<close>

definition copy_at :: "nat \<Rightarrow> 'a list \<Rightarrow> 'a list \<Rightarrow> 'a list" where
  "copy_at off buf src = take off buf @ copy_slice (drop off buf) src"

lemma length_copy_at [simp]: "off \<le> length buf \<Longrightarrow> length (copy_at off buf src) = length buf"
  by (simp add: copy_at_def)

lemma copy_at_append:
  "length pre = off \<Longrightarrow> length src \<le> length post \<Longrightarrow>
   copy_at off (pre @ post) src = pre @ src @ drop (length src) post"
  by (simp add: copy_at_def copy_slice_def)

lemma length_concat_blocks:
  "(\<And>x. x \<in> set xs \<Longrightarrow> length (f x) = n) \<Longrightarrow> length (concat (map f xs)) = length xs * n"
  by (induction xs) auto

text \<open>Reading the \<open>i\<close>-th of a sequence of blocks of equal length.\<close>

lemma slice_block:
  assumes "\<And>x. x \<in> set xs \<Longrightarrow> length (f x) = n" and "i < length xs"
  shows "slice (i * n) (i * n + n) (concat (map f xs) @ ys) = f (xs ! i)"
  using assms
proof (induction xs arbitrary: i)
  case Nil
  then show ?case by simp
next
  case (Cons x xs)
  show ?case
  proof (cases i)
    case 0
    with Cons.prems show ?thesis by (simp add: slice_def)
  next
    case (Suc j)
    have "slice (j * n) (j * n + n) (concat (map f xs) @ ys) = f (xs ! j)"
      using Cons.prems Suc by (intro Cons.IH) auto
    with Suc Cons.prems(1) [of x] show ?thesis by (simp add: slice_def)
  qed
qed

subsection \<open>Index-wise updates\<close>

lemma nth_list_update_if:
  "j < length xs \<Longrightarrow> xs[i := v] ! j = (if i = j then v else xs ! j)"
  by (simp add: nth_list_update)

lemma map2_nth [simp]:
  "i < length xs \<Longrightarrow> i < length ys \<Longrightarrow> map2 f xs ys ! i = f (xs ! i) (ys ! i)"
  by simp

lemma fold_preserves:
  assumes "P s" and "\<And>x s. x \<in> set xs \<Longrightarrow> P s \<Longrightarrow> P (f x s)"
  shows "P (fold f xs s)"
  using assms by (induction xs arbitrary: s) auto

text \<open>
  Loop rule for \<^verbatim>\<open>for i := lo; i < hi; i++\<close>: an invariant indexed by the loop counter.
\<close>

lemma fold_upt_invariant:
  assumes "lo \<le> hi" and "I lo s"
    and "\<And>i s. lo \<le> i \<Longrightarrow> i < hi \<Longrightarrow> I i s \<Longrightarrow> I (Suc i) (f i s)"
  shows "I hi (fold f [lo..<hi] s)"
  using assms
proof (induction hi)
  case 0
  then show ?case by simp
next
  case (Suc hi)
  show ?case
  proof (cases "lo \<le> hi")
    case True
    with Suc have "I hi (fold f [lo..<hi] s)" by simp
    with True Suc.prems(3) show ?thesis by simp
  next
    case False
    with Suc.prems have "lo = Suc hi" by simp
    with Suc.prems show ?thesis by simp
  qed
qed

subsection \<open>Exclusive or\<close>

lemma xor_eq_zero_iff: "a XOR b = 0 \<longleftrightarrow> a = b" for a b :: "'a::len word"
  by (metis xor.assoc xor.left_neutral xor.right_neutral xor_self_eq)

lemma xor_cancel_left [simp]: "a XOR (a XOR b) = b" for a b :: "'a::len word"
  by (metis xor.assoc xor.left_neutral xor_self_eq)

subsection \<open>Big-endian integers\<close>

text \<open>
  \<^verbatim>\<open>binary.BigEndian.PutUint32/PutUint64\<close> and their inverses: \<open>be_bytes n w\<close> are the
  \<open>n\<close> low bytes of \<open>w\<close>, most significant byte first.
\<close>

definition be_bytes :: "nat \<Rightarrow> nat \<Rightarrow> byte list" where
  "be_bytes n w = map (\<lambda>i. word_of_nat (w div 256 ^ (n - 1 - i))) [0..<n]"

fun be_value :: "byte list \<Rightarrow> nat" where
  "be_value [] = 0"
| "be_value (b # bs) = unat b * 256 ^ length bs + be_value bs"

lemma length_be_bytes [simp]: "length (be_bytes n w) = n"
  by (simp add: be_bytes_def)

lemma be_bytes_Suc: "be_bytes (Suc n) w = word_of_nat (w div 256 ^ n) # be_bytes n w"
proof (rule nth_equalityI)
  show "length (be_bytes (Suc n) w) = length (word_of_nat (w div 256 ^ n) # be_bytes n w)"
    by simp
  fix i assume "i < length (be_bytes (Suc n) w)"
  then have "i < Suc n" by simp
  then show "be_bytes (Suc n) w ! i = (word_of_nat (w div 256 ^ n) # be_bytes n w) ! i"
    by (cases i) (auto simp: be_bytes_def simp del: upt_Suc)
qed

lemma unat_word_of_nat_byte: "unat (word_of_nat n :: byte) = n mod 256"
  by (simp add: unat_of_nat)

theorem be_value_be_bytes: "be_value (be_bytes n w) = w mod 256 ^ n"
proof (induction n)
  case 0
  then show ?case by (simp add: be_bytes_def)
next
  case (Suc n)
  have "w mod (256 ^ n * 256) = 256 ^ n * (w div 256 ^ n mod 256) + w mod 256 ^ n"
    by (rule mod_mult2_eq)
  then show ?case
    using Suc by (simp add: be_bytes_Suc unat_word_of_nat_byte mult.commute)
qed

end
