(* ===== verification/Config.thy ===== *)
theory Config
  imports Complex_Main Prelude
begin

text \<open>
  \<^verbatim>\<open>internal/config\<close>: the \<^verbatim>\<open>NetworkProfile\<close> that every subsystem is built from, the two
  canonical profiles, profile selection and the startup guards. Durations are nanoseconds, as
  Go's \<^verbatim>\<open>time.Duration\<close>; the three fraction fields are the decimal constants of the source
  as rationals. The process environment that \<^verbatim>\<open>os.Getenv\<close> reads is an argument.
\<close>

type_synonym duration = int

definition nanosecond :: duration where "nanosecond = 1"
definition millisecond :: duration where "millisecond = 1000000"
definition second :: duration where "second = 1000000000"
definition minute :: duration where "minute = 60 * second"
definition hour :: duration where "hour = 60 * minute"

lemmas duration_defs = nanosecond_def millisecond_def second_def minute_def hour_def

record NetworkProfile =
  DataShards :: int
  ParityShards :: int
  TotalShards :: int
  ShardSizeField :: int
  LazyRepairR0 :: int
  MinActiveProviders :: int
  MinDistinctASNs :: int
  MinMetroRegions :: int
  MinRelayNodes :: int
  MinCooledAccounts :: int
  ASNCapFraction :: rat
  HeartbeatInterval :: duration
  HeartbeatJitter :: duration
  PollingInterval :: duration
  DeparturePollingInterval :: duration
  DHTRepublishInterval :: duration
  DHTExpiryDuration :: duration
  DepartureThreshold :: duration
  PromisedDowntimeMaximum :: duration
  AuditPeriodDuration :: duration
  EscrowHoldWindow :: duration
  VettingHoldWindow :: duration
  PendingReceiptGCAge :: duration
  RepairPromotionTimeout :: duration
  ScoreWindowShort :: duration
  ScoreWindowMedium :: duration
  ScoreWindowLong :: duration
  DualWindowDrop :: rat
  VettingMinPasses :: int
  VettingMinDuration :: duration
  VettingCapFraction :: rat
  Argon2Time :: u32
  Argon2Memory :: u32
  Argon2Threads :: byte
  RequireSecretsManager :: bool
  RequireQuorum :: bool
  AllowLivePayments :: bool
  PaymentMode :: string
  SkipMnemonicConfirm :: bool
  RazorpayCoolingPeriod :: duration
  IsDemoMode :: bool
  ReleaseComputationInterval :: duration
  ChargeComputationInterval :: duration
  AuthRequestFreshnessWindow :: duration
  GCRetryBackoff :: "duration list"
  Mode :: string
  BackgroundViewRefreshInterval :: duration
  StorageRatePaisePerGBPerMonth :: int

definition ProductionProfile :: NetworkProfile where
  "ProductionProfile = \<lparr>
     DataShards = 16, ParityShards = 40, TotalShards = 56, ShardSizeField = 262144,
     LazyRepairR0 = 8,
     MinActiveProviders = 56, MinDistinctASNs = 5, MinMetroRegions = 3, MinRelayNodes = 3,
     MinCooledAccounts = 56,
     ASNCapFraction = 20 / 100,
     HeartbeatInterval = 4 * hour, HeartbeatJitter = 5 * minute, PollingInterval = 24 * hour,
     DeparturePollingInterval = 1 * hour,
     DHTRepublishInterval = 12 * hour, DHTExpiryDuration = 24 * hour,
     DepartureThreshold = 72 * hour, PromisedDowntimeMaximum = 72 * hour,
     AuditPeriodDuration = 30 * 24 * hour, EscrowHoldWindow = 30 * 24 * hour,
     VettingHoldWindow = 60 * 24 * hour, PendingReceiptGCAge = 48 * hour,
     RepairPromotionTimeout = 6 * hour,
     ScoreWindowShort = 24 * hour, ScoreWindowMedium = 7 * 24 * hour,
     ScoreWindowLong = 30 * 24 * hour, DualWindowDrop = 20 / 100,
     VettingMinPasses = 80, VettingMinDuration = 120 * 24 * hour, VettingCapFraction = 10 / 100,
     Argon2Time = 3, Argon2Memory = 65536, Argon2Threads = 4,
     RequireSecretsManager = True, RequireQuorum = True, AllowLivePayments = True,
     PaymentMode = ''razorpay_live'', SkipMnemonicConfirm = False,
     RazorpayCoolingPeriod = 24 * hour, IsDemoMode = False,
     ReleaseComputationInterval = 0, ChargeComputationInterval = 0,
     AuthRequestFreshnessWindow = 120 * second,
     GCRetryBackoff = [5 * minute, 15 * minute, 60 * minute],
     Mode = ''prod'',
     BackgroundViewRefreshInterval = 60 * second,
     StorageRatePaisePerGBPerMonth = 100 \<rparr>"

definition DemoProfile :: NetworkProfile where
  "DemoProfile = \<lparr>
     DataShards = 3, ParityShards = 2, TotalShards = 5, ShardSizeField = 262144,
     LazyRepairR0 = 1,
     MinActiveProviders = 5, MinDistinctASNs = 5, MinMetroRegions = 1, MinRelayNodes = 0,
     MinCooledAccounts = 5,
     ASNCapFraction = 20 / 100,
     HeartbeatInterval = 30 * second, HeartbeatJitter = 5 * second, PollingInterval = 2 * minute,
     DeparturePollingInterval = 30 * second,
     DHTRepublishInterval = 2 * minute, DHTExpiryDuration = 4 * minute,
     DepartureThreshold = 10 * minute, PromisedDowntimeMaximum = 10 * minute,
     AuditPeriodDuration = 2 * minute, EscrowHoldWindow = 1 * minute,
     VettingHoldWindow = 2 * minute, PendingReceiptGCAge = 5 * minute,
     RepairPromotionTimeout = 3 * minute,
     ScoreWindowShort = 2 * minute, ScoreWindowMedium = 6 * minute,
     ScoreWindowLong = 20 * minute, DualWindowDrop = 20 / 100,
     VettingMinPasses = 5, VettingMinDuration = 5 * minute, VettingCapFraction = 10 / 100,
     Argon2Time = 1, Argon2Memory = 4096, Argon2Threads = 1,
     RequireSecretsManager = False, RequireQuorum = False, AllowLivePayments = False,
     PaymentMode = ''mock'', SkipMnemonicConfirm = True,
     RazorpayCoolingPeriod = 0, IsDemoMode = True,
     ReleaseComputationInterval = 2 * minute, ChargeComputationInterval = 90 * second,
     AuthRequestFreshnessWindow = 120 * second,
     GCRetryBackoff = [10 * second, 30 * second, 2 * minute],
     Mode = ''demo'',
     BackgroundViewRefreshInterval = 5 * second,
     StorageRatePaisePerGBPerMonth = 100000 \<rparr>"

text \<open>
  The environment maps a variable name to its value; \<^verbatim>\<open>os.Getenv\<close> gives the empty string
  for an unset variable. \<open>None\<close> is the fatal exit of \<^verbatim>\<open>log.Fatalf\<close>.
\<close>

type_synonym environment = "string \<Rightarrow> string"

definition SelectProfile :: "environment \<Rightarrow> string \<Rightarrow> NetworkProfile option" where
  "SelectProfile env modeFlag =
     (let m = (if modeFlag = '''' then env ''VYOMANAUT_MODE'' else modeFlag)
      in if m = ''demo'' then Some DemoProfile
         else if m = ''prod'' then Some ProductionProfile
         else if m = '''' then Some ProductionProfile
         else None)"

record StartupError =
  Code :: string
  Message :: string

definition ValidateStartupGuards :: "environment \<Rightarrow> NetworkProfile \<Rightarrow> StartupError option" where
  "ValidateStartupGuards env profile =
     (if RequireSecretsManager profile \<and> env ''VYOMANAUT_CLUSTER_MASTER_SEED'' \<noteq> '''' then
        Some \<lparr>Code = ''PROD_MODE_ENV_SECRET'',
              Message = ''VYOMANAUT_CLUSTER_MASTER_SEED must not be set when RequireSecretsManager is true; use secrets manager''\<rparr>
      else if \<not> AllowLivePayments profile \<and> PaymentMode profile = ''razorpay_live'' then
        Some \<lparr>Code = ''DEMO_MODE_REAL_PAYMENT'',
              Message = ''live Razorpay endpoint must not be used when AllowLivePayments is false''\<rparr>
      else None)"

lemmas profile_defs = ProductionProfile_def DemoProfile_def

lemma SelectProfile_cases:
  assumes "SelectProfile env m = Some p"
  obtains "p = DemoProfile" | "p = ProductionProfile"
  using assms by (auto simp: SelectProfile_def Let_def split: if_splits)

end
