(* ===== verification/GF256.thy ===== *)
theory GF256
  imports Prelude
begin

text \<open>
  The finite field of \<^verbatim>\<open>internal/erasure/rs_internal.go\<close>: the exponential and logarithm
  tables as the package's \<^verbatim>\<open>init\<close> fills them, multiplication, power, inverse and the
  per-factor multiplication table. The tables are related to repeated doubling modulo
  \<^verbatim>\<open>0x11d\<close>, from which the field laws follow; the type \<open>gf\<close> carries them as an instance
  of the library's class \<open>field\<close>, so that the matrix proofs can use its algebra.
\<close>

subsection \<open>Tables\<close>

text \<open>
  One round of the first loop of \<^verbatim>\<open>init\<close>: \<open>x\<close> is Go's \<^verbatim>\<open>int\<close>; it stays below 512,
  so its width plays no role.
\<close>

definition gf_double :: "nat \<Rightarrow> nat" where
  "gf_double x = (let y = x * 2 in if y AND 0x100 \<noteq> 0 then y XOR 0x11d else y)"

definition gf_init_step :: "nat \<Rightarrow> byte list \<times> byte list \<times> nat \<Rightarrow> byte list \<times> byte list \<times> nat" where
  "gf_init_step i = (\<lambda>(e, l, x). (e[i := word_of_nat x], l[x := word_of_nat i], gf_double x))"

definition gf_init :: "byte list \<times> byte list" where
  "gf_init =
     (let (e, l, x) = fold gf_init_step [0..<255] (replicate 512 0, replicate 256 0, 1);
          e' = fold (\<lambda>i e. e[i := e ! (i - 255)]) [255..<512] e
      in (e', l))"

definition gfExp :: "byte list" where "gfExp = fst gf_init"
definition gfLog :: "byte list" where "gfLog = snd gf_init"

subsection \<open>Operations\<close>

definition gfMul :: "byte \<Rightarrow> byte \<Rightarrow> byte" where
  "gfMul a b =
     (if a = 0 \<or> b = 0 then 0
      else gfExp ! (unat (gfLog ! unat a) + unat (gfLog ! unat b)))"

definition gfPow :: "byte \<Rightarrow> nat \<Rightarrow> byte" where
  "gfPow x pw =
     (if pw = 0 then 1
      else if x = 0 then 0
      else gfExp ! ((unat (gfLog ! unat x) * pw) mod 255))"

text \<open>\<open>None\<close> is the panic on 0.\<close>

definition gfInv :: "byte \<Rightarrow> byte option" where
  "gfInv x = (if x = 0 then None else Some (gfExp ! (255 - unat (gfLog ! unat x))))"

definition gfMulTable :: "byte \<Rightarrow> byte list" where
  "gfMulTable factor = map (\<lambda>x. gfMul factor (word_of_nat x)) [0..<256]"

subsection \<open>The tables are the powers of the primitive element\<close>

text \<open>Doubling on bytes: the linear map that the loop of \<^verbatim>\<open>init\<close> iterates.\<close>

definition xtime :: "byte \<Rightarrow> byte" where
  "xtime x = push_bit 1 x XOR (if bit x 7 then 0x1d else 0)"

lemma xtime_xor: "xtime (a XOR b) = xtime a XOR xtime b"
  by (cases "bit a 7"; cases "bit b 7")
    (simp_all add: xtime_def push_bit_xor bit_xor_iff ac_simps)

lemma xtime_0 [simp]: "xtime 0 = 0"
  by (simp add: xtime_def)

lemma gf_double_bit: "gf_double x = (if bit x 7 then (2 * x) XOR 0x11d else 2 * x)"
proof -
  have "(2 * x) AND 0x100 \<noteq> 0 \<longleftrightarrow> bit (2 * x) 8"
    using and_exp_eq_0_iff_not_bit [of "2 * x" 8] by simp
  also have "\<dots> \<longleftrightarrow> bit x 7"
    using bit_double_iff [of x 8] by simp
  finally show ?thesis
    by (simp add: gf_double_def Let_def mult.commute)
qed

lemma word_of_nat_gf_double: "(word_of_nat (gf_double x) :: byte) = xtime (word_of_nat x)"
proof -
  have c: "(0x11d :: byte) = 0x1d"
    by simp
  have "bit (word_of_nat x :: byte) 7 \<longleftrightarrow> bit x 7"
    by (simp add: bit_simps)
  moreover have "(word_of_nat (2 * x) :: byte) = push_bit 1 (word_of_nat x)"
    by (simp add: push_bit_eq_mult)
  moreover have "(word_of_nat ((2 * x) XOR 0x11d) :: byte) = word_of_nat (2 * x) XOR 0x1d"
    by (simp add: of_nat_xor_eq c)
  ultimately show ?thesis
    by (simp add: gf_double_bit xtime_def mult.commute)
qed

text \<open>
  The orbit of 1 under doubling has exactly 255 elements. The kernel checks this on
  integers, whose numerals evaluate quickly.
\<close>

definition dbl :: "int \<Rightarrow> int" where
  "dbl x = (if x < 128 then 2 * x else (2 * x) XOR 0x11d)"

lemma bit_top_iff:
  fixes x :: nat
  assumes "x < 2 * 2 ^ n" shows "bit x n \<longleftrightarrow> \<not> x < 2 ^ n"
proof (cases "x < 2 ^ n")
  case True
  then show ?thesis by (simp add: bit_iff_odd)
next
  case False
  with assms have "x div 2 ^ n = 1"
    by (simp add: div_nat_eqI)
  with False show ?thesis by (simp add: bit_iff_odd)
qed

lemma bit7: "x < 256 \<Longrightarrow> bit x 7 \<longleftrightarrow> \<not> x < (128::nat)"
  using bit_top_iff [of x 7] by simp

lemma gf_double_bound:
  assumes "x < 256" shows "gf_double x < 256"
proof (cases "bit x 7")
  case True
  let ?y = "(2 * x) XOR 0x11d"
  have "take_bit 9 ?y = ?y"
    using assms by (simp add: take_bit_xor take_bit_nat_eq_self)
  then have "?y < 512"
    using take_bit_nat_less_exp [of 9 ?y] by simp
  moreover have "\<not> bit ?y 8"
    using True by (simp add: bit_xor_iff bit_double_iff bit_0)
  ultimately have "?y < 256"
    using bit_top_iff [of ?y 8] by simp
  with True show ?thesis by (simp add: gf_double_bit)
next
  case False
  with assms show ?thesis by (simp add: gf_double_bit bit7)
qed

lemma int_gf_double: "x < 256 \<Longrightarrow> int (gf_double x) = dbl (int x)"
  by (auto simp: gf_double_bit bit7 dbl_def of_nat_xor_eq)

fun orbit :: "nat \<Rightarrow> int \<Rightarrow> bool" where
  "orbit 0 x = (x = 1)"
| "orbit (Suc n) x = (x \<noteq> 1 \<and> orbit n (dbl x))"
lemma orbit_2: "orbit 254 2" 
  by code_simp


definition dpow :: "nat \<Rightarrow> nat" where "dpow n = (gf_double ^^ n) 1"
definition gexp :: "nat \<Rightarrow> byte" where "gexp n = (xtime ^^ n) 1"

lemma funpow_double_bound: "x < 256 \<Longrightarrow> (gf_double ^^ n) x < 256"
  by (induction n) (auto intro: gf_double_bound)

lemma orbit_sound:
  "orbit n (int x) \<Longrightarrow> x < 256 \<Longrightarrow>
     (\<forall>i<n. (gf_double ^^ i) x \<noteq> 1) \<and> (gf_double ^^ n) x = 1"
proof (induction n arbitrary: x)
  case 0
  then show ?case by simp
next
  case (Suc n)
  from Suc.prems have "orbit n (int (gf_double x))" and "gf_double x < 256" and x1: "x \<noteq> 1"
    by (auto simp: int_gf_double gf_double_bound)
  then have IH: "\<forall>i<n. (gf_double ^^ i) (gf_double x) \<noteq> 1" "(gf_double ^^ n) (gf_double x) = 1"
    using Suc.IH by auto
  have "(gf_double ^^ i) x \<noteq> 1" if "i < Suc n" for i
    using IH(1) x1 that by (cases i) (auto simp: funpow_swap1)
  with IH(2) show ?case by (simp add: funpow_swap1)
qed

lemma dpow_bound: "dpow n < 256"
  by (simp add: dpow_def funpow_double_bound)

lemma dpow_Suc: "dpow (Suc n) = gf_double (dpow n)"
  by (simp add: dpow_def)

lemma gexp_0 [simp]: "gexp 0 = 1"
  by (simp add: gexp_def)

lemma gexp_Suc: "gexp (Suc n) = xtime (gexp n)"
  by (simp add: gexp_def)

lemma word_of_nat_dpow: "word_of_nat (dpow n) = gexp n"
  by (induction n) (simp_all add: dpow_Suc gexp_Suc word_of_nat_gf_double dpow_def gexp_def)

lemma unat_gexp: "unat (gexp n) = dpow n"
  using dpow_bound [of n] by (simp flip: word_of_nat_dpow add: unat_of_nat)

lemma dpow_cycle: "0 < n \<Longrightarrow> n < 255 \<Longrightarrow> dpow n \<noteq> 1" "dpow 255 = 1"
proof -
  have d2: "gf_double 1 = 2"
    by (simp add: gf_double_bit bit7)
  have o: "(\<forall>i<254. (gf_double ^^ i) 2 \<noteq> 1) \<and> (gf_double ^^ 254) 2 = 1"
    by (rule orbit_sound) (use orbit_2 in simp_all)
  have s: "(gf_double ^^ Suc i) 1 = (gf_double ^^ i) 2" for i
    by (simp add: funpow_swap1 d2 del: One_nat_def)
  show "dpow n \<noteq> 1" if "0 < n" "n < 255" for n
    using o that s [of "n - 1"] by (simp add: dpow_def)
  show "dpow 255 = 1"
    using o s [of 254] by (simp add: dpow_def)
qed

lemma xtime_eq_0: 
  assumes "xtime x = 0" shows "x = 0"
proof (cases "bit x 7")
  case True
  with assms have "push_bit 1 x = (0x1d :: byte)"
    by (simp add: xtime_def xor_eq_zero_iff)
  then have "bit (push_bit 1 x) 0 = bit (0x1d :: byte) 0"
    by simp
  then show ?thesis
    by (simp add: bit_push_bit_iff bit_0)
next
  case False
  with assms have *: "push_bit 1 x = 0"
    by (simp add: xtime_def)
  show ?thesis
  proof (rule bit_word_eqI)
    fix n assume "n < LENGTH(8)"
    moreover have "\<not> bit x n" if "n < 7"
    proof -
      have "\<not> bit (push_bit 1 x) (Suc n)"
        by (simp only: *) simp
      with that show ?thesis
        unfolding bit_push_bit_iff by auto
    qed
    ultimately show "bit x n = bit 0 n"
      using False by (cases "n = 7") auto
  qed
qed

lemma funpow_xtime_xor: "(xtime ^^ n) (a XOR b) = (xtime ^^ n) a XOR (xtime ^^ n) b"
  by (induction n) (simp_all add: xtime_xor)

lemma funpow_xtime_0 [simp]: "(xtime ^^ n) 0 = 0"
  by (induction n) simp_all

lemma funpow_xtime_eq_0: "(xtime ^^ n) x = 0 \<Longrightarrow> x = 0"
  by (induction n) (auto dest: xtime_eq_0)

lemma funpow_xtime_inj: "(xtime ^^ n) a = (xtime ^^ n) b \<Longrightarrow> a = b"
  using funpow_xtime_eq_0 [of n "a XOR b"] by (simp add: funpow_xtime_xor xor_eq_zero_iff)

lemma gexp_neq_0 [simp]: "gexp n \<noteq> 0"
  using funpow_xtime_eq_0 [of n 1] by (auto simp: gexp_def)

lemma gexp_add: "gexp (i + j) = (xtime ^^ i) (gexp j)"
  by (simp add: gexp_def funpow_add)

lemma gexp_255: "gexp 255 = 1"
  using dpow_cycle(2) word_of_nat_dpow [of 255] by simp

lemma gexp_period: "gexp (n + 255 * k) = gexp n"
proof (induction k)
  case (Suc k)
  have "gexp (n + 255 * Suc k) = gexp ((n + 255 * k) + 255)"
    by (simp add: algebra_simps)
  also have "\<dots> = (xtime ^^ (n + 255 * k)) (gexp 255)"
    by (rule gexp_add)
  also have "\<dots> = gexp (n + 255 * k)"
    by (simp add: gexp_255) (simp add: gexp_def)
  finally show ?case using Suc by simp
qed simp

lemma gexp_mod: "gexp (n mod 255) = gexp n"
  using gexp_period [of "n mod 255" "n div 255"] by simp

lemma gexp_less_inj: "i < j \<Longrightarrow> j < 255 \<Longrightarrow> gexp i \<noteq> gexp j"
proof
  assume "i < j" "j < 255" "gexp i = gexp j"
  then have "(xtime ^^ i) (gexp 0) = (xtime ^^ i) (gexp (j - i))"
    using gexp_add [of i 0] gexp_add [of i "j - i"] by simp
  then have "gexp (j - i) = 1"
    by (auto dest: funpow_xtime_inj)
  then have "dpow (j - i) = 1"
    using unat_gexp [of "j - i"] by simp
  with \<open>i < j\<close> \<open>j < 255\<close> show False
    using dpow_cycle(1) [of "j - i"] by linarith
qed

lemma gexp_inj: "i < 255 \<Longrightarrow> j < 255 \<Longrightarrow> gexp i = gexp j \<longleftrightarrow> i = j"
  using gexp_less_inj by (metis nat_neq_iff)

lemma gexp_surj:
  assumes "x \<noteq> 0" obtains i where "i < 255" "x = gexp i"
proof -
  have inj: "inj_on gexp {..<255}"
    by (auto simp: inj_on_def gexp_inj)
  have "card (UNIV - {0 :: byte}) = 255"
    by (simp add: card_word)
  then have "gexp ` {..<255} = UNIV - {0}"
    using inj by (intro card_subset_eq) (auto simp: card_image)
  with assms have "x \<in> gexp ` {..<255}" by simp
  with that show ?thesis by auto
qed


lemma gf_init_step_eq:
  "gf_init_step i (e, l, x) = (e[i := word_of_nat x], l[x := word_of_nat i], gf_double x)"
  by (simp add: gf_init_step_def)

lemma gf_init_loop:
  assumes "length e0 = 512" and "length l0 = 256" and "n \<le> 255"
  shows "case fold gf_init_step [0..<n] (e0, l0, 1) of (e, l, x) \<Rightarrow>
      length e = 512 \<and> length l = 256 \<and> x = dpow n \<and>
      (\<forall>j<n. e ! j = gexp j \<and> l ! dpow j = word_of_nat j)"
  using assms
proof (induction n)
  case 0
  then show ?case by (simp add: dpow_def)
next
  case (Suc n)
  obtain e l x where elx: "fold gf_init_step [0..<n] (e0, l0, 1) = (e, l, x)"
    by (metis prod_cases3)
  with Suc have IH: "length e = 512" "length l = 256" "x = dpow n"
    "\<And>j. j < n \<Longrightarrow> e ! j = gexp j \<and> l ! dpow j = word_of_nat j"
    by auto
  have neq: "dpow n \<noteq> dpow j" if "j < n" for j
  proof
    assume "dpow n = dpow j"
    then have "gexp j = gexp n"
      by (metis word_of_nat_dpow)
    with that Suc.prems show False
      using gexp_less_inj [of j n] by simp
  qed
  show ?case
    using elx IH Suc.prems neq dpow_bound
    by (auto simp: gf_init_step_eq dpow_Suc word_of_nat_dpow nth_list_update less_Suc_eq)
qed

lemma gf_init_copy:
  assumes "length e = 512" and "\<And>j. j < 255 \<Longrightarrow> e ! j = gexp j"
  shows "length (fold (\<lambda>i e. e[i := e ! (i - 255)]) [255..<512] e) = 512 \<and>
         (\<forall>j<512. fold (\<lambda>i e. e[i := e ! (i - 255)]) [255..<512] e ! j = gexp j)"
proof (rule fold_upt_invariant [where I = "\<lambda>i e. length e = 512 \<and> (\<forall>j<i. e ! j = gexp j)"])
  fix i and f :: "byte list"
  assume i: "255 \<le> i" "i < 512" and f: "length f = 512 \<and> (\<forall>j<i. f ! j = gexp j)"
  have "f ! (i - 255) = gexp i"
    using i f gexp_period [of "i - 255" 1] by simp
  with i f show "length (f[i := f ! (i - 255)]) = 512 \<and> (\<forall>j<Suc i. f[i := f ! (i - 255)] ! j = gexp j)"
    by (auto simp: nth_list_update less_Suc_eq)
qed (use assms in auto)

lemma gf_init_tables:
  "length gfExp = 512 \<and> length gfLog = 256 \<and> (\<forall>i<512. gfExp ! i = gexp i) \<and>
   (\<forall>i<255. gfLog ! dpow i = word_of_nat i)"
proof -
  obtain e l x where elx: "fold gf_init_step [0..<255] (replicate 512 0, replicate 256 0, 1) = (e, l, x)"
    by (metis prod_cases3)
  have "length e = 512 \<and> length l = 256 \<and> (\<forall>j<255. e ! j = gexp j \<and> l ! dpow j = word_of_nat j)"
    using gf_init_loop [of "replicate 512 0" "replicate 256 0" 255, unfolded elx] by simp
  with gf_init_copy [of e] show ?thesis
    unfolding gfExp_def gfLog_def gf_init_def elx Let_def case_prod_conv fst_conv snd_conv by blast
qed

lemma gfExp_nth: "i < 512 \<Longrightarrow> gfExp ! i = gexp i"
  using gf_init_tables by blast

lemma gfLog_gexp: "i < 255 \<Longrightarrow> unat (gfLog ! unat (gexp i)) = i"
  using gf_init_tables by (simp add: unat_gexp unat_of_nat)

lemma gfMul_gexp: "gfMul (gexp i) (gexp j) = gexp (i + j)"
proof -
  have *: "gfMul (gexp i) (gexp j) = gexp (i + j)" if "i < 255" "j < 255" for i j
    using that by (simp add: gfMul_def gfLog_gexp gfExp_nth)
  have "gfMul (gexp i) (gexp j) = gfMul (gexp (i mod 255)) (gexp (j mod 255))"
    by (simp add: gexp_mod)
  also have "\<dots> = gexp (i mod 255 + j mod 255)"
    by (rule *) simp_all
  also have "\<dots> = gexp (i + j)"
    by (metis gexp_mod mod_add_eq)
  finally show ?thesis .
qed

lemma gfMul_0 [simp]: "gfMul a 0 = 0" "gfMul 0 a = 0"
  by (simp_all add: gfMul_def)

lemma gfMul_xtime: "gfMul (gexp i) b = (xtime ^^ i) b"
  by (cases "b = 0") (auto elim!: gexp_surj simp: gfMul_gexp gexp_add)

lemma gfMul_commute: "gfMul a b = gfMul b a"
  by (cases "a = 0"; cases "b = 0") (auto elim!: gexp_surj simp: gfMul_gexp add.commute)

lemma gfMul_assoc: "gfMul (gfMul a b) c = gfMul a (gfMul b c)"
  by (cases "a = 0"; cases "b = 0"; cases "c = 0")
    (auto elim!: gexp_surj simp: gfMul_gexp add.assoc)

lemma gfMul_xor: "gfMul a (b XOR c) = gfMul a b XOR gfMul a c"
  by (cases "a = 0") (auto elim!: gexp_surj simp: gfMul_xtime funpow_xtime_xor)

lemma gfMul_1 [simp]: "gfMul a 1 = a" "gfMul 1 a = a"
  using gfMul_xtime [of 0 a] gfMul_commute [of a 1] by simp_all

lemma gfInv_Some: 
  assumes "x \<noteq> 0" obtains y where "gfInv x = Some y" "gfMul x y = 1"
proof -
  from assms obtain i where i: "i < 255" "x = gexp i" by (rule gexp_surj)
  then have "gfInv x = Some (gexp (255 - i))"
    by (simp add: gfInv_def gfLog_gexp gfExp_nth)
  moreover have "gfMul x (gexp (255 - i)) = 1"
    using i by (simp add: gfMul_gexp gexp_255)
  ultimately show ?thesis by (rule that)
qed

lemma gfPow_2: "gfPow 2 n = gexp n"
proof (cases "n = 0")
  case False
  have "(2 :: byte) = gexp 1"
    by (simp add: gexp_def xtime_def bit_simps)
  then show ?thesis
    using False gfLog_gexp [of 1] by (simp add: gfPow_def gfExp_nth gexp_mod)
qed (simp add: gfPow_def)

lemma gfMulTable_nth: "gfMulTable f ! unat x = gfMul f x"
proof -
  have "unat x < 2 ^ LENGTH(8)"
    by (rule unsigned_less)
  then show ?thesis by (simp add: gfMulTable_def)
qed

subsection \<open>The field\<close>

text \<open>
  Bytes with exclusive or and \<^const>\<open>gfMul\<close> are a field; \<open>gf_of\<close> embeds a byte of the
  model into it, and the collection \<open>gf_hom\<close> moves the model's operations across.
\<close>

typedef gf = "UNIV :: byte set" morphisms byte_of gf_of ..

setup_lifting type_definition_gf

instantiation gf :: field
begin
lift_definition zero_gf :: gf is 0 .
lift_definition one_gf :: gf is 1 .
lift_definition plus_gf :: "gf \<Rightarrow> gf \<Rightarrow> gf" is "(XOR)" .
lift_definition minus_gf :: "gf \<Rightarrow> gf \<Rightarrow> gf" is "(XOR)" .
lift_definition uminus_gf :: "gf \<Rightarrow> gf" is "\<lambda>x. x" .
lift_definition times_gf :: "gf \<Rightarrow> gf \<Rightarrow> gf" is gfMul .
lift_definition inverse_gf :: "gf \<Rightarrow> gf" is "\<lambda>x. case gfInv x of None \<Rightarrow> 0 | Some y \<Rightarrow> y" .
definition divide_gf :: "gf \<Rightarrow> gf \<Rightarrow> gf" where "divide_gf x y = x * inverse y"
instance
proof
  fix a b c :: gf
  show "a + b + c = a + (b + c)" by transfer (simp add: xor.assoc)
  show "a + b = b + a" by transfer (simp add: xor.commute)
  show "0 + a = a" by transfer simp
  show "- a + a = 0" by transfer simp
  show "a - b = a + - b" by transfer simp
  show "a * b * c = a * (b * c)" by transfer (rule gfMul_assoc)
  show "a * b = b * a" by transfer (rule gfMul_commute)
  show "1 * a = a" by transfer simp
  show "(a + b) * c = a * c + b * c"
    by transfer (metis gfMul_xor gfMul_commute)
  show "(0 :: gf) \<noteq> 1" by transfer simp
  show "inverse (0 :: gf) = 0" by transfer (simp add: gfInv_def)
  show "a div b = a * inverse b" by (simp add: divide_gf_def)
  show "a \<noteq> 0 \<Longrightarrow> inverse a * a = 1"
    by transfer (auto elim!: gfInv_Some simp: gfMul_commute)
qed
end


lemma gf_of_xor [gf_hom]: "gf_of (a XOR b) = gf_of a + gf_of b"
  by (simp add: plus_gf.abs_eq)

lemma gf_of_gfMul [gf_hom]: "gf_of (gfMul a b) = gf_of a * gf_of b"
  by (simp add: times_gf.abs_eq)

lemma gf_of_0 [gf_hom]: "gf_of 0 = 0"
  by (simp add: zero_gf_def)

lemma gf_of_1 [gf_hom]: "gf_of 1 = 1"
  by (simp add: one_gf_def)

lemma gf_of_eq_iff [simp]: "gf_of a = gf_of b \<longleftrightarrow> a = b"
  by (simp add: gf_of_inject)

lemma gf_of_eq_0_iff [simp]: "gf_of a = 0 \<longleftrightarrow> a = 0"
  by (metis gf_of_0 gf_of_eq_iff)

lemma gf_add_self [simp]: "x + x = 0" for x :: gf
  by transfer simp

lemma gf_minus_eq: "x - y = x + y" for x y :: gf
  by transfer simp

lemma gf_add_eq_0_iff: "x + y = 0 \<longleftrightarrow> x = y" for x y :: gf
  by (metis gf_minus_eq right_minus_eq)

lemma gfInv_gf: "x \<noteq> 0 \<Longrightarrow> \<exists>y. gfInv x = Some y \<and> gf_of y \<noteq> 0 \<and> gf_of x * gf_of y = 1"
  by (metis gfInv_Some gf_of_gfMul gf_of_1 mult_zero_right zero_neq_one)

lemma gf_of_gexp: "gf_of (gexp n) = gf_of 2 ^ n"
proof (induction n)
  case (Suc n)
  have "gexp (Suc n) = gfMul (gexp 1) (gexp n)"
    by (simp add: gfMul_gexp)
  moreover have "gexp 1 = 2"
    using gfPow_2 [of 1] by (simp add: gfPow_def) (simp add: gexp_def xtime_def bit_simps)
  ultimately show ?case
    using Suc by (simp add: gf_hom)
qed (simp add: gf_hom)

subsection \<open>Table multiplication is polynomial multiplication\<close>

text \<open>
  The reference: multiply the polynomials with coefficients in GF(2) and reduce modulo
  \<^verbatim>\<open>x^8 + x^4 + x^3 + x^2 + 1\<close>, by adding \<open>b\<close> doubled \<open>i\<close> times for every set bit \<open>i\<close> of \<open>a\<close>.
\<close>

definition gf_mul_ref :: "byte \<Rightarrow> byte \<Rightarrow> byte" where
  "gf_mul_ref a b = foldr (\<lambda>i acc. (if bit a i then (xtime ^^ i) b else 0) XOR acc) [0..<8] 0"

lemma gexp_bit: "i < 8 \<Longrightarrow> gexp i = push_bit i 1"
proof -
  have "\<forall>i\<in>set [0..<8]. gexp i = push_bit i (1 :: byte)"
    by (simp add: gexp_def xtime_def bit_simps numeral_eq_Suc)
  then show "i < 8 \<Longrightarrow> gexp i = push_bit i 1" by simp
qed

lemma byte_as_bits: "a = foldr (\<lambda>i acc. (if bit a i then gexp i else 0) XOR acc) [0..<8] 0"
proof (rule bit_word_eqI)
  fix n assume "n < LENGTH(8)"
  have *: "bit (foldr (\<lambda>i acc. (if bit a i then gexp i else 0) XOR acc) is 0) n \<longleftrightarrow>
             n \<in> set is \<and> bit a n" if "distinct is" "set is \<subseteq> {..<8}" for "is"
    using that \<open>n < LENGTH(8)\<close>
    by (induction "is") (auto simp: bit_xor_iff gexp_bit bit_exp_iff)
  show "bit a n = bit (foldr (\<lambda>i acc. (if bit a i then gexp i else 0) XOR acc) [0..<8] 0) n"
    by (subst *) (use \<open>n < LENGTH(8)\<close> in auto)
qed

lemma gfMul_foldr:
  "gfMul (foldr (\<lambda>i acc. (if bit a i then gexp i else 0) XOR acc) is 0) b =
   foldr (\<lambda>i acc. (if bit a i then (xtime ^^ i) b else 0) XOR acc) is 0"
  by (induction "is") (simp_all add: gfMul_commute [of _ b] gfMul_xor gfMul_xtime [symmetric])

text \<open>
  The table-driven multiplication of the erasure codec is multiplication of polynomials
  modulo \<^verbatim>\<open>0x11d\<close>, for all bytes.
\<close>

theorem gfMul_polynomial: "gfMul a b = gf_mul_ref a b"
  using gfMul_foldr [of a "[0..<8]" b] byte_as_bits [of a] by (simp only: gf_mul_ref_def)

end
