(* ===== verification/Matrix.thy ===== *)
theory Matrix
  imports GF256
begin

text \<open>
  Matrix inversion over GF(256) as \<^verbatim>\<open>invertMatrix\<close> of
  \<^verbatim>\<open>internal/erasure/rs_internal.go\<close> performs it: Gauss-Jordan elimination on the matrix
  augmented with the identity. The result is a left inverse, its own kernel is trivial, and
  the elimination finds a pivot in every column when the matrix has a trivial kernel.
\<close>

datatype rs_error =
    ErrDataShardsZero
  | ErrTotalShardsMismatch
  | ErrShardSizeMismatch
  | ErrTooFewShards
  | ErrShardSize
  | ErrSingular nat
  | ErrShardCount nat
  | ErrNotPositive int int
  | ErrPackageSize nat
  | Panic

type_synonym matrix = "byte list list"

subsection \<open>Gauss-Jordan elimination\<close>

definition augment :: "matrix \<Rightarrow> nat \<Rightarrow> matrix" where
  "augment m n = map (\<lambda>i. (copy_slice (replicate (2 * n) 0) (m ! i))[n + i := 1]) [0..<n]"

definition find_pivot :: "matrix \<Rightarrow> nat \<Rightarrow> nat \<Rightarrow> nat option" where
  "find_pivot aug n col = find (\<lambda>row. aug ! row ! col \<noteq> 0) [col..<n]"

definition swap_rows :: "matrix \<Rightarrow> nat \<Rightarrow> nat \<Rightarrow> matrix" where
  "swap_rows aug i j = aug[i := aug ! j, j := aug ! i]"

definition scale_row :: "byte \<Rightarrow> byte list \<Rightarrow> byte list" where
  "scale_row s row = map (\<lambda>x. gfMul x s) row"

definition add_scaled_row :: "byte \<Rightarrow> byte list \<Rightarrow> byte list \<Rightarrow> byte list" where
  "add_scaled_row factor src dst = map2 (\<lambda>d s. d XOR gfMul factor s) dst src"

definition eliminate_row :: "nat \<Rightarrow> nat \<Rightarrow> matrix \<Rightarrow> matrix" where
  "eliminate_row col row aug =
     (if row = col \<or> aug ! row ! col = 0 then aug
      else aug[row := add_scaled_row (aug ! row ! col) (aug ! col) (aug ! row)])"

definition gauss_step :: "nat \<Rightarrow> nat \<Rightarrow> matrix \<Rightarrow> rs_error + matrix" where
  "gauss_step n col aug =
     (case find_pivot aug n col of
        None \<Rightarrow> Inl (ErrSingular col)
      | Some pivot \<Rightarrow>
          (let aug = swap_rows aug col pivot
           in case gfInv (aug ! col ! col) of
                None \<Rightarrow> Inl Panic
              | Some scale \<Rightarrow>
                  Inr (fold (eliminate_row col) [0..<n]
                         (aug[col := scale_row scale (aug ! col)]))))"

fun gauss :: "nat \<Rightarrow> nat list \<Rightarrow> matrix \<Rightarrow> rs_error + matrix" where
  "gauss n [] aug = Inr aug"
| "gauss n (col # cols) aug =
     (case gauss_step n col aug of Inl e \<Rightarrow> Inl e | Inr aug' \<Rightarrow> gauss n cols aug')"

definition invertMatrix :: "matrix \<Rightarrow> nat \<Rightarrow> rs_error + matrix" where
  "invertMatrix m n =
     (if length m < n then Inl Panic
      else case gauss n [0..<n] (augment m n) of
             Inl e \<Rightarrow> Inl e
           | Inr aug \<Rightarrow> Inr (map (\<lambda>i. drop n (aug ! i)) [0..<n]))"

subsection \<open>Row spaces and kernels\<close>

text \<open>Entry \<open>(i, j)\<close> of a matrix of bytes, as a field element.\<close>

definition ent :: "matrix \<Rightarrow> nat \<Rightarrow> nat \<Rightarrow> gf" where
  "ent A i j = gf_of (A ! i ! j)"

definition wf_mat :: "nat \<Rightarrow> nat \<Rightarrow> matrix \<Rightarrow> bool" where
  "wf_mat r c A \<longleftrightarrow> length A = r \<and> (\<forall>i<r. length (A ! i) = c)"

text \<open>The vector \<open>v\<close> is annihilated by columns \<open>off, \<dots>, off + n - 1\<close> of the rows of \<open>A\<close>.\<close>

definition annihilates :: "nat \<Rightarrow> nat \<Rightarrow> matrix \<Rightarrow> (nat \<Rightarrow> gf) \<Rightarrow> bool" where
  "annihilates n off A v \<longleftrightarrow> (\<forall>i<n. (\<Sum>k<n. ent A i (off + k) * v k) = 0)"

definition trivial_kernel :: "nat \<Rightarrow> nat \<Rightarrow> matrix \<Rightarrow> bool" where
  "trivial_kernel n off A \<longleftrightarrow> (\<forall>v. annihilates n off A v \<longrightarrow> (\<forall>k<n. v k = 0))"

text \<open>
  What every row operation keeps: the left half is the right half times \<open>M\<close>, and a vector
  killed by the current left half is killed by \<open>M\<close>; likewise the right half stays injective.
\<close>

definition aug_inv :: "nat \<Rightarrow> matrix \<Rightarrow> matrix \<Rightarrow> bool" where
  "aug_inv n M A \<longleftrightarrow>
     wf_mat n (2 * n) A \<and>
     (\<forall>i<n. \<forall>c<n. ent A i c = (\<Sum>k<n. ent A i (n + k) * ent M k c)) \<and>
     (\<forall>v. annihilates n 0 A v \<longrightarrow> annihilates n 0 M v) \<and>
     trivial_kernel n n A"

text \<open>The first \<open>c\<close> columns are those of the identity.\<close>

definition unit_cols :: "nat \<Rightarrow> nat \<Rightarrow> matrix \<Rightarrow> bool" where
  "unit_cols n c A \<longleftrightarrow> (\<forall>j<c. \<forall>i<n. ent A i j = (if i = j then 1 else 0))"

text \<open>
  A row operation, abstractly: \<open>A'\<close> has rows that are combinations of the rows of \<open>A\<close> by the
  square matrix \<open>T\<close>, and the rows of \<open>A\<close> are combinations of those of \<open>A'\<close> by \<open>S\<close>.
\<close>

definition row_equiv :: "nat \<Rightarrow> matrix \<Rightarrow> matrix \<Rightarrow> bool" where
  "row_equiv n A A' \<longleftrightarrow>
     (\<exists>T. \<forall>i<n. \<forall>j<2 * n. ent A' i j = (\<Sum>k<n. T i k * ent A k j)) \<and>
     (\<exists>S. \<forall>i<n. \<forall>j<2 * n. ent A i j = (\<Sum>k<n. S i k * ent A' k j))"

lemma annihilates_combination:
  assumes "\<forall>i<n. \<forall>j<2 * n. ent B i j = (\<Sum>k<n. T i k * ent A k j)"
    and "off \<le> n" and "annihilates n off A v"
  shows "annihilates n off B v"
  unfolding annihilates_def
proof (intro allI impI)
  fix i assume "i < n"
  have "(\<Sum>c<n. ent B i (off + c) * v c) = (\<Sum>c<n. (\<Sum>k<n. T i k * ent A k (off + c)) * v c)"
    using assms(1,2) \<open>i < n\<close> by (intro sum.cong) auto
  also have "\<dots> = (\<Sum>k<n. T i k * (\<Sum>c<n. ent A k (off + c) * v c))"
    unfolding sum_distrib_left sum_distrib_right by (subst sum.swap) (simp add: mult.assoc)
  also have "\<dots> = 0"
    using assms(3) by (simp add: annihilates_def)
  finally show "(\<Sum>c<n. ent B i (off + c) * v c) = 0" .
qed

lemma aug_inv_row_equiv:
  assumes "aug_inv n M A" and "row_equiv n A A'" and "wf_mat n (2 * n) A'"
  shows "aug_inv n M A'"
proof -
  from assms(2) obtain T S where
    T: "\<forall>i<n. \<forall>j<2 * n. ent A' i j = (\<Sum>k<n. T i k * ent A k j)" and
    S: "\<forall>i<n. \<forall>j<2 * n. ent A i j = (\<Sum>k<n. S i k * ent A' k j)"
    unfolding row_equiv_def by blast
  have left: "ent A k c = (\<Sum>l<n. ent A k (n + l) * ent M l c)" if "k < n" "c < n" for k c
    using assms(1) that by (simp add: aug_inv_def)
  have "ent A' i c = (\<Sum>l<n. ent A' i (n + l) * ent M l c)" if "i < n" "c < n" for i c
  proof -
    have "ent A' i c = (\<Sum>k<n. T i k * (\<Sum>l<n. ent A k (n + l) * ent M l c))"
      using T that by (simp add: left)
    also have "\<dots> = (\<Sum>l<n. (\<Sum>k<n. T i k * ent A k (n + l)) * ent M l c)"
      unfolding sum_distrib_left sum_distrib_right by (subst sum.swap) (simp add: mult.assoc)
    also have "\<dots> = (\<Sum>l<n. ent A' i (n + l) * ent M l c)"
      using T that by (intro sum.cong) auto
    finally show ?thesis .
  qed
  moreover have "annihilates n 0 M v" if "annihilates n 0 A' v" for v
    using assms(1) annihilates_combination [OF S _ that] by (simp add: aug_inv_def)
  moreover have "trivial_kernel n n A'"
    using assms(1) annihilates_combination [OF S, of n]
    by (auto simp: aug_inv_def trivial_kernel_def)
  ultimately show ?thesis
    using assms(3) by (simp add: aug_inv_def)
qed

subsection \<open>The elementary operations\<close>

definition two_term :: "nat \<Rightarrow> matrix \<Rightarrow> matrix \<Rightarrow> bool" where
  "two_term n A A' \<longleftrightarrow>
     (\<forall>i<n. \<exists>a p b q. p < n \<and> q < n \<and>
        (\<forall>j<2 * n. ent A' i j = a * ent A p j + b * ent A q j))"

lemma two_term_combination:
  assumes "two_term n A A'"
  shows "\<exists>T. \<forall>i<n. \<forall>j<2 * n. ent A' i j = (\<Sum>k<n. T i k * ent A k j)"
proof -
  from assms obtain a p b q where
    f: "\<And>i. i < n \<Longrightarrow> p i < n \<and> q i < n \<and>
          (\<forall>j<2 * n. ent A' i j = a i * ent A (p i) j + b i * ent A (q i) j)"
    unfolding two_term_def by metis
  let ?T = "\<lambda>i k. (if k = p i then a i else 0) + (if k = q i then b i else 0)"
  have "(\<Sum>k<n. ?T i k * ent A k j) = a i * ent A (p i) j + b i * ent A (q i) j"
    if "i < n" for i j
    using f [OF that] by (simp add: distrib_right sum.distrib if_distrib [of "\<lambda>x. x * _"] cong: if_cong)
  with f show ?thesis by (intro exI [of _ ?T]) auto
qed

lemma two_term_row_equiv: "two_term n A A' \<Longrightarrow> two_term n A' A \<Longrightarrow> row_equiv n A A'"
  by (simp add: row_equiv_def two_term_combination)

lemma two_termI:
  assumes "\<And>i. i < n \<Longrightarrow> p i < n \<and> q i < n"
    and "\<And>i j. i < n \<Longrightarrow> j < 2 * n \<Longrightarrow> ent A' i j = a i * ent A (p i) j + b i * ent A (q i) j"
  shows "two_term n A A'"
  unfolding two_term_def using assms by metis

lemma ent_update:
  "i < length A \<Longrightarrow> ent (A[r := row]) i j = (if i = r then gf_of (row ! j) else ent A i j)"
  by (simp add: ent_def nth_list_update)

lemma wf_mat_update: "wf_mat r c A \<Longrightarrow> length row = c \<Longrightarrow> wf_mat r c (A[i := row])"
  by (auto simp: wf_mat_def nth_list_update_if)

lemma ent_swap_rows:
  assumes "wf_mat n w A" and "i < n" and "c < n" and "p < n"
  shows "ent (swap_rows A c p) i j = ent A (if i = p then c else if i = c then p else i) j"
  using assms by (auto simp: swap_rows_def ent_def wf_mat_def nth_list_update)

lemma wf_swap_rows: "wf_mat n w A \<Longrightarrow> c < n \<Longrightarrow> p < n \<Longrightarrow> wf_mat n w (swap_rows A c p)"
  by (auto simp: swap_rows_def wf_mat_def nth_list_update)

lemma row_equiv_swap:
  assumes "wf_mat n (2 * n) A" and "c < n" and "p < n"
  shows "row_equiv n A (swap_rows A c p)"
proof (rule two_term_row_equiv)
  let ?f = "\<lambda>i. if i = p then c else if i = c then p else i"
  show "two_term n A (swap_rows A c p)"
    by (rule two_termI [where p = ?f and q = ?f and a = "\<lambda>_. 1" and b = "\<lambda>_. 0"])
      (use assms in \<open>auto simp: ent_swap_rows\<close>)
  show "two_term n (swap_rows A c p) A"
    by (rule two_termI [where p = ?f and q = ?f and a = "\<lambda>_. 1" and b = "\<lambda>_. 0"])
      (use assms in \<open>auto simp: ent_swap_rows\<close>)
qed

lemma ent_scale:
  assumes "wf_mat n w A" and "i < n" and "c < n" and "j < w"
  shows "ent (A[c := scale_row s (A ! c)]) i j = (if i = c then ent A c j * gf_of s else ent A i j)"
  using assms by (auto simp: ent_def wf_mat_def scale_row_def gf_hom)

lemma wf_scale: "wf_mat n w A \<Longrightarrow> c < n \<Longrightarrow> wf_mat n w (A[c := scale_row s (A ! c)])"
  by (rule wf_mat_update) (simp_all add: wf_mat_def scale_row_def)

lemma row_equiv_scale:
  assumes "wf_mat n (2 * n) A" and "c < n" and "s \<noteq> 0"
  shows "row_equiv n A (A[c := scale_row s (A ! c)])"
proof (rule two_term_row_equiv)
  show "two_term n A (A[c := scale_row s (A ! c)])"
    by (rule two_termI [where p = "\<lambda>i. i" and q = "\<lambda>i. i" and b = "\<lambda>_. 0"
          and a = "\<lambda>i. if i = c then gf_of s else 1"])
      (use assms in \<open>auto simp: ent_scale\<close>)
  show "two_term n (A[c := scale_row s (A ! c)]) A"
    by (rule two_termI [where p = "\<lambda>i. i" and q = "\<lambda>i. i" and b = "\<lambda>_. 0"
          and a = "\<lambda>i. if i = c then inverse (gf_of s) else 1"])
      (use assms in \<open>auto simp: ent_scale\<close>)
qed

lemma ent_eliminate:
  assumes "wf_mat n w A" and "i < n" and "c < n" and "r < n" and "j < w" and "c < w"
  shows "ent (eliminate_row c r A) i j =
           (if i = r \<and> r \<noteq> c then ent A r j + ent A r c * ent A c j else ent A i j)"
  using assms
  by (auto simp: ent_def eliminate_row_def add_scaled_row_def wf_mat_def nth_list_update gf_hom)

lemma wf_eliminate: "wf_mat n w A \<Longrightarrow> c < n \<Longrightarrow> r < n \<Longrightarrow> wf_mat n w (eliminate_row c r A)"
  by (auto simp: eliminate_row_def add_scaled_row_def intro!: wf_mat_update) (simp add: wf_mat_def)

lemma row_equiv_eliminate:
  assumes "wf_mat n (2 * n) A" and "c < n" and "r < n"
  shows "row_equiv n A (eliminate_row c r A)"
proof (rule two_term_row_equiv)
  let ?b = "\<lambda>i. if i = r \<and> r \<noteq> c then ent A r c else 0"
  show "two_term n A (eliminate_row c r A)"
    by (rule two_termI [where p = "\<lambda>i. i" and q = "\<lambda>_. c" and a = "\<lambda>_. 1" and b = ?b])
      (use assms in \<open>auto simp: ent_eliminate\<close>)
  show "two_term n (eliminate_row c r A) A"
    by (rule two_termI [where p = "\<lambda>i. i" and q = "\<lambda>_. c" and a = "\<lambda>_. 1" and b = ?b])
      (use assms in \<open>auto simp: ent_eliminate add.assoc\<close>)
qed

lemma aug_inv_swap:
  assumes "aug_inv n M A" and "c < n" and "p < n"
  shows "aug_inv n M (swap_rows A c p)"
proof -
  have wf: "wf_mat n (2 * n) A" using assms(1) by (simp add: aug_inv_def)
  from assms(1) row_equiv_swap [OF wf assms(2,3)] wf_swap_rows [OF wf assms(2,3)]
  show ?thesis by (rule aug_inv_row_equiv)
qed

lemma aug_inv_scale:
  assumes "aug_inv n M A" and "c < n" and "s \<noteq> 0"
  shows "aug_inv n M (A[c := scale_row s (A ! c)])"
proof -
  have wf: "wf_mat n (2 * n) A" using assms(1) by (simp add: aug_inv_def)
  from assms(1) row_equiv_scale [OF wf assms(2,3)] wf_scale [OF wf assms(2)]
  show ?thesis by (rule aug_inv_row_equiv)
qed

lemma aug_inv_eliminate:
  assumes "aug_inv n M A" and "c < n" and "r < n"
  shows "aug_inv n M (eliminate_row c r A)"
proof -
  have wf: "wf_mat n (2 * n) A" using assms(1) by (simp add: aug_inv_def)
  from assms(1) row_equiv_eliminate [OF wf assms(2,3)] wf_eliminate [OF wf assms(2,3)]
  show ?thesis by (rule aug_inv_row_equiv)
qed

subsection \<open>One column\<close>

lemma eliminate_all:
  assumes "wf_mat n (2 * n) A" and "aug_inv n M A" and "unit_cols n c A" and "c < n"
    and "ent A c c = 1"
  shows "aug_inv n M (fold (eliminate_row c) [0..<n] A) \<and>
         unit_cols n (Suc c) (fold (eliminate_row c) [0..<n] A)"
proof -
  let ?I = "\<lambda>r B. aug_inv n M B \<and> unit_cols n c B \<and> ent B c c = 1 \<and>
              (\<forall>i<r. i \<noteq> c \<longrightarrow> ent B i c = 0)"
  have "?I n (fold (eliminate_row c) [0..<n] A)"
  proof (rule fold_upt_invariant [where I = ?I])
    fix r B assume r: "r < n" and B: "?I r B"
    then have wf: "wf_mat n (2 * n) B"
      by (simp add: aug_inv_def)
    have e: "ent (eliminate_row c r B) i j =
               (if i = r \<and> r \<noteq> c then ent B r j + ent B r c * ent B c j else ent B i j)"
      if "i < n" "j < n" for i j
      using that r assms(4) by (intro ent_eliminate [OF wf]) auto
    have "aug_inv n M (eliminate_row c r B)"
      using B r assms(4) by (simp add: aug_inv_eliminate)
    moreover have "unit_cols n c (eliminate_row c r B)"
      using B assms(4) by (simp add: unit_cols_def e)
    moreover have "ent (eliminate_row c r B) c c = 1"
      using B assms(4) by (auto simp: e)
    moreover have "\<forall>i<Suc r. i \<noteq> c \<longrightarrow> ent (eliminate_row c r B) i c = 0"
    proof (intro allI impI)
      fix i assume that: "i < Suc r" "i \<noteq> c"
      have "i < n" using that(1) r by simp
      from e [OF this assms(4)] show "ent (eliminate_row c r B) i c = 0"
        using B that by (cases "i = r") auto
    qed
    ultimately show "?I (Suc r) (eliminate_row c r B)" by blast
  qed (use assms in auto)
  then show ?thesis by (auto simp: unit_cols_def less_Suc_eq)
qed

lemma gauss_step_no_pivot:
  assumes "aug_inv n M A" and "unit_cols n c A" and "c < n"
    and "\<forall>i. c \<le> i \<and> i < n \<longrightarrow> ent A i c = 0"
  shows "\<not> trivial_kernel n 0 M"
proof
  assume "trivial_kernel n 0 M"
  let ?v = "\<lambda>k. if k = c then 1 else if k < c then ent A k c else 0"
  have "(\<Sum>k<n. ent A i k * ?v k) = 0" if "i < n" for i
  proof -
    have "(\<Sum>k<n. ent A i k * ?v k) =
            (\<Sum>k<n. (if k = c then ent A i c else 0) + (if k = i then (if i < c then ent A i c else 0) else 0))"
      using assms(2,3) that by (intro sum.cong) (auto simp: unit_cols_def)
    also have "\<dots> = ent A i c + (if i < c then ent A i c else 0)"
      using assms(3) that by (simp add: sum.distrib)
    also have "\<dots> = 0"
      using assms(4) that by auto
    finally show ?thesis .
  qed
  then have "annihilates n 0 A ?v"
    by (simp add: annihilates_def)
  with assms(1) have "annihilates n 0 M ?v"
    by (simp add: aug_inv_def)
  with \<open>trivial_kernel n 0 M\<close> assms(3) have "?v c = 0"
    unfolding trivial_kernel_def by blast
  then show False by simp
qed

lemma find_pivot_Some:
  "find_pivot A n c = Some p \<Longrightarrow> c \<le> p \<and> p < n \<and> A ! p ! c \<noteq> 0"
  by (auto simp: find_pivot_def find_Some_iff)

lemma find_pivot_None:
  "find_pivot A n c = None \<Longrightarrow> c \<le> i \<Longrightarrow> i < n \<Longrightarrow> ent A i c = 0"
  by (auto simp: find_pivot_def find_None_iff ent_def gf_hom)

lemma gauss_step_Some:
  assumes A: "aug_inv n M A" "unit_cols n c A" "c < n" and p: "find_pivot A n c = Some p"
  shows "\<exists>A'. gauss_step n c A = Inr A' \<and> aug_inv n M A' \<and> unit_cols n (Suc c) A'"
proof -
  from p have p': "c \<le> p" "p < n" "A ! p ! c \<noteq> 0"
    using find_pivot_Some by blast+
  have wf: "wf_mat n (2 * n) A"
    using A(1) by (simp add: aug_inv_def)
  let ?B = "swap_rows A c p"
  have wfB: "wf_mat n (2 * n) ?B"
    using wf A(3) p'(2) by (rule wf_swap_rows)
  have eB: "ent ?B i j = ent A (if i = p then c else if i = c then p else i) j" if "i < n" for i j
    using wf that A(3) p'(2) by (rule ent_swap_rows)
  have "ent ?B c c = ent A p c"
    using eB [OF A(3), of c] by (cases "c = p") auto
  then have Bcc: "?B ! c ! c \<noteq> 0"
    using p'(3) by (simp add: ent_def)
  then obtain s where s: "gfInv (?B ! c ! c) = Some s" "gf_of s \<noteq> 0" "ent ?B c c * gf_of s = 1"
    using gfInv_gf unfolding ent_def by blast
  let ?C = "?B[c := scale_row s (?B ! c)]"
  have wfC: "wf_mat n (2 * n) ?C"
    using wfB A(3) by (rule wf_scale)
  have eC: "ent ?C i j = (if i = c then ent ?B c j * gf_of s else ent ?B i j)" if "i < n" "j < n" for i j
    using that A(3) by (intro ent_scale [OF wfB]) auto
  have "aug_inv n M ?B"
    using A(1,3) p'(2) by (rule aug_inv_swap)
  then have "aug_inv n M ?C"
    using A(3) s(2) by (simp add: aug_inv_scale)
  moreover have "unit_cols n c ?C"
    using A p'(1,2) by (auto simp: unit_cols_def eC eB)
  moreover have "ent ?C c c = 1"
    using A(3) s(3) by (simp add: eC)
  ultimately have "aug_inv n M (fold (eliminate_row c) [0..<n] ?C)"
    "unit_cols n (Suc c) (fold (eliminate_row c) [0..<n] ?C)"
    using eliminate_all [OF wfC _ _ A(3)] by blast+
  moreover have "gauss_step n c A = Inr (fold (eliminate_row c) [0..<n] ?C)"
    by (simp add: gauss_step_def p s(1) Let_def)
  ultimately show ?thesis by blast
qed

lemma gauss_correct:
  assumes "aug_inv n M A" and "unit_cols n c A" and "c \<le> n"
  shows "(\<exists>A'. gauss n [c..<n] A = Inr A' \<and> aug_inv n M A' \<and> unit_cols n n A') \<or>
         (\<exists>c'<n. gauss n [c..<n] A = Inl (ErrSingular c')) \<and> \<not> trivial_kernel n 0 M"
  using assms
proof (induction "n - c" arbitrary: c A)
  case 0
  then show ?case by auto
next
  case (Suc d)
  then have c: "c < n" and upt: "[c..<n] = c # [Suc c..<n]"
    by (auto simp: upt_conv_Cons)
  show ?case
  proof (cases "find_pivot A n c")
    case None
    then have "gauss n [c..<n] A = Inl (ErrSingular c)"
      by (simp add: upt gauss_step_def)
    moreover have "\<not> trivial_kernel n 0 M"
      using Suc.prems c find_pivot_None [OF None] by (intro gauss_step_no_pivot) auto
    ultimately show ?thesis using c by blast
  next
    case (Some p)
    from gauss_step_Some [OF Suc.prems(1,2) c Some] obtain A' where
      A': "gauss_step n c A = Inr A'" "aug_inv n M A'" "unit_cols n (Suc c) A'"
      by blast
    have "d = n - Suc c" "Suc c \<le> n"
      using Suc.hyps(2) c by auto
    from Suc.hyps(1) [OF this(1) A'(2,3) this(2)] show ?thesis
      by (simp add: upt A'(1))
  qed
qed

subsection \<open>The inverse\<close>

lemma aug_inv_augment:
  assumes "length m \<ge> n" and "\<forall>i<n. length (m ! i) = n"
  shows "aug_inv n m (augment m n)"
proof -
  have nth: "augment m n ! i ! j = (if j = n + i then 1 else if j < n then m ! i ! j else 0)"
    if "i < n" "j < 2 * n" for i j
    using assms that by (simp add: augment_def nth_list_update_if copy_slice_nth)
  have "wf_mat n (2 * n) (augment m n)"
    by (simp add: wf_mat_def augment_def)
  moreover have "ent (augment m n) i c = (\<Sum>k<n. ent (augment m n) i (n + k) * ent m k c)"
    if "i < n" "c < n" for i c
  proof -
    have "(\<Sum>k<n. ent (augment m n) i (n + k) * ent m k c) = (\<Sum>k<n. if k = i then ent m i c else 0)"
      using that by (intro sum.cong) (auto simp: ent_def nth gf_hom)
    with that show ?thesis by (simp add: ent_def nth)
  qed
  moreover have "annihilates n 0 (augment m n) v \<Longrightarrow> annihilates n 0 m v" for v
    by (simp add: annihilates_def ent_def nth)
  moreover have "trivial_kernel n n (augment m n)"
    unfolding trivial_kernel_def
  proof (intro allI impI)
    fix v k assume v: "annihilates n n (augment m n) v" and k: "k < n"
    have "(\<Sum>l<n. ent (augment m n) k (n + l) * v l) = (\<Sum>l<n. if l = k then v k else 0)"
      using k by (intro sum.cong) (auto simp: ent_def nth gf_hom)
    with v k show "v k = 0" by (simp add: annihilates_def)
  qed
  ultimately show ?thesis by (simp add: aug_inv_def)
qed

definition left_inverse :: "nat \<Rightarrow> matrix \<Rightarrow> matrix \<Rightarrow> bool" where
  "left_inverse n W M \<longleftrightarrow>
     (\<forall>i<n. \<forall>j<n. (\<Sum>k<n. ent W i k * ent M k j) = (if i = j then 1 else 0))"

lemma invertMatrix_correct:
  assumes "length m \<ge> n" and "\<forall>i<n. length (m ! i) = n"
  shows "(\<exists>W. invertMatrix m n = Inr W \<and> wf_mat n n W \<and> left_inverse n W m \<and> trivial_kernel n 0 W) \<or>
         (\<exists>c<n. invertMatrix m n = Inl (ErrSingular c)) \<and> \<not> trivial_kernel n 0 m"
proof -
  from gauss_correct [OF aug_inv_augment [OF assms], of 0] consider
      (ok) A where "gauss n [0..<n] (augment m n) = Inr A" "aug_inv n m A" "unit_cols n n A"
    | (err) c where "c < n" "gauss n [0..<n] (augment m n) = Inl (ErrSingular c)" "\<not> trivial_kernel n 0 m"
    by (auto simp: unit_cols_def)
  then show ?thesis
  proof cases
    case ok
    let ?W = "map (\<lambda>i. drop n (A ! i)) [0..<n]"
    have wf: "wf_mat n (2 * n) A"
      using ok by (simp add: aug_inv_def)
    have e: "ent ?W i k = ent A i (n + k)" if "i < n" "k < n" for i k
      using that wf by (simp add: ent_def wf_mat_def)
    have "left_inverse n ?W m"
      using ok(2,3) by (simp add: left_inverse_def e aug_inv_def unit_cols_def)
    moreover have "trivial_kernel n 0 ?W"
      using ok(2) by (simp add: aug_inv_def trivial_kernel_def annihilates_def e)
    moreover have "wf_mat n n ?W"
      using wf by (simp add: wf_mat_def)
    ultimately show ?thesis
      using ok(1) assms(1) by (simp add: invertMatrix_def)
  next
    case err
    then show ?thesis
      using assms(1) by (auto simp: invertMatrix_def)
  qed
qed

text \<open>A left inverse without kernel is a right inverse.\<close>

lemma left_inverse_right:
  assumes "left_inverse n W M" and "trivial_kernel n 0 W" and "i < n" and "j < n"
  shows "(\<Sum>k<n. ent M i k * ent W k j) = (if i = j then 1 else 0)"
proof -
  let ?x = "\<lambda>r. (\<Sum>k<n. ent M r k * ent W k j) + (if r = j then 1 else 0)"
  have "(\<Sum>r<n. ent W l r * ?x r) = 0" if "l < n" for l
  proof -
    have "(\<Sum>r<n. ent W l r * (\<Sum>k<n. ent M r k * ent W k j)) =
            (\<Sum>k<n. (\<Sum>r<n. ent W l r * ent M r k) * ent W k j)"
      unfolding sum_distrib_left sum_distrib_right by (subst sum.swap) (simp add: mult.assoc)
    also have "\<dots> = (\<Sum>k<n. if k = l then ent W l j else 0)"
      using assms(1) that by (intro sum.cong) (auto simp: left_inverse_def)
    also have "\<dots> = ent W l j"
      using that by simp
    finally have "(\<Sum>r<n. ent W l r * (\<Sum>k<n. ent M r k * ent W k j)) = ent W l j" .
    moreover have "(\<Sum>r<n. ent W l r * (if r = j then 1 else 0)) = (\<Sum>r<n. if r = j then ent W l j else 0)"
      by (intro sum.cong) auto
    ultimately show ?thesis
      using assms(4) by (simp add: distrib_left sum.distrib)
  qed
  then have "annihilates n 0 W ?x"
    by (simp add: annihilates_def)
  with assms(2,3) have "?x i = 0"
    unfolding trivial_kernel_def by blast
  then show ?thesis
    by (simp only: gf_add_eq_0_iff)
qed

end
