(* ===== verification/Erasure.thy ===== *)
theory Erasure
  imports Config Matrix
begin

text \<open>
  The Reed-Solomon codec and the Engine of \<^verbatim>\<open>internal/erasure\<close>: the systematic generator
  matrix from a Vandermonde matrix, encoding, reconstruction of missing data shards, and the
  exported \<^verbatim>\<open>NewEngine\<close>, \<^verbatim>\<open>EncodeSegment\<close> and \<^verbatim>\<open>DecodeSegment\<close>. A nil shard is
  \<open>None\<close>; operations that fill the caller's slice in place return the updated slice; an index
  panic is the error \<open>Panic\<close>. The main result is that any \<open>DataShards\<close> of the shards give back
  the encoded package, for at most 255 shards.
\<close>

subsection \<open>Generator matrix\<close>

definition vandermonde :: "nat \<Rightarrow> nat \<Rightarrow> matrix" where
  "vandermonde n data = map (\<lambda>r. map (\<lambda>c. gfPow 2 (r * c)) [0..<data]) [0..<n]"

definition buildGeneratorMatrix :: "nat \<Rightarrow> nat \<Rightarrow> rs_error + matrix" where
  "buildGeneratorMatrix data parity =
     (let n = data + parity;
          vm = vandermonde n data
      in case invertMatrix (take data vm) data of
           Inl e \<Rightarrow> Inl e
         | Inr W \<Rightarrow>
             Inr (map (\<lambda>r. map (\<lambda>c.
                    fold (\<lambda>k acc. acc XOR gfMul (vm ! (data + r) ! k) (W ! k ! c)) [0..<data] 0)
                  [0..<data]) [0..<parity]))"

record rsEncoder =
  rs_data :: nat
  rs_parity :: nat
  rs_gen :: matrix

definition newRSEncoder :: "int \<Rightarrow> int \<Rightarrow> rs_error + rsEncoder" where
  "newRSEncoder data parity =
     (if data < 1 \<or> parity < 1 then Inl (ErrNotPositive data parity)
      else case buildGeneratorMatrix (nat data) (nat parity) of
             Inl e \<Rightarrow> Inl e
           | Inr gen \<Rightarrow> Inr \<lparr>rs_data = nat data, rs_parity = nat parity, rs_gen = gen\<rparr>)"

subsection \<open>Encoding and reconstruction\<close>

text \<open>
  The inner loop shared by both: \<^verbatim>\<open>dst[i] ^= table[src[i]]\<close> for every index of \<open>dst\<close>,
  skipped when the factor is 0; a source shorter than the destination is an index panic.
\<close>

definition mul_acc :: "byte \<Rightarrow> byte list \<Rightarrow> byte list \<Rightarrow> byte list option" where
  "mul_acc factor src dst =
     (if factor = 0 then Some dst
      else if length src < length dst then None
      else let table = gfMulTable factor in Some (map2 (\<lambda>d s. d XOR table ! unat s) dst src))"

fun mul_acc_row :: "(byte \<times> byte list) list \<Rightarrow> byte list \<Rightarrow> byte list option" where
  "mul_acc_row [] dst = Some dst"
| "mul_acc_row ((factor, src) # rest) dst =
     (case mul_acc factor src dst of None \<Rightarrow> None | Some dst' \<Rightarrow> mul_acc_row rest dst')"

text \<open>One round of the outer loop of \<^verbatim>\<open>encode\<close>, for row \<open>r\<close> of the parity block.\<close>

definition encode_row :: "nat \<Rightarrow> nat \<Rightarrow> byte list \<Rightarrow> byte list list \<Rightarrow> byte list list option" where
  "encode_row data r row shards =
     (if data + r < length shards \<and> length row \<le> length shards then
        (case mul_acc_row (zip row shards) (replicate (length (shards ! (data + r))) 0) of
           None \<Rightarrow> None
         | Some ps \<Rightarrow> Some (shards[data + r := ps]))
      else None)"

fun encode_rows :: "nat \<Rightarrow> nat \<Rightarrow> matrix \<Rightarrow> byte list list \<Rightarrow> byte list list option" where
  "encode_rows data r [] shards = Some shards"
| "encode_rows data r (row # rows) shards =
     (case encode_row data r row shards of
        None \<Rightarrow> None
      | Some shards' \<Rightarrow> encode_rows data (Suc r) rows shards')"

definition encode :: "rsEncoder \<Rightarrow> byte list list \<Rightarrow> byte list list option" where
  "encode enc shards = encode_rows (rs_data enc) 0 (rs_gen enc) shards"

type_synonym shards = "byte list option list"

definition shard_size :: "shards \<Rightarrow> nat" where
  "shard_size shards =
     fold (\<lambda>s n. case s of None \<Rightarrow> n | Some b \<Rightarrow> if n = 0 then length b else n) shards 0"

definition non_nil :: "shards \<Rightarrow> nat" where
  "non_nil shards = length (filter (\<lambda>s. s \<noteq> None) shards)"

definition encoding_row :: "rsEncoder \<Rightarrow> nat \<Rightarrow> byte list" where
  "encoding_row enc i =
     (if i < rs_data enc then (replicate (rs_data enc) 0)[i := 1]
      else rs_gen enc ! (i - rs_data enc))"

text \<open>The first \<^verbatim>\<open>enc.data\<close> non-nil shards, with their rows of the encoding matrix.\<close>

definition select_rows :: "rsEncoder \<Rightarrow> shards \<Rightarrow> (byte list \<times> byte list) list" where
  "select_rows enc shards =
     take (rs_data enc)
       (map (\<lambda>i. (encoding_row enc i, the (shards ! i)))
         (filter (\<lambda>i. shards ! i \<noteq> None) [0..<length shards]))"

fun rebuild :: "matrix \<Rightarrow> byte list list \<Rightarrow> nat \<Rightarrow> nat list \<Rightarrow> shards \<Rightarrow> shards option" where
  "rebuild W sub sz [] shards = Some shards"
| "rebuild W sub sz (i # is) shards =
     (if shards ! i \<noteq> None then rebuild W sub sz is shards
      else case mul_acc_row (zip (W ! i) sub) (replicate sz 0) of
             None \<Rightarrow> None
           | Some dst \<Rightarrow> rebuild W sub sz is (shards[i := Some dst]))"

definition reconstruct :: "rsEncoder \<Rightarrow> shards \<Rightarrow> rs_error + shards" where
  "reconstruct enc shards =
     (if length shards \<noteq> rs_data enc + rs_parity enc then Inl (ErrShardCount (length shards))
      else if non_nil shards < rs_data enc then Inl ErrTooFewShards
      else if list_all (\<lambda>i. shards ! i \<noteq> None) [0..<rs_data enc] then Inr shards
      else case invertMatrix (map fst (select_rows enc shards)) (rs_data enc) of
             Inl e \<Rightarrow> Inl e
           | Inr W \<Rightarrow>
               (case rebuild W (map snd (select_rows enc shards)) (shard_size shards)
                       [0..<rs_data enc] shards of
                  None \<Rightarrow> Inl Panic
                | Some shards' \<Rightarrow> Inr shards'))"

subsection \<open>Engine\<close>

definition ShardSize :: nat where "ShardSize = 262144"

record Engine =
  eng_DataShards :: nat
  eng_ParityShards :: nat
  eng_TotalShards :: nat
  eng_enc :: rsEncoder

definition profileConsistencyCheck :: "NetworkProfile \<Rightarrow> rs_error option" where
  "profileConsistencyCheck p =
     (if DataShards p < 1 then Some ErrDataShardsZero
      else if TotalShards p \<noteq> DataShards p + ParityShards p then Some ErrTotalShardsMismatch
      else if ShardSizeField p \<noteq> int ShardSize then Some ErrShardSizeMismatch
      else None)"

definition NewEngine :: "NetworkProfile \<Rightarrow> rs_error + Engine" where
  "NewEngine profile =
     (case profileConsistencyCheck profile of
        Some e \<Rightarrow> Inl e
      | None \<Rightarrow>
          (case newRSEncoder (DataShards profile) (ParityShards profile) of
             Inl e \<Rightarrow> Inl e
           | Inr enc \<Rightarrow>
               Inr \<lparr>eng_DataShards = nat (DataShards profile),
                    eng_ParityShards = nat (ParityShards profile),
                    eng_TotalShards = nat (TotalShards profile), eng_enc = enc\<rparr>))"

definition EncodeSegment :: "Engine \<Rightarrow> byte list \<Rightarrow> rs_error + byte list list" where
  "EncodeSegment e aontPackage =
     (if length aontPackage \<noteq> eng_DataShards e * ShardSize
      then Inl (ErrPackageSize (length aontPackage))
      else
        (let shards = map (\<lambda>i. slice (i * ShardSize) (Suc i * ShardSize) aontPackage)
                        [0..<eng_DataShards e]
                    @ map (\<lambda>i. replicate ShardSize 0) [eng_DataShards e..<eng_TotalShards e]
         in case encode (eng_enc e) shards of None \<Rightarrow> Inl Panic | Some s \<Rightarrow> Inr s))"

definition DecodeSegment :: "Engine \<Rightarrow> shards \<Rightarrow> rs_error + (byte list \<times> shards)" where
  "DecodeSegment e shards =
     (if length shards \<noteq> eng_TotalShards e then Inl (ErrShardCount (length shards))
      else if (\<exists>s\<in>set shards. s \<noteq> None \<and> length (the s) \<noteq> ShardSize) then Inl ErrShardSize
      else if non_nil shards < eng_DataShards e then Inl ErrTooFewShards
      else case reconstruct (eng_enc e) shards of
             Inl err \<Rightarrow> Inl err
           | Inr shards' \<Rightarrow>
               Inr (concat (map (\<lambda>i. the (shards' ! i)) [0..<eng_DataShards e]), shards'))"

subsection \<open>Vandermonde matrices have no kernel\<close>

lemma few_roots:
  fixes v :: "nat \<Rightarrow> 'a::idom"
  assumes "finite S" and "k \<le> card S" and "\<And>x. x \<in> S \<Longrightarrow> (\<Sum>c<k. v c * x ^ c) = 0" and "c < k"
  shows "v c = 0"
  using assms
proof (induction k arbitrary: S v c)
  case 0
  then show ?case by simp
next
  case (Suc k)
  then obtain a where a: "a \<in> S" by (metis card.empty ex_in_conv not_less_eq_eq le0)
  have top: "v k = 0"
  proof (cases "k = 0")
    case True
    then show ?thesis using Suc.prems(3) [OF a] by simp
  next
    case False
    let ?w = "\<lambda>j. \<Sum>i=Suc j..k. v i * a ^ (i - j - 1)"
    have "(\<Sum>j<k. ?w j * x ^ j) = 0" if "x \<in> S - {a}" for x
    proof -
      have "(x - a) * (\<Sum>j<k. ?w j * x ^ j) = (\<Sum>i\<le>k. v i * x ^ i) - (\<Sum>i\<le>k. v i * a ^ i)"
        using False by (subst polyfun_diff) auto
      also have "\<dots> = 0"
        using Suc.prems(3) a that by (simp add: lessThan_Suc_atMost)
      finally show ?thesis using that by simp
    qed
    moreover have "finite (S - {a})" "k \<le> card (S - {a})"
      using Suc.prems(1,2) a by auto
    ultimately have "?w (k - 1) = 0"
      using False by (intro Suc.IH [of "S - {a}" ?w "k - 1"]) auto
    with False show ?thesis by simp
  qed
  show ?case
  proof (cases "c = k")
    case False
    then have "c < k" using Suc.prems(4) by simp
    moreover have "(\<Sum>c<k. v c * x ^ c) = 0" if "x \<in> S" for x
      using Suc.prems(3) [OF that] top by simp
    ultimately show ?thesis
      using Suc.prems(1,2) by (intro Suc.IH [of S v c]) auto
  qed (simp add: top)
qed

text \<open>The evaluation points \<open>2 ^ r\<close> of rows below 255 are distinct.\<close>

definition point :: "nat \<Rightarrow> gf" where "point r = gf_of 2 ^ r"

lemma point_inj: "inj_on point {..<255}"
  by (auto simp: inj_on_def point_def gexp_inj simp flip: gf_of_gexp)

lemma gf_of_gfPow_2: "gf_of (gfPow 2 (r * c)) = point r ^ c"
  by (simp add: gfPow_2 gf_of_gexp point_def power_mult)

lemma points_kernel:
  assumes "distinct is" and "length is = k" and "set is \<subseteq> {..<255}"
    and "\<And>i. i \<in> set is \<Longrightarrow> (\<Sum>c<k. u c * point i ^ c) = 0" and "c < k"
  shows "u c = 0"
proof (rule few_roots [of "point ` set is" k])
  have "inj_on point (set is)"
    using point_inj assms(3) by (rule inj_on_subset)
  then show "k \<le> card (point ` set is)"
    using assms(1,2) by (simp add: card_image distinct_card)
qed (use assms in auto)

subsection \<open>The generator matrix\<close>

lemma ent_vandermonde: "i < n \<Longrightarrow> j < d \<Longrightarrow> ent (take d' (vandermonde n d)) i j = point i ^ j"
  if "i < d'" for d'
  using that by (simp add: ent_def vandermonde_def gf_of_gfPow_2)

lemma gf_of_fold_xor:
  "gf_of (fold (\<lambda>k acc. acc XOR f k) [0..<n] a) = gf_of a + (\<Sum>k<n. gf_of (f k))"
  by (induction n) (simp_all add: gf_hom add.assoc)

text \<open>
  \<open>systematic d p gen W\<close>: \<open>W\<close> inverts the top block of the Vandermonde matrix and \<open>gen\<close> is
  the bottom block times \<open>W\<close>.
\<close>

definition systematic :: "nat \<Rightarrow> nat \<Rightarrow> matrix \<Rightarrow> matrix \<Rightarrow> bool" where
  "systematic d p gen W \<longleftrightarrow>
     wf_mat p d gen \<and> trivial_kernel d 0 W \<and>
     (\<forall>i<d. \<forall>c<d. (\<Sum>k<d. point i ^ k * ent W k c) = (if i = c then 1 else 0)) \<and>
     (\<forall>r<p. \<forall>c<d. ent gen r c = (\<Sum>k<d. point (d + r) ^ k * ent W k c))"

lemma buildGeneratorMatrix_systematic:
  assumes "d + p \<le> 255"
  shows "\<exists>gen W. buildGeneratorMatrix d p = Inr gen \<and> systematic d p gen W"
proof -
  let ?vm = "vandermonde (d + p) d"
  let ?top = "take d ?vm"
  have top: "ent ?top i j = point i ^ j" if "i < d" "j < d" for i j
    using that by (simp add: ent_vandermonde)
  have "trivial_kernel d 0 ?top"
    unfolding trivial_kernel_def
  proof (intro allI impI)
    fix v c assume v: "annihilates d 0 ?top v" and c: "c < d"
    show "v c = 0"
    proof (rule points_kernel [of "[0..<d]" d v c])
      fix i assume "i \<in> set [0..<d]"
      then show "(\<Sum>c<d. v c * point i ^ c) = 0"
        using v by (simp add: annihilates_def top mult.commute)
    qed (use assms c in auto)
  qed
  then obtain W where W: "invertMatrix ?top d = Inr W" "left_inverse d W ?top" "trivial_kernel d 0 W"
    using invertMatrix_correct [of d ?top] by (auto simp: vandermonde_def)
  let ?gen = "map (\<lambda>r. map (\<lambda>c. fold (\<lambda>k acc. acc XOR gfMul (?vm ! (d + r) ! k) (W ! k ! c))
                [0..<d] 0) [0..<d]) [0..<p]"
  have "ent ?gen r c = (\<Sum>k<d. point (d + r) ^ k * ent W k c)" if "r < p" "c < d" for r c
    using that by (simp add: ent_def gf_of_fold_xor gf_hom vandermonde_def gf_of_gfPow_2)
  moreover have "(\<Sum>k<d. point i ^ k * ent W k c) = (if i = c then 1 else 0)" if "i < d" "c < d" for i c
    using left_inverse_right [OF W(2,3) that] that by (simp add: top)
  ultimately have "systematic d p ?gen W"
    using W(3) by (simp add: systematic_def wf_mat_def)
  moreover have "buildGeneratorMatrix d p = Inr ?gen"
    by (simp add: buildGeneratorMatrix_def Let_def W(1))
  ultimately show ?thesis by blast
qed

text \<open>A well-formed encoder, as \<^verbatim>\<open>newRSEncoder\<close> builds it.\<close>

definition wf_enc :: "rsEncoder \<Rightarrow> bool" where
  "wf_enc enc \<longleftrightarrow> 1 \<le> rs_data enc \<and> 1 \<le> rs_parity enc \<and> rs_data enc + rs_parity enc \<le> 255 \<and>
     (\<exists>W. systematic (rs_data enc) (rs_parity enc) (rs_gen enc) W)"

lemma newRSEncoder_wf:
  assumes "1 \<le> d" and "1 \<le> p" and "d + p \<le> 255"
  shows "\<exists>enc. newRSEncoder d p = Inr enc \<and> wf_enc enc \<and> rs_data enc = nat d \<and> rs_parity enc = nat p"
proof -
  from assms have "nat d + nat p \<le> 255" by linarith
  then obtain gen W where "buildGeneratorMatrix (nat d) (nat p) = Inr gen"
    "systematic (nat d) (nat p) gen W"
    using buildGeneratorMatrix_systematic by blast
  with assms show ?thesis
    by (auto simp: newRSEncoder_def wf_enc_def)
qed

lemma encoding_row_systematic:
  assumes "systematic (rs_data enc) (rs_parity enc) (rs_gen enc) W"
    and "i < rs_data enc + rs_parity enc" and "c < rs_data enc"
  shows "gf_of (encoding_row enc i ! c) = (\<Sum>k<rs_data enc. point i ^ k * ent W k c)"
  using assms by (auto simp: encoding_row_def systematic_def ent_def gf_hom nth_list_update_if)

text \<open>Any \<open>data\<close> rows of the encoding matrix are independent (the code is MDS).\<close>

lemma encoding_rows_kernel:
  assumes "wf_enc enc" and "distinct is" and "length is = rs_data enc"
    and "set is \<subseteq> {..<rs_data enc + rs_parity enc}"
  shows "trivial_kernel (rs_data enc) 0 (map (encoding_row enc) is)"
  unfolding trivial_kernel_def
proof (intro allI impI)
  let ?d = "rs_data enc"
  fix v c assume v: "annihilates ?d 0 (map (encoding_row enc) is) v" and c: "c < ?d"
  from assms(1) obtain W where W: "systematic ?d (rs_parity enc) (rs_gen enc) W"
    by (auto simp: wf_enc_def)
  let ?u = "\<lambda>k. \<Sum>c<?d. ent W k c * v c"
  have row: "(\<Sum>k<?d. ?u k * point i ^ k) = 0" if i: "i \<in> set is" for i
  proof -
    from i obtain r where r: "r < ?d" "is ! r = i"
      using assms(3) by (metis in_set_conv_nth)
    have "(\<Sum>c<?d. gf_of (encoding_row enc i ! c) * v c) = 0"
      using v r assms(3) by (auto simp: annihilates_def ent_def)
    moreover have "i < ?d + rs_parity enc"
      using assms(4) i by auto
    ultimately have "(\<Sum>c<?d. (\<Sum>k<?d. point i ^ k * ent W k c) * v c) = 0"
      using encoding_row_systematic [OF W] by simp
    then show ?thesis
      unfolding sum_distrib_left sum_distrib_right by (subst (asm) sum.swap) (simp add: ac_simps)
  qed
  have "?u k = 0" if "k < ?d" for k
  proof (rule points_kernel [of "is" ?d ?u k])
    show "set is \<subseteq> {..<255}"
      using assms(1,4) by (force simp: wf_enc_def)
  qed (use assms row that in auto)
  then have "annihilates ?d 0 W v"
    by (simp add: annihilates_def)
  with W c show "v c = 0"
    unfolding systematic_def trivial_kernel_def by blast
qed

subsection \<open>Encoding\<close>

lemma mul_acc_nth:
  assumes "length src = length dst"
  shows "\<exists>dst'. mul_acc f src dst = Some dst' \<and> length dst' = length dst \<and>
           (\<forall>b<length dst. gf_of (dst' ! b) = gf_of (dst ! b) + gf_of f * gf_of (src ! b))"
  using assms by (auto simp: mul_acc_def gfMulTable_nth gf_hom)

lemma mul_acc_row_nth:
  assumes "\<forall>(f, src) \<in> set fs. length src = length dst"
  shows "\<exists>dst'. mul_acc_row fs dst = Some dst' \<and> length dst' = length dst \<and>
           (\<forall>b<length dst. gf_of (dst' ! b) =
              gf_of (dst ! b) + (\<Sum>j<length fs. gf_of (fst (fs ! j)) * gf_of (snd (fs ! j) ! b)))"
  using assms
proof (induction fs arbitrary: dst)
  case Nil
  then show ?case by simp
next
  case (Cons p fs)
  obtain f src where p: "p = (f, src)" by fastforce
  with Cons.prems mul_acc_nth [of src dst f] obtain d1 where
    d1: "mul_acc f src dst = Some d1" "length d1 = length dst"
    "\<forall>b<length dst. gf_of (d1 ! b) = gf_of (dst ! b) + gf_of f * gf_of (src ! b)"
    by auto
  with Cons.IH [of d1] Cons.prems obtain d2 where
    d2: "mul_acc_row fs d1 = Some d2" "length d2 = length dst"
    "\<forall>b<length dst. gf_of (d2 ! b) =
       gf_of (d1 ! b) + (\<Sum>j<length fs. gf_of (fst (fs ! j)) * gf_of (snd (fs ! j) ! b))"
    by auto
  then show ?case
    using d1 by (simp add: p sum.lessThan_Suc_shift add.assoc del: sum.lessThan_Suc)
qed

text \<open>The dot product of a row of factors with the shards, from a zeroed destination.\<close>

lemma mul_acc_row_dot:
  assumes "length row = k" and "k \<le> length ss" and "\<forall>j<k. length (ss ! j) = L"
  shows "\<exists>dst. mul_acc_row (zip row ss) (replicate L 0) = Some dst \<and> length dst = L \<and>
           (\<forall>b<L. gf_of (dst ! b) = (\<Sum>j<k. gf_of (row ! j) * gf_of (ss ! j ! b)))"
proof -
  have "\<forall>(f, src) \<in> set (zip row ss). length src = length (replicate L (0 :: byte))"
    using assms by (auto simp: set_zip)
  from mul_acc_row_nth [OF this] show ?thesis
    using assms by (auto simp: gf_hom)
qed

text \<open>
  A codeword of \<open>enc\<close> with shards of length \<open>L\<close>: every shard is the combination of the data
  shards that its row of the encoding matrix gives.
\<close>

definition codeword :: "rsEncoder \<Rightarrow> nat \<Rightarrow> byte list list \<Rightarrow> bool" where
  "codeword enc L cw \<longleftrightarrow>
     length cw = rs_data enc + rs_parity enc \<and> (\<forall>i<length cw. length (cw ! i) = L) \<and>
     (\<forall>i<length cw. \<forall>b<L. gf_of (cw ! i ! b) =
        (\<Sum>c<rs_data enc. gf_of (encoding_row enc i ! c) * gf_of (cw ! c ! b)))"

lemma encode_rows_correct:
  assumes "d + r + length rows \<le> length shards" and "\<forall>row \<in> set rows. length row = d"
    and "\<forall>i<length shards. length (shards ! i) = L"
  shows "\<exists>out. encode_rows d r rows shards = Some out \<and> length out = length shards \<and>
           (\<forall>i<length out. length (out ! i) = L) \<and>
           (\<forall>i<length out. i < d + r \<or> d + r + length rows \<le> i \<longrightarrow> out ! i = shards ! i) \<and>
           (\<forall>j<length rows. \<forall>b<L. gf_of (out ! (d + r + j) ! b) =
              (\<Sum>c<d. gf_of (rows ! j ! c) * gf_of (shards ! c ! b)))"
  using assms
proof (induction rows arbitrary: r shards)
  case Nil
  then show ?case by simp
next
  case (Cons row rows)
  have "length row = d" "d \<le> length shards" "\<forall>j<d. length (shards ! j) = L"
    using Cons.prems by auto
  then obtain ps where ps: "mul_acc_row (zip row shards) (replicate L 0) = Some ps" "length ps = L"
    "\<forall>b<L. gf_of (ps ! b) = (\<Sum>j<d. gf_of (row ! j) * gf_of (shards ! j ! b))"
    using mul_acc_row_dot [of row d shards L] by auto
  let ?s = "shards[d + r := ps]"
  have step: "encode_row d r row shards = Some ?s"
    using Cons.prems ps(1) by (simp add: encode_row_def)
  have len: "\<forall>i<length ?s. length (?s ! i) = L"
    using Cons.prems ps(2) by (simp add: nth_list_update_if)
  from Cons.IH [of "Suc r" ?s] obtain out where out:
    "encode_rows d (Suc r) rows ?s = Some out" "length out = length shards"
    "\<forall>i<length out. length (out ! i) = L"
    "\<forall>i<length out. i < Suc (d + r) \<or> Suc (d + r) + length rows \<le> i \<longrightarrow> out ! i = ?s ! i"
    "\<forall>j<length rows. \<forall>b<L. gf_of (out ! (Suc (d + r) + j) ! b) =
       (\<Sum>c<d. gf_of (rows ! j ! c) * gf_of (?s ! c ! b))"
    using Cons.prems len by auto
  have "gf_of (out ! (d + r + j) ! b) = (\<Sum>c<d. gf_of ((row # rows) ! j ! c) * gf_of (shards ! c ! b))"
    if "j < Suc (length rows)" "b < L" for j b
  proof (cases j)
    case 0
    then show ?thesis
      using out(2,4) Cons.prems(1) ps(3) that by simp
  next
    case (Suc j')
    with out(5) that show ?thesis by (simp add: nth_list_update_if)
  qed
  with out Cons.prems(1) show ?case
    by (auto simp: step nth_list_update_if)
qed

lemma encode_codeword:
  assumes "wf_enc enc" and "length shards = rs_data enc + rs_parity enc"
    and "\<forall>i<length shards. length (shards ! i) = L"
  shows "\<exists>cw. encode enc shards = Some cw \<and> codeword enc L cw \<and>
           (\<forall>i<rs_data enc. cw ! i = shards ! i)"
proof -
  let ?d = "rs_data enc"
  have gen: "length (rs_gen enc) = rs_parity enc" "\<forall>row \<in> set (rs_gen enc). length row = ?d"
    using assms(1) by (auto simp: wf_enc_def systematic_def wf_mat_def in_set_conv_nth)
  from encode_rows_correct [of ?d 0 "rs_gen enc" shards L] obtain cw where cw:
    "encode_rows ?d 0 (rs_gen enc) shards = Some cw" "length cw = length shards"
    "\<forall>i<length cw. length (cw ! i) = L" "\<forall>i<?d. cw ! i = shards ! i"
    "\<forall>j<rs_parity enc. \<forall>b<L. gf_of (cw ! (?d + j) ! b) =
       (\<Sum>c<?d. gf_of (rs_gen enc ! j ! c) * gf_of (shards ! c ! b))"
    using assms gen by auto
  have "gf_of (cw ! i ! b) = (\<Sum>c<?d. gf_of (encoding_row enc i ! c) * gf_of (cw ! c ! b))"
    if "i < length cw" "b < L" for i b
  proof (cases "i < ?d")
    case True
    have "(\<Sum>c<?d. gf_of (encoding_row enc i ! c) * gf_of (cw ! c ! b)) =
            (\<Sum>c<?d. if c = i then gf_of (cw ! i ! b) else 0)"
      using True by (intro sum.cong) (auto simp: encoding_row_def nth_list_update_if gf_hom)
    with True show ?thesis by simp
  next
    case False
    with that assms(2) cw(2) have "i - ?d < rs_parity enc" "?d + (i - ?d) = i" by auto
    with cw(5) [rule_format, of "i - ?d" b] that(2) have "gf_of (cw ! i ! b) =
        (\<Sum>c<?d. gf_of (rs_gen enc ! (i - ?d) ! c) * gf_of (shards ! c ! b))"
      by simp
    then show ?thesis
      using False cw(4) by (simp add: encoding_row_def)
  qed
  then have "codeword enc L cw"
    using cw(2,3) assms(2) by (simp add: codeword_def)
  with cw(1,4) show ?thesis
    by (simp add: encode_def)
qed

lemma codeword_length:
  "codeword enc L cw \<Longrightarrow> length cw = rs_data enc + rs_parity enc"
  "codeword enc L cw \<Longrightarrow> i < length cw \<Longrightarrow> length (cw ! i) = L"
  by (simp_all add: codeword_def)

subsection \<open>Reconstruction\<close>

text \<open>\<open>kept\<close> is a codeword from which some shards were erased.\<close>

definition erased :: "byte list list \<Rightarrow> shards \<Rightarrow> bool" where
  "erased cw kept \<longleftrightarrow> length kept = length cw \<and>
     (\<forall>i<length cw. kept ! i = None \<or> kept ! i = Some (cw ! i))"

lemma erased_Some: "erased cw kept \<Longrightarrow> i < length cw \<Longrightarrow> kept ! i \<noteq> None \<Longrightarrow> kept ! i = Some (cw ! i)"
  unfolding erased_def by metis

lemma erased_length: "erased cw kept \<Longrightarrow> length kept = length cw"
  by (simp add: erased_def)

definition survivors :: "shards \<Rightarrow> nat list" where
  "survivors kept = filter (\<lambda>i. kept ! i \<noteq> None) [0..<length kept]"

lemma length_survivors: "length (survivors kept) = non_nil kept"
proof -
  have "map ((!) kept) (survivors kept) = filter (\<lambda>s. s \<noteq> None) kept"
    unfolding survivors_def using filter_map [of "\<lambda>s. s \<noteq> None" "(!) kept" "[0..<length kept]"]
    by (simp add: map_nth comp_def)
  then show ?thesis by (metis length_map non_nil_def)
qed

lemma survivors_props:
  assumes "i \<in> set (survivors kept)"
  shows "i < length kept" and "kept ! i \<noteq> None"
  using assms by (auto simp: survivors_def)

lemma shard_size_erased:
  assumes "erased cw kept" and "\<forall>i<length cw. length (cw ! i) = L" and "\<exists>i<length kept. kept ! i \<noteq> None"
  shows "shard_size kept = L"
proof -
  have all: "\<forall>s\<in>set kept. s = None \<or> (\<exists>b. s = Some b \<and> length b = L)"
    using assms(1,2) by (auto simp: erased_def in_set_conv_nth) metis
  have const: "fold (\<lambda>s n. case s of None \<Rightarrow> n | Some b \<Rightarrow> if n = 0 then length b else n) ks L = L"
    if "\<forall>s\<in>set ks. s = None \<or> (\<exists>b. s = Some b \<and> length b = L)" for ks :: shards
    using that by (induction ks) auto
  moreover have "fold (\<lambda>s n. case s of None \<Rightarrow> n | Some b \<Rightarrow> if n = 0 then length b else n) ks 0 = L"
    if "\<forall>s\<in>set ks. s = None \<or> (\<exists>b. s = Some b \<and> length b = L)" "\<exists>s\<in>set ks. s \<noteq> None"
    for ks :: shards
    using that
  proof (induction ks)
    case (Cons s ks)
    then show ?case by (cases s) (auto simp: const)
  qed simp
  moreover have "\<exists>s\<in>set kept. s \<noteq> None"
    using assms(3) by (metis nth_mem)
  ultimately show ?thesis
    using all by (simp add: shard_size_def)
qed

lemma rebuild_correct:
  assumes "length sub = k" and "\<forall>j<k. length (sub ! j) = L" and "\<forall>i\<in>set is. length (W ! i) = k"
    and "\<forall>i\<in>set is. i < length kept \<and> i < length cw \<and> length (cw ! i) = L"
    and "\<forall>i\<in>set is. kept ! i = None \<or> kept ! i = Some (cw ! i)"
    and "\<forall>i\<in>set is. \<forall>b<L. gf_of (cw ! i ! b) = (\<Sum>j<k. gf_of (W ! i ! j) * gf_of (sub ! j ! b))"
  shows "\<exists>out. rebuild W sub L is kept = Some out \<and> length out = length kept \<and>
           (\<forall>i<length out. out ! i = (if i \<in> set is then Some (cw ! i) else kept ! i))"
  using assms
proof (induction "is" arbitrary: kept)
  case Nil
  then show ?case by simp
next
  case (Cons i "is")
  show ?case
  proof (cases "kept ! i")
    case (Some s)
    then show ?thesis
      using Cons.IH [of kept] Cons.prems by fastforce
  next
    case None
    have "length (W ! i) = k" "k \<le> length sub"
      using Cons.prems by auto
    then obtain dst where dst: "mul_acc_row (zip (W ! i) sub) (replicate L 0) = Some dst" "length dst = L"
      "\<forall>b<L. gf_of (dst ! b) = (\<Sum>j<k. gf_of (W ! i ! j) * gf_of (sub ! j ! b))"
      using mul_acc_row_dot [of "W ! i" k sub L] Cons.prems(2) by blast
    have "dst = cw ! i"
    proof (rule nth_equalityI)
      show "length dst = length (cw ! i)"
        using Cons.prems(4) dst(2) by simp
      fix b assume "b < length dst"
      then have "gf_of (dst ! b) = gf_of (cw ! i ! b)"
        using dst(2,3) Cons.prems(6) by simp
      then show "dst ! b = cw ! i ! b" by simp
    qed
    moreover have "\<exists>out. rebuild W sub L is (kept[i := Some (cw ! i)]) = Some out \<and>
        length out = length kept \<and>
        (\<forall>j<length out. out ! j = (if j \<in> set is then Some (cw ! j) else kept[i := Some (cw ! i)] ! j))"
      using Cons.IH [of "kept[i := Some (cw ! i)]"] Cons.prems by (simp add: nth_list_update_if)
    ultimately show ?thesis
      using None dst(1) by (auto simp: nth_list_update_if)
  qed
qed

lemma reconstruct_correct:
  assumes "wf_enc enc" and "codeword enc L cw" and "erased cw kept" and "rs_data enc \<le> non_nil kept"
  shows "\<exists>out. reconstruct enc kept = Inr out \<and> length out = length kept \<and>
           (\<forall>i<rs_data enc. out ! i = Some (cw ! i)) \<and>
           (\<forall>i<length out. rs_data enc \<le> i \<longrightarrow> out ! i = kept ! i)"
proof (cases "list_all (\<lambda>i. kept ! i \<noteq> None) [0..<rs_data enc]")
  case True
  have "\<forall>i<rs_data enc. kept ! i = Some (cw ! i)"
  proof (intro allI impI)
    fix i assume "i < rs_data enc"
    with True assms(2) have "kept ! i \<noteq> None" "i < length cw"
      by (auto simp: list_all_iff codeword_length)
    with assms(3) show "kept ! i = Some (cw ! i)"
      using erased_Some by blast
  qed
  moreover have "reconstruct enc kept = Inr kept"
    using True assms(4) erased_length [OF assms(3)] codeword_length(1) [OF assms(2)]
    by (simp add: reconstruct_def)
  ultimately show ?thesis by simp
next
  case False
  let ?d = "rs_data enc"
  define js where "js = take ?d (survivors kept)"
  have len: "length kept = ?d + rs_parity enc" "length cw = ?d + rs_parity enc"
    using assms(2,3) by (auto simp: codeword_def erased_def)
  have dd: "length js = ?d"
    using assms(4) by (simp add: js_def length_survivors)
  have ist: "i < length kept \<and> kept ! i = Some (cw ! i)" if "i \<in> set js" for i
    using survivors_props [of i kept] erased_Some [OF assms(3), of i] in_set_takeD [OF that [unfolded js_def]] len
    by simp
  have sel: "map fst (select_rows enc kept) = map (encoding_row enc) js"
    "map snd (select_rows enc kept) = map ((!) cw) js"
    unfolding select_rows_def survivors_def [symmetric] take_map map_map comp_def js_def [symmetric]
    by (simp_all add: ist [THEN conjunct2] cong: map_cong)
  have "distinct js"
    by (simp add: js_def survivors_def)
  moreover have "set js \<subseteq> {..<?d + rs_parity enc}"
    using ist [THEN conjunct1] len by auto
  ultimately have ker: "trivial_kernel ?d 0 (map (encoding_row enc) js)"
    using dd by (intro encoding_rows_kernel [OF assms(1)])
  have rowlen: "length (encoding_row enc i) = ?d" if "i < ?d + rs_parity enc" for i
    using assms(1) that by (auto simp: encoding_row_def wf_enc_def systematic_def wf_mat_def)
  have "\<forall>i<?d. length (map (encoding_row enc) js ! i) = ?d"
    using dd ist len rowlen nth_mem [of _ js] by simp
  then obtain W where W: "invertMatrix (map (encoding_row enc) js) ?d = Inr W" "wf_mat ?d ?d W"
    "left_inverse ?d W (map (encoding_row enc) js)"
    using invertMatrix_correct [of ?d "map (encoding_row enc) js"] dd ker by auto
  have sol: "gf_of (cw ! i ! b) = (\<Sum>j<?d. gf_of (W ! i ! j) * gf_of (map ((!) cw) js ! j ! b))"
    if "i < ?d" "b < L" for i b
  proof -
    have "gf_of (map ((!) cw) js ! j ! b) =
            (\<Sum>c<?d. ent (map (encoding_row enc) js) j c * gf_of (cw ! c ! b))" if "j < ?d" for j
      using assms(2) \<open>b < L\<close> that dd ist [of "js ! j"] len
      by (simp add: codeword_def ent_def)
    then have "(\<Sum>j<?d. gf_of (W ! i ! j) * gf_of (map ((!) cw) js ! j ! b)) =
        (\<Sum>j<?d. ent W i j * (\<Sum>c<?d. ent (map (encoding_row enc) js) j c * gf_of (cw ! c ! b)))"
      by (simp add: ent_def [of W])
    also have "\<dots> = (\<Sum>c<?d. (\<Sum>j<?d. ent W i j * ent (map (encoding_row enc) js) j c) * gf_of (cw ! c ! b))"
      unfolding sum_distrib_left sum_distrib_right by (subst sum.swap) (simp add: mult.assoc)
    also have "\<dots> = (\<Sum>c<?d. if c = i then gf_of (cw ! i ! b) else 0)"
      using W(3) that(1) by (intro sum.cong) (auto simp: left_inverse_def)
    finally show ?thesis using that(1) by simp
  qed
  have "\<exists>i<length kept. kept ! i \<noteq> None"
    using ist [of "js ! 0"] dd assms(1) by (auto simp: wf_enc_def)
  then have size: "shard_size kept = L"
    using assms(2,3) by (intro shard_size_erased [of cw]) (auto simp: codeword_def)
  have "\<exists>out. rebuild W (map ((!) cw) js) L [0..<?d] kept = Some out \<and> length out = length kept \<and>
      (\<forall>i<length out. out ! i = (if i \<in> set [0..<?d] then Some (cw ! i) else kept ! i))"
    by (rule rebuild_correct [where k = ?d])
      (use dd ist W(2) sol len assms(2,3) in \<open>auto simp: codeword_def wf_mat_def erased_def\<close>)
  then show ?thesis
    using False assms(4) len by (auto simp: reconstruct_def sel W(1) size)
qed

subsection \<open>The engine\<close>

lemma NewEngine_wf:
  assumes "profileConsistencyCheck p = None" and "1 \<le> ParityShards p" and "TotalShards p \<le> 255"
  shows "\<exists>e. NewEngine p = Inr e \<and> wf_enc (eng_enc e) \<and>
           rs_data (eng_enc e) = eng_DataShards e \<and>
           rs_data (eng_enc e) + rs_parity (eng_enc e) = eng_TotalShards e \<and>
           eng_DataShards e = nat (DataShards p)"
proof -
  have c: "1 \<le> DataShards p" "TotalShards p = DataShards p + ParityShards p"
    using assms(1) by (auto simp: profileConsistencyCheck_def split: if_splits)
  with assms newRSEncoder_wf [of "DataShards p" "ParityShards p"] obtain enc where
    "newRSEncoder (DataShards p) (ParityShards p) = Inr enc" "wf_enc enc"
    "rs_data enc = nat (DataShards p)" "rs_parity enc = nat (ParityShards p)"
    by auto
  with assms(1,2) c show ?thesis
    by (auto simp: NewEngine_def nat_add_distrib)
qed

lemma NewEngine_Inr:
  assumes "NewEngine p = Inr e" and "TotalShards p \<le> 255"
  shows "wf_enc (eng_enc e) \<and> rs_data (eng_enc e) = eng_DataShards e \<and>
         rs_data (eng_enc e) + rs_parity (eng_enc e) = eng_TotalShards e"
proof -
  have "profileConsistencyCheck p = None"
    using assms(1) by (auto simp: NewEngine_def split: option.splits)
  moreover from this assms(1) have "1 \<le> ParityShards p"
    by (auto simp: NewEngine_def newRSEncoder_def split: sum.splits if_splits)
  ultimately show ?thesis
    using NewEngine_wf [of p] assms by auto
qed

lemma concat_slices:
  "length xs = k * n \<Longrightarrow> concat (map (\<lambda>i. slice (i * n) (Suc i * n) xs) [0..<k]) = xs"
proof (induction k arbitrary: xs)
  case 0
  then show ?case by simp
next
  case (Suc k)
  have "concat (map (\<lambda>i. slice (i * n) (Suc i * n) xs) [0..<k]) =
          concat (map (\<lambda>i. slice (i * n) (Suc i * n) (take (k * n) xs)) [0..<k])"
  proof (rule arg_cong [where f = concat], rule map_cong [OF refl])
    fix i assume "i \<in> set [0..<k]"
    then have "Suc i * n \<le> k * n" by (intro mult_right_mono) auto
    then show "slice (i * n) (Suc i * n) xs = slice (i * n) (Suc i * n) (take (k * n) xs)"
      by (simp add: slice_def drop_take)
  qed
  also have "\<dots> = take (k * n) xs"
    using Suc.prems by (intro Suc.IH) simp
  finally show ?case
    using Suc.prems by (simp add: slice_def)
qed

lemma EncodeSegment_correct:
  assumes "wf_enc (eng_enc e)" and "rs_data (eng_enc e) = eng_DataShards e"
    and "rs_data (eng_enc e) + rs_parity (eng_enc e) = eng_TotalShards e"
    and "length pkg = eng_DataShards e * ShardSize"
  shows "\<exists>cw. EncodeSegment e pkg = Inr cw \<and> codeword (eng_enc e) ShardSize cw \<and>
           concat (map (\<lambda>i. cw ! i) [0..<eng_DataShards e]) = pkg"
proof -
  let ?d = "eng_DataShards e"
  let ?data = "map (\<lambda>i. slice (i * ShardSize) (Suc i * ShardSize) pkg) [0..<?d]"
  let ?shards = "?data @ map (\<lambda>i. replicate ShardSize 0) [?d..<eng_TotalShards e]"
  have sl: "length (slice (i * ShardSize) (Suc i * ShardSize) pkg) = ShardSize" if "i < ?d" for i
  proof -
    have "Suc i * ShardSize \<le> length pkg"
      unfolding assms(4) using that by (intro mult_right_mono) auto
    then show ?thesis by simp
  qed
  have "length ?shards = rs_data (eng_enc e) + rs_parity (eng_enc e)"
    using assms(2,3) by simp
  moreover have "\<forall>i<length ?shards. length (?shards ! i) = ShardSize"
    using sl by (auto simp: nth_append)
  ultimately obtain cw where cw: "encode (eng_enc e) ?shards = Some cw"
    "codeword (eng_enc e) ShardSize cw" "\<forall>i<?d. cw ! i = ?shards ! i"
    using encode_codeword [OF assms(1), of ?shards ShardSize] assms(2) by auto
  have "map (\<lambda>i. cw ! i) [0..<?d] = ?data"
    using cw(3) by (intro map_cong) (auto simp: nth_append)
  then have "concat (map (\<lambda>i. cw ! i) [0..<?d]) = pkg"
    by (simp only: concat_slices [OF assms(4)])
  with cw(1,2) assms(4) show ?thesis
    by (simp add: EncodeSegment_def Let_def)
qed

lemma DecodeSegment_correct:
  assumes "wf_enc (eng_enc e)" and "rs_data (eng_enc e) = eng_DataShards e"
    and "rs_data (eng_enc e) + rs_parity (eng_enc e) = eng_TotalShards e"
    and "codeword (eng_enc e) ShardSize cw" and "erased cw kept" and "eng_DataShards e \<le> non_nil kept"
  shows "\<exists>out. DecodeSegment e kept = Inr (concat (map (\<lambda>i. cw ! i) [0..<eng_DataShards e]), out)"
proof -
  obtain out where out: "reconstruct (eng_enc e) kept = Inr out"
    "\<forall>i<eng_DataShards e. out ! i = Some (cw ! i)"
    using reconstruct_correct [OF assms(1,4,5)] assms(2,6) by auto
  have len: "length kept = eng_TotalShards e"
    using assms(3-5) by (simp add: erased_def codeword_def)
  have "\<not> (\<exists>s\<in>set kept. s \<noteq> None \<and> length (the s) \<noteq> ShardSize)"
  proof
    assume "\<exists>s\<in>set kept. s \<noteq> None \<and> length (the s) \<noteq> ShardSize"
    then obtain i where "i < length kept" "kept ! i \<noteq> None" "length (the (kept ! i)) \<noteq> ShardSize"
      by (metis in_set_conv_nth)
    with erased_Some [OF assms(5), of i] erased_length [OF assms(5)] show False
      using codeword_length(2) [OF assms(4), of i] by simp
  qed
  moreover have eq: "map (\<lambda>i. the (out ! i)) [0..<eng_DataShards e] = map (\<lambda>i. cw ! i) [0..<eng_DataShards e]"
    using out(2) by simp
  ultimately have "DecodeSegment e kept = Inr (concat (map (\<lambda>i. the (out ! i)) [0..<eng_DataShards e]), out)"
    using len assms(6) out(1) by (simp add: DecodeSegment_def)
  then show ?thesis
    unfolding eq by blast
qed

subsection \<open>What the users of an engine rely on\<close>

text \<open>An engine that \<^verbatim>\<open>NewEngine\<close> built from a profile of at most 255 shards.\<close>

locale rs_engine =
  fixes profile :: NetworkProfile and engine :: Engine
  assumes built: "NewEngine profile = Inr engine" and small: "TotalShards profile \<le> 255"
begin

lemma sizes: "int (eng_DataShards engine) = DataShards profile" "int (eng_TotalShards engine) = TotalShards profile"
  using built by (auto simp: NewEngine_def newRSEncoder_def profileConsistencyCheck_def split: option.splits sum.splits if_splits)

lemma encode_total:
  assumes "EncodeSegment engine pkg = Inr cw"
  shows "length cw = eng_TotalShards engine" and "\<And>i. i < length cw \<Longrightarrow> length (cw ! i) = ShardSize"
    and "erased cw kept \<Longrightarrow> eng_DataShards engine \<le> non_nil kept \<Longrightarrow> \<exists>out. DecodeSegment engine kept = Inr (pkg, out)"
proof -
  note e = NewEngine_Inr [OF built small]
  have "length pkg = eng_DataShards engine * ShardSize"
    using assms by (auto simp: EncodeSegment_def split: if_splits)
  with EncodeSegment_correct [of engine pkg] e assms have cw: "codeword (eng_enc engine) ShardSize cw"
    "concat (map (\<lambda>i. cw ! i) [0..<eng_DataShards engine]) = pkg" by auto
  show "length cw = eng_TotalShards engine" using codeword_length(1) [OF cw(1)] e by simp
  show "length (cw ! i) = ShardSize" if "i < length cw" for i using codeword_length(2) [OF cw(1) that] .
  show "\<exists>out. DecodeSegment engine kept = Inr (pkg, out)" if "erased cw kept" "eng_DataShards engine \<le> non_nil kept"
    using DecodeSegment_correct [of engine cw kept] e cw that by simp
qed

end

subsection \<open>Properties\<close>

text \<open>
  C1: For every engine that \<^verbatim>\<open>NewEngine\<close> builds from a profile with at most 255 shards, and every
  AONT package of \<open>DataShards * ShardSize\<close> bytes, \<^verbatim>\<open>EncodeSegment\<close> returns \<open>TotalShards\<close>
  shards, and \<^verbatim>\<open>DecodeSegment\<close> gives the package back from any selection of at least
  \<open>DataShards\<close> of them, whichever shards are missing.
\<close>

theorem erasure_roundtrip:
  assumes "NewEngine p = Inr e" and "TotalShards p \<le> 255"
    and "length pkg = eng_DataShards e * ShardSize"
  shows "\<exists>cw. EncodeSegment e pkg = Inr cw \<and> length cw = eng_TotalShards e \<and>
           (\<forall>kept. erased cw kept \<and> eng_DataShards e \<le> non_nil kept \<longrightarrow>
              (\<exists>out. DecodeSegment e kept = Inr (pkg, out)))"
proof -
  note e = NewEngine_Inr [OF assms(1,2)]
  with EncodeSegment_correct [of e pkg] assms(3) obtain cw where cw: "EncodeSegment e pkg = Inr cw"
    "codeword (eng_enc e) ShardSize cw" "concat (map (\<lambda>i. cw ! i) [0..<eng_DataShards e]) = pkg"
    by auto
  with DecodeSegment_correct [of e cw] e codeword_length(1) [OF cw(2)] show ?thesis
    by auto
qed

lemma DemoProfile_engine:
  "\<exists>e. NewEngine DemoProfile = Inr e \<and> eng_DataShards e = 3 \<and> eng_TotalShards e = 5"
proof -
  have "profileConsistencyCheck DemoProfile = None"
    by (simp add: profileConsistencyCheck_def DemoProfile_def ShardSize_def)
  from NewEngine_wf [OF this] obtain e where e: "NewEngine DemoProfile = Inr e"
    "eng_DataShards e = nat (DataShards DemoProfile)"
    by (auto simp: DemoProfile_def)
  then have "eng_TotalShards e = nat (TotalShards DemoProfile)"
    by (auto simp: NewEngine_def split: option.splits sum.splits)
  with e show ?thesis by (simp add: DemoProfile_def)
qed

definition engine_of :: "NetworkProfile \<Rightarrow> Engine" where
  "engine_of p = (case NewEngine p of Inr e \<Rightarrow> e | Inl _ \<Rightarrow> undefined)"

interpretation demo_engine: rs_engine DemoProfile "engine_of DemoProfile"
proof
  show "NewEngine DemoProfile = Inr (engine_of DemoProfile)"
    using DemoProfile_engine by (auto simp: engine_of_def)
qed (simp add: DemoProfile_def)

interpretation production_engine: rs_engine ProductionProfile "engine_of ProductionProfile"
proof
  have "profileConsistencyCheck ProductionProfile = None"
    by (simp add: profileConsistencyCheck_def ProductionProfile_def ShardSize_def)
  from NewEngine_wf [OF this] show "NewEngine ProductionProfile = Inr (engine_of ProductionProfile)"
    by (auto simp: engine_of_def ProductionProfile_def)
qed (simp add: ProductionProfile_def)

theorem erasure_roundtrip_witness:
  "\<exists>e cw out. NewEngine DemoProfile = Inr e \<and>
     EncodeSegment e (replicate (3 * ShardSize) 7) = Inr cw \<and>
     DecodeSegment e [None, Some (cw ! 1), None, Some (cw ! 3), Some (cw ! 4)] =
       Inr (replicate (3 * ShardSize) 7, out)"
proof -
  obtain e where e: "NewEngine DemoProfile = Inr e" "eng_DataShards e = 3" "eng_TotalShards e = 5"
    using DemoProfile_engine by blast
  have "TotalShards DemoProfile \<le> 255"
    by (simp add: DemoProfile_def)
  from erasure_roundtrip [OF e(1) this, of "replicate (3 * ShardSize) 7"] obtain cw where
    cw: "EncodeSegment e (replicate (3 * ShardSize) 7) = Inr cw" "length cw = 5"
    "\<forall>kept. erased cw kept \<and> 3 \<le> non_nil kept \<longrightarrow>
       (\<exists>out. DecodeSegment e kept = Inr (replicate (3 * ShardSize) 7, out))"
    using e by auto
  have "erased cw [None, Some (cw ! 1), None, Some (cw ! 3), Some (cw ! 4)]"
    using cw(2) by (auto simp: erased_def less_Suc_eq numeral_eq_Suc)
  with cw e(1) show ?thesis
    by (fastforce simp: non_nil_def)
qed

text \<open>
  \<^verbatim>\<open>NewEngine\<close> builds an engine for a profile of at most 255 shards exactly when its erasure
  fields are consistent and it has a parity shard; in particular it does for both canonical
  profiles.
\<close>

theorem NewEngine_iff:
  assumes "TotalShards p \<le> 255"
  shows "(\<exists>e. NewEngine p = Inr e) \<longleftrightarrow>
           1 \<le> DataShards p \<and> 1 \<le> ParityShards p \<and> TotalShards p = DataShards p + ParityShards p \<and>
           ShardSizeField p = int ShardSize"
proof
  assume "\<exists>e. NewEngine p = Inr e"
  then show "1 \<le> DataShards p \<and> 1 \<le> ParityShards p \<and>
      TotalShards p = DataShards p + ParityShards p \<and> ShardSizeField p = int ShardSize"
    by (auto simp: NewEngine_def newRSEncoder_def profileConsistencyCheck_def
        split: option.splits sum.splits if_splits)
next
  assume a: "1 \<le> DataShards p \<and> 1 \<le> ParityShards p \<and>
      TotalShards p = DataShards p + ParityShards p \<and> ShardSizeField p = int ShardSize"
  then have "profileConsistencyCheck p = None"
    by (simp add: profileConsistencyCheck_def)
  with NewEngine_wf [OF this] a assms show "\<exists>e. NewEngine p = Inr e" by blast
qed

theorem NewEngine_iff_witness:
  "(\<exists>e. NewEngine ProductionProfile = Inr e) \<and> (\<exists>e. NewEngine DemoProfile = Inr e)"
  using NewEngine_iff [of ProductionProfile] NewEngine_iff [of DemoProfile]
  by (simp add: profile_defs ShardSize_def)

text \<open>
  \<^verbatim>\<open>DecodeSegment\<close> never returns a package from fewer than \<open>DataShards\<close> shards, from a wrong
  number of slots, or from a shard of the wrong length: each case gives its own error, in the
  order the code checks them.
\<close>

theorem DecodeSegment_errors:
  "(length shards \<noteq> eng_TotalShards e \<longrightarrow> DecodeSegment e shards = Inl (ErrShardCount (length shards))) \<and>
   (length shards = eng_TotalShards e \<and> (\<exists>s\<in>set shards. \<exists>b. s = Some b \<and> length b \<noteq> ShardSize) \<longrightarrow>
      DecodeSegment e shards = Inl ErrShardSize) \<and>
   (length shards = eng_TotalShards e \<and> (\<forall>s\<in>set shards. \<forall>b. s = Some b \<longrightarrow> length b = ShardSize) \<and>
      non_nil shards < eng_DataShards e \<longrightarrow> DecodeSegment e shards = Inl ErrTooFewShards)"
  by (auto simp: DecodeSegment_def)

theorem DecodeSegment_errors_witness:
  "DecodeSegment \<lparr>eng_DataShards = 1, eng_ParityShards = 1, eng_TotalShards = 2,
       eng_enc = \<lparr>rs_data = 1, rs_parity = 1, rs_gen = [[1]]\<rparr>\<rparr> [None, None] = Inl ErrTooFewShards \<and>
   DecodeSegment \<lparr>eng_DataShards = 1, eng_ParityShards = 1, eng_TotalShards = 2,
       eng_enc = \<lparr>rs_data = 1, rs_parity = 1, rs_gen = [[1]]\<rparr>\<rparr> [None, Some [5]] = Inl ErrShardSize \<and>
   DecodeSegment \<lparr>eng_DataShards = 1, eng_ParityShards = 1, eng_TotalShards = 2,
       eng_enc = \<lparr>rs_data = 1, rs_parity = 1, rs_gen = [[1]]\<rparr>\<rparr> [None] = Inl (ErrShardCount 1)"
  using DecodeSegment_errors [of "[None, None]" "\<lparr>eng_DataShards = 1, eng_ParityShards = 1,
      eng_TotalShards = 2, eng_enc = \<lparr>rs_data = 1, rs_parity = 1, rs_gen = [[1]]\<rparr>\<rparr>"]
    DecodeSegment_errors [of "[None, Some [5]]" "\<lparr>eng_DataShards = 1, eng_ParityShards = 1,
      eng_TotalShards = 2, eng_enc = \<lparr>rs_data = 1, rs_parity = 1, rs_gen = [[1]]\<rparr>\<rparr>"]
    DecodeSegment_errors [of "[None]" "\<lparr>eng_DataShards = 1, eng_ParityShards = 1,
      eng_TotalShards = 2, eng_enc = \<lparr>rs_data = 1, rs_parity = 1, rs_gen = [[1]]\<rparr>\<rparr>"]
  by (simp add: non_nil_def ShardSize_def)

text \<open>
  \<^verbatim>\<open>invertMatrix\<close> on a square matrix returns a two-sided inverse when no non-zero vector is
  mapped to zero, and otherwise the singular-matrix error; it never panics.
\<close>

theorem invertMatrix_iff:
  assumes "length m = n" and "\<forall>i<n. length (m ! i) = n"
  shows "if trivial_kernel n 0 m
         then \<exists>W. invertMatrix m n = Inr W \<and> left_inverse n W m \<and> left_inverse n m W
         else \<exists>c<n. invertMatrix m n = Inl (ErrSingular c)"
proof -
  have ker: "trivial_kernel n 0 m" if "left_inverse n W m" for W
    unfolding trivial_kernel_def
  proof (intro allI impI)
    fix v k assume v: "annihilates n 0 m v" and k: "k < n"
    have "(\<Sum>r<n. ent W k r * (\<Sum>c<n. ent m r c * v c)) = (\<Sum>c<n. (\<Sum>r<n. ent W k r * ent m r c) * v c)"
      unfolding sum_distrib_left sum_distrib_right by (subst sum.swap) (simp add: mult.assoc)
    also have "\<dots> = (\<Sum>c<n. if c = k then v k else 0)"
      using that k by (intro sum.cong) (auto simp: left_inverse_def)
    finally show "v k = 0"
      using v k by (simp add: annihilates_def)
  qed
  from invertMatrix_correct [of n m] assms consider
      (ok) W where "invertMatrix m n = Inr W" "left_inverse n W m" "trivial_kernel n 0 W"
    | (err) c where "c < n" "invertMatrix m n = Inl (ErrSingular c)" "\<not> trivial_kernel n 0 m"
    by auto
  then show ?thesis
  proof cases
    case ok
    with left_inverse_right [OF ok(2,3)] have "left_inverse n m W"
      by (simp add: left_inverse_def)
    with ok ker show ?thesis by auto
  qed auto
qed

theorem invertMatrix_iff_witness:
  "\<exists>W. invertMatrix [[1]] 1 = Inr W \<and> left_inverse 1 W [[1]]"
proof -
  have "trivial_kernel 1 0 [[1]]"
    by (simp add: trivial_kernel_def annihilates_def ent_def gf_hom)
  with invertMatrix_iff [of "[[1]]" 1] show ?thesis by auto
qed

end
