(* ===== verification/Storage.thy ===== *)
theory Storage
  imports Prelude
begin

text \<open>
  The provider's chunk store, \<^verbatim>\<open>internal/storage\<close>. The Linux engine is a RocksDB index over
  an append-only value log (\<^verbatim>\<open>vlog.go\<close>, \<^verbatim>\<open>engine_rocksdb.go\<close>), the Windows engine a
  BadgerDB database (\<^verbatim>\<open>engine_badger.go\<close>). The value log is the list of its bytes; the
  index is the key-value map RocksDB documents, with the 12-byte values the code writes. The
  hash \<open>sha\<close> is \<^verbatim>\<open>sha256.Sum256\<close>. Failing I/O calls are arguments: which write, sync, put
  or rename fails, and where a context is cancelled.
\<close>

type_synonym chunk_id = "byte list"

datatype store_error =
    ErrChunkNotFound
  | ErrContentHashMismatch
  | ErrVLogFsync
  | ErrVLogRead
  | ErrRocksDBInsert
  | ErrContextCancelled
  | ErrRunGC
  | ErrRocksDBDelete
  | ErrBadgerDelete
  | ChunkLengthPanic

subsection \<open>Layout\<close>

definition vLogEntrySize :: nat where "vLogEntrySize = 262212"
definition indexValueSize :: nat where "indexValueSize = 12"
definition ChunkDataSize :: nat where "ChunkDataSize = 262144"
definition vlogOffChunkID :: nat where "vlogOffChunkID = 0"
definition vlogOffChunkSize :: nat where "vlogOffChunkSize = 32"
definition vlogOffChunkData :: nat where "vlogOffChunkData = 36"
definition vlogOffContentHash :: nat where "vlogOffContentHash = vlogOffChunkData + ChunkDataSize"

lemmas layout_defs = vLogEntrySize_def indexValueSize_def ChunkDataSize_def vlogOffChunkID_def
  vlogOffChunkSize_def vlogOffChunkData_def vlogOffContentHash_def

record wiskeyStore =
  index :: "chunk_id \<rightharpoonup> byte list"
  vlog :: "byte list"
  vlogHead :: nat

subsection \<open>Index\<close>

definition index_value :: "nat \<Rightarrow> nat \<Rightarrow> byte list" where
  "index_value vlogOffset chunkSize =
     copy_at 8 (copy_at 0 (replicate indexValueSize 0) (be_bytes 8 vlogOffset)) (be_bytes 4 chunkSize)"

definition index_put :: "bool \<Rightarrow> chunk_id \<Rightarrow> nat \<Rightarrow> nat \<Rightarrow> wiskeyStore \<Rightarrow> store_error option \<times> wiskeyStore" where
  "index_put ok chunkID vlogOffset chunkSize st =
     (if ok then (None, st\<lparr>index := (index st)(chunkID \<mapsto> index_value vlogOffset chunkSize)\<rparr>)
      else (Some ErrRocksDBInsert, st))"

definition index_get :: "bool \<Rightarrow> wiskeyStore \<Rightarrow> chunk_id \<Rightarrow> store_error + (nat \<times> nat)" where
  "index_get ok st chunkID =
     (if \<not> ok then Inl ErrVLogRead
      else case index st chunkID of
        None \<Rightarrow> Inl ErrChunkNotFound
      | Some d \<Rightarrow> Inr (be_value (slice 0 8 d), be_value (slice 8 12 d)))"

definition index_del :: "bool \<Rightarrow> chunk_id \<Rightarrow> wiskeyStore \<Rightarrow> store_error option \<times> wiskeyStore" where
  "index_del ok chunkID st =
     (if ok then (None, st\<lparr>index := (index st)(chunkID := None)\<rparr>) else (Some ErrRocksDBDelete, st))"

subsection \<open>Value log\<close>

text \<open>The 262212-byte buffer that \<^verbatim>\<open>appendToVLog\<close> fills.\<close>

definition entry_buf :: "hash \<Rightarrow> chunk_id \<Rightarrow> byte list \<Rightarrow> byte list" where
  "entry_buf sha chunkID chunkData =
     (let contentHash = sha chunkData;
          buf = replicate vLogEntrySize 0;
          buf = copy_at vlogOffChunkID buf chunkID;
          buf = copy_at vlogOffChunkSize buf (be_bytes 4 ChunkDataSize);
          buf = copy_at vlogOffChunkData buf chunkData
      in copy_at vlogOffContentHash buf contentHash)"

text \<open>
  Outcome of the I/O calls of one append: \<open>short_write = Some k\<close> is a write error after \<open>k\<close>
  bytes reached the file. The file is opened with \<^verbatim>\<open>O_APPEND\<close>, so bytes always go to its
  end, wherever \<open>vlogHead\<close> points.
\<close>

record append_io =
  short_write :: "nat option"
  sync_ok :: bool
  put_ok :: bool

definition io_ok :: append_io where
  "io_ok = \<lparr>short_write = None, sync_ok = True, put_ok = True\<rparr>"

definition appendToVLog ::
  "hash \<Rightarrow> append_io \<Rightarrow> chunk_id \<Rightarrow> byte list \<Rightarrow> wiskeyStore \<Rightarrow> (store_error + nat) \<times> wiskeyStore" where
  "appendToVLog sha io chunkID chunkData st =
     (let buf = entry_buf sha chunkID chunkData;
          off = vlogHead st
      in case short_write io of
           Some k \<Rightarrow> (Inl ErrVLogFsync, st\<lparr>vlog := vlog st @ take k buf\<rparr>)
         | None \<Rightarrow>
             (let st = st\<lparr>vlog := vlog st @ buf\<rparr>
              in if \<not> sync_ok io then (Inl ErrVLogFsync, st)
                 else (Inr off, st\<lparr>vlogHead := (vlogHead st + vLogEntrySize) mod 2 ^ 64\<rparr>)))"

definition readFromVLog :: "hash \<Rightarrow> bool \<Rightarrow> wiskeyStore \<Rightarrow> chunk_id \<Rightarrow> nat \<Rightarrow> store_error + byte list" where
  "readFromVLog sha ok st wantChunkID byteOffset =
     (if \<not> ok \<or> length (vlog st) < byteOffset + vLogEntrySize then Inl ErrVLogRead
      else let buf = slice byteOffset (byteOffset + vLogEntrySize) (vlog st);
               chunkData = slice vlogOffChunkData (vlogOffChunkData + ChunkDataSize) buf
           in if sha chunkData \<noteq> wantChunkID then Inl ErrContentHashMismatch else Inr chunkData)"

subsection \<open>The ChunkStore methods\<close>

definition AppendChunk ::
  "hash \<Rightarrow> append_io \<Rightarrow> chunk_id \<Rightarrow> byte list \<Rightarrow> wiskeyStore \<Rightarrow> (store_error + nat) \<times> wiskeyStore" where
  "AppendChunk sha io chunkID chunkData st =
     (if length chunkData \<noteq> ChunkDataSize then (Inl ChunkLengthPanic, st)
      else case appendToVLog sha io chunkID chunkData st of
             (Inl e, st') \<Rightarrow> (Inl e, st')
           | (Inr off, st') \<Rightarrow>
               (case index_put (put_ok io) chunkID off ChunkDataSize st' of
                  (Some e, st'') \<Rightarrow> (Inl e, st'')
                | (None, st'') \<Rightarrow> (Inr off, st'')))"

datatype read_fault = ReadsOk | IndexFault | VLogFault

definition LookupChunk :: "hash \<Rightarrow> read_fault \<Rightarrow> wiskeyStore \<Rightarrow> chunk_id \<Rightarrow> store_error + byte list" where
  "LookupChunk sha flt st chunkID =
     (case index_get (flt \<noteq> IndexFault) st chunkID of
        Inl e \<Rightarrow> Inl e
      | Inr (vlogOffset, _) \<Rightarrow> readFromVLog sha (flt \<noteq> VLogFault) st chunkID vlogOffset)"

definition DeleteChunk :: "bool \<Rightarrow> chunk_id \<Rightarrow> wiskeyStore \<Rightarrow> store_error option \<times> wiskeyStore" where
  "DeleteChunk ok chunkID st = index_del ok chunkID st"

text \<open>
  The scan of \<^verbatim>\<open>RecoverFromCrash\<close>, with the outcome of the read, the index lookup and the index
  insert at each offset. \<^verbatim>\<open>ReadAt\<close> reports an error exactly when it returns fewer bytes than
  asked, so a failed read is the short read on which the loop stops.
\<close>

record scan_io =
  scan_read_ok :: "nat \<Rightarrow> bool"
  scan_get_ok :: "nat \<Rightarrow> bool"
  scan_put_ok :: "nat \<Rightarrow> bool"

definition scan_io_ok :: scan_io where
  "scan_io_ok = \<lparr>scan_read_ok = (\<lambda>_. True), scan_get_ok = (\<lambda>_. True), scan_put_ok = (\<lambda>_. True)\<rparr>"

function recover_loop ::
  "hash \<Rightarrow> scan_io \<Rightarrow> nat \<Rightarrow> wiskeyStore \<Rightarrow> store_error option \<times> wiskeyStore" where
  "recover_loop sha io currentOffset st =
     (if \<not> scan_read_ok io currentOffset \<or> length (vlog st) < currentOffset + vLogEntrySize then
        (None, st\<lparr>vlogHead := currentOffset\<rparr>)
      else
        let buf = slice currentOffset (currentOffset + vLogEntrySize) (vlog st);
            chunkID = slice vlogOffChunkID (vlogOffChunkID + 32) buf;
            computed = sha (slice vlogOffChunkData (vlogOffChunkData + ChunkDataSize) buf)
        in if computed \<noteq> slice vlogOffContentHash (vlogOffContentHash + 32) buf then
             (None, st\<lparr>vlogHead := currentOffset\<rparr>)
           else case index_get (scan_get_ok io currentOffset) st chunkID of
                  Inr _ \<Rightarrow> recover_loop sha io (currentOffset + vLogEntrySize) st
                | Inl ErrChunkNotFound \<Rightarrow>
                    (if scan_put_ok io currentOffset then
                       recover_loop sha io (currentOffset + vLogEntrySize)
                         (st\<lparr>index := (index st)(chunkID \<mapsto> index_value currentOffset ChunkDataSize)\<rparr>)
                     else (Some ErrRocksDBInsert, st))
                | Inl e \<Rightarrow> (Some e, st))"
  by pat_completeness auto
termination
  by (relation "measure (\<lambda>(sha, io, off, st). length (vlog st) - off)")
    (auto simp: vLogEntrySize_def)

declare recover_loop.simps [simp del]

definition RecoverFromCrash ::
  "hash \<Rightarrow> scan_io \<Rightarrow> wiskeyStore \<Rightarrow> store_error option \<times> wiskeyStore" where
  "RecoverFromCrash sha io st = recover_loop sha io 0 st"

text \<open>Opening the store after a restart: \<open>vlogHead\<close> is the file size until recovery has run.\<close>

definition newEngineStore :: "(chunk_id \<rightharpoonup> byte list) \<Rightarrow> byte list \<Rightarrow> wiskeyStore" where
  "newEngineStore idx file = \<lparr>index = idx, vlog = file, vlogHead = length file\<rparr>"

text \<open>
  \<^verbatim>\<open>RunGC\<close>, as seen through the open handle of the store (after a failed reopen that is still
  the old file). \<open>live\<close> is the set of indexed identifiers before the scan. The loop returns how it
  ended, the compacted file, its head, and the store whose index it has updated on the way.
\<close>

record gc_io =
  gc_open_ok :: bool
  gc_create_ok :: bool
  gc_read_ok :: "nat \<Rightarrow> bool"
  gc_cancelled :: "nat \<Rightarrow> bool"
  gc_write_ok :: "nat \<Rightarrow> bool"
  gc_put_ok :: "nat \<Rightarrow> bool"
  gc_sync_ok :: bool
  gc_close_ok :: bool
  gc_rename_ok :: bool
  gc_reopen_ok :: bool

definition gc_io_ok :: gc_io where
  "gc_io_ok = \<lparr>gc_open_ok = True, gc_create_ok = True, gc_read_ok = (\<lambda>_. True),
               gc_cancelled = (\<lambda>_. False), gc_write_ok = (\<lambda>_. True), gc_put_ok = (\<lambda>_. True),
               gc_sync_ok = True, gc_close_ok = True, gc_rename_ok = True, gc_reopen_ok = True\<rparr>"

function gc_loop ::
  "gc_io \<Rightarrow> (chunk_id \<Rightarrow> bool) \<Rightarrow> nat \<Rightarrow> byte list \<Rightarrow> wiskeyStore \<Rightarrow>
     store_error option \<times> byte list \<times> wiskeyStore" where
  "gc_loop io live currentOffset tmp st =
     (if gc_cancelled io currentOffset then (Some ErrContextCancelled, tmp, st)
      else if \<not> gc_read_ok io currentOffset \<or> length (vlog st) < currentOffset + vLogEntrySize then
        (None, tmp, st)
      else
        let buf = slice currentOffset (currentOffset + vLogEntrySize) (vlog st);
            chunkID = slice vlogOffChunkID (vlogOffChunkID + 32) buf;
            newHead = length tmp
        in if live chunkID then
             (if \<not> gc_write_ok io currentOffset then (Some ErrRunGC, tmp, st)
              else if \<not> gc_put_ok io currentOffset then (Some ErrRunGC, tmp @ buf, st)
              else gc_loop io live (currentOffset + vLogEntrySize) (tmp @ buf)
                     (st\<lparr>index := (index st)(chunkID \<mapsto> index_value newHead ChunkDataSize)\<rparr>))
           else gc_loop io live (currentOffset + vLogEntrySize) tmp st)"
  by pat_completeness auto
termination
  by (relation "measure (\<lambda>(io, live, off, tmp, st). length (vlog st) - off)")
    (auto simp: vLogEntrySize_def)

declare gc_loop.simps [simp del]

definition RunGC :: "gc_io \<Rightarrow> wiskeyStore \<Rightarrow> store_error option \<times> wiskeyStore" where
  "RunGC io st =
     (if \<not> gc_open_ok io \<or> \<not> gc_create_ok io then (Some ErrRunGC, st)
      else case gc_loop io (\<lambda>id. index st id \<noteq> None) 0 [] st of
        (Some e, tmp, st') \<Rightarrow> (Some e, st')
      | (None, tmp, st') \<Rightarrow>
          if \<not> gc_sync_ok io \<or> \<not> gc_close_ok io \<or> \<not> gc_rename_ok io \<or> \<not> gc_reopen_ok io
          then (Some ErrRunGC, st')
          else (None, st'\<lparr>vlog := tmp, vlogHead := length tmp\<rparr>))"

subsection \<open>The Badger engine\<close>

text \<open>
  Badger's transactional map, with \<open>ok\<close> for the outcome of a transaction. Its own recovery runs
  inside \<^verbatim>\<open>badger.Open\<close>, and its value-log garbage collection does not change the map.
\<close>

record badgerStore =
  badger_db :: "chunk_id \<rightharpoonup> byte list"

definition badger_AppendChunk ::
  "bool \<Rightarrow> chunk_id \<Rightarrow> byte list \<Rightarrow> badgerStore \<Rightarrow> (store_error + nat) \<times> badgerStore" where
  "badger_AppendChunk ok chunkID chunkData bs =
     (if length chunkData \<noteq> ChunkDataSize then (Inl ChunkLengthPanic, bs)
      else if ok then (Inr 0, bs\<lparr>badger_db := (badger_db bs)(chunkID \<mapsto> chunkData)\<rparr>)
      else (Inl ErrVLogFsync, bs))"

definition badger_LookupChunk :: "hash \<Rightarrow> bool \<Rightarrow> badgerStore \<Rightarrow> chunk_id \<Rightarrow> store_error + byte list" where
  "badger_LookupChunk sha ok bs chunkID =
     (if \<not> ok then Inl ErrVLogRead
      else case badger_db bs chunkID of
        None \<Rightarrow> Inl ErrChunkNotFound
      | Some val \<Rightarrow> if sha val \<noteq> chunkID then Inl ErrContentHashMismatch else Inr val)"

definition badger_DeleteChunk :: "bool \<Rightarrow> chunk_id \<Rightarrow> badgerStore \<Rightarrow> store_error option \<times> badgerStore" where
  "badger_DeleteChunk ok chunkID bs =
     (if ok then (None, bs\<lparr>badger_db := (badger_db bs)(chunkID := None)\<rparr>) else (Some ErrBadgerDelete, bs))"

definition badger_RecoverFromCrash :: "badgerStore \<Rightarrow> store_error option \<times> badgerStore" where
  "badger_RecoverFromCrash bs = (None, bs)"

subsection \<open>The interface of a chunk store\<close>

text \<open>
  What the daemon relies on, for either engine: content-addressed map semantics under an
  invariant. \<open>room s n\<close> says that \<open>n\<close> further chunks fit. A request is valid when its data has
  the fixed size and hashes to its identifier, the precondition of \<^verbatim>\<open>AppendChunk\<close>.
\<close>

definition valid_chunk :: "hash \<Rightarrow> chunk_id \<Rightarrow> byte list \<Rightarrow> bool" where
  "valid_chunk sha chunkID chunkData \<longleftrightarrow>
     length chunkID = 32 \<and> length chunkData = ChunkDataSize \<and> sha chunkData = chunkID"

datatype store_op = Append chunk_id "byte list" | Delete chunk_id

fun spec_op :: "store_op \<Rightarrow> (chunk_id \<rightharpoonup> byte list) \<Rightarrow> (chunk_id \<rightharpoonup> byte list)" where
  "spec_op (Append i d) m = m(i \<mapsto> d)"
| "spec_op (Delete i) m = m(i := None)"

fun valid_op :: "hash \<Rightarrow> store_op \<Rightarrow> bool" where
  "valid_op sha (Append i d) = valid_chunk sha i d"
| "valid_op sha (Delete i) = True"

locale chunk_store =
  fixes sha :: hash
    and invar :: "'s \<Rightarrow> bool"
    and room :: "'s \<Rightarrow> nat \<Rightarrow> bool"
    and append :: "chunk_id \<Rightarrow> byte list \<Rightarrow> 's \<Rightarrow> 's"
    and delete :: "chunk_id \<Rightarrow> 's \<Rightarrow> 's"
    and lookup :: "'s \<Rightarrow> chunk_id \<Rightarrow> store_error + byte list"
  assumes lookup_append: "invar s \<Longrightarrow> room s 1 \<Longrightarrow> valid_chunk sha i d \<Longrightarrow>
            lookup (append i d s) j = (if j = i then Inr d else lookup s j)"
    and lookup_delete: "invar s \<Longrightarrow>
            lookup (delete i s) j = (if j = i then Inl ErrChunkNotFound else lookup s j)"
    and invar_append: "invar s \<Longrightarrow> room s 1 \<Longrightarrow> valid_chunk sha i d \<Longrightarrow> invar (append i d s)"
    and invar_delete: "invar s \<Longrightarrow> invar (delete i s)"
    and room_append: "invar s \<Longrightarrow> room s (Suc n) \<Longrightarrow> valid_chunk sha i d \<Longrightarrow> room (append i d s) n"
    and room_delete: "room s n \<Longrightarrow> room (delete i s) n"
    and room_le: "room s n \<Longrightarrow> m \<le> n \<Longrightarrow> room s m"
    and lookup_error: "invar s \<Longrightarrow> lookup s i = Inl e \<Longrightarrow> e = ErrChunkNotFound"
    and lookup_hash: "lookup s i = Inr d \<Longrightarrow> sha d = i"
begin

definition abs_map :: "'s \<Rightarrow> (chunk_id \<rightharpoonup> byte list)" where
  "abs_map s i = (case lookup s i of Inl _ \<Rightarrow> None | Inr d \<Rightarrow> Some d)"

fun do_op :: "store_op \<Rightarrow> 's \<Rightarrow> 's" where
  "do_op (Append i d) s = append i d s"
| "do_op (Delete i) s = delete i s"

lemma do_op_step:
  assumes "invar s" and "room s (Suc n)" and "valid_op sha c"
  shows "invar (do_op c s) \<and> room (do_op c s) n \<and> abs_map (do_op c s) = spec_op c (abs_map s)"
proof (cases c)
  case (Append i d)
  have "room s 1" using assms(2) by (rule room_le) simp
  with Append assms show ?thesis
    by (auto simp: abs_map_def lookup_append invar_append room_append fun_eq_iff)
next
  case (Delete i)
  have "room s n" using assms(2) by (rule room_le) simp
  with Delete assms show ?thesis
    by (auto simp: abs_map_def lookup_delete invar_delete room_delete fun_eq_iff)
qed

lemma run_refines:
  assumes "invar s" and "room s (length cs)" and "\<forall>c\<in>set cs. valid_op sha c"
  shows "invar (fold do_op cs s) \<and> abs_map (fold do_op cs s) = fold spec_op cs (abs_map s)"
  using assms
proof (induction cs arbitrary: s)
  case (Cons c cs)
  with do_op_step [of s "length cs" c] show ?case by simp
qed simp

lemma lookup_abs_map:
  "invar s \<Longrightarrow> lookup s i = (case abs_map s i of None \<Rightarrow> Inl ErrChunkNotFound | Some d \<Rightarrow> Inr d)"
  by (auto simp: abs_map_def dest: lookup_error split: sum.splits)

lemma run_lookup:
  assumes "invar s" and "room s (length cs)" and "\<forall>c\<in>set cs. valid_op sha c"
  shows "lookup (fold do_op cs s) i =
           (case fold spec_op cs (abs_map s) i of None \<Rightarrow> Inl ErrChunkNotFound | Some d \<Rightarrow> Inr d)"
  using run_refines [OF assms] by (simp add: lookup_abs_map)

end

subsection \<open>The value log as a sequence of entries\<close>

lemma entry_buf_eq:
  assumes "hash32 sha" and "length i = 32" and "length d = ChunkDataSize"
  shows "entry_buf sha i d = i @ be_bytes 4 ChunkDataSize @ d @ sha d"
proof -
  have r: "replicate vLogEntrySize (0 :: byte) =
      replicate 32 0 @ replicate 4 0 @ replicate ChunkDataSize 0 @ replicate 32 0"
    by (simp add: layout_defs flip: replicate_add)
  have "copy_at 0 (replicate 32 0 @ replicate 4 0 @ replicate ChunkDataSize 0 @ replicate 32 0) i =
      i @ replicate 4 0 @ replicate ChunkDataSize 0 @ replicate 32 0"
    using copy_at_append [of "[]" 0 i] assms(2) by simp
  moreover have "copy_at 32 (i @ replicate 4 0 @ replicate ChunkDataSize 0 @ replicate 32 0) (be_bytes 4 ChunkDataSize) =
      i @ be_bytes 4 ChunkDataSize @ replicate ChunkDataSize 0 @ replicate 32 0"
    using assms(2) by (subst copy_at_append) auto
  moreover have "copy_at 36 (i @ be_bytes 4 ChunkDataSize @ replicate ChunkDataSize 0 @ replicate 32 0) d =
      i @ be_bytes 4 ChunkDataSize @ d @ replicate 32 0"
    using assms(2,3) copy_at_append [of "i @ be_bytes 4 ChunkDataSize" 36 d] by simp
  moreover have "copy_at (36 + ChunkDataSize) (i @ be_bytes 4 ChunkDataSize @ d @ replicate 32 0) (sha d) =
      i @ be_bytes 4 ChunkDataSize @ d @ sha d"
    using assms copy_at_append [of "i @ be_bytes 4 ChunkDataSize @ d" "36 + ChunkDataSize" "sha d"]
    by (simp add: hash32_def)
  ultimately show ?thesis
    by (simp add: entry_buf_def Let_def r vlogOffChunkID_def vlogOffChunkSize_def
        vlogOffChunkData_def vlogOffContentHash_def)
qed

lemma length_entry_buf [simp]: "length (entry_buf sha i d) = vLogEntrySize"
  by (simp add: entry_buf_def Let_def layout_defs)

lemma entry_buf_fields:
  assumes "hash32 sha" and "valid_chunk sha i d"
  shows "slice vlogOffChunkID (vlogOffChunkID + 32) (entry_buf sha i d) = i"
    and "slice vlogOffChunkData (vlogOffChunkData + ChunkDataSize) (entry_buf sha i d) = d"
    and "slice vlogOffContentHash (vlogOffContentHash + 32) (entry_buf sha i d) = sha d"
  using assms
  by (simp_all add: entry_buf_eq valid_chunk_def slice_def vlogOffChunkID_def vlogOffChunkData_def
      vlogOffContentHash_def hash32_def)

definition log_bytes :: "hash \<Rightarrow> (chunk_id \<times> byte list) list \<Rightarrow> byte list" where
  "log_bytes sha es = concat (map (\<lambda>(i, d). entry_buf sha i d) es)"

definition valid_log :: "hash \<Rightarrow> (chunk_id \<times> byte list) list \<Rightarrow> bool" where
  "valid_log sha es \<longleftrightarrow> hash32 sha \<and> (\<forall>(i, d) \<in> set es. valid_chunk sha i d)"

lemma length_log_bytes [simp]: "length (log_bytes sha es) = length es * vLogEntrySize"
  unfolding log_bytes_def by (rule length_concat_blocks) auto

lemma log_bytes_snoc: "log_bytes sha (es @ [(i, d)]) = log_bytes sha es @ entry_buf sha i d"
  by (simp add: log_bytes_def)

lemma read_log_entry:
  assumes "n < length es"
  shows "slice (n * vLogEntrySize) (n * vLogEntrySize + vLogEntrySize) (log_bytes sha es @ tail) =
         entry_buf sha (fst (es ! n)) (snd (es ! n))"
  using slice_block [of es "\<lambda>(i, d). entry_buf sha i d" vLogEntrySize n tail] assms
  by (auto simp: log_bytes_def split_beta)

lemma valid_log_nth: "valid_log sha es \<Longrightarrow> n < length es \<Longrightarrow> valid_chunk sha (fst (es ! n)) (snd (es ! n))"
  using nth_mem [of n es] by (auto simp: valid_log_def split_beta)

lemma length_index_value: "length (index_value off n) = 12"
  by (simp add: index_value_def indexValueSize_def)

lemma index_value_eq: "index_value off n = be_bytes 8 off @ be_bytes 4 n"
proof -
  have "copy_at 0 (replicate 12 0) (be_bytes 8 off) = be_bytes 8 off @ replicate 4 0"
    using copy_at_append [of "[]" 0 "be_bytes 8 off" "replicate 12 0"] by (simp add: drop_replicate)
  moreover have "copy_at 8 (be_bytes 8 off @ replicate 4 0) (be_bytes 4 n) = be_bytes 8 off @ be_bytes 4 n"
    by (subst copy_at_append) auto
  ultimately show ?thesis by (simp add: index_value_def indexValueSize_def)
qed

lemma index_get_value:
  "index st i = Some (index_value off n) \<Longrightarrow> index_get True st i = Inr (off mod 2 ^ 64, n mod 2 ^ 32)"
  by (simp add: index_get_def index_value_eq slice_def be_value_be_bytes)

text \<open>
  The invariant: the log is a sequence of valid entries, the head is its end, and every index
  value is the offset of an entry with that identifier.
\<close>

definition wf_store :: "hash \<Rightarrow> (chunk_id \<times> byte list) list \<Rightarrow> wiskeyStore \<Rightarrow> bool" where
  "wf_store sha es st \<longleftrightarrow>
     valid_log sha es \<and> vlog st = log_bytes sha es \<and> vlogHead st = length (vlog st) \<and>
     length (vlog st) < 2 ^ 63 \<and>
     (\<forall>i v. index st i = Some v \<longrightarrow>
        (\<exists>n<length es. fst (es ! n) = i \<and> v = index_value (n * vLogEntrySize) ChunkDataSize))"

lemma offset_bound:
  assumes "wf_store sha es st" and "n \<le> length es" shows "n * vLogEntrySize < 2 ^ 64"
proof -
  have "n * vLogEntrySize \<le> length es * vLogEntrySize"
    using assms(2) by simp
  also have "\<dots> < 2 ^ 63"
    using assms(1) by (metis wf_store_def length_log_bytes)
  finally show ?thesis by simp
qed

lemma read_entry:
  assumes "valid_log sha es" and "vlog st = log_bytes sha es @ tail" and "n < length es"
    and "fst (es ! n) = i"
  shows "readFromVLog sha True st i (n * vLogEntrySize) = Inr (snd (es ! n))"
proof -
  have v: "hash32 sha" "valid_chunk sha (fst (es ! n)) (snd (es ! n))"
    using assms(1) valid_log_nth [OF assms(1,3)] by (auto simp: valid_log_def)
  have "Suc n * vLogEntrySize \<le> length es * vLogEntrySize"
    using assms(3) by (intro mult_right_mono) auto
  then have "\<not> length (vlog st) < n * vLogEntrySize + vLogEntrySize"
    using assms(2) by simp
  then show ?thesis
    using v assms(2-4)
    by (simp add: readFromVLog_def Let_def read_log_entry entry_buf_fields(2)) (simp add: valid_chunk_def)
qed

lemma readFromVLog_index [simp]: "readFromVLog sha ok (st\<lparr>index := m\<rparr>) = readFromVLog sha ok st"
  by (simp add: readFromVLog_def fun_eq_iff)

lemma readFromVLog_head [simp]: "readFromVLog sha ok (st\<lparr>vlogHead := h\<rparr>) = readFromVLog sha ok st"
  by (simp add: readFromVLog_def fun_eq_iff)

lemma LookupChunk_indexed:
  assumes "wf_store sha es st" and "n < length es" and "fst (es ! n) = i"
    and "index st i = Some (index_value (n * vLogEntrySize) ChunkDataSize)"
  shows "LookupChunk sha ReadsOk st i = Inr (snd (es ! n))"
proof -
  have "valid_log sha es" "vlog st = log_bytes sha es @ []"
    using assms(1) by (auto simp: wf_store_def)
  from read_entry [OF this assms(2,3)] show ?thesis
    using offset_bound [OF assms(1), of n] assms(2) index_get_value [OF assms(4)]
    by (simp add: LookupChunk_def)
qed

lemma LookupChunk_wf:
  assumes "wf_store sha es st"
  shows "case index st i of
           None \<Rightarrow> LookupChunk sha ReadsOk st i = Inl ErrChunkNotFound
         | Some v \<Rightarrow> \<exists>n<length es. fst (es ! n) = i \<and> v = index_value (n * vLogEntrySize) ChunkDataSize \<and>
             LookupChunk sha ReadsOk st i = Inr (snd (es ! n))"
proof (cases "index st i")
  case None
  then show ?thesis by (simp add: LookupChunk_def index_get_def)
next
  case (Some v)
  with assms obtain n where n: "n < length es" "fst (es ! n) = i"
    "v = index_value (n * vLogEntrySize) ChunkDataSize"
    unfolding wf_store_def by blast
  with LookupChunk_indexed [OF assms n(1,2)] Some show ?thesis by auto
qed

lemma AppendChunk_ok:
  assumes "wf_store sha es st" and "valid_chunk sha i d"
    and "length (vlog st) + vLogEntrySize < 2 ^ 63"
  shows "AppendChunk sha io_ok i d st =
           (Inr (length (vlog st)),
            \<lparr>index = (index st)(i \<mapsto> index_value (length es * vLogEntrySize) ChunkDataSize),
             vlog = log_bytes sha (es @ [(i, d)]), vlogHead = length (vlog st) + vLogEntrySize\<rparr>)"
  using assms
  by (cases st) (simp add: AppendChunk_def appendToVLog_def index_put_def io_ok_def Let_def
      wf_store_def valid_chunk_def log_bytes_snoc)

lemma wf_store_append:
  assumes "wf_store sha es st" and "valid_chunk sha i d"
    and "length (vlog st) + vLogEntrySize < 2 ^ 63"
  shows "wf_store sha (es @ [(i, d)]) (snd (AppendChunk sha io_ok i d st))"
proof -
  have "\<exists>n<length (es @ [(i, d)]). fst ((es @ [(i, d)]) ! n) = j \<and>
      v = index_value (n * vLogEntrySize) ChunkDataSize"
    if "((index st)(i \<mapsto> index_value (length es * vLogEntrySize) ChunkDataSize)) j = Some v" for j v
  proof (cases "j = i")
    case True
    with that show ?thesis by (intro exI [of _ "length es"]) auto
  next
    case False
    with that assms(1) obtain n where "n < length es" "fst (es ! n) = j"
      "v = index_value (n * vLogEntrySize) ChunkDataSize"
      unfolding wf_store_def by (metis fun_upd_apply)
    then show ?thesis by (intro exI [of _ n]) (auto simp: nth_append)
  qed
  moreover have "valid_log sha (es @ [(i, d)])"
    using assms(1,2) by (auto simp: wf_store_def valid_log_def)
  ultimately show ?thesis
    using assms(1,3) unfolding AppendChunk_ok [OF assms] by (simp add: wf_store_def)
qed

definition wiskey_delete :: "chunk_id \<Rightarrow> wiskeyStore \<Rightarrow> wiskeyStore" where
  "wiskey_delete i st = snd (DeleteChunk True i st)"

lemma wf_store_delete: "wf_store sha es st \<Longrightarrow> wf_store sha es (wiskey_delete i st)"
  by (auto simp: wf_store_def wiskey_delete_def DeleteChunk_def index_del_def)

text \<open>The value log engine implements the interface.\<close>

definition wiskey_invar :: "hash \<Rightarrow> wiskeyStore \<Rightarrow> bool" where
  "wiskey_invar sha st \<longleftrightarrow> (\<exists>es. wf_store sha es st)"

definition wiskey_room :: "wiskeyStore \<Rightarrow> nat \<Rightarrow> bool" where
  "wiskey_room st n \<longleftrightarrow> length (vlog st) + n * vLogEntrySize < 2 ^ 63"

definition wiskey_append :: "hash \<Rightarrow> chunk_id \<Rightarrow> byte list \<Rightarrow> wiskeyStore \<Rightarrow> wiskeyStore" where
  "wiskey_append sha i d st = snd (AppendChunk sha io_ok i d st)"

lemma LookupChunk_append:
  assumes wf: "wf_store sha es st" and v: "valid_chunk sha i d"
    and room: "length (vlog st) + vLogEntrySize < 2 ^ 63"
  shows "LookupChunk sha ReadsOk (wiskey_append sha i d st) j = (if j = i then Inr d else LookupChunk sha ReadsOk st j)"
proof -
  let ?st = "wiskey_append sha i d st"
  have wf': "wf_store sha (es @ [(i, d)]) ?st"
    unfolding wiskey_append_def using assms by (rule wf_store_append)
  have ix: "index ?st = (index st)(i \<mapsto> index_value (length es * vLogEntrySize) ChunkDataSize)"
    by (simp add: wiskey_append_def AppendChunk_ok [OF assms])
  show ?thesis
  proof (cases "j = i")
    case True
    with LookupChunk_indexed [OF wf', of "length es" i] ix show ?thesis by simp
  next
    case j: False
    show ?thesis
    proof (cases "index st j")
      case None
      with j ix show ?thesis by (simp add: LookupChunk_def index_get_def)
    next
      case (Some v)
      with LookupChunk_wf [OF wf, of j] obtain n where n: "n < length es" "fst (es ! n) = j"
        "v = index_value (n * vLogEntrySize) ChunkDataSize" "LookupChunk sha ReadsOk st j = Inr (snd (es ! n))"
        by auto
      with LookupChunk_indexed [OF wf', of n j] Some j ix show ?thesis by (simp add: nth_append)
    qed
  qed
qed

interpretation ws: chunk_store sha "wiskey_invar sha" wiskey_room "wiskey_append sha"
  wiskey_delete "LookupChunk sha ReadsOk" for sha
proof
  fix s i d j e and n m :: nat
  show "wiskey_invar sha s \<Longrightarrow> wiskey_room s 1 \<Longrightarrow> valid_chunk sha i d \<Longrightarrow>
      LookupChunk sha ReadsOk (wiskey_append sha i d s) j = (if j = i then Inr d else LookupChunk sha ReadsOk s j)"
    by (auto simp: wiskey_invar_def wiskey_room_def LookupChunk_append)
  show "wiskey_invar sha s \<Longrightarrow>
      LookupChunk sha ReadsOk (wiskey_delete i s) j = (if j = i then Inl ErrChunkNotFound else LookupChunk sha ReadsOk s j)"
    by (auto simp: LookupChunk_def index_get_def wiskey_delete_def DeleteChunk_def index_del_def split: option.split)
  show "wiskey_invar sha s \<Longrightarrow> wiskey_room s 1 \<Longrightarrow> valid_chunk sha i d \<Longrightarrow>
      wiskey_invar sha (wiskey_append sha i d s)"
    unfolding wiskey_invar_def wiskey_append_def
    by (elim exE, rule exI, erule wf_store_append) (simp_all add: wiskey_room_def)
  show "wiskey_invar sha s \<Longrightarrow> wiskey_invar sha (wiskey_delete i s)"
    by (auto simp: wiskey_invar_def intro: wf_store_delete)
  show "wiskey_invar sha s \<Longrightarrow> wiskey_room s (Suc n) \<Longrightarrow> valid_chunk sha i d \<Longrightarrow>
      wiskey_room (wiskey_append sha i d s) n"
    by (auto simp: wiskey_invar_def wiskey_room_def wiskey_append_def AppendChunk_ok wf_store_def)
  show "wiskey_room s n \<Longrightarrow> wiskey_room (wiskey_delete i s) n"
    by (simp add: wiskey_room_def wiskey_delete_def DeleteChunk_def index_del_def)
  show "wiskey_room s m" if "wiskey_room s n" "m \<le> n"
  proof -
    have "m * vLogEntrySize \<le> n * vLogEntrySize" using that(2) by simp
    with that(1) show ?thesis unfolding wiskey_room_def by linarith
  qed
  show "wiskey_invar sha s \<Longrightarrow> LookupChunk sha ReadsOk s i = Inl e \<Longrightarrow> e = ErrChunkNotFound"
    unfolding wiskey_invar_def
    by (elim exE, drule LookupChunk_wf [where i = i]) (auto split: option.splits)
  show "LookupChunk sha ReadsOk s i = Inr d \<Longrightarrow> sha d = i"
    by (auto simp: LookupChunk_def readFromVLog_def Let_def split: sum.splits if_splits)
qed

text \<open>So does the Badger engine.\<close>

definition badger_invar :: "hash \<Rightarrow> badgerStore \<Rightarrow> bool" where
  "badger_invar sha bs \<longleftrightarrow> (\<forall>i d. badger_db bs i = Some d \<longrightarrow> sha d = i)"

definition badger_append :: "chunk_id \<Rightarrow> byte list \<Rightarrow> badgerStore \<Rightarrow> badgerStore" where
  "badger_append i d bs = snd (badger_AppendChunk True i d bs)"

definition badger_delete :: "chunk_id \<Rightarrow> badgerStore \<Rightarrow> badgerStore" where
  "badger_delete i bs = snd (badger_DeleteChunk True i bs)"

interpretation bs: chunk_store sha "badger_invar sha" "\<lambda>_ _. True" badger_append badger_delete
  "badger_LookupChunk sha True" for sha
  by unfold_locales
    (auto simp: badger_invar_def badger_append_def badger_delete_def badger_AppendChunk_def
      badger_DeleteChunk_def badger_LookupChunk_def valid_chunk_def split: option.splits if_splits)

subsection \<open>Crash recovery\<close>

text \<open>The index after a scan of the entries \<open>es\<close>, the first of which is entry number \<open>k\<close>.\<close>

fun reindex :: "nat \<Rightarrow> (chunk_id \<times> byte list) list \<Rightarrow> (chunk_id \<rightharpoonup> byte list) \<Rightarrow> (chunk_id \<rightharpoonup> byte list)" where
  "reindex k [] m = m"
| "reindex k ((i, d) # es) m =
     reindex (Suc k) es
       (if m i = None then m(i \<mapsto> index_value (k * vLogEntrySize) ChunkDataSize) else m)"

lemma recover_loop_scan:
  assumes "valid_log sha es" and "vlog st = log_bytes sha es @ tail" and "length tail < vLogEntrySize"
    and "n \<le> length es"
  shows "recover_loop sha scan_io_ok (n * vLogEntrySize) st =
           (None, st\<lparr>index := reindex n (drop n es) (index st), vlogHead := length es * vLogEntrySize\<rparr>)"
  using assms(2,4)
proof (induction "length es - n" arbitrary: n st)
  case 0
  then have "n = length es" by simp
  with 0 assms(3) show ?case by (subst recover_loop.simps) (simp add: scan_io_ok_def)
next
  case (Suc k)
  then have n: "n < length es" by simp
  obtain i d where e: "es ! n = (i, d)" by fastforce
  have dr: "drop n es = (i, d) # drop (Suc n) es"
    using n e by (metis Cons_nth_drop_Suc)
  have v: "hash32 sha" "valid_chunk sha i d"
    using assms(1) valid_log_nth [OF assms(1) n] e by (auto simp: valid_log_def)
  have nxt: "Suc n * vLogEntrySize = n * vLogEntrySize + vLogEntrySize" by simp
  have "Suc n * vLogEntrySize \<le> length es * vLogEntrySize"
    using n by (intro mult_right_mono) auto
  then have inside: "\<not> length (vlog st) < n * vLogEntrySize + vLogEntrySize"
    using Suc.prems(1) by simp
  have buf: "slice (n * vLogEntrySize) (n * vLogEntrySize + vLogEntrySize) (vlog st) = entry_buf sha i d"
    using Suc.prems(1) read_log_entry [OF n] e by simp
  let ?m = "if index st i = None then (index st)(i \<mapsto> index_value (n * vLogEntrySize) ChunkDataSize) else index st"
  have "recover_loop sha scan_io_ok (n * vLogEntrySize) st =
          recover_loop sha scan_io_ok (Suc n * vLogEntrySize) (st\<lparr>index := ?m\<rparr>)"
    using v by (subst recover_loop.simps)
      (simp add: inside buf Let_def entry_buf_fields index_get_def nxt scan_io_ok_def split: option.split del: mult_Suc)
  also have "\<dots> = (None, st\<lparr>index := reindex (Suc n) (drop (Suc n) es) ?m,
                         vlogHead := length es * vLogEntrySize\<rparr>)"
    using Suc.hyps(1) [of "Suc n" "st\<lparr>index := ?m\<rparr>"] Suc.hyps(2) Suc.prems(1) n by simp
  finally show ?case by (simp add: dr)
qed

lemma reindex_None: "i \<notin> fst ` set es \<Longrightarrow> reindex k es m i = m i"
  by (induction k es m rule: reindex.induct) auto

lemma reindex_Some: "m i = Some v \<Longrightarrow> reindex k es m i = Some v"
proof (induction k es m rule: reindex.induct)
  case (2 k j d es m)
  then have "(if m j = None then m(j \<mapsto> index_value (k * vLogEntrySize) ChunkDataSize) else m) i = Some v"
    by auto
  then show ?case by (simp only: reindex.simps "2.IH")
qed simp

lemma reindex_new:
  "m i = None \<Longrightarrow> i \<in> fst ` set es \<Longrightarrow>
   \<exists>n<length es. fst (es ! n) = i \<and> reindex k es m i = Some (index_value ((k + n) * vLogEntrySize) ChunkDataSize)"
proof (induction k es m rule: reindex.induct)
  case (2 k j d es m)
  show ?case
  proof (cases "j = i")
    case True
    with 2 show ?thesis by (intro exI [of _ 0]) (simp add: reindex_Some)
  next
    case False
    with 2 have "\<exists>n<length es. fst (es ! n) = i \<and>
        reindex k ((j, d) # es) m i = Some (index_value ((Suc k + n) * vLogEntrySize) ChunkDataSize)"
      by auto
    then obtain n where "n < length es" "fst (es ! n) = i"
      "reindex k ((j, d) # es) m i = Some (index_value ((k + Suc n) * vLogEntrySize) ChunkDataSize)"
      by auto
    then show ?thesis by (intro exI [of _ "Suc n"]) simp
  qed
qed simp

text \<open>An index all of whose values point to entries of the log.\<close>

definition valid_index :: "(chunk_id \<times> byte list) list \<Rightarrow> (chunk_id \<rightharpoonup> byte list) \<Rightarrow> bool" where
  "valid_index es m \<longleftrightarrow> (\<forall>i v. m i = Some v \<longrightarrow>
     (\<exists>n<length es. fst (es ! n) = i \<and> v = index_value (n * vLogEntrySize) ChunkDataSize))"

lemma valid_index_reindex:
  assumes "valid_index es m" shows "valid_index es (reindex 0 es m)"
  unfolding valid_index_def
proof (intro allI impI)
  fix i v assume v: "reindex 0 es m i = Some v"
  show "\<exists>n<length es. fst (es ! n) = i \<and> v = index_value (n * vLogEntrySize) ChunkDataSize"
  proof (cases "m i")
    case None
    with v have "i \<in> fst ` set es" by (metis option.distinct(1) reindex_None)
    with reindex_new [where m = m and i = i and k = 0 and es = es] None v show ?thesis by auto
  next
    case (Some w)
    with v reindex_Some [where m = m and i = i and v = w and k = 0 and es = es] have "m i = Some v" by simp
    with assms show ?thesis unfolding valid_index_def by blast
  qed
qed

lemma reindex_dom: "i \<in> fst ` set es \<Longrightarrow> reindex k es m i \<noteq> None"
  using reindex_new [where m = m and i = i and es = es and k = k]
    reindex_Some [where m = m and i = i and k = k and es = es] by (cases "m i") auto

lemma Recover_torn:
  assumes "valid_log sha es" and "length tail < vLogEntrySize"
  shows "RecoverFromCrash sha scan_io_ok (newEngineStore m (log_bytes sha es @ tail)) =
           (None, \<lparr>index = reindex 0 es m, vlog = log_bytes sha es @ tail,
                   vlogHead = length es * vLogEntrySize\<rparr>)"
  using recover_loop_scan [OF assms(1), of "newEngineStore m (log_bytes sha es @ tail)" tail 0] assms(2)
  by (simp add: RecoverFromCrash_def newEngineStore_def)

lemma lookup_torn:
  assumes "valid_log sha es" and "valid_index es (index st)" and "vlog st = log_bytes sha es @ tail"
    and "length (vlog st) < 2 ^ 63" and "index st i \<noteq> None"
  shows "\<exists>n<length es. fst (es ! n) = i \<and> LookupChunk sha ReadsOk st i = Inr (snd (es ! n))"
proof -
  from assms(2,5) obtain n where n: "n < length es" "fst (es ! n) = i"
    "index st i = Some (index_value (n * vLogEntrySize) ChunkDataSize)"
    unfolding valid_index_def by blast
  have "n * vLogEntrySize \<le> length (vlog st)"
    using n(1) assms(3) by (simp add: trans_le_add1)
  with assms(4) have "n * vLogEntrySize < 2 ^ 64" by simp
  with read_entry [OF assms(1,3) n(1,2)] index_get_value [OF n(3)] n(1,2) show ?thesis
    by (auto simp: LookupChunk_def)
qed

lemma same_hash_same_data:
  assumes "valid_log sha es" and "inj_on sha (snd ` set es)" and "(i, d) \<in> set es"
    and "n < length es" and "fst (es ! n) = i"
  shows "snd (es ! n) = d"
proof -
  have "sha (snd (es ! n)) = i" "sha d = i"
    using valid_log_nth [OF assms(1,4)] assms(1,3,5) by (auto simp: valid_log_def valid_chunk_def)
  moreover have "snd (es ! n) \<in> snd ` set es" "d \<in> snd ` set es"
    using assms(3,4) by force+
  ultimately show ?thesis
    using assms(2) by (auto dest: inj_onD)
qed

subsection \<open>Garbage collection\<close>

fun gc_index :: "nat \<Rightarrow> (chunk_id \<times> byte list) list \<Rightarrow> (chunk_id \<rightharpoonup> byte list) \<Rightarrow> (chunk_id \<rightharpoonup> byte list)" where
  "gc_index k [] m = m"
| "gc_index k ((i, d) # es) m =
     gc_index (Suc k) es (m(i \<mapsto> index_value (k * vLogEntrySize) ChunkDataSize))"

lemma gc_loop_scan:
  assumes "valid_log sha es" and "vlog st = log_bytes sha es" and "n \<le> length es"
    and "tmp = log_bytes sha acc"
  shows "gc_loop gc_io_ok live (n * vLogEntrySize) tmp st =
           (None, log_bytes sha (acc @ filter (\<lambda>(i, d). live i) (drop n es)),
            st\<lparr>index := gc_index (length acc) (filter (\<lambda>(i, d). live i) (drop n es)) (index st)\<rparr>)"
  using assms(2,3,4)
proof (induction "length es - n" arbitrary: n st tmp acc)
  case 0
  then have "n = length es" by simp
  with 0 show ?case
    by (subst gc_loop.simps) (simp add: gc_io_ok_def vLogEntrySize_def)
next
  case (Suc k)
  then have n: "n < length es" by simp
  obtain i d where e: "es ! n = (i, d)" by fastforce
  have dr: "drop n es = (i, d) # drop (Suc n) es"
    using n e by (metis Cons_nth_drop_Suc)
  have v: "hash32 sha" "valid_chunk sha i d"
    using assms(1) valid_log_nth [OF assms(1) n] e by (auto simp: valid_log_def)
  have nxt: "Suc n * vLogEntrySize = n * vLogEntrySize + vLogEntrySize" by simp
  have "Suc n * vLogEntrySize \<le> length es * vLogEntrySize"
    using n by (intro mult_right_mono) auto
  then have inside: "\<not> length (vlog st) < n * vLogEntrySize + vLogEntrySize"
    using Suc.prems(1) by simp
  have buf: "slice (n * vLogEntrySize) (n * vLogEntrySize + vLogEntrySize) (vlog st) = entry_buf sha i d"
    using Suc.prems(1) read_log_entry [OF n, of sha "[]"] e by simp
  show ?case
  proof (cases "live i")
    case True
    let ?st = "st\<lparr>index := (index st)(i \<mapsto> index_value (length tmp) ChunkDataSize)\<rparr>"
    have "gc_loop gc_io_ok live (n * vLogEntrySize) tmp st =
            gc_loop gc_io_ok live (Suc n * vLogEntrySize) (tmp @ entry_buf sha i d) ?st"
      using v True by (subst gc_loop.simps)
        (simp add: inside buf nxt Let_def entry_buf_fields gc_io_ok_def del: mult_Suc)
    also have "\<dots> = (None, log_bytes sha ((acc @ [(i, d)]) @ filter (\<lambda>(i, d). live i) (drop (Suc n) es)),
        ?st\<lparr>index := gc_index (length (acc @ [(i, d)])) (filter (\<lambda>(i, d). live i) (drop (Suc n) es)) (index ?st)\<rparr>)"
      using Suc.hyps(2) Suc.prems n by (intro Suc.hyps(1)) (auto simp: log_bytes_snoc)
    finally show ?thesis
      using True Suc.prems(3) by (simp add: dr)
  next
    case False
    have "gc_loop gc_io_ok live (n * vLogEntrySize) tmp st =
            gc_loop gc_io_ok live (Suc n * vLogEntrySize) tmp st"
      using v False by (subst gc_loop.simps)
        (simp add: inside buf nxt Let_def entry_buf_fields gc_io_ok_def del: mult_Suc)
    also have "\<dots> = (None, log_bytes sha (acc @ filter (\<lambda>(i, d). live i) (drop (Suc n) es)),
        st\<lparr>index := gc_index (length acc) (filter (\<lambda>(i, d). live i) (drop (Suc n) es)) (index st)\<rparr>)"
      using Suc.hyps(2) Suc.prems n by (intro Suc.hyps(1)) auto
    finally show ?thesis
      using False by (simp add: dr)
  qed
qed

lemma gc_index_notin: "i \<notin> fst ` set es \<Longrightarrow> gc_index k es m i = m i"
  by (induction k es m rule: gc_index.induct) auto

lemma gc_index_in:
  "i \<in> fst ` set es \<Longrightarrow>
   \<exists>n<length es. fst (es ! n) = i \<and> gc_index k es m i = Some (index_value ((k + n) * vLogEntrySize) ChunkDataSize)"
proof (induction k es m rule: gc_index.induct)
  case (2 k j d es m)
  show ?case
  proof (cases "i \<in> fst ` set es")
    case True
    from "2.IH" [OF this] obtain n where "n < length es" "fst (es ! n) = i"
      "gc_index k ((j, d) # es) m i = Some (index_value ((Suc k + n) * vLogEntrySize) ChunkDataSize)"
      by (auto simp only: gc_index.simps)
    then show ?thesis by (intro exI [of _ "Suc n"]) simp
  next
    case False
    with 2 show ?thesis by (intro exI [of _ 0]) (auto simp: gc_index_notin)
  qed
qed simp


lemma gc_index_valid:
  assumes "\<forall>i. m i \<noteq> None \<longrightarrow> i \<in> fst ` set es"
  shows "valid_index es (gc_index 0 es m)"
  unfolding valid_index_def
proof (intro allI impI)
  fix i v assume v: "gc_index 0 es m i = Some v"
  have "i \<in> fst ` set es"
    using assms v gc_index_notin [of i es 0 m] by force
  from gc_index_in [OF this, of 0 m] v
  show "\<exists>n<length es. fst (es ! n) = i \<and> v = index_value (n * vLogEntrySize) ChunkDataSize" by auto
qed

lemma wf_store_valid_index: "wf_store sha es st \<Longrightarrow> valid_index es (index st)"
  by (simp add: wf_store_def valid_index_def)

lemma wf_storeI:
  assumes "valid_log sha es" and "vlog st = log_bytes sha es" and "vlogHead st = length (vlog st)"
    and "length (vlog st) < 2 ^ 63" and "valid_index es (index st)"
  shows "wf_store sha es st"
  using assms by (simp add: wf_store_def valid_index_def)

lemma valid_log_filter: "valid_log sha es \<Longrightarrow> valid_log sha (filter P es)"
  by (auto simp: valid_log_def)

lemma valid_index_key: "valid_index es m \<Longrightarrow> m i \<noteq> None \<Longrightarrow> i \<in> fst ` set es"
  unfolding valid_index_def by (metis image_eqI not_None_eq nth_mem)

abbreviation live_entries :: "wiskeyStore \<Rightarrow> (chunk_id \<times> byte list) list \<Rightarrow> (chunk_id \<times> byte list) list" where
  "live_entries st es \<equiv> filter (\<lambda>(i, d). index st i \<noteq> None) es"

lemma RunGC_result:
  assumes "wf_store sha es st"
  shows "RunGC gc_io_ok st =
           (None, \<lparr>index = gc_index 0 (live_entries st es) (index st),
                   vlog = log_bytes sha (live_entries st es),
                   vlogHead = length (live_entries st es) * vLogEntrySize\<rparr>)"
proof -
  have "gc_loop gc_io_ok (\<lambda>i. index st i \<noteq> None) (0 * vLogEntrySize) [] st =
      (None, log_bytes sha ([] @ live_entries st (drop 0 es)),
       st\<lparr>index := gc_index (length []) (live_entries st (drop 0 es)) (index st)\<rparr>)"
    using gc_loop_scan [of sha es st 0 "[]" "[]" "\<lambda>i. index st i \<noteq> None"] assms
    by (simp add: wf_store_def log_bytes_def)
  then show ?thesis
    by (cases st) (simp add: RunGC_def gc_io_ok_def)
qed

lemma RunGC_index_dom:
  assumes "wf_store sha es st"
  shows "gc_index 0 (live_entries st es) (index st) i = None \<longleftrightarrow> index st i = None"
proof (cases "i \<in> fst ` set (live_entries st es)")
  case True
  with gc_index_in [OF this, of 0 "index st"] show ?thesis by auto
next
  case False
  then show ?thesis by (simp add: gc_index_notin)
qed

lemma wf_store_RunGC:
  assumes wf: "wf_store sha es st"
  shows "wf_store sha (live_entries st es) (snd (RunGC gc_io_ok st))"
proof (rule wf_storeI)
  show "valid_log sha (live_entries st es)"
    using wf by (auto simp: wf_store_def intro: valid_log_filter)
  have "length (live_entries st es) * vLogEntrySize \<le> length es * vLogEntrySize"
    by (intro mult_right_mono) auto
  also have "\<dots> < 2 ^ 63"
    using wf by (metis wf_store_def length_log_bytes)
  finally show "length (vlog (snd (RunGC gc_io_ok st))) < 2 ^ 63"
    unfolding RunGC_result [OF wf] by simp
  have "\<forall>i. index st i \<noteq> None \<longrightarrow> i \<in> fst ` set (live_entries st es)"
    using valid_index_key [OF wf_store_valid_index [OF wf]] by force
  from gc_index_valid [OF this] show "valid_index (live_entries st es) (index (snd (RunGC gc_io_ok st)))"
    unfolding RunGC_result [OF wf] by simp
qed (simp_all add: RunGC_result [OF wf])

subsection \<open>Properties\<close>

fun wiskey_step :: "hash \<Rightarrow> store_op \<Rightarrow> wiskeyStore \<Rightarrow> wiskeyStore" where
  "wiskey_step sha (Append i d) st = snd (AppendChunk sha io_ok i d st)"
| "wiskey_step sha (Delete i) st = snd (DeleteChunk True i st)"

fun badger_step :: "store_op \<Rightarrow> badgerStore \<Rightarrow> badgerStore" where
  "badger_step (Append i d) bs = snd (badger_AppendChunk True i d bs)"
| "badger_step (Delete i) bs = snd (badger_DeleteChunk True i bs)"

lemma ws_do_op: "ws.do_op sha = wiskey_step sha"
proof (intro ext)
  show "ws.do_op sha c st = wiskey_step sha c st" for c st
    by (cases c) (simp_all add: wiskey_append_def wiskey_delete_def)
qed

lemma bs_do_op: "bs.do_op = badger_step"
proof (intro ext)
  show "bs.do_op c st = badger_step c st" for c st
    by (cases c) (simp_all add: badger_append_def badger_delete_def)
qed

lemma empty_store:
  assumes "hash32 sha"
  shows "wiskey_invar sha (newEngineStore Map.empty [])"
    and "ws.abs_map sha (newEngineStore Map.empty []) = Map.empty"
  using assms
  by (auto simp: wiskey_invar_def wf_store_def valid_log_def newEngineStore_def log_bytes_def
      ws.abs_map_def LookupChunk_def index_get_def intro: exI [of _ "[]"])

lemma wiskey_run:
  assumes "hash32 sha" and "length cs * vLogEntrySize < 2 ^ 63" and "\<forall>c\<in>set cs. valid_op sha c"
  shows "LookupChunk sha ReadsOk (fold (wiskey_step sha) cs (newEngineStore Map.empty [])) i =
           (case fold spec_op cs Map.empty i of None \<Rightarrow> Inl ErrChunkNotFound | Some d \<Rightarrow> Inr d)"
proof -
  have "wiskey_room (newEngineStore Map.empty []) (length cs)"
    using assms(2) by (simp add: wiskey_room_def newEngineStore_def)
  from ws.run_lookup [OF empty_store(1) [OF assms(1)] this assms(3), of i] show ?thesis
    by (simp only: ws_do_op empty_store(2) [OF assms(1)])
qed

lemma badger_run:
  assumes "\<forall>c\<in>set cs. valid_op sha c"
  shows "badger_LookupChunk sha True (fold badger_step cs \<lparr>badger_db = Map.empty\<rparr>) i =
           (case fold spec_op cs Map.empty i of None \<Rightarrow> Inl ErrChunkNotFound | Some d \<Rightarrow> Inr d)"
proof -
  have "badger_invar sha \<lparr>badger_db = Map.empty\<rparr>" by (simp add: badger_invar_def)
  moreover have "bs.abs_map sha \<lparr>badger_db = Map.empty\<rparr> = Map.empty"
    by (auto simp: bs.abs_map_def badger_LookupChunk_def)
  ultimately show ?thesis
    using bs.run_lookup [OF _ TrueI assms, of "\<lparr>badger_db = Map.empty\<rparr>" i] by (simp add: bs_do_op)
qed

text \<open>A concrete 32-byte digest and concrete chunks, for the witnesses.\<close>

definition digest_hd :: hash where
  "digest_hd x = replicate 31 0 @ [if x = [] then 0 else hd x]"

definition const_chunk :: "byte \<Rightarrow> byte list" where
  "const_chunk b = replicate ChunkDataSize b"

lemma hash32_digest_hd: "hash32 digest_hd"
  by (simp add: hash32_def digest_hd_def)

lemma digest_const_chunk: "digest_hd (const_chunk b) = replicate 31 0 @ [b]"
  by (simp add: digest_hd_def const_chunk_def ChunkDataSize_def hd_replicate)

lemma valid_const_chunk: "valid_chunk digest_hd (replicate 31 0 @ [b]) (const_chunk b)"
  by (simp add: valid_chunk_def digest_const_chunk) (simp add: const_chunk_def)

text \<open>
  C2: on the value-log engine, after any sequence of appends and deletes a lookup returns exactly
  what a map from identifiers to data would: the bytes last appended, or ErrChunkNotFound.
\<close>

theorem wiskey_refines_map:
  assumes "hash32 sha" and "length cs * vLogEntrySize < 2 ^ 63" and "\<forall>c\<in>set cs. valid_op sha c"
  shows "LookupChunk sha ReadsOk (fold (wiskey_step sha) cs (newEngineStore Map.empty [])) i =
           (case fold spec_op cs Map.empty i of None \<Rightarrow> Inl ErrChunkNotFound | Some d \<Rightarrow> Inr d)"
  using assms by (rule wiskey_run)

theorem wiskey_refines_map_witness:
  "LookupChunk digest_hd ReadsOk
     (fold (wiskey_step digest_hd)
        [Append (replicate 31 0 @ [7]) (const_chunk 7), Append (replicate 31 0 @ [9]) (const_chunk 9),
         Delete (replicate 31 0 @ [7])] (newEngineStore Map.empty []))
     (replicate 31 0 @ [9]) = Inr (const_chunk 9)"
  using wiskey_refines_map [OF hash32_digest_hd, of
      "[Append (replicate 31 0 @ [7]) (const_chunk 7), Append (replicate 31 0 @ [9]) (const_chunk 9),
        Delete (replicate 31 0 @ [7])]" "replicate 31 0 @ [9]"]
  by (simp add: valid_const_chunk vLogEntrySize_def)

text \<open>
  C3: the two engines are interchangeable: after the same valid requests every lookup gives the
  same answer.
\<close>

theorem engines_agree:
  assumes "hash32 sha" and "length cs * vLogEntrySize < 2 ^ 63" and "\<forall>c\<in>set cs. valid_op sha c"
  shows "LookupChunk sha ReadsOk (fold (wiskey_step sha) cs (newEngineStore Map.empty [])) i =
         badger_LookupChunk sha True (fold badger_step cs \<lparr>badger_db = Map.empty\<rparr>) i"
  using wiskey_run [OF assms] badger_run [OF assms(3)] by simp

theorem engines_agree_witness:
  "LookupChunk digest_hd ReadsOk
     (fold (wiskey_step digest_hd) [Append (replicate 31 0 @ [7]) (const_chunk 7)] (newEngineStore Map.empty []))
     (replicate 31 0 @ [7]) =
   badger_LookupChunk digest_hd True
     (fold badger_step [Append (replicate 31 0 @ [7]) (const_chunk 7)] \<lparr>badger_db = Map.empty\<rparr>) (replicate 31 0 @ [7])"
  by (rule engines_agree [OF hash32_digest_hd]) (simp_all add: valid_const_chunk vLogEntrySize_def)

text \<open>
  Opening after a restart and recovering, for a log of valid entries with a partial entry at its
  end and an index that may miss any of them.
\<close>

definition restart :: "hash \<Rightarrow> wiskeyStore \<Rightarrow> wiskeyStore" where
  "restart sha st = snd (RecoverFromCrash sha scan_io_ok (newEngineStore (index st) (vlog st)))"

lemma restart_lookup:
  assumes "valid_log sha es" and "valid_index es (index st)" and "vlog st = log_bytes sha es @ tail"
    and "length tail < vLogEntrySize" and "length (vlog st) < 2 ^ 63"
    and "inj_on sha (snd ` set es)" and "(i, d) \<in> set es"
  shows "LookupChunk sha ReadsOk (restart sha st) i = Inr d"
proof -
  have r: "restart sha st = \<lparr>index = reindex 0 es (index st), vlog = log_bytes sha es @ tail,
      vlogHead = length es * vLogEntrySize\<rparr>"
    unfolding restart_def assms(3) Recover_torn [OF assms(1,4)] by simp
  have "i \<in> fst ` set es" using assms(7) by force
  then obtain n where "n < length es" "fst (es ! n) = i"
    "LookupChunk sha ReadsOk (restart sha st) i = Inr (snd (es ! n))"
    using lookup_torn [OF assms(1), of "restart sha st" tail i] valid_index_reindex [OF assms(2)]
      reindex_dom [of i es 0 "index st"] assms(3,5) r by auto
  with same_hash_same_data [OF assms(1,6,7)] show ?thesis by simp
qed

lemma AppendChunk_effects:
  assumes "length d = ChunkDataSize"
  shows "vlog (snd (AppendChunk sha io i d st)) =
           vlog st @ (case short_write io of Some k \<Rightarrow> take k (entry_buf sha i d) | None \<Rightarrow> entry_buf sha i d)"
    and "index (snd (AppendChunk sha io i d st)) =
           (if short_write io = None \<and> sync_ok io \<and> put_ok io
            then (index st)(i \<mapsto> index_value (vlogHead st) ChunkDataSize) else index st)"
  using assms
  by (simp_all add: AppendChunk_def appendToVLog_def index_put_def Let_def split: option.split)

lemma valid_index_snoc:
  assumes "valid_index es m"
  shows "valid_index (es @ [(i, d)]) m"
    and "valid_index (es @ [(i, d)]) (m(i \<mapsto> index_value (length es * vLogEntrySize) ChunkDataSize))"
proof -
  show *: "valid_index (es @ [(i, d)]) m"
    using assms unfolding valid_index_def by (metis length_append_singleton less_SucI nth_append)
  show "valid_index (es @ [(i, d)]) (m(i \<mapsto> index_value (length es * vLogEntrySize) ChunkDataSize))"
    unfolding valid_index_def
  proof (intro allI impI)
    fix j v
    assume v: "(m(i \<mapsto> index_value (length es * vLogEntrySize) ChunkDataSize)) j = Some v"
    show "\<exists>n<length (es @ [(i, d)]). fst ((es @ [(i, d)]) ! n) = j \<and>
        v = index_value (n * vLogEntrySize) ChunkDataSize"
    proof (cases "j = i")
      case True
      with v show ?thesis by (intro exI [of _ "length es"]) auto
    next
      case False
      with v have "m j = Some v" by simp
      with * show ?thesis unfolding valid_index_def by blast
    qed
  qed
qed

lemma AppendChunk_faulty:
  assumes "wf_store sha es st" and "valid_chunk sha i d"
  shows "\<exists>es' tail. vlog (snd (AppendChunk sha io i d st)) = log_bytes sha es' @ tail \<and>
           length tail < vLogEntrySize \<and> valid_log sha es' \<and>
           valid_index es' (index (snd (AppendChunk sha io i d st))) \<and>
           (es' = es \<and> short_write io \<noteq> None \<or> es' = es @ [(i, d)])"
proof -
  have d: "length d = ChunkDataSize" using assms(2) by (simp add: valid_chunk_def)
  have vl: "valid_log sha es" "valid_log sha (es @ [(i, d)])" "vlog st = log_bytes sha es"
    "vlogHead st = length es * vLogEntrySize"
    using assms(1,2) by (auto simp: wf_store_def valid_log_def)
  have vi: "valid_index es (index st)" using assms(1) by (rule wf_store_valid_index)
  show ?thesis
  proof (cases "\<exists>k. short_write io = Some k \<and> k < vLogEntrySize")
    case True
    then obtain k where k: "short_write io = Some k" "k < vLogEntrySize" by blast
    with vl vi show ?thesis
      by (intro exI [of _ es] exI [of _ "take k (entry_buf sha i d)"])
        (simp add: AppendChunk_effects [OF d])
  next
    case False
    then have "vlog (snd (AppendChunk sha io i d st)) = log_bytes sha (es @ [(i, d)])"
      using vl by (auto simp: AppendChunk_effects [OF d] log_bytes_snoc split: option.splits)
    moreover have "valid_index (es @ [(i, d)]) (index (snd (AppendChunk sha io i d st)))"
      using valid_index_snoc [OF vi] vl(4) by (simp add: AppendChunk_effects [OF d])
    ultimately show ?thesis
      using vl(2) by (intro exI [of _ "es @ [(i, d)]"] exI [of _ "[]"]) (simp add: vLogEntrySize_def)
  qed
qed

text \<open>
  C4: durability. Whatever fails while a chunk is appended (a partial write, the sync, the index
  insert), after restart and recovery every chunk of the log is readable, and so is the new one
  when its whole entry reached the file.
\<close>

theorem crash_durability:
  assumes "wf_store sha es st" and "valid_chunk sha i d"
    and "length (vlog st) + vLogEntrySize < 2 ^ 63" and "inj_on sha (insert d (snd ` set es))"
    and "(j, c) \<in> set es \<or> (j, c) = (i, d) \<and> short_write io = None"
  shows "LookupChunk sha ReadsOk (restart sha (snd (AppendChunk sha io i d st))) j = Inr c"
proof -
  let ?st = "snd (AppendChunk sha io i d st)"
  obtain es' tail where v: "vlog ?st = log_bytes sha es' @ tail" "length tail < vLogEntrySize"
    "valid_log sha es'" "valid_index es' (index ?st)"
    "es' = es \<and> short_write io \<noteq> None \<or> es' = es @ [(i, d)]"
    using AppendChunk_faulty [OF assms(1,2), of io] by blast
  have "length d = ChunkDataSize" using assms(2) by (simp add: valid_chunk_def)
  then have "length (vlog ?st) \<le> length (vlog st) + vLogEntrySize"
    by (simp add: AppendChunk_effects split: option.split)
  with assms(3) have "length (vlog ?st) < 2 ^ 63" by simp
  moreover have "inj_on sha (snd ` set es')" using v(5) assms(4) by (auto intro: inj_on_subset)
  moreover have "(j, c) \<in> set es'" using v(5) assms(5) by auto
  ultimately show ?thesis by (rule restart_lookup [OF v(3,4,1,2)])
qed

text \<open>A store that holds two chunks, used by the witnesses.\<close>

definition two_entries :: "(chunk_id \<times> byte list) list" where
  "two_entries = [(replicate 31 0 @ [7], const_chunk 7), (replicate 31 0 @ [9], const_chunk 9)]"

definition two_chunks :: wiskeyStore where
  "two_chunks = \<lparr>index = [replicate 31 0 @ [9] \<mapsto> index_value (1 * vLogEntrySize) ChunkDataSize],
                 vlog = log_bytes digest_hd two_entries, vlogHead = 2 * vLogEntrySize\<rparr>"

lemma wf_two_chunks: "wf_store digest_hd two_entries two_chunks"
proof (rule wf_storeI)
  show "valid_log digest_hd two_entries"
    by (simp add: valid_log_def two_entries_def hash32_digest_hd valid_const_chunk)
  show "valid_index two_entries (index two_chunks)"
    unfolding valid_index_def two_chunks_def two_entries_def by (auto intro!: exI [of _ "Suc 0"])
qed (simp_all add: two_chunks_def two_entries_def vLogEntrySize_def)

lemma inj_const_chunks: "inj_on digest_hd (const_chunk ` B)"
  by (auto simp: inj_on_def digest_const_chunk)

lemma inj_two_entries: "inj_on digest_hd (insert (const_chunk 5) (snd ` set two_entries))"
  using inj_const_chunks [of "{5, 7, 9}"] by (simp add: two_entries_def)

theorem crash_durability_witness:
  "LookupChunk digest_hd ReadsOk
     (restart digest_hd (snd (AppendChunk digest_hd \<lparr>short_write = Some 100, sync_ok = True, put_ok = True\<rparr>
        (replicate 31 0 @ [5]) (const_chunk 5) two_chunks)))
     (replicate 31 0 @ [9]) = Inr (const_chunk 9)"
proof (rule crash_durability [OF wf_two_chunks valid_const_chunk])
  show "length (vlog two_chunks) + vLogEntrySize < 2 ^ 63"
    by (simp add: two_chunks_def two_entries_def vLogEntrySize_def)
qed (rule inj_two_entries, simp add: two_entries_def)

text \<open>
  C5: a garbage collection without faults succeeds, changes no lookup, keeps the invariant, and
  leaves exactly the entries that the index knows, in their order.
\<close>

theorem RunGC_preserves_lookups:
  assumes "wf_store sha es st" and "inj_on sha (snd ` set es)"
  shows "\<exists>st'. RunGC gc_io_ok st = (None, st') \<and>
           (\<forall>i. LookupChunk sha ReadsOk st' i = LookupChunk sha ReadsOk st i) \<and>
           wf_store sha (live_entries st es) st' \<and> vlog st' = log_bytes sha (live_entries st es)"
proof -
  let ?st = "snd (RunGC gc_io_ok st)"
  have wf': "wf_store sha (live_entries st es) ?st" using assms(1) by (rule wf_store_RunGC)
  have "LookupChunk sha ReadsOk ?st i = LookupChunk sha ReadsOk st i" for i
  proof (cases "index st i")
    case None
    then have "index ?st i = None"
      by (simp add: RunGC_result [OF assms(1)] RunGC_index_dom [OF assms(1)] del: not_None_eq)
    with None show ?thesis by (simp add: LookupChunk_def index_get_def)
  next
    case (Some v)
    then have "index ?st i \<noteq> None"
      by (simp add: RunGC_result [OF assms(1)] RunGC_index_dom [OF assms(1)] del: not_None_eq)
    with LookupChunk_wf [OF wf', of i] obtain n where n: "n < length (live_entries st es)"
      "fst (live_entries st es ! n) = i" "LookupChunk sha ReadsOk ?st i = Inr (snd (live_entries st es ! n))"
      by (auto split: option.splits)
    from nth_mem [OF n(1)] n(2) have mem: "(i, snd (live_entries st es ! n)) \<in> set es" by auto
    from LookupChunk_wf [OF assms(1), of i] Some obtain m where m: "m < length es" "fst (es ! m) = i"
      "LookupChunk sha ReadsOk st i = Inr (snd (es ! m))" by auto
    have "valid_log sha es" using assms(1) by (simp add: wf_store_def)
    from same_hash_same_data [OF this assms(2) mem m(1,2)] n m show ?thesis by simp
  qed
  with wf' show ?thesis
    by (intro exI [of _ ?st]) (simp add: RunGC_result [OF assms(1)])
qed

theorem RunGC_preserves_lookups_witness:
  "\<exists>st'. RunGC gc_io_ok two_chunks = (None, st') \<and>
     LookupChunk digest_hd ReadsOk st' (replicate 31 0 @ [9]) = LookupChunk digest_hd ReadsOk two_chunks (replicate 31 0 @ [9]) \<and>
     vlog st' = log_bytes digest_hd (live_entries two_chunks two_entries)"
  using RunGC_preserves_lookups [OF wf_two_chunks] inj_two_entries by (auto intro: inj_on_subset)

text \<open>
  an aborted collection is not clean. The index is moved to the compacted offsets while the
  scan runs; when the context is cancelled after that, the compacted file is removed and the moved
  offsets point into the old file: a chunk that was readable no longer is.
\<close>

theorem RunGC_cancelled_loses_chunk:
  assumes "wf_store sha [(i, c), (j, d)] st" and "i \<noteq> j" and "index st i = None" and "index st j \<noteq> None"
  shows "LookupChunk sha ReadsOk st j = Inr d \<and>
         (\<exists>st'. RunGC (gc_io_ok\<lparr>gc_cancelled := (\<lambda>off. off = 2 * vLogEntrySize)\<rparr>) st =
                  (Some ErrContextCancelled, st') \<and>
                LookupChunk sha ReadsOk st' j = Inl ErrContentHashMismatch)"
proof -
  let ?es = "[(i, c), (j, d)]" and ?live = "\<lambda>i. index st i \<noteq> None"
  let ?io = "gc_io_ok\<lparr>gc_cancelled := (\<lambda>off. off = 2 * vLogEntrySize)\<rparr>"
  let ?st = "st\<lparr>index := (index st)(j \<mapsto> index_value 0 ChunkDataSize)\<rparr>"
  have vl: "valid_log sha ?es" "vlog st = log_bytes sha ?es @ []" "length (vlog st) = 2 * vLogEntrySize"
    using assms(1) by (auto simp: wf_store_def)
  have v: "hash32 sha" "valid_chunk sha i c" "valid_chunk sha j d"
    using vl(1) by (auto simp: valid_log_def)
  have E: "0 < vLogEntrySize" by (simp add: vLogEntrySize_def)
  have b0: "slice 0 vLogEntrySize (vlog st) = entry_buf sha i c"
    using read_log_entry [of 0 ?es sha "[]"] vl(2) by simp
  have b1: "slice vLogEntrySize (vLogEntrySize + vLogEntrySize) (vlog st) = entry_buf sha j d"
    using read_log_entry [of 1 ?es sha "[]"] vl(2) by simp
  have "gc_loop ?io ?live 0 [] st = gc_loop ?io ?live vLogEntrySize [] st"
    using v E vl(3) assms(3) by (subst gc_loop.simps) (simp add: b0 Let_def entry_buf_fields gc_io_ok_def)
  also have "\<dots> = gc_loop ?io ?live (2 * vLogEntrySize) (entry_buf sha j d) ?st"
    using v E vl(3) assms(4) by (subst gc_loop.simps)
      (simp add: b1 Let_def entry_buf_fields gc_io_ok_def mult_2)
  also have "\<dots> = (Some ErrContextCancelled, entry_buf sha j d, ?st)"
    by (subst gc_loop.simps) (simp add: gc_io_ok_def)
  finally have "RunGC ?io st = (Some ErrContextCancelled, ?st)"
    by (simp add: RunGC_def gc_io_ok_def)
  moreover have "LookupChunk sha ReadsOk ?st j = Inl ErrContentHashMismatch"
    using v assms(2) vl(3) index_get_value [of ?st j 0 ChunkDataSize]
    by (simp add: LookupChunk_def readFromVLog_def b0 Let_def entry_buf_fields) (simp add: valid_chunk_def)
  moreover have "LookupChunk sha ReadsOk st j = Inr d"
    using LookupChunk_wf [OF assms(1), of j] assms(2,4) by (auto simp: less_Suc_eq)
  ultimately show ?thesis by blast
qed

theorem RunGC_cancelled_loses_chunk_witness:
  "\<exists>st'. RunGC (gc_io_ok\<lparr>gc_cancelled := (\<lambda>off. off = 2 * vLogEntrySize)\<rparr>) two_chunks =
     (Some ErrContextCancelled, st') \<and>
     LookupChunk digest_hd ReadsOk two_chunks (replicate 31 0 @ [9]) = Inr (const_chunk 9) \<and>
     LookupChunk digest_hd ReadsOk st' (replicate 31 0 @ [9]) = Inl ErrContentHashMismatch"
  using RunGC_cancelled_loses_chunk [OF wf_two_chunks [unfolded two_entries_def]]
  by (simp add: two_chunks_def)

text \<open>
  a read error during the scan is taken for the end of the log: \<^verbatim>\<open>ReadAt\<close> returns fewer
  bytes than asked, so the branch that aborts on an I/O error is never reached, and the collection
  replaces the log by what it had copied so far and reports success.
\<close>

theorem RunGC_read_error_drops_log:
  assumes "wf_store sha es st" and "index st i \<noteq> None"
  shows "(\<exists>d. LookupChunk sha ReadsOk st i = Inr d) \<and>
         (\<exists>st'. RunGC (gc_io_ok\<lparr>gc_read_ok := (\<lambda>_. False)\<rparr>) st = (None, st') \<and> vlog st' = [] \<and>
                LookupChunk sha ReadsOk st' i = Inl ErrVLogRead)"
proof -
  from assms obtain v where v: "index st i = Some v" by blast
  from LookupChunk_wf [OF assms(1), of i] v obtain n where
    n: "v = index_value (n * vLogEntrySize) ChunkDataSize" "LookupChunk sha ReadsOk st i = Inr (snd (es ! n))"
    by auto
  have "gc_loop (gc_io_ok\<lparr>gc_read_ok := (\<lambda>_. False)\<rparr>) (\<lambda>i. index st i \<noteq> None) 0 [] st = (None, [], st)"
    by (subst gc_loop.simps) (simp add: gc_io_ok_def)
  then have "RunGC (gc_io_ok\<lparr>gc_read_ok := (\<lambda>_. False)\<rparr>) st = (None, st\<lparr>vlog := [], vlogHead := 0\<rparr>)"
    by (simp add: RunGC_def gc_io_ok_def)
  moreover have "LookupChunk sha ReadsOk (st\<lparr>vlog := [], vlogHead := 0\<rparr>) i = Inl ErrVLogRead"
    using index_get_value [of "st\<lparr>vlog := [], vlogHead := 0\<rparr>" i "n * vLogEntrySize" ChunkDataSize] v n(1)
    by (simp add: LookupChunk_def readFromVLog_def vLogEntrySize_def)
  ultimately show ?thesis using n(2) by simp
qed

theorem RunGC_read_error_drops_log_witness:
  "\<exists>st'. RunGC (gc_io_ok\<lparr>gc_read_ok := (\<lambda>_. False)\<rparr>) two_chunks = (None, st') \<and>
     LookupChunk digest_hd ReadsOk st' (replicate 31 0 @ [9]) = Inl ErrVLogRead"
  using RunGC_read_error_drops_log [OF wf_two_chunks, of "replicate 31 0 @ [9]"]
  by (auto simp: two_chunks_def)

text \<open>A store whose file is longer than its head says: the next append is acknowledged and indexed at the head, where other bytes are.\<close>

lemma append_behind_tail:
  assumes "vlog st = log_bytes sha es @ tail" and "vlogHead st = length es * vLogEntrySize" and "valid_log sha es"
    and "valid_chunk sha i d" and "(length es + 2) * vLogEntrySize < 2 ^ 63"
    and "sha (slice vlogOffChunkData (vlogOffChunkData + ChunkDataSize) (tail @ entry_buf sha i d)) \<noteq> i"
  shows "fst (AppendChunk sha io_ok i d st) = Inr (length es * vLogEntrySize)"
    and "LookupChunk sha ReadsOk (snd (AppendChunk sha io_ok i d st)) i = Inl ErrContentHashMismatch"
proof -
  have d: "length d = ChunkDataSize" using assms(4) by (simp add: valid_chunk_def)
  let ?off = "length es * vLogEntrySize" and ?st = "snd (AppendChunk sha io_ok i d st)"
  have vl: "vlog ?st = log_bytes sha es @ tail @ entry_buf sha i d"
    and ix: "index ?st i = Some (index_value ?off ChunkDataSize)"
    by (simp_all add: AppendChunk_effects [OF d] io_ok_def assms(1,2))
  have off: "?off < 2 ^ 64" using assms(5) by simp
  have len: "length (log_bytes sha es) = ?off" "length (entry_buf sha i d) = vLogEntrySize"
    using assms(3,4) by (simp_all add: valid_log_def valid_chunk_def)
  then have "slice ?off (?off + vLogEntrySize) (vlog ?st) = take vLogEntrySize (tail @ entry_buf sha i d)"
    by (simp add: vl slice_def)
  then have "slice vlogOffChunkData (vlogOffChunkData + ChunkDataSize) (slice ?off (?off + vLogEntrySize) (vlog ?st)) =
      slice vlogOffChunkData (vlogOffChunkData + ChunkDataSize) (tail @ entry_buf sha i d)"
    by (simp only:) (rule slice_take, simp add: layout_defs)
  moreover have "\<not> length (vlog ?st) < ?off + vLogEntrySize" using len by (simp add: vl)
  ultimately show "LookupChunk sha ReadsOk ?st i = Inl ErrContentHashMismatch"
    using index_get_value [OF ix] off assms(6) by (simp add: LookupChunk_def readFromVLog_def Let_def)
  show "fst (AppendChunk sha io_ok i d st) = Inr ?off"
    using d assms(2) by (simp add: AppendChunk_def appendToVLog_def index_put_def io_ok_def Let_def)
qed

text \<open>
  a provider that goes on after a torn write loses a chunk that it acknowledges. The append that tore the entry reports an error and leaves
  the head where it was; the next append, of any chunk and without any failure, reports success, and its lookup reads bytes that begin
  with the torn entry.
\<close>

theorem append_after_torn_write:
  assumes "wf_store sha es st" and "valid_chunk sha i d" and "valid_chunk sha j e" and "short_write io = Some k"
    and "(length es + 2) * vLogEntrySize < 2 ^ 63"
    and "sha (slice vlogOffChunkData (vlogOffChunkData + ChunkDataSize) (take k (entry_buf sha i d) @ entry_buf sha j e)) \<noteq> j"
  shows "\<exists>st'. AppendChunk sha io i d st = (Inl ErrVLogFsync, st') \<and>
           fst (AppendChunk sha io_ok j e st') = Inr (length es * vLogEntrySize) \<and>
           LookupChunk sha ReadsOk (snd (AppendChunk sha io_ok j e st')) j = Inl ErrContentHashMismatch"
proof -
  let ?st = "st\<lparr>vlog := vlog st @ take k (entry_buf sha i d)\<rparr>"
  have torn: "AppendChunk sha io i d st = (Inl ErrVLogFsync, ?st)"
    using assms(2,4) by (simp add: AppendChunk_def appendToVLog_def valid_chunk_def Let_def)
  have wf: "vlog ?st = log_bytes sha es @ take k (entry_buf sha i d)" "vlogHead ?st = length es * vLogEntrySize" "valid_log sha es"
    using assms(1) by (auto simp: wf_store_def valid_log_def)
  show ?thesis using torn append_behind_tail [OF wf assms(3,5,6)] by blast
qed

theorem append_after_torn_write_witness:
  "\<exists>st'. AppendChunk digest_hd \<lparr>short_write = Some 100, sync_ok = True, put_ok = True\<rparr> (replicate 31 0 @ [0]) (const_chunk 0)
       (newEngineStore Map.empty []) = (Inl ErrVLogFsync, st') \<and>
     fst (AppendChunk digest_hd io_ok (replicate 31 0 @ [5]) (const_chunk 5) st') = Inr 0 \<and>
     LookupChunk digest_hd ReadsOk (snd (AppendChunk digest_hd io_ok (replicate 31 0 @ [5]) (const_chunk 5) st')) (replicate 31 0 @ [5]) =
       Inl ErrContentHashMismatch"
proof -
  let ?i = "replicate 31 0 @ [0 :: byte]" and ?j = "replicate 31 0 @ [5 :: byte]"
  let ?e = "entry_buf digest_hd ?i (const_chunk 0)" and ?f = "entry_buf digest_hd ?j (const_chunk 5)"
  have e: "?e = ?i @ be_bytes 4 ChunkDataSize @ const_chunk 0 @ digest_hd (const_chunk 0)"
    using valid_const_chunk [of 0] hash32_digest_hd by (intro entry_buf_eq) (simp_all add: const_chunk_def)
  have "hd (slice vlogOffChunkData (vlogOffChunkData + ChunkDataSize) (take 100 ?e @ ?f)) = (take 100 ?e @ ?f) ! 36"
    by (simp add: slice_def layout_defs hd_drop_conv_nth nth_append)
  also have "\<dots> = ?e ! 36" by (simp add: nth_append layout_defs)
  also have "\<dots> = const_chunk 0 ! 0" unfolding e by (simp add: nth_append const_chunk_def ChunkDataSize_def)
  also have "\<dots> = 0" by (simp add: const_chunk_def ChunkDataSize_def)
  finally have "digest_hd (slice vlogOffChunkData (vlogOffChunkData + ChunkDataSize) (take 100 ?e @ ?f)) \<noteq> ?j"
    by (simp add: digest_hd_def)
  moreover have "wf_store digest_hd [] (newEngineStore Map.empty [])"
    using hash32_digest_hd by (simp add: wf_store_def valid_log_def newEngineStore_def log_bytes_def)
  ultimately show ?thesis
    using append_after_torn_write [of digest_hd "[]" "newEngineStore Map.empty []" ?i "const_chunk 0" ?j "const_chunk 5"
        "\<lparr>short_write = Some 100, sync_ok = True, put_ok = True\<rparr>" 100] valid_const_chunk [of 0] valid_const_chunk [of 5]
    by (simp add: vLogEntrySize_def)
qed

text \<open>
  recovery after a torn write moves \<open>vlogHead\<close> back but leaves the partial entry in the file,
  which is opened for appending. The next append goes behind the partial entry and is indexed at
  the head: the lookup of the chunk just stored reads shifted bytes.
\<close>

theorem append_after_torn_tail:
  assumes "valid_log sha es" and "length tail < vLogEntrySize" and "valid_chunk sha i d"
    and "(length es + 2) * vLogEntrySize < 2 ^ 63"
    and "sha (slice vlogOffChunkData (vlogOffChunkData + ChunkDataSize) (tail @ entry_buf sha i d)) \<noteq> i"
  shows "\<exists>st. RecoverFromCrash sha scan_io_ok (newEngineStore Map.empty (log_bytes sha es @ tail)) = (None, st) \<and>
           fst (AppendChunk sha io_ok i d st) = Inr (length es * vLogEntrySize) \<and>
           LookupChunk sha ReadsOk (snd (AppendChunk sha io_ok i d st)) i = Inl ErrContentHashMismatch"
proof -
  define st where "st = \<lparr>index = reindex 0 es Map.empty, vlog = log_bytes sha es @ tail,
    vlogHead = length es * vLogEntrySize\<rparr>"
  have "vlog st = log_bytes sha es @ tail" "vlogHead st = length es * vLogEntrySize" by (simp_all add: st_def)
  from append_behind_tail [OF this assms(1,3-5)] show ?thesis
    using Recover_torn [OF assms(1,2), of Map.empty] by (auto simp: st_def)
qed

theorem append_after_torn_tail_witness:
  "\<exists>st. RecoverFromCrash digest_hd scan_io_ok (newEngineStore Map.empty (replicate 100 0)) = (None, st) \<and>
     LookupChunk digest_hd ReadsOk (snd (AppendChunk digest_hd io_ok (replicate 31 0 @ [5]) (const_chunk 5) st))
       (replicate 31 0 @ [5]) = Inl ErrContentHashMismatch"
proof -
  have "slice vlogOffChunkData (vlogOffChunkData + ChunkDataSize)
      (replicate 100 0 @ entry_buf digest_hd (replicate 31 0 @ [5]) (const_chunk 5)) =
    (0 :: byte) # take (ChunkDataSize - 1) (drop 37 (replicate 100 0 @ entry_buf digest_hd (replicate 31 0 @ [5]) (const_chunk 5)))"
    by (simp add: slice_def layout_defs drop_replicate take_Cons' replicate_append_same
        flip: replicate_Suc)
  then show ?thesis
    using append_after_torn_tail [of digest_hd "[]" "replicate 100 0" "replicate 31 0 @ [5]" "const_chunk 5"]
    by (auto simp: valid_log_def hash32_digest_hd valid_const_chunk vLogEntrySize_def log_bytes_def digest_hd_def)
qed

text \<open>
  a deleted chunk comes back after a restart when no collection ran in between: recovery scans
  the log from its start and re-inserts every entry that the index does not know.
\<close>

theorem deleted_chunk_reappears:
  assumes "wf_store sha es st" and "inj_on sha (snd ` set es)" and "(i, d) \<in> set es"
  shows "LookupChunk sha ReadsOk (snd (DeleteChunk True i st)) i = Inl ErrChunkNotFound \<and>
         LookupChunk sha ReadsOk (restart sha (snd (DeleteChunk True i st))) i = Inr d"
proof
  let ?st = "snd (DeleteChunk True i st)"
  show "LookupChunk sha ReadsOk ?st i = Inl ErrChunkNotFound"
    by (simp add: LookupChunk_def DeleteChunk_def index_del_def index_get_def)
  have wf: "wf_store sha es ?st" using wf_store_delete [OF assms(1), of i] by (simp add: wiskey_delete_def)
  then have "valid_log sha es" "vlog ?st = log_bytes sha es @ []" "length (vlog ?st) < 2 ^ 63"
    by (auto simp: wf_store_def)
  from restart_lookup [OF this(1) wf_store_valid_index [OF wf] this(2) _ this(3) assms(2,3)]
  show "LookupChunk sha ReadsOk (restart sha ?st) i = Inr d" by (simp add: vLogEntrySize_def)
qed

theorem deleted_chunk_reappears_witness:
  "LookupChunk digest_hd ReadsOk (snd (DeleteChunk True (replicate 31 0 @ [9]) two_chunks)) (replicate 31 0 @ [9])
     = Inl ErrChunkNotFound \<and>
   LookupChunk digest_hd ReadsOk (restart digest_hd (snd (DeleteChunk True (replicate 31 0 @ [9]) two_chunks)))
     (replicate 31 0 @ [9]) = Inr (const_chunk 9)"
proof (rule deleted_chunk_reappears [OF wf_two_chunks])
  show "inj_on digest_hd (snd ` set two_entries)" using inj_two_entries by (auto intro: inj_on_subset)
qed (simp add: two_entries_def)

end
