(* ===== verification/AONT.thy ===== *)
theory AONT
  imports Prelude
begin

text \<open>
  The all-or-nothing transform, \<^verbatim>\<open>internal/crypto/aont.go\<close>. The stream ciphers (ChaCha20 and
  AES-256-CTR) belong to packages outside the repository: \<open>ks aes K i\<close> is byte \<open>i\<close> of the key
  stream of the selected cipher under key \<open>K\<close>, and \<^verbatim>\<open>XORKeyStream\<close> is the exclusive or with it.
  \<open>sha\<close> is SHA-256, and \<open>rnd\<close> the outcome of reading 32 bytes from \<^verbatim>\<open>crypto/rand\<close>.
\<close>

type_synonym keystream = "bool \<Rightarrow> byte list \<Rightarrow> nat \<Rightarrow> byte"

datatype aont_error =
    ErrSegmentEmpty
  | ErrSegmentNotAligned
  | ErrRandFailure
  | ErrCipherInit
  | ErrPackageTooShort
  | ErrPackageNotAligned
  | ErrCanaryMismatch

subsection \<open>Constants\<close>

definition aontWordSize :: nat where "aontWordSize = 16"
definition aontKeySize :: nat where "aontKeySize = 32"
definition aontKeyBlockSize :: nat where "aontKeyBlockSize = 32"
definition aontMinCiphertextWords :: nat where "aontMinCiphertextWords = 2"

definition aontCanary :: "byte list" where
  "aontCanary = [0x16, 0x14, 0x38, 0x2e, 0x7a, 0x0b, 0x48, 0xc4,
                 0xe2, 0xc7, 0x42, 0x13, 0x03, 0x5f, 0xbc, 0x64]"

lemmas aont_sizes = aontWordSize_def aontKeySize_def aontKeyBlockSize_def aontMinCiphertextWords_def

lemma length_aontCanary [simp]: "length aontCanary = 16"
  by (simp add: aontCanary_def)

subsection \<open>Operations\<close>

definition xor32 :: "byte list \<Rightarrow> byte list \<Rightarrow> byte list" where
  "xor32 a b = map (\<lambda>i. a ! i XOR b ! i) [0..<aontKeyBlockSize]"

definition aontEncrypt :: "keystream \<Rightarrow> byte list \<Rightarrow> byte list \<Rightarrow> bool \<Rightarrow> aont_error + byte list" where
  "aontEncrypt ks src K aesNIAvailable =
     (if aesNIAvailable then
        (if length K \<notin> {16, 24, 32} then Inl ErrCipherInit
         else Inr (map (\<lambda>i. src ! i XOR ks True K i) [0..<length src]))
      else
        (if length K \<noteq> 32 then Inl ErrCipherInit
         else Inr (map (\<lambda>i. src ! i XOR ks False K i) [0..<length src])))"

definition AONTEncodeSegment ::
  "hash \<Rightarrow> keystream \<Rightarrow> byte list option \<Rightarrow> byte list \<Rightarrow> bool \<Rightarrow> aont_error + byte list" where
  "AONTEncodeSegment sha ks rnd segment aesNIAvailable =
     (if length segment = 0 then Inl ErrSegmentEmpty
      else if length segment mod aontWordSize \<noteq> 0 then Inl ErrSegmentNotAligned
      else case rnd of
        None \<Rightarrow> Inl ErrRandFailure
      | Some K \<Rightarrow>
          let numDataWords = length segment div aontWordSize;
              plaintext = replicate ((numDataWords + 1) * aontWordSize) 0;
              plaintext = copy_slice (take (numDataWords * aontWordSize) plaintext) segment @
                          drop (numDataWords * aontWordSize) plaintext;
              plaintext = copy_at (numDataWords * aontWordSize) plaintext aontCanary
          in case aontEncrypt ks plaintext K aesNIAvailable of
               Inl e \<Rightarrow> Inl e
             | Inr ciphertext \<Rightarrow>
                 let output = ciphertext @ replicate aontKeyBlockSize 0;
                     h = sha ciphertext;
                     keyBlock = xor32 K h
                 in Inr (copy_at ((numDataWords + 1) * aontWordSize) output keyBlock))"

definition AONTDecodePackage ::
  "hash \<Rightarrow> keystream \<Rightarrow> byte list \<Rightarrow> bool \<Rightarrow> aont_error + byte list" where
  "AONTDecodePackage sha ks aontPackage aesNIAvailable =
     (let minPkgSize = aontMinCiphertextWords * aontWordSize + aontKeyBlockSize
      in if length aontPackage < minPkgSize then Inl ErrPackageTooShort
         else if (length aontPackage - aontKeyBlockSize) mod aontWordSize \<noteq> 0 then Inl ErrPackageNotAligned
         else
           let ciphertextLen = length aontPackage - aontKeyBlockSize;
               ciphertext = take ciphertextLen aontPackage;
               keyBlock = drop ciphertextLen aontPackage;
               h = sha ciphertext;
               K = xor32 keyBlock h
           in case aontEncrypt ks ciphertext K aesNIAvailable of
                Inl e \<Rightarrow> Inl e
              | Inr decrypted \<Rightarrow>
                  let canaryOffset = ciphertextLen - aontWordSize
                  in if drop canaryOffset decrypted \<noteq> aontCanary then Inl ErrCanaryMismatch
                     else Inr (take canaryOffset decrypted))"

subsection \<open>Lemmas\<close>

definition xor_stream :: "keystream \<Rightarrow> bool \<Rightarrow> byte list \<Rightarrow> byte list \<Rightarrow> byte list" where
  "xor_stream ks aes K src = map (\<lambda>i. src ! i XOR ks aes K i) [0..<length src]"

lemma length_xor_stream [simp]: "length (xor_stream ks aes K src) = length src"
  by (simp add: xor_stream_def)

lemma xor_stream_involution [simp]: "xor_stream ks aes K (xor_stream ks aes K src) = src"
  by (rule nth_equalityI) (simp_all add: xor_stream_def xor.assoc)

lemma aontEncrypt_32: "length K = 32 \<Longrightarrow> aontEncrypt ks src K aes = Inr (xor_stream ks aes K src)"
  by (simp add: aontEncrypt_def xor_stream_def)

lemma length_xor32 [simp]: "length (xor32 a b) = 32"
  by (simp add: xor32_def aontKeyBlockSize_def)

lemma xor32_involution: "length a = 32 \<Longrightarrow> xor32 (xor32 a h) h = a"
  by (rule nth_equalityI) (simp_all add: xor32_def aontKeyBlockSize_def xor.assoc)

text \<open>The package that \<^verbatim>\<open>AONTEncodeSegment\<close> builds from a key, in closed form.\<close>

definition aont_package :: "hash \<Rightarrow> keystream \<Rightarrow> byte list \<Rightarrow> byte list \<Rightarrow> bool \<Rightarrow> byte list" where
  "aont_package sha ks K segment aes =
     (let c = xor_stream ks aes K (segment @ aontCanary) in c @ xor32 K (sha c))"

lemma length_aont_package: "length (aont_package sha ks K segment aes) = length segment + 48"
  by (simp add: aont_package_def Let_def)

lemma AONTEncodeSegment_eq:
  assumes "segment \<noteq> []" and "16 dvd length segment" and "length K = 32"
  shows "AONTEncodeSegment sha ks (Some K) segment aes = Inr (aont_package sha ks K segment aes)"
proof -
  let ?n = "length segment div aontWordSize"
  have n: "?n * aontWordSize = length segment"
    using assms(2) by (simp add: aontWordSize_def)
  have n1: "(?n + 1) * aontWordSize = length segment + 16"
    unfolding distrib_right n by (simp add: aontWordSize_def)
  have p: "copy_at (?n * aontWordSize)
      (copy_slice (take (?n * aontWordSize) (replicate ((?n + 1) * aontWordSize) 0)) segment @
         drop (?n * aontWordSize) (replicate ((?n + 1) * aontWordSize) 0)) aontCanary = segment @ aontCanary"
    unfolding n n1 by (simp add: copy_at_append)
  have k: "copy_at ((?n + 1) * aontWordSize) (c @ replicate aontKeyBlockSize 0) (xor32 K h) = c @ xor32 K h"
    if "length c = length segment + 16" for c h
    using that unfolding n1 by (subst copy_at_append) (simp_all add: aontKeyBlockSize_def)
  have "length segment mod aontWordSize = 0"
    using assms(2) by (simp add: aontWordSize_def)
  then show ?thesis
    using assms(1,3)
    unfolding AONTEncodeSegment_def Let_def p
    by (simp only: aontEncrypt_32 sum.case option.case k length_xor_stream length_append
        length_aontCanary aont_package_def Let_def) simp
qed

lemma AONTDecodePackage_eq:
  assumes "length pkg \<ge> 64" and "16 dvd length pkg"
  shows "AONTDecodePackage sha ks pkg aes =
    (let n = length pkg - 32; K = xor32 (drop n pkg) (sha (take n pkg));
         p = xor_stream ks aes K (take n pkg)
     in if drop (n - 16) p \<noteq> aontCanary then Inl ErrCanaryMismatch else Inr (take (n - 16) p))"
  using assms
  by (simp add: AONTDecodePackage_def Let_def aont_sizes aontEncrypt_32 mod_eq_0_iff_dvd dvd_diff_nat)

lemma aont_roundtrip_aux:
  assumes "segment \<noteq> []" and "16 dvd length segment" and "length K = 32"
  shows "AONTEncodeSegment sha ks (Some K) segment aes = Inr (aont_package sha ks K segment aes)"
    and "AONTDecodePackage sha ks (aont_package sha ks K segment aes) aes = Inr segment"
proof -
  have len: "16 \<le> length segment"
    using assms(1,2) by (auto intro: dvd_imp_le)
  then show "AONTDecodePackage sha ks (aont_package sha ks K segment aes) aes = Inr segment"
    using assms(2,3)
    by (subst AONTDecodePackage_eq)
      (simp_all add: length_aont_package, simp add: aont_package_def Let_def xor32_involution)
qed (rule AONTEncodeSegment_eq [OF assms])

subsection \<open>Properties\<close>

text \<open>
  the transform is invertible: every segment of whole words encodes, for any key and either
  cipher, into a package of three more words, and decoding that package returns the segment.
\<close>

theorem aont_roundtrip:
  assumes "segment \<noteq> []" and "16 dvd length segment" and "length K = 32"
  shows "\<exists>pkg. AONTEncodeSegment sha ks (Some K) segment aes = Inr pkg \<and>
           length pkg = length segment + 48 \<and> AONTDecodePackage sha ks pkg aes = Inr segment"
  using aont_roundtrip_aux [OF assms] length_aont_package by blast

theorem aont_roundtrip_witness:
  "\<exists>pkg. AONTEncodeSegment (\<lambda>x. replicate 32 (last x)) (\<lambda>aes K i. of_nat i + K ! 0) (Some (replicate 32 7))
           (replicate 32 1) True = Inr pkg \<and> length pkg = 80 \<and>
         AONTDecodePackage (\<lambda>x. replicate 32 (last x)) (\<lambda>aes K i. of_nat i + K ! 0) pkg True = Inr (replicate 32 1)"
  using aont_roundtrip [of "replicate 32 1" "replicate 32 7" "\<lambda>x. replicate 32 (last x)"
      "\<lambda>aes K i. of_nat i + K ! 0" True] by simp

text \<open>
  C6: decoding accepts exactly the encodings. A package that decodes to a segment is the encoding
  of that segment under some key; every other byte string is refused.
\<close>

theorem aont_decode_iff:
  "AONTDecodePackage sha ks pkg aes = Inr segment \<longleftrightarrow>
   (\<exists>K. length K = 32 \<and> AONTEncodeSegment sha ks (Some K) segment aes = Inr pkg)"
proof
  assume d: "AONTDecodePackage sha ks pkg aes = Inr segment"
  then have len: "64 \<le> length pkg" and "16 dvd length pkg - 32"
    by (auto simp: AONTDecodePackage_def Let_def aont_sizes mod_eq_0_iff_dvd split: if_splits)
  then have dvd: "16 dvd length pkg"
    by presburger
  define n where "n = length pkg - 32"
  define K where "K = xor32 (drop n pkg) (sha (take n pkg))"
  define p where "p = xor_stream ks aes K (take n pkg)"
  have n: "32 \<le> n" "length (take n pkg) = n" "16 dvd n" "length (drop n pkg) = 32"
    using len dvd by (auto simp: n_def dvd_diff_nat)
  from d have canary: "drop (n - 16) p = aontCanary" and seg: "segment = take (n - 16) p"
    unfolding AONTDecodePackage_eq [OF len dvd]
    by (auto simp: Let_def n_def p_def K_def split: if_splits)
  have "segment @ aontCanary = p"
    by (simp add: seg flip: canary)
  then have "aont_package sha ks K segment aes = take n pkg @ xor32 K (sha (take n pkg))"
    by (simp add: aont_package_def Let_def p_def)
  also have "\<dots> = pkg"
    using n(4) by (simp add: K_def xor32_involution)
  finally have "aont_package sha ks K segment aes = pkg" .
  moreover have "length segment = n - 16"
    using n by (simp add: seg p_def)
  then have "segment \<noteq> []" "16 dvd length segment"
    using n by (auto simp: dvd_diff_nat)
  ultimately show "\<exists>K. length K = 32 \<and> AONTEncodeSegment sha ks (Some K) segment aes = Inr pkg"
    using AONTEncodeSegment_eq [of segment K] by (metis K_def length_xor32)
next
  assume "\<exists>K. length K = 32 \<and> AONTEncodeSegment sha ks (Some K) segment aes = Inr pkg"
  then obtain K where K: "length K = 32" "AONTEncodeSegment sha ks (Some K) segment aes = Inr pkg" by blast
  then have "segment \<noteq> []" "16 dvd length segment"
    by (auto simp: AONTEncodeSegment_def aontWordSize_def mod_eq_0_iff_dvd split: if_splits)
  from aont_roundtrip_aux [OF this K(1)] K(2) show "AONTDecodePackage sha ks pkg aes = Inr segment"
    by auto
qed

end
