(* ===== verification/Mnemonic.thy ===== *)
theory Mnemonic
  imports Prelude
begin

text \<open>
  The recovery phrase, \<^verbatim>\<open>internal/crypto/bip39.go\<close>. The word list is the embedded file
  \<^verbatim>\<open>wordlist_en.txt\<close>, an argument here; \<open>bip39_init\<close> is what the package initialiser builds from
  its trimmed lines. Words are ASCII strings. \<open>rnd\<close> are the bytes that \<^verbatim>\<open>crypto/rand\<close>
  delivers, and running out of them is \<open>None\<close>.
\<close>

datatype mnemonic_error = ErrInvalidMnemonic

definition bip39WordlistSize :: nat where "bip39WordlistSize = 2048"
definition bip39WordBits :: nat where "bip39WordBits = 11"
definition bip39MnemonicLen :: nat where "bip39MnemonicLen = 24"
definition bip39EntropyBytes :: nat where "bip39EntropyBytes = 32"
definition bip39TotalBytes :: nat where "bip39TotalBytes = bip39EntropyBytes + 1"
definition bip39RandCeiling :: nat where "bip39RandCeiling = 10 * bip39MnemonicLen"
definition bip39BitWidth :: nat where "bip39BitWidth = 8"
definition bip39BitOffset :: nat where "bip39BitOffset = 7"

lemmas bip39_consts = bip39WordlistSize_def bip39WordBits_def bip39MnemonicLen_def
  bip39EntropyBytes_def bip39TotalBytes_def bip39RandCeiling_def bip39BitWidth_def bip39BitOffset_def

subsection \<open>Word list\<close>

definition bip39WordMap :: "string list \<Rightarrow> (string \<rightharpoonup> nat)" where
  "bip39WordMap lines = fold (\<lambda>i m. m(lines ! i \<mapsto> i)) [0..<length lines] Map.empty"

text \<open>The initialiser: \<open>None\<close> is the panic on a list of the wrong size.\<close>

definition bip39_init :: "string list \<Rightarrow> (string list \<times> (string \<rightharpoonup> nat)) option" where
  "bip39_init lines =
     (if length lines \<noteq> bip39WordlistSize then None else Some (lines, bip39WordMap lines))"

definition to_lower_char :: "char \<Rightarrow> char" where
  "to_lower_char c =
     (let n = of_char c :: nat in if 65 \<le> n \<and> n \<le> 90 then char_of (n + 32) else c)"

definition ToLower :: "string \<Rightarrow> string" where
  "ToLower = map to_lower_char"

subsection \<open>Bit strings\<close>

definition bip39ExtractBits :: "byte list \<Rightarrow> nat \<Rightarrow> nat \<Rightarrow> nat" where
  "bip39ExtractBits b start count =
     fold (\<lambda>i result.
       let bitPos = start + i;
           byteIdx = bitPos div bip39BitWidth;
           bitOff = bip39BitOffset - bitPos mod bip39BitWidth
       in push_bit 1 result OR (drop_bit bitOff (unat (b ! byteIdx)) AND 1)) [0..<count] 0"

definition bip39SetBits :: "byte list \<Rightarrow> nat \<Rightarrow> nat \<Rightarrow> nat \<Rightarrow> byte list" where
  "bip39SetBits b start count v =
     fold (\<lambda>i b.
       if drop_bit (count - 1 - i) v AND 1 = 1 then
         let bitPos = start + i;
             byteIdx = bitPos div bip39BitWidth;
             bitOff = bip39BitOffset - bitPos mod bip39BitWidth
         in b[byteIdx := b ! byteIdx OR push_bit bitOff 1]
       else b) [0..<count] b"

subsection \<open>Encoding and decoding\<close>

definition MasterSecretToMnemonic :: "hash \<Rightarrow> string list \<Rightarrow> byte list \<Rightarrow> string list" where
  "MasterSecretToMnemonic sha bip39Words masterSecret =
     (let checksum = sha masterSecret;
          bits = replicate bip39TotalBytes 0;
          bits = copy_slice (take bip39EntropyBytes bits) masterSecret @ drop bip39EntropyBytes bits;
          bits = bits[bip39EntropyBytes := checksum ! 0]
      in map (\<lambda>i. bip39Words ! bip39ExtractBits bits (i * bip39WordBits) bip39WordBits)
           [0..<bip39MnemonicLen])"

definition lookup_words :: "(string \<rightharpoonup> nat) \<Rightarrow> string list \<Rightarrow> nat list \<times> bool" where
  "lookup_words wm words =
     fold (\<lambda>i (indices, invalidFound).
       case wm (ToLower (words ! i)) of
         None \<Rightarrow> (indices, True)
       | Some idx \<Rightarrow> (indices[i := idx], invalidFound)) [0..<length words]
       (replicate bip39MnemonicLen 0, False)"

definition pack_indices :: "nat list \<Rightarrow> byte list" where
  "pack_indices indices =
     fold (\<lambda>i bits. bip39SetBits bits (i * bip39WordBits) bip39WordBits (indices ! i))
       [0..<length indices] (replicate bip39TotalBytes 0)"

definition MnemonicToMasterSecret ::
  "hash \<Rightarrow> (string \<rightharpoonup> nat) \<Rightarrow> string list \<Rightarrow> mnemonic_error + byte list" where
  "MnemonicToMasterSecret sha wm words =
     (if length words \<noteq> bip39MnemonicLen then Inl ErrInvalidMnemonic
      else let (indices, invalidFound) = lookup_words wm words
           in if invalidFound then Inl ErrInvalidMnemonic
              else let bits = pack_indices indices;
                       entropy = take bip39EntropyBytes bits;
                       expectedChecksum = sha entropy
                   in if bits ! bip39EntropyBytes \<noteq> expectedChecksum ! 0 then Inl ErrInvalidMnemonic
                      else Inr entropy)"

subsection \<open>Confirmation words\<close>

fun randIdx :: "byte list \<Rightarrow> (nat \<times> byte list) option" where
  "randIdx [] = None"
| "randIdx (x # rnd) =
     (if unat x < bip39RandCeiling then Some (unat x mod bip39MnemonicLen, rnd) else randIdx rnd)"

lemma randIdx_shorter: "randIdx rnd = Some (i, rnd') \<Longrightarrow> length rnd' < length rnd"
  by (induction rnd rule: randIdx.induct) (auto split: if_splits)

function select_second :: "nat \<Rightarrow> byte list \<Rightarrow> nat option" where
  "select_second indexA rnd =
     (case randIdx rnd of
        None \<Rightarrow> None
      | Some (indexB, rnd') \<Rightarrow> if indexB \<noteq> indexA then Some indexB else select_second indexA rnd')"
  by pat_completeness auto
termination
  by (relation "measure (\<lambda>(a, rnd). length rnd)") (auto dest: randIdx_shorter)

declare select_second.simps [simp del]

text \<open>\<open>None\<close> is the panic: on a phrase of the wrong length, or on a failing random source.\<close>

definition SelectConfirmationWords :: "string list \<Rightarrow> byte list \<Rightarrow> (nat \<times> nat) option" where
  "SelectConfirmationWords mnemonic rnd =
     (if length mnemonic \<noteq> bip39MnemonicLen then None
      else case randIdx rnd of
        None \<Rightarrow> None
      | Some (indexA, rnd') \<Rightarrow> map_option (\<lambda>indexB. (indexA, indexB)) (select_second indexA rnd'))"

subsection \<open>Bit lemmas\<close>

definition stream_bit :: "byte list \<Rightarrow> nat \<Rightarrow> bool" where
  "stream_bit b p = bit (b ! (p div 8)) (7 - p mod 8)"

lemma low_bit_byte: "(drop_bit k (unat (w :: byte)) AND 1) = of_bool (bit w k)"
proof -
  have "bit (unat w) k = bit w k" by (simp add: bit_unsigned_iff)
  then show ?thesis by (simp add: and_one_eq mod_2_eq_odd bit_iff_odd_drop_bit)
qed

lemma bit_shift_in: "bit (push_bit 1 (r :: nat) OR of_bool c) j \<longleftrightarrow> (case j of 0 \<Rightarrow> c | Suc i \<Rightarrow> bit r i)"
  by (cases j) (simp_all add: bit_or_iff bit_push_bit_iff bit_of_bool_iff bit_0 even_or_iff
      del: push_bit_Suc push_bit_of_Suc_0 flip: bit_Suc)


lemma bit_extract:
  "bit (bip39ExtractBits b start count) j \<longleftrightarrow> j < count \<and> stream_bit b (start + (count - 1 - j))"
proof -
  let ?I = "\<lambda>i (r :: nat). \<forall>j. bit r j \<longleftrightarrow> j < i \<and> stream_bit b (start + (i - 1 - j))"
  have "?I count (bip39ExtractBits b start count)"
    unfolding bip39ExtractBits_def Let_def
  proof (rule fold_upt_invariant [where I = ?I])
    fix i r assume I: "?I i r"
    show "?I (Suc i) (push_bit 1 r OR
        (drop_bit (bip39BitOffset - (start + i) mod bip39BitWidth) (unat (b ! ((start + i) div bip39BitWidth))) AND 1))"
    proof
      fix j
      show "bit (push_bit 1 r OR
          (drop_bit (bip39BitOffset - (start + i) mod bip39BitWidth) (unat (b ! ((start + i) div bip39BitWidth))) AND 1)) j
        \<longleftrightarrow> j < Suc i \<and> stream_bit b (start + (Suc i - 1 - j))"
        using I
        by (cases j) (simp_all only: low_bit_byte bit_shift_in stream_bit_def bip39BitOffset_def
            bip39BitWidth_def nat.case, simp_all)
    qed
  qed simp_all
  then show ?thesis by simp
qed

lemma bit_list_ext:
  assumes "length b = length c" and "\<And>p. p < 8 * length b \<Longrightarrow> stream_bit b p = stream_bit c p"
  shows "b = c"
proof (rule nth_equalityI [OF assms(1)])
  fix i assume i: "i < length b"
  show "b ! i = c ! i"
  proof (rule bit_word_eqI)
    fix k assume "k < LENGTH(8)"
    then have k: "k < 8" by simp
    have "(8 * i + r) div 8 = i" "(8 * i + r) mod 8 = r" if "r < 8" for r
      using that by simp_all
    from this [of "7 - k"] have "(8 * i + (7 - k)) div 8 = i" "(8 * i + (7 - k)) mod 8 = 7 - k"
      by simp_all
    moreover have "8 * i + (7 - k) < 8 * length b" using i by linarith
    ultimately show "bit (b ! i) k = bit (c ! i) k"
      using k assms(2) [of "8 * i + (7 - k)"] by (simp add: stream_bit_def)
  qed
qed

lemma length_set_bits [simp]: "length (bip39SetBits b start count v) = length b"
  unfolding bip39SetBits_def by (rule fold_preserves [where P = "\<lambda>c. length c = length b"]) (auto simp: Let_def)

lemma stream_bit_update:
  assumes "q < 8 * length b" and "p < 8 * length b"
  shows "stream_bit (b[q div 8 := b ! (q div 8) OR push_bit (7 - q mod 8) 1]) p \<longleftrightarrow> stream_bit b p \<or> p = q"
proof (cases "p div 8 = q div 8")
  case True
  have eq: "7 - p mod 8 = 7 - q mod 8 \<longleftrightarrow> p = q"
  proof
    assume "7 - p mod 8 = 7 - q mod 8"
    moreover have "p mod 8 < 8" "q mod 8 < 8" by simp_all
    ultimately have "p mod 8 = q mod 8" by linarith
    with True show "p = q" by (metis div_mult_mod_eq)
  qed simp
  have "q div 8 < length b" using assms(1) by simp
  then have "stream_bit (b[q div 8 := b ! (q div 8) OR push_bit (7 - q mod 8) 1]) p \<longleftrightarrow>
      bit (b ! (q div 8)) (7 - p mod 8) \<or> bit (push_bit (7 - q mod 8) 1 :: byte) (7 - p mod 8)"
    using True by (simp add: stream_bit_def bit_or_iff)
  also have "bit (push_bit (7 - q mod 8) 1 :: byte) (7 - p mod 8) \<longleftrightarrow> p = q"
    unfolding eq [symmetric] bit_push_bit_iff by (auto simp: bit_1_iff) arith
  finally show ?thesis using True by (simp add: stream_bit_def)
next
  case False
  then show ?thesis using assms(2) by (auto simp: stream_bit_def)
qed

lemma test_bit_and_one: "drop_bit k (v :: nat) AND 1 = 1 \<longleftrightarrow> bit v k"
  by (simp add: and_one_eq bit_iff_odd_drop_bit odd_iff_mod_2_eq_one)

lemma stream_bit_set:
  assumes "start + count \<le> 8 * length b" and "p < 8 * length b"
  shows "stream_bit (bip39SetBits b start count v) p \<longleftrightarrow>
           stream_bit b p \<or> start \<le> p \<and> p < start + count \<and> bit v (count - 1 - (p - start))"
proof -
  let ?I = "\<lambda>i c. length c = length b \<and> (stream_bit c p \<longleftrightarrow>
    stream_bit b p \<or> start \<le> p \<and> p < start + i \<and> bit v (count - 1 - (p - start)))"
  have "?I count (bip39SetBits b start count v)"
    unfolding bip39SetBits_def Let_def bip39BitOffset_def bip39BitWidth_def test_bit_and_one
  proof (rule fold_upt_invariant [where I = ?I])
    fix i c assume i: "i < count" and I: "?I i c"
    show "?I (Suc i) (if bit v (count - 1 - i)
        then c[(start + i) div 8 := c ! ((start + i) div 8) OR push_bit (7 - (start + i) mod 8) 1] else c)"
      using I i assms stream_bit_update [of "start + i" c p] by (auto simp: less_Suc_eq)
  qed auto
  then show ?thesis by simp
qed

subsection \<open>Indices and bit strings\<close>

abbreviation word_index :: "byte list \<Rightarrow> nat \<Rightarrow> nat" where
  "word_index b i \<equiv> bip39ExtractBits b (i * bip39WordBits) bip39WordBits"

lemma bit_word_index: "bit (word_index b i) j \<longleftrightarrow> j < 11 \<and> stream_bit b (11 * i + (10 - j))"
  by (simp add: bit_extract bip39WordBits_def mult.commute)

lemma word_index_less: "word_index b i < 2048"
proof -
  have "take_bit 11 (word_index b i) = word_index b i"
    by (rule bit_eqI) (simp add: bit_take_bit_iff bit_word_index)
  then have "word_index b i < 2 ^ 11"
    by (metis take_bit_nat_less_exp)
  then show ?thesis by simp
qed

lemma pack_indices:
  assumes "length ids = 24"
  shows "length (pack_indices ids) = 33"
    and "p < 264 \<Longrightarrow> stream_bit (pack_indices ids) p \<longleftrightarrow> bit (ids ! (p div 11)) (10 - p mod 11)"
proof -
  let ?I = "\<lambda>i bs. length bs = 33 \<and>
    (\<forall>p<264. stream_bit bs p \<longleftrightarrow> p < 11 * i \<and> bit (ids ! (p div 11)) (10 - p mod 11))"
  have "?I (length ids) (pack_indices ids)"
    unfolding pack_indices_def
  proof (rule fold_upt_invariant [where I = ?I])
    show "?I 0 (replicate bip39TotalBytes 0)"
      by (simp add: bip39_consts stream_bit_def)
    fix i bs assume i: "i < length ids" and I: "?I i bs"
    have "stream_bit (bip39SetBits bs (i * 11) 11 (ids ! i)) p \<longleftrightarrow>
        p < 11 * Suc i \<and> bit (ids ! (p div 11)) (10 - p mod 11)" if p: "p < 264" for p
    proof -
      have "stream_bit (bip39SetBits bs (i * 11) 11 (ids ! i)) p \<longleftrightarrow>
          stream_bit bs p \<or> i * 11 \<le> p \<and> p < i * 11 + 11 \<and> bit (ids ! i) (11 - 1 - (p - i * 11))"
        using I i assms p by (intro stream_bit_set) auto
      moreover have "p div 11 = i \<and> p mod 11 = p - i * 11" if "i * 11 \<le> p" "p < i * 11 + 11"
        using that by (metis add.commute div_nat_eqI minus_div_mult_eq_mod mult.commute mult_Suc_right)
      ultimately show ?thesis using I p by auto
    qed
    with I show "?I (Suc i) (bip39SetBits bs (i * bip39WordBits) bip39WordBits (ids ! i))"
      by (simp add: bip39WordBits_def)
  qed simp
  with assms show "length (pack_indices ids) = 33"
    and "p < 264 \<Longrightarrow> stream_bit (pack_indices ids) p \<longleftrightarrow> bit (ids ! (p div 11)) (10 - p mod 11)"
    by auto
qed

lemma pack_word_indices:
  assumes "length b = 33"
  shows "pack_indices (map (word_index b) [0..<bip39MnemonicLen]) = b"
proof (rule bit_list_ext)
  have len: "length (map (word_index b) [0..<bip39MnemonicLen]) = 24"
    by (simp add: bip39MnemonicLen_def)
  show "length (pack_indices (map (word_index b) [0..<bip39MnemonicLen])) = length b"
    using pack_indices(1) [OF len] assms by simp
  fix p assume "p < 8 * length (pack_indices (map (word_index b) [0..<bip39MnemonicLen]))"
  then have p: "p < 264" using pack_indices(1) [OF len] by simp
  have "11 * (p div 11) + (10 - (10 - p mod 11)) = p"
  proof -
    have "p mod 11 < 11" by simp
    then have "10 - (10 - p mod 11) = p mod 11" by linarith
    then show ?thesis by simp
  qed
  with p show "stream_bit (pack_indices (map (word_index b) [0..<bip39MnemonicLen])) p = stream_bit b p"
    using pack_indices(2) [OF len p]
    by (simp add: bip39MnemonicLen_def bit_word_index less_Suc_eq_le del: upt_rec_numeral)
      (use diff_le_self [of 10 "p mod 11"] in linarith)
qed

lemma word_index_pack:
  assumes "length ids = 24" and "i < 24" and "ids ! i < 2048"
  shows "word_index (pack_indices ids) i = ids ! i"
proof (rule bit_eqI)
  fix j
  have "take_bit 11 (ids ! i) = ids ! i"
    using assms(3) by (intro take_bit_nat_eq_self) simp
  then have "bit (ids ! i) j \<Longrightarrow> j < 11"
    by (metis bit_take_bit_iff)
  moreover have "(11 * i + r) div 11 = i \<and> (11 * i + r) mod 11 = r" if "r < 11" for r
    using that by simp
  from this [of "10 - j"] have "(11 * i + (10 - j)) div 11 = i" "(11 * i + (10 - j)) mod 11 = 10 - j"
    by simp_all
  moreover have "11 * i + (10 - j) < 264"
    using assms(2) by simp
  ultimately show "bit (word_index (pack_indices ids) i) j = bit (ids ! i) j"
    using pack_indices(2) [OF assms(1), of "11 * i + (10 - j)"] by (auto simp: bit_word_index)
qed

subsection \<open>Word lookup\<close>

lemma bip39WordMap_Some: "bip39WordMap lines w = Some i \<Longrightarrow> i < length lines \<and> lines ! i = w"
proof -
  let ?I = "\<lambda>n (m :: string \<rightharpoonup> nat). \<forall>w i. m w = Some i \<longrightarrow> i < n \<and> lines ! i = w"
  have "?I (length lines) (bip39WordMap lines)"
    unfolding bip39WordMap_def
    by (rule fold_upt_invariant [where I = ?I]) (auto simp: less_Suc_eq split: if_splits)
  then show "bip39WordMap lines w = Some i \<Longrightarrow> i < length lines \<and> lines ! i = w" by simp
qed

lemma bip39WordMap_nth:
  assumes "distinct lines" and "i < length lines"
  shows "bip39WordMap lines (lines ! i) = Some i"
proof -
  let ?I = "\<lambda>n (m :: string \<rightharpoonup> nat). \<forall>j<n. m (lines ! j) \<noteq> None"
  have "?I (length lines) (bip39WordMap lines)"
    unfolding bip39WordMap_def
    by (rule fold_upt_invariant [where I = ?I]) (auto simp: less_Suc_eq)
  then obtain j where j: "bip39WordMap lines (lines ! i) = Some j"
    using assms(2) by blast
  from bip39WordMap_Some [OF j] assms have "j = i" by (metis nth_eq_iff_index_eq)
  with j show ?thesis by simp
qed

lemma lookup_words:
  assumes "length words = 24"
  shows "snd (lookup_words wm words) \<longleftrightarrow> (\<exists>i<24. wm (ToLower (words ! i)) = None)"
    and "length (fst (lookup_words wm words)) = 24"
    and "i < 24 \<Longrightarrow> wm (ToLower (words ! i)) = Some x \<Longrightarrow> fst (lookup_words wm words) ! i = x"
proof -
  let ?I = "\<lambda>n st. (snd st \<longleftrightarrow> (\<exists>i<n. wm (ToLower (words ! i)) = None)) \<and> length (fst st) = 24 \<and>
    (\<forall>i<n. \<forall>x. wm (ToLower (words ! i)) = Some x \<longrightarrow> fst st ! i = x)"
  have "?I (length words) (lookup_words wm words)"
    unfolding lookup_words_def
  proof (rule fold_upt_invariant [where I = ?I])
    show "?I 0 (replicate bip39MnemonicLen 0, False)"
      by (simp add: bip39MnemonicLen_def)
    fix i st assume "i < length words" and "?I i st"
    then show "?I (Suc i) ((\<lambda>(ids, bad). case wm (ToLower (words ! i)) of
        None \<Rightarrow> (ids, True) | Some idx \<Rightarrow> (ids[i := idx], bad)) st)"
      using assms by (cases st) (auto simp: less_Suc_eq nth_list_update split: option.splits)
  qed simp
  with assms show "snd (lookup_words wm words) \<longleftrightarrow> (\<exists>i<24. wm (ToLower (words ! i)) = None)"
    and "length (fst (lookup_words wm words)) = 24"
    and "i < 24 \<Longrightarrow> wm (ToLower (words ! i)) = Some x \<Longrightarrow> fst (lookup_words wm words) ! i = x"
    by auto
qed

definition packed_secret :: "hash \<Rightarrow> byte list \<Rightarrow> byte list" where
  "packed_secret sha ms = ms @ [sha ms ! 0]"

lemma MasterSecretToMnemonic_eq:
  assumes "length ms = 32"
  shows "MasterSecretToMnemonic sha lines ms =
           map (\<lambda>i. lines ! word_index (packed_secret sha ms) i) [0..<bip39MnemonicLen]"
proof -
  have "(copy_slice (take bip39EntropyBytes (replicate bip39TotalBytes 0)) ms @
      drop bip39EntropyBytes (replicate bip39TotalBytes 0))[bip39EntropyBytes := sha ms ! 0] = packed_secret sha ms"
    using assms by (simp add: bip39EntropyBytes_def bip39TotalBytes_def packed_secret_def
        list_update_append)
  then show ?thesis
    by (simp add: MasterSecretToMnemonic_def Let_def)
qed

text \<open>What the code relies on about the embedded word list.\<close>

definition valid_wordlist :: "string list \<Rightarrow> bool" where
  "valid_wordlist lines \<longleftrightarrow>
     bip39_init lines \<noteq> None \<and> distinct lines \<and> (\<forall>w\<in>set lines. ToLower w = w)"

lemma valid_wordlistD:
  assumes "valid_wordlist lines"
  shows "length lines = 2048" "distinct lines" "i < 2048 \<Longrightarrow> ToLower (lines ! i) = lines ! i"
  using assms by (auto simp: valid_wordlist_def bip39_init_def bip39WordlistSize_def split: if_splits)

lemma mnemonic_indices:
  assumes "valid_wordlist lines" and "length ms = 32"
  shows "lookup_words (bip39WordMap lines) (MasterSecretToMnemonic sha lines ms) =
           (map (word_index (packed_secret sha ms)) [0..<bip39MnemonicLen], False)"
proof (rule prod_eqI)
  let ?ws = "MasterSecretToMnemonic sha lines ms"
  note v = valid_wordlistD [OF assms(1)]
  have len: "length ?ws = 24"
    by (simp add: MasterSecretToMnemonic_eq [OF assms(2)] bip39MnemonicLen_def)
  have w: "bip39WordMap lines (ToLower (?ws ! i)) = Some (word_index (packed_secret sha ms) i)" if "i < 24" for i
  proof -
    have "?ws ! i = lines ! word_index (packed_secret sha ms) i"
      using that by (simp add: MasterSecretToMnemonic_eq [OF assms(2)] bip39MnemonicLen_def del: upt_rec_numeral)
    then show ?thesis
      using v word_index_less [of "packed_secret sha ms" i] by (simp add: bip39WordMap_nth)
  qed
  show "snd (lookup_words (bip39WordMap lines) ?ws) =
      snd (map (word_index (packed_secret sha ms)) [0..<bip39MnemonicLen], False)"
    using lookup_words(1) [OF len, of "bip39WordMap lines"] w by force
  show "fst (lookup_words (bip39WordMap lines) ?ws) =
      fst (map (word_index (packed_secret sha ms)) [0..<bip39MnemonicLen], False)"
    using lookup_words(2) [OF len, of "bip39WordMap lines"]
      lookup_words(3) [where wm = "bip39WordMap lines", OF len _ w]
    by (intro nth_equalityI) (simp_all add: bip39MnemonicLen_def del: upt_rec_numeral)
qed

lemma mnemonic_decodes:
  assumes "valid_wordlist lines" and "length ms = 32"
  shows "MnemonicToMasterSecret sha (bip39WordMap lines) (MasterSecretToMnemonic sha lines ms) = Inr ms"
proof -
  have "length (packed_secret sha ms) = 33" using assms(2) by (simp add: packed_secret_def)
  from pack_word_indices [OF this] show ?thesis
    using assms(2)
    by (simp add: MnemonicToMasterSecret_def mnemonic_indices [OF assms] Let_def packed_secret_def
        bip39EntropyBytes_def nth_append del: upt_rec_numeral)
      (simp add: MasterSecretToMnemonic_eq)
qed

lemma ToLower_idem: "ToLower (ToLower w) = ToLower w"
  by (simp add: ToLower_def to_lower_char_def Let_def)

lemma lookup_words_lower: "lookup_words wm (map ToLower ws) = lookup_words wm ws"
  unfolding lookup_words_def length_map
  by (rule fold_cong) (auto simp: ToLower_idem fun_eq_iff)

text \<open>The values of the accepted random bytes.\<close>

definition accepted :: "byte list \<Rightarrow> nat list" where
  "accepted rnd = map (\<lambda>x. unat x mod bip39MnemonicLen) (filter (\<lambda>x. unat x < bip39RandCeiling) rnd)"

lemma accepted_less: "a \<in> set (accepted rnd) \<Longrightarrow> a < 24"
  by (auto simp: accepted_def bip39MnemonicLen_def)

lemma randIdx_accepted:
  "case randIdx rnd of
     None \<Rightarrow> accepted rnd = []
   | Some (a, rnd') \<Rightarrow> accepted rnd = a # accepted rnd'"
  by (induction rnd rule: randIdx.induct) (auto simp: accepted_def split: option.splits)

lemma select_second_accepted: "select_second a rnd = List.find (\<lambda>b. b \<noteq> a) (accepted rnd)"
proof (induction a rnd rule: select_second.induct)
  case (1 a rnd)
  then show ?case
    using randIdx_accepted [of rnd]
    by (subst select_second.simps) (auto split: option.splits)
qed

subsection \<open>Properties\<close>

text \<open>
  a recovery phrase is 24 words of the list and decodes to the master secret it was made from,
  in upper or lower case.
\<close>

theorem mnemonic_roundtrip:
  assumes "valid_wordlist lines" and "length ms = 32"
  shows "MnemonicToMasterSecret sha (bip39WordMap lines) (MasterSecretToMnemonic sha lines ms) = Inr ms \<and>
         length (MasterSecretToMnemonic sha lines ms) = 24 \<and>
         set (MasterSecretToMnemonic sha lines ms) \<subseteq> set lines"
proof -
  have "set (MasterSecretToMnemonic sha lines ms) \<subseteq> set lines"
    using valid_wordlistD(1) [OF assms(1)] word_index_less
    by (auto simp: MasterSecretToMnemonic_eq [OF assms(2)])
  then show ?thesis
    using mnemonic_decodes [OF assms]
    by (simp add: MasterSecretToMnemonic_eq [OF assms(2)] bip39MnemonicLen_def)
qed

text \<open>A word list for the witnesses: the words \<open>a\<close>, \<open>aa\<close>, \<open>aaa\<close> and so on.\<close>

definition unary_wordlist :: "string list" where
  "unary_wordlist = map (\<lambda>i. replicate i (CHR ''a'')) [0..<bip39WordlistSize]"

lemma valid_unary_wordlist: "valid_wordlist unary_wordlist"
proof -
  have "to_lower_char (CHR ''a'') = CHR ''a''" by code_simp
  then show ?thesis
    by (auto simp: valid_wordlist_def unary_wordlist_def bip39_init_def ToLower_def distinct_map inj_on_def
        dest: arg_cong [where f = length])
qed

theorem mnemonic_roundtrip_witness:
  "MnemonicToMasterSecret (\<lambda>x. replicate 32 (x ! 0)) (bip39WordMap unary_wordlist)
     (MasterSecretToMnemonic (\<lambda>x. replicate 32 (x ! 0)) unary_wordlist (replicate 32 0xA5)) =
   Inr (replicate 32 0xA5)"
  using mnemonic_roundtrip [OF valid_unary_wordlist, of "replicate 32 0xA5" "\<lambda>x. replicate 32 (x ! 0)"]
  by simp

text \<open>
  a phrase that is accepted is the phrase of the secret it decodes to, up to letter case; a
  secret has one phrase only, and everything else is refused with the same error.
\<close>

theorem mnemonic_accepted_iff:
  assumes "valid_wordlist lines"
  shows "MnemonicToMasterSecret sha (bip39WordMap lines) ws = Inr ms \<longleftrightarrow>
         length ms = 32 \<and> map ToLower ws = MasterSecretToMnemonic sha lines ms"
proof
  assume d: "MnemonicToMasterSecret sha (bip39WordMap lines) ws = Inr ms"
  then have len: "length ws = 24"
    by (simp add: MnemonicToMasterSecret_def bip39MnemonicLen_def split: if_splits)
  define ids where "ids = fst (lookup_words (bip39WordMap lines) ws)"
  from d have ok: "\<not> snd (lookup_words (bip39WordMap lines) ws)"
    and ms: "ms = take 32 (pack_indices ids)" and ck: "pack_indices ids ! 32 = sha ms ! 0"
    by (auto simp: MnemonicToMasterSecret_def ids_def Let_def bip39EntropyBytes_def split: if_splits prod.splits)
  have lids: "length ids = 24" using lookup_words(2) [OF len] by (simp add: ids_def)
  have w: "ids ! i < 2048 \<and> lines ! (ids ! i) = ToLower (ws ! i)" if i: "i < 24" for i
  proof -
    from ok lookup_words(1) [OF len, of "bip39WordMap lines"] i
    obtain x where x: "bip39WordMap lines (ToLower (ws ! i)) = Some x" by auto
    have "ids ! i = x"
      unfolding ids_def using lookup_words(3) [where wm = "bip39WordMap lines", OF len i x] .
    with bip39WordMap_Some [OF x] valid_wordlistD(1) [OF assms] show ?thesis by simp
  qed
  have l33: "length (pack_indices ids) = 33" using pack_indices(1) [OF lids] .
  then have lms: "length ms = 32" by (simp add: ms)
  have "packed_secret sha ms = take 32 (pack_indices ids) @ [pack_indices ids ! 32]"
    using ck by (simp add: packed_secret_def flip: ms)
  also have "\<dots> = pack_indices ids"
    using l33 by (simp add: take_Suc_conv_app_nth [symmetric])
  finally have "map ToLower ws = MasterSecretToMnemonic sha lines ms"
    using w word_index_pack [OF lids] len
    by (intro nth_equalityI) (simp_all add: MasterSecretToMnemonic_eq [OF lms] bip39MnemonicLen_def
        del: upt_rec_numeral)
  with lms show "length ms = 32 \<and> map ToLower ws = MasterSecretToMnemonic sha lines ms" ..
next
  assume r: "length ms = 32 \<and> map ToLower ws = MasterSecretToMnemonic sha lines ms"
  then have "MnemonicToMasterSecret sha (bip39WordMap lines) (map ToLower ws) = Inr ms"
    using mnemonic_decodes [OF assms] by simp
  then show "MnemonicToMasterSecret sha (bip39WordMap lines) ws = Inr ms"
    by (simp only: MnemonicToMasterSecret_def lookup_words_lower length_map)
qed

theorem mnemonic_accepted_iff_witness:
  "\<forall>ms. MnemonicToMasterSecret (\<lambda>x. replicate 32 (x ! 0)) (bip39WordMap unary_wordlist) (replicate 23 ''A'') \<noteq> Inr ms"
  using mnemonic_accepted_iff [OF valid_unary_wordlist, of "\<lambda>x. replicate 32 (x ! 0)" "replicate 23 ''A''"]
  by (auto simp: MasterSecretToMnemonic_def Let_def bip39MnemonicLen_def
      dest!: arg_cong [where f = length])

text \<open>
  C7: the confirmation gate. The two positions are the first accepted random byte modulo 24 and the
  next accepted one that differs; so they are distinct positions of the phrase, and the selection
  ends as soon as the random source delivers two accepted bytes with different residues.
\<close>

theorem SelectConfirmationWords_spec:
  assumes "length mnemonic = 24"
  shows "SelectConfirmationWords mnemonic rnd =
           (case accepted rnd of
              [] \<Rightarrow> None
            | a # as \<Rightarrow> map_option (\<lambda>b. (a, b)) (List.find (\<lambda>b. b \<noteq> a) as)) \<and>
         (\<forall>a b. SelectConfirmationWords mnemonic rnd = Some (a, b) \<longrightarrow> a < 24 \<and> b < 24 \<and> a \<noteq> b)"
proof -
  have eq: "SelectConfirmationWords mnemonic rnd =
      (case accepted rnd of [] \<Rightarrow> None | a # as \<Rightarrow> map_option (\<lambda>b. (a, b)) (List.find (\<lambda>b. b \<noteq> a) as))"
    using assms randIdx_accepted [of rnd]
    by (auto simp: SelectConfirmationWords_def bip39MnemonicLen_def select_second_accepted split: list.splits option.splits)
  moreover have "a < 24 \<and> b < 24 \<and> a \<noteq> b" if "SelectConfirmationWords mnemonic rnd = Some (a, b)" for a b
  proof -
    from that obtain as where as: "accepted rnd = a # as" "List.find (\<lambda>b. b \<noteq> a) as = Some b"
      unfolding eq by (auto split: list.splits)
    from as(2) have "b \<in> set as" "b \<noteq> a" by (auto simp: find_Some_iff)
    with as(1) accepted_less [of _ rnd] show ?thesis by auto
  qed
  ultimately show ?thesis by simp
qed

theorem SelectConfirmationWords_spec_witness:
  "SelectConfirmationWords (replicate 24 ''a'') [250, 25, 1, 49, 7] = Some (1, 7)"
  using SelectConfirmationWords_spec [of "replicate 24 ''a''" "[250, 25, 1, 49, 7]"]
  by (simp add: accepted_def bip39RandCeiling_def bip39MnemonicLen_def)

end
