(* ===== verification/Keys.thy ===== *)
theory Keys
  imports Config Mnemonic
begin

text \<open>
  Key derivation and the owner's local keystore: \<^verbatim>\<open>internal/crypto/hkdf.go\<close>,
  \<^verbatim>\<open>argon2.go\<close>, \<^verbatim>\<open>chacha20poly1305.go\<close> and \<^verbatim>\<open>internal/client/account\<close>. HKDF, HMAC, Argon2id and
  the AEAD come from packages outside the repository and are arguments. A violated
  pre-condition panics: that is \<open>None\<close> for the key derivations and \<open>Panic\<close> elsewhere.
\<close>

type_synonym hkdf_fun = "byte list \<Rightarrow> byte list \<Rightarrow> byte list \<Rightarrow> byte list"

definition ascii :: "string \<Rightarrow> byte list" where
  "ascii = map (\<lambda>c. word_of_nat (of_char c))"

lemma length_ascii [simp]: "length (ascii s) = length s"
  by (simp add: ascii_def)

definition masterSecretSize :: nat where "masterSecretSize = 32"
definition uuidSize :: nat where "uuidSize = 16"

definition mustLen :: "byte list \<Rightarrow> nat \<Rightarrow> bool" where
  "mustLen b want \<longleftrightarrow> length b = want"

subsection \<open>HKDF derivations\<close>

definition DeriveFileKey :: "hkdf_fun \<Rightarrow> byte list \<Rightarrow> byte list \<Rightarrow> byte list \<Rightarrow> byte list option" where
  "DeriveFileKey hkdf masterSecret ownerID fileID =
     (if \<not> mustLen masterSecret masterSecretSize \<or> \<not> mustLen ownerID uuidSize \<or> \<not> mustLen fileID uuidSize then None
      else Some (hkdf masterSecret ownerID (ascii ''vyomanaut-file-v1'' @ fileID)))"

definition DerivePointerEncKey :: "hkdf_fun \<Rightarrow> byte list \<Rightarrow> byte list \<Rightarrow> byte list \<Rightarrow> byte list option" where
  "DerivePointerEncKey hkdf masterSecret ownerID fileID =
     (if \<not> mustLen masterSecret masterSecretSize \<or> \<not> mustLen ownerID uuidSize \<or> \<not> mustLen fileID uuidSize then None
      else Some (hkdf masterSecret ownerID (ascii ''vyomanaut-pointer-v1'' @ fileID)))"

definition DeriveKeystoreEncKey :: "hkdf_fun \<Rightarrow> byte list \<Rightarrow> byte list \<Rightarrow> byte list option" where
  "DeriveKeystoreEncKey hkdf masterSecret ownerID =
     (if \<not> mustLen masterSecret masterSecretSize \<or> \<not> mustLen ownerID uuidSize then None
      else Some (hkdf masterSecret ownerID (ascii ''vyomanaut-keystore-v1'')))"

definition DeriveDHTOwnerKey :: "hkdf_fun \<Rightarrow> byte list \<Rightarrow> byte list \<Rightarrow> byte list \<Rightarrow> byte list option" where
  "DeriveDHTOwnerKey hkdf masterSecret ownerID fileID =
     (if \<not> mustLen masterSecret masterSecretSize \<or> \<not> mustLen ownerID uuidSize \<or> \<not> mustLen fileID uuidSize then None
      else Some (hkdf masterSecret ownerID (ascii ''vyomanaut-dht-v1'' @ fileID)))"

definition DeriveDHTKey :: "(byte list \<Rightarrow> byte list \<Rightarrow> byte list) \<Rightarrow> byte list \<Rightarrow> byte list \<Rightarrow> byte list" where
  "DeriveDHTKey hmac chunkHash fileOwnerKey = hmac chunkHash fileOwnerKey"

subsection \<open>Argon2id\<close>

definition argon2MinPassphraseLen :: nat where "argon2MinPassphraseLen = 8"
definition argon2MinMemory :: u32 where "argon2MinMemory = 4096"

type_synonym argon2_fun = "byte list \<Rightarrow> byte list \<Rightarrow> u32 \<Rightarrow> u32 \<Rightarrow> byte \<Rightarrow> byte list"

definition DeriveMasterSecret ::
  "argon2_fun \<Rightarrow> byte list \<Rightarrow> byte list \<Rightarrow> u32 \<Rightarrow> u32 \<Rightarrow> byte \<Rightarrow> byte list option" where
  "DeriveMasterSecret idkey passphrase ownerID argon2Time argon2Memory argon2Threads =
     (if length passphrase < argon2MinPassphraseLen then None
      else if \<not> mustLen ownerID uuidSize then None
      else if argon2Time < 1 then None
      else if argon2Memory < argon2MinMemory then None
      else if argon2Threads < 1 then None
      else Some (copy_slice (replicate 32 0) (idkey passphrase ownerID argon2Time argon2Memory argon2Threads)))"

subsection \<open>AEAD\<close>

type_synonym seal_fun = "byte list \<Rightarrow> byte list \<Rightarrow> byte list \<Rightarrow> byte list \<Rightarrow> byte list"
type_synonym open_fun = "byte list \<Rightarrow> byte list \<Rightarrow> byte list \<Rightarrow> byte list \<Rightarrow> byte list option"

datatype key_error = ErrTagMismatch | ErrCiphertextTooShort | ErrKeystoreLength | ErrRand | Panic

definition poly1305TagSize :: nat where "poly1305TagSize = 16"

definition EncryptAEAD :: "seal_fun \<Rightarrow> byte list \<Rightarrow> byte list \<Rightarrow> byte list \<Rightarrow> byte list \<Rightarrow> byte list" where
  "EncryptAEAD seal key nonce aad plaintext = seal key nonce aad plaintext"

definition EncryptPointerFile ::
  "seal_fun \<Rightarrow> byte list \<Rightarrow> byte list \<Rightarrow> byte list \<Rightarrow> byte list \<Rightarrow> key_error + byte list" where
  "EncryptPointerFile seal key nonce aad plaintext =
     (if length aad = 0 then Inl Panic else Inr (EncryptAEAD seal key nonce aad plaintext))"

definition DecryptAEAD ::
  "open_fun \<Rightarrow> byte list \<Rightarrow> byte list \<Rightarrow> byte list \<Rightarrow> byte list \<Rightarrow> key_error + byte list" where
  "DecryptAEAD opn key nonce aad ciphertext =
     (if length ciphertext < poly1305TagSize then Inl ErrCiphertextTooShort
      else case opn key nonce aad ciphertext of None \<Rightarrow> Inl ErrTagMismatch | Some p \<Rightarrow> Inr p)"

definition DecryptPointerFile ::
  "open_fun \<Rightarrow> byte list \<Rightarrow> byte list \<Rightarrow> byte list \<Rightarrow> byte list \<Rightarrow> key_error + byte list" where
  "DecryptPointerFile opn key nonce aad ciphertext = DecryptAEAD opn key nonce aad ciphertext"

text \<open>What RFC 8439 says of seal and open.\<close>

definition aead_correct :: "seal_fun \<Rightarrow> open_fun \<Rightarrow> bool" where
  "aead_correct seal opn \<longleftrightarrow>
     (\<forall>k n a p. opn k n a (seal k n a p) = Some p \<and> length (seal k n a p) = length p + poly1305TagSize)"

lemma DecryptAEAD_EncryptAEAD:
  "aead_correct seal opn \<Longrightarrow> DecryptAEAD opn k n a (EncryptAEAD seal k n a p) = Inr p"
  by (simp add: DecryptAEAD_def EncryptAEAD_def aead_correct_def)

subsection \<open>Keystore\<close>

record Keystore =
  PrivateKey :: "byte list"
  NonceCounter :: "byte list"

definition PrivateKeySize :: nat where "PrivateKeySize = 64"

definition keystoreAAD :: "byte list" where
  "keystoreAAD = ascii ''vyomanaut-keystore-v1''"

definition serializeKeystore :: "Keystore \<Rightarrow> byte list" where
  "serializeKeystore ks = PrivateKey ks @ NonceCounter ks"

definition deserializeKeystore :: "byte list \<Rightarrow> key_error + Keystore" where
  "deserializeKeystore plaintext =
     (if length plaintext \<noteq> PrivateKeySize + 12 then Inl ErrKeystoreLength
      else Inr \<lparr>PrivateKey = take PrivateKeySize plaintext, NonceCounter = drop PrivateKeySize plaintext\<rparr>)"

definition EncryptKeystore ::
  "hkdf_fun \<Rightarrow> seal_fun \<Rightarrow> byte list option \<Rightarrow> Keystore \<Rightarrow> byte list \<Rightarrow> byte list \<Rightarrow> key_error + (byte list \<times> byte list)" where
  "EncryptKeystore hkdf seal rnd ks masterSecret ownerID =
     (case rnd of
        None \<Rightarrow> Inl ErrRand
      | Some nonce \<Rightarrow>
          (case DeriveKeystoreEncKey hkdf masterSecret ownerID of
             None \<Rightarrow> Inl Panic
           | Some key \<Rightarrow> Inr (EncryptAEAD seal key nonce keystoreAAD (serializeKeystore ks), nonce)))"

definition DecryptKeystore ::
  "hkdf_fun \<Rightarrow> open_fun \<Rightarrow> byte list \<Rightarrow> byte list \<Rightarrow> byte list \<Rightarrow> byte list \<Rightarrow> key_error + Keystore" where
  "DecryptKeystore hkdf opn ciphertext nonce masterSecret ownerID =
     (case DeriveKeystoreEncKey hkdf masterSecret ownerID of
        None \<Rightarrow> Inl Panic
      | Some key \<Rightarrow>
          (case DecryptAEAD opn key nonce keystoreAAD ciphertext of
             Inl e \<Rightarrow> Inl e
           | Inr plaintext \<Rightarrow> deserializeKeystore plaintext))"

text \<open>The loop of \<^verbatim>\<open>IncrementNonceCounter\<close>; \<open>n\<close> bytes are still to visit, from the last one down.\<close>

fun inc_counter :: "nat \<Rightarrow> byte list \<Rightarrow> byte list" where
  "inc_counter 0 c = c"
| "inc_counter (Suc i) c =
     (let c = c[i := c ! i + 1] in if c ! i \<noteq> 0 then c else inc_counter i c)"

definition IncrementNonceCounter :: "Keystore \<Rightarrow> Keystore" where
  "IncrementNonceCounter ks = ks\<lparr>NonceCounter := inc_counter (length (NonceCounter ks)) (NonceCounter ks)\<rparr>"

subsection \<open>Account recovery\<close>

record Identity =
  IdPublicKey :: "byte list"
  IdPrivateKey :: "byte list"
  MasterSecret :: "byte list"
  Mnemonic :: "string list"

definition FinalizeIdentity ::
  "hash \<Rightarrow> argon2_fun \<Rightarrow> string list \<Rightarrow> byte list \<Rightarrow> byte list \<Rightarrow> byte list \<Rightarrow> byte list \<Rightarrow> NetworkProfile \<Rightarrow> Identity option" where
  "FinalizeIdentity sha idkey bip39Words pub priv ownerID passphrase profile =
     (case DeriveMasterSecret idkey passphrase ownerID (Argon2Time profile) (Argon2Memory profile) (Argon2Threads profile) of
        None \<Rightarrow> None
      | Some masterSecret \<Rightarrow>
          Some \<lparr>IdPublicKey = pub, IdPrivateKey = priv, MasterSecret = masterSecret,
                Mnemonic = MasterSecretToMnemonic sha bip39Words masterSecret\<rparr>)"

text \<open>\<^verbatim>\<open>Register\<close>, with the outcome of \<^verbatim>\<open>ed25519.GenerateKey\<close> as an argument.\<close>

definition Register ::
  "hash \<Rightarrow> argon2_fun \<Rightarrow> string list \<Rightarrow> (byte list \<times> byte list) option \<Rightarrow> byte list \<Rightarrow> byte list \<Rightarrow> NetworkProfile \<Rightarrow>
     key_error + Identity" where
  "Register sha idkey bip39Words keypair ownerID passphrase profile =
     (case keypair of
        None \<Rightarrow> Inl ErrRand
      | Some (pub, priv) \<Rightarrow>
          (case DeriveMasterSecret idkey passphrase ownerID (Argon2Time profile) (Argon2Memory profile) (Argon2Threads profile) of
             None \<Rightarrow> Inl Panic
           | Some masterSecret \<Rightarrow>
               Inr \<lparr>IdPublicKey = pub, IdPrivateKey = priv, MasterSecret = masterSecret,
                     Mnemonic = MasterSecretToMnemonic sha bip39Words masterSecret\<rparr>))"

definition RecoverFromPassphrase ::
  "argon2_fun \<Rightarrow> byte list \<Rightarrow> byte list \<Rightarrow> NetworkProfile \<Rightarrow> byte list option" where
  "RecoverFromPassphrase idkey ownerID passphrase profile =
     DeriveMasterSecret idkey passphrase ownerID (Argon2Time profile) (Argon2Memory profile) (Argon2Threads profile)"

datatype recover_error = ErrInvalidRecoveryPhrase

definition RecoverFromMnemonic :: "hash \<Rightarrow> (string \<rightharpoonup> nat) \<Rightarrow> string list \<Rightarrow> recover_error + byte list" where
  "RecoverFromMnemonic sha wm words =
     (case MnemonicToMasterSecret sha wm words of
        Inl ErrInvalidMnemonic \<Rightarrow> Inl ErrInvalidRecoveryPhrase
      | Inr secret \<Rightarrow> Inr secret)"

datatype confirm_error = ConfirmPanic | ErrNoPrompt | ErrWord1Mismatch | ErrWord2Mismatch

definition ConfirmMnemonic ::
  "byte list \<Rightarrow> string list \<Rightarrow> NetworkProfile \<Rightarrow> (nat \<Rightarrow> string) option \<Rightarrow> confirm_error option" where
  "ConfirmMnemonic rnd mnemonic profile prompt =
     (case SelectConfirmationWords mnemonic rnd of
        None \<Rightarrow> Some ConfirmPanic
      | Some (indexA, indexB) \<Rightarrow>
          if SkipMnemonicConfirm profile then None
          else case prompt of
                 None \<Rightarrow> Some ErrNoPrompt
               | Some ask \<Rightarrow>
                   if ask indexA \<noteq> mnemonic ! indexA then Some ErrWord1Mismatch
                   else if ask indexB \<noteq> mnemonic ! indexB then Some ErrWord2Mismatch
                   else None)"

definition ZeroMasterSecret :: "byte list \<Rightarrow> byte list" where
  "ZeroMasterSecret secret = fold (\<lambda>i s. s[i := 0]) [0..<length secret] secret"

subsection \<open>Lemmas\<close>

lemma length_inc_counter [simp]: "length (inc_counter n c) = length c"
  by (induction n c rule: inc_counter.induct) (auto simp: Let_def)

lemma inc_counter_append: "n \<le> length xs \<Longrightarrow> inc_counter n (xs @ ys) = inc_counter n xs @ ys"
  by (induction n xs rule: inc_counter.induct) (auto simp: Let_def list_update_append nth_append)

lemma be_value_snoc: "be_value (xs @ [x]) = be_value xs * 256 + unat x"
  by (induction xs) (simp_all add: algebra_simps)

lemma be_value_less: "be_value xs < 256 ^ length xs"
proof (induction xs)
  case (Cons x xs)
  have "unat x < 2 ^ LENGTH(8)" by (rule unsigned_less)
  then have "unat x \<le> 255" by simp
  then have "unat x * 256 ^ length xs \<le> 255 * 256 ^ length xs" by (rule mult_right_mono) simp
  with Cons have "unat x * 256 ^ length xs + be_value xs < 255 * 256 ^ length xs + 256 ^ length xs"
    by (rule add_le_less_mono [rotated])
  then show ?case by simp
qed simp

lemma be_value_inc: "be_value (inc_counter (length c) c) = (be_value c + 1) mod 256 ^ length c"
proof (induction c rule: rev_induct)
  case (snoc x xs)
  show ?case
  proof (cases "x + 1 = 0")
    case True
    then have "x = - 1" by (simp add: eq_neg_iff_add_eq_0)
    then have "unat x = 255" by (simp add: unsigned_minus_1_eq_mask mask_eq_exp_minus_1)
    moreover have "be_value (inc_counter (length (xs @ [x])) (xs @ [x])) =
        be_value (inc_counter (length xs) xs) * 256"
      using True by (simp add: Let_def inc_counter_append be_value_snoc)
    ultimately show ?thesis
      using snoc by (simp add: be_value_snoc mod_mult2_eq algebra_simps)
  next
    case False
    then have "unat (x + 1) = unat x + 1"
      by (metis Suc_eq_plus1 add.commute unatSuc)
    then show ?thesis
      using False be_value_less [of "xs @ [x + 1]"] by (simp add: Let_def be_value_snoc)
  qed
qed simp

lemma be_value_iterate:
  "be_value (((\<lambda>c. inc_counter (length c) c) ^^ k) c) = (be_value c + k) mod 256 ^ length c"
proof (induction k)
  case 0
  then show ?case by (simp add: be_value_less)
next
  case (Suc k)
  have "length (((\<lambda>c. inc_counter (length c) c) ^^ k) c) = length c" by (induction k) auto
  with be_value_inc [of "((\<lambda>c. inc_counter (length c) c) ^^ k) c"] Suc show ?case
    by (simp add: mod_Suc_eq)
qed

subsection \<open>Properties\<close>

text \<open>
  C8: the pointer-file nonce never repeats: among fewer than \<open>2 ^ 96\<close> increments of a 12-byte
  counter no two values are equal.
\<close>

theorem nonces_distinct:
  assumes "length (NonceCounter ks) = 12" and "j < k" and "k < 2 ^ 96"
  shows "NonceCounter ((IncrementNonceCounter ^^ j) ks) \<noteq> NonceCounter ((IncrementNonceCounter ^^ k) ks)"
proof -
  have it: "NonceCounter ((IncrementNonceCounter ^^ n) ks) =
      ((\<lambda>c. inc_counter (length c) c) ^^ n) (NonceCounter ks)" for n
    by (induction n) (simp_all add: IncrementNonceCounter_def)
  let ?v = "be_value (NonceCounter ks)"
  have "(?v + j) mod 256 ^ 12 \<noteq> (?v + k) mod 256 ^ 12"
  proof
    assume "(?v + j) mod 256 ^ 12 = (?v + k) mod 256 ^ 12"
    with assms(2) have "256 ^ 12 dvd (?v + k) - (?v + j)"
      by (metis add_le_cancel_left less_imp_le mod_eq_dvd_iff_nat)
    then have "256 ^ 12 \<le> k - j" using assms(2) by (intro dvd_imp_le) simp_all
    with assms(3) show False by simp
  qed
  then show ?thesis
    using be_value_iterate [of j "NonceCounter ks"] be_value_iterate [of k "NonceCounter ks"] assms(1)
    by (auto simp: it)
qed

theorem nonces_distinct_witness:
  "NonceCounter ((IncrementNonceCounter ^^ 255) \<lparr>PrivateKey = [], NonceCounter = replicate 12 0\<rparr>) \<noteq>
   NonceCounter ((IncrementNonceCounter ^^ 65535) \<lparr>PrivateKey = [], NonceCounter = replicate 12 0\<rparr>)"
  by (rule nonces_distinct) simp_all

datatype key_use = FileKey "byte list" | PointerKey "byte list" | KeystoreKey | DHTOwnerKey "byte list"

fun derive :: "hkdf_fun \<Rightarrow> byte list \<Rightarrow> byte list \<Rightarrow> key_use \<Rightarrow> byte list option" where
  "derive hkdf ms owner (FileKey f) = DeriveFileKey hkdf ms owner f"
| "derive hkdf ms owner (PointerKey f) = DerivePointerEncKey hkdf ms owner f"
| "derive hkdf ms owner KeystoreKey = DeriveKeystoreEncKey hkdf ms owner"
| "derive hkdf ms owner (DHTOwnerKey f) = DeriveDHTOwnerKey hkdf ms owner f"

fun key_info :: "key_use \<Rightarrow> byte list" where
  "key_info (FileKey f) = ascii ''vyomanaut-file-v1'' @ f"
| "key_info (PointerKey f) = ascii ''vyomanaut-pointer-v1'' @ f"
| "key_info KeystoreKey = ascii ''vyomanaut-keystore-v1''"
| "key_info (DHTOwnerKey f) = ascii ''vyomanaut-dht-v1'' @ f"

lemmas derive_defs = DeriveFileKey_def DerivePointerEncKey_def DeriveKeystoreEncKey_def
  DeriveDHTOwnerKey_def mustLen_def uuidSize_def masterSecretSize_def

fun use_file_ok :: "key_use \<Rightarrow> bool" where
  "use_file_ok (FileKey f) = (length f = 16)"
| "use_file_ok (PointerKey f) = (length f = 16)"
| "use_file_ok KeystoreKey = True"
| "use_file_ok (DHTOwnerKey f) = (length f = 16)"

lemma derive_eq:
  "derive hkdf ms owner u =
     (if length ms = 32 \<and> length owner = 16 \<and> use_file_ok u then Some (hkdf ms owner (key_info u)) else None)"
  by (cases u) (auto simp: derive_defs)

lemma key_info_inj:
  assumes "use_file_ok u" and "use_file_ok u'" and "key_info u = key_info u'"
  shows "u = u'"
proof -
  have "length (key_info u) = length (key_info u')" using assms(3) by simp
  with assms(1,2) have "\<exists>f g. (u = FileKey f \<and> u' = FileKey g) \<or> (u = PointerKey f \<and> u' = PointerKey g) \<or>
      (u = KeystoreKey \<and> u' = KeystoreKey) \<or> (u = DHTOwnerKey f \<and> u' = DHTOwnerKey g)"
    by (cases u; cases u'; simp)
  with assms(3) show ?thesis by auto
qed

text \<open>
  the keys derived for different purposes or different files come from different HKDF inputs:
  equal keys mean the same purpose, file, owner and master secret, as far as HKDF has no collision
  on the inputs used.
\<close>

theorem derived_keys_separate:
  assumes "derive hkdf ms owner u = Some k" and "derive hkdf ms' owner' u' = Some k"
    and "inj_on (\<lambda>(ikm, salt, info). hkdf ikm salt info) {(ms, owner, key_info u), (ms', owner', key_info u')}"
  shows "ms = ms' \<and> owner = owner' \<and> u = u'"
proof -
  from assms(1) have u: "hkdf ms owner (key_info u) = k" "use_file_ok u"
    unfolding derive_eq by (simp_all split: if_splits)
  from assms(2) have u': "hkdf ms' owner' (key_info u') = k" "use_file_ok u'"
    unfolding derive_eq by (simp_all split: if_splits)
  have "(ms, owner, key_info u) = (ms', owner', key_info u')"
    using u(1) u'(1) by (intro inj_onD [OF assms(3)]) simp_all
  with key_info_inj [OF u(2) u'(2)] show ?thesis by simp
qed

theorem derived_keys_separate_witness:
  "derive (\<lambda>i s f. i @ s @ f) (replicate 32 1) (replicate 16 2) (FileKey (replicate 16 3)) \<noteq>
   derive (\<lambda>i s f. i @ s @ f) (replicate 32 1) (replicate 16 2) (DHTOwnerKey (replicate 16 3))"
proof
  let ?h = "\<lambda>i s f. i @ s @ f" and ?u = "FileKey (replicate 16 3)" and ?u' = "DHTOwnerKey (replicate 16 3)"
  assume eq: "derive ?h (replicate 32 1) (replicate 16 2) ?u = derive ?h (replicate 32 1) (replicate 16 2) ?u'"
  obtain k where k: "derive ?h (replicate 32 1) (replicate 16 2) ?u = Some k"
    by (simp add: derive_eq del: derive.simps)
  have "inj_on (\<lambda>(ikm, salt, info). ?h ikm salt info)
      {(replicate 32 1, replicate 16 2, key_info ?u), (replicate 32 1, replicate 16 2, key_info ?u')}"
    by (simp add: inj_on_def del: key_info.simps)
  from derived_keys_separate [OF k k [unfolded eq] this] show False by simp
qed

text \<open>
  C9: a keystore encrypted under the master secret and owner decrypts to itself.
\<close>

theorem keystore_roundtrip:
  assumes "aead_correct seal opn" and "length (PrivateKey ks) = 64" and "length (NonceCounter ks) = 12"
    and "length ms = 32" and "length owner = 16"
  shows "\<exists>c. EncryptKeystore hkdf seal (Some nonce) ks ms owner = Inr (c, nonce) \<and>
             DecryptKeystore hkdf opn c nonce ms owner = Inr ks"
proof -
  have "deserializeKeystore (serializeKeystore ks) = Inr ks"
    using assms(2,3) by (cases ks) (simp add: deserializeKeystore_def serializeKeystore_def PrivateKeySize_def)
  then show ?thesis
    using assms by (simp add: EncryptKeystore_def DecryptKeystore_def derive_defs
        DecryptAEAD_EncryptAEAD [OF assms(1)])
qed

theorem keystore_roundtrip_witness:
  "\<exists>c. EncryptKeystore (\<lambda>i s f. i) (\<lambda>k n a p. replicate 16 0 @ p) (Some (replicate 12 9))
         \<lparr>PrivateKey = replicate 64 1, NonceCounter = replicate 12 2\<rparr> (replicate 32 3) (replicate 16 4) =
       Inr (c, replicate 12 9) \<and>
     DecryptKeystore (\<lambda>i s f. i) (\<lambda>k n a c. Some (drop 16 c)) c (replicate 12 9) (replicate 32 3) (replicate 16 4) =
       Inr \<lparr>PrivateKey = replicate 64 1, NonceCounter = replicate 12 2\<rparr>"
  by (rule keystore_roundtrip) (simp_all add: aead_correct_def poly1305TagSize_def)

text \<open>
  C10: account recovery. The identity created at registration under either profile is recovered by
  the passphrase and, independently, by its recovery phrase.
\<close>

theorem account_recovery:
  assumes "valid_wordlist lines" and "SelectProfile env mode = Some profile"
    and "8 \<le> length passphrase" and "length owner = 16"
  shows "\<exists>ident. Register sha idkey lines (Some (pub, priv)) owner passphrase profile = Inr ident \<and>
           RecoverFromPassphrase idkey owner passphrase profile = Some (MasterSecret ident) \<and>
           RecoverFromMnemonic sha (bip39WordMap lines) (Mnemonic ident) = Inr (MasterSecret ident)"
proof -
  have "\<not> Argon2Time profile < 1 \<and> \<not> Argon2Memory profile < argon2MinMemory \<and> \<not> Argon2Threads profile < 1"
    using assms(2) by (elim SelectProfile_cases) (simp_all add: profile_defs argon2MinMemory_def)
  with assms(3,4) have d: "DeriveMasterSecret idkey passphrase owner (Argon2Time profile) (Argon2Memory profile)
      (Argon2Threads profile) = Some (copy_slice (replicate 32 0)
        (idkey passphrase owner (Argon2Time profile) (Argon2Memory profile) (Argon2Threads profile)))"
    by (simp add: DeriveMasterSecret_def derive_defs argon2MinPassphraseLen_def)
  show ?thesis
    by (simp add: Register_def RecoverFromPassphrase_def RecoverFromMnemonic_def d
        mnemonic_decodes [OF assms(1)])
qed

theorem account_recovery_witness:
  "\<exists>ident. Register (\<lambda>x. replicate 32 (x ! 0)) (\<lambda>p s t m th. replicate 32 (p ! 0)) unary_wordlist
             (Some ([1], [2])) (replicate 16 5) (replicate 8 7) DemoProfile = Inr ident \<and>
           RecoverFromPassphrase (\<lambda>p s t m th. replicate 32 (p ! 0)) (replicate 16 5) (replicate 8 7) DemoProfile =
             Some (MasterSecret ident) \<and>
           RecoverFromMnemonic (\<lambda>x. replicate 32 (x ! 0)) (bip39WordMap unary_wordlist) (Mnemonic ident) =
             Inr (MasterSecret ident)"
  by (rule account_recovery [OF valid_unary_wordlist, of "\<lambda>_. ''''" "''demo''"]) (simp_all add: SelectProfile_def)

end
