(* ===== verification/Database.thy ===== *)
theory Database
  imports Config "HOL-Library.Signed_Division" "HOL-Library.Char_ord" "HOL-Library.List_Lexorder"
begin

text \<open>
  The rows of the coordination microservice's PostgreSQL database that the modelled handlers read
  and write, as records, and the database as the record of its tables. A table is the list of
  its rows; a query without \<^verbatim>\<open>ORDER BY\<close> is read in table order. The column names, enumerations and
  constraints are those of \<^verbatim>\<open>migrations/001_initial_schema.sql\<close>. Materialized views are separate
  components of the record, because the handlers read their last refreshed contents. Times are
  nanoseconds, floating-point columns are rationals. Columns that no modelled handler reads
  (row timestamps such as \<^verbatim>\<open>deleted_at\<close>) are left out.
\<close>

type_synonym uuid = "byte list"
type_synonym time = int

text \<open>64-bit signed arithmetic of Go, with wrap-around.\<close>

definition i64 :: "int \<Rightarrow> int" where
  "i64 x = (x + 2 ^ 63) mod 2 ^ 64 - 2 ^ 63"

lemma i64_id: "- (2 ^ 63) \<le> x \<Longrightarrow> x < 2 ^ 63 \<Longrightarrow> i64 x = x"
  by (simp add: i64_def)

lemma i64_range: "- (2 ^ 63) \<le> i64 x" "i64 x < 2 ^ 63"
  by (simp_all add: i64_def)

lemma sdiv_nonneg: "0 \<le> a \<Longrightarrow> 0 \<le> b \<Longrightarrow> a sdiv b = a div b" for a b :: int
  by (simp add: signed_divide_int_def sgn_if)

subsection \<open>Providers\<close>

datatype provider_status = PENDING_ONBOARDING | VETTING | ACTIVE | DEPARTED

record provider_row =
  provider_id :: uuid
  status :: provider_status
  frozen :: bool
  departed_at :: "time option"
  last_heartbeat_ts :: "time option"
  asn :: string
  linked_account :: "string option"
  cooling_until :: "time option"
  consecutive_audit_passes :: int
  first_chunk_assignment_at :: "time option"
  avg_rtt_ms :: "rat option"
  var_rtt_ms :: rat
  p95_throughput_kbps :: "rat option"
  rto_sample_count :: int
  multiaddr_stale :: bool
  ed25519_public_key :: "byte list"
  last_known_multiaddrs :: "string list"
  region :: string

subsection \<open>Chunk assignments, files and repair jobs\<close>

datatype assignment_status = A_ACTIVE | A_REPAIRING | A_PENDING_DELETION | A_DELETED

record assignment_row =
  a_chunk_id :: "byte list"
  is_vetting_chunk :: bool
  a_segment_id :: "uuid option"
  shard_index :: "nat option"
  a_provider_id :: uuid
  a_status :: assignment_status

datatype file_status = F_ACTIVE | F_DELETION_PENDING | F_DELETED

record file_row =
  file_id :: uuid
  owner_id :: uuid
  original_size_bytes :: int
  f_status :: file_status
  pointer_ciphertext :: "byte list"
  pointer_nonce :: "byte list"
  pointer_tag :: "byte list"
  display_name_ciphertext :: "byte list option"
  display_name_nonce :: "byte list option"
  display_name_tag :: "byte list option"
  schema_version :: int

record segment_row =
  segment_id :: uuid
  s_file_id :: uuid
  segment_index :: int

datatype Priority = PriorityEmergency | PriorityPermanentDeparture | PriorityPreWarning

datatype TriggerType =
  TriggerSilentDeparture | TriggerAnnouncedDeparture | TriggerThresholdWarning | TriggerEmergencyFloor

datatype job_status = QUEUED | IN_PROGRESS | COMPLETED | FAILED

record job_row =
  job_id :: uuid
  j_chunk_id :: "byte list"
  j_segment_id :: uuid
  j_provider_id :: "uuid option"
  trigger_type :: TriggerType
  priority :: Priority
  available_shard_count :: int
  j_status :: job_status
  created_at :: time
  started_at :: "time option"
  completed_at :: "time option"
  failure_reason :: "string option"

subsection \<open>Ledgers and audit periods\<close>

datatype EscrowEventType = EscrowDeposit | EscrowRelease | EscrowSeizure | EscrowReversal

record escrow_event =
  ev_provider :: uuid
  ev_type :: EscrowEventType
  ev_amount :: int
  ev_period :: "uuid option"
  ev_key :: string

datatype OwnerEscrowEventType = OwnerDeposit | OwnerCharge | OwnerWithdrawal | OwnerRefund

record owner_event =
  oe_owner :: uuid
  oe_type :: OwnerEscrowEventType
  oe_amount :: int
  oe_file :: "uuid option"
  oe_key :: string

record period_row =
  period_id :: uuid
  period_provider :: uuid
  release_computed :: bool

record score_row =
  score_24h :: "rat option"
  score_7d :: "rat option"
  score_30d :: "rat option"
  score_composite :: rat
  scores_as_of :: time

subsection \<open>Audit receipts\<close>

datatype audit_result_type = PASS | FAIL | TIMEOUT

record receipt_row =
  receipt_id :: uuid
  r_chunk_id :: "byte list"
  r_file_id :: "uuid option"
  r_provider_id :: uuid
  challenge_nonce :: "byte list"
  server_challenge_ts :: time
  response_hash :: "byte list option"
  response_latency_ms :: "int option"
  audit_result :: "audit_result_type option"
  address_was_stale :: bool
  provider_sig :: "byte list option"
  service_sig :: "byte list option"
  service_countersign_ts :: "time option"
  jit_flag :: bool
  abandoned_at :: "time option"

subsection \<open>The database\<close>

record database =
  providers :: "provider_row list"
  chunk_assignments :: "assignment_row list"
  files :: "file_row list"
  segments :: "segment_row list"
  repair_jobs :: "job_row list"
  escrow_events :: "escrow_event list"
  owner_escrow_events :: "owner_event list"
  audit_periods :: "period_row list"
  audit_receipts :: "receipt_row list"
  audit_receipt_nonces :: "(byte list \<times> time) list"
  owner_vpa :: "uuid \<rightharpoonup> string option"
  owner_public_key :: "uuid \<rightharpoonup> byte list"
  mv_owner_escrow_balance :: "uuid \<rightharpoonup> int"
  mv_provider_escrow_balance :: "uuid \<rightharpoonup> int"
  mv_provider_scores :: "uuid \<rightharpoonup> score_row"

definition empty_db :: database where
  "empty_db = \<lparr>providers = [], chunk_assignments = [], files = [], segments = [], repair_jobs = [],
     escrow_events = [], owner_escrow_events = [], audit_periods = [], audit_receipts = [],
     audit_receipt_nonces = [], owner_vpa = Map.empty, owner_public_key = Map.empty,
     mv_owner_escrow_balance = Map.empty,
     mv_provider_escrow_balance = Map.empty, mv_provider_scores = Map.empty\<rparr>"

text \<open>The file of a segment, by the primary key of \<^verbatim>\<open>segments\<close>.\<close>

definition segment_file :: "database \<Rightarrow> uuid \<rightharpoonup> uuid" where
  "segment_file db s = map_option s_file_id (List.find (\<lambda>r. segment_id r = s) (segments db))"

lemma segment_file_frame [simp]:
  "segment_file (db\<lparr>providers := a\<rparr>) = segment_file db"
  "segment_file (db\<lparr>chunk_assignments := b\<rparr>) = segment_file db"
  "segment_file (db\<lparr>repair_jobs := c\<rparr>) = segment_file db"
  "segment_file (db\<lparr>escrow_events := d\<rparr>) = segment_file db"
  "segment_file (db\<lparr>owner_escrow_events := e\<rparr>) = segment_file db"
  "segment_file (db\<lparr>audit_periods := f\<rparr>) = segment_file db"
  "segment_file (db\<lparr>audit_receipts := g\<rparr>) = segment_file db"
  "segment_file (db\<lparr>audit_receipt_nonces := h\<rparr>) = segment_file db"
  "segment_file (db\<lparr>files := k\<rparr>) = segment_file db"
  by (simp_all add: segment_file_def fun_eq_iff)

text \<open>\<^verbatim>\<open>UPDATE table SET ... WHERE cond\<close>.\<close>

definition update_where :: "('a \<Rightarrow> bool) \<Rightarrow> ('a \<Rightarrow> 'a) \<Rightarrow> 'a list \<Rightarrow> 'a list" where
  "update_where P f rows = map (\<lambda>r. if P r then f r else r) rows"

lemma length_update_where [simp]: "length (update_where P f rows) = length rows"
  by (simp add: update_where_def)

lemma in_update_where: "x \<in> set (update_where P f rows) \<longleftrightarrow> (\<exists>r\<in>set rows. x = (if P r then f r else r))"
  by (auto simp: update_where_def)

lemma update_where_Cons [simp]: "update_where P f (r # rows) = (if P r then f r else r) # update_where P f rows"
  by (simp add: update_where_def)

lemma update_where_Nil [simp]: "update_where P f [] = []"
  by (simp add: update_where_def)

lemma map_update_where:
  "(\<And>r. r \<in> set rows \<Longrightarrow> P r \<Longrightarrow> g (f r) = g r) \<Longrightarrow> map g (update_where P f rows) = map g rows"
  by (induction rows) auto

definition find_provider :: "database \<Rightarrow> uuid \<Rightarrow> provider_row option" where
  "find_provider db pid = List.find (\<lambda>r. provider_id r = pid) (providers db)"

lemma find_provider_update:
  assumes "find_provider db pid = Some r" and "provider_id (f r) = pid"
  shows "find_provider (db\<lparr>providers := update_where (\<lambda>r. provider_id r = pid) f (providers db)\<rparr>) pid = Some (f r)"
proof -
  have "List.find (\<lambda>r. provider_id r = pid) rows = Some r \<Longrightarrow>
      List.find (\<lambda>r. provider_id r = pid) (update_where (\<lambda>r. provider_id r = pid) f rows) = Some (f r)" for rows
    using assms(2) by (induction rows) (auto split: if_splits)
  with assms(1) show ?thesis by (simp add: find_provider_def)
qed

lemma find_provider_update_other:
  assumes "\<And>r. provider_id (f r) = provider_id r" and "q \<noteq> pid"
  shows "find_provider (db\<lparr>providers := update_where (\<lambda>r. provider_id r = pid) f (providers db)\<rparr>) q = find_provider db q"
proof -
  have "List.find (\<lambda>r. provider_id r = q) (update_where (\<lambda>r. provider_id r = pid) f rows) =
      List.find (\<lambda>r. provider_id r = q) rows" for rows
    using assms by (induction rows) auto
  then show ?thesis by (simp add: find_provider_def)
qed

lemma find_provider_id: "find_provider db pid = Some r \<Longrightarrow> provider_id r = pid"
  by (auto simp: find_provider_def find_Some_iff)

definition hex_digit :: "nat \<Rightarrow> char" where
  "hex_digit n = (if n < 10 then char_of (48 + n) else char_of (87 + n))"

text \<open>\<^verbatim>\<open>hex.EncodeToString\<close>.\<close>

definition hex_encode :: "byte list \<Rightarrow> string" where
  "hex_encode bs = concat (map (\<lambda>b. [hex_digit (unat b div 16), hex_digit (unat b mod 16)]) bs)"

lemma length_hex_encode: "length (hex_encode bs) = 2 * length bs"
  by (induction bs) (simp_all add: hex_encode_def)

text \<open>\<^verbatim>\<open>UUID.String\<close>: the hexadecimal digits in groups of 8, 4, 4, 4 and 12.\<close>

definition uuid_string :: "uuid \<Rightarrow> string" where
  "uuid_string u = hex_encode (slice 0 4 u) @ ''-'' @ hex_encode (slice 4 6 u) @ ''-'' @ hex_encode (slice 6 8 u) @
     ''-'' @ hex_encode (slice 8 10 u) @ ''-'' @ hex_encode (slice 10 16 u)"

lemma of_char_hex_digit: "n < 16 \<Longrightarrow> (of_char (hex_digit n) :: nat) = (if n < 10 then 48 + n else 87 + n)"
  by (simp add: hex_digit_def)

lemma hex_digit_inj: "m < 16 \<Longrightarrow> n < 16 \<Longrightarrow> hex_digit m = hex_digit n \<Longrightarrow> m = n"
proof -
  assume less: "m < 16" "n < 16" and "hex_digit m = hex_digit n"
  then have "(of_char (hex_digit m) :: nat) = of_char (hex_digit n)" by (simp only:)
  with less show "m = n"
    unfolding of_char_hex_digit [OF less(1)] of_char_hex_digit [OF less(2)] by (simp split: if_splits)
qed

lemma hex_encode_inj: "hex_encode a = hex_encode b \<Longrightarrow> a = b"
proof (induction a arbitrary: b)
  case Nil
  then show ?case by (cases b) (auto simp: hex_encode_def)
next
  case (Cons x a)
  then obtain y b' where b: "b = y # b'" by (cases b) (auto simp: hex_encode_def)
  have less: "unat z div 16 < 16" for z :: byte
  proof -
    have "unat z < 2 ^ LENGTH(8)" by (rule unsigned_less)
    then show ?thesis by simp
  qed
  from Cons.prems b have *: "hex_digit (unat x div 16) = hex_digit (unat y div 16)"
    "hex_digit (unat x mod 16) = hex_digit (unat y mod 16)" "hex_encode a = hex_encode b'"
    by (auto simp: hex_encode_def)
  have "unat x div 16 = unat y div 16" "unat x mod 16 = unat y mod 16"
    using hex_digit_inj [OF less less *(1)] hex_digit_inj [OF _ _ *(2)] by simp_all
  then have "unat x = unat y" by (metis div_mult_mod_eq)
  then have "x = y" by (rule unsigned_word_eqI)
  with Cons.IH [OF *(3)] b show ?case by simp
qed

end
