(* ===== verification/Ledger.thy ===== *)
theory Ledger
  imports Database
begin

text \<open>
  The escrow ledgers and the payment providers, \<^verbatim>\<open>internal/payment/ledger.go\<close>, \<^verbatim>\<open>mock.go\<close> and
  \<^verbatim>\<open>razorpay.go\<close>. The ledgers are append-only tables with a unique idempotency key and a positive
  amount. \<open>ok\<close> arguments say whether a statement or a gateway call succeeds; \<open>sha\<close> and \<open>hmac\<close> are
  the digest functions.
\<close>

datatype pay_error =
    ErrDuplicateIdempotencyKey
  | ErrCheckAmount
  | ErrDB
  | ErrInvalidWebhookSignature
  | ErrNoRow
  | ErrNoLinkedAccount
  | ErrNoVPA
  | ErrGateway
  | ErrGetScore

subsection \<open>Ledger inserts\<close>

definition InsertEscrowEvent :: "bool \<Rightarrow> escrow_event \<Rightarrow> database \<Rightarrow> pay_error option \<times> database" where
  "InsertEscrowEvent ok e db =
     (if \<not> ok then (Some ErrDB, db)
      else if ev_amount e \<le> 0 then (Some ErrCheckAmount, db)
      else if ev_key e \<in> ev_key ` set (escrow_events db) then (Some ErrDuplicateIdempotencyKey, db)
      else (None, db\<lparr>escrow_events := escrow_events db @ [e]\<rparr>))"

definition InsertOwnerEscrowEvent :: "bool \<Rightarrow> owner_event \<Rightarrow> database \<Rightarrow> pay_error option \<times> database" where
  "InsertOwnerEscrowEvent ok e db =
     (if \<not> ok then (Some ErrDB, db)
      else if oe_amount e \<le> 0 then (Some ErrCheckAmount, db)
      else if oe_key e \<in> oe_key ` set (owner_escrow_events db) then (Some ErrDuplicateIdempotencyKey, db)
      else (None, db\<lparr>owner_escrow_events := owner_escrow_events db @ [e]\<rparr>))"

text \<open>What a caller of an append-only ledger with idempotency keys relies on.\<close>

locale keyed_ledger =
  fixes insert :: "'e \<Rightarrow> 'd \<Rightarrow> pay_error option \<times> 'd"
    and events :: "'d \<Rightarrow> 'e list"
    and key :: "'e \<Rightarrow> string"
    and amount :: "'e \<Rightarrow> int"
  assumes insert_new: "0 < amount e \<Longrightarrow> key e \<notin> key ` set (events d) \<Longrightarrow>
            fst (insert e d) = None \<and> events (snd (insert e d)) = events d @ [e]"
    and insert_dup: "0 < amount e \<Longrightarrow> key e \<in> key ` set (events d) \<Longrightarrow>
            insert e d = (Some ErrDuplicateIdempotencyKey, d)"
    and insert_check: "amount e \<le> 0 \<Longrightarrow> insert e d = (Some ErrCheckAmount, d)"
begin

lemma insert_cases:
  "insert e d = (fst (insert e d), d) \<or> key e \<notin> key ` set (events d) \<and> events (snd (insert e d)) = events d @ [e]"
proof (cases "0 < amount e")
  case True
  with insert_new [of e d] insert_dup [of e d] show ?thesis by fastforce
next
  case False
  with insert_check [of e d] show ?thesis by simp
qed

lemma distinct_insert:
  "distinct (map key (events d)) \<Longrightarrow> distinct (map key (events (snd (insert e d))))"
  using insert_cases [of e d] by (auto dest: arg_cong [where f = snd])

definition insert_all :: "'e list \<Rightarrow> 'd \<Rightarrow> 'd" where
  "insert_all es d = fold (\<lambda>e d. snd (insert e d)) es d"

lemma insert_all_events:
  assumes "\<forall>e\<in>set es. 0 < amount e" and "distinct (map key es)"
  shows "events (insert_all es d) = events d @ filter (\<lambda>e. key e \<notin> key ` set (events d)) es"
  using assms
proof (induction es arbitrary: d)
  case Nil
  then show ?case by (simp add: insert_all_def)
next
  case (Cons e es)
  show ?case
  proof (cases "key e \<in> key ` set (events d)")
    case True
    with Cons insert_dup [of e d] show ?thesis by (simp add: insert_all_def)
  next
    case False
    with Cons.prems insert_new [of e d] have ev: "events (snd (insert e d)) = events d @ [e]" by simp
    have "filter (\<lambda>x. key x \<notin> key ` set (events d @ [e])) es = filter (\<lambda>x. key x \<notin> key ` set (events d)) es"
      using Cons.prems by (intro filter_cong) (auto, metis image_eqI)
    with Cons ev False show ?thesis by (simp add: insert_all_def)
  qed
qed

lemma insert_all_present:
  assumes "\<forall>e\<in>set es. 0 < amount e \<longrightarrow> key e \<in> key ` set (events d)"
  shows "insert_all es d = d"
  using assms
proof (induction es)
  case (Cons e es)
  have "snd (insert e d) = d"
  proof (cases "0 < amount e")
    case True
    with Cons insert_dup [of e d] show ?thesis by simp
  next
    case False
    with insert_check [of e d] show ?thesis by simp
  qed
  with Cons show ?case by (simp add: insert_all_def)
qed (simp add: insert_all_def)

end

interpretation pl: keyed_ledger "InsertEscrowEvent True" escrow_events ev_key ev_amount
  by unfold_locales (auto simp: InsertEscrowEvent_def)

interpretation ol: keyed_ledger "InsertOwnerEscrowEvent True" owner_escrow_events oe_key oe_amount
  by unfold_locales (auto simp: InsertOwnerEscrowEvent_def)

lemma InsertEscrowEvent_frame:
  "\<exists>evs. snd (InsertEscrowEvent ok e db) = db\<lparr>escrow_events := evs\<rparr> \<and> set (escrow_events db) \<subseteq> set evs"
  by (cases db) (auto simp: InsertEscrowEvent_def)

lemma InsertOwnerEscrowEvent_escrow [simp]:
  "escrow_events (snd (InsertOwnerEscrowEvent ok e db)) = escrow_events db"
  by (simp add: InsertOwnerEscrowEvent_def)

subsection \<open>Balances\<close>

definition signed_amount :: "escrow_event \<Rightarrow> int" where
  "signed_amount e =
     (case ev_type e of
        EscrowDeposit \<Rightarrow> ev_amount e | EscrowReversal \<Rightarrow> ev_amount e
      | EscrowRelease \<Rightarrow> - ev_amount e | EscrowSeizure \<Rightarrow> - ev_amount e)"

definition ledger_balance :: "database \<Rightarrow> uuid \<Rightarrow> int" where
  "ledger_balance db pid = (\<Sum>e\<leftarrow>filter (\<lambda>e. ev_provider e = pid) (escrow_events db). signed_amount e)"

text \<open>\<^verbatim>\<open>REFRESH MATERIALIZED VIEW mv_provider_escrow_balance\<close>.\<close>

definition refresh_balances :: "database \<Rightarrow> database" where
  "refresh_balances db = db\<lparr>mv_provider_escrow_balance :=
     (\<lambda>pid. if pid \<in> ev_provider ` set (escrow_events db) then Some (ledger_balance db pid) else None)\<rparr>"

definition providerBalance :: "bool \<Rightarrow> database \<Rightarrow> uuid \<Rightarrow> pay_error + int" where
  "providerBalance ok db providerID =
     (if \<not> ok then Inl ErrDB
      else case mv_provider_escrow_balance db providerID of
        None \<Rightarrow> Inr 0
      | Some balance \<Rightarrow> Inr (if balance < 0 then 0 else balance))"

subsection \<open>Idempotency keys\<close>

definition text_bytes :: "string \<Rightarrow> byte list" where
  "text_bytes s = map (\<lambda>c. word_of_nat (of_char c)) s"

definition mockDepositIdempotencyKey :: "hash \<Rightarrow> uuid \<Rightarrow> uuid \<Rightarrow> string" where
  "mockDepositIdempotencyKey sha ownerID contractID =
     hex_encode (sha (text_bytes ''mock-deposit'' @ ownerID @ contractID))"

definition depositIdempotencyKey :: "hash \<Rightarrow> uuid \<Rightarrow> string \<Rightarrow> string" where
  "depositIdempotencyKey sha ownerID paymentID =
     hex_encode (sha (text_bytes ''deposit'' @ ownerID @ text_bytes paymentID))"

definition reversalIdempotencyKey :: "hash \<Rightarrow> string \<Rightarrow> string" where
  "reversalIdempotencyKey sha originalIdempotencyKey =
     hex_encode (sha (text_bytes ''reversal'' @ text_bytes originalIdempotencyKey))"

definition withdrawalReversalIdempotencyKey :: "hash \<Rightarrow> string \<Rightarrow> string" where
  "withdrawalReversalIdempotencyKey sha originalIdempotencyKey =
     hex_encode (sha (text_bytes ''withdrawal-reversal'' @ text_bytes originalIdempotencyKey))"

definition ReleaseIdempotencyKey :: "hash \<Rightarrow> uuid \<Rightarrow> uuid \<Rightarrow> string" where
  "ReleaseIdempotencyKey sha providerID auditPeriodID = hex_encode (sha (providerID @ auditPeriodID))"

subsection \<open>The mock provider\<close>

text \<open>A duplicate key is success: the event is already recorded.\<close>

definition dup_ok :: "pay_error option \<times> 'd \<Rightarrow> pay_error option \<times> 'd" where
  "dup_ok r = (if fst r = Some ErrDuplicateIdempotencyKey then (None, snd r) else r)"

definition mock_InitiateEscrow ::
  "hash \<Rightarrow> bool \<Rightarrow> uuid \<Rightarrow> int \<Rightarrow> uuid \<Rightarrow> database \<Rightarrow> (pay_error + string \<times> string) \<times> database" where
  "mock_InitiateEscrow sha ok ownerID amountPaise contractID db =
     (let vpa = ''mock.'' @ take 8 (uuid_string ownerID) @ ''@mockbank'';
          qrURL = ''https://mock.vyomanaut.local/qr/'' @ uuid_string contractID;
          idempotencyKey = mockDepositIdempotencyKey sha ownerID contractID;
          (err, db') = InsertOwnerEscrowEvent ok
             \<lparr>oe_owner = ownerID, oe_type = OwnerDeposit, oe_amount = amountPaise, oe_file = None, oe_key = idempotencyKey\<rparr> db
      in case err of
           None \<Rightarrow> (Inr (vpa, qrURL), db')
         | Some ErrDuplicateIdempotencyKey \<Rightarrow> (Inr (vpa, qrURL), db')
         | Some e \<Rightarrow> (Inl e, db'))"

definition mock_ReleaseEscrow ::
  "bool \<Rightarrow> uuid \<Rightarrow> int \<Rightarrow> uuid \<Rightarrow> string \<Rightarrow> database \<Rightarrow> pay_error option \<times> database" where
  "mock_ReleaseEscrow ok providerID amountPaise auditPeriodID idempotencyKey db =
     dup_ok (InsertEscrowEvent ok \<lparr>ev_provider = providerID, ev_type = EscrowRelease, ev_amount = amountPaise,
               ev_period = Some auditPeriodID, ev_key = idempotencyKey\<rparr> db)"

definition mock_Penalise ::
  "bool \<Rightarrow> uuid \<Rightarrow> int \<Rightarrow> string \<Rightarrow> database \<Rightarrow> pay_error option \<times> database" where
  "mock_Penalise ok providerID amountPaise idempotencyKey db =
     (if amountPaise \<le> 0 then (None, db)
      else dup_ok (InsertEscrowEvent ok \<lparr>ev_provider = providerID, ev_type = EscrowSeizure, ev_amount = amountPaise,
               ev_period = None, ev_key = idempotencyKey\<rparr> db))"

definition payoutIDKeyPrefixLen :: nat where "payoutIDKeyPrefixLen = 16"

definition mock_WithdrawOwnerEscrow ::
  "bool \<Rightarrow> uuid \<Rightarrow> int \<Rightarrow> string \<Rightarrow> database \<Rightarrow> (pay_error + string) \<times> database" where
  "mock_WithdrawOwnerEscrow ok ownerID amountPaise idempotencyKey db =
     (let prefixLen = min payoutIDKeyPrefixLen (length idempotencyKey);
          payoutID = ''mock-payout-'' @ take prefixLen idempotencyKey;
          (err, db') = dup_ok (InsertOwnerEscrowEvent ok
             \<lparr>oe_owner = ownerID, oe_type = OwnerWithdrawal, oe_amount = amountPaise, oe_file = None, oe_key = idempotencyKey\<rparr> db)
      in case err of None \<Rightarrow> (Inr payoutID, db') | Some e \<Rightarrow> (Inl e, db'))"

definition mock_GetBalance :: "bool \<Rightarrow> database \<Rightarrow> uuid \<Rightarrow> pay_error + int" where
  "mock_GetBalance ok db providerID = providerBalance ok db providerID"

subsection \<open>The Razorpay provider\<close>

text \<open>
  The gateway client is outside the repository: \<open>transfer\<close> and \<open>payout\<close> are its answers. Both calls
  happen before the ledger write.
\<close>

definition providerLinkedAccountID :: "bool \<Rightarrow> database \<Rightarrow> uuid \<Rightarrow> pay_error + string" where
  "providerLinkedAccountID ok db providerID =
     (if \<not> ok then Inl ErrDB
      else case find_provider db providerID of
        None \<Rightarrow> Inl ErrNoRow
      | Some r \<Rightarrow> (case linked_account r of None \<Rightarrow> Inl ErrNoLinkedAccount | Some a \<Rightarrow> Inr a))"

definition ownerUPIHandle :: "bool \<Rightarrow> database \<Rightarrow> uuid \<Rightarrow> pay_error + string" where
  "ownerUPIHandle ok db ownerID =
     (if \<not> ok then Inl ErrDB
      else case owner_vpa db ownerID of
        None \<Rightarrow> Inl ErrNoRow
      | Some v \<Rightarrow> (case v of None \<Rightarrow> Inl ErrNoVPA | Some vpa \<Rightarrow> Inr vpa))"

text \<open>Creating a virtual account (the gateway's answer \<open>create\<close>) moves no money.\<close>

definition razorpay_InitiateEscrow ::
  "(uuid \<Rightarrow> int \<Rightarrow> uuid \<Rightarrow> (string \<times> string) option) \<Rightarrow> uuid \<Rightarrow> int \<Rightarrow> uuid \<Rightarrow> database \<Rightarrow>
     (pay_error + string \<times> string) \<times> database" where
  "razorpay_InitiateEscrow create ownerID amountPaise contractID db =
     (case create ownerID amountPaise contractID of
        None \<Rightarrow> (Inl ErrGateway, db)
      | Some (vpa, qrURL) \<Rightarrow> (Inr (vpa, qrURL), db))"

definition razorpay_GetBalance :: "bool \<Rightarrow> database \<Rightarrow> uuid \<Rightarrow> pay_error + int" where
  "razorpay_GetBalance ok db providerID = providerBalance ok db providerID"

definition razorpay_ReleaseEscrow ::
  "bool \<Rightarrow> bool \<Rightarrow> (string \<Rightarrow> int \<Rightarrow> string \<Rightarrow> bool) \<Rightarrow> uuid \<Rightarrow> int \<Rightarrow> uuid \<Rightarrow> string \<Rightarrow> database \<Rightarrow>
     pay_error option \<times> database" where
  "razorpay_ReleaseEscrow okq oki transfer providerID amountPaise auditPeriodID idempotencyKey db =
     (case providerLinkedAccountID okq db providerID of
        Inl e \<Rightarrow> (Some e, db)
      | Inr linkedAccountID \<Rightarrow>
          if \<not> transfer linkedAccountID amountPaise idempotencyKey then (Some ErrGateway, db)
          else dup_ok (InsertEscrowEvent oki \<lparr>ev_provider = providerID, ev_type = EscrowRelease,
                 ev_amount = amountPaise, ev_period = Some auditPeriodID, ev_key = idempotencyKey\<rparr> db))"

definition razorpay_Penalise ::
  "bool \<Rightarrow> uuid \<Rightarrow> int \<Rightarrow> string \<Rightarrow> database \<Rightarrow> pay_error option \<times> database" where
  "razorpay_Penalise ok providerID amountPaise idempotencyKey db =
     (if amountPaise \<le> 0 then (None, db)
      else dup_ok (InsertEscrowEvent ok \<lparr>ev_provider = providerID, ev_type = EscrowSeizure, ev_amount = amountPaise,
               ev_period = None, ev_key = idempotencyKey\<rparr> db))"

definition razorpay_WithdrawOwnerEscrow ::
  "bool \<Rightarrow> bool \<Rightarrow> (string \<Rightarrow> int \<Rightarrow> string \<Rightarrow> string option) \<Rightarrow> uuid \<Rightarrow> int \<Rightarrow> string \<Rightarrow> database \<Rightarrow>
     (pay_error + string) \<times> database" where
  "razorpay_WithdrawOwnerEscrow okq oki payout ownerID amountPaise idempotencyKey db =
     (case ownerUPIHandle okq db ownerID of
        Inl e \<Rightarrow> (Inl e, db)
      | Inr upiHandle \<Rightarrow>
          (case payout upiHandle amountPaise idempotencyKey of
             None \<Rightarrow> (Inl ErrGateway, db)
           | Some payoutID \<Rightarrow>
               (case dup_ok (InsertOwnerEscrowEvent oki \<lparr>oe_owner = ownerID, oe_type = OwnerWithdrawal,
                       oe_amount = amountPaise, oe_file = None, oe_key = idempotencyKey\<rparr> db) of
                  (None, db') \<Rightarrow> (Inr payoutID, db')
                | (Some e, db') \<Rightarrow> (Inl e, db'))))"

subsection \<open>Webhooks\<close>

definition verifyRazorpaySignature :: "(byte list \<Rightarrow> byte list \<Rightarrow> byte list) \<Rightarrow> byte list \<Rightarrow> string \<Rightarrow> byte list \<Rightarrow> bool" where
  "verifyRazorpaySignature hmac rawBody signature secret \<longleftrightarrow> hex_encode (hmac secret rawBody) = signature"

record DepositWebhookPayload =
  PaymentID :: string
  VPA :: string
  DepositAmount :: int

record PayoutReversedWebhookPayload =
  ReversedAmount :: int
  ReferenceID :: string

record AccountCreatedWebhookPayload =
  AccountID :: string
  AccountProviderID :: uuid

text \<open>The owner with a given virtual address; \<open>owners\<close> lists the owner identifiers.\<close>

definition HandleDepositCaptured ::
  "hash \<Rightarrow> (byte list \<Rightarrow> byte list \<Rightarrow> byte list) \<Rightarrow> bool \<Rightarrow> bool \<Rightarrow> uuid list \<Rightarrow> byte list \<Rightarrow> byte list \<Rightarrow> string \<Rightarrow>
     DepositWebhookPayload \<Rightarrow> database \<Rightarrow> pay_error option \<times> database" where
  "HandleDepositCaptured sha hmac okq oki owners webhookSecret rawBody signature payload db =
     (if \<not> verifyRazorpaySignature hmac rawBody signature webhookSecret then (Some ErrInvalidWebhookSignature, db)
      else if \<not> okq then (Some ErrDB, db)
      else case List.find (\<lambda>ow. owner_vpa db ow = Some (Some (VPA payload))) owners of
        None \<Rightarrow> (Some ErrNoRow, db)
      | Some ownerID \<Rightarrow>
          dup_ok (InsertOwnerEscrowEvent oki \<lparr>oe_owner = ownerID, oe_type = OwnerDeposit,
            oe_amount = DepositAmount payload, oe_file = None,
            oe_key = depositIdempotencyKey sha ownerID (PaymentID payload)\<rparr> db))"

definition lookupOriginalRelease :: "database \<Rightarrow> string \<Rightarrow> escrow_event option" where
  "lookupOriginalRelease db referenceID =
     List.find (\<lambda>e. ev_key e = referenceID \<and> ev_type e = EscrowRelease) (escrow_events db)"

definition lookupOriginalWithdrawal :: "database \<Rightarrow> string \<Rightarrow> owner_event option" where
  "lookupOriginalWithdrawal db referenceID =
     List.find (\<lambda>e. oe_key e = referenceID \<and> oe_type e = OwnerWithdrawal) (owner_escrow_events db)"

definition HandlePayoutReversed ::
  "hash \<Rightarrow> (byte list \<Rightarrow> byte list \<Rightarrow> byte list) \<Rightarrow> bool \<Rightarrow> bool \<Rightarrow> bool \<Rightarrow> byte list \<Rightarrow> byte list \<Rightarrow> string \<Rightarrow>
     PayoutReversedWebhookPayload \<Rightarrow> database \<Rightarrow> pay_error option \<times> database" where
  "HandlePayoutReversed sha hmac okr okw oki webhookSecret rawBody signature payload db =
     (if \<not> verifyRazorpaySignature hmac rawBody signature webhookSecret then (Some ErrInvalidWebhookSignature, db)
      else if \<not> okr then (Some ErrDB, db)
      else case lookupOriginalRelease db (ReferenceID payload) of
        Some orig \<Rightarrow>
          dup_ok (InsertEscrowEvent oki \<lparr>ev_provider = ev_provider orig, ev_type = EscrowReversal,
            ev_amount = ReversedAmount payload, ev_period = ev_period orig,
            ev_key = reversalIdempotencyKey sha (ReferenceID payload)\<rparr> db)
      | None \<Rightarrow>
          if \<not> okw then (Some ErrDB, db)
          else case lookupOriginalWithdrawal db (ReferenceID payload) of
            Some orig \<Rightarrow>
              dup_ok (InsertOwnerEscrowEvent oki \<lparr>oe_owner = oe_owner orig, oe_type = OwnerDeposit,
                oe_amount = ReversedAmount payload, oe_file = None,
                oe_key = withdrawalReversalIdempotencyKey sha (ReferenceID payload)\<rparr> db)
          | None \<Rightarrow> (None, db))"

definition HandleAccountCreated ::
  "(byte list \<Rightarrow> byte list \<Rightarrow> byte list) \<Rightarrow> bool \<Rightarrow> time \<Rightarrow> NetworkProfile \<Rightarrow> byte list \<Rightarrow> byte list \<Rightarrow> string \<Rightarrow>
     AccountCreatedWebhookPayload \<Rightarrow> database \<Rightarrow> pay_error option \<times> database" where
  "HandleAccountCreated hmac ok now profile webhookSecret rawBody signature payload db =
     (if \<not> verifyRazorpaySignature hmac rawBody signature webhookSecret then (Some ErrInvalidWebhookSignature, db)
      else if \<not> ok then (Some ErrDB, db)
      else (None, db\<lparr>providers := update_where
              (\<lambda>r. provider_id r = AccountProviderID payload \<and> linked_account r = None)
              (\<lambda>r. r\<lparr>linked_account := Some (AccountID payload),
                     cooling_until := Some (now + RazorpayCoolingPeriod profile)\<rparr>) (providers db)\<rparr>))"

subsection \<open>The PaymentProvider interface\<close>

text \<open>
  What the release computation relies on about \<^verbatim>\<open>PaymentProvider.ReleaseEscrow\<close>: an error leaves the
  ledger alone, a key that is already in the ledger is not paid again, and a new key adds exactly
  one release event.
\<close>

locale escrow_provider =
  fixes release :: "uuid \<Rightarrow> int \<Rightarrow> uuid \<Rightarrow> string \<Rightarrow> database \<Rightarrow> pay_error option \<times> database"
  assumes release_error: "fst (release p a q k db) = Some e \<Longrightarrow> snd (release p a q k db) = db"
    and release_known: "fst (release p a q k db) = None \<Longrightarrow> k \<in> ev_key ` set (escrow_events db) \<Longrightarrow>
           snd (release p a q k db) = db"
    and release_new: "fst (release p a q k db) = None \<Longrightarrow> k \<notin> ev_key ` set (escrow_events db) \<Longrightarrow>
           0 < a \<and> snd (release p a q k db) = db\<lparr>escrow_events := escrow_events db @
             [\<lparr>ev_provider = p, ev_type = EscrowRelease, ev_amount = a, ev_period = Some q, ev_key = k\<rparr>]\<rparr>"
begin

lemma release_cases:
  obtains "snd (release p a q k db) = db"
  | "fst (release p a q k db) = None" "0 < a" "k \<notin> ev_key ` set (escrow_events db)"
    "snd (release p a q k db) = db\<lparr>escrow_events := escrow_events db @
       [\<lparr>ev_provider = p, ev_type = EscrowRelease, ev_amount = a, ev_period = Some q, ev_key = k\<rparr>]\<rparr>"
  using release_error [of p a q k db] release_known [of p a q k db] release_new [of p a q k db]
  by (cases "fst (release p a q k db)") blast+

lemma release_paid:
  assumes "fst (release p a q k db) = None"
  shows "k \<in> ev_key ` set (escrow_events (snd (release p a q k db)))"
proof (cases "k \<in> ev_key ` set (escrow_events db)")
  case True
  with release_known [OF assms] show ?thesis by simp
next
  case False
  with release_new [OF assms] show ?thesis by simp
qed

lemma release_again:
  assumes "fst (release p a q k db) = None"
  shows "snd (release p' a' q' k (snd (release p a q k db))) = snd (release p a q k db)"
  using release_paid [OF assms] release_error [of p' a' q' k] release_known [of p' a' q' k]
  by (metis option.exhaust)

lemma release_tables:
  "providers (snd (release p a q k db)) = providers db"
  "audit_periods (snd (release p a q k db)) = audit_periods db"
  "mv_provider_escrow_balance (snd (release p a q k db)) = mv_provider_escrow_balance db"
  "mv_provider_scores (snd (release p a q k db)) = mv_provider_scores db"
  by (rule release_cases [of p a q k db]; simp)+

end

lemma dup_ok_insert:
  "fst (dup_ok (InsertEscrowEvent ok e db)) =
     (if \<not> ok then Some ErrDB else if ev_amount e \<le> 0 then Some ErrCheckAmount else None)"
  "snd (dup_ok (InsertEscrowEvent ok e db)) =
     (if ok \<and> 0 < ev_amount e \<and> ev_key e \<notin> ev_key ` set (escrow_events db)
      then db\<lparr>escrow_events := escrow_events db @ [e]\<rparr> else db)"
  by (auto simp: dup_ok_def InsertEscrowEvent_def)

interpretation mock: escrow_provider "mock_ReleaseEscrow ok" for ok
  by unfold_locales (auto simp: mock_ReleaseEscrow_def dup_ok_insert split: if_splits)

interpretation razorpay: escrow_provider "razorpay_ReleaseEscrow okq oki transfer" for okq oki transfer
  by unfold_locales
    (auto simp: razorpay_ReleaseEscrow_def dup_ok_insert split: sum.splits if_splits)

text \<open>
  What the departure detector relies on about \<^verbatim>\<open>PaymentProvider.Penalise\<close>, for a positive amount.
\<close>

locale seizing_provider =
  fixes penalise :: "uuid \<Rightarrow> int \<Rightarrow> string \<Rightarrow> database \<Rightarrow> pay_error option \<times> database"
  assumes penalise_error: "fst (penalise p a k db) = Some e \<Longrightarrow> snd (penalise p a k db) = db"
    and penalise_known: "fst (penalise p a k db) = None \<Longrightarrow> k \<in> ev_key ` set (escrow_events db) \<Longrightarrow>
           snd (penalise p a k db) = db"
    and penalise_new: "fst (penalise p a k db) = None \<Longrightarrow> k \<notin> ev_key ` set (escrow_events db) \<Longrightarrow> 0 < a \<Longrightarrow>
           snd (penalise p a k db) = db\<lparr>escrow_events := escrow_events db @
             [\<lparr>ev_provider = p, ev_type = EscrowSeizure, ev_amount = a, ev_period = None, ev_key = k\<rparr>]\<rparr>"
begin

lemma penalise_cases:
  assumes "0 < a"
  obtains "snd (penalise p a k db) = db"
  | "fst (penalise p a k db) = None" "k \<notin> ev_key ` set (escrow_events db)"
    "snd (penalise p a k db) = db\<lparr>escrow_events := escrow_events db @
       [\<lparr>ev_provider = p, ev_type = EscrowSeizure, ev_amount = a, ev_period = None, ev_key = k\<rparr>]\<rparr>"
  using penalise_error [of p a k db] penalise_known [of p a k db] penalise_new [of p a k db] assms
  by (cases "fst (penalise p a k db)") blast+

lemma penalise_frame:
  assumes "0 < a"
  shows "\<exists>evs. snd (penalise p a k db) = db\<lparr>escrow_events := escrow_events db @ evs\<rparr> \<and> (\<forall>e\<in>set evs. ev_provider e = p)"
proof (rule penalise_cases [OF assms, of p k db])
  assume "snd (penalise p a k db) = db"
  then have "snd (penalise p a k db) = db\<lparr>escrow_events := escrow_events db @ []\<rparr>" by simp
  then show ?thesis by (metis empty_iff empty_set)
qed auto

end

interpretation mock_seizure: seizing_provider "mock_Penalise ok" for ok
  by unfold_locales (auto simp: mock_Penalise_def dup_ok_insert split: if_splits)

interpretation razorpay_seizure: seizing_provider "razorpay_Penalise ok" for ok
  by unfold_locales (auto simp: razorpay_Penalise_def dup_ok_insert split: if_splits)

subsection \<open>Lemmas on balances\<close>

lemma ledger_balance_snoc:
  "ledger_balance (db\<lparr>escrow_events := escrow_events db @ [e]\<rparr>) pid =
     ledger_balance db pid + (if ev_provider e = pid then signed_amount e else 0)"
  by (simp add: ledger_balance_def)

lemma find_snoc_old: "List.find P xs = Some x \<Longrightarrow> List.find P (xs @ ys) = Some x"
  by (induction xs) (auto split: if_splits)

lemma find_snoc_new: "P x \<Longrightarrow> (\<And>y. y \<in> set xs \<Longrightarrow> \<not> P y) \<Longrightarrow> List.find P (xs @ [x]) = Some x"
  by (induction xs) auto

lemma dup_ok_owner_insert:
  "fst (dup_ok (InsertOwnerEscrowEvent ok e db)) =
     (if \<not> ok then Some ErrDB else if oe_amount e \<le> 0 then Some ErrCheckAmount else None)"
  "snd (dup_ok (InsertOwnerEscrowEvent ok e db)) =
     (if ok \<and> 0 < oe_amount e \<and> oe_key e \<notin> oe_key ` set (owner_escrow_events db)
      then db\<lparr>owner_escrow_events := owner_escrow_events db @ [e]\<rparr> else db)"
  by (auto simp: dup_ok_def InsertOwnerEscrowEvent_def)

subsection \<open>Properties\<close>

text \<open>
  C12: a deposit webhook takes effect once. The first delivery with a valid signature records
  exactly one deposit for the owner of the address, every redelivery succeeds without a
  further effect, and a bad signature changes nothing.
\<close>

theorem deposit_webhook_once:
  assumes "List.find (\<lambda>ow. owner_vpa db ow = Some (Some (VPA payload))) owners = Some ow"
    and "0 < DepositAmount payload"
    and "depositIdempotencyKey sha ow (PaymentID payload) \<notin> oe_key ` set (owner_escrow_events db)"
  shows "let handle = HandleDepositCaptured sha hmac True True owners secret body sig payload in
         if sig = hex_encode (hmac secret body) then
           \<exists>db'. handle db = (None, db') \<and> handle db' = (None, db') \<and>
             owner_escrow_events db' = owner_escrow_events db @
               [\<lparr>oe_owner = ow, oe_type = OwnerDeposit, oe_amount = DepositAmount payload, oe_file = None,
                 oe_key = depositIdempotencyKey sha ow (PaymentID payload)\<rparr>]
         else handle db = (Some ErrInvalidWebhookSignature, db)"
  using assms
  by (auto simp: HandleDepositCaptured_def verifyRazorpaySignature_def InsertOwnerEscrowEvent_def dup_ok_def Let_def)

theorem deposit_webhook_once_witness:
  "\<exists>db'. HandleDepositCaptured (\<lambda>x. x) (\<lambda>k m. k @ m) True True [replicate 16 3] [1] [2] (hex_encode [1, 2])
           \<lparr>PaymentID = ''pay_1'', VPA = ''a@b'', DepositAmount = 500\<rparr>
           (empty_db\<lparr>owner_vpa := [replicate 16 3 \<mapsto> Some ''a@b'']\<rparr>) = (None, db') \<and>
         map oe_amount (owner_escrow_events db') = [500]"
  using deposit_webhook_once [of "empty_db\<lparr>owner_vpa := [replicate 16 3 \<mapsto> Some ''a@b'']\<rparr>"
      "\<lparr>PaymentID = ''pay_1'', VPA = ''a@b'', DepositAmount = 500\<rparr>" "[replicate 16 3]" "replicate 16 3"
      "\<lambda>x. x" "\<lambda>k m. k @ m" "[1]" "[2]" "hex_encode [1, 2]"]
  by (auto simp: empty_db_def Let_def)

text \<open>
  a reversed payout restores the provider's balance: after a release and the webhook that
  reports its reversal, the ledger balance of every provider is what it was before the release,
  and redelivering the webhook changes nothing.
\<close>

theorem payout_reversal_restores:
  assumes "0 < a" and "k \<notin> ev_key ` set (escrow_events db)"
    and "reversalIdempotencyKey sha k \<notin> insert k (ev_key ` set (escrow_events db))"
    and "sig = hex_encode (hmac secret body)"
  shows "let db1 = snd (mock_ReleaseEscrow True p a q k db);
             handle = HandlePayoutReversed sha hmac True True True secret body sig \<lparr>ReversedAmount = a, ReferenceID = k\<rparr>;
             db2 = snd (handle db1)
         in ledger_balance db1 p = ledger_balance db p - a \<and>
            fst (handle db1) = None \<and> (\<forall>r. ledger_balance db2 r = ledger_balance db r) \<and>
            handle db2 = (None, db2)"
proof -
  define e where "e = \<lparr>ev_provider = p, ev_type = EscrowRelease, ev_amount = a, ev_period = Some q, ev_key = k\<rparr>"
  define v where "v = \<lparr>ev_provider = p, ev_type = EscrowReversal, ev_amount = a, ev_period = Some q,
    ev_key = reversalIdempotencyKey sha k\<rparr>"
  let ?db1 = "db\<lparr>escrow_events := escrow_events db @ [e]\<rparr>"
  let ?db2 = "?db1\<lparr>escrow_events := escrow_events ?db1 @ [v]\<rparr>"
  let ?handle = "HandlePayoutReversed sha hmac True True True secret body sig \<lparr>ReversedAmount = a, ReferenceID = k\<rparr>"
  have db1: "snd (mock_ReleaseEscrow True p a q k db) = ?db1"
    using assms(1,2) by (simp add: mock_ReleaseEscrow_def dup_ok_insert e_def)
  have find1: "lookupOriginalRelease ?db1 k = Some e"
    unfolding lookupOriginalRelease_def using assms(2) by (simp add: e_def) (rule find_snoc_new, auto)
  then have find2: "lookupOriginalRelease ?db2 k = Some e"
    unfolding lookupOriginalRelease_def by (simp del: append_assoc) (erule find_snoc_old)
  have h1: "?handle ?db1 = (None, ?db2)"
    using assms find1 by (auto simp: HandlePayoutReversed_def verifyRazorpaySignature_def dup_ok_def
        InsertEscrowEvent_def e_def v_def)
  have h2: "?handle ?db2 = (None, ?db2)"
    using assms find2 by (auto simp: HandlePayoutReversed_def verifyRazorpaySignature_def dup_ok_def
        InsertEscrowEvent_def e_def v_def)
  have "ledger_balance ?db1 p = ledger_balance db p - a"
    using ledger_balance_snoc [of db e p] by (simp add: e_def signed_amount_def)
  moreover have "ledger_balance ?db2 r = ledger_balance db r" for r
    using ledger_balance_snoc [of ?db1 v r] ledger_balance_snoc [of db e r]
    by (simp add: e_def v_def signed_amount_def)
  ultimately show ?thesis by (simp only: Let_def db1 h1 h2 fst_conv snd_conv simp_thms)
qed

theorem payout_reversal_restores_witness:
  "let db1 = snd (mock_ReleaseEscrow True (replicate 16 1) 700 (replicate 16 2) ''k'' empty_db);
       handle = HandlePayoutReversed (\<lambda>x. x) (\<lambda>k m. k @ m) True True True [1] [2] (hex_encode [1, 2])
                  \<lparr>ReversedAmount = 700, ReferenceID = ''k''\<rparr>;
       db2 = snd (handle db1)
   in ledger_balance db1 (replicate 16 1) = ledger_balance empty_db (replicate 16 1) - 700 \<and>
      fst (handle db1) = None \<and> (\<forall>r. ledger_balance db2 r = ledger_balance empty_db r) \<and> handle db2 = (None, db2)"
proof (rule payout_reversal_restores)
  have "length (reversalIdempotencyKey (\<lambda>x. x) ''k'') = 18"
    by (simp add: reversalIdempotencyKey_def hex_encode_def text_bytes_def)
  then show "reversalIdempotencyKey (\<lambda>x. x) ''k'' \<notin> insert ''k'' (ev_key ` set (escrow_events empty_db))"
    by (auto simp: empty_db_def)
qed (simp_all add: empty_db_def)

end
