(* ===== verification/Charge.thy ===== *)
theory Charge
  imports Ledger "HOL-Library.Multiset"
begin

text \<open>
  The monthly charge engine, \<^verbatim>\<open>internal/payment/charge.go\<close>: what a file costs its owner, how the
  amount is divided among the holders of its shards, and the ledger entries a run makes. Amounts
  are 64-bit integers. Maps are association lists; Go leaves the order of a range over a map
  open, the model ranges in ascending provider order. \<open>ok\<close> says which SQL statements succeed.
\<close>

definition bytesPerGB :: int where "bytesPerGB = 1024 * 1024 * 1024"
definition roundingHalfBytes :: int where "roundingHalfBytes = bytesPerGB sdiv 2"

definition fileMonthlyCostPaise :: "int \<Rightarrow> NetworkProfile \<Rightarrow> int" where
  "fileMonthlyCostPaise sizeBytes profile =
     i64 (i64 (sizeBytes * StorageRatePaisePerGBPerMonth profile) + roundingHalfBytes) sdiv bytesPerGB"

definition ChargeIdempotencyKey :: "hash \<Rightarrow> uuid \<Rightarrow> uuid \<Rightarrow> string \<Rightarrow> string" where
  "ChargeIdempotencyKey sha ownerID fileID billingPeriod =
     hex_encode (sha (ownerID @ fileID @ text_bytes billingPeriod))"

definition chargeDepositIdempotencyKey :: "hash \<Rightarrow> uuid \<Rightarrow> uuid \<Rightarrow> string \<Rightarrow> string" where
  "chargeDepositIdempotencyKey sha providerID fileID billingPeriod =
     hex_encode (sha (providerID @ fileID @ text_bytes billingPeriod))"

subsection \<open>Queries\<close>

definition chargeableFiles :: "database \<Rightarrow> file_row list" where
  "chargeableFiles db = filter (\<lambda>f. f_status f = F_ACTIVE) (files db)"

definition holds_shard_of :: "database \<Rightarrow> uuid \<Rightarrow> assignment_row \<Rightarrow> bool" where
  "holds_shard_of db fileID a \<longleftrightarrow>
     (\<exists>s. a_segment_id a = Some s \<and> segment_file db s = Some fileID) \<and>
     a_status a = A_ACTIVE \<and> \<not> is_vetting_chunk a"

definition shardHolderCounts :: "database \<Rightarrow> uuid \<Rightarrow> (uuid \<times> int) list" where
  "shardHolderCounts db fileID =
     (let holders = map a_provider_id (filter (holds_shard_of db fileID) (chunk_assignments db))
      in map (\<lambda>p. (p, int (count_list holders p))) (remdups holders))"

subsection \<open>Division among the holders\<close>

definition add_paise :: "uuid \<Rightarrow> (uuid \<times> int) list \<Rightarrow> (uuid \<times> int) list" where
  "add_paise p shares = map (\<lambda>(q, v). if q = p then (q, i64 (v + 1)) else (q, v)) shares"

text \<open>The result \<open>None\<close> is the run-time panic of an index outside \<open>remainders\<close>.\<close>

definition splitByLargestRemainder :: "int \<Rightarrow> (uuid \<times> int) list \<Rightarrow> (uuid \<times> int) list option" where
  "splitByLargestRemainder totalPaise counts =
     (let totalShards = fold (\<lambda>(_, c) t. i64 (t + c)) counts 0;
          providerIDs = sort_key uuid_string (map fst counts);
          count = (\<lambda>p. the (map_of counts p))
      in if totalShards = 0 then Some []
         else
           let shares = map (\<lambda>p. (p, i64 (totalPaise * count p) sdiv totalShards)) providerIDs;
               distributed = fold (\<lambda>(_, b) d. i64 (d + b)) shares 0;
               remainders = map (\<lambda>p. (p, i64 (totalPaise * count p) smod totalShards)) providerIDs;
               leftover = i64 (totalPaise - distributed);
               remainders = sort_key (\<lambda>(_, frac). - frac) remainders
           in fold (\<lambda>i r. case r of
                None \<Rightarrow> None
              | Some shares \<Rightarrow>
                  if i < length remainders then Some (add_paise (fst (remainders ! i)) shares) else None)
              [0..<nat leftover] (Some shares))"

subsection \<open>The run\<close>

datatype charge_stmt = QueryHolders uuid | InsertCharge uuid | InsertCredit uuid uuid

definition credit_event :: "hash \<Rightarrow> uuid \<Rightarrow> string \<Rightarrow> uuid \<Rightarrow> int \<Rightarrow> escrow_event" where
  "credit_event sha fileID billingPeriod providerID amount =
     \<lparr>ev_provider = providerID, ev_type = EscrowDeposit, ev_amount = amount, ev_period = None,
      ev_key = chargeDepositIdempotencyKey sha providerID fileID billingPeriod\<rparr>"

fun credit_loop ::
  "hash \<Rightarrow> (charge_stmt \<Rightarrow> bool) \<Rightarrow> uuid \<Rightarrow> string \<Rightarrow> (uuid \<times> int) list \<Rightarrow> database \<Rightarrow> pay_error list \<times> database" where
  "credit_loop sha ok fileID billingPeriod [] db = ([], db)"
| "credit_loop sha ok fileID billingPeriod ((providerID, amount) # shares) db =
     (if amount \<le> 0 then credit_loop sha ok fileID billingPeriod shares db
      else let (err, db') = InsertEscrowEvent (ok (InsertCredit fileID providerID))
                              (credit_event sha fileID billingPeriod providerID amount) db;
               (errs, db'') = credit_loop sha ok fileID billingPeriod shares db'
           in case err of
                None \<Rightarrow> (errs, db'')
              | Some ErrDuplicateIdempotencyKey \<Rightarrow> (errs, db'')
              | Some e \<Rightarrow> (e # errs, db''))"

definition charge_event :: "hash \<Rightarrow> file_row \<Rightarrow> string \<Rightarrow> int \<Rightarrow> owner_event" where
  "charge_event sha f billingPeriod cost =
     \<lparr>oe_owner = owner_id f, oe_type = OwnerCharge, oe_amount = cost, oe_file = Some (file_id f),
      oe_key = ChargeIdempotencyKey sha (owner_id f) (file_id f) billingPeriod\<rparr>"

definition computeChargeForFile ::
  "hash \<Rightarrow> (charge_stmt \<Rightarrow> bool) \<Rightarrow> NetworkProfile \<Rightarrow> file_row \<Rightarrow> string \<Rightarrow> database \<Rightarrow> pay_error list \<times> database" where
  "computeChargeForFile sha ok profile f billingPeriod db =
     (if \<not> ok (QueryHolders (file_id f)) then ([ErrDB], db)
      else
        let counts = shardHolderCounts db (file_id f);
            cost = fileMonthlyCostPaise (original_size_bytes f) profile
        in if length counts = 0 then ([], db)
           else if cost \<le> 0 then ([], db)
           else
             let (err, db') = InsertOwnerEscrowEvent (ok (InsertCharge (file_id f))) (charge_event sha f billingPeriod cost) db
             in if err \<noteq> None \<and> err \<noteq> Some ErrDuplicateIdempotencyKey then ([the err], db')
                else case splitByLargestRemainder cost counts of
                       None \<Rightarrow> ([ErrDB], db')
                     | Some shares \<Rightarrow> credit_loop sha ok (file_id f) billingPeriod shares db')"

fun charge_files ::
  "hash \<Rightarrow> (charge_stmt \<Rightarrow> bool) \<Rightarrow> NetworkProfile \<Rightarrow> string \<Rightarrow> file_row list \<Rightarrow> database \<Rightarrow> pay_error list \<times> database" where
  "charge_files sha ok profile billingPeriod [] db = ([], db)"
| "charge_files sha ok profile billingPeriod (f # fs) db =
     (let (errs, db') = computeChargeForFile sha ok profile f billingPeriod db;
          (errs', db'') = charge_files sha ok profile billingPeriod fs db'
      in (errs @ errs', db''))"

definition ComputeMonthlyCharges ::
  "hash \<Rightarrow> bool \<Rightarrow> (charge_stmt \<Rightarrow> bool) \<Rightarrow> NetworkProfile \<Rightarrow> string \<Rightarrow> database \<Rightarrow> pay_error list \<times> database" where
  "ComputeMonthlyCharges sha okq ok profile billingPeriod db =
     (if \<not> okq then ([ErrDB], db) else charge_files sha ok profile billingPeriod (chargeableFiles db) db)"

subsection \<open>Arithmetic without overflow\<close>

lemma fold_i64_sum:
  "0 \<le> a \<Longrightarrow> \<forall>x\<in>set xs. 0 \<le> snd x \<Longrightarrow> a + sum_list (map snd xs) < 2 ^ 63 \<Longrightarrow>
   fold (\<lambda>(_, c) t. i64 (t + c)) xs a = a + sum_list (map snd xs)"
proof (induction xs arbitrary: a)
  case (Cons x xs)
  have "0 \<le> sum_list (map snd xs)" using Cons.prems(2) by (intro sum_list_nonneg) auto
  moreover have "0 \<le> snd x" using Cons.prems(2) by simp
  ultimately have "i64 (a + snd x) = a + snd x" using Cons.prems by (intro i64_id) auto
  with Cons show ?case by (cases x) (simp add: add.assoc)
qed simp

lemma smod_nonneg: "0 \<le> a \<Longrightarrow> 0 < b \<Longrightarrow> a smod b = a mod b" for a b :: int
  by (cases "a = 0") (simp_all add: signed_modulo_int_def sdiv_nonneg minus_div_mult_eq_mod sgn_if)

lemma sum_list_div_mod:
  fixes S :: int
  assumes "0 < S"
  shows "S * sum_list (map (\<lambda>x. f x div S) xs) + sum_list (map (\<lambda>x. f x mod S) xs) = sum_list (map f xs)"
  by (induction xs) (simp_all add: algebra_simps)

lemma sum_list_mod_less:
  fixes S :: int
  assumes "0 < S" and "xs \<noteq> []"
  shows "sum_list (map (\<lambda>x. f x mod S) xs) < int (length xs) * S"
proof -
  have "sum_list (map (\<lambda>x. f x mod S) xs) \<le> int (length xs) * (S - 1)"
  proof (induction xs)
    case (Cons x xs)
    have "f x mod S \<le> S - 1" using pos_mod_bound [OF assms(1), of "f x"] by simp
    with Cons show ?case by (simp add: algebra_simps)
  qed simp
  also have "\<dots> < int (length xs) * S"
    using assms by (intro mult_strict_left_mono) auto
  finally show ?thesis .
qed

subsection \<open>Correctness of the division\<close>

lemma fold_option_take:
  "n \<le> length rs \<Longrightarrow>
   fold (\<lambda>i r. case r of None \<Rightarrow> None
     | Some sh \<Rightarrow> if i < length rs then Some (g (fst (rs ! i)) sh) else None) [0..<n] (Some sh) =
   Some (fold g (map fst (take n rs)) sh)"
proof (induction n)
  case (Suc n)
  then show ?case by (simp add: take_Suc_conv_app_nth)
qed simp

lemma map_fst_add_paise [simp]: "map fst (add_paise p sh) = map fst sh"
  by (induction sh) (auto simp: add_paise_def)

text \<open>Adding one paisa to each of a set of distinct holders.\<close>

lemma fold_add_paise:
  assumes "distinct (map fst sh)" and "distinct ps" and "set ps \<subseteq> fst ` set sh"
    and "\<forall>(p, v)\<in>set sh. 0 \<le> v \<and> v < 2 ^ 63 - 1"
  shows "fold add_paise ps sh = map (\<lambda>(p, v). (p, if p \<in> set ps then v + 1 else v)) sh"
  using assms
proof (induction ps rule: rev_induct)
  case Nil
  then show ?case by (simp add: case_prod_unfold map_idI)
next
  case (snoc x ps)
  then have IH: "fold add_paise ps sh = map (\<lambda>(p, v). (p, if p \<in> set ps then v + 1 else v)) sh" by simp
  have i: "i64 (v + 1) = v + 1" if "(p, v) \<in> set sh" for p v
    using snoc.prems(4) that by (intro i64_id) auto
  have "x \<notin> set ps" using snoc.prems(2) by simp
  then have "add_paise x (map (\<lambda>(p, v). (p, if p \<in> set ps then v + 1 else v)) sh) =
      map (\<lambda>(p, v). (p, if p \<in> set (ps @ [x]) then v + 1 else v)) sh"
    using i by (auto simp: add_paise_def)
  then show ?case by (simp only: fold_append fold_simps comp_apply id_apply IH)
qed

lemma sum_list_add_paise:
  assumes "distinct (map fst sh)" and "distinct ps" and "set ps \<subseteq> fst ` set sh"
  shows "sum_list (map snd (map (\<lambda>(p, v). (p, if p \<in> set ps then v + (1::int) else v)) sh)) =
         sum_list (map snd sh) + int (length ps)"
proof -
  have "sum_list (map snd (map (\<lambda>(p, v). (p, if p \<in> set ps then v + (1::int) else v)) sh)) =
      sum_list (map snd sh) + int (length (filter (\<lambda>x. fst x \<in> set ps) sh))" for ps
    by (induction sh) auto
  moreover have "length (filter (\<lambda>x. fst x \<in> set ps) sh) = length ps"
  proof -
    have "length (filter (\<lambda>x. fst x \<in> set ps) sh) = length (filter (\<lambda>p. p \<in> set ps) (map fst sh))"
      by (simp add: filter_map comp_def)
    also have "\<dots> = card (set (filter (\<lambda>p. p \<in> set ps) (map fst sh)))"
      using assms(1) by (simp only: distinct_card distinct_filter)
    also have "set (filter (\<lambda>p. p \<in> set ps) (map fst sh)) = set ps" using assms(3) by auto
    finally show ?thesis using assms(2) by (simp add: distinct_card)
  qed
  ultimately show ?thesis by simp
qed

definition fair_share :: "int \<Rightarrow> (uuid \<times> int) list \<Rightarrow> uuid \<Rightarrow> int" where
  "fair_share amt counts p = amt * the (map_of counts p) div sum_list (map snd counts)"

definition fraction :: "int \<Rightarrow> (uuid \<times> int) list \<Rightarrow> uuid \<Rightarrow> int" where
  "fraction amt counts p = amt * the (map_of counts p) mod sum_list (map snd counts)"

text \<open>
  The first entries of the remainders sorted in descending order: nobody outside has a larger
  remainder, and among equal remainders the earlier provider id comes first, because the sort is
  stable and its input is in ascending order.
\<close>

lemma largest_first:
  fixes r :: "uuid \<Rightarrow> int"
  assumes ids: "sorted (map k ids)" and rs: "rs = sort_key (\<lambda>(_, fr). - fr) (map (\<lambda>p. (p, r p)) ids)"
    and p: "p \<in> fst ` set (take n rs)" and q: "q \<in> set ids" "q \<notin> fst ` set (take n rs)"
  shows "r q \<le> r p \<and> (r q = r p \<longrightarrow> k p \<le> k q)"
proof -
  have set_rs: "set rs = (\<lambda>p. (p, r p)) ` set ids" by (simp add: rs)
  obtain x where x: "x \<in> set (take n rs)" "fst x = p" using p by blast
  moreover have "x \<in> set rs" using x(1) in_set_takeD by fast
  ultimately have P: "(p, r p) \<in> set (take n rs)" using set_rs by (cases x) auto
  have "(q, r q) \<in> set (take n rs @ drop n rs)" using q(1) set_rs by simp
  moreover have "(q, r q) \<notin> set (take n rs)" using q(2) by (metis fst_conv imageI)
  ultimately have Q: "(q, r q) \<in> set (drop n rs)" unfolding set_append by blast
  have "sorted (map (\<lambda>(_, fr). - fr) (take n rs @ drop n rs))" by (simp add: rs)
  with P Q have le: "- r p \<le> - r q"
    unfolding map_append sorted_append by fastforce
  have "k p \<le> k q" if eq: "r q = r p"
  proof -
    let ?P = "\<lambda>y. (\<lambda>(_, fr). - fr) y = - r p"
    have "filter ?P (take n rs) @ filter ?P (drop n rs) = filter ?P (map (\<lambda>p. (p, r p)) ids)"
      unfolding filter_append [symmetric] append_take_drop_id rs by (rule sort_key_stable)
    moreover have "sorted (map (k \<circ> fst) (filter ?P (map (\<lambda>p. (p, r p)) ids)))"
      using sorted_filter [OF ids] by (simp add: filter_map comp_def)
    ultimately have "sorted (map (k \<circ> fst) (filter ?P (take n rs)) @ map (k \<circ> fst) (filter ?P (drop n rs)))"
      by (simp flip: map_append)
    moreover have "k p \<in> set (map (k \<circ> fst) (filter ?P (take n rs)))" using P by force
    moreover have "k q \<in> set (map (k \<circ> fst) (filter ?P (drop n rs)))" using Q eq by force
    ultimately show ?thesis unfolding sorted_append by blast
  qed
  with le show ?thesis by simp
qed

lemma sum_list_mset_eq: "mset xs = mset ys \<Longrightarrow> sum_list (map f xs) = sum_list (map f ys)"
  for f :: "'a \<Rightarrow> int"
  by (metis mset_map sum_mset_sum_list)

lemma sum_list_counts:
  fixes counts :: "(uuid \<times> int) list"
  assumes "distinct (map fst counts)"
  shows "sum_list (map (\<lambda>p. the (map_of counts p)) (sort_key k (map fst counts))) = sum_list (map snd counts)"
proof -
  have "sum_list (map (\<lambda>p. the (map_of counts p)) (sort_key k (map fst counts))) =
      sum_list (map (\<lambda>p. the (map_of counts p)) (map fst counts))"
    by (rule sum_list_mset_eq) simp
  also have "map (\<lambda>p. the (map_of counts p)) (map fst counts) = map snd counts"
  proof (simp only: map_map, rule map_cong [OF refl])
    fix x assume "x \<in> set counts"
    then have "map_of counts (fst x) = Some (snd x)"
      using map_of_is_SomeI [OF assms, of "fst x" "snd x"] by simp
    then show "((\<lambda>p. the (map_of counts p)) \<circ> fst) x = snd x" by simp
  qed
  finally show ?thesis .
qed

lemma leftover_bounds:
  fixes S :: int
  assumes "0 < S" and "ids \<noteq> []" and "sum_list (map f ids) = amt * S"
  shows "0 \<le> amt - sum_list (map (\<lambda>p. f p div S) ids)"
    and "amt - sum_list (map (\<lambda>p. f p div S) ids) < int (length ids)"
proof -
  let ?D = "sum_list (map (\<lambda>p. f p div S) ids)" and ?R = "sum_list (map (\<lambda>p. f p mod S) ids)"
  have R: "S * (amt - ?D) = ?R"
    using sum_list_div_mod [OF assms(1), of f ids] assms(3) by (simp add: algebra_simps)
  have "0 \<le> ?R" using assms(1) by (intro sum_list_nonneg) auto
  with R have "0 \<le> S * (amt - ?D)" by simp
  then show "0 \<le> amt - ?D" using assms(1) by (simp add: zero_le_mult_iff)
  have "S * (amt - ?D) < S * int (length ids)"
    using sum_list_mod_less [OF assms(1,2), of f] R by (simp add: mult.commute)
  then show "amt - ?D < int (length ids)" using assms(1) by (simp only: mult_less_cancel_left_pos)
qed

lemma split_result:
  assumes dist: "distinct (map fst counts)" and ne: "counts \<noteq> []" and pos: "\<forall>(p, c)\<in>set counts. 0 < c"
    and amt: "0 \<le> amt" and small: "amt * sum_list (map snd counts) < 2 ^ 63 - 1" "sum_list (map snd counts) < 2 ^ 63"
  defines "ids \<equiv> sort_key uuid_string (map fst counts)"
  shows "\<exists>ps. splitByLargestRemainder amt counts =
           Some (map (\<lambda>p. (p, fair_share amt counts p + (if p \<in> set ps then 1 else 0))) ids) \<and>
           distinct ps \<and> set ps \<subseteq> set ids \<and>
           sum_list (map (fair_share amt counts) ids) + int (length ps) = amt \<and>
           (\<forall>p\<in>set ps. \<forall>q\<in>set ids - set ps. fraction amt counts q \<le> fraction amt counts p \<and>
              (fraction amt counts q = fraction amt counts p \<longrightarrow> uuid_string p \<le> uuid_string q))"
proof -
  define S where "S = sum_list (map snd counts)"
  define c where "c = (\<lambda>p. the (map_of counts p))"
  have S: "0 < S" "S < 2 ^ 63"
  proof -
    obtain x xs where x: "counts = x # xs" using ne by (cases counts) auto
    have "0 \<le> sum_list (map snd xs)" using pos x by (intro sum_list_nonneg) force
    moreover have "0 < snd x" using pos x by (cases x) auto
    ultimately show "0 < S" by (simp add: S_def x)
    show "S < 2 ^ 63" using small(2) by (simp only: S_def)
  qed
  have ids: "distinct ids" "set ids = fst ` set counts" "ids \<noteq> []"
    using dist ne by (auto simp: ids_def simp flip: set_empty)
  have c: "0 < c p \<and> c p \<le> S" if "p \<in> set ids" for p
  proof -
    from that ids(2) obtain v where v: "(p, v) \<in> set counts" by auto
    then have "c p = v" using dist by (simp add: c_def)
    moreover have "v \<le> S"
      unfolding S_def using v pos by (intro member_le_sum_list [of v, simplified]) force+
    ultimately show ?thesis using v pos by auto
  qed
  have tot: "fold (\<lambda>(_, c) t. i64 (t + c)) counts 0 = S"
    using fold_i64_sum [of 0 counts] pos S by (force simp: S_def)
  have prod: "i64 (amt * c p) = amt * c p" if "p \<in> set ids" for p
  proof (rule i64_id)
    have "amt * c p \<le> amt * S" using c [OF that] amt by (intro mult_left_mono) auto
    then show "amt * c p < 2 ^ 63" using small(1) by (simp add: S_def)
    have "0 \<le> amt * c p" using c [OF that] amt by simp
    then show "- (2 ^ 63) \<le> amt * c p" by simp
  qed
  have share: "i64 (amt * c p) sdiv S = amt * c p div S" "i64 (amt * c p) smod S = amt * c p mod S" if "p \<in> set ids" for p
    using c [OF that] amt S by (simp_all add: prod [OF that] sdiv_nonneg smod_nonneg)
  let ?shares = "map (\<lambda>p. (p, amt * c p div S)) ids" and ?rem = "map (\<lambda>p. (p, amt * c p mod S)) ids"
  let ?D = "sum_list (map (\<lambda>p. amt * c p div S) ids)"
  have "sum_list (map (\<lambda>p. amt * c p) ids) = amt * S"
    using sum_list_counts [OF dist, of uuid_string] by (simp add: sum_list_const_mult c_def S_def ids_def)
  note left = leftover_bounds [OF S(1) ids(3) this]
  have nn: "0 \<le> amt * c p div S" if "p \<in> set ids" for p
    using c [OF that] amt S(1) by (simp add: pos_imp_zdiv_nonneg_iff)
  then have D: "0 \<le> ?D" by (intro sum_list_nonneg) auto
  have "amt * 1 \<le> amt * S" using S(1) amt by (intro mult_left_mono) auto
  then have amt63: "amt < 2 ^ 63 - 1" using small(1) by (simp add: S_def)
  have dis: "fold (\<lambda>(_, b) d. i64 (d + b)) ?shares 0 = ?D"
    using fold_i64_sum [of 0 ?shares] nn left(1) amt63 by (auto simp: comp_def)
  have lft: "i64 (amt - ?D) = amt - ?D" using left(1) D amt63 by (intro i64_id) auto
  let ?sorted = "sort_key (\<lambda>(_, f). - f) ?rem"
  define ps where "ps = map fst (take (nat (amt - ?D)) ?sorted)"
  have ms: "mset (map fst ?sorted) = mset ids"
  proof -
    have "mset (map fst ?sorted) = mset (map fst ?rem)" by (simp only: mset_map mset_sort)
    also have "map fst ?rem = ids" by (simp only: map_map comp_def fst_conv map_ident)
    finally show ?thesis .
  qed
  have "distinct (map fst ?sorted)" using ids(1) mset_eq_imp_distinct_iff [OF ms] by blast
  moreover have "set (map fst ?sorted) = set ids" using mset_eq_setD [OF ms] .
  moreover have "length ?sorted = length ids" by (simp only: length_sort length_map)
  moreover have "ps = take (nat (amt - ?D)) (map fst ?sorted)" by (simp only: ps_def take_map)
  ultimately have ps: "distinct ps" "set ps \<subseteq> set ids" "int (length ps) = amt - ?D"
    using left set_take_subset [of "nat (amt - ?D)" "map fst ?sorted"] by simp_all
  have fs: "amt * c p div S = fair_share amt counts p" for p by (simp add: fair_share_def c_def S_def)
  have sh: "map (\<lambda>p. (p, i64 (amt * the (map_of counts p)) sdiv S)) ids = ?shares"
    "map (\<lambda>p. (p, i64 (amt * the (map_of counts p)) smod S)) ids = ?rem"
    using share by (simp_all add: c_def)
  have "nat (amt - ?D) \<le> length ?sorted" using left by simp
  from fold_option_take [OF this, of add_paise ?shares]
  have "splitByLargestRemainder amt counts = Some (fold add_paise ps ?shares)"
    unfolding splitByLargestRemainder_def Let_def tot ids_def [symmetric] sh dis lft ps_def
    using S(1) by (simp only: if_False refl) simp
  also have "fold add_paise ps ?shares = map (\<lambda>(p, v). (p, if p \<in> set ps then v + 1 else v)) ?shares"
  proof (rule fold_add_paise [OF _ ps(1)])
    show "distinct (map fst ?shares)" "set ps \<subseteq> fst ` set ?shares"
      using ids(1) ps(2) by (simp_all add: comp_def image_image)
    have "amt * c p div S \<le> amt" if "p \<in> set ids" for p
    proof -
      have "amt * c p div S \<le> amt * S div S"
        using c [OF that] amt S(1) by (intro zdiv_mono1 mult_left_mono) auto
      then show ?thesis using S(1) by simp
    qed
    with nn amt63 show "\<forall>(p, v)\<in>set ?shares. 0 \<le> v \<and> v < 2 ^ 63 - 1" by fastforce
  qed
  finally have "splitByLargestRemainder amt counts =
      Some (map (\<lambda>p. (p, fair_share amt counts p + (if p \<in> set ps then 1 else 0))) ids)"
    by (simp add: fs comp_def if_distrib cong: if_cong)
  moreover have "fraction amt counts q \<le> fraction amt counts p \<and>
      (fraction amt counts q = fraction amt counts p \<longrightarrow> uuid_string p \<le> uuid_string q)"
    if "p \<in> set ps" "q \<in> set ids - set ps" for p q
    using largest_first [of uuid_string ids ?sorted "\<lambda>p. amt * c p mod S" p "nat (amt - ?D)" q] that
    by (simp add: ps_def ids_def fraction_def c_def S_def)
  ultimately show ?thesis
    using ps by (auto simp: fs)
qed

subsection \<open>A run over one file\<close>

lemma shardHolderCounts_props:
  "distinct (map fst (shardHolderCounts db fid))"
  "\<forall>(p, c)\<in>set (shardHolderCounts db fid). 0 < c"
proof -
  have "0 < count_list xs x" if "x \<in> set xs" for xs and x :: uuid
    using that count_list_0_iff [of xs x] by (cases "count_list xs x") auto
  then show "\<forall>(p, c)\<in>set (shardHolderCounts db fid). 0 < c"
    by (auto simp: shardHolderCounts_def Let_def simp del: count_list_map_conv)
qed (simp add: shardHolderCounts_def Let_def comp_def)

lemma shardHolderCounts_cong:
  "chunk_assignments db' = chunk_assignments db \<Longrightarrow> segment_file db' = segment_file db \<Longrightarrow>
   shardHolderCounts db' fid = shardHolderCounts db fid"
  by (simp add: shardHolderCounts_def holds_shard_of_def [abs_def])

definition credits :: "hash \<Rightarrow> uuid \<Rightarrow> string \<Rightarrow> (uuid \<times> int) list \<Rightarrow> escrow_event list" where
  "credits sha fid period shares =
     map (\<lambda>(p, v). credit_event sha fid period p v) (filter (\<lambda>(p, v). 0 < v) shares)"

lemma credit_loop_ok:
  "credit_loop sha (\<lambda>_. True) fid period shares db = ([], pl.insert_all (credits sha fid period shares) db)"
proof (induction shares arbitrary: db)
  case Nil
  then show ?case by (simp add: credits_def pl.insert_all_def)
next
  case (Cons x shares)
  obtain p v where x: "x = (p, v)" by fastforce
  show ?case
  proof (cases "0 < v")
    case True
    then have "fst (InsertEscrowEvent True (credit_event sha fid period p v) db) \<in> {None, Some ErrDuplicateIdempotencyKey}"
      by (auto simp: InsertEscrowEvent_def credit_event_def)
    with True Cons x show ?thesis
      by (auto simp: credits_def pl.insert_all_def split_beta)
  next
    case False
    with Cons x show ?thesis by (simp add: credits_def)
  qed
qed

lemma insert_all_frame:
  "\<exists>evs. pl.insert_all es db = db\<lparr>escrow_events := evs\<rparr>"
proof (induction es arbitrary: db)
  case Nil
  have "db = db\<lparr>escrow_events := escrow_events db\<rparr>" by simp
  then show ?case unfolding pl.insert_all_def fold_simps id_apply by (rule exI)
next
  case (Cons e es)
  obtain evs where "snd (InsertEscrowEvent True e db) = db\<lparr>escrow_events := evs\<rparr>"
    using InsertEscrowEvent_frame [of True e db] by blast
  with Cons.IH [of "db\<lparr>escrow_events := evs\<rparr>"] show ?case by (auto simp: pl.insert_all_def)
qed

lemma credits_props:
  assumes "distinct (map fst shares)"
    and "inj_on (\<lambda>p. sha (p @ fid @ text_bytes period)) (fst ` set shares)"
    and "\<forall>(p, v)\<in>set shares. 0 \<le> v"
  shows "\<forall>e\<in>set (credits sha fid period shares). 0 < ev_amount e"
    and "distinct (map ev_key (credits sha fid period shares))"
    and "sum_list (map ev_amount (credits sha fid period shares)) = sum_list (map snd shares)"
proof -
  show "\<forall>e\<in>set (credits sha fid period shares). 0 < ev_amount e"
    by (auto simp: credits_def credit_event_def)
  let ?g = "\<lambda>x. chargeDepositIdempotencyKey sha (fst x) fid period"
  have "inj_on ?g (set shares)"
  proof (rule inj_onI)
    fix x y assume xy: "x \<in> set shares" "y \<in> set shares" and "?g x = ?g y"
    then have "sha (fst x @ fid @ text_bytes period) = sha (fst y @ fid @ text_bytes period)"
      by (auto simp: chargeDepositIdempotencyKey_def dest: hex_encode_inj)
    then have "fst x = fst y" using xy assms(2) by (auto dest: inj_onD)
    with xy assms(1) show "x = y" by (metis eq_key_imp_eq_value prod.collapse)
  qed
  moreover have "distinct shares" using assms(1) by (simp add: distinct_map)
  ultimately have "distinct (map ?g (filter (\<lambda>(p, v). 0 < v) shares))"
    by (auto simp: distinct_map intro: inj_on_subset)
  then show "distinct (map ev_key (credits sha fid period shares))"
    by (simp add: credits_def credit_event_def comp_def split_beta)
  show "sum_list (map ev_amount (credits sha fid period shares)) = sum_list (map snd shares)"
    using assms(3) by (induction shares) (auto simp: credits_def credit_event_def)
qed

lemma split_shares:
  assumes "distinct (map fst counts)" and "counts \<noteq> []" and "\<forall>(p, c)\<in>set counts. 0 < c"
    and "0 \<le> amt" and "amt * sum_list (map snd counts) < 2 ^ 63 - 1" and "sum_list (map snd counts) < 2 ^ 63"
  shows "\<exists>shares. splitByLargestRemainder amt counts = Some shares \<and>
           map fst shares = sort_key uuid_string (map fst counts) \<and> sum_list (map snd shares) = amt \<and>
           (\<forall>(p, v)\<in>set shares. 0 \<le> v \<and> fair_share amt counts p \<le> v \<and> v \<le> fair_share amt counts p + 1) \<and>
           (\<forall>(p, v)\<in>set shares. \<forall>(q, w)\<in>set shares.
              v = fair_share amt counts p + 1 \<and> w = fair_share amt counts q \<longrightarrow>
              fraction amt counts q \<le> fraction amt counts p \<and>
              (fraction amt counts q = fraction amt counts p \<longrightarrow> uuid_string p \<le> uuid_string q))"
proof -
  let ?ids = "sort_key uuid_string (map fst counts)"
  from split_result [OF assms] obtain ps where
    ps: "splitByLargestRemainder amt counts =
           Some (map (\<lambda>p. (p, fair_share amt counts p + (if p \<in> set ps then 1 else 0))) ?ids)"
      "distinct ps" "set ps \<subseteq> set ?ids" "sum_list (map (fair_share amt counts) ?ids) + int (length ps) = amt"
      "\<forall>p\<in>set ps. \<forall>q\<in>set ?ids - set ps. fraction amt counts q \<le> fraction amt counts p \<and>
         (fraction amt counts q = fraction amt counts p \<longrightarrow> uuid_string p \<le> uuid_string q)"
    by blast
  let ?base = "map (\<lambda>p. (p, fair_share amt counts p)) ?ids"
  let ?shares = "map (\<lambda>p. (p, fair_share amt counts p + (if p \<in> set ps then 1 else 0))) ?ids"
  have eq: "?shares = map (\<lambda>(p, v). (p, if p \<in> set ps then v + 1 else v)) ?base" by simp
  have "sum_list (map snd ?shares) = amt"
    unfolding eq using sum_list_add_paise [of ?base ps] assms(1) ps(2-4) by (simp add: comp_def image_image)
  moreover have "0 \<le> fair_share amt counts p" if "p \<in> set ?ids" for p
  proof -
    from that obtain c where "(p, c) \<in> set counts" by auto
    with assms(1,3) have "0 < the (map_of counts p)" by fastforce
    moreover have "0 \<le> sum_list (map snd counts)" using assms(3) by (intro sum_list_nonneg) force
    ultimately show ?thesis using assms(4) by (simp add: fair_share_def div_int_pos_iff)
  qed
  ultimately show ?thesis
    using ps(1,5) by (intro exI [of _ ?shares]) (auto simp: comp_def split: if_splits)
qed

text \<open>One fault-free run over a file whose current holders have not been credited for the period.\<close>

lemma computeChargeForFile_ok:
  assumes "shardHolderCounts db (file_id f) \<noteq> []"
    and "0 < fileMonthlyCostPaise (original_size_bytes f) profile"
    and "splitByLargestRemainder (fileMonthlyCostPaise (original_size_bytes f) profile)
           (shardHolderCounts db (file_id f)) = Some shares"
  shows "computeChargeForFile sha (\<lambda>_. True) profile f period db =
           ([], pl.insert_all (credits sha (file_id f) period shares)
                  (ol.insert_all [charge_event sha f period (fileMonthlyCostPaise (original_size_bytes f) profile)] db))"
proof -
  let ?e = "charge_event sha f period (fileMonthlyCostPaise (original_size_bytes f) profile)"
  have "fst (InsertOwnerEscrowEvent True ?e db) \<in> {None, Some ErrDuplicateIdempotencyKey}"
    using assms(2) by (auto simp: InsertOwnerEscrowEvent_def charge_event_def)
  then show ?thesis
    using assms
    by (auto simp: computeChargeForFile_def Let_def split_beta credit_loop_ok ol.insert_all_def)
qed

subsection \<open>A whole run\<close>

definition billed :: "NetworkProfile \<Rightarrow> database \<Rightarrow> file_row list" where
  "billed profile db = filter (\<lambda>f. shardHolderCounts db (file_id f) \<noteq> [] \<and>
     0 < fileMonthlyCostPaise (original_size_bytes f) profile) (chargeableFiles db)"

definition charges_due :: "hash \<Rightarrow> NetworkProfile \<Rightarrow> string \<Rightarrow> file_row list \<Rightarrow> owner_event list" where
  "charges_due sha profile period =
     map (\<lambda>f. charge_event sha f period (fileMonthlyCostPaise (original_size_bytes f) profile))"

definition credits_due :: "hash \<Rightarrow> NetworkProfile \<Rightarrow> string \<Rightarrow> database \<Rightarrow> file_row \<Rightarrow> escrow_event list" where
  "credits_due sha profile period db f = credits sha (file_id f) period
     (the (splitByLargestRemainder (fileMonthlyCostPaise (original_size_bytes f) profile) (shardHolderCounts db (file_id f))))"

definition holder_pairs :: "NetworkProfile \<Rightarrow> database \<Rightarrow> (uuid \<times> uuid) list" where
  "holder_pairs profile db =
     concat (map (\<lambda>f. map (\<lambda>(p, _). (p, file_id f)) (shardHolderCounts db (file_id f))) (billed profile db))"

text \<open>
  The state before the first run of a period: the file ids are a primary key, no product of an
  amount and a shard count overflows, and the digests that serve as idempotency keys do not
  collide and are not in the ledgers yet.
\<close>

definition period_open :: "hash \<Rightarrow> NetworkProfile \<Rightarrow> string \<Rightarrow> database \<Rightarrow> bool" where
  "period_open sha profile period db \<longleftrightarrow>
     distinct (map file_id (files db)) \<and>
     (\<forall>f\<in>set (billed profile db). fileMonthlyCostPaise (original_size_bytes f) profile *
        sum_list (map snd (shardHolderCounts db (file_id f))) < 2 ^ 63 - 1) \<and>
     inj_on (\<lambda>f. sha (owner_id f @ file_id f @ text_bytes period)) (set (billed profile db)) \<and>
     inj_on (\<lambda>(p, fid). sha (p @ fid @ text_bytes period)) (set (holder_pairs profile db)) \<and>
     (\<forall>f\<in>set (billed profile db). ChargeIdempotencyKey sha (owner_id f) (file_id f) period \<notin> oe_key ` set (owner_escrow_events db)) \<and>
     (\<forall>(p, fid)\<in>set (holder_pairs profile db). chargeDepositIdempotencyKey sha p fid period \<notin> ev_key ` set (escrow_events db))"

lemma distinct_billed: "period_open sha profile period db \<Longrightarrow> distinct (map file_id (billed profile db))"
  by (simp add: period_open_def billed_def chargeableFiles_def distinct_map_filter)

lemma holder_pairs_holder: "(p, fid) \<in> set (holder_pairs profile db) \<Longrightarrow> p \<in> fst ` set (shardHolderCounts db fid)"
  by (force simp: holder_pairs_def)

lemma billed_split:
  assumes "period_open sha profile period db" and "f \<in> set (billed profile db)"
  defines "cost \<equiv> fileMonthlyCostPaise (original_size_bytes f) profile"
  shows "\<exists>shares. splitByLargestRemainder cost (shardHolderCounts db (file_id f)) = Some shares \<and>
           fst ` set shares = fst ` set (shardHolderCounts db (file_id f)) \<and> distinct (map fst shares) \<and>
           sum_list (map snd shares) = cost \<and> (\<forall>(p, v)\<in>set shares. 0 \<le> v)"
proof -
  let ?counts = "shardHolderCounts db (file_id f)"
  note cp = shardHolderCounts_props [of db "file_id f"]
  have b: "?counts \<noteq> []" "0 < cost" "cost * sum_list (map snd ?counts) < 2 ^ 63 - 1"
    using assms by (auto simp: period_open_def billed_def)
  have "0 \<le> sum_list (map snd ?counts)" using cp(2) by (intro sum_list_nonneg) force
  then have "1 * sum_list (map snd ?counts) \<le> cost * sum_list (map snd ?counts)"
    using b(2) by (intro mult_right_mono) auto
  then have "sum_list (map snd ?counts) < 2 ^ 63" using b(3) by simp
  from split_shares [OF cp(1) b(1) cp(2) less_imp_le [OF b(2)] b(3) this] obtain shares where
    sh: "splitByLargestRemainder cost ?counts = Some shares"
      "map fst shares = sort_key uuid_string (map fst ?counts)" "sum_list (map snd shares) = cost"
      "\<forall>(p, v)\<in>set shares. 0 \<le> v" by fastforce
  moreover have "fst ` set shares = fst ` set ?counts" "distinct (map fst shares)"
    using arg_cong [OF sh(2), of set] cp(1) arg_cong [OF sh(2), of distinct] by simp_all
  ultimately show ?thesis by blast
qed

lemma credits_due_props:
  assumes "period_open sha profile period db" and "f \<in> set (billed profile db)"
  shows "\<forall>e\<in>set (credits_due sha profile period db f). 0 < ev_amount e"
    and "distinct (map ev_key (credits_due sha profile period db f))"
    and "sum_list (map ev_amount (credits_due sha profile period db f)) = fileMonthlyCostPaise (original_size_bytes f) profile"
    and "\<forall>e\<in>set (credits_due sha profile period db f). \<exists>p. (p, file_id f) \<in> set (holder_pairs profile db) \<and>
           ev_provider e = p \<and> ev_type e = EscrowDeposit \<and> ev_key e = chargeDepositIdempotencyKey sha p (file_id f) period"
proof -
  from billed_split [OF assms] obtain shares where
    sh: "splitByLargestRemainder (fileMonthlyCostPaise (original_size_bytes f) profile) (shardHolderCounts db (file_id f)) = Some shares"
      "fst ` set shares = fst ` set (shardHolderCounts db (file_id f))" "distinct (map fst shares)"
      "sum_list (map snd shares) = fileMonthlyCostPaise (original_size_bytes f) profile" "\<forall>(p, v)\<in>set shares. 0 \<le> v" by blast
  have pairs: "(p, file_id f) \<in> set (holder_pairs profile db)" if "p \<in> fst ` set shares" for p
    using that assms(2) unfolding sh(2) by (force simp: holder_pairs_def)
  have inj: "inj_on (\<lambda>(p, fid). sha (p @ fid @ text_bytes period)) (set (holder_pairs profile db))"
    using assms(1) by (simp add: period_open_def)
  have "inj_on (\<lambda>p. sha (p @ file_id f @ text_bytes period)) (fst ` set shares)"
    by (rule inj_onI) (use inj_onD [OF inj, of "(_, file_id f)" "(_, file_id f)"] pairs in auto)
  note cr = credits_props [OF sh(3) this sh(5)]
  show "\<forall>e\<in>set (credits_due sha profile period db f). 0 < ev_amount e"
    "distinct (map ev_key (credits_due sha profile period db f))"
    "sum_list (map ev_amount (credits_due sha profile period db f)) = fileMonthlyCostPaise (original_size_bytes f) profile"
    using cr sh(1,4) by (simp_all add: credits_due_def)
  show "\<forall>e\<in>set (credits_due sha profile period db f). \<exists>p. (p, file_id f) \<in> set (holder_pairs profile db) \<and>
      ev_provider e = p \<and> ev_type e = EscrowDeposit \<and> ev_key e = chargeDepositIdempotencyKey sha p (file_id f) period"
    using pairs sh(1) by (force simp: credits_due_def credits_def credit_event_def)
qed

lemma charges_due_props:
  assumes "period_open sha profile period db"
  shows "\<forall>e\<in>set (charges_due sha profile period (billed profile db)). 0 < oe_amount e"
    and "distinct (map oe_key (charges_due sha profile period (billed profile db)))"
    and "\<forall>e\<in>set (charges_due sha profile period (billed profile db)). oe_key e \<notin> oe_key ` set (owner_escrow_events db)"
proof -
  let ?b = "billed profile db"
  have "inj_on (\<lambda>f. ChargeIdempotencyKey sha (owner_id f) (file_id f) period) (set ?b)"
    using assms by (auto simp: period_open_def ChargeIdempotencyKey_def inj_on_def dest: hex_encode_inj)
  moreover have "distinct ?b" using distinct_billed [OF assms] by (simp add: distinct_map)
  ultimately show "distinct (map oe_key (charges_due sha profile period ?b))"
    by (simp add: charges_due_def charge_event_def distinct_map comp_def)
  show "\<forall>e\<in>set (charges_due sha profile period ?b). 0 < oe_amount e"
    by (auto simp: charges_due_def charge_event_def billed_def)
  show "\<forall>e\<in>set (charges_due sha profile period ?b). oe_key e \<notin> oe_key ` set (owner_escrow_events db)"
    using assms by (auto simp: charges_due_def charge_event_def period_open_def)
qed

lemma all_credits_props:
  assumes "period_open sha profile period db"
  defines "due \<equiv> concat (map (credits_due sha profile period db) (billed profile db))"
  shows "\<forall>e\<in>set due. 0 < ev_amount e" and "distinct (map ev_key due)"
    and "\<forall>e\<in>set due. ev_key e \<notin> ev_key ` set (escrow_events db)"
    and "sum_list (map ev_amount due) = sum_list (map oe_amount (charges_due sha profile period (billed profile db)))"
proof -
  note cd = credits_due_props [OF assms(1)]
  show "\<forall>e\<in>set due. 0 < ev_amount e" using cd(1) by (auto simp: due_def)
  show "\<forall>e\<in>set due. ev_key e \<notin> ev_key ` set (escrow_events db)"
  proof
    fix e assume "e \<in> set due"
    then obtain f where "f \<in> set (billed profile db)" "e \<in> set (credits_due sha profile period db f)" by (auto simp: due_def)
    with cd(4) obtain p where "(p, file_id f) \<in> set (holder_pairs profile db)"
      "ev_key e = chargeDepositIdempotencyKey sha p (file_id f) period" by blast
    with assms(1) show "ev_key e \<notin> ev_key ` set (escrow_events db)" by (auto simp: period_open_def)
  qed
  have inj: "inj_on (\<lambda>(p, fid). sha (p @ fid @ text_bytes period)) (set (holder_pairs profile db))"
    using assms(1) by (simp add: period_open_def)
  have "distinct (map ev_key (concat (map (credits_due sha profile period db) fs)))"
    if "set fs \<subseteq> set (billed profile db)" "distinct (map file_id fs)" for fs
    using that
  proof (induction fs)
    case (Cons f fs)
    have "ev_key e \<noteq> ev_key e'" if e: "e \<in> set (credits_due sha profile period db f)" 
      and e': "g \<in> set fs" "e' \<in> set (credits_due sha profile period db g)" for e e' g
    proof
      assume eq: "ev_key e = ev_key e'"
      have fg: "f \<in> set (billed profile db)" "g \<in> set (billed profile db)" using Cons.prems e'(1) by auto
      from cd(4) [OF fg(1)] e obtain p where p: "(p, file_id f) \<in> set (holder_pairs profile db)"
        "ev_key e = chargeDepositIdempotencyKey sha p (file_id f) period" by blast
      from cd(4) [OF fg(2)] e'(2) obtain q where q: "(q, file_id g) \<in> set (holder_pairs profile db)"
        "ev_key e' = chargeDepositIdempotencyKey sha q (file_id g) period" by blast
      have "(p, file_id f) = (q, file_id g)"
        using eq p q by (intro inj_onD [OF inj _ p(1) q(1)]) (auto simp: chargeDepositIdempotencyKey_def dest: hex_encode_inj)
      with Cons.prems(2) e'(1) show False by auto
    qed
    moreover have "distinct (map ev_key (credits_due sha profile period db f))" using cd(2) Cons.prems by simp
    ultimately show ?case using Cons by fastforce
  qed simp
  from this [of "billed profile db"] show "distinct (map ev_key due)"
    using distinct_billed [OF assms(1)] by (simp add: due_def)
  have "sum_list (map ev_amount (concat (map (credits_due sha profile period db) fs))) =
      sum_list (map oe_amount (charges_due sha profile period fs))" if "set fs \<subseteq> set (billed profile db)" for fs
    using that by (induction fs) (auto simp: charges_due_def charge_event_def cd(3))
  from this [of "billed profile db"] show "sum_list (map ev_amount due) =
      sum_list (map oe_amount (charges_due sha profile period (billed profile db)))" by (simp add: due_def)
qed


text \<open>A run without failures enters the charges and the credits that are due, each once.\<close>

lemma owner_insert_all:
  assumes "\<forall>e\<in>set es. 0 < oe_amount e" and "distinct (map oe_key es)"
  shows "ol.insert_all es db = db\<lparr>owner_escrow_events := owner_escrow_events db @
           filter (\<lambda>e. oe_key e \<notin> oe_key ` set (owner_escrow_events db)) es\<rparr>"
proof -
  have "\<exists>a. ol.insert_all es db = db\<lparr>owner_escrow_events := a\<rparr>"
  proof (induction es arbitrary: db)
    case Nil
    have "db = db\<lparr>owner_escrow_events := owner_escrow_events db\<rparr>" by simp
    then show ?case unfolding ol.insert_all_def fold_simps id_apply by (rule exI)
  next
    case (Cons e es)
    have "\<exists>a. snd (InsertOwnerEscrowEvent True e db) = db\<lparr>owner_escrow_events := a\<rparr>"
      by (cases db) (auto simp: InsertOwnerEscrowEvent_def)
    then obtain a where "snd (InsertOwnerEscrowEvent True e db) = db\<lparr>owner_escrow_events := a\<rparr>" by blast
    with Cons.IH [of "db\<lparr>owner_escrow_events := a\<rparr>"] show ?case by (auto simp: ol.insert_all_def)
  qed
  then obtain a where "ol.insert_all es db = db\<lparr>owner_escrow_events := a\<rparr>" by blast
  with ol.insert_all_events [OF assms, of db] show ?thesis by simp
qed

lemma escrow_insert_all:
  assumes "\<forall>e\<in>set es. 0 < ev_amount e" and "distinct (map ev_key es)"
  shows "pl.insert_all es db = db\<lparr>escrow_events := escrow_events db @
           filter (\<lambda>e. ev_key e \<notin> ev_key ` set (escrow_events db)) es\<rparr>"
  using pl.insert_all_events [OF assms, of db] insert_all_frame [of es db] by (elim exE) simp

lemma insert_all_append:
  "ol.insert_all (cs @ cs') db = ol.insert_all cs' (ol.insert_all cs db)"
  "pl.insert_all (es @ es') db = pl.insert_all es' (pl.insert_all es db)"
  by (simp_all add: ol.insert_all_def pl.insert_all_def)

lemma inserts_commute:
  "ol.insert_all cs (pl.insert_all es db) = pl.insert_all es (ol.insert_all cs db)"
proof -
  have one: "snd (InsertOwnerEscrowEvent True c (snd (InsertEscrowEvent True e db))) =
      snd (InsertEscrowEvent True e (snd (InsertOwnerEscrowEvent True c db)))" for c e db
    by (simp add: InsertEscrowEvent_def InsertOwnerEscrowEvent_def)
  have "snd (InsertOwnerEscrowEvent True c (pl.insert_all es db)) =
      pl.insert_all es (snd (InsertOwnerEscrowEvent True c db))" for c db
    by (induction es arbitrary: db) (simp_all add: pl.insert_all_def one)
  then show ?thesis by (induction cs arbitrary: db) (simp_all add: ol.insert_all_def)
qed

lemma tables_insert_all:
  assumes "db1 = db\<lparr>owner_escrow_events := a, escrow_events := b\<rparr>"
    and "\<forall>e\<in>set cs. 0 < oe_amount e" "distinct (map oe_key cs)" "\<forall>e\<in>set es. 0 < ev_amount e" "distinct (map ev_key es)"
  shows "\<exists>a b. pl.insert_all es (ol.insert_all cs db1) = db\<lparr>owner_escrow_events := a, escrow_events := b\<rparr>"
  unfolding owner_insert_all [OF assms(2,3)] escrow_insert_all [OF assms(4,5)] assms(1) by auto

lemma charge_files_ok:
  assumes "period_open sha profile period db" and "db1 = db\<lparr>owner_escrow_events := a, escrow_events := b\<rparr>"
    and "set fs \<subseteq> set (chargeableFiles db)"
  defines "bs \<equiv> filter (\<lambda>f. f \<in> set (billed profile db)) fs"
  shows "charge_files sha (\<lambda>_. True) profile period fs db1 =
           ([], pl.insert_all (concat (map (credits_due sha profile period db) bs))
                  (ol.insert_all (charges_due sha profile period bs) db1))"
  using assms(2,3) unfolding bs_def
proof (induction fs arbitrary: db1 a b)
  case Nil
  then show ?case by (simp add: charges_due_def pl.insert_all_def ol.insert_all_def)
next
  case (Cons f fs)
  let ?cost = "fileMonthlyCostPaise (original_size_bytes f) profile"
  have counts: "shardHolderCounts db1 (file_id f) = shardHolderCounts db (file_id f)"
    by (rule shardHolderCounts_cong) (auto simp: Cons.prems(1) segment_file_def fun_eq_iff)
  show ?case
  proof (cases "f \<in> set (billed profile db)")
    case True
    let ?c = "charge_event sha f period ?cost" and ?es = "credits_due sha profile period db f"
    let ?db2 = "pl.insert_all ?es (ol.insert_all [?c] db1)"
    have pos: "shardHolderCounts db1 (file_id f) \<noteq> []" "0 < ?cost" using True counts by (auto simp: billed_def)
    from billed_split [OF assms(1) True] obtain shares where
      "splitByLargestRemainder ?cost (shardHolderCounts db1 (file_id f)) = Some shares" unfolding counts by blast
    from computeChargeForFile_ok [OF pos this]
    have one: "computeChargeForFile sha (\<lambda>_. True) profile f period db1 = ([], ?db2)"
      using \<open>splitByLargestRemainder ?cost _ = Some shares\<close> by (simp add: credits_due_def counts)
    have "\<forall>e\<in>set [?c]. 0 < oe_amount e" "distinct (map oe_key [?c])" using pos(2) by (simp_all add: charge_event_def)
    from tables_insert_all [OF Cons.prems(1) this credits_due_props(1,2) [OF assms(1) True]] obtain a' b' where
      "?db2 = db\<lparr>owner_escrow_events := a', escrow_events := b'\<rparr>" by blast
    from Cons.IH [OF this] Cons.prems(2) one True show ?thesis
      by (simp add: charges_due_def inserts_commute flip: insert_all_append)
  next
    case False
    with Cons.prems(2) have "shardHolderCounts db1 (file_id f) = [] \<or> ?cost \<le> 0" by (auto simp: counts billed_def)
    then have "computeChargeForFile sha (\<lambda>_. True) profile f period db1 = ([], db1)"
      by (auto simp: computeChargeForFile_def Let_def)
    with Cons.IH [OF Cons.prems(1)] Cons.prems(2) False show ?thesis by simp
  qed
qed

lemma run_ok:
  assumes "period_open sha profile period db" and "db1 = db\<lparr>owner_escrow_events := a, escrow_events := b\<rparr>"
  shows "ComputeMonthlyCharges sha True (\<lambda>_. True) profile period db1 =
           ([], db1\<lparr>owner_escrow_events := a @ filter (\<lambda>e. oe_key e \<notin> oe_key ` set a) (charges_due sha profile period (billed profile db)),
                escrow_events := b @ filter (\<lambda>e. ev_key e \<notin> ev_key ` set b)
                  (concat (map (credits_due sha profile period db) (billed profile db)))\<rparr>)"
proof -
  have "chargeableFiles db1 = chargeableFiles db" by (simp add: assms(2) chargeableFiles_def)
  moreover have "filter (\<lambda>f. f \<in> set (billed profile db)) (chargeableFiles db) = billed profile db"
    by (auto simp: billed_def intro: filter_cong)
  ultimately show ?thesis
    using charge_files_ok [OF assms order_refl] owner_insert_all [OF charges_due_props(1,2) [OF assms(1)], of db1]
      escrow_insert_all [OF all_credits_props(1,2) [OF assms(1)]]
    by (simp add: ComputeMonthlyCharges_def assms(2))
qed

text \<open>
  Where the ledgers stand after runs with any failures: some of the charges due, each once, and
  only credits for files that have been charged.
\<close>

definition underway :: "hash \<Rightarrow> NetworkProfile \<Rightarrow> string \<Rightarrow> database \<Rightarrow> owner_event list \<Rightarrow> escrow_event list \<Rightarrow> bool" where
  "underway sha profile period db cs ds \<longleftrightarrow>
     distinct cs \<and> distinct ds \<and> set cs \<subseteq> set (charges_due sha profile period (billed profile db)) \<and>
     (\<forall>e\<in>set ds. \<exists>f\<in>set (billed profile db).
        charge_event sha f period (fileMonthlyCostPaise (original_size_bytes f) profile) \<in> set cs \<and>
        e \<in> set (credits_due sha profile period db f))"

definition ledgers :: "database \<Rightarrow> owner_event list \<Rightarrow> escrow_event list \<Rightarrow> database" where
  "ledgers db cs ds = db\<lparr>owner_escrow_events := owner_escrow_events db @ cs, escrow_events := escrow_events db @ ds\<rparr>"

lemma underway_charge:
  assumes "period_open sha profile period db" and "underway sha profile period db cs ds"
    and "c \<in> set (charges_due sha profile period (billed profile db))"
    and "InsertOwnerEscrowEvent ok c (ledgers db cs ds) = (err, db')"
  obtains cs' where "db' = ledgers db cs' ds" "underway sha profile period db cs' ds"
    "err \<noteq> None \<and> err \<noteq> Some ErrDuplicateIdempotencyKey \<or> c \<in> set cs'"
proof -
  note cp = charges_due_props [OF assms(1)]
  have sub: "set cs \<subseteq> set (charges_due sha profile period (billed profile db))" using assms(2) by (simp add: underway_def)
  have present: "c \<in> set cs" if k: "oe_key c \<in> oe_key ` set (owner_escrow_events (ledgers db cs ds))"
  proof -
    from k cp(3) assms(3) obtain c' where c': "c' \<in> set cs" "oe_key c' = oe_key c" by (auto simp: ledgers_def)
    have "inj_on oe_key (set (charges_due sha profile period (billed profile db)))" using cp(2) by (simp add: distinct_map)
    with c' sub assms(3) have "c' = c" by (auto dest: inj_onD)
    with c'(1) show ?thesis by simp
  qed
  have amt: "0 < oe_amount c" using cp(1) assms(3) by blast
  show ?thesis
  proof (cases "ok \<and> oe_key c \<notin> oe_key ` set (owner_escrow_events (ledgers db cs ds))")
    case True
    then have "db' = ledgers db (cs @ [c]) ds" using assms(4) amt by (auto simp: InsertOwnerEscrowEvent_def ledgers_def)
    moreover have "c \<notin> set cs" using True by (auto simp: ledgers_def)
    then have "underway sha profile period db (cs @ [c]) ds"
      using assms(2,3) unfolding underway_def by auto
    ultimately show ?thesis using that by simp
  next
    case False
    then have "db' = ledgers db cs ds" "err = Some ErrDB \<or> c \<in> set cs"
      using assms(4) amt present by (auto simp: InsertOwnerEscrowEvent_def split: if_splits)
    with assms(2) show ?thesis using that by auto
  qed
qed

lemma underway_credit:
  assumes "underway sha profile period db cs ds" and "f \<in> set (billed profile db)"
    and "charge_event sha f period (fileMonthlyCostPaise (original_size_bytes f) profile) \<in> set cs"
    and "e \<in> set (credits_due sha profile period db f)"
  obtains ds' where "snd (InsertEscrowEvent ok e (ledgers db cs ds)) = ledgers db cs ds'" "underway sha profile period db cs ds'"
proof (cases "snd (InsertEscrowEvent ok e (ledgers db cs ds)) = ledgers db cs ds")
  case False
  then have "ev_key e \<notin> ev_key ` set (escrow_events (ledgers db cs ds))"
    and "snd (InsertEscrowEvent ok e (ledgers db cs ds)) = ledgers db cs (ds @ [e])"
    by (auto simp: InsertEscrowEvent_def ledgers_def split: if_splits)
  moreover from this(1) have "e \<notin> set ds" by (auto simp: ledgers_def)
  then have "underway sha profile period db cs (ds @ [e])"
    using assms unfolding underway_def by auto
  ultimately show ?thesis using that by blast
qed (use assms(1) that in blast)

lemma credit_loop_underway:
  assumes "underway sha profile period db cs ds" and "f \<in> set (billed profile db)"
    and "charge_event sha f period (fileMonthlyCostPaise (original_size_bytes f) profile) \<in> set cs"
    and "set (credits sha (file_id f) period shares) \<subseteq> set (credits_due sha profile period db f)"
  shows "\<exists>ds'. snd (credit_loop sha ok (file_id f) period shares (ledgers db cs ds)) = ledgers db cs ds' \<and>
           underway sha profile period db cs ds'"
  using assms(1,4)
proof (induction shares arbitrary: ds)
  case (Cons x shares)
  obtain p v where x: "x = (p, v)" by fastforce
  have tail: "set (credits sha (file_id f) period shares) \<subseteq> set (credits_due sha profile period db f)"
    using Cons.prems(2) by (auto simp: credits_def split: if_splits)
  show ?case
  proof (cases "0 < v")
    case True
    let ?e = "credit_event sha (file_id f) period p v"
    have "?e \<in> set (credits_due sha profile period db f)" using Cons.prems(2) True by (auto simp: credits_def x)
    from underway_credit [OF Cons.prems(1) assms(2,3) this] obtain ds' where
      "snd (InsertEscrowEvent (ok (InsertCredit (file_id f) p)) ?e (ledgers db cs ds)) = ledgers db cs ds'"
      "underway sha profile period db cs ds'" by blast
    with Cons.IH [OF this(2) tail] True show ?thesis
      by (simp add: x split_beta Let_def split: option.split pay_error.split)
  next
    case False
    with Cons.IH [OF Cons.prems(1) tail] show ?thesis by (simp add: x)
  qed
qed auto

lemma compute_underway:
  assumes "period_open sha profile period db" and "underway sha profile period db cs ds" and "f \<in> set (chargeableFiles db)"
  shows "\<exists>cs' ds'. snd (computeChargeForFile sha ok profile f period (ledgers db cs ds)) = ledgers db cs' ds' \<and>
           underway sha profile period db cs' ds'"
proof -
  let ?cost = "fileMonthlyCostPaise (original_size_bytes f) profile"
  let ?c = "charge_event sha f period ?cost" and ?db = "ledgers db cs ds"
  have counts: "shardHolderCounts ?db (file_id f) = shardHolderCounts db (file_id f)"
    by (rule shardHolderCounts_cong) (auto simp: ledgers_def segment_file_def fun_eq_iff)
  show ?thesis
  proof (cases "ok (QueryHolders (file_id f)) \<and> f \<in> set (billed profile db)")
    case False
    then have "snd (computeChargeForFile sha ok profile f period ?db) = ?db"
      using assms(3) by (auto simp: computeChargeForFile_def Let_def counts billed_def)
    with assms(2) show ?thesis by blast
  next
    case True
    then have f: "f \<in> set (billed profile db)" by simp
    from billed_split [OF assms(1) f] obtain shares where
      sh: "splitByLargestRemainder ?cost (shardHolderCounts db (file_id f)) = Some shares" by blast
    obtain err db' where ins: "InsertOwnerEscrowEvent (ok (InsertCharge (file_id f))) ?c ?db = (err, db')" by fastforce
    have "?c \<in> set (charges_due sha profile period (billed profile db))" using f by (simp add: charges_due_def)
    from underway_charge [OF assms(1,2) this ins] obtain cs' where
      cs': "db' = ledgers db cs' ds" "underway sha profile period db cs' ds"
        "err \<noteq> None \<and> err \<noteq> Some ErrDuplicateIdempotencyKey \<or> ?c \<in> set cs'" by blast
    have run: "computeChargeForFile sha ok profile f period ?db =
        (if err \<noteq> None \<and> err \<noteq> Some ErrDuplicateIdempotencyKey then ([the err], db')
         else credit_loop sha ok (file_id f) period shares db')"
      using True sh ins by (simp add: computeChargeForFile_def Let_def counts billed_def)
    show ?thesis
    proof (cases "err \<noteq> None \<and> err \<noteq> Some ErrDuplicateIdempotencyKey")
      case True
      with run cs'(1,2) show ?thesis by auto
    next
      case False
      with cs'(3) have "?c \<in> set cs'" by blast
      from credit_loop_underway [OF cs'(2) f this, of shares ok] run False cs'(1) show ?thesis
        by (auto simp: credits_due_def sh)
    qed
  qed
qed

lemma runs_underway:
  assumes "period_open sha profile period db"
  shows "\<exists>cs ds. fold (\<lambda>(okq, ok) db. snd (ComputeMonthlyCharges sha okq ok profile period db)) runs db = ledgers db cs ds \<and>
           underway sha profile period db cs ds"
proof -
  have files: "\<exists>cs' ds'. snd (charge_files sha ok profile period fs (ledgers db cs ds)) = ledgers db cs' ds' \<and>
      underway sha profile period db cs' ds'"
    if "underway sha profile period db cs ds" "set fs \<subseteq> set (chargeableFiles db)" for ok fs cs ds
    using that
  proof (induction fs arbitrary: cs ds)
    case (Cons f fs)
    then have "f \<in> set (chargeableFiles db)" by simp
    from compute_underway [OF assms Cons.prems(1) this, of ok] obtain cs' ds' where
      "snd (computeChargeForFile sha ok profile f period (ledgers db cs ds)) = ledgers db cs' ds'"
      "underway sha profile period db cs' ds'" by blast
    with Cons.IH [OF this(2)] Cons.prems(2) show ?case by (auto simp: split_beta Let_def)
  qed auto
  show ?thesis
  proof (induction runs rule: rev_induct)
    case Nil
    have "db = ledgers db [] []" by (simp add: ledgers_def)
    then show ?case unfolding fold_simps id_apply by (intro exI conjI) (auto simp: underway_def)
  next
    case (snoc r runs)
    then obtain cs ds where prev: "fold (\<lambda>(okq, ok) db. snd (ComputeMonthlyCharges sha okq ok profile period db)) runs db = ledgers db cs ds"
      "underway sha profile period db cs ds" by blast
    have "chargeableFiles (ledgers db cs ds) = chargeableFiles db" by (simp add: ledgers_def chargeableFiles_def)
    with files [OF prev(2) order_refl, of "snd r"] prev show ?case
      by (cases r) (auto simp: ComputeMonthlyCharges_def)
  qed
qed

lemma distinct_mset_subset: "distinct xs \<Longrightarrow> set xs \<subseteq> set ys \<Longrightarrow> mset xs \<subseteq># mset ys"
  by (rule mset_subset_eqI) (auto simp: distinct_count_atmost_1 Suc_le_eq)

lemma sum_list_subset:
  fixes g :: "'a \<Rightarrow> int"
  assumes "distinct xs" and "set xs \<subseteq> set ys" and "\<forall>y\<in>set ys. 0 \<le> g y"
  shows "sum_list (map g xs) \<le> sum_list (map g ys)"
proof -
  from distinct_mset_subset [OF assms(1,2)] obtain M where M: "mset ys = mset xs + M"
    using mset_subset_eq_exists_conv by blast
  have "\<forall>y\<in>#M. 0 \<le> g y" using assms(3) arg_cong [OF M, of set_mset] by auto
  then have "0 \<le> (\<Sum>y\<in>#M. g y)" by (induction M) auto
  moreover have "sum_list (map g ys) = sum_list (map g xs) + (\<Sum>y\<in>#M. g y)"
    using arg_cong [OF M, of "\<lambda>M. \<Sum>y\<in>#M. g y"] by (simp flip: sum_mset_sum_list)
  ultimately show ?thesis by simp
qed

lemma underway_sums:
  assumes "period_open sha profile period db" and "underway sha profile period db cs ds"
  shows "sum_list (map ev_amount ds) \<le> sum_list (map oe_amount cs)"
proof -
  let ?charge = "\<lambda>f. charge_event sha f period (fileMonthlyCostPaise (original_size_bytes f) profile)"
  let ?fs = "filter (\<lambda>f. ?charge f \<in> set cs) (billed profile db)"
  let ?es = "concat (map (credits_due sha profile period db) ?fs)"
  note cd = credits_due_props [OF assms(1)]
  have "sum_list (map ev_amount ds) \<le> sum_list (map ev_amount ?es)"
  proof (rule sum_list_subset)
    show "distinct ds" "set ds \<subseteq> set ?es" using assms(2) by (auto simp: underway_def)
    show "\<forall>e\<in>set ?es. 0 \<le> ev_amount e" using cd(1) by (auto intro: less_imp_le)
  qed
  also have "\<dots> = sum_list (map oe_amount (map ?charge ?fs))"
  proof -
    have "sum_list (map ev_amount (concat (map (credits_due sha profile period db) fs))) =
        sum_list (map oe_amount (map ?charge fs))" if "set fs \<subseteq> set (billed profile db)" for fs
      using that by (induction fs) (auto simp: charge_event_def cd(3))
    then show ?thesis by simp
  qed
  also have "\<dots> \<le> sum_list (map oe_amount cs)"
  proof (rule sum_list_subset)
    have "distinct (map ?charge (billed profile db))"
      using distinct_map [THEN iffD1, OF charges_due_props(2) [OF assms(1)]] by (simp only: charges_due_def)
    then show "distinct (map ?charge ?fs)" by (simp add: distinct_map_filter)
    show "\<forall>e\<in>set cs. 0 \<le> oe_amount e"
      using charges_due_props(1) [OF assms(1)] assms(2) by (auto simp: underway_def intro: less_imp_le)
  qed auto
  finally show ?thesis .
qed

lemma completed:
  assumes "distinct (map k es)" and "distinct xs" and "set xs \<subseteq> set es"
    and "\<forall>e\<in>set es. k e \<notin> k ` set old"
  shows "mset (xs @ filter (\<lambda>e. k e \<notin> k ` set (old @ xs)) es) = mset es"
proof (rule set_eq_iff_mset_eq_distinct [THEN iffD1])
  have inj: "inj_on k (set es)" and es: "distinct es" using assms(1) by (simp_all add: distinct_map)
  have new: "k e \<notin> k ` set (old @ xs) \<longleftrightarrow> e \<notin> set xs" if "e \<in> set es" for e
    using that assms(3,4) inj_onD [OF inj, of e] by (auto simp: image_iff)
  then have "filter (\<lambda>e. k e \<notin> k ` set (old @ xs)) es = filter (\<lambda>e. e \<notin> set xs) es" by (intro filter_cong) auto
  then show "distinct (xs @ filter (\<lambda>e. k e \<notin> k ` set (old @ xs)) es)" 
    "set (xs @ filter (\<lambda>e. k e \<notin> k ` set (old @ xs)) es) = set es" using assms(2,3) es by auto
  show "distinct es" by (rule es)
qed

subsection \<open>Properties\<close>

text \<open>
  C13: the division is exact and follows the largest remainder. For every non-negative amount and
  every set of holders, the shares add up to exactly the amount; each holder gets its proportional
  share rounded down, or one paisa more; whoever gets the extra paisa has a remainder at least as
  large as everyone who does not, and on equal remainders the smaller provider id; and the index
  into the sorted remainders never leaves its range.
\<close>

theorem split_exact:
  assumes "distinct (map fst counts)" and "counts \<noteq> []" and "\<forall>(p, c)\<in>set counts. 0 < c"
    and "0 \<le> amt" and "amt * sum_list (map snd counts) < 2 ^ 63 - 1" and "sum_list (map snd counts) < 2 ^ 63"
  shows "\<exists>shares. splitByLargestRemainder amt counts = Some shares \<and>
           set (map fst shares) = set (map fst counts) \<and> distinct (map fst shares) \<and>
           sum_list (map snd shares) = amt \<and>
           (\<forall>(p, v)\<in>set shares. amt * the (map_of counts p) div sum_list (map snd counts) \<le> v \<and>
              v \<le> amt * the (map_of counts p) div sum_list (map snd counts) + 1) \<and>
           (\<forall>(p, v)\<in>set shares. \<forall>(q, w)\<in>set shares.
              v = amt * the (map_of counts p) div sum_list (map snd counts) + 1 \<and>
              w = amt * the (map_of counts q) div sum_list (map snd counts) \<longrightarrow>
              amt * the (map_of counts q) mod sum_list (map snd counts)
                \<le> amt * the (map_of counts p) mod sum_list (map snd counts) \<and>
              (amt * the (map_of counts q) mod sum_list (map snd counts) =
                 amt * the (map_of counts p) mod sum_list (map snd counts) \<longrightarrow>
               uuid_string p \<le> uuid_string q))"
proof -
  from split_shares [OF assms] obtain shares where
    s: "splitByLargestRemainder amt counts = Some shares" "map fst shares = sort_key uuid_string (map fst counts)"
      "sum_list (map snd shares) = amt"
      "\<forall>(p, v)\<in>set shares. 0 \<le> v \<and> fair_share amt counts p \<le> v \<and> v \<le> fair_share amt counts p + 1"
      "\<forall>(p, v)\<in>set shares. \<forall>(q, w)\<in>set shares.
         v = fair_share amt counts p + 1 \<and> w = fair_share amt counts q \<longrightarrow>
         fraction amt counts q \<le> fraction amt counts p \<and>
         (fraction amt counts q = fraction amt counts p \<longrightarrow> uuid_string p \<le> uuid_string q)" by blast
  have "set (map fst shares) = set (map fst counts)" "distinct (map fst shares)" using s(2) assms(1) by simp_all
  moreover have "\<forall>(p, v)\<in>set shares. amt * the (map_of counts p) div sum_list (map snd counts) \<le> v \<and>
      v \<le> amt * the (map_of counts p) div sum_list (map snd counts) + 1"
    using s(4) unfolding fair_share_def by fast
  ultimately show ?thesis
    using s(1,3) s(5) [unfolded fair_share_def fraction_def] by blast
qed

theorem split_exact_witness:
  "\<exists>shares. splitByLargestRemainder 100 [(replicate 16 1, 1), (replicate 16 2, 2), (replicate 16 3, 4)] = Some shares \<and>
     sum_list (map snd shares) = 100 \<and>
     \<not> ((replicate 16 1, 15) \<in> set shares \<and> (replicate 16 2, 28) \<in> set shares)"
proof -
  let ?counts = "[(replicate 16 1, 1), (replicate 16 2, 2), (replicate 16 3, 4)] :: (uuid \<times> int) list"
  have m: "the (map_of ?counts (replicate 16 1)) = 1" "the (map_of ?counts (replicate 16 2)) = 2"
    "sum_list (map snd ?counts) = 7" by (simp_all add: numeral_eq_Suc)
  have c: "distinct (map fst ?counts)" "?counts \<noteq> []" "\<forall>(p, c)\<in>set ?counts. 0 < c" by (auto simp: numeral_eq_Suc)
  have n: "0 \<le> (100 :: int)" "100 * sum_list (map snd ?counts) < 2 ^ 63 - 1" "sum_list (map snd ?counts) < 2 ^ 63" by simp_all
  from split_exact [OF c n, unfolded m(3)] obtain shares where
    s: "splitByLargestRemainder 100 ?counts = Some shares" "sum_list (map snd shares) = 100"
    and fair: "\<forall>(p, v)\<in>set shares. \<forall>(q, w)\<in>set shares.
         v = 100 * the (map_of ?counts p) div 7 + 1 \<and> w = 100 * the (map_of ?counts q) div 7 \<longrightarrow>
         100 * the (map_of ?counts q) mod 7 \<le> 100 * the (map_of ?counts p) mod 7 \<and>
         (100 * the (map_of ?counts q) mod 7 = 100 * the (map_of ?counts p) mod 7 \<longrightarrow>
          uuid_string p \<le> uuid_string q)" by (elim exE conjE) (rule that)
  have False if "(replicate 16 1, 15) \<in> set shares" "(replicate 16 2, 28) \<in> set shares"
    using bspec [OF bspec [OF fair that(1), simplified prod.case] that(2), simplified prod.case m] by simp
  with s show ?thesis by blast
qed

text \<open>
  C14: charging conserves money over whole runs. However the statements of earlier runs of the
  period failed, no more has been credited than charged; and a run without failures then ends
  without an error, with exactly one charge for every billed file and exactly the shares of its
  current holders credited, so that the credits add up to the charges, file by file and in total.
  Repeating the run adds nothing.
\<close>

theorem charge_conserves:
  assumes "period_open sha profile period db"
  shows "\<exists>db1 cs ds db' cs' ds'.
           fold (\<lambda>(okq, ok) db. snd (ComputeMonthlyCharges sha okq ok profile period db)) runs db = db1 \<and>
           db1 = db\<lparr>owner_escrow_events := owner_escrow_events db @ cs, escrow_events := escrow_events db @ ds\<rparr> \<and>
           sum_list (map ev_amount ds) \<le> sum_list (map oe_amount cs) \<and>
           ComputeMonthlyCharges sha True (\<lambda>_. True) profile period db1 = ([], db') \<and>
           db' = db\<lparr>owner_escrow_events := owner_escrow_events db @ cs', escrow_events := escrow_events db @ ds'\<rparr> \<and>
           mset cs' = mset (map (\<lambda>f. charge_event sha f period (fileMonthlyCostPaise (original_size_bytes f) profile)) (billed profile db)) \<and>
           mset ds' = mset (concat (map (credits_due sha profile period db) (billed profile db))) \<and>
           (\<forall>f\<in>set (billed profile db).
              sum_list (map ev_amount (credits_due sha profile period db f)) = fileMonthlyCostPaise (original_size_bytes f) profile \<and>
              (\<forall>e\<in>set (credits_due sha profile period db f).
                 ev_type e = EscrowDeposit \<and> ev_provider e \<in> fst ` set (shardHolderCounts db (file_id f)))) \<and>
           sum_list (map ev_amount ds') = sum_list (map oe_amount cs') \<and>
           ComputeMonthlyCharges sha True (\<lambda>_. True) profile period db' = ([], db')"
proof -
  let ?C = "charges_due sha profile period (billed profile db)"
  let ?E = "concat (map (credits_due sha profile period db) (billed profile db))"
  note cp = charges_due_props [OF assms] and ep = all_credits_props [OF assms]
  from runs_underway [OF assms, of runs] obtain cs ds where
    u: "fold (\<lambda>(okq, ok) db. snd (ComputeMonthlyCharges sha okq ok profile period db)) runs db = ledgers db cs ds"
      "underway sha profile period db cs ds" by blast
  let ?a = "owner_escrow_events db @ cs" and ?b = "escrow_events db @ ds"
  define cs' where "cs' = cs @ filter (\<lambda>e. oe_key e \<notin> oe_key ` set ?a) ?C"
  define ds' where "ds' = ds @ filter (\<lambda>e. ev_key e \<notin> ev_key ` set ?b) ?E"
  have run: "ComputeMonthlyCharges sha True (\<lambda>_. True) profile period (ledgers db cs ds) = ([], ledgers db cs' ds')"
    unfolding run_ok [OF assms ledgers_def] cs'_def ds'_def by (simp add: ledgers_def)
  have cs': "mset cs' = mset ?C"
    unfolding cs'_def by (rule completed [OF cp(2)]) (use u(2) cp(3) in \<open>auto simp: underway_def\<close>)
  have ds': "mset ds' = mset ?E"
    unfolding ds'_def by (rule completed [OF ep(2)]) (use u(2) ep(3) in \<open>auto simp: underway_def\<close>)
  have sums: "sum_list (map ev_amount ds') = sum_list (map oe_amount cs')"
    using ep(4) sum_list_mset_eq [OF cs', of oe_amount] sum_list_mset_eq [OF ds', of ev_amount] by simp
  have "filter (\<lambda>e. oe_key e \<notin> oe_key ` set (owner_escrow_events db @ cs')) ?C = []"
    "filter (\<lambda>e. ev_key e \<notin> ev_key ` set (escrow_events db @ ds')) ?E = []"
    using mset_eq_setD [OF cs'] mset_eq_setD [OF ds'] by (auto simp: filter_empty_conv)
  with run_ok [OF assms ledgers_def, of cs' ds']
  have again: "ComputeMonthlyCharges sha True (\<lambda>_. True) profile period (ledgers db cs' ds') = ([], ledgers db cs' ds')"
    by (simp add: ledgers_def)
  have "\<forall>f\<in>set (billed profile db).
      sum_list (map ev_amount (credits_due sha profile period db f)) = fileMonthlyCostPaise (original_size_bytes f) profile \<and>
      (\<forall>e\<in>set (credits_due sha profile period db f).
         ev_type e = EscrowDeposit \<and> ev_provider e \<in> fst ` set (shardHolderCounts db (file_id f)))"
    using credits_due_props(3,4) [OF assms] holder_pairs_holder by metis
  then show ?thesis
    using u(1) underway_sums [OF assms u(2)] run cs' ds' sums again
    unfolding ledgers_def charges_due_def by blast
qed

definition sample_file :: file_row where
  "sample_file = \<lparr>file_id = replicate 16 7, owner_id = replicate 16 8, original_size_bytes = 1073741824, f_status = F_ACTIVE,
     pointer_ciphertext = [], pointer_nonce = replicate 12 0, pointer_tag = replicate 16 0, display_name_ciphertext = None,
     display_name_nonce = None, display_name_tag = None, schema_version = 1\<rparr>"

definition shard_row :: "byte \<Rightarrow> nat \<Rightarrow> assignment_row" where
  "shard_row b i = \<lparr>a_chunk_id = [b], is_vetting_chunk = False, a_segment_id = Some (replicate 16 9),
     shard_index = Some i, a_provider_id = replicate 16 b, a_status = A_ACTIVE\<rparr>"

definition sample_charge_db :: "assignment_row list \<Rightarrow> database" where
  "sample_charge_db as = empty_db\<lparr>files := [sample_file], chunk_assignments := as,
     segments := [\<lparr>segment_id = replicate 16 9, s_file_id = replicate 16 7, segment_index = 0\<rparr>]\<rparr>"

lemma sample_cost: "fileMonthlyCostPaise (original_size_bytes sample_file) DemoProfile = 100000"
  by (simp add: fileMonthlyCostPaise_def sample_file_def DemoProfile_def i64_def bytesPerGB_def
      roundingHalfBytes_def signed_divide_int_def)

lemma sample_counts:
  "b \<noteq> c \<Longrightarrow> shardHolderCounts (sample_charge_db [shard_row b i, shard_row c j]) (file_id sample_file) =
     [(replicate 16 b, 1), (replicate 16 c, 1)]"
  by (simp add: shardHolderCounts_def sample_charge_db_def holds_shard_of_def shard_row_def sample_file_def Let_def segment_file_def)

lemma sample_billed:
  "b \<noteq> c \<Longrightarrow> billed DemoProfile (sample_charge_db [shard_row b i, shard_row c j]) = [sample_file]"
proof -
  have "chargeableFiles (sample_charge_db as) = [sample_file]" for as
    by (simp add: chargeableFiles_def sample_charge_db_def sample_file_def)
  then show "b \<noteq> c \<Longrightarrow> ?thesis" using sample_cost by (simp add: billed_def sample_counts)
qed

lemma sample_pairs:
  "b \<noteq> c \<Longrightarrow> holder_pairs DemoProfile (sample_charge_db [shard_row b i, shard_row c j]) =
     [(replicate 16 b, file_id sample_file), (replicate 16 c, file_id sample_file)]"
  by (simp add: holder_pairs_def sample_billed sample_counts)

lemma sample_open:
  "b \<noteq> c \<Longrightarrow> period_open (\<lambda>x. x) DemoProfile ''2026-01'' (sample_charge_db [shard_row b i, shard_row c j])"
  by (simp add: period_open_def sample_billed sample_pairs sample_counts sample_cost)
    (simp add: sample_charge_db_def empty_db_def)

theorem charge_conserves_witness:
  "\<exists>db1 db'. snd (ComputeMonthlyCharges (\<lambda>x. x) True (\<lambda>s. s \<noteq> InsertCredit (replicate 16 7) (replicate 16 2))
        DemoProfile ''2026-01'' (sample_charge_db [shard_row 1 0, shard_row 2 1])) = db1 \<and>
     ComputeMonthlyCharges (\<lambda>x. x) True (\<lambda>_. True) DemoProfile ''2026-01'' db1 = ([], db') \<and>
     sum_list (map ev_amount (escrow_events db')) = 100000 \<and> sum_list (map oe_amount (owner_escrow_events db')) = 100000"
proof -
  let ?db = "sample_charge_db [shard_row 1 0, shard_row 2 1]"
  let ?ok = "\<lambda>s. s \<noteq> InsertCredit (replicate 16 7) (replicate 16 2)"
  have o: "period_open (\<lambda>x. x) DemoProfile ''2026-01'' ?db" by (rule sample_open) simp
  from charge_conserves [OF o, of "[(True, ?ok)]"] obtain db1 db' cs' ds' where
    r: "snd (ComputeMonthlyCharges (\<lambda>x. x) True ?ok DemoProfile ''2026-01'' ?db) = db1"
      "ComputeMonthlyCharges (\<lambda>x. x) True (\<lambda>_. True) DemoProfile ''2026-01'' db1 = ([], db')"
      "db' = ?db\<lparr>owner_escrow_events := owner_escrow_events ?db @ cs', escrow_events := escrow_events ?db @ ds'\<rparr>"
      "mset cs' = mset (map (\<lambda>f. charge_event (\<lambda>x. x) f ''2026-01''
          (fileMonthlyCostPaise (original_size_bytes f) DemoProfile)) (billed DemoProfile ?db))"
      "sum_list (map ev_amount ds') = sum_list (map oe_amount cs')" by fastforce
  have "cs' = [charge_event (\<lambda>x. x) sample_file ''2026-01'' 100000]" using r(4) sample_cost by (simp add: sample_billed)
  with r(3,5) have "sum_list (map ev_amount (escrow_events db')) = 100000 \<and> sum_list (map oe_amount (owner_escrow_events db')) = 100000"
    by (simp add: sample_charge_db_def empty_db_def charge_event_def)
  with r(1,2) show ?thesis by blast
qed

text \<open>
  C15: a second run in the same billing period does not conserve money when the holders of a file
  have changed since the first (a repair moved shards). The first run charges and credits equal
  amounts; the second one recognises every charge as a duplicate, but credits every share of a
  holder that was not credited before, so that at least that share has been credited in excess of
  what the owners were charged.
\<close>

theorem recharge_overcredits:
  fixes sha :: hash
  assumes "period_open sha profile period db" and "period_open sha profile period (db\<lparr>chunk_assignments := as\<rparr>)"
    and "set (billed profile (db\<lparr>chunk_assignments := as\<rparr>)) \<subseteq> set (billed profile db)"
    and "inj_on (\<lambda>(p, fid). sha (p @ fid @ text_bytes period))
           (set (holder_pairs profile db) \<union> set (holder_pairs profile (db\<lparr>chunk_assignments := as\<rparr>)))"
    and "f \<in> set (billed profile (db\<lparr>chunk_assignments := as\<rparr>))"
    and "splitByLargestRemainder (fileMonthlyCostPaise (original_size_bytes f) profile)
           (shardHolderCounts (db\<lparr>chunk_assignments := as\<rparr>) (file_id f)) = Some shares"
    and "(p, v) \<in> set shares" and "0 < v" and "p \<notin> fst ` set (shardHolderCounts db (file_id f))"
  shows "\<exists>db1 cs ds db2 ds2.
           ComputeMonthlyCharges sha True (\<lambda>_. True) profile period db = ([], db1) \<and>
           ComputeMonthlyCharges sha True (\<lambda>_. True) profile period (db1\<lparr>chunk_assignments := as\<rparr>) = ([], db2) \<and>
           owner_escrow_events db1 = owner_escrow_events db @ cs \<and> escrow_events db1 = escrow_events db @ ds \<and>
           sum_list (map ev_amount ds) = sum_list (map oe_amount cs) \<and>
           owner_escrow_events db2 = owner_escrow_events db1 \<and> escrow_events db2 = escrow_events db1 @ ds2 \<and>
           sum_list (map oe_amount cs) + v \<le> sum_list (map ev_amount (ds @ ds2))"
proof -
  let ?db' = "db\<lparr>chunk_assignments := as\<rparr>"
  let ?C = "charges_due sha profile period (billed profile db)"
  let ?E = "concat (map (credits_due sha profile period db) (billed profile db))"
  let ?C' = "charges_due sha profile period (billed profile ?db')"
  let ?E' = "concat (map (credits_due sha profile period ?db') (billed profile ?db'))"
  note cp = charges_due_props [OF assms(1)] and ep = all_credits_props [OF assms(1)]
    and ep' = all_credits_props [OF assms(2)]
  have "filter (\<lambda>e. oe_key e \<notin> oe_key ` set (owner_escrow_events db)) ?C = ?C"
    "filter (\<lambda>e. ev_key e \<notin> ev_key ` set (escrow_events db)) ?E = ?E"
    using cp(3) ep(3) by (simp_all add: filter_id_conv)
  with run_ok [OF assms(1), where ?db1.0 = db and a = "owner_escrow_events db" and b = "escrow_events db"]
  have first: "ComputeMonthlyCharges sha True (\<lambda>_. True) profile period db = ([], ledgers db ?C ?E)"
    by (simp add: ledgers_def)
  have C': "filter (\<lambda>e. oe_key e \<notin> oe_key ` set (owner_escrow_events db @ ?C)) ?C' = []"
    using assms(3) by (auto simp: charges_due_def filter_empty_conv)
  define ds2 where "ds2 = filter (\<lambda>e. ev_key e \<notin> ev_key ` set (escrow_events db @ ?E)) ?E'"
  have second: "ComputeMonthlyCharges sha True (\<lambda>_. True) profile period ((ledgers db ?C ?E)\<lparr>chunk_assignments := as\<rparr>) =
      ([], (ledgers db ?C (?E @ ds2))\<lparr>chunk_assignments := as\<rparr>)"
    using run_ok [OF assms(2), where ?db1.0 = "(ledgers db ?C ?E)\<lparr>chunk_assignments := as\<rparr>" and
        a = "owner_escrow_events db @ ?C" and b = "escrow_events db @ ?E"] C'
    by (simp add: ledgers_def ds2_def)
  let ?e = "credit_event sha (file_id f) period p v"
  have eE: "?e \<in> set (credits_due sha profile period ?db' f)"
    using assms(6-8) by (auto simp: credits_due_def credits_def)
  have pair: "(p, file_id f) \<in> set (holder_pairs profile ?db')"
    using credits_due_props(4) [OF assms(2,5)] eE by (fastforce simp: credit_event_def)
  have notold: "(p, file_id f) \<notin> set (holder_pairs profile db)"
    using assms(9) holder_pairs_holder by metis
  have "ev_key ?e \<noteq> ev_key e" if "e \<in> set ?E" for e
  proof
    assume eq: "ev_key ?e = ev_key e"
    from that obtain g where "g \<in> set (billed profile db)" "e \<in> set (credits_due sha profile period db g)" by auto
    with credits_due_props(4) [OF assms(1)] obtain q where
      q: "(q, file_id g) \<in> set (holder_pairs profile db)" "ev_key e = chargeDepositIdempotencyKey sha q (file_id g) period" by blast
    have "(p, file_id f) = (q, file_id g)"
      using eq q pair by (intro inj_onD [OF assms(4)])
        (auto simp: chargeDepositIdempotencyKey_def credit_event_def dest: hex_encode_inj)
    with q(1) notold show False by simp
  qed
  then have "ev_key ?e \<notin> ev_key ` set ?E" by blast
  moreover have "?e \<in> set ?E'" using eE assms(5) by auto
  moreover have "ev_key ?e \<notin> ev_key ` set (escrow_events ?db')" using ep'(3) \<open>?e \<in> set ?E'\<close> by blast
  ultimately have "?e \<in> set ds2" by (simp add: ds2_def image_Un)
  moreover have "\<forall>e\<in>set ds2. 0 \<le> ev_amount e" using ep'(1) by (auto simp: ds2_def intro: less_imp_le)
  ultimately have "sum_list (map ev_amount [?e]) \<le> sum_list (map ev_amount ds2)"
    by (intro sum_list_subset) auto
  then have "sum_list (map oe_amount ?C) + v \<le> sum_list (map ev_amount (?E @ ds2))"
    using ep(4) by (simp add: credit_event_def)
  with first second ep(4) show ?thesis
    by (intro exI [of _ "ledgers db ?C ?E"] exI [of _ ?C] exI [of _ ?E]
        exI [of _ "(ledgers db ?C (?E @ ds2))\<lparr>chunk_assignments := as\<rparr>"] exI [of _ ds2]) (simp add: ledgers_def)
qed

theorem recharge_overcredits_witness:
  "\<exists>db1 db2. ComputeMonthlyCharges (\<lambda>x. x) True (\<lambda>_. True) DemoProfile ''2026-01''
        (sample_charge_db [shard_row 1 0, shard_row 2 1]) = ([], db1) \<and>
     ComputeMonthlyCharges (\<lambda>x. x) True (\<lambda>_. True) DemoProfile ''2026-01''
        (db1\<lparr>chunk_assignments := [shard_row 1 0, shard_row 3 1]\<rparr>) = ([], db2) \<and>
     sum_list (map oe_amount (owner_escrow_events db2)) + 50000 \<le> sum_list (map ev_amount (escrow_events db2))"
proof -
  let ?db = "sample_charge_db [shard_row 1 0, shard_row 2 1]" and ?as = "[shard_row 1 0, shard_row 3 1]"
  have moved: "?db\<lparr>chunk_assignments := ?as\<rparr> = sample_charge_db ?as" by (simp add: sample_charge_db_def)
  have halves: "splitByLargestRemainder 100000 [(replicate 16 1, 1), (replicate 16 3, 1)] =
      Some [(replicate 16 1, 50000), (replicate 16 3, 50000)]" by code_simp
  have "\<exists>db1 cs ds db2 ds2.
      ComputeMonthlyCharges (\<lambda>x. x) True (\<lambda>_. True) DemoProfile ''2026-01'' ?db = ([], db1) \<and>
      ComputeMonthlyCharges (\<lambda>x. x) True (\<lambda>_. True) DemoProfile ''2026-01'' (db1\<lparr>chunk_assignments := ?as\<rparr>) = ([], db2) \<and>
      owner_escrow_events db1 = owner_escrow_events ?db @ cs \<and> escrow_events db1 = escrow_events ?db @ ds \<and>
      sum_list (map ev_amount ds) = sum_list (map oe_amount cs) \<and>
      owner_escrow_events db2 = owner_escrow_events db1 \<and> escrow_events db2 = escrow_events db1 @ ds2 \<and>
      sum_list (map oe_amount cs) + 50000 \<le> sum_list (map ev_amount (ds @ ds2))"
    by (rule recharge_overcredits [where f = sample_file and p = "replicate 16 3" and
          shares = "[(replicate 16 1, 50000), (replicate 16 3, 50000)]"])
      (simp_all add: inj_on_def moved sample_open sample_billed sample_pairs sample_counts sample_cost halves del: One_nat_def)
  then show ?thesis by (fastforce simp: sample_charge_db_def empty_db_def)
qed

end
