(* ===== verification/Scoring.thy ===== *)
theory Scoring
  imports Database
begin

text \<open>
  Reliability scores and vetting, \<^verbatim>\<open>internal/scoring\<close>. The three-window scores are read from the
  materialized view, round-trip statistics and the vetting counter are columns of the provider
  row. \<^verbatim>\<open>float64\<close> values are rationals here: rounding of the floating-point unit is not modelled.
  \<open>ok\<close> says for each SQL statement whether the database executed it; a failed statement rolls the
  transaction back.
\<close>

datatype scoring_error = ErrProviderNotFound | ErrProviderNotVetting | ErrNoPoolMedianAvailable | ErrScoringDB

subsection \<open>Scores\<close>

definition dualWindowDropThreshold :: rat where "dualWindowDropThreshold = 20 / 100"

record ProviderScore =
  Score24h :: rat
  Score7d :: rat
  Score30d :: rat
  HasScore24h :: bool
  HasScore7d :: bool
  HasScore30d :: bool
  Composite :: rat
  DualWindowFlag :: bool
  ScoresAsOf :: time

definition nullFloatOrZero :: "rat option \<Rightarrow> rat" where
  "nullFloatOrZero nf = (case nf of None \<Rightarrow> 0 | Some x \<Rightarrow> x)"

definition queryProviderScore :: "bool \<Rightarrow> database \<Rightarrow> uuid \<Rightarrow> scoring_error + ProviderScore" where
  "queryProviderScore ok db providerID =
     (if \<not> ok then Inl ErrScoringDB
      else case mv_provider_scores db providerID of
        None \<Rightarrow> Inl ErrProviderNotFound
      | Some r \<Rightarrow>
          let s24 = nullFloatOrZero (score_24h r);
              s7 = nullFloatOrZero (score_7d r);
              s30 = nullFloatOrZero (score_30d r)
          in Inr \<lparr>Score24h = s24, Score7d = s7, Score30d = s30,
                  HasScore24h = (score_24h r \<noteq> None), HasScore7d = (score_7d r \<noteq> None),
                  HasScore30d = (score_30d r \<noteq> None), Composite = score_composite r,
                  DualWindowFlag = (score_7d r \<noteq> None \<and> score_30d r \<noteq> None \<and> s30 - s7 > dualWindowDropThreshold),
                  ScoresAsOf = scores_as_of r\<rparr>)"

definition GetScore :: "bool \<Rightarrow> database \<Rightarrow> uuid \<Rightarrow> scoring_error + ProviderScore" where
  "GetScore ok db providerID = queryProviderScore ok db providerID"

definition GetScoreFromPrimary :: "bool \<Rightarrow> database \<Rightarrow> uuid \<Rightarrow> scoring_error + ProviderScore" where
  "GetScoreFromPrimary ok primaryDB providerID = queryProviderScore ok primaryDB providerID"

definition basisPointsScale :: rat where "basisPointsScale = 10000"

text \<open>\<^verbatim>\<open>math.Round\<close>: half away from zero.\<close>

definition math_Round :: "rat \<Rightarrow> int" where
  "math_Round x = (if 0 \<le> x then \<lfloor>x + 1 / 2\<rfloor> else - \<lfloor>- x + 1 / 2\<rfloor>)"

definition Score30dBasisPoints :: "ProviderScore \<Rightarrow> int" where
  "Score30dBasisPoints p = math_Round (Score30d p * basisPointsScale)"

definition Score7dBasisPoints :: "ProviderScore \<Rightarrow> int" where
  "Score7dBasisPoints p = math_Round (Score7d p * basisPointsScale)"

subsection \<open>Round-trip estimates\<close>

definition rtoEWMAAlpha :: rat where "rtoEWMAAlpha = 1 / 8"
definition rtoEWMABeta :: rat where "rtoEWMABeta = 1 / 4"

datatype rto_stmt = RtoBegin | RtoSelect | RtoUpdate | RtoCommit

definition rto_row :: "int \<Rightarrow> rat \<Rightarrow> provider_row \<Rightarrow> provider_row" where
  "rto_row responseLatencyMs throughputKbps r =
     (let sampleMs = of_int responseLatencyMs;
          (newAvgRTT, newVarRTT) =
            (case avg_rtt_ms r of
               Some a \<Rightarrow> (a + rtoEWMAAlpha * (sampleMs - a),
                          var_rtt_ms r + rtoEWMABeta * (\<bar>sampleMs - a\<bar> - var_rtt_ms r))
             | None \<Rightarrow> (sampleMs, 0));
          newP95Thpt =
            (case p95_throughput_kbps r of
               Some p \<Rightarrow> p + rtoEWMAAlpha * (throughputKbps - p)
             | None \<Rightarrow> throughputKbps)
      in r\<lparr>avg_rtt_ms := Some newAvgRTT, var_rtt_ms := newVarRTT, p95_throughput_kbps := Some newP95Thpt,
           rto_sample_count := rto_sample_count r + 1\<rparr>)"

definition UpdateRTO ::
  "(rto_stmt \<Rightarrow> bool) \<Rightarrow> uuid \<Rightarrow> int \<Rightarrow> rat \<Rightarrow> database \<Rightarrow> scoring_error option \<times> database" where
  "UpdateRTO ok providerID responseLatencyMs throughputKbps db =
     (if \<not> ok RtoBegin \<or> \<not> ok RtoSelect then (Some ErrScoringDB, db)
      else case find_provider db providerID of
        None \<Rightarrow> (Some ErrScoringDB, db)
      | Some _ \<Rightarrow>
          if \<not> ok RtoUpdate \<or> \<not> ok RtoCommit then (Some ErrScoringDB, db)
          else (None, db\<lparr>providers := update_where (\<lambda>r. provider_id r = providerID)
                                       (rto_row responseLatencyMs throughputKbps) (providers db)\<rparr>))"

text \<open>\<^verbatim>\<open>PERCENTILE_CONT(0.5)\<close> of \<open>avg + 4 * var\<close> over established active providers.\<close>

definition percentile_cont_half :: "rat list \<Rightarrow> rat option" where
  "percentile_cont_half xs =
     (let ys = sort xs; n = length ys
      in if n = 0 then None
         else Some ((ys ! ((n - 1) div 2) + ys ! (n div 2)) / 2))"

definition queryPoolMedianRTO :: "database \<Rightarrow> rat option" where
  "queryPoolMedianRTO db =
     percentile_cont_half
       (List.map_filter (\<lambda>r. if status r = ACTIVE \<and> 5 \<le> rto_sample_count r
                             then map_option (\<lambda>a. a + 4 * var_rtt_ms r) (avg_rtt_ms r) else None)
          (providers db))"

definition poolMedianCacheTTL :: duration where "poolMedianCacheTTL = 5 * minute"

record poolMedianCacheEntry =
  cache_value :: rat
  computedAt :: time

definition PoolMedianRTO ::
  "bool \<Rightarrow> time \<Rightarrow> database \<Rightarrow> poolMedianCacheEntry option \<Rightarrow>
     (scoring_error + rat) \<times> poolMedianCacheEntry option" where
  "PoolMedianRTO ok now db cache =
     (case cache of
        Some entry \<Rightarrow>
          if now - computedAt entry < poolMedianCacheTTL then (Inr (cache_value entry), cache)
          else if \<not> ok then (Inl ErrScoringDB, cache)
          else (case queryPoolMedianRTO db of
                  None \<Rightarrow> (Inl ErrNoPoolMedianAvailable, cache)
                | Some median \<Rightarrow> (Inr median, Some \<lparr>cache_value = median, computedAt = now\<rparr>))
      | None \<Rightarrow>
          if \<not> ok then (Inl ErrScoringDB, cache)
          else (case queryPoolMedianRTO db of
                  None \<Rightarrow> (Inl ErrNoPoolMedianAvailable, cache)
                | Some median \<Rightarrow> (Inr median, Some \<lparr>cache_value = median, computedAt = now\<rparr>)))"

subsection \<open>Vetting\<close>

datatype passes_stmt = PassesBegin | PassesSelect | PassesUpdate | PassesCommit

definition IncrementConsecutivePasses ::
  "(passes_stmt \<Rightarrow> bool) \<Rightarrow> time \<Rightarrow> uuid \<Rightarrow> NetworkProfile \<Rightarrow> database \<Rightarrow> scoring_error option \<times> database" where
  "IncrementConsecutivePasses ok now providerID profile db =
     (if \<not> ok PassesBegin \<or> \<not> ok PassesSelect then (Some ErrScoringDB, db)
      else case find_provider db providerID of
        None \<Rightarrow> (Some ErrScoringDB, db)
      | Some row \<Rightarrow>
          if status row \<noteq> VETTING then (Some ErrProviderNotVetting, db)
          else
            let newPasses = consecutive_audit_passes row + 1;
                durationSatisfied =
                  (case first_chunk_assignment_at row of
                     None \<Rightarrow> False
                   | Some t \<Rightarrow> \<not> now < t + VettingMinDuration profile);
                transitionsToActive = (newPasses \<ge> VettingMinPasses profile \<and> durationSatisfied);
                f = (if transitionsToActive
                     then (\<lambda>r. r\<lparr>consecutive_audit_passes := newPasses, status := ACTIVE\<rparr>)
                     else (\<lambda>r. r\<lparr>consecutive_audit_passes := newPasses\<rparr>))
            in if \<not> ok PassesUpdate \<or> \<not> ok PassesCommit then (Some ErrScoringDB, db)
               else (None, db\<lparr>providers := update_where (\<lambda>r. provider_id r = providerID) f (providers db)\<rparr>))"

definition ResetConsecutivePasses :: "bool \<Rightarrow> uuid \<Rightarrow> database \<Rightarrow> scoring_error option \<times> database" where
  "ResetConsecutivePasses ok providerID db =
     (if \<not> ok then (Some ErrScoringDB, db)
      else (None, db\<lparr>providers := update_where (\<lambda>r. provider_id r = providerID)
                                   (\<lambda>r. r\<lparr>consecutive_audit_passes := 0\<rparr>) (providers db)\<rparr>))"

subsection \<open>Lemmas\<close>

text \<open>An exponentially weighted average stays between its old value and the sample.\<close>

lemma ewma_between:
  fixes a s :: rat
  assumes "0 \<le> w" and "w \<le> 1" and "lo \<le> a" and "a \<le> hi" and "lo \<le> s" and "s \<le> hi"
  shows "lo \<le> a + w * (s - a) \<and> a + w * (s - a) \<le> hi"
proof -
  have eq: "a + w * (s - a) = (1 - w) * a + w * s" by (simp add: algebra_simps)
  have "(1 - w) * lo + w * lo \<le> (1 - w) * a + w * s"
    using assms by (intro add_mono mult_left_mono) auto
  moreover have "(1 - w) * a + w * s \<le> (1 - w) * hi + w * hi"
    using assms by (intro add_mono mult_left_mono) auto
  ultimately show ?thesis by (simp add: eq algebra_simps)
qed

subsection \<open>Properties\<close>

abbreviation vetting_done :: "NetworkProfile \<Rightarrow> time \<Rightarrow> provider_row \<Rightarrow> bool" where
  "vetting_done profile now r \<equiv>
     VettingMinPasses profile \<le> consecutive_audit_passes r + 1 \<and>
     (\<exists>t. first_chunk_assignment_at r = Some t \<and> t + VettingMinDuration profile \<le> now)"

text \<open>
  a pass promotes a provider out of vetting exactly when it completes the required run of
  passes and the minimum time since its first chunk has elapsed; it counts the pass in every case,
  touches no other provider, and any failing statement leaves the database as it was.
\<close>

theorem vetting_promotion:
  assumes "find_provider db pid = Some r" and "status r = VETTING"
  shows "if \<forall>s. ok s then
           \<exists>db'. IncrementConsecutivePasses ok now pid profile db = (None, db') \<and>
             find_provider db' pid =
               Some (r\<lparr>consecutive_audit_passes := consecutive_audit_passes r + 1,
                       status := (if vetting_done profile now r then ACTIVE else VETTING)\<rparr>) \<and>
             (\<forall>q. q \<noteq> pid \<longrightarrow> find_provider db' q = find_provider db q)
         else IncrementConsecutivePasses ok now pid profile db = (Some ErrScoringDB, db)"
proof (cases "\<forall>s. ok s")
  case True
  define f :: "provider_row \<Rightarrow> provider_row" where "f = (if vetting_done profile now r
     then (\<lambda>r'. r'\<lparr>consecutive_audit_passes := consecutive_audit_passes r + 1, status := ACTIVE\<rparr>)
     else (\<lambda>r'. r'\<lparr>consecutive_audit_passes := consecutive_audit_passes r + 1\<rparr>))"
  let ?db = "db\<lparr>providers := update_where (\<lambda>r. provider_id r = pid) f (providers db)\<rparr>"
  have id: "provider_id (f r') = provider_id r'" for r' by (simp add: f_def)
  have "IncrementConsecutivePasses ok now pid profile db = (None, ?db)"
    using True assms by (auto simp: IncrementConsecutivePasses_def Let_def f_def not_less split: option.splits)
  moreover have "find_provider ?db pid = Some (f r)"
    using find_provider_update [OF assms(1), of f] id find_provider_id [OF assms(1)] by simp
  moreover have "f r = r\<lparr>consecutive_audit_passes := consecutive_audit_passes r + 1,
      status := (if vetting_done profile now r then ACTIVE else VETTING)\<rparr>"
    using assms(2) by (cases r) (simp add: f_def)
  ultimately show ?thesis
    using True find_provider_update_other [of f _ pid db, OF id] by auto
next
  case False
  then obtain s where "\<not> ok s" by blast
  with assms False show ?thesis
    by (cases s) (auto simp: IncrementConsecutivePasses_def Let_def)
qed

definition sample_provider :: provider_row where
  "sample_provider = \<lparr>provider_id = replicate 16 1, status = VETTING, frozen = False, departed_at = None,
     last_heartbeat_ts = Some 0, asn = ''AS1'', linked_account = Some ''acc'', cooling_until = Some 0,
     consecutive_audit_passes = 4, first_chunk_assignment_at = Some 0, avg_rtt_ms = None, var_rtt_ms = 0,
     p95_throughput_kbps = None, rto_sample_count = 0,
     multiaddr_stale = False, ed25519_public_key = replicate 32 0,
     last_known_multiaddrs = [], region = []\<rparr>"

lemma find_sample_provider:
  "find_provider (empty_db\<lparr>providers := [sample_provider]\<rparr>) (replicate 16 1) = Some sample_provider"
  by (simp add: find_provider_def sample_provider_def)

theorem vetting_promotion_witness:
  "\<exists>db'. IncrementConsecutivePasses (\<lambda>_. True) (5 * minute) (replicate 16 1) DemoProfile
           (empty_db\<lparr>providers := [sample_provider]\<rparr>) = (None, db') \<and>
         map_option status (find_provider db' (replicate 16 1)) = Some ACTIVE"
  using vetting_promotion [OF find_sample_provider, of "\<lambda>_. True" "5 * minute" DemoProfile]
  by (auto simp: sample_provider_def DemoProfile_def duration_defs)

text \<open>
  C11: the round-trip estimate stays within the range of the samples seen, its deviation never
  becomes negative, and each update counts one sample of that provider only.
\<close>

theorem UpdateRTO_bounds:
  assumes "find_provider db pid = Some r" and "\<forall>s. ok s" and "0 \<le> var_rtt_ms r"
    and "case avg_rtt_ms r of None \<Rightarrow> True | Some a \<Rightarrow> lo \<le> a \<and> a \<le> hi"
    and "lo \<le> of_int ms" and "of_int ms \<le> hi"
  shows "\<exists>db' r' a. UpdateRTO ok pid ms tp db = (None, db') \<and> find_provider db' pid = Some r' \<and>
           avg_rtt_ms r' = Some a \<and> lo \<le> a \<and> a \<le> hi \<and> 0 \<le> var_rtt_ms r' \<and>
           rto_sample_count r' = rto_sample_count r + 1 \<and>
           (\<forall>q. q \<noteq> pid \<longrightarrow> find_provider db' q = find_provider db q)"
proof -
  let ?f = "rto_row ms tp" and ?r = "rto_row ms tp r"
  let ?db = "db\<lparr>providers := update_where (\<lambda>r. provider_id r = pid) ?f (providers db)\<rparr>"
  have id: "provider_id (?f x) = provider_id x" for x by (simp add: rto_row_def Let_def split: prod.split)
  have "UpdateRTO ok pid ms tp db = (None, ?db)"
    using assms(1,2) by (simp add: UpdateRTO_def)
  moreover have "find_provider ?db pid = Some ?r"
    using find_provider_update [OF assms(1), of ?f] id find_provider_id [OF assms(1)] by simp
  moreover have "\<exists>a. avg_rtt_ms ?r = Some a \<and> lo \<le> a \<and> a \<le> hi"
    using assms(4-6) ewma_between [of rtoEWMAAlpha lo _ hi "of_int ms"]
    by (cases "avg_rtt_ms r") (auto simp: rto_row_def Let_def rtoEWMAAlpha_def)
  moreover have "0 \<le> var_rtt_ms r + rtoEWMABeta * (d - var_rtt_ms r)" if "0 \<le> d" for d
    using ewma_between [of rtoEWMABeta 0 "var_rtt_ms r" "max d (var_rtt_ms r)" d] assms(3) that
    by (auto simp: rtoEWMABeta_def)
  then have "0 \<le> var_rtt_ms ?r"
    by (cases "avg_rtt_ms r") (auto simp: rto_row_def Let_def)
  moreover have "rto_sample_count ?r = rto_sample_count r + 1"
    by (simp add: rto_row_def Let_def split: prod.split)
  ultimately show ?thesis
    using find_provider_update_other [of ?f _ pid db, OF id] by blast
qed

theorem UpdateRTO_bounds_witness:
  "\<exists>db' r' a. UpdateRTO (\<lambda>_. True) (replicate 16 1) 40 100 (empty_db\<lparr>providers := [sample_provider]\<rparr>) = (None, db') \<and>
     find_provider db' (replicate 16 1) = Some r' \<and> avg_rtt_ms r' = Some a \<and> 30 \<le> a \<and> a \<le> 50"
  using UpdateRTO_bounds [OF find_sample_provider, of "\<lambda>_. True" 30 50 40 100]
  by (auto simp: sample_provider_def)

end
