(* ===== verification/Release.thy ===== *)
theory Release
  imports Ledger Scoring
begin

text \<open>
  The monthly release, \<^verbatim>\<open>internal/payment/release.go\<close>: from a provider's score to the share of its
  escrow balance that is paid out, the run over all open audit periods, its read-only preview, and
  the calendar rule of the release and charge loops. The payment provider is the argument
  \<open>release\<close>; \<open>ok\<close> says which SQL statements succeed, \<open>now\<close> is the clock.
\<close>

definition scoreStalenessLimit :: duration where "scoreStalenessLimit = 60 * minute"
definition basisPointsDivisor :: int where "basisPointsDivisor = 10000"
definition multiplierFullBP :: int where "multiplierFullBP = 10000"
definition multiplierPartialHiBP :: int where "multiplierPartialHiBP = 7500"
definition multiplierPartialLoBP :: int where "multiplierPartialLoBP = 5000"
definition multiplierNoneBP :: int where "multiplierNoneBP = 0"
definition tierFullThresholdBP :: int where "tierFullThresholdBP = 9500"
definition tierPartialHiThresholdBP :: int where "tierPartialHiThresholdBP = 8000"
definition tierPartialLoThresholdBP :: int where "tierPartialLoThresholdBP = 6500"

lemmas tier_defs = multiplierFullBP_def multiplierPartialHiBP_def multiplierPartialLoBP_def multiplierNoneBP_def
  tierFullThresholdBP_def tierPartialHiThresholdBP_def tierPartialLoThresholdBP_def basisPointsDivisor_def

definition releaseMultiplierBasisPoints :: "int \<Rightarrow> int" where
  "releaseMultiplierBasisPoints scoreBP =
     (if scoreBP \<ge> tierFullThresholdBP then multiplierFullBP
      else if scoreBP \<ge> tierPartialHiThresholdBP then multiplierPartialHiBP
      else if scoreBP \<ge> tierPartialLoThresholdBP then multiplierPartialLoBP
      else multiplierNoneBP)"

definition isScoreStale :: "time \<Rightarrow> time \<Rightarrow> bool" where
  "isScoreStale now scoresAsOf \<longleftrightarrow> now - scoresAsOf > scoreStalenessLimit"

definition score_multiplier :: "ProviderScore \<Rightarrow> int" where
  "score_multiplier score =
     (let multiplierBP = releaseMultiplierBasisPoints (Score30dBasisPoints score)
      in if DualWindowFlag score
         then (let m7 = releaseMultiplierBasisPoints (Score7dBasisPoints score)
               in if m7 < multiplierBP then m7 else multiplierBP)
         else multiplierBP)"

datatype release_stmt = QueryScore uuid | QueryBalance uuid | MarkComputed uuid

definition markReleaseComputed :: "bool \<Rightarrow> uuid \<Rightarrow> database \<Rightarrow> pay_error option \<times> database" where
  "markReleaseComputed ok auditPeriodID db =
     (if \<not> ok then (Some ErrDB, db)
      else (None, db\<lparr>audit_periods := update_where (\<lambda>r. period_id r = auditPeriodID)
                       (\<lambda>r. r\<lparr>release_computed := True\<rparr>) (audit_periods db)\<rparr>))"

definition MarkReleaseComputed :: "bool \<Rightarrow> uuid \<Rightarrow> database \<Rightarrow> pay_error option \<times> database" where
  "MarkReleaseComputed ok auditPeriodID db = markReleaseComputed ok auditPeriodID db"

type_synonym releaser = "uuid \<Rightarrow> int \<Rightarrow> uuid \<Rightarrow> string \<Rightarrow> database \<Rightarrow> pay_error option \<times> database"

definition computeReleaseForProvider ::
  "hash \<Rightarrow> (release_stmt \<Rightarrow> bool) \<Rightarrow> time \<Rightarrow> releaser \<Rightarrow> uuid \<Rightarrow> uuid \<Rightarrow> database \<Rightarrow> pay_error option \<times> database" where
  "computeReleaseForProvider sha ok now release providerID auditPeriodID db =
     (case GetScoreFromPrimary (ok (QueryScore auditPeriodID)) db providerID of
        Inl _ \<Rightarrow> (Some ErrGetScore, db)
      | Inr score \<Rightarrow>
          if isScoreStale now (ScoresAsOf score) then (None, db)
          else
            let multiplierBP = score_multiplier score
            in case providerBalance (ok (QueryBalance auditPeriodID)) db providerID of
                 Inl e \<Rightarrow> (Some e, db)
               | Inr balancePaise \<Rightarrow>
                   let releaseAmountPaise = i64 (balancePaise * multiplierBP) sdiv basisPointsDivisor
                   in if releaseAmountPaise > 0 then
                        (case release providerID releaseAmountPaise auditPeriodID
                                (ReleaseIdempotencyKey sha providerID auditPeriodID) db of
                           (Some e, db') \<Rightarrow> (Some e, db')
                         | (None, db') \<Rightarrow> markReleaseComputed (ok (MarkComputed auditPeriodID)) auditPeriodID db')
                      else markReleaseComputed (ok (MarkComputed auditPeriodID)) auditPeriodID db)"

definition pendingReleaseCandidates :: "database \<Rightarrow> period_row list" where
  "pendingReleaseCandidates db = filter (\<lambda>r. \<not> release_computed r) (audit_periods db)"

fun release_candidates ::
  "hash \<Rightarrow> (release_stmt \<Rightarrow> bool) \<Rightarrow> time \<Rightarrow> releaser \<Rightarrow> period_row list \<Rightarrow> database \<Rightarrow> pay_error list \<times> database" where
  "release_candidates sha ok now release [] db = ([], db)"
| "release_candidates sha ok now release (c # cs) db =
     (let (err, db') = computeReleaseForProvider sha ok now release (period_provider c) (period_id c) db;
          (errs, db'') = release_candidates sha ok now release cs db'
      in (case err of None \<Rightarrow> errs | Some e \<Rightarrow> e # errs, db''))"

definition ComputeMonthlyRelease ::
  "hash \<Rightarrow> bool \<Rightarrow> (release_stmt \<Rightarrow> bool) \<Rightarrow> time \<Rightarrow> releaser \<Rightarrow> database \<Rightarrow> pay_error list \<times> database" where
  "ComputeMonthlyRelease sha okq ok now release db =
     (if \<not> okq then ([ErrDB], db) else release_candidates sha ok now release (pendingReleaseCandidates db) db)"

subsection \<open>Preview\<close>

record ProviderReleasePreview =
  PreviewProviderID :: uuid
  BalancePaise :: int
  MultiplierBP :: int
  ReleasePaise :: int
  RemainderBP :: int
  ScoreStale :: bool

definition preview_one :: "(release_stmt \<Rightarrow> bool) \<Rightarrow> time \<Rightarrow> database \<Rightarrow> period_row \<Rightarrow> pay_error + ProviderReleasePreview" where
  "preview_one ok now db c =
     (case GetScore (ok (QueryScore (period_id c))) db (period_provider c) of
        Inl _ \<Rightarrow> Inl ErrGetScore
      | Inr score \<Rightarrow>
          let multiplierBP = score_multiplier score
          in case providerBalance (ok (QueryBalance (period_id c))) db (period_provider c) of
               Inl e \<Rightarrow> Inl e
             | Inr balancePaise \<Rightarrow>
                 let numerator = i64 (balancePaise * multiplierBP);
                     releasePaise = numerator sdiv basisPointsDivisor;
                     remainderBP = i64 (numerator - i64 (releasePaise * basisPointsDivisor))
                 in Inr \<lparr>PreviewProviderID = period_provider c, BalancePaise = balancePaise,
                         MultiplierBP = multiplierBP, ReleasePaise = releasePaise, RemainderBP = remainderBP,
                         ScoreStale = isScoreStale now (ScoresAsOf score)\<rparr>)"

definition PreviewMonthlyRelease ::
  "bool \<Rightarrow> (release_stmt \<Rightarrow> bool) \<Rightarrow> time \<Rightarrow> database \<Rightarrow> ProviderReleasePreview list \<times> pay_error list" where
  "PreviewMonthlyRelease okq ok now db =
     (if \<not> okq then ([], [ErrDB])
      else let rs = map (preview_one ok now db) (pendingReleaseCandidates db)
           in (List.map_filter (\<lambda>r. case r of Inr p \<Rightarrow> Some p | Inl _ \<Rightarrow> None) rs,
               List.map_filter (\<lambda>r. case r of Inr _ \<Rightarrow> None | Inl e \<Rightarrow> Some e) rs))"

subsection \<open>Calendar\<close>

record date =
  year :: int
  month :: int
  day :: int

fun digits :: "nat \<Rightarrow> int \<Rightarrow> string" where
  "digits 0 n = []"
| "digits (Suc k) n = digits k (n div 10) @ [char_of (nat (48 + n mod 10))]"

text \<open>\<^verbatim>\<open>Format("2006-01")\<close>.\<close>

definition format_ym :: "int \<Rightarrow> int \<Rightarrow> string" where
  "format_ym y m = digits 4 y @ ''-'' @ digits 2 m"

definition releaseComputationDayOfMonth :: int where "releaseComputationDayOfMonth = 23"
definition chargeComputationDayOfMonth :: int where "chargeComputationDayOfMonth = 1"

definition shouldRunRelease :: "date \<Rightarrow> string \<Rightarrow> bool \<times> string" where
  "shouldRunRelease now lastRun =
     (if day now \<noteq> releaseComputationDayOfMonth then (False, lastRun)
      else let current = format_ym (year now) (month now)
           in if current = lastRun then (False, lastRun) else (True, current))"

text \<open>\<^verbatim>\<open>AddDate(0, -1, 0)\<close> on the first of a month.\<close>

definition previous_month :: "date \<Rightarrow> int \<times> int" where
  "previous_month now = (if month now = 1 then (year now - 1, 12) else (year now, month now - 1))"

definition shouldRunCharge :: "date \<Rightarrow> string \<Rightarrow> bool \<times> string" where
  "shouldRunCharge now lastRun =
     (if day now \<noteq> chargeComputationDayOfMonth then (False, lastRun)
      else let billingPeriod = (case previous_month now of (y, m) \<Rightarrow> format_ym y m)
           in if billingPeriod = lastRun then (False, lastRun) else (True, billingPeriod))"

text \<open>
  The billing periods that \<^verbatim>\<open>runChargeOnCalendarDate\<close> charges over a sequence of clock readings, and
  the runs of \<^verbatim>\<open>runReleaseOnCalendarDate\<close>.
\<close>

fun calendar_loop :: "(date \<Rightarrow> string \<Rightarrow> bool \<times> string) \<Rightarrow> date list \<Rightarrow> string \<Rightarrow> string list" where
  "calendar_loop due [] lastRun = []"
| "calendar_loop due (now # ticks) lastRun =
     (let (run, period) = due now lastRun
      in if run then period # calendar_loop due ticks period else calendar_loop due ticks lastRun)"

definition runChargeOnCalendarDate :: "date list \<Rightarrow> string list" where
  "runChargeOnCalendarDate ticks = calendar_loop shouldRunCharge ticks ''''"

definition runReleaseOnCalendarDate :: "date list \<Rightarrow> string list" where
  "runReleaseOnCalendarDate ticks = calendar_loop shouldRunRelease ticks ''''"

subsection \<open>Lemmas\<close>

lemma multiplier_range: "0 \<le> releaseMultiplierBasisPoints s \<and> releaseMultiplierBasisPoints s \<le> 10000"
  by (simp add: releaseMultiplierBasisPoints_def tier_defs)

lemma score_multiplier_min:
  "score_multiplier score =
     (if DualWindowFlag score
      then min (releaseMultiplierBasisPoints (Score30dBasisPoints score)) (releaseMultiplierBasisPoints (Score7dBasisPoints score))
      else releaseMultiplierBasisPoints (Score30dBasisPoints score))"
  by (simp add: score_multiplier_def Let_def min_def)

lemma score_multiplier_range: "0 \<le> score_multiplier score \<and> score_multiplier score \<le> 10000"
  using multiplier_range by (simp add: score_multiplier_min min_def)

lemma release_amount_eq:
  assumes "0 \<le> b" and "b * 10000 < 2 ^ 63"
  shows "i64 (b * score_multiplier score) = b * score_multiplier score"
    and "i64 (b * score_multiplier score) sdiv basisPointsDivisor = b * score_multiplier score div 10000"
    and "0 \<le> b * score_multiplier score div 10000" and "b * score_multiplier score div 10000 \<le> b"
proof -
  have m: "b * score_multiplier score \<le> b * 10000" "0 \<le> b * score_multiplier score"
    using assms(1) score_multiplier_range [of score] by (auto intro: mult_left_mono)
  then show i: "i64 (b * score_multiplier score) = b * score_multiplier score"
    using assms(2) by (intro i64_id) auto
  show "i64 (b * score_multiplier score) sdiv basisPointsDivisor = b * score_multiplier score div 10000"
    using m by (simp add: i sdiv_nonneg basisPointsDivisor_def)
  show "0 \<le> b * score_multiplier score div 10000" using m by (simp add: pos_imp_zdiv_nonneg_iff)
  have "b * score_multiplier score div 10000 \<le> b * 10000 div 10000" using m(1) by (intro zdiv_mono1) auto
  then show "b * score_multiplier score div 10000 \<le> b" by simp
qed

lemma mark_events [simp]: "escrow_events (snd (markReleaseComputed ok q db)) = escrow_events db"
  by (simp add: markReleaseComputed_def)

text \<open>The ledger invariant of the release path.\<close>

definition release_keys_ok :: "hash \<Rightarrow> database \<Rightarrow> bool" where
  "release_keys_ok sha db \<longleftrightarrow>
     distinct (map ev_key (escrow_events db)) \<and>
     (\<forall>e\<in>set (escrow_events db). ev_type e = EscrowRelease \<longrightarrow>
        (\<exists>q. ev_period e = Some q \<and> ev_key e = ReleaseIdempotencyKey sha (ev_provider e) q))"

lemma release_keys_key:
  assumes "release_keys_ok sha db" and "e \<in> set (escrow_events db)" and "ev_type e = EscrowRelease" and "ev_period e = Some q"
  shows "ev_key e = ReleaseIdempotencyKey sha (ev_provider e) q"
  using assms unfolding release_keys_ok_def by fastforce

lemma release_keys_period:
  assumes "release_keys_ok sha db" and "e \<in> set (escrow_events db)" and "ev_type e = EscrowRelease"
  obtains q where "ev_period e = Some q"
  using assms unfolding release_keys_ok_def by blast

lemma release_keys_unique:
  assumes "release_keys_ok sha db" and "e \<in> set (escrow_events db)" and "e' \<in> set (escrow_events db)"
    and "ev_type e = EscrowRelease" and "ev_type e' = EscrowRelease"
    and "ev_provider e = ev_provider e'" and "ev_period e = ev_period e'"
  shows "e = e'"
proof -
  obtain q where q: "ev_period e = Some q" by (rule release_keys_period [OF assms(1,2,4)])
  have "ev_key e = ev_key e'"
    using release_keys_key [OF assms(1,2,4) q] release_keys_key [OF assms(1,3,5), of q] q assms(6,7) by simp
  moreover have "inj_on ev_key (set (escrow_events db))"
    using assms(1) by (simp add: release_keys_ok_def distinct_map)
  ultimately show ?thesis using assms(2,3) by (simp add: inj_on_def)
qed

lemma length_filter_le_1:
  assumes "distinct xs" and "\<And>x y. x \<in> set xs \<Longrightarrow> y \<in> set xs \<Longrightarrow> P x \<Longrightarrow> P y \<Longrightarrow> x = y"
  shows "length (filter P xs) \<le> 1"
proof -
  have "card (set (filter P xs)) \<le> 1" using assms(2) by (subst card_le_Suc0_iff_eq [simplified One_nat_def [symmetric]]) auto
  moreover have "distinct (filter P xs)" using assms(1) by simp
  ultimately show ?thesis by (simp only: distinct_card)
qed

lemma release_keys_count:
  assumes "release_keys_ok sha db"
  shows "length (filter (\<lambda>e. ev_type e = EscrowRelease \<and> ev_provider e = p \<and> ev_period e = q) (escrow_events db)) \<le> 1"
proof (rule length_filter_le_1)
  show "distinct (escrow_events db)" using assms by (simp add: release_keys_ok_def distinct_map)
qed (use release_keys_unique [OF assms] in metis)

context escrow_provider
begin

lemma release_step_keys:
  assumes "release_keys_ok sha db"
  shows "release_keys_ok sha (snd (release p a q (ReleaseIdempotencyKey sha p q) db))"
  using assms
  by (cases rule: release_cases [of p a q "ReleaseIdempotencyKey sha p q" db]) (auto simp: release_keys_ok_def)

lemma compute_keys:
  assumes "release_keys_ok sha db"
  shows "release_keys_ok sha (snd (computeReleaseForProvider sha ok now release p q db))"
proof -
  have "release_keys_ok sha (snd (markReleaseComputed b q d))" if "release_keys_ok sha d" for b d
    using that by (simp add: release_keys_ok_def)
  with assms release_step_keys [OF assms, of p _ q] show ?thesis
    by (auto simp: computeReleaseForProvider_def Let_def split: sum.splits prod.splits option.splits)
       (metis snd_conv)+
qed

lemma candidates_keys:
  "release_keys_ok sha db \<Longrightarrow> release_keys_ok sha (snd (release_candidates sha ok now release cs db))"
proof (induction cs arbitrary: db)
  case (Cons c cs)
  from compute_keys [OF Cons.prems, of ok now "period_provider c" "period_id c"] Cons.IH show ?case
    by (auto simp: Let_def split: prod.splits) (metis snd_conv)
qed simp

lemma compute_appends:
  "\<exists>new. escrow_events (snd (computeReleaseForProvider sha ok now release p q db)) = escrow_events db @ new \<and>
     (\<forall>e\<in>set new. ev_type e = EscrowRelease)"
proof -
  have "\<exists>new. escrow_events (snd (release p a q k db)) = escrow_events db @ new \<and> (\<forall>e\<in>set new. ev_type e = EscrowRelease)" for a k
    by (cases rule: release_cases [of p a q k db]) auto
  then show ?thesis
    by (auto simp: computeReleaseForProvider_def Let_def split: sum.splits prod.splits option.splits) (metis snd_conv)+
qed

lemma candidates_append:
  "\<exists>new. escrow_events (snd (release_candidates sha ok now release cs db)) = escrow_events db @ new \<and>
     (\<forall>e\<in>set new. ev_type e = EscrowRelease)"
proof (induction cs arbitrary: db)
  case (Cons c cs)
  from compute_appends [of sha ok now "period_provider c" "period_id c" db]
    Cons.IH [of "snd (computeReleaseForProvider sha ok now release (period_provider c) (period_id c) db)"]
  show ?case by (auto simp: Let_def split_beta)
qed simp

lemma monthly_appends:
  "\<exists>new. escrow_events (snd (ComputeMonthlyRelease sha okq ok now release db)) = escrow_events db @ new \<and>
     (\<forall>e\<in>set new. ev_type e = EscrowRelease)"
  by (simp add: ComputeMonthlyRelease_def candidates_append)

lemma monthly_keys:
  "release_keys_ok sha db \<Longrightarrow> release_keys_ok sha (snd (ComputeMonthlyRelease sha okq ok now release db))"
  by (simp add: ComputeMonthlyRelease_def candidates_keys)

end

subsection \<open>Calendar lemmas\<close>

lemma digits_inj:
  "digits k m = digits k n \<Longrightarrow> 0 \<le> m \<Longrightarrow> m < 10 ^ k \<Longrightarrow> 0 \<le> n \<Longrightarrow> n < 10 ^ k \<Longrightarrow> m = n"
proof (induction k arbitrary: m n)
  case (Suc k)
  have digit: "nat (48 + x mod 10) < 256" for x :: int
    using pos_mod_bound [of 10 x] by simp
  from Suc.prems(1) have tl: "digits k (m div 10) = digits k (n div 10)"
    and "(char_of (nat (48 + m mod 10)) :: char) = char_of (nat (48 + n mod 10))" by simp_all
  then have "nat (48 + m mod 10) = nat (48 + n mod 10)"
    using digit [of m] digit [of n] by (metis of_char_of mod_less)
  then have "m mod 10 = n mod 10" by (simp add: eq_nat_nat_iff)
  moreover have "m div 10 = n div 10" using Suc by (intro Suc.IH tl) auto
  ultimately show ?case by (metis div_mult_mod_eq)
qed simp

lemma length_digits [simp]: "length (digits k n) = k"
  by (induction k arbitrary: n) auto

lemma format_ym_inj:
  assumes "format_ym y m = format_ym y' m'" and "0 \<le> y" "y < 10000" "0 \<le> y'" "y' < 10000"
    and "1 \<le> m" "m \<le> 12" "1 \<le> m'" "m' \<le> 12"
  shows "y = y' \<and> m = m'"
  using assms digits_inj [of 4 y y'] digits_inj [of 2 m m'] unfolding format_ym_def by simp

lemma format_ym_not_Nil: "format_ym y m \<noteq> []"
  by (simp add: format_ym_def)

lemma calendar_loop_remdups:
  assumes "\<And>now prev. due now prev = (if day now \<noteq> d then (False, prev) else if f now = prev then (False, prev) else (True, f now))"
  shows "prev # calendar_loop due ticks prev = remdups_adj (prev # map f (filter (\<lambda>now. day now = d) ticks))"
proof (induction ticks arbitrary: prev)
  case (Cons now ticks)
  show ?case
  proof (cases "day now = d \<and> f now \<noteq> prev")
    case True
    with Cons.IH [of "f now"] show ?thesis by (auto simp: assms)
  next
    case False
    with Cons.IH [of prev] show ?thesis by (auto simp: assms)
  qed
qed simp

definition month_index :: "date \<Rightarrow> int" where
  "month_index t = 12 * year t + (month t - 1)"

definition valid_date :: "date \<Rightarrow> bool" where
  "valid_date t \<longleftrightarrow> 1 \<le> year t \<and> year t < 10000 \<and> 1 \<le> month t \<and> month t \<le> 12"

lemma valid_month_index:
  assumes "valid_date t"
  shows "month_index t div 12 = year t" and "month_index t mod 12 = month t - 1"
    and "12 \<le> month_index t" and "month_index t < 120000"
  using assms by (simp_all add: valid_date_def month_index_def)

definition index_format :: "int \<Rightarrow> string" where
  "index_format i = format_ym (i div 12) (i mod 12 + 1)"

lemma index_format_inj: "inj_on index_format {0..<120000}"
proof (rule inj_onI)
  fix i j :: int
  assume "i \<in> {0..<120000}" "j \<in> {0..<120000}" "index_format i = index_format j"
  then have "i div 12 = j div 12 \<and> i mod 12 + 1 = j mod 12 + 1"
    unfolding index_format_def by (intro format_ym_inj) auto
  then have "i div 12 = j div 12" "i mod 12 = j mod 12" by simp_all
  then show "i = j" by (metis div_mult_mod_eq)
qed

lemma release_format: "valid_date t \<Longrightarrow> format_ym (year t) (month t) = index_format (month_index t)"
  by (simp add: index_format_def valid_month_index)

lemma charge_format:
  assumes "valid_date t"
  shows "(case previous_month t of (y, m) \<Rightarrow> format_ym y m) = index_format (month_index t - 1)"
proof -
  define y where "y = (if month t = 1 then year t - 1 else year t)"
  define m where "m = (if month t = 1 then 11 else month t - 2)"
  have i: "month_index t - 1 = 12 * y + m" "0 \<le> m" "m < 12"
    using assms by (simp_all add: valid_date_def month_index_def y_def m_def)
  have "(month_index t - 1) div 12 = y" "(month_index t - 1) mod 12 = m"
    using int_div_pos_eq [OF i] int_mod_pos_eq [OF i] by simp_all
  then show ?thesis by (simp add: index_format_def previous_month_def y_def m_def)
qed

lemma distinct_remdups_adj_sorted: "sorted xs \<Longrightarrow> distinct (remdups_adj xs)" for xs :: "int list"
  by (induction xs rule: remdups_adj.induct) auto

lemma remdups_adj_map_inj_on:
  "inj_on f (set xs) \<Longrightarrow> remdups_adj (map f xs) = map f (remdups_adj xs)"
  by (induction xs rule: remdups_adj.induct) (auto simp: inj_on_def)

lemma calendar_distinct:
  assumes "\<forall>t\<in>set ticks. valid_date t" and "sorted (map month_index ticks)" and "0 \<le> k" and "k \<le> 1"
    and loop: "prev # calendar_loop due ticks prev =
           remdups_adj (prev # map f (filter (\<lambda>now. day now = d) ticks))"
    and f: "\<And>t. valid_date t \<Longrightarrow> f t = index_format (month_index t - k)"
    and prev: "prev = []"
  shows "distinct (calendar_loop due ticks prev) \<and>
         set (calendar_loop due ticks prev) = f ` {t\<in>set ticks. day t = d}"
proof -
  let ?days = "filter (\<lambda>now. day now = d) ticks"
  define ms where "ms = map (\<lambda>t. month_index t - k) ?days"
  have map: "map f ?days = map index_format ms"
    using assms(1) by (simp add: ms_def f)
  have range: "set ms \<subseteq> {0..<120000}"
    using assms(1,3,4) valid_month_index by (fastforce simp: ms_def)
  have "sorted ms"
    using sorted_filter [OF assms(2), of "\<lambda>now. day now = d"] 
    by (simp add: ms_def sorted_iff_nth_mono)
  then have dist: "distinct (remdups_adj ms)" by (rule distinct_remdups_adj_sorted)
  have inj: "inj_on index_format (set ms)" using index_format_inj range by (rule inj_on_subset)
  have "calendar_loop due ticks prev = remdups_adj (map index_format ms)"
    using loop unfolding map prev by (cases "ms") (auto simp: index_format_def format_ym_not_Nil format_ym_not_Nil [symmetric])
  also have "\<dots> = map index_format (remdups_adj ms)"
    using inj by (rule remdups_adj_map_inj_on)
  finally have res: "calendar_loop due ticks prev = map index_format (remdups_adj ms)" .
  have "distinct (map index_format (remdups_adj ms))" using dist inj by (simp add: distinct_map)
  moreover have "set (map index_format (remdups_adj ms)) = f ` {t\<in>set ticks. day t = d}"
    using arg_cong [OF map, of set] by (simp del: map_map)
  ultimately show ?thesis unfolding res by simp
qed

subsection \<open>Properties\<close>

lemma compute_release_paid:
  assumes "GetScoreFromPrimary True db pid = Inr score" and "\<not> isScoreStale now (ScoresAsOf score)"
    and "mv_provider_escrow_balance db pid = Some b" and "0 \<le> b" and "b * 10000 < 2 ^ 63"
    and "ReleaseIdempotencyKey sha pid q \<notin> ev_key ` set (escrow_events db)"
  shows "computeReleaseForProvider sha (\<lambda>_. True) now (mock_ReleaseEscrow True) pid q db =
     (None, snd (markReleaseComputed True q
        (if b * score_multiplier score div 10000 = 0 then db
         else db\<lparr>escrow_events := escrow_events db @
           [\<lparr>ev_provider = pid, ev_type = EscrowRelease, ev_amount = b * score_multiplier score div 10000,
             ev_period = Some q, ev_key = ReleaseIdempotencyKey sha pid q\<rparr>]\<rparr>)))"
proof -
  let ?a = "b * score_multiplier score div 10000"
  have bal: "providerBalance True db pid = Inr b" using assms(3,4) by (simp add: providerBalance_def)
  have a: "0 \<le> ?a" "i64 (b * score_multiplier score) sdiv basisPointsDivisor = ?a"
    using release_amount_eq [OF assms(4,5), of score] by simp_all
  show ?thesis
  proof (cases "?a = 0")
    case True
    with assms(1,2) bal a show ?thesis by (simp add: computeReleaseForProvider_def markReleaseComputed_def)
  next
    case False
    with a(1) have pos: "0 < ?a" by simp
    have "mock_ReleaseEscrow True pid ?a q (ReleaseIdempotencyKey sha pid q) db =
       (None, db\<lparr>escrow_events := escrow_events db @
           [\<lparr>ev_provider = pid, ev_type = EscrowRelease, ev_amount = ?a,
             ev_period = Some q, ev_key = ReleaseIdempotencyKey sha pid q\<rparr>]\<rparr>)"
      using pos assms(6) by (simp add: mock_ReleaseEscrow_def dup_ok_def InsertEscrowEvent_def)
    with assms(1,2) bal a pos show ?thesis by (simp add: computeReleaseForProvider_def markReleaseComputed_def)
  qed
qed

text \<open>
  what a provider is paid. With a fresh score and a balance \<open>b\<close>, the release for an audit period
  that has not been paid writes one ledger event of
  \<open>b * m div 10000\<close> paise (none when that is 0), where the multiplier \<open>m\<close> is the tier of the 30-day
  score, lowered to the tier of the 7-day score when the dual-window flag is up; the amount is never
  more than the balance, the period is marked, and nothing else changes. With a stale
  score nothing is written and the period stays open.
\<close>

theorem release_amount:
  assumes "GetScoreFromPrimary True db pid = Inr score"
    and "mv_provider_escrow_balance db pid = Some b" and "0 \<le> b" and "b * 10000 < 2 ^ 63"
    and "ReleaseIdempotencyKey sha pid q \<notin> ev_key ` set (escrow_events db)"
  shows "let m30 = releaseMultiplierBasisPoints (Score30dBasisPoints score);
             m7 = releaseMultiplierBasisPoints (Score7dBasisPoints score);
             m = (if DualWindowFlag score then min m30 m7 else m30);
             amount = b * m div 10000;
             (err, db') = computeReleaseForProvider sha (\<lambda>_. True) now (mock_ReleaseEscrow True) pid q db
         in err = None \<and>
            (if now - ScoresAsOf score > scoreStalenessLimit then db' = db
             else 0 \<le> amount \<and> amount \<le> b \<and>
               db' = db\<lparr>escrow_events := escrow_events db @
                       (if amount = 0 then [] else
                          [\<lparr>ev_provider = pid, ev_type = EscrowRelease, ev_amount = amount, ev_period = Some q,
                            ev_key = ReleaseIdempotencyKey sha pid q\<rparr>]),
                     audit_periods := map (\<lambda>r. if period_id r = q then r\<lparr>release_computed := True\<rparr> else r)
                       (audit_periods db)\<rparr>)"
proof (cases "isScoreStale now (ScoresAsOf score)")
  case True
  with assms(1) show ?thesis
    by (simp add: computeReleaseForProvider_def isScoreStale_def Let_def)
next
  case False
  with compute_release_paid [OF assms(1) False assms(2-5)] release_amount_eq(3,4) [OF assms(3,4), of score]
  show ?thesis
    unfolding score_multiplier_min
    by (simp add: isScoreStale_def Let_def markReleaseComputed_def update_where_def)
qed

definition release_sample :: database where
  "release_sample = empty_db\<lparr>
     audit_periods := [\<lparr>period_id = replicate 16 2, period_provider = replicate 16 1, release_computed = False\<rparr>],
     mv_provider_escrow_balance := [replicate 16 1 \<mapsto> 1003],
     mv_provider_scores := [replicate 16 1 \<mapsto> \<lparr>score_24h = Some 1, score_7d = Some (7/10), score_30d = Some (96/100),
        score_composite = 1, scores_as_of = 0\<rparr>]\<rparr>"

lemma release_sample_score:
  "GetScoreFromPrimary True release_sample (replicate 16 1) =
     Inr \<lparr>Score24h = 1, Score7d = 7/10, Score30d = 96/100, HasScore24h = True, HasScore7d = True, HasScore30d = True,
          Composite = 1, DualWindowFlag = True, ScoresAsOf = 0\<rparr>"
  by (simp add: GetScoreFromPrimary_def queryProviderScore_def release_sample_def nullFloatOrZero_def
      dualWindowDropThreshold_def)

text \<open>1003 paise at the 50 per cent tier.\<close>

theorem release_amount_witness:
  "\<exists>db'. computeReleaseForProvider (\<lambda>x. x) (\<lambda>_. True) 0 (mock_ReleaseEscrow True) (replicate 16 1) (replicate 16 2)
           release_sample = (None, db') \<and>
         map ev_amount (escrow_events db') = [501] \<and> map release_computed (audit_periods db') = [True]"
proof -
  have b: "mv_provider_escrow_balance release_sample (replicate 16 1) = Some 1003"
    and n: "ReleaseIdempotencyKey (\<lambda>x. x) (replicate 16 1) (replicate 16 2) \<notin> ev_key ` set (escrow_events release_sample)"
    by (simp_all add: release_sample_def empty_db_def)
  have m: "releaseMultiplierBasisPoints (math_Round (96 / 100 * 10000)) = 10000"
    "releaseMultiplierBasisPoints (math_Round (7 / 10 * 10000)) = 5000"
    by (simp_all add: releaseMultiplierBasisPoints_def math_Round_def tier_defs)
  show ?thesis
    using release_amount [OF release_sample_score b _ _ n, of 0] m
    by (auto simp: Let_def Score30dBasisPoints_def Score7dBasisPoints_def basisPointsScale_def
        scoreStalenessLimit_def duration_defs release_sample_def empty_db_def split: prod.splits)
qed

text \<open>
  A run of the release loop with the Razorpay provider: the clock reading and which statements
  and gateway calls succeed in it.
\<close>

record release_run =
  run_query_ok :: bool
  run_stmt_ok :: "release_stmt \<Rightarrow> bool"
  run_now :: time
  run_account_ok :: bool
  run_insert_ok :: bool
  run_transfer :: "string \<Rightarrow> int \<Rightarrow> string \<Rightarrow> bool"

definition run_release :: "hash \<Rightarrow> release_run \<Rightarrow> database \<Rightarrow> database" where
  "run_release sha r db =
     snd (ComputeMonthlyRelease sha (run_query_ok r) (run_stmt_ok r) (run_now r)
            (razorpay_ReleaseEscrow (run_account_ok r) (run_insert_ok r) (run_transfer r)) db)"

definition runReleaseOnTicker :: "hash \<Rightarrow> release_run list \<Rightarrow> database \<Rightarrow> database" where
  "runReleaseOnTicker sha runs db = fold (run_release sha) runs db"

lemma ticker_keys: "release_keys_ok sha db \<Longrightarrow> release_keys_ok sha (runReleaseOnTicker sha runs db)"
proof (induction runs arbitrary: db)
  case (Cons r runs)
  from razorpay.monthly_keys [OF Cons.prems, of "run_query_ok r" "run_stmt_ok r" "run_now r"
      "run_account_ok r" "run_insert_ok r" "run_transfer r"]
  have "release_keys_ok sha (run_release sha r db)" by (simp add: run_release_def)
  from Cons.IH [OF this] show ?case by (simp add: runReleaseOnTicker_def)
qed (simp add: runReleaseOnTicker_def)

lemma ticker_appends:
  "\<exists>new. escrow_events (runReleaseOnTicker sha runs db) = escrow_events db @ new \<and> (\<forall>e\<in>set new. ev_type e = EscrowRelease)"
proof (induction runs arbitrary: db)
  case (Cons r runs)
  obtain new where "escrow_events (run_release sha r db) = escrow_events db @ new" "\<forall>e\<in>set new. ev_type e = EscrowRelease"
    using razorpay.monthly_appends unfolding run_release_def by blast
  with Cons.IH [of "run_release sha r db"] show ?case by (auto simp: runReleaseOnTicker_def)
qed (simp add: runReleaseOnTicker_def)

text \<open>
  C16: a provider is paid at most once for an audit period, however often the release loop runs and
  whatever fails in it. Starting from a ledger whose releases carry their idempotency keys, any
  number of runs, each with arbitrary failing statements, gateway errors and clock readings, only
  appends release events, and the ledger then holds at most one row for each provider and period,
  those that were there before the runs included.
\<close>

theorem one_release_per_period:
  assumes "release_keys_ok sha db"
  shows "\<exists>new. escrow_events (runReleaseOnTicker sha runs db) = escrow_events db @ new \<and>
           (\<forall>e\<in>set new. ev_type e = EscrowRelease \<and> ev_period e \<noteq> None) \<and>
           (\<forall>p q. length (filter (\<lambda>e. ev_type e = EscrowRelease \<and> ev_provider e = p \<and> ev_period e = Some q)
                    (escrow_events db @ new)) \<le> 1)"
proof -
  from ticker_appends obtain new where
    new: "escrow_events (runReleaseOnTicker sha runs db) = escrow_events db @ new" "\<forall>e\<in>set new. ev_type e = EscrowRelease"
    by blast
  note keys = ticker_keys [OF assms, of runs]
  have "ev_period e \<noteq> None" if "e \<in> set new" for e
    using release_keys_period [OF keys, of e] that new by auto
  with new release_keys_count [OF keys, of _ "Some _", unfolded new(1)] show ?thesis by blast
qed

definition paid_sample :: database where
  "paid_sample = release_sample\<lparr>providers := [sample_provider]\<rparr>"

definition good_run :: release_run where
  "good_run = \<lparr>run_query_ok = True, run_stmt_ok = (\<lambda>_. True), run_now = 0, run_account_ok = True, run_insert_ok = True,
     run_transfer = (\<lambda>_ _ _. True)\<rparr>"

definition crashed_run :: release_run where
  "crashed_run = good_run\<lparr>run_stmt_ok := (\<lambda>s. case s of MarkComputed _ \<Rightarrow> False | _ \<Rightarrow> True)\<rparr>"

text \<open>The first run pays and fails to mark the period; the second one pays nothing more.\<close>

theorem one_release_per_period_witness:
  "\<exists>new. escrow_events (runReleaseOnTicker (\<lambda>x. x) [crashed_run, good_run] paid_sample) = new \<and> map ev_amount new = [501] \<and>
     length (filter (\<lambda>e. ev_type e = EscrowRelease \<and> ev_provider e = replicate 16 1 \<and> ev_period e = Some (replicate 16 2)) new) \<le> 1"
proof -
  let ?db = "runReleaseOnTicker (\<lambda>x. x) [crashed_run, good_run] paid_sample"
  have ok: "release_keys_ok (\<lambda>x. x) paid_sample" and none: "escrow_events paid_sample = []"
    by (simp_all add: release_keys_ok_def paid_sample_def release_sample_def empty_db_def)
  have "map ev_amount (escrow_events ?db) = [501]" by code_simp
  with one_release_per_period [OF ok, of "[crashed_run, good_run]"] none show ?thesis by auto
qed

text \<open>
  the operator's preview reconciles and tells what the run will pay: for a candidate whose balance
  does not overflow, the reported figures satisfy
  \<open>BalancePaise * MultiplierBP = ReleasePaise * 10000 + RemainderBP\<close> with a remainder below 10000,
  and, when the score is not flagged stale, the release run on the same
  data adds exactly the previewed amount to the ledger (nothing when it is 0).
\<close>

theorem preview_matches_release:
  assumes "preview_one (\<lambda>_. True) now db c = Inr p" and "BalancePaise p * 10000 < 2 ^ 63"
    and "ReleaseIdempotencyKey sha (period_provider c) (period_id c) \<notin> ev_key ` set (escrow_events db)"
  shows "BalancePaise p * MultiplierBP p = ReleasePaise p * 10000 + RemainderBP p \<and>
         0 \<le> RemainderBP p \<and> RemainderBP p < 10000 \<and>
         map ev_amount (escrow_events (snd (computeReleaseForProvider sha (\<lambda>_. True) now (mock_ReleaseEscrow True)
            (period_provider c) (period_id c) db))) =
         map ev_amount (escrow_events db) @
           (if ScoreStale p \<or> ReleasePaise p = 0 then [] else [ReleasePaise p])"
proof -
  let ?pid = "period_provider c"
  from assms(1) obtain score where s: "GetScore True db ?pid = Inr score"
    by (auto simp: preview_one_def split: sum.splits)
  obtain b where b: "providerBalance True db ?pid = Inr b" "0 \<le> b"
    by (cases "mv_provider_escrow_balance db ?pid") (auto simp: providerBalance_def)
  from assms(1) s b have p: "BalancePaise p = b" "MultiplierBP p = score_multiplier score"
    "ReleasePaise p = i64 (b * score_multiplier score) sdiv basisPointsDivisor"
    "RemainderBP p = i64 (i64 (b * score_multiplier score) - i64 (ReleasePaise p * basisPointsDivisor))"
    "ScoreStale p = isScoreStale now (ScoresAsOf score)"
    by (auto simp: preview_one_def Let_def)
  define x where "x = b * score_multiplier score"
  from assms(2) p(1) have small: "b * 10000 < 2 ^ 63" by simp
  note eq = release_amount_eq [OF b(2) small, of score, folded x_def]
  have rel: "ReleasePaise p = x div 10000" using p(3) eq(2) by (simp add: x_def)
  have x: "0 \<le> x" "x < 2 ^ 63" using b(2) score_multiplier_range [of score] small
    by (auto simp: x_def intro: order.strict_trans1 [OF mult_left_mono [of _ 10000 b]])
  have "i64 (x div 10000 * 10000) = x div 10000 * 10000"
    using x by (intro i64_id) (auto simp: pos_imp_zdiv_nonneg_iff intro: order.strict_trans1 [of _ x])
  moreover have "i64 (x - x div 10000 * 10000) = x mod 10000"
    by (simp add: minus_div_mult_eq_mod i64_def)
  ultimately have rem: "RemainderBP p = x mod 10000"
    using p(4) rel eq(1) by (simp add: x_def basisPointsDivisor_def)
  have paid: "map ev_amount (escrow_events (snd (computeReleaseForProvider sha (\<lambda>_. True) now (mock_ReleaseEscrow True)
      ?pid (period_id c) db))) =
      map ev_amount (escrow_events db) @ (if ScoreStale p \<or> x div 10000 = 0 then [] else [x div 10000])"
    using s b eq(1-3) assms(3) p(5)
    by (simp add: computeReleaseForProvider_def GetScore_def GetScoreFromPrimary_def Let_def mock_ReleaseEscrow_def
        dup_ok_def InsertEscrowEvent_def x_def [symmetric])
  show ?thesis using paid by (simp add: p(1,2) rel rem x_def [symmetric])
qed

theorem preview_matches_release_witness:
  "\<exists>p. preview_one (\<lambda>_. True) 0 release_sample (hd (audit_periods release_sample)) = Inr p \<and>
       BalancePaise p * MultiplierBP p = ReleasePaise p * 10000 + RemainderBP p \<and> RemainderBP p = 5000"
proof -
  have m: "releaseMultiplierBasisPoints (math_Round (96 / 100 * 10000)) = 10000"
    "releaseMultiplierBasisPoints (math_Round (7 / 10 * 10000)) = 5000"
    by (simp_all add: releaseMultiplierBasisPoints_def math_Round_def tier_defs)
  obtain p where p: "preview_one (\<lambda>_. True) 0 release_sample (hd (audit_periods release_sample)) = Inr p"
    "BalancePaise p = 1003" "RemainderBP p = 5000"
    using release_sample_score m
    by (simp add: preview_one_def GetScore_def GetScoreFromPrimary_def providerBalance_def score_multiplier_def
        Score30dBasisPoints_def Score7dBasisPoints_def basisPointsScale_def Let_def tier_defs i64_def sdiv_nonneg
        release_sample_def)
  then show ?thesis
    using preview_matches_release [OF p(1), of "\<lambda>x. x"] by (auto simp: release_sample_def empty_db_def)
qed

text \<open>
  two open periods of one provider are paid from the same balance. The balance is read from
  the materialized view, which a release does not change: when a period was skipped for a stale score and the
  provider has a second open period, the next run with a score in the top tier pays the whole balance
  twice and leaves the ledger balance at \<open>- b\<close>.
\<close>

theorem two_open_periods_paid_twice:
  assumes "pendingReleaseCandidates db = [c, c']" and "period_provider c = pid" and "period_provider c' = pid"
    and "mv_provider_escrow_balance db pid = Some b" and "ledger_balance db pid = b" and "0 < b" and "b * 10000 < 2 ^ 63"
    and "GetScoreFromPrimary True db pid = Inr score" and "\<not> isScoreStale now (ScoresAsOf score)"
    and "\<not> DualWindowFlag score" and "9500 \<le> Score30dBasisPoints score"
    and "ReleaseIdempotencyKey sha pid (period_id c) \<notin> ev_key ` set (escrow_events db)"
    and "ReleaseIdempotencyKey sha pid (period_id c') \<notin>
           insert (ReleaseIdempotencyKey sha pid (period_id c)) (ev_key ` set (escrow_events db))"
  shows "let (errs, db') = ComputeMonthlyRelease sha True (\<lambda>_. True) now (mock_ReleaseEscrow True) db
         in errs = [] \<and> ledger_balance db' pid = - b"
proof -
  have m: "score_multiplier score = 10000"
    using assms(10,11) by (simp add: score_multiplier_def releaseMultiplierBasisPoints_def tier_defs)
  have b0: "0 \<le> b" using assms(6) by simp
  define ev where "ev q = \<lparr>ev_provider = pid, ev_type = EscrowRelease, ev_amount = b, ev_period = Some q,
    ev_key = ReleaseIdempotencyKey sha pid q\<rparr>" for q
  define db1 where "db1 = snd (markReleaseComputed True (period_id c) (db\<lparr>escrow_events := escrow_events db @ [ev (period_id c)]\<rparr>))"
  define db2 where "db2 = snd (markReleaseComputed True (period_id c') (db1\<lparr>escrow_events := escrow_events db1 @ [ev (period_id c')]\<rparr>))"
  have "computeReleaseForProvider sha (\<lambda>_. True) now (mock_ReleaseEscrow True) pid (period_id c) db = (None, db1)"
    using compute_release_paid [OF assms(8,9,4) b0 assms(7,12)] assms(6) by (simp add: m db1_def ev_def)
  moreover have "computeReleaseForProvider sha (\<lambda>_. True) now (mock_ReleaseEscrow True) pid (period_id c') db1 = (None, db2)"
  proof -
    have tables: "mv_provider_escrow_balance db1 = mv_provider_escrow_balance db" "mv_provider_scores db1 = mv_provider_scores db"
      "escrow_events db1 = escrow_events db @ [ev (period_id c)]"
      by (simp_all add: db1_def markReleaseComputed_def)
    have "GetScoreFromPrimary True db1 pid = Inr score"
      using assms(8) by (simp add: GetScoreFromPrimary_def queryProviderScore_def tables)
    moreover have "ReleaseIdempotencyKey sha pid (period_id c') \<notin> ev_key ` set (escrow_events db1)"
      using assms(13) by (auto simp: tables ev_def)
    ultimately show ?thesis
      using compute_release_paid [OF _ assms(9) _ b0 assms(7), of db1 pid sha "period_id c'"] assms(4,6)
      by (simp add: m db2_def ev_def tables)
  qed
  ultimately have run: "ComputeMonthlyRelease sha True (\<lambda>_. True) now (mock_ReleaseEscrow True) db = ([], db2)"
    using assms(1-3) by (simp add: ComputeMonthlyRelease_def)
  have "ledger_balance db2 pid = - b"
    using assms(5) by (simp add: db2_def db1_def markReleaseComputed_def ledger_balance_def ev_def signed_amount_def)
  with run show ?thesis by simp
qed

definition skipped_sample :: database where
  "skipped_sample = empty_db\<lparr>
     escrow_events := [\<lparr>ev_provider = replicate 16 1, ev_type = EscrowDeposit, ev_amount = 1000, ev_period = None, ev_key = ''d''\<rparr>],
     audit_periods := [\<lparr>period_id = replicate 16 2, period_provider = replicate 16 1, release_computed = False\<rparr>,
                       \<lparr>period_id = replicate 16 3, period_provider = replicate 16 1, release_computed = False\<rparr>],
     mv_provider_escrow_balance := [replicate 16 1 \<mapsto> 1000],
     mv_provider_scores := [replicate 16 1 \<mapsto> \<lparr>score_24h = Some 1, score_7d = Some 1, score_30d = Some 1,
        score_composite = 1, scores_as_of = 0\<rparr>]\<rparr>"

theorem two_open_periods_paid_twice_witness:
  "let (errs, db') = ComputeMonthlyRelease (\<lambda>x. x) True (\<lambda>_. True) 0 (mock_ReleaseEscrow True) skipped_sample
   in errs = [] \<and> ledger_balance db' (replicate 16 1) = - 1000"
proof -
  have key: "length (ReleaseIdempotencyKey (\<lambda>x. x) (replicate 16 1) (replicate 16 n)) = 64" for n :: byte
    by (simp add: ReleaseIdempotencyKey_def length_hex_encode)
  have ne: "ReleaseIdempotencyKey (\<lambda>x. x) (replicate 16 1) (replicate 16 3) \<noteq>
        ReleaseIdempotencyKey (\<lambda>x. x) (replicate 16 1) (replicate 16 2)"
    using hex_encode_inj [of "replicate 16 1 @ replicate 16 3" "replicate 16 1 @ replicate 16 2"]
    by (auto simp: ReleaseIdempotencyKey_def simp del: hex_encode_inj)
  define score where "score = \<lparr>Score24h = 1, Score7d = 1, Score30d = 1, HasScore24h = True, HasScore7d = True,
    HasScore30d = True, Composite = 1, DualWindowFlag = False, ScoresAsOf = 0\<rparr>"
  show ?thesis
  proof (rule two_open_periods_paid_twice [where score = score and
        c = "\<lparr>period_id = replicate 16 2, period_provider = replicate 16 1, release_computed = False\<rparr>" and
        c' = "\<lparr>period_id = replicate 16 3, period_provider = replicate 16 1, release_computed = False\<rparr>"])
    show "GetScoreFromPrimary True skipped_sample (replicate 16 1) = Inr score"
      by (simp add: GetScoreFromPrimary_def queryProviderScore_def skipped_sample_def nullFloatOrZero_def
          dualWindowDropThreshold_def score_def)
    show "ReleaseIdempotencyKey (\<lambda>x. x) (replicate 16 1)
        (period_id \<lparr>period_id = replicate 16 2, period_provider = replicate 16 1, release_computed = False\<rparr>)
        \<notin> ev_key ` set (escrow_events skipped_sample)"
      using key [of 2] by (auto simp: skipped_sample_def)
    show "ReleaseIdempotencyKey (\<lambda>x. x) (replicate 16 1)
        (period_id \<lparr>period_id = replicate 16 3, period_provider = replicate 16 1, release_computed = False\<rparr>)
        \<notin> insert (ReleaseIdempotencyKey (\<lambda>x. x) (replicate 16 1)
             (period_id \<lparr>period_id = replicate 16 2, period_provider = replicate 16 1, release_computed = False\<rparr>))
            (ev_key ` set (escrow_events skipped_sample))"
      using key [of 3] ne by (auto simp: skipped_sample_def)
  qed (simp_all add: skipped_sample_def pendingReleaseCandidates_def ledger_balance_def signed_amount_def
      isScoreStale_def scoreStalenessLimit_def duration_defs score_def Score30dBasisPoints_def math_Round_def
      basisPointsScale_def)
qed

text \<open>
  the calendar loops fire once a month. On clock readings that do not go back in time, the charge
  loop charges each billing period at most once, and it charges exactly the months before those in which
  it was awake on the first; the release loop runs exactly once in each month in which it was awake on the 23rd.
\<close>

theorem calendar_once_per_month:
  assumes "\<forall>t\<in>set ticks. valid_date t" and "sorted (map month_index ticks)"
  shows "distinct (runChargeOnCalendarDate ticks) \<and> distinct (runReleaseOnCalendarDate ticks) \<and>
         set (runChargeOnCalendarDate ticks) =
           (\<lambda>t. case previous_month t of (y, m) \<Rightarrow> format_ym y m) ` {t\<in>set ticks. day t = 1} \<and>
         set (runReleaseOnCalendarDate ticks) = (\<lambda>t. format_ym (year t) (month t)) ` {t\<in>set ticks. day t = 23}"
proof -
  note charge = calendar_loop_remdups [of shouldRunCharge 1 "\<lambda>t. case previous_month t of (y, m) \<Rightarrow> format_ym y m" "[]" ticks]
  note release = calendar_loop_remdups [of shouldRunRelease 23 "\<lambda>t. format_ym (year t) (month t)" "[]" ticks]
  have "distinct (runChargeOnCalendarDate ticks) \<and> set (runChargeOnCalendarDate ticks) =
      (\<lambda>t. case previous_month t of (y, m) \<Rightarrow> format_ym y m) ` {t\<in>set ticks. day t = 1}"
    unfolding runChargeOnCalendarDate_def
    by (rule calendar_distinct [OF assms, of 1]) 
       (simp_all add: charge charge_format shouldRunCharge_def chargeComputationDayOfMonth_def Let_def)
  moreover have "distinct (runReleaseOnCalendarDate ticks) \<and>
      set (runReleaseOnCalendarDate ticks) = (\<lambda>t. format_ym (year t) (month t)) ` {t\<in>set ticks. day t = 23}"
    unfolding runReleaseOnCalendarDate_def
    by (rule calendar_distinct [OF assms, of 0])
       (simp_all add: release release_format shouldRunRelease_def releaseComputationDayOfMonth_def Let_def)
  ultimately show ?thesis by simp
qed

theorem calendar_once_per_month_witness:
  "let ticks = [\<lparr>year = 2026, month = 1, day = 1\<rparr>, \<lparr>year = 2026, month = 1, day = 1\<rparr>, \<lparr>year = 2026, month = 1, day = 23\<rparr>,
                \<lparr>year = 2027, month = 1, day = 1\<rparr>]
   in distinct (runChargeOnCalendarDate ticks) \<and> runChargeOnCalendarDate ticks = [''2025-12'', ''2026-12'']"
proof -
  define ticks where "ticks = [\<lparr>year = 2026, month = 1, day = 1\<rparr>, \<lparr>year = 2026, month = 1, day = 1\<rparr>,
    \<lparr>year = 2026, month = 1, day = 23\<rparr>, \<lparr>year = 2027, month = 1, day = 1 :: int\<rparr>]"
  have "distinct (runChargeOnCalendarDate ticks)"
    using calendar_once_per_month [of ticks] by (simp add: ticks_def valid_date_def month_index_def)
  moreover have "runChargeOnCalendarDate ticks = [''2025-12'', ''2026-12'']"
    unfolding ticks_def by code_simp
  ultimately show ?thesis unfolding Let_def ticks_def by blast
qed

end
