(* ===== verification/Queue.thy ===== *)
theory Queue
  imports Database "HOL-Library.Multiset"
begin

text \<open>
  The repair queue, \<^verbatim>\<open>internal/repair/queue.go\<close>: trigger types and priorities, the table
  \<^verbatim>\<open>repair_jobs\<close> with its constraints, and the operations that insert, take, promote and finish jobs.
  \<open>gen\<close> stands for \<^verbatim>\<open>gen_random_uuid()\<close>: \<open>gen n\<close> is the identifier of row \<open>n\<close> of the table, whose rows are
  never removed. \<open>ok\<close> arguments say whether a statement succeeds, \<open>now\<close> is \<^verbatim>\<open>NOW()\<close>. The gauges and
  counters of \<^verbatim>\<open>internal/metrics\<close> that the operations update are not part of the state.
\<close>

datatype repair_error =
    ErrShardCountOutOfRange
  | ErrNoEligibleReplacement
  | ErrReplacementStorageFull
  | ErrReplacementUnreachable
  | ErrRepairDB
  | ErrRepairNoRow
  | ErrRepairUnique
  | ErrRepairCheck
  | ErrRepairPanic
  | ErrChunkIDLength nat
  | ErrNoShardIndex
  | ErrNullShardIndex
  | ErrResponseShort
  | ErrResponseEmpty
  | ErrResponseStatus byte
  | ErrResponseLength nat
  | ErrStreamOpen
  | ErrTooFewHolders nat
  | ErrErasure
  | ErrPenalise

subsection \<open>Priorities and triggers\<close>

instantiation Priority :: linorder
begin

definition less_eq_Priority :: "Priority \<Rightarrow> Priority \<Rightarrow> bool" where
  "less_eq_Priority p q \<longleftrightarrow> p = PriorityEmergency \<or> q = PriorityPreWarning \<or> p = q"

definition less_Priority :: "Priority \<Rightarrow> Priority \<Rightarrow> bool" where
  "less_Priority p q \<longleftrightarrow> p \<le> q \<and> p \<noteq> q"

instance
proof
  fix x y z :: Priority
  show "(x < y) = (x \<le> y \<and> \<not> y \<le> x)" by (cases x; cases y) (simp_all add: less_eq_Priority_def less_Priority_def)
  show "x \<le> x" by (simp add: less_eq_Priority_def)
  show "x \<le> y \<Longrightarrow> y \<le> z \<Longrightarrow> x \<le> z" by (cases x; cases y; cases z) (simp_all add: less_eq_Priority_def)
  show "x \<le> y \<Longrightarrow> y \<le> x \<Longrightarrow> x = y" by (cases x; cases y) (simp_all add: less_eq_Priority_def)
  show "x \<le> y \<or> y \<le> x" by (cases x; cases y) (simp_all add: less_eq_Priority_def)
qed

end

fun priorityForTrigger :: "TriggerType \<Rightarrow> Priority" where
  "priorityForTrigger TriggerEmergencyFloor = PriorityEmergency"
| "priorityForTrigger TriggerSilentDeparture = PriorityPermanentDeparture"
| "priorityForTrigger TriggerAnnouncedDeparture = PriorityPermanentDeparture"
| "priorityForTrigger TriggerThresholdWarning = PriorityPreWarning"

fun priority_dbValue :: "Priority \<Rightarrow> string" where
  "priority_dbValue PriorityEmergency = ''EMERGENCY''"
| "priority_dbValue PriorityPermanentDeparture = ''PERMANENT_DEPARTURE''"
| "priority_dbValue PriorityPreWarning = ''PRE_WARNING''"

text \<open>\<open>None\<close> is the panic on an unknown label.\<close>

definition priorityFromDB :: "string \<Rightarrow> Priority option" where
  "priorityFromDB s =
     (if s = ''EMERGENCY'' then Some PriorityEmergency
      else if s = ''PERMANENT_DEPARTURE'' then Some PriorityPermanentDeparture
      else if s = ''PRE_WARNING'' then Some PriorityPreWarning
      else None)"

fun trigger_dbValue :: "TriggerType \<Rightarrow> string" where
  "trigger_dbValue TriggerSilentDeparture = ''SILENT_DEPARTURE''"
| "trigger_dbValue TriggerAnnouncedDeparture = ''ANNOUNCED_DEPARTURE''"
| "trigger_dbValue TriggerThresholdWarning = ''THRESHOLD_WARNING''"
| "trigger_dbValue TriggerEmergencyFloor = ''EMERGENCY_FLOOR''"

definition triggerTypeFromDB :: "string \<Rightarrow> TriggerType option" where
  "triggerTypeFromDB s =
     (if s = ''SILENT_DEPARTURE'' then Some TriggerSilentDeparture
      else if s = ''ANNOUNCED_DEPARTURE'' then Some TriggerAnnouncedDeparture
      else if s = ''THRESHOLD_WARNING'' then Some TriggerThresholdWarning
      else if s = ''EMERGENCY_FLOOR'' then Some TriggerEmergencyFloor
      else None)"

lemma priority_label_roundtrip [simp]: "priorityFromDB (priority_dbValue p) = Some p"
  by (cases p) (simp_all add: priorityFromDB_def)

lemma trigger_label_roundtrip [simp]: "triggerTypeFromDB (trigger_dbValue t) = Some t"
  by (cases t) (simp_all add: triggerTypeFromDB_def)

subsection \<open>Operations\<close>

text \<open>The partial unique index \<^verbatim>\<open>idx_repair_jobs_threshold_no_dup\<close>.\<close>

definition threshold_dup :: "job_row list \<Rightarrow> byte list \<Rightarrow> uuid option \<Rightarrow> TriggerType \<Rightarrow> bool" where
  "threshold_dup jobs chunkID providerID t \<longleftrightarrow>
     providerID = None \<and>
     (\<exists>j\<in>set jobs. j_chunk_id j = chunkID \<and> trigger_type j = t \<and> j_provider_id j = None \<and>
        (j_status j = QUEUED \<or> j_status j = IN_PROGRESS))"

definition new_job ::
  "(nat \<Rightarrow> uuid) \<Rightarrow> time \<Rightarrow> database \<Rightarrow> byte list \<Rightarrow> uuid \<Rightarrow> uuid option \<Rightarrow> TriggerType \<Rightarrow> int \<Rightarrow> job_row" where
  "new_job gen now db chunkID segmentID providerID triggerType availableShardCount =
     \<lparr>job_id = gen (length (repair_jobs db)), j_chunk_id = chunkID, j_segment_id = segmentID,
      j_provider_id = providerID, trigger_type = triggerType, priority = priorityForTrigger triggerType,
      available_shard_count = availableShardCount, j_status = QUEUED, created_at = now,
      started_at = None, completed_at = None, failure_reason = None\<rparr>"

definition EnqueueJob ::
  "(nat \<Rightarrow> uuid) \<Rightarrow> bool \<Rightarrow> bool \<Rightarrow> time \<Rightarrow> NetworkProfile \<Rightarrow> byte list \<Rightarrow> uuid \<Rightarrow> uuid option \<Rightarrow> TriggerType \<Rightarrow> int \<Rightarrow>
     database \<Rightarrow> repair_error option \<times> database" where
  "EnqueueJob gen buildDebug ok now profile chunkID segmentID providerID triggerType availableShardCount db =
     (if availableShardCount < DataShards profile \<or> availableShardCount > TotalShards profile
      then (Some ErrShardCountOutOfRange, db)
      else if buildDebug \<and> (case List.find (\<lambda>a. a_chunk_id a = chunkID) (chunk_assignments db) of
                               None \<Rightarrow> False | Some a \<Rightarrow> is_vetting_chunk a)
      then (Some ErrRepairPanic, db)
      else if \<not> ok then (Some ErrRepairDB, db)
      else if threshold_dup (repair_jobs db) chunkID providerID triggerType then (Some ErrRepairUnique, db)
      else (None, db\<lparr>repair_jobs := repair_jobs db @
              [new_job gen now db chunkID segmentID providerID triggerType availableShardCount]\<rparr>))"

text \<open>
  \<^verbatim>\<open>ORDER BY priority ASC, created_at ASC LIMIT 1 FOR UPDATE SKIP LOCKED\<close>; \<open>locked\<close> are the rows
  that other transactions hold.
\<close>

definition next_queued :: "(uuid \<Rightarrow> bool) \<Rightarrow> database \<Rightarrow> job_row option" where
  "next_queued locked db =
     (case sort_key priority (sort_key created_at
             (filter (\<lambda>j. j_status j = QUEUED \<and> \<not> locked (job_id j)) (repair_jobs db))) of
        [] \<Rightarrow> None
      | j # _ \<Rightarrow> Some j)"

datatype dequeue_stmt = DqBegin | DqSelect | DqUpdate | DqCommit

definition DequeueNextJob ::
  "(dequeue_stmt \<Rightarrow> bool) \<Rightarrow> time \<Rightarrow> (uuid \<Rightarrow> bool) \<Rightarrow> database \<Rightarrow> (repair_error + job_row option) \<times> database" where
  "DequeueNextJob ok now locked db =
     (if \<not> ok DqBegin \<or> \<not> ok DqSelect then (Inl ErrRepairDB, db)
      else case next_queued locked db of
        None \<Rightarrow> (Inr None, db)
      | Some j \<Rightarrow>
          if \<not> ok DqUpdate \<or> \<not> ok DqCommit then (Inl ErrRepairDB, db)
          else (case (triggerTypeFromDB (trigger_dbValue (trigger_type j)), priorityFromDB (priority_dbValue (priority j))) of
                  (Some t, Some p) \<Rightarrow>
                    (Inr (Some (j\<lparr>trigger_type := t, priority := p\<rparr>)),
                     db\<lparr>repair_jobs := update_where (\<lambda>r. job_id r = job_id j)
                          (\<lambda>r. r\<lparr>j_status := IN_PROGRESS, started_at := Some now\<rparr>) (repair_jobs db)\<rparr>)
                | _ \<Rightarrow> (Inl ErrRepairPanic, db)))"

definition find_assignment :: "database \<Rightarrow> byte list \<Rightarrow> uuid \<Rightarrow> assignment_row option" where
  "find_assignment db chunkID providerID =
     List.find (\<lambda>a. a_chunk_id a = chunkID \<and> a_provider_id a = providerID) (chunk_assignments db)"

definition IsVettingChunk :: "bool \<Rightarrow> byte list \<Rightarrow> uuid \<Rightarrow> database \<Rightarrow> repair_error + bool" where
  "IsVettingChunk ok chunkID providerID db =
     (if \<not> ok then Inl ErrRepairDB
      else case find_assignment db chunkID providerID of
        None \<Rightarrow> Inr False
      | Some a \<Rightarrow> Inr (is_vetting_chunk a))"

definition DeleteVettingChunksOnDeparture :: "bool \<Rightarrow> uuid \<Rightarrow> database \<Rightarrow> repair_error option \<times> database" where
  "DeleteVettingChunksOnDeparture ok providerID db =
     (if \<not> ok then (Some ErrRepairDB, db)
      else (None, db\<lparr>chunk_assignments := update_where (\<lambda>a. a_provider_id a = providerID \<and> is_vetting_chunk a)
                       (\<lambda>a. a\<lparr>a_status := A_DELETED\<rparr>) (chunk_assignments db)\<rparr>))"

text \<open>
  The check \<^verbatim>\<open>repair_jobs_completed_after_started\<close> rejects the update of a job that was never taken;
  an unknown job has no row to return.
\<close>

definition MarkJobComplete ::
  "bool \<Rightarrow> time \<Rightarrow> uuid \<Rightarrow> bool \<Rightarrow> string \<Rightarrow> database \<Rightarrow> repair_error option \<times> database" where
  "MarkJobComplete ok now jobID success reason db =
     (let st = (if success then COMPLETED else FAILED);
          failureReason = (if \<not> success \<and> reason \<noteq> [] then Some reason else None)
      in if \<not> ok then (Some ErrRepairDB, db)
         else case List.find (\<lambda>r. job_id r = jobID) (repair_jobs db) of
           None \<Rightarrow> (Some ErrRepairNoRow, db)
         | Some j \<Rightarrow>
             if started_at j = None then (Some ErrRepairCheck, db)
             else (None, db\<lparr>repair_jobs := update_where (\<lambda>r. job_id r = jobID)
                     (\<lambda>r. r\<lparr>j_status := st, completed_at := Some now, failure_reason := failureReason\<rparr>)
                     (repair_jobs db)\<rparr>))"

definition PromoteStalePreWarningJobs :: "bool \<Rightarrow> time \<Rightarrow> NetworkProfile \<Rightarrow> database \<Rightarrow> (repair_error + nat) \<times> database" where
  "PromoteStalePreWarningJobs ok now profile db =
     (let stale = (\<lambda>j. priority j = PriorityPreWarning \<and> j_status j = QUEUED \<and>
                       created_at j < now - RepairPromotionTimeout profile)
      in if \<not> ok then (Inl ErrRepairDB, db)
         else (Inr (length (filter stale (repair_jobs db))),
               db\<lparr>repair_jobs := update_where stale (\<lambda>j. j\<lparr>priority := PriorityPermanentDeparture\<rparr>)
                    (repair_jobs db)\<rparr>))"

subsection \<open>Lemmas\<close>

definition queued_jobs :: "(uuid \<Rightarrow> bool) \<Rightarrow> database \<Rightarrow> job_row list" where
  "queued_jobs locked db =
     sort_key priority (sort_key created_at
       (filter (\<lambda>j. j_status j = QUEUED \<and> \<not> locked (job_id j)) (repair_jobs db)))"

lemma next_queued_eq: "next_queued locked db = (case queued_jobs locked db of [] \<Rightarrow> None | j # _ \<Rightarrow> Some j)"
  by (simp add: next_queued_def queued_jobs_def)

lemma set_queued_jobs:
  "set (queued_jobs locked db) = {j \<in> set (repair_jobs db). j_status j = QUEUED \<and> \<not> locked (job_id j)}"
  by (auto simp: queued_jobs_def)

definition serves_before :: "job_row \<Rightarrow> job_row \<Rightarrow> bool" where
  "serves_before j k \<longleftrightarrow> priority j < priority k \<or> priority j = priority k \<and> created_at j \<le> created_at k"

lemma sorted_lex:
  assumes "sorted_wrt (\<lambda>x y. g x \<le> g y) xs"
  shows "sorted_wrt (\<lambda>x y. f x < f y \<or> f x = f y \<and> g x \<le> g y) (sort_key f xs)"
  using assms
proof (induction xs)
  case (Cons x xs)
  have "sorted_wrt (\<lambda>x y. f x < f y \<or> f x = f y \<and> g x \<le> g y) (insort_key f x ys)"
    if "sorted_wrt (\<lambda>x y. f x < f y \<or> f x = f y \<and> g x \<le> g y) ys" and "\<forall>y\<in>set ys. g x \<le> g y" for ys
    using that
  proof (induction ys)
    case (Cons y ys)
    then show ?case by (auto simp: set_insort_key)
  qed simp
  with Cons show ?case by simp
qed simp

lemma queued_jobs_sorted: "sorted_wrt serves_before (queued_jobs locked db)"
proof -
  let ?js = "filter (\<lambda>j. j_status j = QUEUED \<and> \<not> locked (job_id j)) (repair_jobs db)"
  have "sorted_wrt (\<lambda>x y. created_at x \<le> created_at y) (sort_key created_at ?js)"
    using sorted_sort_key [of created_at ?js] unfolding sorted_map .
  from sorted_lex [OF this, of priority] show ?thesis
    unfolding queued_jobs_def serves_before_def [abs_def] .
qed

lemma dequeue_some:
  assumes "queued_jobs locked db = j # js"
  shows "DequeueNextJob (\<lambda>_. True) now locked db =
     (Inr (Some j), db\<lparr>repair_jobs := update_where (\<lambda>r. job_id r = job_id j)
        (\<lambda>r. r\<lparr>j_status := IN_PROGRESS, started_at := Some now\<rparr>) (repair_jobs db)\<rparr>)"
  using assms by (simp add: DequeueNextJob_def next_queued_eq)

lemma dequeue_none:
  "queued_jobs locked db = [] \<Longrightarrow> DequeueNextJob (\<lambda>_. True) now locked db = (Inr None, db)"
  by (simp add: DequeueNextJob_def next_queued_eq)

lemma filter_taken:
  "filter (\<lambda>j. j_status j = QUEUED) (update_where (\<lambda>r. job_id r = i) (\<lambda>r. r\<lparr>j_status := IN_PROGRESS, started_at := t\<rparr>) jobs) =
   filter (\<lambda>j. job_id j \<noteq> i) (filter (\<lambda>j. j_status j = QUEUED) jobs)"
  by (induction jobs) auto

lemma queued_after_take:
  assumes "distinct (map job_id (repair_jobs db))" and "queued_jobs (\<lambda>_. False) db = j # js"
  shows "queued_jobs (\<lambda>_. False) (db\<lparr>repair_jobs := update_where (\<lambda>r. job_id r = job_id j)
           (\<lambda>r. r\<lparr>j_status := IN_PROGRESS, started_at := Some now\<rparr>) (repair_jobs db)\<rparr>) = js"
proof -
  let ?L = "queued_jobs (\<lambda>_. False) db"
  have "distinct (map job_id ?L)"
    unfolding queued_jobs_def distinct_map using assms(1)
    by (auto simp: distinct_map inj_on_def)
  with assms(2) have "filter (\<lambda>k. job_id k \<noteq> job_id j) ?L = js"
    by (auto simp: filter_id_conv image_iff)
  then show ?thesis
    by (simp add: queued_jobs_def filter_taken filter_sort [symmetric])
qed

subsection \<open>Invariant\<close>

text \<open>The constraints of the table and the life cycle of a job.\<close>

definition job_ok :: "NetworkProfile \<Rightarrow> job_row \<Rightarrow> bool" where
  "job_ok profile j \<longleftrightarrow>
     (priority j = priorityForTrigger (trigger_type j) \<or>
      trigger_type j = TriggerThresholdWarning \<and> priority j = PriorityPermanentDeparture) \<and>
     DataShards profile \<le> available_shard_count j \<and> available_shard_count j \<le> TotalShards profile \<and>
     (started_at j = None \<longleftrightarrow> j_status j = QUEUED) \<and>
     (completed_at j \<noteq> None \<longleftrightarrow> j_status j = COMPLETED \<or> j_status j = FAILED) \<and>
     (failure_reason j \<noteq> None \<longrightarrow> j_status j = FAILED)"

definition queue_ok :: "(nat \<Rightarrow> uuid) \<Rightarrow> NetworkProfile \<Rightarrow> database \<Rightarrow> bool" where
  "queue_ok gen profile db \<longleftrightarrow>
     map job_id (repair_jobs db) = map gen [0..<length (repair_jobs db)] \<and>
     (\<forall>j\<in>set (repair_jobs db). job_ok profile j)"

lemma queue_ok_update:
  assumes "queue_ok gen profile db"
    and "\<And>j. j \<in> set (repair_jobs db) \<Longrightarrow> P j \<Longrightarrow> job_ok profile j \<Longrightarrow> job_ok profile (f j) \<and> job_id (f j) = job_id j"
  shows "queue_ok gen profile (db\<lparr>repair_jobs := update_where P f (repair_jobs db)\<rparr>)"
proof -
  have "map job_id (update_where P f (repair_jobs db)) = map job_id (repair_jobs db)"
    using assms by (intro map_update_where) (simp add: queue_ok_def)
  moreover have "\<forall>j\<in>set (update_where P f (repair_jobs db)). job_ok profile j"
    using assms by (auto simp: in_update_where queue_ok_def)
  ultimately show ?thesis using assms(1) by (simp add: queue_ok_def)
qed

lemma EnqueueJob_ok:
  assumes "queue_ok gen profile db"
  shows "queue_ok gen profile (snd (EnqueueJob gen dbg ok now profile c s p t n db))"
  using assms by (auto simp: EnqueueJob_def queue_ok_def new_job_def job_ok_def)

lemma queue_ok_distinct: "queue_ok gen profile db \<Longrightarrow> inj gen \<Longrightarrow> distinct (map job_id (repair_jobs db))"
  by (simp add: queue_ok_def distinct_map) (metis inj_on_subset subset_UNIV)

lemma same_job:
  "distinct (map job_id jobs) \<Longrightarrow> j \<in> set jobs \<Longrightarrow> k \<in> set jobs \<Longrightarrow> job_id j = job_id k \<Longrightarrow> j = k"
  by (auto simp: distinct_map inj_on_def)

lemma DequeueNextJob_cases:
  obtains "snd (DequeueNextJob ok now locked db) = db"
  | j where "j \<in> set (repair_jobs db)" "j_status j = QUEUED"
    "snd (DequeueNextJob ok now locked db) = db\<lparr>repair_jobs := update_where (\<lambda>r. job_id r = job_id j)
        (\<lambda>r. r\<lparr>j_status := IN_PROGRESS, started_at := Some now\<rparr>) (repair_jobs db)\<rparr>"
proof (cases "queued_jobs locked db")
  case Nil
  then have "snd (DequeueNextJob ok now locked db) = db" by (simp add: DequeueNextJob_def next_queued_eq)
  then show thesis by (rule that(1))
next
  case (Cons j js)
  with set_queued_jobs [of locked db] have "j \<in> set (repair_jobs db)" "j_status j = QUEUED" by auto
  moreover from Cons have "snd (DequeueNextJob ok now locked db) = db \<or>
      snd (DequeueNextJob ok now locked db) = db\<lparr>repair_jobs := update_where (\<lambda>r. job_id r = job_id j)
        (\<lambda>r. r\<lparr>j_status := IN_PROGRESS, started_at := Some now\<rparr>) (repair_jobs db)\<rparr>"
    by (simp add: DequeueNextJob_def next_queued_eq)
  ultimately show thesis using that by blast
qed

lemma DequeueNextJob_ok:
  assumes "inj gen" and "queue_ok gen profile db"
  shows "queue_ok gen profile (snd (DequeueNextJob ok now locked db))"
proof (rule DequeueNextJob_cases [of ok now locked db])
  fix j
  assume j: "j \<in> set (repair_jobs db)" "j_status j = QUEUED"
    "snd (DequeueNextJob ok now locked db) = db\<lparr>repair_jobs := update_where (\<lambda>r. job_id r = job_id j)
        (\<lambda>r. r\<lparr>j_status := IN_PROGRESS, started_at := Some now\<rparr>) (repair_jobs db)\<rparr>"
  have "job_ok profile (r\<lparr>j_status := IN_PROGRESS, started_at := Some now\<rparr>)"
    if "r \<in> set (repair_jobs db)" "job_id r = job_id j" "job_ok profile r" for r
    using same_job [OF queue_ok_distinct [OF assms(2,1)] that(1) j(1) that(2)] that(3) j(2)
    by (auto simp: job_ok_def)
  then show ?thesis unfolding j(3) by (intro queue_ok_update [OF assms(2)]) simp
qed (use assms in simp)

lemma MarkJobComplete_ok:
  assumes "inj gen" and "queue_ok gen profile db"
  shows "queue_ok gen profile (snd (MarkJobComplete ok now i success reason db))"
proof (cases "snd (MarkJobComplete ok now i success reason db) = db")
  case False
  then obtain j where j: "List.find (\<lambda>r. job_id r = i) (repair_jobs db) = Some j" "started_at j \<noteq> None" "ok"
    by (auto simp: MarkJobComplete_def Let_def split: option.splits if_splits)
  then have mem: "j \<in> set (repair_jobs db)" "job_id j = i" by (auto simp: find_Some_iff)
  have "job_ok profile (r\<lparr>j_status := st, completed_at := Some now, failure_reason := fr\<rparr>)"
    if "r \<in> set (repair_jobs db)" "job_id r = i" "job_ok profile r" "st = COMPLETED \<and> fr = None \<or> st = FAILED" for r st fr
    using same_job [OF queue_ok_distinct [OF assms(2,1)] that(1) mem(1)] mem(2) that(2-4) j(2)
    by (auto simp: job_ok_def)
  moreover obtain st fr where "snd (MarkJobComplete ok now i success reason db) = db\<lparr>repair_jobs :=
      update_where (\<lambda>r. job_id r = i) (\<lambda>r. r\<lparr>j_status := st, completed_at := Some now, failure_reason := fr\<rparr>)
        (repair_jobs db)\<rparr>" "st = COMPLETED \<and> fr = None \<or> st = FAILED"
    using j by (simp add: MarkJobComplete_def Let_def split: if_splits)
  ultimately show ?thesis using queue_ok_update [OF assms(2)] by simp
qed (use assms in simp)

lemma PromoteStale_ok:
  assumes "queue_ok gen profile db"
  shows "queue_ok gen profile (snd (PromoteStalePreWarningJobs ok now profile' db))"
proof -
  have "job_ok profile (j\<lparr>priority := PriorityPermanentDeparture\<rparr>)"
    if "job_ok profile j" "priority j = PriorityPreWarning" for j
    using that by (cases "trigger_type j") (auto simp: job_ok_def)
  then show ?thesis
    using assms by (auto simp: PromoteStalePreWarningJobs_def Let_def intro!: queue_ok_update)
qed

lemma MarkJobComplete_frame: "\<exists>jobs. snd (MarkJobComplete ok now i success reason db) = db\<lparr>repair_jobs := jobs\<rparr>"
proof
  show "snd (MarkJobComplete ok now i success reason db) =
      db\<lparr>repair_jobs := repair_jobs (snd (MarkJobComplete ok now i success reason db))\<rparr>"
    by (simp add: MarkJobComplete_def Let_def split: option.split)
qed

text \<open>Every interleaving of the queue's operations, by any number of workers.\<close>

inductive queue_run :: "(nat \<Rightarrow> uuid) \<Rightarrow> NetworkProfile \<Rightarrow> database \<Rightarrow> database \<Rightarrow> bool" for gen profile where
  start: "queue_run gen profile db db"
| enqueue: "queue_run gen profile db d \<Longrightarrow> queue_run gen profile db (snd (EnqueueJob gen dbg ok now profile c s p t n d))"
| dequeue: "queue_run gen profile db d \<Longrightarrow> queue_run gen profile db (snd (DequeueNextJob oks now locked d))"
| finish: "queue_run gen profile db d \<Longrightarrow> queue_run gen profile db (snd (MarkJobComplete ok now i success reason d))"
| promote: "queue_run gen profile db d \<Longrightarrow> queue_run gen profile db (snd (PromoteStalePreWarningJobs ok now profile d))"

lemma queue_run_ok:
  "queue_run gen profile db d \<Longrightarrow> inj gen \<Longrightarrow> queue_ok gen profile db \<Longrightarrow> queue_ok gen profile d"
  by (induction rule: queue_run.induct)
     (simp_all add: EnqueueJob_ok DequeueNextJob_ok MarkJobComplete_ok PromoteStale_ok)

lemma queue_ok_empty: "queue_ok gen profile empty_db"
  by (simp add: queue_ok_def empty_db_def)

text \<open>Taking jobs until the queue is empty.\<close>

fun drain :: "nat \<Rightarrow> time \<Rightarrow> database \<Rightarrow> job_row list \<times> database" where
  "drain 0 now db = ([], db)"
| "drain (Suc n) now db =
     (case DequeueNextJob (\<lambda>_. True) now (\<lambda>_. False) db of
        (Inr (Some j), db') \<Rightarrow> (let (js, db'') = drain n now db' in (j # js, db''))
      | (_, db') \<Rightarrow> ([], db'))"

lemma drain_queued:
  assumes "distinct (map job_id (repair_jobs db))" and "length (queued_jobs (\<lambda>_. False) db) \<le> n"
  shows "fst (drain n now db) = queued_jobs (\<lambda>_. False) db"
  using assms
proof (induction n arbitrary: db)
  case (Suc n)
  show ?case
  proof (cases "queued_jobs (\<lambda>_. False) db")
    case Nil
    then show ?thesis by (simp add: dequeue_none)
  next
    case (Cons j js)
    let ?db' = "db\<lparr>repair_jobs := update_where (\<lambda>r. job_id r = job_id j)
        (\<lambda>r. r\<lparr>j_status := IN_PROGRESS, started_at := Some now\<rparr>) (repair_jobs db)\<rparr>"
    have q: "queued_jobs (\<lambda>_. False) ?db' = js" by (rule queued_after_take [OF Suc.prems(1) Cons])
    have "map job_id (repair_jobs ?db') = map job_id (repair_jobs db)"
      by (simp add: map_update_where)
    then have "fst (drain n now ?db') = js"
      using Suc.IH [of ?db'] Suc.prems Cons q by simp
    with dequeue_some [OF Cons, of now] Cons show ?thesis by (simp add: split_beta)
  qed
qed simp

subsection \<open>Properties\<close>

text \<open>
  C17: the queue serves jobs by priority and first come first served within a priority. From any state that the
  queue's operations reach, in any order and with any failing statements, taking jobs until the
  queue is empty yields every queued job exactly once, each before all jobs of a later priority and all later
  jobs of its own priority; an emergency job is never behind another priority.
\<close>

theorem queue_drains_in_order:
  assumes "inj gen" and "queue_run gen profile empty_db db" and "length (repair_jobs db) \<le> n"
  shows "let served = fst (drain n now db)
         in sorted_wrt serves_before served \<and> distinct (map job_id served) \<and>
            mset served = mset (filter (\<lambda>j. j_status j = QUEUED) (repair_jobs db))"
proof -
  have dist: "distinct (map job_id (repair_jobs db))"
    using queue_ok_distinct queue_run_ok [OF assms(2,1) queue_ok_empty] assms(1) by blast
  have m: "mset (queued_jobs (\<lambda>_. False) db) = mset (filter (\<lambda>j. j_status j = QUEUED) (repair_jobs db))"
    by (simp add: queued_jobs_def)
  have "length (queued_jobs (\<lambda>_. False) db) \<le> n"
    using assms(3) by (simp add: queued_jobs_def le_trans [OF length_filter_le])
  from drain_queued [OF dist this, of now] have served: "fst (drain n now db) = queued_jobs (\<lambda>_. False) db" .
  have "distinct (map job_id (filter (\<lambda>j. j_status j = QUEUED) (repair_jobs db)))"
    using dist by (simp add: distinct_map_filter)
  then have "distinct (map job_id (queued_jobs (\<lambda>_. False) db))"
    using m by (metis mset_eq_imp_distinct_iff mset_map)
  with m served queued_jobs_sorted [of "\<lambda>_. False" db] show ?thesis by (simp add: Let_def)
qed

definition sample_gen :: "nat \<Rightarrow> uuid" where "sample_gen n = replicate n 0"

lemma inj_sample_gen: "inj sample_gen"
  by (rule injI) (metis length_replicate sample_gen_def)

definition sample_queue :: database where
  "sample_queue =
     snd (EnqueueJob sample_gen False True 1 DemoProfile [2] [9] None TriggerEmergencyFloor 3
       (snd (EnqueueJob sample_gen False True 0 DemoProfile [1] [9] None TriggerThresholdWarning 3 empty_db)))"

lemma sample_queue_run: "queue_run sample_gen DemoProfile empty_db sample_queue"
  unfolding sample_queue_def by (intro queue_run.intros)

lemma sample_queue_jobs:
  "map trigger_type (repair_jobs sample_queue) = [TriggerThresholdWarning, TriggerEmergencyFloor]"
  "map j_status (repair_jobs sample_queue) = [QUEUED, QUEUED]"
  "length (repair_jobs sample_queue) = 2"
  by (simp_all add: sample_queue_def EnqueueJob_def new_job_def threshold_dup_def DemoProfile_def empty_db_def)

theorem queue_drains_in_order_witness:
  "sorted_wrt serves_before (fst (drain 2 5 sample_queue)) \<and> length (fst (drain 2 5 sample_queue)) = 2"
proof -
  have drained: "sorted_wrt serves_before (fst (drain 2 5 sample_queue)) \<and>
      mset (fst (drain 2 5 sample_queue)) = mset (filter (\<lambda>j. j_status j = QUEUED) (repair_jobs sample_queue))"
    using queue_drains_in_order [OF inj_sample_gen sample_queue_run, of 2 5] sample_queue_jobs(3)
    by (simp add: Let_def)
  moreover have "filter (\<lambda>j. j_status j = QUEUED) (repair_jobs sample_queue) = repair_jobs sample_queue"
    by (simp add: sample_queue_def EnqueueJob_def new_job_def threshold_dup_def DemoProfile_def empty_db_def)
  ultimately show ?thesis using sample_queue_jobs(3) mset_eq_length by force
qed

text \<open>
  the queue keeps its table constraints. In every state that its operations reach, a job's
  priority matches its trigger (a promoted threshold warning may have departure priority), its shard
  count is within the profile's bounds, it has a start time exactly when it has left the queue and a completion
  time exactly when it has ended, and a failure reason only when it failed; identifiers are unique.
\<close>

theorem queue_invariant:
  assumes "inj gen" and "queue_run gen profile empty_db db"
  shows "distinct (map job_id (repair_jobs db)) \<and>
         (\<forall>j\<in>set (repair_jobs db).
            (priority j = priorityForTrigger (trigger_type j) \<or>
             trigger_type j = TriggerThresholdWarning \<and> priority j = PriorityPermanentDeparture) \<and>
            DataShards profile \<le> available_shard_count j \<and> available_shard_count j \<le> TotalShards profile \<and>
            (started_at j = None \<longleftrightarrow> j_status j = QUEUED) \<and>
            (completed_at j \<noteq> None \<longleftrightarrow> j_status j = COMPLETED \<or> j_status j = FAILED) \<and>
            (failure_reason j \<noteq> None \<longrightarrow> j_status j = FAILED))"
proof -
  have "queue_ok gen profile db" by (rule queue_run_ok [OF assms(2,1) queue_ok_empty])
  with queue_ok_distinct [OF this assms(1)] show ?thesis unfolding queue_ok_def job_ok_def by blast
qed

theorem queue_invariant_witness:
  "distinct (map job_id (repair_jobs sample_queue)) \<and> length (repair_jobs sample_queue) = 2"
  using queue_invariant [OF inj_sample_gen sample_queue_run] sample_queue_jobs(3) by blast

end
