(* ===== verification/Assignment.thy ===== *)
theory Assignment
  imports Queue
begin

text \<open>
  Choosing a replacement provider, \<^verbatim>\<open>internal/repair/assignment.go\<close>: two random eligible candidates,
  the better scored one first, subject to the cap on the share of one autonomous system in a segment, with a
  bounded number of draws. \<open>shuffle i\<close> is the order in which \<^verbatim>\<open>ORDER BY random()\<close> returns the rows of the
  \<open>i\<close>-th draw; the properties assume of it only that it permutes the rows. \<open>ok\<close> says which queries succeed.
\<close>

definition maxReplacementSelectionAttempts :: nat where "maxReplacementSelectionAttempts = 5"

record replacementCandidate =
  rc_providerID :: uuid
  rc_asn :: string

datatype select_stmt = SelDraw nat | SelScore nat | SelCap uuid

definition eligible :: "time \<Rightarrow> uuid list \<Rightarrow> provider_row \<Rightarrow> bool" where
  "eligible now excluded r \<longleftrightarrow>
     status r = ACTIVE \<and> linked_account r \<noteq> None \<and>
     (case cooling_until r of None \<Rightarrow> False | Some t \<Rightarrow> t < now) \<and> provider_id r \<notin> set excluded"

definition drawTwoActiveCandidates ::
  "bool \<Rightarrow> time \<Rightarrow> (provider_row list \<Rightarrow> provider_row list) \<Rightarrow> database \<Rightarrow> uuid list \<Rightarrow> repair_error + replacementCandidate list" where
  "drawTwoActiveCandidates ok now shuffle db excluded =
     (if \<not> ok then Inl ErrRepairDB
      else Inr (map (\<lambda>r. \<lparr>rc_providerID = provider_id r, rc_asn = asn r\<rparr>)
                  (take 2 (shuffle (filter (eligible now excluded) (providers db))))))"

definition composite_score :: "database \<Rightarrow> uuid \<Rightarrow> rat" where
  "composite_score db pid = (case mv_provider_scores db pid of None \<Rightarrow> 0 | Some r \<Rightarrow> score_composite r)"

definition orderCandidatesByScoreDesc ::
  "bool \<Rightarrow> database \<Rightarrow> replacementCandidate list \<Rightarrow> repair_error + replacementCandidate list" where
  "orderCandidatesByScoreDesc ok db candidates =
     (if \<not> ok then Inl ErrRepairDB
      else Inr (sort_key (\<lambda>c. - composite_score db (rc_providerID c)) candidates))"

definition asn_count :: "database \<Rightarrow> uuid \<Rightarrow> string \<Rightarrow> nat" where
  "asn_count db segmentID a =
     length (filter (\<lambda>ca. a_segment_id ca = Some segmentID \<and> (a_status ca = A_ACTIVE \<or> a_status ca = A_REPAIRING) \<and>
                          (case find_provider db (a_provider_id ca) of None \<Rightarrow> False | Some p \<Rightarrow> asn p = a))
               (chunk_assignments db))"

definition asnWithinCap :: "bool \<Rightarrow> database \<Rightarrow> uuid \<Rightarrow> string \<Rightarrow> int \<Rightarrow> repair_error + bool" where
  "asnWithinCap ok db segmentID a maxPerASN =
     (if \<not> ok then Inl ErrRepairDB else Inr (int (asn_count db segmentID a) + 1 \<le> maxPerASN))"

definition max_per_asn :: "NetworkProfile \<Rightarrow> int" where
  "max_per_asn profile = \<lfloor>of_int (TotalShards profile) * ASNCapFraction profile\<rfloor>"

text \<open>The candidates of one draw: the chosen one, or the extended exclusion list.\<close>

fun try_candidates ::
  "(select_stmt \<Rightarrow> bool) \<Rightarrow> database \<Rightarrow> uuid \<Rightarrow> int \<Rightarrow> replacementCandidate list \<Rightarrow> uuid list \<Rightarrow> repair_error + (uuid + uuid list)" where
  "try_candidates ok db segmentID maxPerASN [] excluded = Inr (Inr excluded)"
| "try_candidates ok db segmentID maxPerASN (c # cs) excluded =
     (case asnWithinCap (ok (SelCap (rc_providerID c))) db segmentID (rc_asn c) maxPerASN of
        Inl e \<Rightarrow> Inl e
      | Inr inCap \<Rightarrow>
          if inCap then Inr (Inl (rc_providerID c))
          else try_candidates ok db segmentID maxPerASN cs (rc_providerID c # excluded))"

fun select_attempts ::
  "nat \<Rightarrow> nat \<Rightarrow> (select_stmt \<Rightarrow> bool) \<Rightarrow> time \<Rightarrow> (nat \<Rightarrow> provider_row list \<Rightarrow> provider_row list) \<Rightarrow> database \<Rightarrow> uuid \<Rightarrow> int \<Rightarrow>
     uuid list \<Rightarrow> repair_error + uuid" where
  "select_attempts 0 attempt ok now shuffle db segmentID maxPerASN excluded = Inl ErrNoEligibleReplacement"
| "select_attempts (Suc left) attempt ok now shuffle db segmentID maxPerASN excluded =
     (case drawTwoActiveCandidates (ok (SelDraw attempt)) now (shuffle attempt) db excluded of
        Inl e \<Rightarrow> Inl e
      | Inr candidates \<Rightarrow>
          if candidates = [] then Inl ErrNoEligibleReplacement
          else (case orderCandidatesByScoreDesc (ok (SelScore attempt)) db candidates of
                  Inl e \<Rightarrow> Inl e
                | Inr ordered \<Rightarrow>
                    (case try_candidates ok db segmentID maxPerASN ordered excluded of
                       Inl e \<Rightarrow> Inl e
                     | Inr (Inl pid) \<Rightarrow> Inr pid
                     | Inr (Inr excluded') \<Rightarrow>
                         select_attempts left (Suc attempt) ok now shuffle db segmentID maxPerASN excluded')))"

definition SelectReplacementProvider ::
  "(select_stmt \<Rightarrow> bool) \<Rightarrow> time \<Rightarrow> (nat \<Rightarrow> provider_row list \<Rightarrow> provider_row list) \<Rightarrow> database \<Rightarrow> NetworkProfile \<Rightarrow> uuid \<Rightarrow>
     uuid list \<Rightarrow> repair_error + uuid" where
  "SelectReplacementProvider ok now shuffle db profile segmentID excludeProviderIDs =
     select_attempts maxReplacementSelectionAttempts 0 ok now shuffle db segmentID (max_per_asn profile) excludeProviderIDs"

subsection \<open>Lemmas\<close>

definition permutes_rows :: "(nat \<Rightarrow> provider_row list \<Rightarrow> provider_row list) \<Rightarrow> bool" where
  "permutes_rows shuffle \<longleftrightarrow> (\<forall>i rows. mset (shuffle i rows) = mset rows)"

text \<open>A provider row that may take a shard of the segment.\<close>

definition acceptable :: "time \<Rightarrow> uuid list \<Rightarrow> database \<Rightarrow> uuid \<Rightarrow> int \<Rightarrow> provider_row \<Rightarrow> bool" where
  "acceptable now excluded db segmentID m r \<longleftrightarrow>
     r \<in> set (providers db) \<and> eligible now excluded r \<and> int (asn_count db segmentID (asn r)) + 1 \<le> m"

lemma try_candidates_sound:
  "try_candidates ok db seg m cs ex = Inr (Inl pid) \<Longrightarrow>
   \<exists>c\<in>set cs. rc_providerID c = pid \<and> int (asn_count db seg (rc_asn c)) + 1 \<le> m"
  by (induction cs arbitrary: ex) (auto simp: asnWithinCap_def split: if_splits sum.splits)

lemma try_candidates_exclude:
  "try_candidates ok db seg m cs ex = Inr (Inr ex') \<Longrightarrow> set ex' = rc_providerID ` set cs \<union> set ex"
  by (induction cs arbitrary: ex) (auto simp: asnWithinCap_def split: if_splits sum.splits)

lemma try_candidates_total:
  obtains pid where "try_candidates (\<lambda>_. True) db seg m cs ex = Inr (Inl pid)"
  | ex' where "try_candidates (\<lambda>_. True) db seg m cs ex = Inr (Inr ex')"
    "\<forall>c\<in>set cs. m < int (asn_count db seg (rc_asn c)) + 1"
proof -
  have "(\<exists>pid. try_candidates (\<lambda>_. True) db seg m cs ex = Inr (Inl pid)) \<or>
    (\<exists>ex'. try_candidates (\<lambda>_. True) db seg m cs ex = Inr (Inr ex')) \<and> (\<forall>c\<in>set cs. m < int (asn_count db seg (rc_asn c)) + 1)"
    by (induction cs arbitrary: ex) (auto simp: asnWithinCap_def)
  with that show thesis by blast
qed

lemma drawn_rows:
  assumes "permutes_rows shuffle" and "drawTwoActiveCandidates b now (shuffle i) db ex = Inr cs"
  obtains rows where "cs = map (\<lambda>r. \<lparr>rc_providerID = provider_id r, rc_asn = asn r\<rparr>) rows"
    "set rows \<subseteq> {r \<in> set (providers db). eligible now ex r}"
    "rows = take 2 (shuffle i (filter (eligible now ex) (providers db)))"
proof -
  let ?rows = "take 2 (shuffle i (filter (eligible now ex) (providers db)))"
  have "set (shuffle i (filter (eligible now ex) (providers db))) = set (filter (eligible now ex) (providers db))"
    using assms(1) by (metis permutes_rows_def mset_eq_setD)
  then have "set ?rows \<subseteq> {r \<in> set (providers db). eligible now ex r}"
    using set_take_subset [of 2 "shuffle i (filter (eligible now ex) (providers db))"] by auto
  with assms(2) that show thesis by (auto simp: drawTwoActiveCandidates_def split: if_splits)
qed

lemma select_attempts_sound:
  assumes "permutes_rows shuffle" and "select_attempts n i ok now shuffle db seg m ex = Inr pid"
  shows "\<exists>r. acceptable now ex db seg m r \<and> provider_id r = pid"
  using assms(2)
proof (induction n arbitrary: i ex)
  case (Suc n)
  from Suc.prems obtain cs ordered res where
    cs: "drawTwoActiveCandidates (ok (SelDraw i)) now (shuffle i) db ex = Inr cs"
    and ord: "orderCandidatesByScoreDesc (ok (SelScore i)) db cs = Inr ordered"
    and res: "try_candidates ok db seg m ordered ex = Inr res"
    by (auto split: sum.splits if_splits)
  have set: "set ordered = set cs" using ord by (auto simp: orderCandidatesByScoreDesc_def split: if_splits)
  obtain rows where rows: "cs = map (\<lambda>r. \<lparr>rc_providerID = provider_id r, rc_asn = asn r\<rparr>) rows"
    "set rows \<subseteq> {r \<in> set (providers db). eligible now ex r}"
    by (rule drawn_rows [OF assms(1) cs])
  show ?case
  proof (cases res)
    case (Inl p)
    with Suc.prems cs ord res have "p = pid" by (auto split: if_splits)
    with try_candidates_sound [of ok db seg m ordered ex p] res Inl set rows show ?thesis
      by (auto simp: acceptable_def)
  next
    case (Inr ex')
    with Suc.prems cs ord res have "select_attempts n (Suc i) ok now shuffle db seg m ex' = Inr pid"
      by (auto split: if_splits)
    from Suc.IH [OF this] obtain r where r: "acceptable now ex' db seg m r" "provider_id r = pid" by blast
    moreover have "set ex \<subseteq> set ex'" using try_candidates_exclude [of ok db seg m ordered ex ex'] res Inr by simp
    ultimately show ?thesis by (auto simp: acceptable_def eligible_def)
  qed
qed simp

text \<open>Eligible rows that are over the cap.\<close>

definition over_cap :: "time \<Rightarrow> uuid list \<Rightarrow> database \<Rightarrow> uuid \<Rightarrow> int \<Rightarrow> provider_row list" where
  "over_cap now ex db seg m =
     filter (\<lambda>r. eligible now ex r \<and> m < int (asn_count db seg (asn r)) + 1) (providers db)"

lemma over_cap_shrinks:
  assumes "distinct (map provider_id (providers db))"
    and "set rows \<subseteq> set (over_cap now ex db seg m)" and "distinct rows"
    and "set ex' = provider_id ` set rows \<union> set ex"
  shows "length (over_cap now ex' db seg m) + length rows = length (over_cap now ex db seg m)"
proof -
  have d: "distinct (over_cap now x db seg m)" for x using assms(1) by (simp add: over_cap_def distinct_map)
  have "set (over_cap now ex db seg m) = set (over_cap now ex' db seg m) \<union> set rows"
    "set (over_cap now ex' db seg m) \<inter> set rows = {}"
    using assms by (auto simp: over_cap_def eligible_def distinct_map dest: inj_onD)
  then have "card (set (over_cap now ex db seg m)) = card (set (over_cap now ex' db seg m)) + card (set rows)"
    by (simp add: card_Un_disjoint)
  then show ?thesis using distinct_card [OF d [of ex]] distinct_card [OF d [of ex']] distinct_card [OF assms(3)] by simp
qed

lemma select_attempts_complete:
  assumes "permutes_rows shuffle" and "distinct (map provider_id (providers db))"
    and "acceptable now ex db seg m g" and "length (over_cap now ex db seg m) < 2 * n"
  shows "\<exists>pid. select_attempts n i (\<lambda>_. True) now shuffle db seg m ex = Inr pid"
  using assms(3,4)
proof (induction n arbitrary: i ex)
  case (Suc n)
  let ?pool = "filter (eligible now ex) (providers db)"
  define rows where "rows = take 2 (shuffle i ?pool)"
  define cs where "cs = map (\<lambda>r. \<lparr>rc_providerID = provider_id r, rc_asn = asn r\<rparr>) rows"
  define ordered where "ordered = sort_key (\<lambda>c. - composite_score db (rc_providerID c)) cs"
  have perm: "mset (shuffle i ?pool) = mset ?pool" using assms(1) by (simp add: permutes_rows_def)
  have pool: "set (shuffle i ?pool) = set ?pool" using perm by (rule mset_eq_setD)
  have dist: "distinct (shuffle i ?pool)"
    using perm assms(2) by (metis distinct_filter distinct_map mset_eq_imp_distinct_iff)
  have g: "g \<in> set ?pool" using Suc.prems(1) by (simp add: acceptable_def)
  have "shuffle i ?pool \<noteq> []" using g pool by auto
  then have "cs \<noteq> []" by (simp add: cs_def rows_def)
  then have step: "select_attempts (Suc n) i (\<lambda>_. True) now shuffle db seg m ex =
      (case try_candidates (\<lambda>_. True) db seg m ordered ex of
         Inl e \<Rightarrow> Inl e | Inr (Inl pid) \<Rightarrow> Inr pid
       | Inr (Inr ex') \<Rightarrow> select_attempts n (Suc i) (\<lambda>_. True) now shuffle db seg m ex')"
    by (simp add: drawTwoActiveCandidates_def orderCandidatesByScoreDesc_def cs_def rows_def ordered_def)
  show ?case
  proof (rule try_candidates_total [of db seg m ordered ex])
    fix pid assume "try_candidates (\<lambda>_. True) db seg m ordered ex = Inr (Inl pid)"
    then show ?thesis unfolding step by simp
  next
    fix ex' assume ex': "try_candidates (\<lambda>_. True) db seg m ordered ex = Inr (Inr ex')"
      and over: "\<forall>c\<in>set ordered. m < int (asn_count db seg (rc_asn c)) + 1"
    have rows: "set rows \<subseteq> set ?pool" unfolding rows_def using pool set_take_subset by metis
    have over_rows: "set rows \<subseteq> set (over_cap now ex db seg m)"
      using over rows by (auto simp: over_cap_def ordered_def cs_def)
    have "g \<notin> set rows" using over Suc.prems(1) by (auto simp: acceptable_def ordered_def cs_def)
    then have "length (shuffle i ?pool) \<noteq> length rows"
      using g pool unfolding rows_def by (metis append_take_drop_id append_Nil2 length_drop drop_eq_Nil
          length_take min.cobounded1 min_def order_refl)
    then have two: "length rows = 2" unfolding rows_def by (simp add: min_def split: if_splits)
    have excl: "set ex' = provider_id ` set rows \<union> set ex"
      using try_candidates_exclude [OF ex'] by (simp add: ordered_def cs_def image_image)
    have less: "length (over_cap now ex' db seg m) < 2 * n"
      using over_cap_shrinks [OF assms(2) over_rows _ excl] dist two Suc.prems(2) by (simp add: rows_def)
    have "provider_id g \<notin> provider_id ` set rows"
      using \<open>g \<notin> set rows\<close> rows g assms(2) by (auto simp: distinct_map dest: inj_onD)
    with Suc.prems(1) excl have "acceptable now ex' db seg m g" by (auto simp: acceptable_def eligible_def)
    from Suc.IH [OF this less] ex' show ?thesis unfolding step by simp
  qed
qed simp

subsection \<open>Properties\<close>

text \<open>
  replacement selection. Whatever the random draws and failing queries, a provider that is returned is
  active, has a linked account whose cooling period is over, is not excluded, and one more
  shard for it keeps its autonomous system within \<open>floor(TotalShards * ASNCapFraction)\<close> of
  the segment's live shards. When the queries succeed, some provider qualifies and at most nine
  eligible providers are over the cap, five draws of two always find one.
\<close>

theorem replacement_selected:
  assumes "permutes_rows shuffle" and "distinct (map provider_id (providers db))"
  shows "(\<forall>ok pid. SelectReplacementProvider ok now shuffle db profile seg ex = Inr pid \<longrightarrow>
            (\<exists>r\<in>set (providers db). provider_id r = pid \<and> status r = ACTIVE \<and> linked_account r \<noteq> None \<and>
               (\<exists>t. cooling_until r = Some t \<and> t < now) \<and> pid \<notin> set ex \<and>
               of_int (int (asn_count db seg (asn r)) + 1) \<le> of_int (TotalShards profile) * ASNCapFraction profile)) \<and>
         ((\<exists>g. acceptable now ex db seg (max_per_asn profile) g) \<and> length (over_cap now ex db seg (max_per_asn profile)) \<le> 9 \<longrightarrow>
            (\<exists>pid. SelectReplacementProvider (\<lambda>_. True) now shuffle db profile seg ex = Inr pid))"
proof (intro conjI allI impI)
  fix ok pid assume "SelectReplacementProvider ok now shuffle db profile seg ex = Inr pid"
  then obtain r where "acceptable now ex db seg (max_per_asn profile) r" "provider_id r = pid"
    using select_attempts_sound [OF assms(1)] unfolding SelectReplacementProvider_def by blast
  then show "\<exists>r\<in>set (providers db). provider_id r = pid \<and> status r = ACTIVE \<and> linked_account r \<noteq> None \<and>
      (\<exists>t. cooling_until r = Some t \<and> t < now) \<and> pid \<notin> set ex \<and>
      of_int (int (asn_count db seg (asn r)) + 1) \<le> of_int (TotalShards profile) * ASNCapFraction profile"
    by (intro bexI [of _ r]) (auto simp: acceptable_def eligible_def max_per_asn_def le_floor_iff split: option.splits)
next
  assume "(\<exists>g. acceptable now ex db seg (max_per_asn profile) g) \<and> length (over_cap now ex db seg (max_per_asn profile)) \<le> 9"
  then obtain g where g: "acceptable now ex db seg (max_per_asn profile) g"
    and "length (over_cap now ex db seg (max_per_asn profile)) < 2 * 5" by auto
  then show "\<exists>pid. SelectReplacementProvider (\<lambda>_. True) now shuffle db profile seg ex = Inr pid"
    using select_attempts_complete [OF assms g, of 5 0]
    by (simp add: SelectReplacementProvider_def maxReplacementSelectionAttempts_def)
qed

definition candidate_row :: provider_row where
  "candidate_row = \<lparr>provider_id = replicate 16 4, status = ACTIVE, frozen = False, departed_at = None,
     last_heartbeat_ts = Some 0, asn = ''AS1'', linked_account = Some ''acc'', cooling_until = Some 0,
     consecutive_audit_passes = 0, first_chunk_assignment_at = None, avg_rtt_ms = None, var_rtt_ms = 0,
     p95_throughput_kbps = None, rto_sample_count = 0,
     multiaddr_stale = False, ed25519_public_key = replicate 32 0,
     last_known_multiaddrs = [], region = []\<rparr>"

lemma permutes_rows_id: "permutes_rows (\<lambda>_ rows. rows)"
  by (simp add: permutes_rows_def)

theorem replacement_selected_witness:
  "\<exists>pid. SelectReplacementProvider (\<lambda>_. True) 1 (\<lambda>_ rows. rows) (empty_db\<lparr>providers := [candidate_row]\<rparr>) DemoProfile
     (replicate 16 5) [] = Inr pid"
proof -
  let ?db = "empty_db\<lparr>providers := [candidate_row]\<rparr>"
  have "acceptable 1 [] ?db (replicate 16 5) (max_per_asn DemoProfile) candidate_row"
    by (simp add: acceptable_def eligible_def candidate_row_def max_per_asn_def asn_count_def empty_db_def DemoProfile_def)
  moreover have "length (over_cap 1 [] ?db (replicate 16 5) (max_per_asn DemoProfile)) \<le> 9"
    by (simp add: over_cap_def)
  moreover have "distinct (map provider_id (providers ?db))" by simp
  ultimately show ?thesis using replacement_selected [OF permutes_rows_id, of ?db 1 DemoProfile "replicate 16 5" "[]"] by blast
qed

end
