(* ===== verification/Departure.thy ===== *)
theory Departure
  imports Queue Ledger
begin

text \<open>
  The departure detector, \<^verbatim>\<open>internal/repair/departure.go\<close>: finding providers that stopped sending
  heartbeats, marking them departed, queueing the repair of their shards (or dropping
  their synthetic vetting chunks) and seizing their escrow. The steps are separate statements, not one
  transaction; \<open>ok\<close> says which of them the database executes. The seizure callback \<^verbatim>\<open>PenaliseFunc\<close> is the
  argument \<open>penalise\<close>.
\<close>

datatype departure_stmt =
    FindCandidates
  | MarkDeparted uuid
  | DeleteVetting uuid
  | QueryChunks uuid
  | CheckVetting uuid "byte list"
  | InsertJob uuid "byte list"
  | DeleteOld uuid "byte list"
  | SumBalance uuid

subsection \<open>Repair of real chunks\<close>

definition real_assignments :: "database \<Rightarrow> uuid \<Rightarrow> assignment_row list" where
  "real_assignments db providerID =
     filter (\<lambda>a. a_provider_id a = providerID \<and> \<not> is_vetting_chunk a \<and> a_status a = A_ACTIVE) (chunk_assignments db)"

definition markOldAssignmentDeleted :: "byte list \<Rightarrow> uuid \<Rightarrow> database \<Rightarrow> database" where
  "markOldAssignmentDeleted chunkID providerID db =
     db\<lparr>chunk_assignments := update_where
          (\<lambda>a. a_chunk_id a = chunkID \<and> a_provider_id a = providerID \<and> a_status a = A_ACTIVE)
          (\<lambda>a. a\<lparr>a_status := A_DELETED\<rparr>) (chunk_assignments db)\<rparr>"

text \<open>Scanning a \<^verbatim>\<open>NULL\<close> segment leaves the zero UUID.\<close>

fun enqueue_assignments ::
  "(nat \<Rightarrow> uuid) \<Rightarrow> bool \<Rightarrow> (departure_stmt \<Rightarrow> bool) \<Rightarrow> time \<Rightarrow> NetworkProfile \<Rightarrow> uuid \<Rightarrow> TriggerType \<Rightarrow> assignment_row list \<Rightarrow>
     database \<Rightarrow> repair_error option \<times> database" where
  "enqueue_assignments gen dbg ok now profile providerID triggerType [] db = (None, db)"
| "enqueue_assignments gen dbg ok now profile providerID triggerType (a # as) db =
     (let chunkID = copy_slice (replicate 32 0) (a_chunk_id a);
          segmentID = (case a_segment_id a of Some s \<Rightarrow> s | None \<Rightarrow> replicate 16 0)
      in case IsVettingChunk (ok (CheckVetting providerID chunkID)) chunkID providerID db of
           Inl e \<Rightarrow> (Some e, db)
         | Inr isVetting \<Rightarrow>
             if isVetting then enqueue_assignments gen dbg ok now profile providerID triggerType as db
             else case EnqueueJob gen dbg (ok (InsertJob providerID chunkID)) now profile chunkID segmentID
                         (Some providerID) triggerType (TotalShards profile - 1) db of
                    (Some e, db') \<Rightarrow> (Some e, db')
                  | (None, db') \<Rightarrow>
                      if \<not> ok (DeleteOld providerID chunkID) then (Some ErrRepairDB, db')
                      else enqueue_assignments gen dbg ok now profile providerID triggerType as
                             (markOldAssignmentDeleted chunkID providerID db'))"

definition EnqueueRepairForRealChunks ::
  "(nat \<Rightarrow> uuid) \<Rightarrow> bool \<Rightarrow> (departure_stmt \<Rightarrow> bool) \<Rightarrow> time \<Rightarrow> NetworkProfile \<Rightarrow> uuid \<Rightarrow> TriggerType \<Rightarrow>
     database \<Rightarrow> repair_error option \<times> database" where
  "EnqueueRepairForRealChunks gen dbg ok now profile providerID triggerType db =
     (if \<not> ok (QueryChunks providerID) then (Some ErrRepairDB, db)
      else enqueue_assignments gen dbg ok now profile providerID triggerType (real_assignments db providerID) db)"

subsection \<open>Seizure\<close>

definition computeSealedBalance :: "bool \<Rightarrow> database \<Rightarrow> uuid \<Rightarrow> repair_error + int" where
  "computeSealedBalance ok db providerID =
     (if \<not> ok then Inl ErrRepairDB
      else let balance = ledger_balance db providerID in Inr (if balance < 0 then 0 else balance))"

definition seizureIdempotencyKey :: "hash \<Rightarrow> uuid \<Rightarrow> time \<Rightarrow> string" where
  "seizureIdempotencyKey sha providerID departedAt =
     hex_encode (sha (providerID @ text_bytes ''seizure'' @ be_bytes 8 (nat (departedAt mod 2 ^ 64))))"

subsection \<open>Detection\<close>

record departureCandidate =
  c_providerID :: uuid
  originalStatus :: provider_status

definition departure_due :: "time \<Rightarrow> NetworkProfile \<Rightarrow> provider_row \<Rightarrow> bool" where
  "departure_due now profile r \<longleftrightarrow>
     (status r = ACTIVE \<or> status r = VETTING \<or> status r = PENDING_ONBOARDING) \<and>
     (case last_heartbeat_ts r of None \<Rightarrow> False | Some t \<Rightarrow> t < now - DepartureThreshold profile)"

definition findDepartureCandidates :: "bool \<Rightarrow> time \<Rightarrow> NetworkProfile \<Rightarrow> database \<Rightarrow> repair_error + departureCandidate list" where
  "findDepartureCandidates ok now profile db =
     (if \<not> ok then Inl ErrRepairDB
      else Inr (map (\<lambda>r. \<lparr>c_providerID = provider_id r, originalStatus = status r\<rparr>)
                  (filter (departure_due now profile) (providers db))))"

definition mark_departed :: "time \<Rightarrow> uuid \<Rightarrow> database \<Rightarrow> database" where
  "mark_departed now providerID db =
     db\<lparr>providers := update_where (\<lambda>r. provider_id r = providerID)
          (\<lambda>r. r\<lparr>status := DEPARTED, frozen := True, departed_at := Some now\<rparr>) (providers db)\<rparr>"

type_synonym penaliser = "uuid \<Rightarrow> int \<Rightarrow> string \<Rightarrow> database \<Rightarrow> pay_error option \<times> database"

definition drop_or_repair ::
  "(nat \<Rightarrow> uuid) \<Rightarrow> bool \<Rightarrow> (departure_stmt \<Rightarrow> bool) \<Rightarrow> time \<Rightarrow> NetworkProfile \<Rightarrow> departureCandidate \<Rightarrow>
     database \<Rightarrow> repair_error option \<times> database" where
  "drop_or_repair gen dbg ok now profile c db =
     (if originalStatus c = VETTING \<or> originalStatus c = PENDING_ONBOARDING
      then DeleteVettingChunksOnDeparture (ok (DeleteVetting (c_providerID c))) (c_providerID c) db
      else EnqueueRepairForRealChunks gen dbg ok now profile (c_providerID c) TriggerSilentDeparture db)"

definition processDeparture ::
  "(nat \<Rightarrow> uuid) \<Rightarrow> bool \<Rightarrow> hash \<Rightarrow> (departure_stmt \<Rightarrow> bool) \<Rightarrow> time \<Rightarrow> NetworkProfile \<Rightarrow> penaliser \<Rightarrow> departureCandidate \<Rightarrow>
     database \<Rightarrow> repair_error option \<times> database" where
  "processDeparture gen dbg sha ok now profile penalise c db =
     (if \<not> ok (MarkDeparted (c_providerID c)) then (Some ErrRepairDB, db)
      else if find_provider db (c_providerID c) = None then (Some ErrRepairNoRow, db)
      else
        let departedAt = now
        in case drop_or_repair gen dbg ok now profile c (mark_departed now (c_providerID c) db) of
             (Some e, db') \<Rightarrow> (Some e, db')
           | (None, db') \<Rightarrow>
               (case computeSealedBalance (ok (SumBalance (c_providerID c))) db' (c_providerID c) of
                  Inl e \<Rightarrow> (Some e, db')
                | Inr sealedBalance \<Rightarrow>
                    if sealedBalance > 0 then
                      (case penalise (c_providerID c) sealedBalance (seizureIdempotencyKey sha (c_providerID c) departedAt) db' of
                         (Some e, db'') \<Rightarrow> (Some ErrPenalise, db'')
                       | (None, db'') \<Rightarrow> (None, db''))
                    else (None, db')))"

fun process_candidates ::
  "(nat \<Rightarrow> uuid) \<Rightarrow> bool \<Rightarrow> hash \<Rightarrow> (departure_stmt \<Rightarrow> bool) \<Rightarrow> time \<Rightarrow> NetworkProfile \<Rightarrow> penaliser \<Rightarrow> departureCandidate list \<Rightarrow>
     database \<Rightarrow> repair_error list \<times> database" where
  "process_candidates gen dbg sha ok now profile penalise [] db = ([], db)"
| "process_candidates gen dbg sha ok now profile penalise (c # cs) db =
     (let (err, db') = processDeparture gen dbg sha ok now profile penalise c db;
          (errs, db'') = process_candidates gen dbg sha ok now profile penalise cs db'
      in (case err of None \<Rightarrow> errs | Some e \<Rightarrow> e # errs, db''))"

definition DetectOnce ::
  "(nat \<Rightarrow> uuid) \<Rightarrow> bool \<Rightarrow> hash \<Rightarrow> (departure_stmt \<Rightarrow> bool) \<Rightarrow> time \<Rightarrow> NetworkProfile \<Rightarrow> penaliser \<Rightarrow>
     database \<Rightarrow> repair_error list \<times> database" where
  "DetectOnce gen dbg sha ok now profile penalise db =
     (case findDepartureCandidates (ok FindCandidates) now profile db of
        Inl e \<Rightarrow> ([e], db)
      | Inr candidates \<Rightarrow> process_candidates gen dbg sha ok now profile penalise candidates db)"

text \<open>The polling loop \<^verbatim>\<open>DepartureDetector.Run\<close>: one cycle for every tick, errors dropped.\<close>

record detect_tick =
  tick_ok :: "departure_stmt \<Rightarrow> bool"
  tick_now :: time
  tick_seize_ok :: bool

definition departure_Run :: "(nat \<Rightarrow> uuid) \<Rightarrow> bool \<Rightarrow> hash \<Rightarrow> NetworkProfile \<Rightarrow> detect_tick list \<Rightarrow> database \<Rightarrow> database" where
  "departure_Run gen dbg sha profile ticks db =
     fold (\<lambda>t d. snd (DetectOnce gen dbg sha (tick_ok t) (tick_now t) profile (razorpay_Penalise (tick_seize_ok t)) d)) ticks db"

subsection \<open>Lemmas\<close>

text \<open>The constraints of \<^verbatim>\<open>chunk_assignments\<close> that the departure path relies on.\<close>

definition assignments_ok :: "database \<Rightarrow> bool" where
  "assignments_ok db \<longleftrightarrow>
     distinct (map (\<lambda>a. (a_chunk_id a, a_provider_id a)) (chunk_assignments db)) \<and>
     (\<forall>a\<in>set (chunk_assignments db). length (a_chunk_id a) = 32 \<and> (is_vetting_chunk a \<longleftrightarrow> a_segment_id a = None))"

text \<open>Job \<open>j\<close> asks for the repair of the shard in row \<open>a\<close> that \<open>pid\<close> held.\<close>

definition repairs :: "uuid \<Rightarrow> TriggerType \<Rightarrow> assignment_row \<Rightarrow> job_row \<Rightarrow> bool" where
  "repairs pid t a j \<longleftrightarrow>
     j_chunk_id j = a_chunk_id a \<and> Some (j_segment_id j) = a_segment_id a \<and> j_provider_id j = Some pid \<and>
     trigger_type j = t \<and> priority j = priorityForTrigger t \<and> j_status j = QUEUED"

lemma same_assignment:
  "distinct (map (\<lambda>a. (a_chunk_id a, a_provider_id a)) xs) \<Longrightarrow> a \<in> set xs \<Longrightarrow> b \<in> set xs \<Longrightarrow>
   a_chunk_id a = a_chunk_id b \<Longrightarrow> a_provider_id a = a_provider_id b \<Longrightarrow> a = b"
  by (auto simp: distinct_map inj_on_def)

lemma update_where_twice:
  "update_where P f (update_where Q f xs) = update_where (\<lambda>x. Q x \<or> P x) f xs"
  if "\<And>x. P (f x) \<Longrightarrow> f (f x) = f x"
  using that by (induction xs) auto

lemma enqueue_assignments_all:
  assumes "DataShards profile \<le> TotalShards profile - 1"
    and "\<forall>a\<in>set as. length (a_chunk_id a) = 32 \<and> a_segment_id a \<noteq> None"
    and "\<forall>r\<in>set (chunk_assignments db). a_provider_id r = pid \<and> a_chunk_id r \<in> a_chunk_id ` set as \<longrightarrow> \<not> is_vetting_chunk r"
  shows "\<exists>js. list_all2 (repairs pid t) as js \<and>
    enqueue_assignments gen False (\<lambda>_. True) now profile pid t as db =
      (None, db\<lparr>repair_jobs := repair_jobs db @ js,
        chunk_assignments := update_where (\<lambda>r. a_chunk_id r \<in> a_chunk_id ` set as \<and> a_provider_id r = pid \<and> a_status r = A_ACTIVE)
          (\<lambda>r. r\<lparr>a_status := A_DELETED\<rparr>) (chunk_assignments db)\<rparr>)"
  using assms
proof (induction as arbitrary: db)
  case Nil
  then show ?case by (auto simp: update_where_def intro!: exI [of _ "[]"])
next
  case (Cons a as)
  let ?c = "a_chunk_id a"
  from Cons.prems(2) obtain seg where seg: "a_segment_id a = Some seg" by auto
  have c: "copy_slice (replicate 32 0) ?c = ?c" using Cons.prems(2) by simp
  have vet: "IsVettingChunk True ?c pid db = Inr False"
    using Cons.prems(3) by (auto simp: IsVettingChunk_def find_assignment_def find_Some_iff split: option.split)
  define j where "j = new_job gen now db ?c seg (Some pid) t (TotalShards profile - 1)"
  define db1 where "db1 = markOldAssignmentDeleted ?c pid (db\<lparr>repair_jobs := repair_jobs db @ [j]\<rparr>)"
  have enq: "EnqueueJob gen False True now profile ?c seg (Some pid) t (TotalShards profile - 1) db =
      (None, db\<lparr>repair_jobs := repair_jobs db @ [j]\<rparr>)"
    using Cons.prems(1) by (simp add: EnqueueJob_def threshold_dup_def j_def)
  have step: "enqueue_assignments gen False (\<lambda>_. True) now profile pid t (a # as) db =
      enqueue_assignments gen False (\<lambda>_. True) now profile pid t as db1"
    using c vet enq seg by (simp add: db1_def)
  have "\<forall>r\<in>set (chunk_assignments db1). a_provider_id r = pid \<and> a_chunk_id r \<in> a_chunk_id ` set as \<longrightarrow> \<not> is_vetting_chunk r"
  proof (intro ballI impI)
    fix r assume r: "r \<in> set (chunk_assignments db1)" "a_provider_id r = pid \<and> a_chunk_id r \<in> a_chunk_id ` set as"
    then obtain r0 where r0: "r0 \<in> set (chunk_assignments db)"
      "r = r0 \<or> r = r0\<lparr>a_status := A_DELETED\<rparr>"
      by (auto simp: db1_def markOldAssignmentDeleted_def in_update_where)
    from r0(2) r(2) have "a_provider_id r0 = pid \<and> a_chunk_id r0 \<in> a_chunk_id ` set (a # as)" by auto
    with Cons.prems(3) r0(1) have "\<not> is_vetting_chunk r0" by simp
    with r0(2) show "\<not> is_vetting_chunk r" by auto
  qed
  from Cons.IH [OF Cons.prems(1) _ this] Cons.prems(2) obtain js where js: "list_all2 (repairs pid t) as js"
    "enqueue_assignments gen False (\<lambda>_. True) now profile pid t as db1 =
      (None, db1\<lparr>repair_jobs := repair_jobs db1 @ js,
        chunk_assignments := update_where (\<lambda>r. a_chunk_id r \<in> a_chunk_id ` set as \<and> a_provider_id r = pid \<and> a_status r = A_ACTIVE)
          (\<lambda>r. r\<lparr>a_status := A_DELETED\<rparr>) (chunk_assignments db1)\<rparr>)" by auto
  have "repairs pid t a j" by (simp add: repairs_def j_def new_job_def seg)
  moreover have "update_where (\<lambda>r. a_chunk_id r \<in> a_chunk_id ` set as \<and> a_provider_id r = pid \<and> a_status r = A_ACTIVE)
          (\<lambda>r. r\<lparr>a_status := A_DELETED\<rparr>) (chunk_assignments db1) =
        update_where (\<lambda>r. a_chunk_id r \<in> a_chunk_id ` set (a # as) \<and> a_provider_id r = pid \<and> a_status r = A_ACTIVE)
          (\<lambda>r. r\<lparr>a_status := A_DELETED\<rparr>) (chunk_assignments db)"
    unfolding db1_def markOldAssignmentDeleted_def
    by (simp add: update_where_twice) (auto simp: update_where_def)
  ultimately show ?case
    unfolding step js(2) using js(1)
    by (intro exI [of _ "j # js"]) (simp add: db1_def markOldAssignmentDeleted_def)
qed

lemma EnqueueRepairForRealChunks_all:
  assumes "DataShards profile \<le> TotalShards profile - 1" and "assignments_ok db"
  shows "\<exists>js. list_all2 (repairs pid t) (real_assignments db pid) js \<and>
    EnqueueRepairForRealChunks gen False (\<lambda>_. True) now profile pid t db =
      (None, db\<lparr>repair_jobs := repair_jobs db @ js,
        chunk_assignments := update_where (\<lambda>r. a_provider_id r = pid \<and> \<not> is_vetting_chunk r \<and> a_status r = A_ACTIVE)
          (\<lambda>r. r\<lparr>a_status := A_DELETED\<rparr>) (chunk_assignments db)\<rparr>)"
proof -
  let ?as = "real_assignments db pid"
  have as: "a \<in> set (chunk_assignments db) \<and> a_provider_id a = pid \<and> \<not> is_vetting_chunk a \<and> a_status a = A_ACTIVE"
    if "a \<in> set ?as" for a
    using that by (simp add: real_assignments_def)
  have row: "r = a" if "a \<in> set ?as" "r \<in> set (chunk_assignments db)" "a_provider_id r = pid" "a_chunk_id r = a_chunk_id a" for r a
    using same_assignment [of "chunk_assignments db" r a] assms(2) as [OF that(1)] that by (simp add: assignments_ok_def)
  have 1: "\<forall>a\<in>set ?as. length (a_chunk_id a) = 32 \<and> a_segment_id a \<noteq> None"
    using as assms(2) by (auto simp: assignments_ok_def)
  have 2: "\<forall>r\<in>set (chunk_assignments db). a_provider_id r = pid \<and> a_chunk_id r \<in> a_chunk_id ` set ?as \<longrightarrow> \<not> is_vetting_chunk r"
    using row as by blast
  have "(a_chunk_id r \<in> a_chunk_id ` set ?as \<and> a_provider_id r = pid \<and> a_status r = A_ACTIVE) \<longleftrightarrow>
        (a_provider_id r = pid \<and> \<not> is_vetting_chunk r \<and> a_status r = A_ACTIVE)" if r: "r \<in> set (chunk_assignments db)" for r
  proof
    assume l: "a_chunk_id r \<in> a_chunk_id ` set ?as \<and> a_provider_id r = pid \<and> a_status r = A_ACTIVE"
    then obtain a where a: "a \<in> set ?as" "a_chunk_id r = a_chunk_id a" by blast
    from row [OF a(1) r _ a(2)] l as [OF a(1)] show "a_provider_id r = pid \<and> \<not> is_vetting_chunk r \<and> a_status r = A_ACTIVE"
      by simp
  next
    assume "a_provider_id r = pid \<and> \<not> is_vetting_chunk r \<and> a_status r = A_ACTIVE"
    moreover from this r have "r \<in> set ?as" by (simp add: real_assignments_def)
    ultimately show "a_chunk_id r \<in> a_chunk_id ` set ?as \<and> a_provider_id r = pid \<and> a_status r = A_ACTIVE" by simp
  qed
  then have "update_where (\<lambda>r. a_chunk_id r \<in> a_chunk_id ` set ?as \<and> a_provider_id r = pid \<and> a_status r = A_ACTIVE)
          (\<lambda>r. r\<lparr>a_status := A_DELETED\<rparr>) (chunk_assignments db) =
        update_where (\<lambda>r. a_provider_id r = pid \<and> \<not> is_vetting_chunk r \<and> a_status r = A_ACTIVE)
          (\<lambda>r. r\<lparr>a_status := A_DELETED\<rparr>) (chunk_assignments db)"
    unfolding update_where_def by (intro map_cong) auto
  with enqueue_assignments_all [OF assms(1) 1 2, of t gen now] show ?thesis
    by (simp add: EnqueueRepairForRealChunks_def)
qed

context seizing_provider
begin

lemma seizure_done:
  assumes "fst (penalise pid b k db) = None" and "k \<notin> ev_key ` set (escrow_events db)" and "0 < b"
    and "ledger_balance db pid = b"
  shows "ledger_balance (snd (penalise pid b k db)) q = (if q = pid then 0 else ledger_balance db q)"
  using assms(4) unfolding penalise_new [OF assms(1-3)] ledger_balance_snoc by (simp add: signed_amount_def)

lemma seize_frame:
  "\<exists>evs. snd (case computeSealedBalance okb db pid of
              Inl e \<Rightarrow> (Some e, db)
            | Inr sealedBalance \<Rightarrow>
                if sealedBalance > 0 then
                  (case penalise pid sealedBalance k db of
                     (Some e, db'') \<Rightarrow> (Some ErrPenalise, db'')
                   | (None, db'') \<Rightarrow> (None, db''))
                else (None, db)) = db\<lparr>escrow_events := escrow_events db @ evs\<rparr> \<and>
     (\<forall>e\<in>set evs. ev_provider e = pid)" (is "\<exists>evs. snd ?r = ?d evs \<and> ?P evs")
proof (cases "okb \<and> 0 < ledger_balance db pid")
  case True
  then have "snd ?r = snd (penalise pid (ledger_balance db pid) k db)"
    by (simp add: computeSealedBalance_def Let_def split: prod.split option.split)
  with penalise_frame [of "ledger_balance db pid" pid k db] True show ?thesis by simp
next
  case False
  then have "snd ?r = ?d []" by (auto simp: computeSealedBalance_def Let_def)
  then show ?thesis by (intro exI [of _ "[]"]) simp
qed

lemma processDeparture_frame:
  "\<exists>evs. snd (processDeparture gen dbg sha ok now profile penalise c db) =
     (let d = (if ok (MarkDeparted (c_providerID c)) \<and> find_provider db (c_providerID c) \<noteq> None
               then snd (drop_or_repair gen dbg ok now profile c (mark_departed now (c_providerID c) db)) else db)
      in d\<lparr>escrow_events := escrow_events d @ evs\<rparr>) \<and>
     (\<forall>e\<in>set evs. ev_provider e = c_providerID c)"
proof -
  let ?X = "drop_or_repair gen dbg ok now profile c (mark_departed now (c_providerID c) db)"
  consider "\<not> ok (MarkDeparted (c_providerID c)) \<or> find_provider db (c_providerID c) = None"
    | e d where "ok (MarkDeparted (c_providerID c))" "find_provider db (c_providerID c) \<noteq> None" "?X = (Some e, d)"
    | d where "ok (MarkDeparted (c_providerID c))" "find_provider db (c_providerID c) \<noteq> None" "?X = (None, d)"
    by (metis option.exhaust surj_pair)
  then show ?thesis
  proof cases
    case 1
    then show ?thesis by (intro exI [of _ "[]"]) (auto simp: processDeparture_def Let_def)
  next
    case (2 e d)
    then show ?thesis by (intro exI [of _ "[]"]) (auto simp: processDeparture_def Let_def)
  next
    case (3 d)
    with seize_frame [where okb = "ok (SumBalance (c_providerID c))" and db = d and pid = "c_providerID c" and k = "seizureIdempotencyKey sha (c_providerID c) now"]
    show ?thesis by (auto simp: processDeparture_def Let_def)
  qed
qed

end

lemma mark_departed_simps [simp]:
  "chunk_assignments (mark_departed now pid db) = chunk_assignments db"
  "repair_jobs (mark_departed now pid db) = repair_jobs db"
  "escrow_events (mark_departed now pid db) = escrow_events db"
  "mark_departed now pid db\<lparr>repair_jobs := js, chunk_assignments := as\<rparr> =
     mark_departed now pid (db\<lparr>repair_jobs := js, chunk_assignments := as\<rparr>)"
  by (simp_all add: mark_departed_def)

lemma find_mark_departed:
  assumes "find_provider db pid = Some r"
  shows "find_provider (mark_departed now pid db) pid = Some (r\<lparr>status := DEPARTED, frozen := True, departed_at := Some now\<rparr>)"
  unfolding mark_departed_def using find_provider_id [OF assms]
  by (intro find_provider_update [OF assms]) simp

lemma ledger_balance_cong: "escrow_events db = escrow_events db' \<Longrightarrow> ledger_balance db q = ledger_balance db' q"
  by (simp add: ledger_balance_def)

lemma find_provider_cong: "providers db = providers db' \<Longrightarrow> find_provider db q = find_provider db' q"
  by (simp add: find_provider_def)

subsection \<open>Properties\<close>

text \<open>
  C18: a silently departed provider is processed completely. When the database executes every statement, an
  active provider becomes departed and frozen; every real shard it held gets exactly one queued repair job
  of departure priority that names its chunk and segment, its assignment is soft-deleted, and no
  other assignment changes (so synthetic chunks get no repair job); its positive ledger balance is seized in full, and no
  other provider's balance changes.
\<close>

theorem silent_departure:
  assumes "find_provider db pid = Some r" and "assignments_ok db" and "DataShards profile \<le> TotalShards profile - 1"
    and "seizureIdempotencyKey sha pid now \<notin> ev_key ` set (escrow_events db)"
  shows "let (err, db') = processDeparture gen False sha (\<lambda>_. True) now profile (mock_Penalise True)
                            \<lparr>c_providerID = pid, originalStatus = ACTIVE\<rparr> db;
             lost = (\<lambda>a. a_provider_id a = pid \<and> \<not> is_vetting_chunk a \<and> a_status a = A_ACTIVE)
         in err = None \<and>
            find_provider db' pid = Some (r\<lparr>status := DEPARTED, frozen := True, departed_at := Some now\<rparr>) \<and>
            (\<exists>js. repair_jobs db' = repair_jobs db @ js \<and>
               list_all2 (repairs pid TriggerSilentDeparture) (filter lost (chunk_assignments db)) js) \<and>
            chunk_assignments db' =
              map (\<lambda>a. if lost a then a\<lparr>a_status := A_DELETED\<rparr> else a) (chunk_assignments db) \<and>
            (\<forall>q. ledger_balance db' q = (if q = pid then min 0 (ledger_balance db q) else ledger_balance db q))"
proof -
  let ?c = "\<lparr>c_providerID = pid, originalStatus = ACTIVE\<rparr>" and ?k = "seizureIdempotencyKey sha pid now"
  let ?lost = "\<lambda>a. a_provider_id a = pid \<and> \<not> is_vetting_chunk a \<and> a_status a = A_ACTIVE"
  have ok: "assignments_ok (mark_departed now pid db)" using assms(2) by (simp add: assignments_ok_def)
  from EnqueueRepairForRealChunks_all [OF assms(3) ok, of pid TriggerSilentDeparture gen now] obtain js where
    js: "list_all2 (repairs pid TriggerSilentDeparture) (filter ?lost (chunk_assignments db)) js"
    "EnqueueRepairForRealChunks gen False (\<lambda>_. True) now profile pid TriggerSilentDeparture (mark_departed now pid db) =
      (None, mark_departed now pid (db\<lparr>repair_jobs := repair_jobs db @ js,
        chunk_assignments := update_where ?lost (\<lambda>r. r\<lparr>a_status := A_DELETED\<rparr>) (chunk_assignments db)\<rparr>))"
    by (auto simp: real_assignments_def)
  define db1 where "db1 = mark_departed now pid (db\<lparr>repair_jobs := repair_jobs db @ js,
        chunk_assignments := update_where ?lost (\<lambda>r. r\<lparr>a_status := A_DELETED\<rparr>) (chunk_assignments db)\<rparr>)"
  define b where "b = ledger_balance db pid"
  have b: "ledger_balance db1 q = ledger_balance db q" for q
    by (rule ledger_balance_cong) (simp add: db1_def)
  define db2 where "db2 = (if 0 < b then snd (mock_Penalise True pid b ?k db1) else db1)"
  have pen: "fst (mock_Penalise True pid b ?k db1) = None" if "0 < b"
    using that by (simp add: mock_Penalise_def dup_ok_insert)
  have key: "?k \<notin> ev_key ` set (escrow_events db1)" using assms(4) by (simp add: db1_def)
  have run: "processDeparture gen False sha (\<lambda>_. True) now profile (mock_Penalise True) ?c db = (None, db2)"
    using assms(1) js(2) pen
    by (cases "0 < b") (auto simp: processDeparture_def drop_or_repair_def db1_def [symmetric] computeSealedBalance_def b b_def [symmetric]
        db2_def Let_def split: prod.split option.split)
  have tables: "providers db2 = providers db1" "repair_jobs db2 = repair_jobs db1" "chunk_assignments db2 = chunk_assignments db1"
    using mock_seizure.penalise_frame [of b True pid ?k db1] by (auto simp: db2_def)
  have bal: "ledger_balance db2 q = (if q = pid then min 0 (ledger_balance db q) else ledger_balance db q)" for q
    using mock_seizure.seizure_done [OF pen key] by (auto simp: db2_def b b_def)
  have prov: "find_provider db2 pid = Some (r\<lparr>status := DEPARTED, frozen := True, departed_at := Some now\<rparr>)"
    unfolding find_provider_cong [OF tables(1)] db1_def
    using assms(1) by (intro find_mark_departed) (simp add: find_provider_def)
  show ?thesis
    using js(1) bal prov by (simp add: run tables) (auto simp: db1_def update_where_def)
qed

definition departure_sample :: database where
  "departure_sample = empty_db\<lparr>
     providers := [\<lparr>provider_id = replicate 16 1, status = ACTIVE, frozen = False, departed_at = None,
        last_heartbeat_ts = Some 0, asn = ''AS1'', linked_account = Some ''acc'', cooling_until = Some 0,
        consecutive_audit_passes = 0, first_chunk_assignment_at = Some 0, avg_rtt_ms = None, var_rtt_ms = 0,
        p95_throughput_kbps = None, rto_sample_count = 0,
     multiaddr_stale = False, ed25519_public_key = replicate 32 0,
     last_known_multiaddrs = [], region = []\<rparr>],
     chunk_assignments := [\<lparr>a_chunk_id = replicate 32 7, is_vetting_chunk = False, a_segment_id = Some (replicate 16 5),
        shard_index = Some 2, a_provider_id = replicate 16 1, a_status = A_ACTIVE\<rparr>],
     escrow_events := [\<lparr>ev_provider = replicate 16 1, ev_type = EscrowDeposit, ev_amount = 900, ev_period = None, ev_key = ''d''\<rparr>]\<rparr>"

lemma departure_sample_props:
  "find_provider departure_sample (replicate 16 1) = Some (hd (providers departure_sample))"
  "assignments_ok departure_sample"
  "seizureIdempotencyKey (\<lambda>x. x) (replicate 16 1) 5 \<notin> ev_key ` set (escrow_events departure_sample)"
  "ledger_balance departure_sample (replicate 16 1) = 900"
proof -
  have "length (seizureIdempotencyKey (\<lambda>x. x) (replicate 16 1) 5) = 62"
    by (simp add: seizureIdempotencyKey_def length_hex_encode text_bytes_def)
  then show "seizureIdempotencyKey (\<lambda>x. x) (replicate 16 1) 5 \<notin> ev_key ` set (escrow_events departure_sample)"
    by (auto simp: departure_sample_def)
qed (simp_all add: departure_sample_def find_provider_def assignments_ok_def ledger_balance_def signed_amount_def)

theorem silent_departure_witness:
  "\<exists>db'. processDeparture sample_gen False (\<lambda>x. x) (\<lambda>_. True) 5 DemoProfile (mock_Penalise True)
           \<lparr>c_providerID = replicate 16 1, originalStatus = ACTIVE\<rparr> departure_sample = (None, db') \<and>
         length (repair_jobs db') = 1 \<and> map a_status (chunk_assignments db') = [A_DELETED] \<and>
         ledger_balance db' (replicate 16 1) = 0"
proof -
  obtain err db' where run: "processDeparture sample_gen False (\<lambda>x. x) (\<lambda>_. True) 5 DemoProfile (mock_Penalise True)
           \<lparr>c_providerID = replicate 16 1, originalStatus = ACTIVE\<rparr> departure_sample = (err, db')"
    by fastforce
  have "DataShards DemoProfile \<le> TotalShards DemoProfile - 1" by (simp add: DemoProfile_def)
  from silent_departure [OF departure_sample_props(1,2) this departure_sample_props(3), of sample_gen]
  have res: "err = None" "\<exists>js. repair_jobs db' = repair_jobs departure_sample @ js \<and>
      list_all2 (repairs (replicate 16 1) TriggerSilentDeparture)
        (filter (\<lambda>a. a_provider_id a = replicate 16 1 \<and> \<not> is_vetting_chunk a \<and> a_status a = A_ACTIVE)
          (chunk_assignments departure_sample)) js"
    "chunk_assignments db' = map (\<lambda>a. if a_provider_id a = replicate 16 1 \<and> \<not> is_vetting_chunk a \<and> a_status a = A_ACTIVE
        then a\<lparr>a_status := A_DELETED\<rparr> else a) (chunk_assignments departure_sample)"
    "ledger_balance db' (replicate 16 1) = min 0 (ledger_balance departure_sample (replicate 16 1))"
    unfolding run by (auto simp: Let_def)
  have "length (repair_jobs db') = 1"
    using res(2) by (auto simp: departure_sample_def empty_db_def dest: list_all2_lengthD)
  with run res(1,3,4) departure_sample_props(4) show ?thesis
    by (simp add: departure_sample_def)
qed

text \<open>
  the departure of a provider that is still being vetted queues no repair, whatever statements fail;
  when its statements succeed, all its synthetic chunks are soft-deleted and it is marked departed.
\<close>

theorem vetting_departure:
  assumes "st = VETTING \<or> st = PENDING_ONBOARDING" and "find_provider db pid = Some r"
  shows "let (err, db') = processDeparture gen dbg sha ok now profile (mock_Penalise oks)
                            \<lparr>c_providerID = pid, originalStatus = st\<rparr> db
         in repair_jobs db' = repair_jobs db \<and>
            (ok (MarkDeparted pid) \<and> ok (DeleteVetting pid) \<longrightarrow>
               map_option status (find_provider db' pid) = Some DEPARTED \<and>
               chunk_assignments db' =
                 map (\<lambda>a. if a_provider_id a = pid \<and> is_vetting_chunk a then a\<lparr>a_status := A_DELETED\<rparr> else a)
                   (chunk_assignments db))"
proof -
  let ?c = "\<lparr>c_providerID = pid, originalStatus = st\<rparr>"
  define db1 where "db1 = (if ok (MarkDeparted pid) then snd (drop_or_repair gen dbg ok now profile ?c (mark_departed now pid db)) else db)"
  from mock_seizure.processDeparture_frame [of gen dbg sha ok now profile oks ?c db] obtain evs where
    db': "snd (processDeparture gen dbg sha ok now profile (mock_Penalise oks) ?c db) = db1\<lparr>escrow_events := escrow_events db1 @ evs\<rparr>"
    using assms(2) by (auto simp: db1_def Let_def cong: if_cong)
  have "repair_jobs db1 = repair_jobs db"
    using assms(1) by (auto simp: db1_def drop_or_repair_def DeleteVettingChunksOnDeparture_def)
  moreover have "chunk_assignments db1 = map (\<lambda>a. if a_provider_id a = pid \<and> is_vetting_chunk a then a\<lparr>a_status := A_DELETED\<rparr> else a)
      (chunk_assignments db)" "providers db1 = providers (mark_departed now pid db)" if "ok (MarkDeparted pid) \<and> ok (DeleteVetting pid)"
    using that assms(1) by (auto simp: db1_def drop_or_repair_def DeleteVettingChunksOnDeparture_def update_where_def)
  moreover have "map_option status (find_provider (db1\<lparr>escrow_events := escrow_events db1 @ evs\<rparr>) pid) = Some DEPARTED"
    if "providers db1 = providers (mark_departed now pid db)"
    using find_mark_departed [OF assms(2), of now] that by (simp add: find_provider_def)
  ultimately show ?thesis using db' by (auto simp: split_beta)
qed

theorem vetting_departure_witness:
  "repair_jobs (snd (processDeparture sample_gen False (\<lambda>x. x) (\<lambda>_. True) 5 DemoProfile (mock_Penalise True)
     \<lparr>c_providerID = replicate 16 1, originalStatus = VETTING\<rparr> departure_sample)) = []"
  using vetting_departure [of VETTING, OF _ departure_sample_props(1), of sample_gen False "\<lambda>x. x" "\<lambda>_. True" 5 DemoProfile True]
  by (simp add: split_beta departure_sample_def empty_db_def)

subsection \<open>What a cycle leaves alone\<close>

definition untouched :: "uuid \<Rightarrow> database \<Rightarrow> database \<Rightarrow> bool" where
  "untouched pid db db' \<longleftrightarrow>
     filter (\<lambda>a. a_provider_id a = pid) (chunk_assignments db') = filter (\<lambda>a. a_provider_id a = pid) (chunk_assignments db) \<and>
     filter (\<lambda>j. j_provider_id j = Some pid) (repair_jobs db') = filter (\<lambda>j. j_provider_id j = Some pid) (repair_jobs db) \<and>
     filter (\<lambda>e. ev_provider e = pid) (escrow_events db') = filter (\<lambda>e. ev_provider e = pid) (escrow_events db) \<and>
     find_provider db' pid = find_provider db pid \<and>
     map provider_id (providers db') = map provider_id (providers db)"

lemma untouched_refl [simp]: "untouched pid db db"
  by (simp add: untouched_def)

lemma untouched_trans: "untouched pid a b \<Longrightarrow> untouched pid b c \<Longrightarrow> untouched pid a c"
  by (simp add: untouched_def)

lemma untouched_balance: "untouched pid db db' \<Longrightarrow> ledger_balance db' pid = ledger_balance db pid"
  by (simp add: untouched_def ledger_balance_def)

lemma filter_update_where_other:
  "(\<And>x. x \<in> set xs \<Longrightarrow> P x \<Longrightarrow> \<not> Q x \<and> \<not> Q (f x)) \<Longrightarrow> filter Q (update_where P f xs) = filter Q xs"
  by (induction xs) auto

lemma untouched_mark: "q \<noteq> pid \<Longrightarrow> untouched pid db (mark_departed now q db)"
  unfolding untouched_def
  by (simp add: mark_departed_def map_update_where find_provider_update_other [simplified])

lemma untouched_delete_vetting: "q \<noteq> pid \<Longrightarrow> untouched pid db (snd (DeleteVettingChunksOnDeparture b q db))"
  by (auto simp: untouched_def DeleteVettingChunksOnDeparture_def find_provider_def intro!: filter_update_where_other)

lemma untouched_mark_old: "q \<noteq> pid \<Longrightarrow> untouched pid db (markOldAssignmentDeleted c q db)"
  by (auto simp: untouched_def markOldAssignmentDeleted_def find_provider_def intro!: filter_update_where_other)

lemma untouched_enqueue_job: "q \<noteq> pid \<Longrightarrow> untouched pid db (snd (EnqueueJob gen dbg b now profile c s (Some q) t n db))"
  by (simp add: untouched_def EnqueueJob_def new_job_def find_provider_def)

lemma untouched_enqueue:
  "q \<noteq> pid \<Longrightarrow> untouched pid db (snd (enqueue_assignments gen dbg ok now profile q t as db))"
proof (induction as arbitrary: db)
  case (Cons a as)
  let ?c = "copy_slice (replicate 32 0) (a_chunk_id a)" and ?s = "case a_segment_id a of Some s \<Rightarrow> s | None \<Rightarrow> replicate 16 0"
  obtain err d where enq: "EnqueueJob gen dbg (ok (InsertJob q ?c)) now profile ?c ?s (Some q) t (TotalShards profile - 1) db = (err, d)"
    by fastforce
  with untouched_enqueue_job [OF Cons.prems] have d: "untouched pid db d" by (metis snd_conv)
  have "untouched pid db (snd (enqueue_assignments gen dbg ok now profile q t as (markOldAssignmentDeleted ?c q d)))"
    by (rule untouched_trans [OF d untouched_trans [OF untouched_mark_old [OF Cons.prems] Cons.IH [OF Cons.prems]]])
  with d enq Cons.IH [OF Cons.prems, of db] show ?case
    by (auto simp: Let_def split: sum.split option.split)
qed simp

lemma untouched_drop_or_repair:
  "c_providerID c \<noteq> pid \<Longrightarrow> untouched pid db (snd (drop_or_repair gen dbg ok now profile c db))"
  by (simp add: drop_or_repair_def untouched_delete_vetting EnqueueRepairForRealChunks_def untouched_enqueue)

context seizing_provider
begin

lemma untouched_processDeparture:
  assumes "c_providerID c \<noteq> pid"
  shows "untouched pid db (snd (processDeparture gen dbg sha ok now profile penalise c db))"
proof -
  define d where "d = (if ok (MarkDeparted (c_providerID c)) \<and> find_provider db (c_providerID c) \<noteq> None
               then snd (drop_or_repair gen dbg ok now profile c (mark_departed now (c_providerID c) db)) else db)"
  from processDeparture_frame [of gen dbg sha ok now profile c db] obtain evs where
    evs: "snd (processDeparture gen dbg sha ok now profile penalise c db) = d\<lparr>escrow_events := escrow_events d @ evs\<rparr>"
    "\<forall>e\<in>set evs. ev_provider e = c_providerID c"
    unfolding d_def Let_def by blast
  have "untouched pid db d"
    unfolding d_def using untouched_trans [OF untouched_mark [OF assms] untouched_drop_or_repair [OF assms]] by simp
  moreover have "untouched pid d (d\<lparr>escrow_events := escrow_events d @ evs\<rparr>)"
    using evs(2) assms by (auto simp: untouched_def find_provider_def filter_empty_conv)
  ultimately show ?thesis unfolding evs(1) by (rule untouched_trans)
qed

lemma untouched_candidates:
  "\<forall>c\<in>set cs. c_providerID c \<noteq> pid \<Longrightarrow> untouched pid db (snd (process_candidates gen dbg sha ok now profile penalise cs db))"
proof (induction cs arbitrary: db)
  case (Cons c cs)
  then have c: "c_providerID c \<noteq> pid" "\<forall>c\<in>set cs. c_providerID c \<noteq> pid" by simp_all
  show ?case
    using untouched_trans [OF untouched_processDeparture [OF c(1)] Cons.IH [OF c(2)]]
    by (simp add: Let_def split_beta)
qed simp

lemma untouched_DetectOnce:
  assumes "find_provider db pid = Some r" and "status r = DEPARTED" and "distinct (map provider_id (providers db))"
  shows "untouched pid db (snd (DetectOnce gen dbg sha ok now profile penalise db))"
proof (cases "findDepartureCandidates (ok FindCandidates) now profile db")
  case (Inr cs)
  have r: "r \<in> set (providers db)" "provider_id r = pid"
    using assms(1) by (auto simp: find_provider_def find_Some_iff)
  have "c_providerID c \<noteq> pid" if c: "c \<in> set cs" for c
  proof
    assume "c_providerID c = pid"
    with c Inr obtain x where x: "x \<in> set (providers db)" "departure_due now profile x" "provider_id x = pid"
      by (auto simp: findDepartureCandidates_def split: if_splits)
    with assms(3) r have "x = r" by (auto simp: distinct_map inj_on_def)
    with x(2) assms(2) show False by (simp add: departure_due_def)
  qed
  with Inr show ?thesis by (simp add: DetectOnce_def untouched_candidates)
qed (simp add: DetectOnce_def)

end

lemma untouched_Run:
  assumes "find_provider db pid = Some r" and "status r = DEPARTED" and "distinct (map provider_id (providers db))"
  shows "untouched pid db (departure_Run gen dbg sha profile ticks db)"
  using assms
proof (induction ticks arbitrary: db)
  case (Cons t ticks)
  let ?d = "snd (DetectOnce gen dbg sha (tick_ok t) (tick_now t) profile (razorpay_Penalise (tick_seize_ok t)) db)"
  have u: "untouched pid db ?d" by (rule razorpay_seizure.untouched_DetectOnce [OF Cons.prems])
  then have "find_provider ?d pid = Some r" "distinct (map provider_id (providers ?d))"
    using Cons.prems by (simp_all add: untouched_def)
  from untouched_trans [OF u Cons.IH [OF this(1) Cons.prems(2) this(2)]] show ?case
    by (simp add: departure_Run_def)
qed (simp add: departure_Run_def)

text \<open>
  a departure that fails half way is never completed. The provider is marked departed before
  its repairs are queued, and detection skips departed providers; so when the insert of the first repair
  job fails once, then, however often the detector runs afterwards and even if no statement
  ever fails again, the shard keeps its active assignment to the departed provider, none of the provider's
  shards gets a repair job, and its escrow is not seized.
\<close>

theorem failed_departure_not_retried:
  assumes "find_provider db pid = Some r" and "distinct (map provider_id (providers db))"
    and "assignments_ok db" and "real_assignments db pid = a # as" and "DataShards profile \<le> TotalShards profile - 1"
    and "\<forall>j\<in>set (repair_jobs db). j_provider_id j \<noteq> Some pid"
  shows "let (err, db1) = processDeparture gen False sha (\<lambda>s. s \<noteq> InsertJob pid (a_chunk_id a)) now profile
                            (razorpay_Penalise True) \<lparr>c_providerID = pid, originalStatus = ACTIVE\<rparr> db;
             db2 = departure_Run gen False sha profile ticks db1
         in err = Some ErrRepairDB \<and> map_option status (find_provider db2 pid) = Some DEPARTED \<and>
            a \<in> set (chunk_assignments db2) \<and> a_status a = A_ACTIVE \<and>
            (\<forall>j\<in>set (repair_jobs db2). j_provider_id j \<noteq> Some pid) \<and>
            ledger_balance db2 pid = ledger_balance db pid"
proof -
  let ?ok = "\<lambda>s. s \<noteq> InsertJob pid (a_chunk_id a)" and ?c = "\<lparr>c_providerID = pid, originalStatus = ACTIVE\<rparr>"
  define d where "d = mark_departed now pid db"
  have "a \<in> set (real_assignments db pid)" using assms(4) by simp
  then have a: "a \<in> set (chunk_assignments db)" "a_provider_id a = pid" "\<not> is_vetting_chunk a" "a_status a = A_ACTIVE"
    by (simp_all add: real_assignments_def)
  have c: "copy_slice (replicate 32 0) (a_chunk_id a) = a_chunk_id a" using a(1) assms(3) by (simp add: assignments_ok_def)
  have "\<not> is_vetting_chunk x" if "x \<in> set (chunk_assignments d)" "a_chunk_id x = a_chunk_id a \<and> a_provider_id x = pid" for x
    using same_assignment [of "chunk_assignments db" x a] that a assms(3) by (simp add: d_def assignments_ok_def)
  then have "IsVettingChunk True (a_chunk_id a) pid d = Inr False"
    by (auto simp: IsVettingChunk_def find_assignment_def find_Some_iff split: option.split)
  then have "enqueue_assignments gen False ?ok now profile pid TriggerSilentDeparture (a # as) d = (Some ErrRepairDB, d)"
    using c assms(5) by (simp add: Let_def EnqueueJob_def)
  then have run: "processDeparture gen False sha ?ok now profile (razorpay_Penalise True) ?c db = (Some ErrRepairDB, d)"
    using assms(1,4)
    by (simp add: processDeparture_def drop_or_repair_def EnqueueRepairForRealChunks_def real_assignments_def d_def)
  have r: "find_provider d pid = Some (r\<lparr>status := DEPARTED, frozen := True, departed_at := Some now\<rparr>)"
    unfolding d_def by (rule find_mark_departed [OF assms(1)])
  have dist: "distinct (map provider_id (providers d))" using assms(2) by (simp add: d_def mark_departed_def map_update_where)
  define e where "e = departure_Run gen False sha profile ticks d"
  have u: "untouched pid d e" unfolding e_def by (rule untouched_Run [OF r _ dist]) simp
  note bal = untouched_balance [OF this]
  from u have "find_provider e pid = find_provider d pid"
    "filter (\<lambda>j. j_provider_id j = Some pid) (repair_jobs e) = filter (\<lambda>j. j_provider_id j = Some pid) (repair_jobs d)"
    "filter (\<lambda>a. a_provider_id a = pid) (chunk_assignments e) = filter (\<lambda>a. a_provider_id a = pid) (chunk_assignments d)"
    unfolding untouched_def by blast+
  note same = this
  have "a \<in> set (filter (\<lambda>a. a_provider_id a = pid) (chunk_assignments e))" unfolding same(3) using a by (simp add: d_def)
  moreover have "filter (\<lambda>j. j_provider_id j = Some pid) (repair_jobs e) = []"
    unfolding same(2) using assms(6) by (simp add: d_def filter_empty_conv)
  moreover have "ledger_balance e pid = ledger_balance db pid"
    unfolding bal by (rule ledger_balance_cong) (simp add: d_def)
  ultimately show ?thesis
    using run r same(1) a(4) by (simp add: e_def [symmetric] filter_empty_conv)
qed

theorem failed_departure_not_retried_witness:
  "\<forall>ticks. let (err, db1) = processDeparture sample_gen False (\<lambda>x. x) (\<lambda>s. s \<noteq> InsertJob (replicate 16 1) (replicate 32 7)) 5
             DemoProfile (razorpay_Penalise True) \<lparr>c_providerID = replicate 16 1, originalStatus = ACTIVE\<rparr> departure_sample;
           db2 = departure_Run sample_gen False (\<lambda>x. x) DemoProfile ticks db1
       in err = Some ErrRepairDB \<and> filter (\<lambda>j. j_provider_id j = Some (replicate 16 1)) (repair_jobs db2) = []"
proof
  fix ticks
  define a where "a = hd (chunk_assignments departure_sample)"
  have real: "real_assignments departure_sample (replicate 16 1) = [a]" "a_chunk_id a = replicate 32 7"
    by (simp_all add: real_assignments_def departure_sample_def a_def)
  have "DataShards DemoProfile \<le> TotalShards DemoProfile - 1" "distinct (map provider_id (providers departure_sample))"
    "\<forall>j\<in>set (repair_jobs departure_sample). j_provider_id j \<noteq> Some (replicate 16 1)"
    by (simp_all add: DemoProfile_def departure_sample_def empty_db_def)
  from failed_departure_not_retried [OF departure_sample_props(1) this(2) departure_sample_props(2) real(1) this(1,3),
      of sample_gen "\<lambda>x. x" 5 ticks]
  show "let (err, db1) = processDeparture sample_gen False (\<lambda>x. x) (\<lambda>s. s \<noteq> InsertJob (replicate 16 1) (replicate 32 7)) 5
             DemoProfile (razorpay_Penalise True) \<lparr>c_providerID = replicate 16 1, originalStatus = ACTIVE\<rparr> departure_sample;
           db2 = departure_Run sample_gen False (\<lambda>x. x) DemoProfile ticks db1
       in err = Some ErrRepairDB \<and> filter (\<lambda>j. j_provider_id j = Some (replicate 16 1)) (repair_jobs db2) = []"
    unfolding real(2) by (auto simp: Let_def split_beta filter_empty_conv)
qed

end
