(* ===== verification/Executor.thy ===== *)
theory Executor
  imports Assignment Departure Erasure
begin

text \<open>
  The repair executor, \<^verbatim>\<open>internal/repair/executor.go\<close> and the loop of \<^verbatim>\<open>cmd/microservice/repair_loop.go\<close> that
  drives it: download of surviving shards, reconstruction, selection of a replacement, pre-registration of the
  assignment, upload, activation. The network, the clock, the signature and digest functions, the random draws
  and the outcome of the SQL statements are the fields of \<open>repair_env\<close>. A transport maps a peer, a protocol
  and the bytes of the request to the bytes that the peer sends before it closes the stream; \<open>None\<close> means
  that the stream could not be opened or written. Deadlines and back-off sleeps only bound how long
  a call waits and are not part of the state.
\<close>

type_synonym transport = "string \<Rightarrow> string \<Rightarrow> byte list \<Rightarrow> byte list option"

datatype repair_stmt =
    ExSelect nat select_stmt
  | ExPreRegister nat
  | ExAbandon nat
  | ExLookup
  | ExActivate
  | ExMarkFailed
  | ExMarkDone nat
  | ExHolders

record repair_env =
  env_sha :: hash
  env_sign :: "byte list \<Rightarrow> byte list \<Rightarrow> byte list"
  env_key :: "byte list"
  env_peer :: string
  env_download :: "nat \<Rightarrow> transport"
  env_upload :: "nat \<Rightarrow> transport"
  env_shuffle :: "nat \<Rightarrow> nat \<Rightarrow> provider_row list \<Rightarrow> provider_row list"
  env_ok :: "repair_stmt \<Rightarrow> bool"
  env_now :: time
  env_text :: "repair_error \<Rightarrow> string"

record SurvivingHolder =
  h_ProviderID :: uuid
  h_PeerID :: string
  h_ShardIndex :: nat
  h_ChunkID :: "byte list"

subsection \<open>Constants\<close>

definition repairDownloadProtocolID :: string where "repairDownloadProtocolID = ''/vyomanaut/repair-download/1.0.0''"
definition chunkUploadProtocolID :: string where "chunkUploadProtocolID = ''/vyomanaut/chunk-upload/1.0.0''"
definition capabilityTokenTTL :: duration where "capabilityTokenTTL = 1 * hour"
definition maxRepairReplacementRetries :: nat where "maxRepairReplacementRetries = 3"
definition markCompleteFinalWriteRetries :: nat where "markCompleteFinalWriteRetries = 3"
definition repairDownloadRetries :: nat where "repairDownloadRetries = 3"
definition lengthPrefixSize :: nat where "lengthPrefixSize = 4"
definition chunkIDFieldSize :: nat where "chunkIDFieldSize = 32"
definition repairRequestTsSize :: nat where "repairRequestTsSize = 8"
definition repairAuthSigSize :: nat where "repairAuthSigSize = 64"
definition shardIndexFieldSize :: nat where "shardIndexFieldSize = 4"
definition capabilityTokenSize :: nat where "capabilityTokenSize = 72"

definition repairDownloadStatusOK :: byte where "repairDownloadStatusOK = 0x00"
definition uploadStatusOK :: byte where "uploadStatusOK = 0x00"
definition uploadStatusStorageFull :: byte where "uploadStatusStorageFull = 0x04"
definition uploadStatusAlreadyStored :: byte where "uploadStatusAlreadyStored = 0x06"

lemmas frame_sizes = lengthPrefixSize_def chunkIDFieldSize_def repairRequestTsSize_def repairAuthSigSize_def
  shardIndexFieldSize_def capabilityTokenSize_def

text \<open>\<^verbatim>\<open>uint64(t.UnixMilli())\<close>.\<close>

definition unix_milli :: "time \<Rightarrow> nat" where
  "unix_milli t = nat ((t div 1000000) mod 2 ^ 64)"

subsection \<open>Download\<close>

definition signRepairDownloadRequest :: "repair_env \<Rightarrow> byte list \<Rightarrow> nat \<Rightarrow> byte list" where
  "signRepairDownloadRequest env chunkID requestTsMs =
     copy_slice (replicate repairAuthSigSize 0)
       (env_sign env (env_key env)
          (env_sha env (chunkID @ be_bytes repairRequestTsSize requestTsMs @ text_bytes (env_peer env))))"

definition download_request :: "repair_env \<Rightarrow> byte list \<Rightarrow> byte list" where
  "download_request env chunkID =
     (let requestTsMs = unix_milli (env_now env)
      in be_bytes lengthPrefixSize (chunkIDFieldSize + repairRequestTsSize + repairAuthSigSize) @
         chunkID @ be_bytes repairRequestTsSize requestTsMs @ signRepairDownloadRequest env chunkID requestTsMs)"

text \<open>Two \<^verbatim>\<open>io.ReadFull\<close> calls: a length and a body of that length.\<close>

definition read_frame :: "byte list \<Rightarrow> byte list option" where
  "read_frame resp =
     (if length resp < lengthPrefixSize then None
      else let n = be_value (take lengthPrefixSize resp); rest = drop lengthPrefixSize resp
           in if length rest < n then None else Some (take n rest))"

definition downloadOneShard :: "repair_env \<Rightarrow> transport \<Rightarrow> byte list \<Rightarrow> string \<Rightarrow> repair_error + byte list" where
  "downloadOneShard env tr chunkID holderPeerID =
     (case tr holderPeerID repairDownloadProtocolID (download_request env chunkID) of
        None \<Rightarrow> Inl ErrStreamOpen
      | Some resp \<Rightarrow>
          (case read_frame resp of
             None \<Rightarrow> Inl ErrResponseShort
           | Some [] \<Rightarrow> Inl ErrResponseEmpty
           | Some (st # data) \<Rightarrow>
               if st = repairDownloadStatusOK
               then (if length data \<noteq> ShardSize then Inl (ErrResponseLength (Suc (length data))) else Inr data)
               else Inl (ErrResponseStatus st)))"

text \<open>\<open>None\<close> is the panic of a shard index outside the slots.\<close>

fun collect_shards ::
  "repair_env \<Rightarrow> transport \<Rightarrow> int \<Rightarrow> SurvivingHolder list \<Rightarrow> shards \<Rightarrow> nat \<Rightarrow> (shards \<times> nat) option" where
  "collect_shards env tr dataShards [] shards collected = Some (shards, collected)"
| "collect_shards env tr dataShards (h # hs) shards collected =
     (if int collected \<ge> dataShards then Some (shards, collected)
      else case downloadOneShard env tr (h_ChunkID h) (h_PeerID h) of
             Inl _ \<Rightarrow> collect_shards env tr dataShards hs shards collected
           | Inr data \<Rightarrow>
               if h_ShardIndex h < length shards
               then collect_shards env tr dataShards hs (shards[h_ShardIndex h := Some data]) (Suc collected)
               else None)"

definition downloadShards :: "repair_env \<Rightarrow> transport \<Rightarrow> NetworkProfile \<Rightarrow> SurvivingHolder list \<Rightarrow> repair_error + shards" where
  "downloadShards env tr profile holders =
     (case collect_shards env tr (DataShards profile) holders (replicate (nat (TotalShards profile)) None) 0 of
        None \<Rightarrow> Inl ErrRepairPanic
      | Some (shards, collected) \<Rightarrow>
          if int collected < DataShards profile then Inl (ErrTooFewHolders collected) else Inr shards)"

fun download_attempts :: "nat \<Rightarrow> nat \<Rightarrow> repair_env \<Rightarrow> NetworkProfile \<Rightarrow> SurvivingHolder list \<Rightarrow> repair_error + shards" where
  "download_attempts 0 attempt env profile holders = Inl (ErrTooFewHolders 0)"
| "download_attempts (Suc left) attempt env profile holders =
     (case downloadShards env (env_download env attempt) profile holders of
        Inr shards \<Rightarrow> Inr shards
      | Inl e \<Rightarrow>
          if e = ErrRepairPanic \<or> left = 0 then Inl e
          else download_attempts left (Suc attempt) env profile holders)"

subsection \<open>Assignments\<close>

definition slot_taken :: "database \<Rightarrow> uuid \<Rightarrow> nat \<Rightarrow> bool" where
  "slot_taken db segmentID i \<longleftrightarrow>
     (\<exists>a\<in>set (chunk_assignments db). \<not> is_vetting_chunk a \<and> a_segment_id a = Some segmentID \<and> shard_index a = Some i \<and>
        (a_status a = A_ACTIVE \<or> a_status a = A_REPAIRING))"

text \<open>The insert is subject to the two unique constraints of the table.\<close>

definition preRegisterChunkAssignment ::
  "bool \<Rightarrow> byte list \<Rightarrow> uuid \<Rightarrow> nat \<Rightarrow> uuid \<Rightarrow> database \<Rightarrow> repair_error option \<times> database" where
  "preRegisterChunkAssignment ok chunkID segmentID i providerID db =
     (if \<not> ok then (Some ErrRepairDB, db)
      else if find_assignment db chunkID providerID \<noteq> None \<or> slot_taken db segmentID i then (Some ErrRepairUnique, db)
      else (None, db\<lparr>chunk_assignments := chunk_assignments db @
              [\<lparr>a_chunk_id = chunkID, is_vetting_chunk = False, a_segment_id = Some segmentID, shard_index = Some i,
                a_provider_id = providerID, a_status = A_REPAIRING\<rparr>]\<rparr>))"

definition set_repairing :: "assignment_status \<Rightarrow> byte list \<Rightarrow> uuid \<Rightarrow> database \<Rightarrow> database" where
  "set_repairing st chunkID providerID db =
     db\<lparr>chunk_assignments := update_where
          (\<lambda>a. a_chunk_id a = chunkID \<and> a_provider_id a = providerID \<and> a_status a = A_REPAIRING)
          (\<lambda>a. a\<lparr>a_status := st\<rparr>) (chunk_assignments db)\<rparr>"

definition abandonFailedReplacementAssignment :: "bool \<Rightarrow> byte list \<Rightarrow> uuid \<Rightarrow> database \<Rightarrow> repair_error option \<times> database" where
  "abandonFailedReplacementAssignment ok chunkID providerID db =
     (if \<not> ok then (Some ErrRepairDB, db) else (None, set_repairing A_DELETED chunkID providerID db))"

definition activateChunkAssignment :: "bool \<Rightarrow> byte list \<Rightarrow> uuid \<Rightarrow> database \<Rightarrow> repair_error option \<times> database" where
  "activateChunkAssignment ok chunkID providerID db =
     (if \<not> ok then (Some ErrRepairDB, db) else (None, set_repairing A_ACTIVE chunkID providerID db))"

definition lookupShardIndexForChunk :: "bool \<Rightarrow> byte list \<Rightarrow> database \<Rightarrow> repair_error + nat" where
  "lookupShardIndexForChunk ok chunkID db =
     (if \<not> ok then Inl ErrRepairDB
      else case List.find (\<lambda>a. a_chunk_id a = chunkID) (chunk_assignments db) of
        None \<Rightarrow> Inl ErrNoShardIndex
      | Some a \<Rightarrow> (case shard_index a of None \<Rightarrow> Inl ErrNullShardIndex | Some i \<Rightarrow> Inr i))"

subsection \<open>Upload\<close>

definition mintCapabilityToken :: "repair_env \<Rightarrow> byte list \<Rightarrow> uuid \<Rightarrow> duration \<Rightarrow> byte list" where
  "mintCapabilityToken env chunkID providerID ttl =
     (let expiry = be_bytes 8 (unix_milli (env_now env + ttl));
          signingInput = env_sha env (text_bytes ''vyomanaut-chunk-upload-cap-v1'' @ chunkID @ providerID @ expiry)
      in expiry @ copy_slice (replicate 64 0) (env_sign env (env_key env) signingInput))"

definition upload_frame :: "byte list \<Rightarrow> nat \<Rightarrow> byte list \<Rightarrow> byte list \<Rightarrow> byte list" where
  "upload_frame chunkID i token shardData =
     be_bytes lengthPrefixSize (chunkIDFieldSize + shardIndexFieldSize + capabilityTokenSize + ShardSize) @
     chunkID @ be_bytes shardIndexFieldSize i @ token @ copy_slice (replicate ShardSize 0) shardData"

definition uploadShard ::
  "transport \<Rightarrow> string \<Rightarrow> byte list \<Rightarrow> nat \<Rightarrow> byte list \<Rightarrow> byte list \<Rightarrow> repair_error option" where
  "uploadShard tr replacementPeerID chunkID i token shardData =
     (case tr replacementPeerID chunkUploadProtocolID (upload_frame chunkID i token shardData) of
        None \<Rightarrow> Some ErrReplacementUnreachable
      | Some resp \<Rightarrow>
          (case read_frame resp of
             None \<Rightarrow> Some ErrReplacementUnreachable
           | Some [] \<Rightarrow> Some ErrResponseEmpty
           | Some (st # _) \<Rightarrow>
               if st = uploadStatusOK \<or> st = uploadStatusAlreadyStored then None
               else if st = uploadStatusStorageFull then Some ErrReplacementStorageFull
               else Some (ErrResponseStatus st)))"

subsection \<open>The pipeline\<close>

text \<open>
  The replacement loop returns the provider that took the shard or the error that fails the job, the
  database, and the frames sent, oldest first.
\<close>

fun replace_attempts ::
  "nat \<Rightarrow> nat \<Rightarrow> repair_env \<Rightarrow> NetworkProfile \<Rightarrow> job_row \<Rightarrow> nat \<Rightarrow> byte list \<Rightarrow> uuid list \<Rightarrow> repair_error \<Rightarrow> database \<Rightarrow>
     (repair_error + uuid) \<times> database \<times> (uuid \<times> byte list) list" where
  "replace_attempts 0 attempt env profile job i shard excluded lastErr db = (Inl lastErr, db, [])"
| "replace_attempts (Suc left) attempt env profile job i shard excluded lastErr db =
     (case SelectReplacementProvider (\<lambda>s. env_ok env (ExSelect attempt s)) (env_now env) (env_shuffle env attempt) db profile
             (j_segment_id job) excluded of
        Inl e \<Rightarrow> (Inl e, db, [])
      | Inr candidateID \<Rightarrow>
          (case preRegisterChunkAssignment (env_ok env (ExPreRegister attempt)) (j_chunk_id job) (j_segment_id job) i candidateID db of
             (Some e, db1) \<Rightarrow> (Inl e, db1, [])
           | (None, db1) \<Rightarrow>
               let token = mintCapabilityToken env (j_chunk_id job) candidateID capabilityTokenTTL;
                   frame = upload_frame (j_chunk_id job) i token shard
               in case uploadShard (env_upload env attempt) (uuid_string candidateID) (j_chunk_id job) i token shard of
                    None \<Rightarrow> (Inr candidateID, db1, [(candidateID, frame)])
                  | Some e \<Rightarrow>
                      if e \<noteq> ErrReplacementStorageFull \<and> e \<noteq> ErrReplacementUnreachable
                      then (Inl e, db1, [(candidateID, frame)])
                      else case abandonFailedReplacementAssignment (env_ok env (ExAbandon attempt)) (j_chunk_id job) candidateID db1 of
                             (Some e', db2) \<Rightarrow> (Inl e', db2, [(candidateID, frame)])
                           | (None, db2) \<Rightarrow>
                               (case replace_attempts left (Suc attempt) env profile job i shard (excluded @ [candidateID]) e db2 of
                                  (res, db3, sent) \<Rightarrow> (res, db3, (candidateID, frame) # sent))))"

fun mark_done :: "nat \<Rightarrow> nat \<Rightarrow> repair_env \<Rightarrow> uuid \<Rightarrow> database \<Rightarrow> repair_error option \<times> database" where
  "mark_done 0 attempt env jobID db = (Some ErrRepairDB, db)"
| "mark_done (Suc left) attempt env jobID db =
     (case MarkJobComplete (env_ok env (ExMarkDone attempt)) (env_now env) jobID True [] db of
        (None, db') \<Rightarrow> (None, db')
      | (Some e, db') \<Rightarrow> if left = 0 then (Some e, db') else mark_done left (Suc attempt) env jobID db')"

definition fail_job :: "repair_env \<Rightarrow> uuid \<Rightarrow> repair_error \<Rightarrow> database \<Rightarrow> repair_error option \<times> database" where
  "fail_job env jobID e db =
     (Some e, snd (MarkJobComplete (env_ok env ExMarkFailed) (env_now env) jobID False (env_text env e) db))"

text \<open>A panic ends the process: the job is not marked.\<close>

definition reconstruct_lost ::
  "repair_env \<Rightarrow> NetworkProfile \<Rightarrow> Engine \<Rightarrow> job_row \<Rightarrow> SurvivingHolder list \<Rightarrow> database \<Rightarrow> repair_error + nat \<times> byte list" where
  "reconstruct_lost env profile engine job holders db =
     (case download_attempts repairDownloadRetries 0 env profile holders of
        Inl e \<Rightarrow> Inl e
      | Inr shards \<Rightarrow>
          (case DecodeSegment engine shards of
             Inl _ \<Rightarrow> Inl ErrErasure
           | Inr (aontPackage, _) \<Rightarrow>
               (case EncodeSegment engine aontPackage of
                  Inl _ \<Rightarrow> Inl ErrErasure
                | Inr regenerated \<Rightarrow>
                    (case lookupShardIndexForChunk (env_ok env ExLookup) (j_chunk_id job) db of
                       Inl e \<Rightarrow> Inl e
                     | Inr i \<Rightarrow> if i < length regenerated then Inr (i, regenerated ! i) else Inl ErrRepairPanic))))"

definition ExecuteRepairJob ::
  "repair_env \<Rightarrow> NetworkProfile \<Rightarrow> Engine \<Rightarrow> job_row \<Rightarrow> SurvivingHolder list \<Rightarrow> uuid list \<Rightarrow> database \<Rightarrow>
     repair_error option \<times> database \<times> (uuid \<times> byte list) list" where
  "ExecuteRepairJob env profile engine job holders excludeProviderIDs db =
     (case reconstruct_lost env profile engine job holders db of
        Inl e \<Rightarrow>
          if e = ErrRepairPanic then (Some e, db, [])
          else (case fail_job env (job_id job) e db of (err, db') \<Rightarrow> (err, db', []))
      | Inr (i, shard) \<Rightarrow>
          (case replace_attempts maxRepairReplacementRetries 0 env profile job i shard excludeProviderIDs ErrReplacementUnreachable db of
             (Inl e, db1, sent) \<Rightarrow> (case fail_job env (job_id job) e db1 of (err, db') \<Rightarrow> (err, db', sent))
           | (Inr replacementID, db1, sent) \<Rightarrow>
               (case activateChunkAssignment (env_ok env ExActivate) (j_chunk_id job) replacementID db1 of
                  (Some e, db2) \<Rightarrow> (case fail_job env (job_id job) e db2 of (err, db') \<Rightarrow> (err, db', sent))
                | (None, db2) \<Rightarrow>
                    (case mark_done markCompleteFinalWriteRetries 0 env (job_id job) db2 of (err, db') \<Rightarrow> (err, db', sent)))))"

subsection \<open>The executor loop\<close>

definition sha256Size :: nat where "sha256Size = 32"

fun holder_rows :: "uuid option \<Rightarrow> assignment_row list \<Rightarrow> repair_error + SurvivingHolder list" where
  "holder_rows excl [] = Inr []"
| "holder_rows excl (a # as) =
     (case shard_index a of
        None \<Rightarrow> Inl ErrNullShardIndex
      | Some i \<Rightarrow>
          if excl = Some (a_provider_id a) then holder_rows excl as
          else if length (a_chunk_id a) \<noteq> sha256Size then Inl (ErrChunkIDLength (length (a_chunk_id a)))
          else case holder_rows excl as of
                 Inl e \<Rightarrow> Inl e
               | Inr hs \<Rightarrow> Inr (\<lparr>h_ProviderID = a_provider_id a, h_PeerID = uuid_string (a_provider_id a),
                                 h_ShardIndex = i, h_ChunkID = a_chunk_id a\<rparr> # hs))"

definition findSurvivingHolders :: "bool \<Rightarrow> uuid \<Rightarrow> uuid option \<Rightarrow> database \<Rightarrow> repair_error + SurvivingHolder list" where
  "findSurvivingHolders ok segmentID excludeProviderID db =
     (if \<not> ok then Inl ErrRepairDB
      else holder_rows excludeProviderID
             (filter (\<lambda>a. a_segment_id a = Some segmentID \<and> \<not> is_vetting_chunk a \<and> a_status a = A_ACTIVE) (chunk_assignments db)))"

text \<open>One turn of \<^verbatim>\<open>runRepairExecutorLoop\<close>.\<close>

definition repair_turn ::
  "(dequeue_stmt \<Rightarrow> bool) \<Rightarrow> repair_env \<Rightarrow> NetworkProfile \<Rightarrow> Engine \<Rightarrow> database \<Rightarrow> database \<times> (uuid \<times> byte list) list" where
  "repair_turn dq env profile engine db =
     (case DequeueNextJob dq (env_now env) (\<lambda>_. False) db of
        (Inl _, db1) \<Rightarrow> (db1, [])
      | (Inr None, db1) \<Rightarrow> (db1, [])
      | (Inr (Some job), db1) \<Rightarrow>
          (case findSurvivingHolders (env_ok env ExHolders) (j_segment_id job) (j_provider_id job) db1 of
             Inl e \<Rightarrow> (snd (MarkJobComplete (env_ok env ExMarkFailed) (env_now env) (job_id job) False (env_text env e) db1), [])
           | Inr holders \<Rightarrow>
               let excludeProviderIDs = map h_ProviderID holders @ (case j_provider_id job of None \<Rightarrow> [] | Some p \<Rightarrow> [p])
               in case ExecuteRepairJob env profile engine job holders excludeProviderIDs db1 of (_, db2, sent) \<Rightarrow> (db2, sent)))"

subsection \<open>Lemmas\<close>

text \<open>Every holder that answers sends its own shard of the codeword.\<close>

definition honest :: "repair_env \<Rightarrow> SurvivingHolder list \<Rightarrow> byte list list \<Rightarrow> bool" where
  "honest env holders cw \<longleftrightarrow>
     distinct (map h_ShardIndex holders) \<and>
     (\<forall>h\<in>set holders. h_ShardIndex h < length cw \<and>
        (\<forall>k d. downloadOneShard env (env_download env k) (h_ChunkID h) (h_PeerID h) = Inr d \<longrightarrow> d = cw ! h_ShardIndex h))"

definition answering :: "repair_env \<Rightarrow> nat \<Rightarrow> SurvivingHolder list \<Rightarrow> nat" where
  "answering env k holders =
     length (filter (\<lambda>h. \<exists>d. downloadOneShard env (env_download env k) (h_ChunkID h) (h_PeerID h) = Inr d) holders)"

lemma honest_Cons: "honest env (h # hs) cw \<Longrightarrow> honest env hs cw"
  by (auto simp: honest_def)

lemma non_nil_update: "i < length kept \<Longrightarrow> kept ! i = None \<Longrightarrow> non_nil (kept[i := Some d]) = Suc (non_nil kept)"
proof (induction kept arbitrary: i)
  case (Cons s kept)
  then show ?case by (cases i) (auto simp: non_nil_def)
qed simp

lemma erased_update: "erased cw kept \<Longrightarrow> i < length cw \<Longrightarrow> erased cw (kept[i := Some (cw ! i)])"
  by (auto simp: erased_def nth_list_update)

lemma collect_shards_spec:
  assumes "honest env holders cw" and "erased cw kept" and "\<forall>h\<in>set holders. kept ! h_ShardIndex h = None"
    and "non_nil kept = collected"
  shows "\<exists>kept' n. collect_shards env (env_download env k) d holders kept collected = Some (kept', n) \<and>
           erased cw kept' \<and> non_nil kept' = n \<and> (d \<le> int n \<or> n = collected + answering env k holders)"
  using assms
proof (induction holders arbitrary: kept collected)
  case Nil
  then show ?case by (simp add: answering_def)
next
  case (Cons h hs)
  let ?i = "h_ShardIndex h" and ?r = "downloadOneShard env (env_download env k) (h_ChunkID h) (h_PeerID h)"
  have i: "?i < length cw" and hs: "honest env hs cw" and other: "\<forall>h'\<in>set hs. h_ShardIndex h' \<noteq> ?i"
    using Cons.prems(1) by (auto simp: honest_def) (metis imageI)
  show ?case
  proof (cases "int collected \<ge> d")
    case True
    with Cons.prems show ?thesis by simp
  next
    case False
    show ?thesis
    proof (cases ?r)
      case (Inl e)
      from Cons.IH [OF hs Cons.prems(2) _ Cons.prems(4)] Cons.prems(3) False Inl show ?thesis
        by (auto simp: answering_def)
    next
      case (Inr x)
      with Cons.prems(1) have x: "x = cw ! ?i" by (auto simp: honest_def)
      let ?kept = "kept[?i := Some x]"
      have len: "?i < length kept" using i erased_length [OF Cons.prems(2)] by simp
      have "erased cw ?kept" using erased_update [OF Cons.prems(2) i] x by simp
      moreover have "\<forall>h'\<in>set hs. ?kept ! h_ShardIndex h' = None"
        using Cons.prems(3) other by (metis list.set_intros(2) nth_list_update_neq)
      moreover have "non_nil ?kept = Suc collected"
        using non_nil_update [OF len] Cons.prems(3,4) by simp
      ultimately show ?thesis using Cons.IH [OF hs, of ?kept "Suc collected"] False Inr len
        by (auto simp: answering_def)
    qed
  qed
qed

context rs_engine
begin

lemma downloadShards_spec:
  assumes "EncodeSegment engine pkg = Inr cw" and "honest env holders cw"
  shows "downloadShards env (env_download env k) profile holders \<noteq> Inl ErrRepairPanic"
    and "downloadShards env (env_download env k) profile holders = Inr kept \<Longrightarrow>
           \<exists>out. DecodeSegment engine kept = Inr (pkg, out)"
    and "eng_DataShards engine \<le> answering env k holders \<Longrightarrow>
           \<exists>kept. downloadShards env (env_download env k) profile holders = Inr kept"
proof -
  let ?start = "replicate (nat (TotalShards profile)) None :: shards"
  have len: "length cw = nat (TotalShards profile)"
    using encode_total(1) [OF assms(1)] sizes(2) by simp
  have "erased cw ?start" by (simp add: erased_def len)
  moreover have "\<forall>h\<in>set holders. ?start ! h_ShardIndex h = None" using assms(2) len by (simp add: honest_def)
  moreover have "non_nil ?start = 0" by (simp add: non_nil_def)
  ultimately obtain kept' n where c:
    "collect_shards env (env_download env k) (DataShards profile) holders ?start 0 = Some (kept', n)"
    "erased cw kept'" "non_nil kept' = n" "DataShards profile \<le> int n \<or> n = 0 + answering env k holders"
    using collect_shards_spec [OF assms(2), of ?start 0 k "DataShards profile"] by blast
  show "downloadShards env (env_download env k) profile holders \<noteq> Inl ErrRepairPanic"
    using c(1) by (simp add: downloadShards_def)
  show "\<exists>out. DecodeSegment engine kept = Inr (pkg, out)" if "downloadShards env (env_download env k) profile holders = Inr kept"
    using that c(1-3) encode_total(3) [OF assms(1) c(2)] sizes(1) by (auto simp: downloadShards_def split: if_splits)
  show "\<exists>kept. downloadShards env (env_download env k) profile holders = Inr kept" if "eng_DataShards engine \<le> answering env k holders"
    using that c(1,4) sizes(1) by (auto simp: downloadShards_def)
qed

lemma download_attempts_decode:
  assumes "EncodeSegment engine pkg = Inr cw" and "honest env holders cw" and "download_attempts n k env profile holders = Inr kept"
  shows "\<exists>out. DecodeSegment engine kept = Inr (pkg, out)"
  using assms(3)
proof (induction n arbitrary: k)
  case (Suc n)
  then show ?case
    using downloadShards_spec(2) [OF assms(1,2), of k kept] by (auto split: sum.splits if_splits)
qed simp

lemma download_attempts_succeed:
  assumes "EncodeSegment engine pkg = Inr cw" and "honest env holders cw"
    and "k \<le> j" and "j < k + n" and "eng_DataShards engine \<le> answering env j holders"
  shows "\<exists>kept. download_attempts n k env profile holders = Inr kept"
  using assms(3,4)
proof (induction n arbitrary: k)
  case (Suc n)
  show ?case
  proof (cases "downloadShards env (env_download env k) profile holders")
    case (Inl e)
    with downloadShards_spec(3) [OF assms(1,2,5)] have "j \<noteq> k" by auto
    with Suc.prems have "Suc k \<le> j" "j < Suc k + n" by simp_all
    moreover from this have "n \<noteq> 0" by simp
    moreover have "e \<noteq> ErrRepairPanic" using downloadShards_spec(1) [OF assms(1,2), of k] Inl by auto
    ultimately show ?thesis using Suc.IH [of "Suc k"] Inl by simp
  qed simp
qed simp

lemma reconstruct_lost_spec:
  assumes "EncodeSegment engine pkg = Inr cw" and "honest env holders cw"
  shows "reconstruct_lost env profile engine job holders db = Inr (i, shard) \<Longrightarrow>
           lookupShardIndexForChunk (env_ok env ExLookup) (j_chunk_id job) db = Inr i \<and> i < length cw \<and> shard = cw ! i"
    and "j < repairDownloadRetries \<Longrightarrow> eng_DataShards engine \<le> answering env j holders \<Longrightarrow>
         lookupShardIndexForChunk (env_ok env ExLookup) (j_chunk_id job) db = Inr i \<Longrightarrow> i < length cw \<Longrightarrow>
           reconstruct_lost env profile engine job holders db = Inr (i, cw ! i)"
proof -
  show "lookupShardIndexForChunk (env_ok env ExLookup) (j_chunk_id job) db = Inr i \<and> i < length cw \<and> shard = cw ! i"
    if r: "reconstruct_lost env profile engine job holders db = Inr (i, shard)"
  proof -
    from r obtain kept where kept: "download_attempts repairDownloadRetries 0 env profile holders = Inr kept"
      by (auto simp: reconstruct_lost_def split: sum.splits)
    from download_attempts_decode [OF assms kept] obtain out where "DecodeSegment engine kept = Inr (pkg, out)" by blast
    with r kept assms(1) show ?thesis by (auto simp: reconstruct_lost_def split: sum.splits if_splits)
  qed
  show "reconstruct_lost env profile engine job holders db = Inr (i, cw ! i)"
    if j: "j < repairDownloadRetries" "eng_DataShards engine \<le> answering env j holders"
      and l: "lookupShardIndexForChunk (env_ok env ExLookup) (j_chunk_id job) db = Inr i" "i < length cw"
  proof -
    from download_attempts_succeed [OF assms, of 0 j repairDownloadRetries] j obtain kept where
      kept: "download_attempts repairDownloadRetries 0 env profile holders = Inr kept" by auto
    from download_attempts_decode [OF assms kept] obtain out where "DecodeSegment engine kept = Inr (pkg, out)" by blast
    with kept assms(1) l show ?thesis by (simp add: reconstruct_lost_def)
  qed
qed

end

text \<open>The frame that candidate \<open>pid\<close> gets.\<close>

definition frame_for :: "repair_env \<Rightarrow> job_row \<Rightarrow> nat \<Rightarrow> byte list \<Rightarrow> uuid \<Rightarrow> byte list" where
  "frame_for env job i shard pid =
     upload_frame (j_chunk_id job) i (mintCapabilityToken env (j_chunk_id job) pid capabilityTokenTTL) shard"

definition repairing_row :: "byte list \<Rightarrow> uuid \<Rightarrow> nat \<Rightarrow> uuid \<Rightarrow> assignment_status \<Rightarrow> assignment_row" where
  "repairing_row c seg i pid st = \<lparr>a_chunk_id = c, is_vetting_chunk = False, a_segment_id = Some seg, shard_index = Some i,
     a_provider_id = pid, a_status = st\<rparr>"

lemma preRegister_cases:
  obtains (refused) e where "preRegisterChunkAssignment ok c seg i pid db = (Some e, db)"
  | (registered) "ok" "find_assignment db c pid = None" "\<not> slot_taken db seg i"
    "preRegisterChunkAssignment ok c seg i pid db =
       (None, db\<lparr>chunk_assignments := chunk_assignments db @ [repairing_row c seg i pid A_REPAIRING]\<rparr>)"
proof (cases "ok \<and> find_assignment db c pid = None \<and> \<not> slot_taken db seg i")
  case True
  then show thesis using registered by (simp add: preRegisterChunkAssignment_def repairing_row_def)
next
  case False
  then have "\<exists>e. preRegisterChunkAssignment ok c seg i pid db = (Some e, db)" by (auto simp: preRegisterChunkAssignment_def)
  with refused show thesis by blast
qed

text \<open>The ways an attempt of the replacement loop ends.\<close>

lemma replace_attempts_cases:
  fixes n k env profile job i shard ex lastErr db
  defines "res \<equiv> replace_attempts (Suc n) k env profile job i shard ex lastErr db"
  obtains (no_candidate) e where "res = (Inl e, db, [])"
  | (rejected) pid e db1 where
      "preRegisterChunkAssignment (env_ok env (ExPreRegister k)) (j_chunk_id job) (j_segment_id job) i pid db = (None, db1)"
      "res = (Inl e, db1, [(pid, frame_for env job i shard pid)])"
  | (taken) pid db1 where
      "preRegisterChunkAssignment (env_ok env (ExPreRegister k)) (j_chunk_id job) (j_segment_id job) i pid db = (None, db1)"
      "res = (Inr pid, db1, [(pid, frame_for env job i shard pid)])"
  | (next_candidate) pid e db1 where
      "preRegisterChunkAssignment (env_ok env (ExPreRegister k)) (j_chunk_id job) (j_segment_id job) i pid db = (None, db1)"
      "res = (let (r, d, sent) = replace_attempts n (Suc k) env profile job i shard (ex @ [pid]) e
                (set_repairing A_DELETED (j_chunk_id job) pid db1)
              in (r, d, (pid, frame_for env job i shard pid) # sent))"
proof (cases "SelectReplacementProvider (\<lambda>s. env_ok env (ExSelect k s)) (env_now env) (env_shuffle env k) db profile
             (j_segment_id job) ex")
  case (Inl e)
  then show thesis using no_candidate by (simp add: res_def)
next
  case (Inr pid)
  let ?pre = "preRegisterChunkAssignment (env_ok env (ExPreRegister k)) (j_chunk_id job) (j_segment_id job) i pid db"
  let ?up = "uploadShard (env_upload env k) (uuid_string pid) (j_chunk_id job) i
    (mintCapabilityToken env (j_chunk_id job) pid capabilityTokenTTL) shard"
  consider (refused) e where "?pre = (Some e, db)" | (registered) db1 where "?pre = (None, db1)"
    by (rule preRegister_cases)
  then show thesis
  proof cases
    case refused
    with Inr show thesis using no_candidate by (simp add: res_def)
  next
    case (registered db1)
    show thesis
    proof (cases ?up)
      case None
      with Inr registered show thesis using taken by (simp add: res_def frame_for_def)
    next
      case (Some e)
      show thesis
      proof (cases "(e = ErrReplacementStorageFull \<or> e = ErrReplacementUnreachable) \<and> env_ok env (ExAbandon k)")
        case True
        with Inr registered Some show thesis using next_candidate [of pid db1 e]
          by (auto simp: res_def frame_for_def abandonFailedReplacementAssignment_def Let_def)
      next
        case False
        with Inr registered Some have "\<exists>e'. res = (Inl e', db1, [(pid, frame_for env job i shard pid)])"
          by (auto simp: res_def frame_for_def abandonFailedReplacementAssignment_def Let_def)
        with registered show thesis using rejected by blast
      qed
    qed
  qed
qed

lemma replace_attempts_sent:
  "(pid, frame) \<in> set (snd (snd (replace_attempts n k env profile job i shard ex lastErr db))) \<Longrightarrow>
   frame = frame_for env job i shard pid"
proof (induction n arbitrary: k ex lastErr db)
  case (Suc n)
  show ?case
    by (rule replace_attempts_cases [of n k env profile job i shard ex lastErr db];
        use Suc in \<open>auto simp: split_beta simp del: replace_attempts.simps\<close>)
qed simp

lemma length_mintCapabilityToken: "length (mintCapabilityToken env c p ttl) = capabilityTokenSize"
  by (simp add: mintCapabilityToken_def Let_def capabilityTokenSize_def)

text \<open>The layout of an upload request: 4 bytes length, 32 chunk, 4 index, 72 token, then the shard.\<close>

lemma upload_frame_parts:
  assumes "length c = 32" and "length shard = ShardSize" and "i < 2 ^ 32"
    and frame_def: "frame = upload_frame c i (mintCapabilityToken env c p ttl) shard"
  shows "slice 4 36 frame = c" and "be_value (slice 36 40 frame) = i" and "drop 112 frame = shard"
    and "be_value (take 4 frame) = length (drop 4 frame)"
proof -
  have t: "length (mintCapabilityToken env c p ttl) = 72"
    using length_mintCapabilityToken by (simp add: capabilityTokenSize_def)
  have f: "frame = be_bytes 4 (108 + ShardSize) @ c @ be_bytes 4 i @ mintCapabilityToken env c p ttl @ shard"
    using assms(2) by (simp add: frame_def upload_frame_def frame_sizes)
  show "slice 4 36 frame = c" using assms(1) by (simp add: f slice_def)
  show "be_value (slice 36 40 frame) = i" using assms(1,3) by (simp add: f slice_def be_value_be_bytes)
  show "drop 112 frame = shard" using assms(1) t by (simp add: f)
  show "be_value (take 4 frame) = length (drop 4 frame)"
    using assms(1,2) t by (simp add: f be_value_be_bytes ShardSize_def)
qed

lemma ExecuteRepairJob_sent:
  assumes "reconstruct_lost env profile engine job holders db = Inr (i, shard)"
  shows "snd (snd (ExecuteRepairJob env profile engine job holders ex db)) =
     snd (snd (replace_attempts maxRepairReplacementRetries 0 env profile job i shard ex ErrReplacementUnreachable db))"
  using assms by (simp add: ExecuteRepairJob_def split: sum.splits prod.splits option.splits)

lemma ExecuteRepairJob_nothing_sent:
  assumes "reconstruct_lost env profile engine job holders db = Inl e"
  shows "snd (snd (ExecuteRepairJob env profile engine job holders ex db)) = []"
  using assms by (simp add: ExecuteRepairJob_def split: prod.splits)

context rs_engine
begin

lemma sent_original:
  assumes "EncodeSegment engine pkg = Inr cw" and "honest env holders cw" and "length (j_chunk_id job) = 32"
    and "(pid, frame) \<in> set (snd (snd (ExecuteRepairJob env profile engine job holders ex db)))"
  shows "\<exists>i<length cw. lookupShardIndexForChunk (env_ok env ExLookup) (j_chunk_id job) db = Inr i \<and>
     slice 4 36 frame = j_chunk_id job \<and> be_value (slice 36 40 frame) = i \<and> drop 112 frame = cw ! i"
proof (cases "reconstruct_lost env profile engine job holders db")
  case (Inl e)
  with assms(4) ExecuteRepairJob_nothing_sent [OF Inl, of ex] show ?thesis by simp
next
  case (Inr r)
  obtain i shard where r: "r = (i, shard)" by fastforce
  note i = reconstruct_lost_spec(1) [OF assms(1,2) Inr [unfolded r]]
  have "frame = upload_frame (j_chunk_id job) i (mintCapabilityToken env (j_chunk_id job) pid capabilityTokenTTL) shard"
    using replace_attempts_sent [OF assms(4) [unfolded ExecuteRepairJob_sent [OF Inr [unfolded r]]]] by (simp add: frame_for_def)
  moreover have "length shard = ShardSize" "i < 2 ^ 32"
    using i encode_total(1,2) [OF assms(1)] sizes(2) small by auto
  ultimately show ?thesis using upload_frame_parts [OF assms(3), of shard i frame env pid capabilityTokenTTL] i by auto
qed

end

subsection \<open>Properties\<close>

text \<open>
  a repair never sends anything but the lost shard. Let \<open>cw\<close> be the shards of a segment, and let
  every surviving holder that answers send its own shard. Then whatever else fails, times out or is
  retried, every upload frame that the executor sends, to whichever candidate, carries the job's chunk
  identifier, the lost shard's index and exactly the bytes of the lost shard.
\<close>

theorem repair_sends_lost_shard:
  assumes "NewEngine profile = Inr engine" and "TotalShards profile \<le> 255" and "EncodeSegment engine pkg = Inr cw"
    and "honest env holders cw" and "length (j_chunk_id job) = 32"
    and "(pid, frame) \<in> set (snd (snd (ExecuteRepairJob env profile engine job holders ex db)))"
  shows "\<exists>i<length cw. lookupShardIndexForChunk (env_ok env ExLookup) (j_chunk_id job) db = Inr i \<and>
           slice 4 36 frame = j_chunk_id job \<and> be_value (slice 36 40 frame) = i \<and> drop 112 frame = cw ! i"
  by (rule rs_engine.sent_original [OF rs_engine.intro [OF assms(1,2)] assms(3-6)])

lemma set_repairing_new:
  assumes "find_assignment db c pid = None"
  shows "set_repairing st c pid (db\<lparr>chunk_assignments := chunk_assignments db @ [repairing_row c seg i pid A_REPAIRING]\<rparr>) =
     db\<lparr>chunk_assignments := chunk_assignments db @ [repairing_row c seg i pid st]\<rparr>"
proof -
  have "update_where (\<lambda>a. a_chunk_id a = c \<and> a_provider_id a = pid \<and> a_status a = A_REPAIRING) (\<lambda>a. a\<lparr>a_status := st\<rparr>)
      (chunk_assignments db) = chunk_assignments db"
    using assms unfolding update_where_def find_assignment_def find_None_iff by (intro map_idI) auto
  then show ?thesis by (simp add: set_repairing_def update_where_def repairing_row_def)
qed

lemma mark_done_ok:
  assumes "env_ok env (ExMarkDone k)" and "List.find (\<lambda>r. job_id r = jid) (repair_jobs db) = Some j" and "started_at j \<noteq> None"
  shows "mark_done (Suc n) k env jid db =
     (None, db\<lparr>repair_jobs := update_where (\<lambda>r. job_id r = jid)
        (\<lambda>r. r\<lparr>j_status := COMPLETED, completed_at := Some (env_now env), failure_reason := None\<rparr>) (repair_jobs db)\<rparr>)"
  using assms by (auto simp: MarkJobComplete_def)

text \<open>
  C19: a repair completes. When in one of the three download attempts at least \<open>DataShards\<close> holders
  answer, a candidate is found, the slot is free and the candidate accepts the upload (or has the
  chunk already), then the job ends as completed and the database gains exactly one active assignment: the lost shard, with its
  chunk identifier, segment and index, now held by the candidate, which was sent that shard.
\<close>

theorem repair_completes:
  assumes "NewEngine profile = Inr engine" and "TotalShards profile \<le> 255" and "EncodeSegment engine pkg = Inr cw"
    and "honest env holders cw" and "attempt < 3" and "eng_DataShards engine \<le> answering env attempt holders"
    and "\<forall>s. env_ok env s"
    and "lookupShardIndexForChunk True (j_chunk_id job) db = Inr i" and "i < length cw"
    and "SelectReplacementProvider (\<lambda>s. True) (env_now env) (env_shuffle env 0) db profile (j_segment_id job) ex = Inr pid"
    and "find_assignment db (j_chunk_id job) pid = None" and "\<not> slot_taken db (j_segment_id job) i"
    and "env_upload env 0 (uuid_string pid) chunkUploadProtocolID (frame_for env job i (cw ! i) pid) = Some (be_bytes 4 (Suc (length rest)) @ st # rest)"
    and "st = uploadStatusOK \<or> st = uploadStatusAlreadyStored" and "Suc (length rest) < 2 ^ 32"
    and "List.find (\<lambda>r. job_id r = job_id job) (repair_jobs db) = Some j" and "started_at j \<noteq> None"
  shows "ExecuteRepairJob env profile engine job holders ex db =
     (None,
      db\<lparr>chunk_assignments := chunk_assignments db @
           [\<lparr>a_chunk_id = j_chunk_id job, is_vetting_chunk = False, a_segment_id = Some (j_segment_id job),
             shard_index = Some i, a_provider_id = pid, a_status = A_ACTIVE\<rparr>],
         repair_jobs := map (\<lambda>r. if job_id r = job_id job
           then r\<lparr>j_status := COMPLETED, completed_at := Some (env_now env), failure_reason := None\<rparr> else r) (repair_jobs db)\<rparr>,
      [(pid, frame_for env job i (cw ! i) pid)])"
proof -
  note eng = rs_engine.intro [OF assms(1,2)]
  have ok: "env_ok env = (\<lambda>_. True)" using assms(7) by (simp add: fun_eq_iff)
  have rec: "reconstruct_lost env profile engine job holders db = Inr (i, cw ! i)"
    using rs_engine.reconstruct_lost_spec(2) [OF eng assms(3,4), of attempt job db i] assms(5,6,8,9)
    by (simp add: ok repairDownloadRetries_def)
  let ?db1 = "db\<lparr>chunk_assignments := chunk_assignments db @ [repairing_row (j_chunk_id job) (j_segment_id job) i pid A_REPAIRING]\<rparr>"
  let ?db2 = "db\<lparr>chunk_assignments := chunk_assignments db @ [repairing_row (j_chunk_id job) (j_segment_id job) i pid A_ACTIVE]\<rparr>"
  have pre: "preRegisterChunkAssignment True (j_chunk_id job) (j_segment_id job) i pid db = (None, ?db1)"
    using assms(11,12) by (simp add: preRegisterChunkAssignment_def repairing_row_def)
  have frame: "read_frame (be_bytes 4 (Suc (length rest)) @ st # rest) = Some (st # rest)"
    using assms(15) by (simp add: read_frame_def lengthPrefixSize_def be_value_be_bytes)
  have up: "uploadShard (env_upload env 0) (uuid_string pid) (j_chunk_id job) i
      (mintCapabilityToken env (j_chunk_id job) pid capabilityTokenTTL) (cw ! i) = None"
    using assms(13,14) frame by (simp add: uploadShard_def frame_for_def)
  have rep: "replace_attempts maxRepairReplacementRetries 0 env profile job i (cw ! i) ex ErrReplacementUnreachable db =
      (Inr pid, ?db1, [(pid, frame_for env job i (cw ! i) pid)])"
    using assms(10) pre up by (simp add: maxRepairReplacementRetries_def numeral_3_eq_3 ok frame_for_def)
  have act: "activateChunkAssignment True (j_chunk_id job) pid ?db1 = (None, ?db2)"
    by (simp add: activateChunkAssignment_def set_repairing_new [OF assms(11)])
  have fin: "mark_done markCompleteFinalWriteRetries 0 env (job_id job) ?db2 =
     (None, ?db2\<lparr>repair_jobs := update_where (\<lambda>r. job_id r = job_id job)
        (\<lambda>r. r\<lparr>j_status := COMPLETED, completed_at := Some (env_now env), failure_reason := None\<rparr>) (repair_jobs db)\<rparr>)"
    using mark_done_ok [of env 0 "job_id job" ?db2 j 2] assms(16,17)
    by (simp add: ok markCompleteFinalWriteRetries_def numeral_3_eq_3 numeral_2_eq_2)
  show ?thesis
    using act fin by (simp add: ExecuteRepairJob_def rec rep ok repairing_row_def update_where_def)
qed

subsection \<open>A sample repair\<close>

lemma read_frame_bytes: "length body < 2 ^ 32 \<Longrightarrow> read_frame (be_bytes 4 (length body) @ body) = Some body"
  by (simp add: read_frame_def lengthPrefixSize_def be_value_be_bytes)

definition sample_holders :: "SurvivingHolder list" where
  "sample_holders = map (\<lambda>i. \<lparr>h_ProviderID = replicate 16 (word_of_nat i), h_PeerID = replicate i CHR ''x'', h_ShardIndex = i,
     h_ChunkID = replicate 32 (word_of_nat i)\<rparr>) [0..<3]"

text \<open>Peer \<open>x\<dots>x\<close> of length \<open>i\<close> holds shard \<open>i\<close>; every upload is answered with the status \<open>st\<close>.\<close>

definition sample_env :: "byte list list \<Rightarrow> byte \<Rightarrow> repair_env" where
  "sample_env cw st = \<lparr>env_sha = (\<lambda>x. x), env_sign = (\<lambda>k m. m), env_key = [], env_peer = ''ms'',
     env_download = (\<lambda>_ peer _ _. Some (be_bytes 4 (length (0 # cw ! length peer)) @ 0 # cw ! length peer)),
     env_upload = (\<lambda>_ _ _ _. Some (be_bytes 4 (Suc (length ([] :: byte list))) @ st # [])),
     env_shuffle = (\<lambda>_ _ rows. rows), env_ok = (\<lambda>_. True), env_now = 1, env_text = (\<lambda>_. ''failed'')\<rparr>"

definition sample_job :: job_row where
  "sample_job = \<lparr>job_id = [1], j_chunk_id = replicate 32 9, j_segment_id = replicate 16 5, j_provider_id = Some (replicate 16 8),
     trigger_type = TriggerSilentDeparture, priority = PriorityPermanentDeparture, available_shard_count = 4,
     j_status = IN_PROGRESS, created_at = 0, started_at = Some 0, completed_at = None, failure_reason = None\<rparr>"

definition sample_repair_db :: database where
  "sample_repair_db = empty_db\<lparr>providers := [candidate_row], repair_jobs := [sample_job],
     chunk_assignments := [repairing_row (replicate 32 9) (replicate 16 5) 3 (replicate 16 8) A_DELETED]\<rparr>"

lemma sample_download:
  assumes "length (cw ! length peer) = ShardSize"
  shows "downloadOneShard (sample_env cw st) (env_download (sample_env cw st) k) c peer = Inr (cw ! length peer)"
proof -
  have "read_frame (be_bytes 4 (length (0 # cw ! length peer)) @ 0 # cw ! length peer) = Some (0 # cw ! length peer)"
    by (rule read_frame_bytes) (simp add: assms ShardSize_def)
  then show ?thesis using assms by (simp add: downloadOneShard_def sample_env_def repairDownloadStatusOK_def)
qed

lemma sample_honest:
  assumes "length cw = 5" and "\<forall>i<length cw. length (cw ! i) = ShardSize"
  shows "honest (sample_env cw st) sample_holders cw" and "answering (sample_env cw st) k sample_holders = 3"
proof -
  have d: "downloadOneShard (sample_env cw st) (env_download (sample_env cw st) k) (h_ChunkID h) (h_PeerID h) = Inr (cw ! h_ShardIndex h)"
    if "h \<in> set sample_holders" for h k
    using sample_download [of cw "h_PeerID h" st k] assms that by (auto simp: sample_holders_def)
  have "distinct (map h_ShardIndex sample_holders)" "\<forall>h\<in>set sample_holders. h_ShardIndex h < 3"
    by (simp_all add: sample_holders_def comp_def)
  with d assms(1) show "honest (sample_env cw st) sample_holders cw" by (auto simp: honest_def)
  have "filter (\<lambda>h. \<exists>d. downloadOneShard (sample_env cw st) (env_download (sample_env cw st) k) (h_ChunkID h) (h_PeerID h) = Inr d)
      sample_holders = sample_holders"
    using d by (simp add: filter_id_conv)
  then show "answering (sample_env cw st) k sample_holders = 3" by (simp add: answering_def sample_holders_def)
qed

lemma sample_select:
  "SelectReplacementProvider (\<lambda>s. True) 1 (\<lambda>_ rows. rows) sample_repair_db DemoProfile (replicate 16 5) [] = Inr (replicate 16 4)"
  by (simp add: SelectReplacementProvider_def maxReplacementSelectionAttempts_def numeral_eq_Suc drawTwoActiveCandidates_def
      eligible_def candidate_row_def orderCandidatesByScoreDesc_def asnWithinCap_def asn_count_def repairing_row_def
      max_per_asn_def DemoProfile_def sample_repair_db_def)

lemma sample_lookup: "lookupShardIndexForChunk True (replicate 32 9) sample_repair_db = Inr 3"
  by (simp add: lookupShardIndexForChunk_def sample_repair_db_def repairing_row_def)

lemma sample_free: "find_assignment sample_repair_db (replicate 32 9) (replicate 16 4) = None"
  "\<not> slot_taken sample_repair_db (replicate 16 5) 3"
  by (simp_all add: find_assignment_def slot_taken_def sample_repair_db_def repairing_row_def)

lemma sample_codeword:
  obtains engine cw where "NewEngine DemoProfile = Inr engine" "eng_DataShards engine = 3"
    "EncodeSegment engine (replicate (3 * ShardSize) 7) = Inr cw" "length cw = 5" "\<forall>i<length cw. length (cw ! i) = ShardSize"
proof -
  obtain engine where e: "NewEngine DemoProfile = Inr engine" "eng_DataShards engine = 3" "eng_TotalShards engine = 5"
    using DemoProfile_engine by blast
  have small: "TotalShards DemoProfile \<le> 255" by (simp add: DemoProfile_def)
  from EncodeSegment_correct [of engine "replicate (3 * ShardSize) 7"] NewEngine_Inr [OF e(1) small] e(2) obtain cw where
    cw: "EncodeSegment engine (replicate (3 * ShardSize) 7) = Inr cw" by auto
  from rs_engine.encode_total(1,2) [OF rs_engine.intro [OF e(1) small] cw] e that cw show thesis by simp
qed

lemma sample_premises:
  "\<forall>s. env_ok (sample_env cw st) s"
  "lookupShardIndexForChunk True (j_chunk_id sample_job) sample_repair_db = Inr 3"
  "SelectReplacementProvider (\<lambda>s. True) (env_now (sample_env cw st)) (env_shuffle (sample_env cw st) 0) sample_repair_db
     DemoProfile (j_segment_id sample_job) [] = Inr (replicate 16 4)"
  "find_assignment sample_repair_db (j_chunk_id sample_job) (replicate 16 4) = None"
  "\<not> slot_taken sample_repair_db (j_segment_id sample_job) 3"
  "env_upload (sample_env cw st) 0 peer proto frame = Some (be_bytes 4 (Suc (length ([] :: byte list))) @ st # [])"
  "List.find (\<lambda>r. job_id r = job_id sample_job) (repair_jobs sample_repair_db) = Some sample_job"
  "started_at sample_job \<noteq> None"
  using sample_lookup sample_select sample_free by (simp_all add: sample_env_def sample_job_def sample_repair_db_def)

theorem repair_completes_witness:
  "\<exists>engine cw db' sent. NewEngine DemoProfile = Inr engine \<and> EncodeSegment engine (replicate (3 * ShardSize) 7) = Inr cw \<and>
     ExecuteRepairJob (sample_env cw 0) DemoProfile engine sample_job sample_holders [] sample_repair_db = (None, db', sent) \<and>
     map a_status (chunk_assignments db') = [A_DELETED, A_ACTIVE] \<and> map j_status (repair_jobs db') = [COMPLETED]"
proof -
  obtain engine cw where e: "NewEngine DemoProfile = Inr engine" "eng_DataShards engine = 3"
    and cw: "EncodeSegment engine (replicate (3 * ShardSize) 7) = Inr cw" "length cw = 5" "\<forall>i<length cw. length (cw ! i) = ShardSize"
    by (rule sample_codeword) blast
  have "TotalShards DemoProfile \<le> 255" "eng_DataShards engine \<le> answering (sample_env cw 0) 0 sample_holders" "3 < length cw"
    "(0 :: nat) < 3" "(0 :: byte) = uploadStatusOK \<or> (0 :: byte) = uploadStatusAlreadyStored" "Suc (length ([] :: byte list)) < 2 ^ 32"
    by (simp_all add: DemoProfile_def sample_honest(2) [OF cw(2,3)] e(2) cw(2) uploadStatusOK_def)
  note pre = this
  from repair_completes [OF e(1) pre(1) cw(1) sample_honest(1) [OF cw(2,3)] pre(4,2) sample_premises(1,2) pre(3)
      sample_premises(3-6) pre(5,6) sample_premises(7,8)]
  show ?thesis using e(1) cw(1)
    by (auto simp: sample_repair_db_def repairing_row_def sample_job_def intro!: exI [of _ engine] exI [of _ cw])
qed

theorem repair_sends_lost_shard_witness:
  "\<exists>engine cw pid frame. NewEngine DemoProfile = Inr engine \<and> EncodeSegment engine (replicate (3 * ShardSize) 7) = Inr cw \<and>
     snd (snd (ExecuteRepairJob (sample_env cw 0) DemoProfile engine sample_job sample_holders [] sample_repair_db)) = [(pid, frame)] \<and>
     drop 112 frame = cw ! 3"
proof -
  obtain engine cw where e: "NewEngine DemoProfile = Inr engine" "eng_DataShards engine = 3"
    and cw: "EncodeSegment engine (replicate (3 * ShardSize) 7) = Inr cw" "length cw = 5" "\<forall>i<length cw. length (cw ! i) = ShardSize"
    by (rule sample_codeword) blast
  have "TotalShards DemoProfile \<le> 255" "length (j_chunk_id sample_job) = 32" by (simp_all add: DemoProfile_def sample_job_def)
  note pre = this
  let ?run = "ExecuteRepairJob (sample_env cw 0) DemoProfile engine sample_job sample_holders [] sample_repair_db"
  have rec: "reconstruct_lost (sample_env cw 0) DemoProfile engine sample_job sample_holders sample_repair_db = Inr (3, cw ! 3)"
    using rs_engine.reconstruct_lost_spec(2) [OF rs_engine.intro [OF e(1) pre(1)] cw(1) sample_honest(1) [OF cw(2,3)], where j = 0 and job = sample_job and db = sample_repair_db and i = 3]
      sample_premises(1,2) e(2) cw(2) by (simp add: sample_honest(2) [OF cw(2,3)] repairDownloadRetries_def)
  have "\<exists>pid frame. snd (snd ?run) = [(pid, frame)]"
    unfolding ExecuteRepairJob_sent [OF rec] using sample_premises
    by (simp add: maxRepairReplacementRetries_def numeral_3_eq_3 preRegisterChunkAssignment_def uploadShard_def
        read_frame_def lengthPrefixSize_def be_value_be_bytes uploadStatusOK_def)
  then obtain pid frame where sent: "snd (snd ?run) = [(pid, frame)]" by blast
  then have mem: "(pid, frame) \<in> set (snd (snd ?run))" by simp
  from repair_sends_lost_shard [OF e(1) pre(1) cw(1) sample_honest(1) [OF cw(2,3)] pre(2) mem]
  have "drop 112 frame = cw ! 3" using sample_premises(1,2) by (auto simp: sample_premises(1))
  with e(1) cw(1) sent show ?thesis by blast
qed

subsection \<open>A rejected upload\<close>

lemma replace_attempts_blocked:
  assumes "slot_taken db (j_segment_id job) i" and "0 < n"
  shows "\<exists>e. replace_attempts n k env profile job i shard ex lastErr db = (Inl e, db, [])"
proof -
  obtain m where n: "n = Suc m" using assms(2) gr0_implies_Suc by blast
  show ?thesis unfolding n
    by (rule replace_attempts_cases [of m k env profile job i shard ex lastErr db])
       (use assms(1) in \<open>auto simp: preRegisterChunkAssignment_def simp del: replace_attempts.simps split: if_splits\<close>)
qed

lemma ExecuteRepairJob_blocked:
  assumes "slot_taken db (j_segment_id job) i" and "lookupShardIndexForChunk True (j_chunk_id job) db = Inr i"
  shows "fst (ExecuteRepairJob env profile engine job holders ex db) \<noteq> None \<and>
         snd (snd (ExecuteRepairJob env profile engine job holders ex db)) = [] \<and>
         chunk_assignments (fst (snd (ExecuteRepairJob env profile engine job holders ex db))) = chunk_assignments db"
proof (cases "reconstruct_lost env profile engine job holders db")
  case (Inl e)
  then show ?thesis
    by (simp add: ExecuteRepairJob_def fail_job_def MarkJobComplete_def Let_def split: option.split)
next
  case (Inr r)
  then have i: "fst r = i"
    using assms(2) by (auto simp: reconstruct_lost_def lookupShardIndexForChunk_def split: sum.splits if_splits)
  obtain e where "replace_attempts maxRepairReplacementRetries 0 env profile job i (snd r) ex ErrReplacementUnreachable db = (Inl e, db, [])"
    using replace_attempts_blocked [OF assms(1)] unfolding maxRepairReplacementRetries_def by (metis zero_less_numeral)
  with Inr i show ?thesis
    by (cases r) (simp add: ExecuteRepairJob_def fail_job_def MarkJobComplete_def Let_def split: option.split)
qed

text \<open>
  a rejected upload blocks the shard for good. When the chosen candidate answers with a status that is
  neither success nor \<^verbatim>\<open>STORAGE_FULL\<close>, the job fails and its assignment row stays in state
  \<^verbatim>\<open>REPAIRING\<close>; from then on every further repair job for that chunk fails without sending anything and without changing an
  assignment, however many holders answer and whichever candidates there are.
\<close>

theorem rejected_upload_blocks_shard:
  assumes "reconstruct_lost env profile engine job holders db = Inr (i, shard)" and "\<forall>s. env_ok env s"
    and "SelectReplacementProvider (\<lambda>s. True) (env_now env) (env_shuffle env 0) db profile (j_segment_id job) ex = Inr pid"
    and "find_assignment db (j_chunk_id job) pid = None" and "\<not> slot_taken db (j_segment_id job) i"
    and "env_upload env 0 (uuid_string pid) chunkUploadProtocolID (frame_for env job i shard pid) = Some (be_bytes 4 (Suc (length rest)) @ st # rest)"
    and "st \<notin> {uploadStatusOK, uploadStatusAlreadyStored, uploadStatusStorageFull}" and "Suc (length rest) < 2 ^ 32"
    and "j_chunk_id job' = j_chunk_id job" and "j_segment_id job' = j_segment_id job"
  shows "let (err, db', sent) = ExecuteRepairJob env profile engine job holders ex db;
             (err', db'', sent') = ExecuteRepairJob env' profile engine job' holders' ex' db'
         in err = Some (ErrResponseStatus st) \<and>
            chunk_assignments db' = chunk_assignments db @ [repairing_row (j_chunk_id job) (j_segment_id job) i pid A_REPAIRING] \<and>
            err' \<noteq> None \<and> sent' = [] \<and> chunk_assignments db'' = chunk_assignments db'"
proof -
  have ok: "env_ok env = (\<lambda>_. True)" using assms(2) by (simp add: fun_eq_iff)
  let ?row = "repairing_row (j_chunk_id job) (j_segment_id job) i pid A_REPAIRING"
  let ?db1 = "db\<lparr>chunk_assignments := chunk_assignments db @ [?row]\<rparr>"
  have frame: "read_frame (be_bytes 4 (Suc (length rest)) @ st # rest) = Some (st # rest)"
    using assms(8) by (simp add: read_frame_def lengthPrefixSize_def be_value_be_bytes)
  have up: "uploadShard (env_upload env 0) (uuid_string pid) (j_chunk_id job) i
      (mintCapabilityToken env (j_chunk_id job) pid capabilityTokenTTL) shard = Some (ErrResponseStatus st)"
    using assms(6,7) frame by (simp add: uploadShard_def frame_for_def)
  have pre: "preRegisterChunkAssignment True (j_chunk_id job) (j_segment_id job) i pid db = (None, ?db1)"
    using assms(4,5) by (simp add: preRegisterChunkAssignment_def repairing_row_def)
  have "replace_attempts maxRepairReplacementRetries 0 env profile job i shard ex ErrReplacementUnreachable db =
      (Inl (ErrResponseStatus st), ?db1, [(pid, frame_for env job i shard pid)])"
    using assms(3) pre up by (simp add: maxRepairReplacementRetries_def numeral_3_eq_3 ok frame_for_def)
  moreover obtain jobs where "snd (MarkJobComplete True (env_now env) (job_id job) False (env_text env (ErrResponseStatus st)) ?db1) =
      ?db1\<lparr>repair_jobs := jobs\<rparr>"
    using MarkJobComplete_frame by blast
  ultimately have run: "ExecuteRepairJob env profile engine job holders ex db =
      (Some (ErrResponseStatus st), ?db1\<lparr>repair_jobs := jobs\<rparr>, [(pid, frame_for env job i shard pid)])"
    using assms(1) by (simp add: ExecuteRepairJob_def fail_job_def ok)
  let ?db' = "?db1\<lparr>repair_jobs := jobs\<rparr>"
  have taken: "slot_taken ?db' (j_segment_id job') i" by (simp add: slot_taken_def repairing_row_def assms(10))
  have "lookupShardIndexForChunk True (j_chunk_id job) db = Inr i"
    using assms(1) by (auto simp: reconstruct_lost_def ok split: sum.splits if_splits)
  then have look: "lookupShardIndexForChunk True (j_chunk_id job') ?db' = Inr i"
    using find_snoc_old [of "\<lambda>a. a_chunk_id a = j_chunk_id job" "chunk_assignments db" _ "[?row]"]
    by (auto simp: lookupShardIndexForChunk_def assms(9) split: option.splits)
  show ?thesis
    using run ExecuteRepairJob_blocked [OF taken look, of env' profile engine holders' ex'] by (simp add: split_beta)
qed

theorem rejected_upload_blocks_shard_witness:
  "\<exists>engine cw. NewEngine DemoProfile = Inr engine \<and>
     (let (err, db', sent) = ExecuteRepairJob (sample_env cw 3) DemoProfile engine sample_job sample_holders [] sample_repair_db
      in err = Some (ErrResponseStatus 3) \<and>
         fst (ExecuteRepairJob (sample_env cw 0) DemoProfile engine sample_job sample_holders [] db') \<noteq> None)"
proof -
  obtain engine cw where e: "NewEngine DemoProfile = Inr engine" "eng_DataShards engine = 3"
    and cw: "EncodeSegment engine (replicate (3 * ShardSize) 7) = Inr cw" "length cw = 5" "\<forall>i<length cw. length (cw ! i) = ShardSize"
    by (rule sample_codeword) blast
  have small: "TotalShards DemoProfile \<le> 255" by (simp add: DemoProfile_def)
  have rec: "reconstruct_lost (sample_env cw 3) DemoProfile engine sample_job sample_holders sample_repair_db = Inr (3, cw ! 3)"
    using rs_engine.reconstruct_lost_spec(2) [OF rs_engine.intro [OF e(1) small] cw(1) sample_honest(1) [OF cw(2,3)],
        where j = 0 and job = sample_job and db = sample_repair_db and i = 3]
      sample_premises(1,2) e(2) cw(2) by (simp add: sample_honest(2) [OF cw(2,3)] repairDownloadRetries_def)
  have "(3 :: byte) \<notin> {uploadStatusOK, uploadStatusAlreadyStored, uploadStatusStorageFull}" "Suc (length ([] :: byte list)) < 2 ^ 32"
    by (simp_all add: uploadStatusOK_def uploadStatusAlreadyStored_def uploadStatusStorageFull_def)
  note st = this
  from rejected_upload_blocks_shard [OF rec sample_premises(1,3-6) st refl refl, of "sample_env cw 0" sample_holders "[]"] e(1)
  show ?thesis by (auto simp: split_beta Let_def intro!: exI [of _ engine] exI [of _ cw])
qed

end
