(* ===== verification/Secrets.thy ===== *)
theory Secrets
  imports Database
begin

text \<open>
  The cluster secrets of the audit service: \<^verbatim>\<open>internal/audit/secret.go\<close> (the versioned cache with its
  time to live and rotation overlap), the secrets-manager clients of \<^verbatim>\<open>cmd/microservice/secrets_client.go\<close>
  and the refresh loop of \<^verbatim>\<open>cmd/microservice/cluster_secret_refresh_loop.go\<close>. A client is the function
  from paths to secrets that it computes during one call of \<^verbatim>\<open>Load\<close>; successive calls may see
  different functions. The clock is read once per call. A version is a byte, and \<^verbatim>\<open>base + 1\<close> wraps.
\<close>

datatype secret_error =
  ErrSecretNotFound | ErrSecretManagerUnavailable | ErrSecretExpired | ErrNotLoaded | ErrScanExhausted

type_synonym get_secret = "string \<Rightarrow> secret_error + byte list"

definition clusterSecretCacheTTL :: duration where "clusterSecretCacheTTL = 5 * minute"
definition rotationOverlapWindow :: duration where "rotationOverlapWindow = 24 * hour"
definition secretPathPrefix :: string where "secretPathPrefix = ''/vyomanaut/audit-secret/v''"
definition secretScanUpperBound :: nat where "secretScanUpperBound = 32"

text \<open>The verb \<^verbatim>\<open>%d\<close> of \<^verbatim>\<open>fmt.Sprintf\<close> on a natural number.\<close>

fun decimal :: "nat \<Rightarrow> string" where
  "decimal n = (if n < 10 then [hex_digit n] else decimal (n div 10) @ [hex_digit (n mod 10)])"

declare decimal.simps [simp del]

definition secretPath :: "byte \<Rightarrow> string" where
  "secretPath versionByte = secretPathPrefix @ decimal (unat versionByte)"

subsection \<open>The cache\<close>

record ClusterSecretCache =
  currentVersion :: byte
  currentSecret :: "byte list"
  previousVersion :: byte
  previousSecret :: "byte list"
  overlapExpiresAt :: time
  lastLoadedAt :: time

definition NewClusterSecretCache :: ClusterSecretCache where
  "NewClusterSecretCache = \<lparr>currentVersion = 0, currentSecret = [], previousVersion = 0, previousSecret = [],
     overlapExpiresAt = 0, lastLoadedAt = 0\<rparr>"

text \<open>The loop of \<^verbatim>\<open>scanForwardFromPrunedVersion\<close>: \<open>n\<close> iterations are left.\<close>

primrec scan_loop :: "get_secret \<Rightarrow> nat \<Rightarrow> byte \<Rightarrow> secret_error + (byte \<times> byte list)" where
  "scan_loop GetSecret 0 v = Inl ErrScanExhausted"
| "scan_loop GetSecret (Suc n) v =
     (if v = 255 then Inl ErrScanExhausted
      else case GetSecret (secretPath (v + 1)) of
        Inr s \<Rightarrow> Inr (v + 1, s)
      | Inl e \<Rightarrow> if e \<noteq> ErrSecretNotFound then Inl e else scan_loop GetSecret n (v + 1))"

definition scanForwardFromPrunedVersion :: "get_secret \<Rightarrow> byte \<Rightarrow> secret_error + (byte \<times> byte list)" where
  "scanForwardFromPrunedVersion GetSecret prunedBase = scan_loop GetSecret secretScanUpperBound prunedBase"

definition load_base :: "get_secret \<Rightarrow> byte \<Rightarrow> secret_error + (byte \<times> byte list)" where
  "load_base GetSecret base =
     (case GetSecret (secretPath base) of
        Inr s \<Rightarrow> Inr (base, s)
      | Inl e \<Rightarrow> if e = ErrSecretNotFound then scanForwardFromPrunedVersion GetSecret base else Inl e)"

definition load_commit ::
  "time \<Rightarrow> byte \<Rightarrow> byte list \<Rightarrow> byte list option \<Rightarrow> ClusterSecretCache \<Rightarrow> ClusterSecretCache" where
  "load_commit now base baseSecret nextSecret c =
     (case nextSecret of
        Some s \<Rightarrow>
          (if currentVersion c \<noteq> base + 1
           then c\<lparr>previousVersion := base, previousSecret := baseSecret,
                  overlapExpiresAt := now + rotationOverlapWindow\<rparr>
           else c)\<lparr>currentVersion := base + 1, currentSecret := s, lastLoadedAt := now\<rparr>
      | None \<Rightarrow> c\<lparr>currentVersion := base, currentSecret := baseSecret, lastLoadedAt := now\<rparr>)"

definition Load :: "get_secret \<Rightarrow> time \<Rightarrow> ClusterSecretCache \<Rightarrow> secret_error option \<times> ClusterSecretCache" where
  "Load GetSecret now c =
     (let base = (if currentVersion c = 0 then 1 else currentVersion c)
      in case load_base GetSecret base of
           Inl e \<Rightarrow> (Some e, c)
         | Inr (base, baseSecret) \<Rightarrow>
             (case GetSecret (secretPath (base + 1)) of
                Inr s \<Rightarrow> (None, load_commit now base baseSecret (Some s) c)
              | Inl e \<Rightarrow>
                  if e = ErrSecretNotFound then (None, load_commit now base baseSecret None c)
                  else (Some e, c)))"

definition CurrentSecret :: "time \<Rightarrow> ClusterSecretCache \<Rightarrow> secret_error + (byte list \<times> byte)" where
  "CurrentSecret now c =
     (if currentVersion c = 0 then Inl ErrNotLoaded
      else if now - lastLoadedAt c > clusterSecretCacheTTL then Inl ErrSecretExpired
      else Inr (currentSecret c, currentVersion c))"

definition IsLoaded :: "ClusterSecretCache \<Rightarrow> bool" where
  "IsLoaded c \<longleftrightarrow> currentVersion c \<noteq> 0"

definition IsVersionValid :: "time \<Rightarrow> ClusterSecretCache \<Rightarrow> byte \<Rightarrow> bool" where
  "IsVersionValid now c versionByte \<longleftrightarrow>
     (if versionByte \<noteq> 0 \<and> versionByte = currentVersion c then True
      else if versionByte \<noteq> 0 \<and> versionByte = previousVersion c \<and> now < overlapExpiresAt c then True
      else False)"

definition SecretForVersion :: "time \<Rightarrow> ClusterSecretCache \<Rightarrow> byte \<Rightarrow> secret_error + byte list" where
  "SecretForVersion now c versionByte =
     (if versionByte \<noteq> 0 \<and> versionByte = currentVersion c then Inr (currentSecret c)
      else if versionByte \<noteq> 0 \<and> versionByte = previousVersion c \<and> now < overlapExpiresAt c
      then Inr (previousSecret c)
      else Inl ErrSecretNotFound)"

subsection \<open>The refresh loop and the clients\<close>

definition clusterSecretRefreshInterval :: duration where "clusterSecretRefreshInterval = 2 * minute"

text \<open>Each tick of the loop runs one \<^verbatim>\<open>Load\<close>; its error is only logged.\<close>

primrec runClusterSecretRefreshLoop ::
  "(get_secret \<times> time) list \<Rightarrow> ClusterSecretCache \<Rightarrow> ClusterSecretCache" where
  "runClusterSecretRefreshLoop [] c = c"
| "runClusterSecretRefreshLoop (tick # ticks) c =
     runClusterSecretRefreshLoop ticks (snd (Load (fst tick) (snd tick) c))"

definition clusterMasterSeedEnvVar :: string where "clusterMasterSeedEnvVar = ''VYOMANAUT_CLUSTER_MASTER_SEED''"

datatype seed_error = SeedNotSet | SeedNotBase64 | SeedWrongLength nat

definition newEnvSecretsClient ::
  "(string \<Rightarrow> byte list option) \<Rightarrow> environment \<Rightarrow> seed_error + byte list" where
  "newEnvSecretsClient base64_decode env =
     (let raw = env clusterMasterSeedEnvVar
      in if raw = [] then Inl SeedNotSet
         else case base64_decode raw of
           None \<Rightarrow> Inl SeedNotBase64
         | Some decoded \<Rightarrow> if length decoded \<noteq> 32 then Inl (SeedWrongLength (length decoded)) else Inr decoded)"

definition env_GetSecret :: "byte list \<Rightarrow> get_secret" where
  "env_GetSecret secret path =
     (if path \<noteq> ''/vyomanaut/audit-secret/v1'' then Inl ErrSecretNotFound else Inr secret)"

definition notImplemented_GetSecret :: get_secret where
  "notImplemented_GetSecret path = Inl ErrSecretManagerUnavailable"

definition newSecretsClientForProfile ::
  "(string \<Rightarrow> byte list option) \<Rightarrow> environment \<Rightarrow> bool \<Rightarrow> seed_error + get_secret" where
  "newSecretsClientForProfile base64_decode env requireSecretsManager =
     (if requireSecretsManager then Inr notImplemented_GetSecret
      else map_sum id env_GetSecret (newEnvSecretsClient base64_decode env))"

subsection \<open>Lemmas\<close>

definition read_decimal :: "string \<Rightarrow> nat" where
  "read_decimal = foldl (\<lambda>n c. 10 * n + (of_char c - 48)) 0"

lemma read_decimal: "read_decimal (decimal n) = n"
  by (induction n rule: decimal.induct)
    (subst decimal.simps, simp add: read_decimal_def of_char_hex_digit)

lemma secretPath_inj: "secretPath v = secretPath w \<longleftrightarrow> v = w"
proof
  assume "secretPath v = secretPath w"
  then have "read_decimal (decimal (unat v)) = read_decimal (decimal (unat w))" by (simp add: secretPath_def)
  then show "v = w" unfolding read_decimal by (rule unsigned_word_eqI)
qed simp

lemma next_version_zero: "v + 1 = 0 \<longleftrightarrow> v = 255" for v :: byte
proof -
  have "v + 1 = 0 \<longleftrightarrow> v = - 1" by (metis add.commute add_eq_0_iff minus_minus)
  moreover have "(- 1 :: byte) = 255" by simp
  ultimately show ?thesis by (simp only:)
qed

lemma unat_next_version: "v \<noteq> 255 \<Longrightarrow> unat (v + 1) = unat v + 1" for v :: byte
  using unatSuc [of v] next_version_zero [of v] by (simp add: add.commute)

lemma scan_loop_found:
  "scan_loop g n v = Inr (w, s) \<Longrightarrow> g (secretPath w) = Inr s \<and> unat v < unat w"
proof (induction n arbitrary: v)
  case 0
  then show ?case by simp
next
  case (Suc n)
  then have v: "v \<noteq> 255" by auto
  then have "unat (v + 1) = unat v + 1" by (rule unat_next_version)
  with Suc.prems v Suc.IH [of "v + 1"] show ?case by (auto split: sum.splits if_splits)
qed

lemma load_base_found: "load_base g b = Inr (w, s) \<Longrightarrow> g (secretPath w) = Inr s"
  by (auto simp: load_base_def scanForwardFromPrunedVersion_def scan_loop_found split: sum.splits if_splits)

lemma Load_error: "Load g now c = (Some e, c') \<Longrightarrow> c' = c"
  by (auto simp: Load_def Let_def split: sum.splits if_splits)

lemma Load_ok:
  assumes "Load g now c = (None, c')"
  shows "lastLoadedAt c' = now" and "g (secretPath (currentVersion c')) = Inr (currentSecret c')"
  using assms by (auto simp: Load_def Let_def load_commit_def load_base_found split: sum.splits if_splits)

lemma refresh_append:
  "runClusterSecretRefreshLoop (ticks @ [tick]) c =
     snd (Load (fst tick) (snd tick) (runClusterSecretRefreshLoop ticks c))"
  by (induction ticks arbitrary: c) simp_all

text \<open>The state of the cache stems from the last successful fetch.\<close>

lemma cache_provenance:
  assumes "currentVersion (runClusterSecretRefreshLoop ticks NewClusterSecretCache) \<noteq> 0"
  shows "\<exists>i<length ticks. \<exists>g. ticks ! i =
      (g, lastLoadedAt (runClusterSecretRefreshLoop ticks NewClusterSecretCache)) \<and>
      g (secretPath (currentVersion (runClusterSecretRefreshLoop ticks NewClusterSecretCache))) =
        Inr (currentSecret (runClusterSecretRefreshLoop ticks NewClusterSecretCache))"
  using assms
proof (induction ticks rule: rev_induct)
  case Nil
  then show ?case by (simp add: NewClusterSecretCache_def)
next
  case (snoc tick ticks)
  let ?c = "runClusterSecretRefreshLoop ticks NewClusterSecretCache"
  obtain r c' where load: "Load (fst tick) (snd tick) ?c = (r, c')" by (cases "Load (fst tick) (snd tick) ?c")
  then have run: "runClusterSecretRefreshLoop (ticks @ [tick]) NewClusterSecretCache = c'"
    by (simp add: refresh_append)
  show ?case
  proof (cases r)
    case None
    with Load_ok [of "fst tick" "snd tick" ?c c'] load show ?thesis
      unfolding run by (intro exI [of _ "length ticks"]) (cases tick, auto)
  next
    case (Some e)
    with load have "c' = ?c" by (simp add: Load_error)
    with run snoc show ?thesis by (auto simp: nth_append less_Suc_eq)
  qed
qed

subsection \<open>A replica that lags behind\<close>

abbreviation serves :: "get_secret \<Rightarrow> nat \<Rightarrow> nat \<Rightarrow> (byte \<Rightarrow> byte list) \<Rightarrow> bool" where
  "serves g lo hi sec \<equiv>
     (\<forall>v. g (secretPath v) = (if lo \<le> unat v \<and> unat v \<le> hi then Inr (sec v) else Inl ErrSecretNotFound))"

lemma scan_loop_reaches:
  assumes "serves g lo hi sec" and "unat v < lo" and "lo \<le> hi" and "hi \<le> 255" and "lo \<le> unat v + n"
  shows "\<exists>w. scan_loop g n v = Inr (w, sec w) \<and> unat w = lo"
  using assms(2,5)
proof (induction n arbitrary: v)
  case 0
  then show ?case by simp
next
  case (Suc n)
  then have v: "v \<noteq> 255" using assms(3,4) by auto
  then have next_v: "unat (v + 1) = unat v + 1" by (rule unat_next_version)
  show ?case
  proof (cases "unat (v + 1) < lo")
    case True
    with Suc.prems next_v have "\<exists>w. scan_loop g n (v + 1) = Inr (w, sec w) \<and> unat w = lo"
      by (intro Suc.IH) auto
    with v True assms(1) show ?thesis by simp
  next
    case False
    with Suc.prems next_v have "unat (v + 1) = lo" by simp
    with v assms(1,3) show ?thesis by (intro exI [of _ "v + 1"]) simp
  qed
qed

text \<open>The version a call starts from.\<close>

abbreviation base_version :: "ClusterSecretCache \<Rightarrow> byte" where
  "base_version c \<equiv> (if currentVersion c = 0 then 1 else currentVersion c)"

lemma load_base_serves:
  assumes "serves g lo hi sec" and "lo \<le> hi" and "hi \<le> 255" and "unat b \<le> hi" and "lo \<le> unat b + 32"
  shows "\<exists>w. load_base g b = Inr (w, sec w) \<and> unat w = max (unat b) lo"
proof (cases "lo \<le> unat b")
  case True
  with assms show ?thesis by (intro exI [of _ b]) (simp add: load_base_def)
next
  case False
  with assms scan_loop_reaches [OF assms(1) _ assms(2,3), of b 32] show ?thesis
    by (auto simp: load_base_def scanForwardFromPrunedVersion_def secretScanUpperBound_def max_def)
qed

lemma Load_serves:
  assumes "serves g lo hi sec" and "1 \<le> lo" and "lo \<le> hi" and "hi \<le> 255"
    and "unat (base_version c) \<le> hi" and "lo \<le> unat (base_version c) + 32"
  shows "fst (Load g now c) = None" and "lastLoadedAt (snd (Load g now c)) = now"
    and "unat (currentVersion (snd (Load g now c))) = min hi (max (unat (base_version c)) lo + 1)"
proof -
  obtain w where w: "load_base g (base_version c) = Inr (w, sec w)" "unat w = max (unat (base_version c)) lo"
    using load_base_serves [OF assms(1,3,4,5,6)] by blast
  have "w = 255 \<Longrightarrow> g (secretPath (w + 1)) = Inl ErrSecretNotFound" using assms(1,2) by simp
  moreover have "w \<noteq> 255 \<Longrightarrow> unat (w + 1) = unat w + 1" by (rule unat_next_version)
  ultimately show "fst (Load g now c) = None" "lastLoadedAt (snd (Load g now c)) = now"
    "unat (currentVersion (snd (Load g now c))) = min hi (max (unat (base_version c)) lo + 1)"
    using w assms by (cases "w = 255"; auto simp: Load_def Let_def load_commit_def min_def)+
qed

subsection \<open>The rotation overlap\<close>

text \<open>What the manager may answer while \<open>v\<close> is being superseded: \<open>v\<close> is kept, no version but \<open>v\<close> and \<open>v + 1\<close> exists.\<close>

definition rotating :: "byte \<Rightarrow> byte list \<Rightarrow> get_secret \<Rightarrow> bool" where
  "rotating v s g \<longleftrightarrow> g (secretPath v) \<in> {Inr s, Inl ErrSecretManagerUnavailable} \<and>
     (\<forall>w. w \<noteq> v \<longrightarrow> w \<noteq> v + 1 \<longrightarrow> isl (g (secretPath w)))"

definition overlap_inv :: "byte \<Rightarrow> byte list \<Rightarrow> time \<Rightarrow> ClusterSecretCache \<Rightarrow> bool" where
  "overlap_inv v s t0 c \<longleftrightarrow>
     currentVersion c = v \<and> currentSecret c = s \<or>
     currentVersion c = v + 1 \<and> previousVersion c = v \<and> previousSecret c = s \<and>
       t0 + rotationOverlapWindow \<le> overlapExpiresAt c"

lemma overlap_inv_valid:
  assumes "overlap_inv v s t0 c" and "v \<noteq> 0" and "t < t0 + rotationOverlapWindow"
  shows "IsVersionValid t c v \<and> SecretForVersion t c v = Inr s"
proof (cases "currentVersion c = v \<and> currentSecret c = s")
  case True
  with assms(2) show ?thesis by (simp add: IsVersionValid_def SecretForVersion_def)
next
  case False
  with assms(1) have "currentVersion c = v + 1" "previousVersion c = v" "previousSecret c = s"
    "t0 + rotationOverlapWindow \<le> overlapExpiresAt c"
    by (auto simp: overlap_inv_def)
  with assms(2,3) show ?thesis by (simp add: IsVersionValid_def SecretForVersion_def)
qed

lemma scan_past_rotation:
  assumes "rotating v s g" and "v \<noteq> 255"
  shows "isl (scan_loop g n (v + 1))"
proof (cases "scan_loop g n (v + 1)")
  case (Inr r)
  then obtain w x where r: "scan_loop g n (v + 1) = Inr (w, x)" by (cases r) auto
  then have "g (secretPath w) = Inr x" "unat (v + 1) < unat w" by (simp_all add: scan_loop_found)
  moreover from this have "w \<noteq> v" "w \<noteq> v + 1" using unat_next_version [OF assms(2)] by auto
  ultimately show ?thesis using assms(1) by (metis rotating_def sum.disc(2))
qed simp

lemma Load_stays:
  assumes "currentVersion c = w" and "w \<noteq> 0" and "isl (scan_loop g secretScanUpperBound w)"
    and "isl (g (secretPath (w + 1)))"
  shows "\<exists>x t. snd (Load g now c) = c\<lparr>currentVersion := w, currentSecret := x, lastLoadedAt := t\<rparr>"
proof -
  have same: "\<exists>x t. c = c\<lparr>currentSecret := x, lastLoadedAt := t\<rparr>"
    by (intro exI [of _ "currentSecret c"] exI [of _ "lastLoadedAt c"]) simp
  from assms show ?thesis
    by (cases "g (secretPath w)"; cases "g (secretPath (w + 1))"; cases "scan_loop g secretScanUpperBound w")
      (auto simp: Load_def Let_def load_base_def scanForwardFromPrunedVersion_def load_commit_def same)
qed

lemma overlap_Load:
  assumes "overlap_inv v s t0 c" and "rotating v s g" and "t0 \<le> now" and "v \<noteq> 0" and "v \<noteq> 255"
  shows "overlap_inv v s t0 (snd (Load g now c))"
proof (cases "currentVersion c = v \<and> currentSecret c = s")
  case True
  from assms(2) consider "g (secretPath v) = Inr s" | "g (secretPath v) = Inl ErrSecretManagerUnavailable"
    by (auto simp: rotating_def)
  then show ?thesis
    using True assms(3,4)
    by cases (auto simp: Load_def load_base_def load_commit_def overlap_inv_def split: sum.splits)
next
  case False
  with assms(1) have c: "currentVersion c = v + 1" "previousVersion c = v" "previousSecret c = s"
    "t0 + rotationOverlapWindow \<le> overlapExpiresAt c"
    by (auto simp: overlap_inv_def)
  have "v + 1 + 1 \<noteq> v" "v + 1 + 1 \<noteq> v + 1" by (simp_all add: add.assoc)
  then have "isl (g (secretPath (v + 1 + 1)))" using assms(2) unfolding rotating_def by blast
  then obtain x t where "snd (Load g now c) = c\<lparr>currentVersion := v + 1, currentSecret := x, lastLoadedAt := t\<rparr>"
    using Load_stays [OF c(1) _ scan_past_rotation [OF assms(2,5)], of now] assms(5) next_version_zero [of v] by metis
  with c show ?thesis by (simp add: overlap_inv_def)
qed

lemma overlap_refresh:
  assumes "overlap_inv v s t0 c" and "\<forall>(g, t) \<in> set ticks. rotating v s g \<and> t0 \<le> t" and "v \<noteq> 0" and "v \<noteq> 255"
  shows "overlap_inv v s t0 (runClusterSecretRefreshLoop ticks c)"
  using assms(1,2)
proof (induction ticks arbitrary: c)
  case Nil
  then show ?case by simp
next
  case (Cons tick ticks)
  have "overlap_inv v s t0 (snd (Load (fst tick) (snd tick) c))"
    using Cons.prems assms(3,4) by (intro overlap_Load) (auto simp: case_prod_beta)
  with Cons show ?case by simp
qed

subsection \<open>What the rest of the service relies on\<close>

definition cache_wf :: "ClusterSecretCache \<Rightarrow> bool" where
  "cache_wf c \<longleftrightarrow> (currentVersion c \<noteq> 0 \<longrightarrow> length (currentSecret c) = 32) \<and>
     (previousVersion c \<noteq> 0 \<longrightarrow> length (previousSecret c) = 32)"

lemma cache_wf_new: "cache_wf NewClusterSecretCache"
  by (simp add: cache_wf_def NewClusterSecretCache_def)

text \<open>The contract of a secrets-manager client, over the handles \<open>valid\<close> ranges over.\<close>

locale secrets_manager =
  fixes client :: "'m \<Rightarrow> get_secret" and valid :: "'m \<Rightarrow> bool"
  assumes secret_size: "valid m \<Longrightarrow> client m path = Inr s \<Longrightarrow> length s = 32"
begin

lemma load_wf: "valid m \<Longrightarrow> cache_wf c \<Longrightarrow> cache_wf (snd (Load (client m) now c))"
  by (auto simp: cache_wf_def Load_def Let_def load_commit_def secret_size load_base_found
      split: sum.splits if_splits dest!: load_base_found)

lemma refresh_wf:
  "\<forall>(m, t) \<in> set ticks. valid m \<Longrightarrow> cache_wf c \<Longrightarrow>
     cache_wf (runClusterSecretRefreshLoop (map (\<lambda>(m, t). (client m, t)) ticks) c)"
proof (induction ticks arbitrary: c)
  case Nil
  then show ?case by simp
next
  case (Cons tick ticks)
  obtain m t where "tick = (m, t)" by (cases tick)
  with Cons.prems Cons.IH [OF _ load_wf, of m c t] show ?case by simp
qed

lemma current_secret_usable:
  assumes "\<forall>(m, t) \<in> set ticks. valid m"
    and "CurrentSecret now (runClusterSecretRefreshLoop (map (\<lambda>(m, t). (client m, t)) ticks) NewClusterSecretCache) =
           Inr (s, v)"
  shows "length s = 32 \<and> v \<noteq> 0"
  using refresh_wf [OF assms(1) cache_wf_new] assms(2)
  by (auto simp: CurrentSecret_def cache_wf_def split: if_splits)

end

interpretation env_client: secrets_manager env_GetSecret "\<lambda>secret. length secret = 32"
  by unfold_locales (simp add: env_GetSecret_def split: if_splits)

interpretation missing_client: secrets_manager "\<lambda>_::unit. notImplemented_GetSecret" "\<lambda>_. True"
  by unfold_locales (simp add: notImplemented_GetSecret_def)

lemma newEnvSecretsClient_size: "newEnvSecretsClient dec env = Inr secret \<Longrightarrow> length secret = 32"
  by (auto simp: newEnvSecretsClient_def Let_def split: if_splits option.splits)

subsection \<open>Properties\<close>

text \<open>
  C20: a challenge secret is handed out only while it is fresh: whatever the secrets manager answered during the
  refreshes so far, a secret returned by \<^verbatim>\<open>CurrentSecret\<close> was served by the manager, under the returned version, at a refresh
  at most five minutes old; without such a refresh the call fails.
\<close>

theorem current_secret_fresh:
  assumes "CurrentSecret now (runClusterSecretRefreshLoop ticks NewClusterSecretCache) = Inr (s, v)"
  shows "v \<noteq> 0 \<and> (\<exists>i<length ticks. fst (ticks ! i) (secretPath v) = Inr s \<and>
           now - snd (ticks ! i) \<le> clusterSecretCacheTTL)"
proof -
  let ?c = "runClusterSecretRefreshLoop ticks NewClusterSecretCache"
  from assms have c: "currentVersion ?c = v" "v \<noteq> 0" "currentSecret ?c = s"
    "now - lastLoadedAt ?c \<le> clusterSecretCacheTTL"
    by (auto simp: CurrentSecret_def split: if_splits)
  then obtain i g where "i < length ticks" "ticks ! i = (g, lastLoadedAt ?c)" "g (secretPath v) = Inr s"
    using cache_provenance [of ticks] by auto
  with c show ?thesis by auto
qed

definition sample_secret :: "byte \<Rightarrow> byte list" where "sample_secret v = replicate 32 v"

definition sample_manager :: "nat \<Rightarrow> nat \<Rightarrow> get_secret" where
  "sample_manager lo hi path =
     (case List.find (\<lambda>n. path = secretPath (word_of_nat n)) [lo..<Suc hi] of
        Some n \<Rightarrow> Inr (sample_secret (word_of_nat n)) | None \<Rightarrow> Inl ErrSecretNotFound)"

lemma sample_manager_serves:
  assumes "hi \<le> 255"
  shows "serves (sample_manager lo hi) lo hi sample_secret"
proof
  fix v :: byte
  have eq: "secretPath v = secretPath (word_of_nat n) \<longleftrightarrow> n = unat v" if "n \<le> hi" for n
  proof -
    have "unat (word_of_nat n :: byte) = n" using that assms by (simp add: unat_word_of_nat_byte)
    then show ?thesis by (auto simp: secretPath_inj)
  qed
  have find: "List.find (\<lambda>n. secretPath v = secretPath (word_of_nat n)) [lo..<Suc hi] =
      (if lo \<le> unat v \<and> unat v \<le> hi then Some (unat v) else None)"
  proof (cases "List.find (\<lambda>n. secretPath v = secretPath (word_of_nat n)) [lo..<Suc hi]")
    case None
    then have "\<forall>n. lo \<le> n \<and> n \<le> hi \<longrightarrow> n \<noteq> unat v" by (auto simp: find_None_iff)
    with None show ?thesis by auto
  next
    case (Some n)
    then obtain i where i: "i < Suc hi - lo" "n = [lo..<Suc hi] ! i" "secretPath v = secretPath (word_of_nat n)"
      by (auto simp: find_Some_iff simp del: upt_Suc)
    then have "n \<le> hi" "lo \<le> n" by (simp_all del: upt_Suc)
    with i eq Some show ?thesis by simp
  qed
  show "sample_manager lo hi (secretPath v) =
      (if lo \<le> unat v \<and> unat v \<le> hi then Inr (sample_secret v) else Inl ErrSecretNotFound)"
    unfolding sample_manager_def find by simp
qed

theorem current_secret_fresh_witness:
  "\<exists>i<Suc 0. fst ([(env_GetSecret (replicate 32 7), 0)] ! i) (secretPath 1) = Inr (replicate 32 7) \<and>
     4 * minute - snd ([(env_GetSecret (replicate 32 7), 0)] ! i) \<le> clusterSecretCacheTTL"
proof -
  have "CurrentSecret (4 * minute)
      (runClusterSecretRefreshLoop [(env_GetSecret (replicate 32 7), 0)] NewClusterSecretCache) =
      Inr (replicate 32 7, 1)"
    by code_simp
  from current_secret_fresh [OF this] show ?thesis by auto
qed

text \<open>
  during the rotation overlap the superseded secret stays usable: a version that was current at time
  \<open>t0\<close> is accepted, with its secret, for 24 hours, over any number of refreshes and outages of the manager,
  as long as the manager keeps that version and rotates at most once.
\<close>

theorem rotation_overlap:
  assumes "CurrentSecret t0 c = Inr (s, v)" and "v \<noteq> 255"
    and "\<forall>(g, t) \<in> set ticks. rotating v s g \<and> t0 \<le> t" and "t < t0 + rotationOverlapWindow"
  shows "IsVersionValid t (runClusterSecretRefreshLoop ticks c) v \<and>
         SecretForVersion t (runClusterSecretRefreshLoop ticks c) v = Inr s"
proof -
  from assms(1) have "overlap_inv v s t0 c" and v: "v \<noteq> 0"
    by (auto simp: CurrentSecret_def overlap_inv_def split: if_splits)
  then have "overlap_inv v s t0 (runClusterSecretRefreshLoop ticks c)"
    using assms(2,3) by (intro overlap_refresh) auto
  then show ?thesis using v assms(4) by (rule overlap_inv_valid)
qed

lemma sample_rotating:
  assumes "hi \<in> {1, 2}"
  shows "rotating 1 (sample_secret 1) (sample_manager 1 hi)"
proof -
  have serves: "serves (sample_manager 1 hi) 1 hi sample_secret" using assms by (intro sample_manager_serves) auto
  have other: "\<not> (1 \<le> unat w \<and> unat w \<le> hi)" if "w \<noteq> 1" "w \<noteq> 1 + 1" for w :: byte
  proof
    assume "1 \<le> unat w \<and> unat w \<le> hi"
    with assms have "unat w = unat (1 :: byte) \<or> unat w = unat (1 + 1 :: byte)" by auto
    with that show False by (metis unsigned_word_eqI)
  qed
  from serves assms other show ?thesis unfolding rotating_def by auto
qed

theorem rotation_overlap_witness:
  "let c = runClusterSecretRefreshLoop
        [(sample_manager 1 1, 0), (\<lambda>_. Inl ErrSecretManagerUnavailable, 1 * hour), (sample_manager 1 2, 2 * hour)]
        \<lparr>currentVersion = 1, currentSecret = sample_secret 1, previousVersion = 0, previousSecret = [],
         overlapExpiresAt = 0, lastLoadedAt = 0\<rparr>
   in currentVersion c = 2 \<and> IsVersionValid (23 * hour) c 1 \<and>
      SecretForVersion (23 * hour) c 1 = Inr (sample_secret 1)"
proof -
  let ?c = "\<lparr>currentVersion = 1, currentSecret = sample_secret 1, previousVersion = 0, previousSecret = [],
         overlapExpiresAt = 0, lastLoadedAt = 0\<rparr>"
  let ?ticks = "[(sample_manager 1 1, 0), (\<lambda>_. Inl ErrSecretManagerUnavailable, 1 * hour),
      (sample_manager 1 2, 2 * hour)]"
  have current: "CurrentSecret 0 ?c = Inr (sample_secret 1, 1)" by code_simp
  have down: "rotating 1 (sample_secret 1) (\<lambda>_. Inl ErrSecretManagerUnavailable)" by (simp add: rotating_def)
  have ticks: "\<forall>(g, t) \<in> set ?ticks. rotating 1 (sample_secret 1) g \<and> 0 \<le> t"
    using down sample_rotating [of 1] sample_rotating [of 2] by (simp add: duration_defs)
  have "currentVersion (runClusterSecretRefreshLoop ?ticks ?c) = 2" by code_simp
  moreover have "23 * hour < 0 + rotationOverlapWindow" by (simp add: rotationOverlapWindow_def duration_defs)
  ultimately show ?thesis
    unfolding Let_def using rotation_overlap [OF current _ ticks, of "23 * hour"] by simp
qed

text \<open>
  a replica that starts late, or returns after an outage, reaches the newest secret: if the manager
  serves the versions \<open>lo\<close> to \<open>hi\<close> and the first of them is at most 32 ahead of the version the replica knows, every
  refresh succeeds and \<open>n\<close> refreshes advance it by \<open>n\<close> versions, up to \<open>hi\<close>.
\<close>

theorem replica_catches_up:
  assumes "serves g lo hi sec" and "1 \<le> lo" and "lo \<le> hi" and "hi \<le> 255"
    and "unat (base_version c) \<le> hi" and "lo \<le> unat (base_version c) + 32" and "ts \<noteq> []"
  shows "let c' = runClusterSecretRefreshLoop (map (Pair g) ts) c
         in unat (currentVersion c') = min hi (max (unat (base_version c)) lo + length ts) \<and>
            currentSecret c' = sec (currentVersion c') \<and>
            CurrentSecret (last ts) c' = Inr (currentSecret c', currentVersion c')"
proof -
  have "unat (currentVersion (runClusterSecretRefreshLoop (map (Pair g) (ts @ [t])) c)) =
      min hi (max (unat (base_version c)) lo + length (ts @ [t])) \<and>
      lastLoadedAt (runClusterSecretRefreshLoop (map (Pair g) (ts @ [t])) c) = t \<and>
      g (secretPath (currentVersion (runClusterSecretRefreshLoop (map (Pair g) (ts @ [t])) c))) =
        Inr (currentSecret (runClusterSecretRefreshLoop (map (Pair g) (ts @ [t])) c))" for ts t
  proof (induction ts arbitrary: t rule: rev_induct)
    case Nil
    obtain r c' where "Load g t c = (r, c')" by (cases "Load g t c")
    with Load_serves [OF assms(1-6), of t] Load_ok [of g t c c'] show ?case by simp
  next
    case (snoc u ts)
    let ?c = "runClusterSecretRefreshLoop (map (Pair g) (ts @ [u])) c"
    have v: "unat (currentVersion ?c) = min hi (max (unat (base_version c)) lo + length (ts @ [u]))"
      using snoc by blast
    then have "0 < unat (currentVersion ?c)" using assms(2,3) by simp
    then have base: "base_version ?c = currentVersion ?c" by (auto simp: unat_gt_0)
    obtain r c' where load: "Load g t ?c = (r, c')" by (cases "Load g t ?c")
    from base v assms have "unat (base_version ?c) \<le> hi" "lo \<le> unat (base_version ?c) + 32"
      "min hi (max (unat (base_version ?c)) lo + 1) =
         min hi (max (unat (base_version c)) lo + length ((ts @ [u]) @ [t]))"
      by auto
    with Load_serves [OF assms(1-4), of ?c t] Load_ok [of g t ?c c'] load show ?case
      unfolding map_append list.map refresh_append [of "map (Pair g) ts @ [(g, u)]"] by simp
  qed
  from this [of "butlast ts" "last ts"] assms(1-7) show ?thesis
    by (auto simp: Let_def CurrentSecret_def clusterSecretCacheTTL_def duration_defs split: if_splits)
qed

theorem replica_catches_up_witness:
  "let c = runClusterSecretRefreshLoop (map (Pair (sample_manager 5 7)) [0, 2 * minute, 4 * minute])
             NewClusterSecretCache
   in unat (currentVersion c) = 7 \<and> CurrentSecret (4 * minute) c = Inr (currentSecret c, currentVersion c)"
  using replica_catches_up [OF sample_manager_serves [of 7 5], of NewClusterSecretCache "[0, 2 * minute, 4 * minute]"]
  by (simp add: Let_def NewClusterSecretCache_def)

end
