(* ===== verification/Receipts.thy ===== *)
theory Receipts
  imports Scoring Secrets
begin

text \<open>
  The audit package, \<^verbatim>\<open>internal/audit\<close>: challenge nonces, validation of signed responses, the
  just-in-time anomaly flag and the three-phase receipt write. \<open>hmac\<close>, \<open>sha\<close> and \<open>verify\<close> are HMAC-SHA256, SHA-256
  and Ed25519 verification of a digest. \<open>ok\<close> says for each SQL statement whether the database executed it; a
  failed statement or commit rolls its transaction back. The \<^verbatim>\<open>CHECK\<close>, key and foreign-key constraints of the two tables
  are evaluated by the statements that can violate them. \<^verbatim>\<open>float64\<close> values are rationals.
\<close>

datatype audit_error =
    ErrInvalidSignature
  | ErrNonceLength
  | ErrReceiptAlreadyFinal
  | ErrReplayDetected
  | ErrResponseAlreadyRecorded
  | ErrZeroField string
  | ErrNotTerminal int
  | ErrAuditDB

subsection \<open>Challenge nonces\<close>

definition serverSecretSize :: nat where "serverSecretSize = 32"
definition chunkIDSize :: nat where "chunkIDSize = 32"
definition serverTsSize :: nat where "serverTsSize = 8"

text \<open>\<^verbatim>\<open>uint64(x)\<close> of an \<^verbatim>\<open>int64\<close>, as a natural number.\<close>

definition u64_of_i64 :: "int \<Rightarrow> nat" where
  "u64_of_i64 x = nat (x mod 2 ^ 64)"

text \<open>\<open>None\<close> is the panic on a secret of the wrong length.\<close>

definition ChallengeNonce ::
  "(byte list \<Rightarrow> byte list \<Rightarrow> byte list) \<Rightarrow> byte list \<Rightarrow> byte \<Rightarrow> byte list \<Rightarrow> int \<Rightarrow> byte list option" where
  "ChallengeNonce hmac serverSecretVN versionByte chunkID serverTsMs =
     (if length serverSecretVN \<noteq> serverSecretSize then None
      else let signingInput = copy_at chunkIDSize (copy_at 0 (replicate (chunkIDSize + serverTsSize) 0) chunkID)
                                (be_bytes serverTsSize (u64_of_i64 serverTsMs));
               sum = hmac serverSecretVN signingInput
           in Some (copy_at 1 ((replicate 33 0)[0 := versionByte]) sum))"

subsection \<open>Validation of responses\<close>

definition responseHashSize :: nat where "responseHashSize = 32"
definition challengeNonceSize :: nat where "challengeNonceSize = 33"
definition providerIDSize :: nat where "providerIDSize = 16"
definition nonceOffset :: nat where "nonceOffset = responseHashSize"
definition tsOffset :: nat where "tsOffset = nonceOffset + challengeNonceSize"
definition idOffset :: nat where "idOffset = tsOffset + serverTsSize"
definition signingInputSize :: nat where "signingInputSize = idOffset + providerIDSize"

type_synonym verify_fun = "byte list \<Rightarrow> byte list \<Rightarrow> byte list \<Rightarrow> bool"
type_synonym sign_fun = "byte list \<Rightarrow> byte list \<Rightarrow> byte list"

definition SignBytes :: "hash \<Rightarrow> sign_fun \<Rightarrow> byte list \<Rightarrow> byte list \<Rightarrow> byte list" where
  "SignBytes sha sign privateKey inputBytes = copy_slice (replicate 64 0) (sign privateKey (sha inputBytes))"

definition VerifyBytes :: "hash \<Rightarrow> verify_fun \<Rightarrow> byte list \<Rightarrow> byte list \<Rightarrow> byte list \<Rightarrow> bool" where
  "VerifyBytes sha verify publicKey inputBytes sig \<longleftrightarrow> verify publicKey (sha inputBytes) sig"

text \<open>A signature made with a private key whose public part the other side holds.\<close>

definition key_pair :: "sign_fun \<Rightarrow> verify_fun \<Rightarrow> byte list \<Rightarrow> byte list \<Rightarrow> bool" where
  "key_pair sign verify sk pk \<longleftrightarrow> length pk = 32 \<and> (\<forall>x. length (sign sk x) = 64 \<and> verify pk x (sign sk x))"

definition ok_signing_input :: "byte list \<Rightarrow> byte list \<Rightarrow> int \<Rightarrow> byte list \<Rightarrow> byte list" where
  "ok_signing_input challengeNonce responseHash serverChallengeTsMs providerID =
     copy_at idOffset
       (copy_at tsOffset
          (copy_at nonceOffset (copy_at 0 (replicate signingInputSize 0) responseHash) challengeNonce)
          (be_bytes serverTsSize (u64_of_i64 serverChallengeTsMs)))
       providerID"

definition ValidateResponse ::
  "hash \<Rightarrow> verify_fun \<Rightarrow> byte list \<Rightarrow> byte list \<Rightarrow> int \<Rightarrow> byte list \<Rightarrow> byte list \<Rightarrow> byte list \<Rightarrow> audit_error option" where
  "ValidateResponse sha verify challengeNonce responseHash serverChallengeTsMs providerID providerSig providerPubKey =
     (if \<not> VerifyBytes sha verify providerPubKey
             (ok_signing_input challengeNonce responseHash serverChallengeTsMs providerID) providerSig
      then Some ErrInvalidSignature else None)"

definition statusByteSize :: nat where "statusByteSize = 1"

definition failSigningInputSize :: nat where
  "failSigningInputSize = statusByteSize + challengeNonceSize + serverTsSize + providerIDSize"

definition fail_signing_input :: "byte \<Rightarrow> byte list \<Rightarrow> int \<Rightarrow> byte list \<Rightarrow> byte list" where
  "fail_signing_input statusByte challengeNonce serverChallengeTsMs providerID =
     (let failNonceOffset = statusByteSize;
          failTsOffset = failNonceOffset + challengeNonceSize;
          failIDOffset = failTsOffset + serverTsSize
      in copy_at failIDOffset
           (copy_at failTsOffset
              (copy_at failNonceOffset ((replicate failSigningInputSize 0)[0 := statusByte]) challengeNonce)
              (be_bytes serverTsSize (u64_of_i64 serverChallengeTsMs)))
           providerID)"

definition ValidateFailResponse ::
  "hash \<Rightarrow> verify_fun \<Rightarrow> byte \<Rightarrow> byte list \<Rightarrow> int \<Rightarrow> byte list \<Rightarrow> byte list \<Rightarrow> byte list \<Rightarrow> audit_error option" where
  "ValidateFailResponse sha verify statusByte challengeNonce serverChallengeTsMs providerID providerSig providerPubKey =
     (if \<not> VerifyBytes sha verify providerPubKey
             (fail_signing_input statusByte challengeNonce serverChallengeTsMs providerID) providerSig
      then Some ErrInvalidSignature else None)"

subsection \<open>Just-in-time retrieval\<close>

definition chunkSizeKB :: rat where "chunkSizeKB = 256"
definition jitFloorFraction :: rat where "jitFloorFraction = 3 / 10"
definition msPerSecond :: rat where "msPerSecond = 1000"

definition EvaluateJIT :: "int \<Rightarrow> rat option \<Rightarrow> bool" where
  "EvaluateJIT responseLatencyMs p95ThroughputKbps =
     (case p95ThroughputKbps of
        None \<Rightarrow> False
      | Some p \<Rightarrow>
          if p \<le> 0 then False
          else let floorMs = (chunkSizeKB / p) * jitFloorFraction * msPerSecond
               in of_int responseLatencyMs < floorMs)"

subsection \<open>Receipts\<close>

text \<open>\<^verbatim>\<open>AuditResult\<close> is a Go \<^verbatim>\<open>int\<close> with three named values.\<close>

type_synonym AuditResult = int

definition AuditPass :: AuditResult where "AuditPass = 0"
definition AuditFail :: AuditResult where "AuditFail = 1"
definition AuditTimeout :: AuditResult where "AuditTimeout = 2"

definition auditResultToSQL :: "AuditResult \<Rightarrow> audit_error + audit_result_type" where
  "auditResultToSQL result =
     (if result = AuditPass then Inr PASS
      else if result = AuditFail then Inr FAIL
      else if result = AuditTimeout then Inr TIMEOUT
      else Inl (ErrNotTerminal result))"

record ReceiptFields =
  rf_ChunkID :: "byte list"
  rf_FileID :: "uuid option"
  rf_ProviderID :: uuid
  rf_ChallengeNonce :: "byte list"
  rf_ServerChallengeTs :: time
  rf_AddressWasStale :: bool

text \<open>The zero \<^verbatim>\<open>time.Time\<close>, 1 January of the year 1, in nanoseconds since 1970.\<close>

definition zero_time :: time where "zero_time = - 62135596800 * 1000000000"

definition validate :: "ReceiptFields \<Rightarrow> audit_error option" where
  "validate f =
     (if rf_ChunkID f = replicate 32 0 then Some (ErrZeroField ''ChunkID'')
      else if rf_ProviderID f = replicate 16 0 then Some (ErrZeroField ''ProviderID'')
      else if rf_ChallengeNonce f = replicate 33 0 then Some (ErrZeroField ''ChallengeNonce'')
      else if rf_ServerChallengeTs f = zero_time then Some (ErrZeroField ''ServerChallengeTs'')
      else None)"

datatype receipt_stmt = NewV7 | P1Begin | P1Nonce | P1Insert | P1Commit | RecordUpdate | P2Update

definition pending_row :: "uuid \<Rightarrow> ReceiptFields \<Rightarrow> receipt_row" where
  "pending_row receiptID f =
     \<lparr>receipt_id = receiptID, r_chunk_id = rf_ChunkID f, r_file_id = rf_FileID f, r_provider_id = rf_ProviderID f,
      challenge_nonce = rf_ChallengeNonce f, server_challenge_ts = rf_ServerChallengeTs f, response_hash = None,
      response_latency_ms = None, audit_result = None, address_was_stale = rf_AddressWasStale f,
      provider_sig = None, service_sig = None, service_countersign_ts = None, jit_flag = False, abandoned_at = None\<rparr>"

text \<open>Primary key, local nonce uniqueness and foreign keys of \<^verbatim>\<open>audit_receipts\<close>.\<close>

definition receipt_insertable :: "receipt_row \<Rightarrow> database \<Rightarrow> bool" where
  "receipt_insertable r db \<longleftrightarrow>
     (receipt_id r, server_challenge_ts r) \<notin> (\<lambda>q. (receipt_id q, server_challenge_ts q)) ` set (audit_receipts db) \<and>
     (challenge_nonce r, server_challenge_ts r) \<notin> (\<lambda>q. (challenge_nonce q, server_challenge_ts q)) ` set (audit_receipts db) \<and>
     r_provider_id r \<in> provider_id ` set (providers db) \<and>
     (case r_file_id r of None \<Rightarrow> True | Some fid \<Rightarrow> fid \<in> file_id ` set (files db))"

definition WriteReceiptPhase1 ::
  "(receipt_stmt \<Rightarrow> bool) \<Rightarrow> uuid \<Rightarrow> ReceiptFields \<Rightarrow> database \<Rightarrow> (audit_error + uuid) \<times> database" where
  "WriteReceiptPhase1 ok newV7 flds db =
     (case validate flds of
        Some e \<Rightarrow> (Inl e, db)
      | None \<Rightarrow>
          if \<not> ok NewV7 \<or> \<not> ok P1Begin \<or> \<not> ok P1Nonce then (Inl ErrAuditDB, db)
          else if rf_ChallengeNonce flds \<in> fst ` set (audit_receipt_nonces db) then (Inl ErrReplayDetected, db)
          else if \<not> ok P1Insert \<or> \<not> receipt_insertable (pending_row newV7 flds) db \<or> \<not> ok P1Commit
          then (Inl ErrAuditDB, db)
          else (Inr newV7,
                db\<lparr>audit_receipt_nonces := audit_receipt_nonces db @
                     [(rf_ChallengeNonce flds, rf_ServerChallengeTs flds)],
                   audit_receipts := audit_receipts db @ [pending_row newV7 flds]\<rparr>))"

text \<open>The \<^verbatim>\<open>CHECK\<close> constraints of a receipt row.\<close>

definition response_consistency :: "receipt_row \<Rightarrow> bool" where
  "response_consistency r \<longleftrightarrow>
     (case audit_result r of
        None \<Rightarrow> True
      | Some TIMEOUT \<Rightarrow> response_hash r = None \<and> provider_sig r = None
      | Some _ \<Rightarrow> response_hash r \<noteq> None \<and> provider_sig r \<noteq> None)"

definition receipt_checks :: "receipt_row \<Rightarrow> bool" where
  "receipt_checks r \<longleftrightarrow> response_consistency r \<and>
     (service_sig r = None \<longleftrightarrow> service_countersign_ts r = None) \<and>
     (case response_latency_ms r of None \<Rightarrow> True | Some l \<Rightarrow> 0 \<le> l)"

text \<open>
  \<^verbatim>\<open>UPDATE audit_receipts SET ... WHERE ...\<close>: the number of rows changed, or the constraint violation that
  rejects the statement as a whole.
\<close>

definition update_receipts ::
  "(receipt_row \<Rightarrow> bool) \<Rightarrow> (receipt_row \<Rightarrow> receipt_row) \<Rightarrow> database \<Rightarrow> nat option \<times> database" where
  "update_receipts P f db =
     (if \<forall>r\<in>set (audit_receipts db). P r \<longrightarrow> receipt_checks (f r)
      then (Some (length (filter P (audit_receipts db))),
            db\<lparr>audit_receipts := update_where P f (audit_receipts db)\<rparr>)
      else (None, db))"

definition open_receipt :: "uuid \<Rightarrow> receipt_row \<Rightarrow> bool" where
  "open_receipt receiptID r \<longleftrightarrow> receipt_id r = receiptID \<and> audit_result r = None \<and> abandoned_at r = None"

definition WriteReceiptRecordResponse ::
  "(receipt_stmt \<Rightarrow> bool) \<Rightarrow> uuid \<Rightarrow> byte list \<Rightarrow> byte list \<Rightarrow> int \<Rightarrow> rat option \<Rightarrow> database \<Rightarrow>
     audit_error option \<times> database" where
  "WriteReceiptRecordResponse ok receiptID responseHash providerSig responseLatencyMs p95ThroughputKbps db =
     (let jitFlag = EvaluateJIT responseLatencyMs p95ThroughputKbps
      in if \<not> ok RecordUpdate then (Some ErrAuditDB, db)
         else case update_receipts (\<lambda>r. open_receipt receiptID r \<and> response_hash r = None)
                (\<lambda>r. r\<lparr>response_hash := Some responseHash, provider_sig := Some providerSig,
                       response_latency_ms := Some responseLatencyMs, jit_flag := jitFlag\<rparr>) db of
             (None, db') \<Rightarrow> (Some ErrAuditDB, db')
           | (Some rowsAffected, db') \<Rightarrow>
               if rowsAffected = 0 then (Some ErrResponseAlreadyRecorded, db') else (None, db'))"

definition WriteReceiptPhase2 ::
  "(receipt_stmt \<Rightarrow> bool) \<Rightarrow> uuid \<Rightarrow> AuditResult \<Rightarrow> byte list \<Rightarrow> time \<Rightarrow> database \<Rightarrow> audit_error option \<times> database" where
  "WriteReceiptPhase2 ok receiptID result serviceSig serviceTS db =
     (case auditResultToSQL result of
        Inl e \<Rightarrow> (Some e, db)
      | Inr resultStr \<Rightarrow>
          if \<not> ok P2Update then (Some ErrAuditDB, db)
          else case update_receipts (open_receipt receiptID)
                 (\<lambda>r. r\<lparr>audit_result := Some resultStr, service_sig := Some serviceSig,
                        service_countersign_ts := Some serviceTS\<rparr>) db of
              (None, db') \<Rightarrow> (Some ErrAuditDB, db')
            | (Some rowsAffected, db') \<Rightarrow>
                if rowsAffected = 0 then (Some ErrReceiptAlreadyFinal, db') else (None, db'))"

subsection \<open>Lemmas: layouts\<close>

lemmas layout_sizes = chunkIDSize_def serverTsSize_def responseHashSize_def challengeNonceSize_def providerIDSize_def
  nonceOffset_def tsOffset_def idOffset_def signingInputSize_def statusByteSize_def failSigningInputSize_def

text \<open>Filling a zeroed buffer field by field concatenates the fields.\<close>

lemma copy_at_fill:
  "length pre = off \<Longrightarrow> length src \<le> n \<Longrightarrow>
   copy_at off (pre @ replicate n 0) src = (pre @ src) @ replicate (n - length src) 0"
  by (simp add: copy_at_append)

lemma ok_signing_input_layout:
  assumes "length n = 33" and "length h = 32" and "length pid = 16"
  shows "ok_signing_input n h ts pid = h @ n @ be_bytes 8 (u64_of_i64 ts) @ pid"
proof -
  have "copy_at 0 (replicate 89 0) h = h @ replicate 57 0"
    using copy_at_fill [of "[]" 0 h 89] assms by simp
  moreover have "copy_at 32 (h @ replicate 57 0) n = (h @ n) @ replicate 24 0"
    using copy_at_fill [of h 32 n 57] assms by simp
  moreover have "copy_at 65 ((h @ n) @ replicate 24 0) (be_bytes 8 (u64_of_i64 ts)) =
      (h @ n @ be_bytes 8 (u64_of_i64 ts)) @ replicate 16 0"
    using copy_at_fill [of "h @ n" 65 "be_bytes 8 (u64_of_i64 ts)" 24] assms by simp
  moreover have "copy_at 73 ((h @ n @ be_bytes 8 (u64_of_i64 ts)) @ replicate 16 0) pid =
      h @ n @ be_bytes 8 (u64_of_i64 ts) @ pid"
    using copy_at_fill [of "h @ n @ be_bytes 8 (u64_of_i64 ts)" 73 pid 16] assms by simp
  ultimately show ?thesis by (simp add: ok_signing_input_def layout_sizes)
qed

lemma fail_signing_input_layout:
  assumes "length n = 33" and "length pid = 16"
  shows "fail_signing_input b n ts pid = b # n @ be_bytes 8 (u64_of_i64 ts) @ pid"
proof -
  have "(replicate 58 0)[0 := b] = [b] @ replicate 57 (0 :: byte)"
    by (simp add: numeral_eq_Suc)
  moreover have "copy_at 1 ([b] @ replicate 57 0) n = ([b] @ n) @ replicate 24 0"
    using copy_at_fill [of "[b]" 1 n 57] assms by simp
  moreover have "copy_at 34 (([b] @ n) @ replicate 24 0) (be_bytes 8 (u64_of_i64 ts)) =
      ([b] @ n @ be_bytes 8 (u64_of_i64 ts)) @ replicate 16 0"
    using copy_at_fill [of "[b] @ n" 34 "be_bytes 8 (u64_of_i64 ts)" 24] assms by simp
  moreover have "copy_at 42 (([b] @ n @ be_bytes 8 (u64_of_i64 ts)) @ replicate 16 0) pid =
      [b] @ n @ be_bytes 8 (u64_of_i64 ts) @ pid"
    using copy_at_fill [of "[b] @ n @ be_bytes 8 (u64_of_i64 ts)" 42 pid 16] assms by simp
  ultimately show ?thesis by (simp add: fail_signing_input_def layout_sizes Let_def)
qed

lemma ChallengeNonce_layout:
  assumes "length secret = 32" and "length chunk = 32" and "\<forall>k m. length (hmac k m) = 32"
  shows "ChallengeNonce hmac secret v chunk ts = Some (v # hmac secret (chunk @ be_bytes 8 (u64_of_i64 ts)))"
proof -
  have "copy_at 0 (replicate 40 0) chunk = chunk @ replicate 8 0"
    using copy_at_fill [of "[]" 0 chunk 40] assms by simp
  moreover have "copy_at 32 (chunk @ replicate 8 0) (be_bytes 8 (u64_of_i64 ts)) = chunk @ be_bytes 8 (u64_of_i64 ts)"
    using copy_at_fill [of chunk 32 "be_bytes 8 (u64_of_i64 ts)" 8] assms by simp
  moreover have "(replicate 33 0)[0 := v] = [v] @ replicate 32 (0 :: byte)"
    by (simp add: numeral_eq_Suc)
  moreover have "copy_at 1 ([v] @ replicate 32 0) (hmac secret m) = [v] @ hmac secret m" for m
    using copy_at_fill [of "[v]" 1 "hmac secret m" 32] assms by simp
  ultimately show ?thesis
    using assms by (simp add: ChallengeNonce_def serverSecretSize_def layout_sizes Let_def)
qed

lemma u64_of_i64_inj:
  assumes "- (2 ^ 63) \<le> a" "a < 2 ^ 63" "- (2 ^ 63) \<le> b" "b < 2 ^ 63" "u64_of_i64 a = u64_of_i64 b"
  shows "a = b"
proof -
  have "a mod 2 ^ 64 = b mod 2 ^ 64" using assms(5) by (simp add: u64_of_i64_def nat_eq_iff)
  then have "i64 a = i64 b" unfolding i64_def by (metis mod_add_left_eq)
  with assms show ?thesis by (simp add: i64_id)
qed

lemma u64_of_i64_less: "u64_of_i64 x < 256 ^ 8"
  by (simp add: u64_of_i64_def nat_less_iff)

lemma be_bytes_8_inj: "a < 256 ^ 8 \<Longrightarrow> b < 256 ^ 8 \<Longrightarrow> be_bytes 8 a = be_bytes 8 b \<Longrightarrow> a = b"
  by (metis be_value_be_bytes mod_less)

lemma be_u64_inj:
  assumes "- (2 ^ 63) \<le> a" "a < 2 ^ 63" "- (2 ^ 63) \<le> b" "b < 2 ^ 63"
    and "be_bytes 8 (u64_of_i64 a) = be_bytes 8 (u64_of_i64 b)"
  shows "a = b"
  using u64_of_i64_inj [OF assms(1-4)] be_bytes_8_inj [OF u64_of_i64_less u64_of_i64_less assms(5)] by blast

subsection \<open>The receipt log as a transition system\<close>

text \<open>
  Any interleaving of the three writes, with any arguments and failures, together with what other parts of
  the service do: they leave the two tables alone, except that the garbage collector may mark pending rows
  as abandoned (the policy \<^verbatim>\<open>audit_receipts_gc\<close> of the schema).
\<close>

inductive receipt_step :: "database \<Rightarrow> database \<Rightarrow> bool" where
  phase1: "receipt_step db (snd (WriteReceiptPhase1 ok newID flds db))"
| record_response: "receipt_step db (snd (WriteReceiptRecordResponse ok rid h sg ms p95 db))"
| phase2: "receipt_step db (snd (WriteReceiptPhase2 ok rid result sg ts db))"
| abandon: "receipt_step db
     (db\<lparr>audit_receipts := update_where (\<lambda>r. P r \<and> audit_result r = None) (\<lambda>r. r\<lparr>abandoned_at := Some t\<rparr>)
        (audit_receipts db)\<rparr>)"
| elsewhere: "audit_receipts db' = audit_receipts db \<Longrightarrow> audit_receipt_nonces db' = audit_receipt_nonces db \<Longrightarrow>
     receipt_step db db'"

definition receipts_inv :: "database \<Rightarrow> bool" where
  "receipts_inv db \<longleftrightarrow>
     map (\<lambda>r. (challenge_nonce r, server_challenge_ts r)) (audit_receipts db) = audit_receipt_nonces db \<and>
     distinct (map fst (audit_receipt_nonces db)) \<and>
     (\<forall>r\<in>set (audit_receipts db). receipt_checks r \<and> (audit_result r = None \<longleftrightarrow> service_sig r = None))"

text \<open>How a row may change: what was challenged never, a recorded response never, a terminal row not at all.\<close>

definition receipt_le :: "receipt_row \<Rightarrow> receipt_row \<Rightarrow> bool" where
  "receipt_le r r' \<longleftrightarrow>
     receipt_id r' = receipt_id r \<and> r_chunk_id r' = r_chunk_id r \<and> r_file_id r' = r_file_id r \<and>
     r_provider_id r' = r_provider_id r \<and> challenge_nonce r' = challenge_nonce r \<and>
     server_challenge_ts r' = server_challenge_ts r \<and> address_was_stale r' = address_was_stale r \<and>
     (response_hash r \<noteq> None \<longrightarrow> response_hash r' = response_hash r \<and> provider_sig r' = provider_sig r \<and>
        response_latency_ms r' = response_latency_ms r \<and> jit_flag r' = jit_flag r) \<and>
     (audit_result r \<noteq> None \<longrightarrow> r' = r)"

definition log_le :: "database \<Rightarrow> database \<Rightarrow> bool" where
  "log_le db db' \<longleftrightarrow> length (audit_receipts db) \<le> length (audit_receipts db') \<and>
     (\<forall>i<length (audit_receipts db). receipt_le (audit_receipts db ! i) (audit_receipts db' ! i))"

lemma receipt_le_refl: "receipt_le r r"
  by (simp add: receipt_le_def)

lemma receipt_le_trans: "receipt_le a b \<Longrightarrow> receipt_le b c \<Longrightarrow> receipt_le a c"
  unfolding receipt_le_def by (elim conjE) (intro conjI impI; metis)

lemma log_le_same: "audit_receipts db' = audit_receipts db \<Longrightarrow> log_le db db'"
  by (simp add: log_le_def receipt_le_refl)

lemma log_le_trans: "log_le a b \<Longrightarrow> log_le b c \<Longrightarrow> log_le a c"
  unfolding log_le_def by (meson le_trans less_le_trans receipt_le_trans)

text \<open>A statement that rewrites rows keeps the log when each rewritten row may change so.\<close>

lemma log_le_update:
  assumes "\<And>r. P r \<Longrightarrow> receipt_le r (f r)" and "audit_receipts db' = update_where P f (audit_receipts db)"
  shows "log_le db db'"
  using assms by (simp add: log_le_def update_where_def receipt_le_refl)

lemma receipts_inv_update:
  assumes "receipts_inv db" and "audit_receipts db' = update_where P f (audit_receipts db)"
    and "audit_receipt_nonces db' = audit_receipt_nonces db" and "\<And>r. P r \<Longrightarrow> receipt_le r (f r)"
    and "\<And>r. r \<in> set (audit_receipts db) \<Longrightarrow> P r \<Longrightarrow> receipt_checks r \<Longrightarrow>
           (audit_result r = None \<longleftrightarrow> service_sig r = None) \<Longrightarrow>
           receipt_checks (f r) \<and> (audit_result (f r) = None \<longleftrightarrow> service_sig (f r) = None)"
  shows "receipts_inv db'"
proof -
  have "map (\<lambda>r. (challenge_nonce r, server_challenge_ts r)) (audit_receipts db') =
      map (\<lambda>r. (challenge_nonce r, server_challenge_ts r)) (audit_receipts db)"
    using assms(4) unfolding assms(2) by (intro map_update_where) (auto simp: receipt_le_def)
  moreover have "\<forall>r\<in>set (audit_receipts db'). receipt_checks r \<and> (audit_result r = None \<longleftrightarrow> service_sig r = None)"
    using assms(1,5) unfolding assms(2) receipts_inv_def by (auto simp: in_update_where)
  ultimately show ?thesis using assms(1,3) by (simp add: receipts_inv_def)
qed

lemma update_receipts_cases:
  obtains "update_receipts P f db = (None, db)"
  | "update_receipts P f db = (Some (length (filter P (audit_receipts db))),
        db\<lparr>audit_receipts := update_where P f (audit_receipts db)\<rparr>)"
    "\<forall>r\<in>set (audit_receipts db). P r \<longrightarrow> receipt_checks (f r)"
  by (cases "\<forall>r\<in>set (audit_receipts db). P r \<longrightarrow> receipt_checks (f r)") (simp_all add: update_receipts_def)

lemma update_receipts_log:
  assumes "receipts_inv db" and le: "\<And>r. P r \<Longrightarrow> receipt_le r (f r)"
    and sig: "\<And>r. P r \<Longrightarrow> audit_result r = None \<longleftrightarrow> service_sig r = None \<Longrightarrow>
           audit_result (f r) = None \<longleftrightarrow> service_sig (f r) = None"
  shows "receipts_inv (snd (update_receipts P f db)) \<and> log_le db (snd (update_receipts P f db))"
proof (cases P f db rule: update_receipts_cases)
  case 1
  with assms show ?thesis by (simp add: log_le_same)
next
  case 2
  have "receipts_inv (db\<lparr>audit_receipts := update_where P f (audit_receipts db)\<rparr>)"
    by (rule receipts_inv_update [OF assms(1), of _ P f]) (use 2(2) le sig in auto)
  with 2(1) show ?thesis using log_le_update [of P f "snd (update_receipts P f db)" db] le by simp
qed

lemma Phase1_log:
  assumes "receipts_inv db"
  shows "receipts_inv (snd (WriteReceiptPhase1 ok newID flds db)) \<and> log_le db (snd (WriteReceiptPhase1 ok newID flds db))"
proof (cases "fst (WriteReceiptPhase1 ok newID flds db)")
  case (Inl e)
  then have "snd (WriteReceiptPhase1 ok newID flds db) = db"
    by (auto simp: WriteReceiptPhase1_def split: option.splits if_splits)
  with assms show ?thesis by (simp add: log_le_same)
next
  case (Inr i)
  then have snd: "snd (WriteReceiptPhase1 ok newID flds db) =
      db\<lparr>audit_receipt_nonces := audit_receipt_nonces db @ [(rf_ChallengeNonce flds, rf_ServerChallengeTs flds)],
         audit_receipts := audit_receipts db @ [pending_row newID flds]\<rparr>"
    and "rf_ChallengeNonce flds \<notin> fst ` set (audit_receipt_nonces db)"
    by (auto simp: WriteReceiptPhase1_def split: option.splits if_splits)
  moreover have "receipt_checks (pending_row newID flds)" "audit_result (pending_row newID flds) = None"
    "service_sig (pending_row newID flds) = None"
    "challenge_nonce (pending_row newID flds) = rf_ChallengeNonce flds"
    "server_challenge_ts (pending_row newID flds) = rf_ServerChallengeTs flds"
    by (simp_all add: pending_row_def receipt_checks_def response_consistency_def)
  ultimately show ?thesis
    using assms unfolding snd by (auto simp: receipts_inv_def log_le_def nth_append receipt_le_refl)
qed

lemma snd_RecordResponse:
  "\<exists>p. snd (WriteReceiptRecordResponse ok rid h sg ms p95 db) =
     (if p then snd (update_receipts (\<lambda>r. open_receipt rid r \<and> response_hash r = None)
        (\<lambda>r. r\<lparr>response_hash := Some h, provider_sig := Some sg, response_latency_ms := Some ms,
               jit_flag := EvaluateJIT ms p95\<rparr>) db) else db)"
  by (intro exI [of _ "ok RecordUpdate"]) (auto simp: WriteReceiptRecordResponse_def Let_def split: prod.splits option.splits)

lemma RecordResponse_log:
  assumes "receipts_inv db"
  shows "receipts_inv (snd (WriteReceiptRecordResponse ok rid h sg ms p95 db)) \<and>
         log_le db (snd (WriteReceiptRecordResponse ok rid h sg ms p95 db))"
proof -
  have "receipts_inv (snd (update_receipts (\<lambda>r. open_receipt rid r \<and> response_hash r = None)
        (\<lambda>r. r\<lparr>response_hash := Some h, provider_sig := Some sg, response_latency_ms := Some ms,
               jit_flag := EvaluateJIT ms p95\<rparr>) db)) \<and>
      log_le db (snd (update_receipts (\<lambda>r. open_receipt rid r \<and> response_hash r = None)
        (\<lambda>r. r\<lparr>response_hash := Some h, provider_sig := Some sg, response_latency_ms := Some ms,
               jit_flag := EvaluateJIT ms p95\<rparr>) db))"
    using assms by (rule update_receipts_log) (simp_all add: open_receipt_def receipt_le_def)
  with assms snd_RecordResponse [of ok rid h sg ms p95 db] show ?thesis
    by (auto simp: log_le_same)
qed

lemma snd_Phase2:
  "\<exists>p x. snd (WriteReceiptPhase2 ok rid result sg ts db) =
     (if p then snd (update_receipts (open_receipt rid)
        (\<lambda>r. r\<lparr>audit_result := Some x, service_sig := Some sg, service_countersign_ts := Some ts\<rparr>) db) else db)"
proof (cases "auditResultToSQL result")
  case (Inl e)
  then show ?thesis by (intro exI [of _ False]) (simp add: WriteReceiptPhase2_def)
next
  case (Inr x)
  then show ?thesis
    by (intro exI [of _ "ok P2Update"] exI [of _ x])
      (auto simp: WriteReceiptPhase2_def split: prod.splits option.splits)
qed

lemma Phase2_log:
  assumes "receipts_inv db"
  shows "receipts_inv (snd (WriteReceiptPhase2 ok rid result sg ts db)) \<and>
         log_le db (snd (WriteReceiptPhase2 ok rid result sg ts db))"
proof -
  have "receipts_inv (snd (update_receipts (open_receipt rid)
        (\<lambda>r. r\<lparr>audit_result := Some x, service_sig := Some sg, service_countersign_ts := Some ts\<rparr>) db)) \<and>
      log_le db (snd (update_receipts (open_receipt rid)
        (\<lambda>r. r\<lparr>audit_result := Some x, service_sig := Some sg, service_countersign_ts := Some ts\<rparr>) db))" for x
    using assms by (rule update_receipts_log) (simp_all add: open_receipt_def receipt_le_def)
  with assms snd_Phase2 [of ok rid result sg ts db] show ?thesis by (auto simp: log_le_same)
qed

lemma receipt_step_log: "receipt_step db db' \<Longrightarrow> receipts_inv db \<Longrightarrow> receipts_inv db' \<and> log_le db db'"
proof (induction rule: receipt_step.induct)
  case (abandon db P t)
  let ?P = "\<lambda>r. P r \<and> audit_result r = None" and ?f = "\<lambda>r :: receipt_row. r\<lparr>abandoned_at := Some t\<rparr>"
  have le: "?P r \<Longrightarrow> receipt_le r (?f r)" for r by (simp add: receipt_le_def)
  have "receipts_inv (db\<lparr>audit_receipts := update_where ?P ?f (audit_receipts db)\<rparr>)"
    by (rule receipts_inv_update [OF abandon, of _ ?P ?f])
      (use le in \<open>auto simp: receipt_checks_def response_consistency_def\<close>)
  with log_le_update [OF le] show ?case by simp
next
  case (elsewhere db' db)
  then show ?case by (simp add: receipts_inv_def log_le_same)
qed (simp_all add: Phase1_log RecordResponse_log Phase2_log)

lemma receipt_steps_log:
  assumes "receipt_step\<^sup>*\<^sup>* db db'" and "receipts_inv db"
  shows "receipts_inv db' \<and> log_le db db'"
  using assms
proof (induction rule: rtranclp_induct)
  case base
  then show ?case by (simp add: log_le_same)
next
  case (step y z)
  then show ?case using receipt_step_log [of y z] log_le_trans [of db y z] by blast
qed

lemma log_le_final:
  assumes "log_le db db'" and "r \<in> set (audit_receipts db)" and "audit_result r \<noteq> None"
  shows "r \<in> set (audit_receipts db')"
proof -
  from assms(2) obtain i where i: "i < length (audit_receipts db)" "r = audit_receipts db ! i" by (auto simp: in_set_conv_nth)
  with assms(1,3) have "audit_receipts db' ! i = r" "i < length (audit_receipts db')"
    by (auto simp: log_le_def receipt_le_def)
  then show ?thesis by (metis nth_mem)
qed

lemma receipts_inv_distinct:
  assumes "receipts_inv db"
  shows "distinct (map challenge_nonce (audit_receipts db))"
proof -
  have "map challenge_nonce (audit_receipts db) =
      map fst (map (\<lambda>r. (challenge_nonce r, server_challenge_ts r)) (audit_receipts db))"
    by simp
  also have "\<dots> = map fst (audit_receipt_nonces db)" using assms by (simp only: receipts_inv_def)
  finally show ?thesis using assms by (simp add: receipts_inv_def)
qed

subsection \<open>One receipt\<close>

text \<open>The receipt identified by \<open>rid\<close>; \<^verbatim>\<open>uuid.NewV7\<close> makes the identifier unique.\<close>

definition the_receipt :: "database \<Rightarrow> uuid \<Rightarrow> receipt_row \<Rightarrow> bool" where
  "the_receipt db rid r \<longleftrightarrow> filter (\<lambda>q. receipt_id q = rid) (audit_receipts db) = [r]"

lemma filter_singleton: "filter Q xs = [r] \<Longrightarrow> q \<in> set xs \<and> Q q \<longleftrightarrow> q = r"
proof -
  assume "filter Q xs = [r]"
  then have "set (filter Q xs) = {r}" by simp
  then show ?thesis by auto
qed

lemma the_receipt_iff: "the_receipt db rid r \<Longrightarrow> q \<in> set (audit_receipts db) \<and> receipt_id q = rid \<longleftrightarrow> q = r"
  unfolding the_receipt_def by (rule filter_singleton)

lemma the_receipt_in: "the_receipt db rid r \<Longrightarrow> r \<in> set (audit_receipts db)"
  and the_receipt_id: "the_receipt db rid r \<Longrightarrow> receipt_id r = rid"
  using the_receipt_iff [of db rid r r] by simp_all

lemma filter_update_where_id:
  assumes "\<And>q. P q \<Longrightarrow> receipt_id q = rid" and "\<And>q. receipt_id (f q) = receipt_id q"
  shows "filter (\<lambda>q. receipt_id q = rid) (update_where P f rows) =
         map (\<lambda>q. if P q then f q else q) (filter (\<lambda>q. receipt_id q = rid) rows)"
  using assms by (induction rows) (auto simp del: update_where_Cons simp add: update_where_Cons)

lemma update_receipts_one:
  assumes "the_receipt db rid r" and "\<And>q. P q \<Longrightarrow> receipt_id q = rid" and "\<And>q. receipt_id (f q) = receipt_id q"
  shows "P r \<Longrightarrow> receipt_checks (f r) \<Longrightarrow>
      \<exists>db'. update_receipts P f db = (Some 1, db') \<and> the_receipt db' rid (f r) \<and>
        db' = db\<lparr>audit_receipts := update_where P f (audit_receipts db)\<rparr>"
    and "P r \<Longrightarrow> \<not> receipt_checks (f r) \<Longrightarrow> update_receipts P f db = (None, db)"
    and "\<not> P r \<Longrightarrow> update_receipts P f db = (Some 0, db)"
proof -
  have P: "P q \<Longrightarrow> q = r" if "q \<in> set (audit_receipts db)" for q
    using the_receipt_iff [OF assms(1)] that assms(2) by blast
  have "P q \<longleftrightarrow> P q \<and> receipt_id q = rid" for q using assms(2) by blast
  then have "filter P (audit_receipts db) = filter P (filter (\<lambda>q. receipt_id q = rid) (audit_receipts db))"
    unfolding filter_filter by (simp only: conj_commute)
  then have len: "filter P (audit_receipts db) = (if P r then [r] else [])"
    unfolding assms(1) [unfolded the_receipt_def] by simp
  show "P r \<Longrightarrow> receipt_checks (f r) \<Longrightarrow>
      \<exists>db'. update_receipts P f db = (Some 1, db') \<and> the_receipt db' rid (f r) \<and>
        db' = db\<lparr>audit_receipts := update_where P f (audit_receipts db)\<rparr>"
  proof -
    assume r: "P r" "receipt_checks (f r)"
    have "filter (\<lambda>q. receipt_id q = rid) (update_where P f (audit_receipts db)) = [f r]"
      using assms(1) r(1) filter_update_where_id [of P rid f "audit_receipts db"] assms(2,3)
      by (simp add: the_receipt_def)
    moreover have "\<forall>q\<in>set (audit_receipts db). P q \<longrightarrow> receipt_checks (f q)" using P r(2) by blast
    ultimately show ?thesis using len r(1) by (simp add: update_receipts_def the_receipt_def)
  qed
  show "P r \<Longrightarrow> \<not> receipt_checks (f r) \<Longrightarrow> update_receipts P f db = (None, db)"
    using the_receipt_in [OF assms(1)] by (auto simp: update_receipts_def)
  have "update_where P f (audit_receipts db) = audit_receipts db" if "\<not> P r"
    unfolding update_where_def using P that by (intro map_idI) auto
  then show "\<not> P r \<Longrightarrow> update_receipts P f db = (Some 0, db)"
    using P len by (auto simp: update_receipts_def)
qed

text \<open>The outcome of the two updates on a receipt that exists.\<close>

lemma RecordResponse_one:
  assumes "the_receipt db rid r" and "ok RecordUpdate" and "0 \<le> ms"
  shows "open_receipt rid r \<and> response_hash r = None \<Longrightarrow> receipt_checks r \<Longrightarrow>
      \<exists>db' rows. WriteReceiptRecordResponse ok rid h sg ms p95 db = (None, db') \<and>
        the_receipt db' rid (r\<lparr>response_hash := Some h, provider_sig := Some sg, response_latency_ms := Some ms,
                                jit_flag := EvaluateJIT ms p95\<rparr>) \<and> db' = db\<lparr>audit_receipts := rows\<rparr>"
    and "\<not> (open_receipt rid r \<and> response_hash r = None) \<Longrightarrow>
      WriteReceiptRecordResponse ok rid h sg ms p95 db = (Some ErrResponseAlreadyRecorded, db)"
proof -
  let ?P = "\<lambda>q. open_receipt rid q \<and> response_hash q = None"
    and ?f = "\<lambda>q :: receipt_row. q\<lparr>response_hash := Some h, provider_sig := Some sg,
      response_latency_ms := Some ms, jit_flag := EvaluateJIT ms p95\<rparr>"
  note one = update_receipts_one [OF assms(1), of ?P ?f]
  have P: "?P q \<Longrightarrow> receipt_id q = rid" and f: "receipt_id (?f q) = receipt_id q" for q
    by (simp_all add: open_receipt_def)
  show "?P r \<Longrightarrow> receipt_checks r \<Longrightarrow>
      \<exists>db' rows. WriteReceiptRecordResponse ok rid h sg ms p95 db = (None, db') \<and>
        the_receipt db' rid (?f r) \<and> db' = db\<lparr>audit_receipts := rows\<rparr>"
  proof -
    assume r: "?P r" "receipt_checks r"
    then have "receipt_checks (?f r)"
      using assms(3) by (simp add: receipt_checks_def response_consistency_def open_receipt_def)
    from one(1) [OF P f r(1) this] obtain db' rows where "update_receipts ?P ?f db = (Some 1, db')"
      "the_receipt db' rid (?f r)" "db' = db\<lparr>audit_receipts := rows\<rparr>"
      by blast
    with assms(2) show ?thesis by (auto simp: WriteReceiptRecordResponse_def)
  qed
  show "\<not> ?P r \<Longrightarrow> WriteReceiptRecordResponse ok rid h sg ms p95 db = (Some ErrResponseAlreadyRecorded, db)"
    using one(3) [OF P f] assms(2) by (simp add: WriteReceiptRecordResponse_def)
qed

lemma Phase2_one:
  assumes "the_receipt db rid r" and "ok P2Update" and "auditResultToSQL result = Inr x"
  shows "open_receipt rid r \<Longrightarrow> receipt_checks r \<Longrightarrow> response_consistency (r\<lparr>audit_result := Some x\<rparr>) \<Longrightarrow>
      \<exists>db' rows. WriteReceiptPhase2 ok rid result sg ts db = (None, db') \<and>
        the_receipt db' rid (r\<lparr>audit_result := Some x, service_sig := Some sg, service_countersign_ts := Some ts\<rparr>) \<and>
        db' = db\<lparr>audit_receipts := rows\<rparr>"
    and "open_receipt rid r \<Longrightarrow> \<not> response_consistency (r\<lparr>audit_result := Some x\<rparr>) \<Longrightarrow>
      WriteReceiptPhase2 ok rid result sg ts db = (Some ErrAuditDB, db)"
    and "\<not> open_receipt rid r \<Longrightarrow> WriteReceiptPhase2 ok rid result sg ts db = (Some ErrReceiptAlreadyFinal, db)"
proof -
  let ?P = "open_receipt rid"
    and ?f = "\<lambda>q :: receipt_row. q\<lparr>audit_result := Some x, service_sig := Some sg, service_countersign_ts := Some ts\<rparr>"
  note one = update_receipts_one [OF assms(1), of ?P ?f]
  have P: "?P q \<Longrightarrow> receipt_id q = rid" and f: "receipt_id (?f q) = receipt_id q" for q
    by (simp_all add: open_receipt_def)
  have consistent: "response_consistency (?f r) \<longleftrightarrow> response_consistency (r\<lparr>audit_result := Some x\<rparr>)"
    by (cases x) (simp_all add: response_consistency_def)
  show "?P r \<Longrightarrow> receipt_checks r \<Longrightarrow> response_consistency (r\<lparr>audit_result := Some x\<rparr>) \<Longrightarrow>
      \<exists>db' rows. WriteReceiptPhase2 ok rid result sg ts db = (None, db') \<and>
        the_receipt db' rid (?f r) \<and> db' = db\<lparr>audit_receipts := rows\<rparr>"
  proof -
    assume r: "?P r" "receipt_checks r" "response_consistency (r\<lparr>audit_result := Some x\<rparr>)"
    then have "receipt_checks (?f r)" using consistent by (simp add: receipt_checks_def)
    from one(1) [OF P f r(1) this] obtain db' rows where "update_receipts ?P ?f db = (Some 1, db')"
      "the_receipt db' rid (?f r)" "db' = db\<lparr>audit_receipts := rows\<rparr>"
      by blast
    with assms(2,3) show ?thesis by (auto simp: WriteReceiptPhase2_def)
  qed
  show "?P r \<Longrightarrow> \<not> response_consistency (r\<lparr>audit_result := Some x\<rparr>) \<Longrightarrow>
      WriteReceiptPhase2 ok rid result sg ts db = (Some ErrAuditDB, db)"
    using one(2) [OF P f] assms(2,3) consistent by (simp add: WriteReceiptPhase2_def receipt_checks_def)
  show "\<not> ?P r \<Longrightarrow> WriteReceiptPhase2 ok rid result sg ts db = (Some ErrReceiptAlreadyFinal, db)"
    using one(3) [OF P f] assms(2,3) by (simp add: WriteReceiptPhase2_def)
qed

lemma find_provider_in: "find_provider db pid = Some r \<Longrightarrow> r \<in> set (providers db)"
  by (auto simp: find_provider_def find_Some_iff)

text \<open>A dispatch with a fresh nonce and a fresh identifier inserts the pending row.\<close>

lemma Phase1_fresh:
  assumes "validate flds = None" and "\<forall>s. ok s" and "rf_ChallengeNonce flds \<notin> fst ` set (audit_receipt_nonces db)"
    and "newID \<notin> receipt_id ` set (audit_receipts db)" and "receipts_inv db"
    and "find_provider db (rf_ProviderID flds) \<noteq> None"
    and "case rf_FileID flds of None \<Rightarrow> True | Some fid \<Rightarrow> fid \<in> file_id ` set (files db)"
  shows "\<exists>db' rows nonces. WriteReceiptPhase1 ok newID flds db = (Inr newID, db') \<and>
      the_receipt db' newID (pending_row newID flds) \<and> receipts_inv db' \<and>
      db' = db\<lparr>audit_receipt_nonces := nonces, audit_receipts := rows\<rparr>"
proof -
  let ?row = "pending_row newID flds"
  let ?db' = "db\<lparr>audit_receipt_nonces := audit_receipt_nonces db @
      [(rf_ChallengeNonce flds, rf_ServerChallengeTs flds)], audit_receipts := audit_receipts db @ [?row]\<rparr>"
  have row: "receipt_id ?row = newID" "challenge_nonce ?row = rf_ChallengeNonce flds"
    "r_provider_id ?row = rf_ProviderID flds" "r_file_id ?row = rf_FileID flds"
    by (simp_all add: pending_row_def)
  have nonces: "rf_ChallengeNonce flds \<notin> challenge_nonce ` set (audit_receipts db)"
  proof -
    have "challenge_nonce ` set (audit_receipts db) =
        fst ` set (map (\<lambda>r. (challenge_nonce r, server_challenge_ts r)) (audit_receipts db))"
      by (simp add: image_image)
    also have "\<dots> = fst ` set (audit_receipt_nonces db)" using assms(5) by (simp only: receipts_inv_def)
    finally show ?thesis using assms(3) by simp
  qed
  have "rf_ProviderID flds \<in> provider_id ` set (providers db)"
    using assms(6) find_provider_in [of db "rf_ProviderID flds"] find_provider_id [of db "rf_ProviderID flds"]
    by (metis image_eqI not_None_eq)
  then have "receipt_insertable ?row db"
    using assms(4,7) nonces unfolding receipt_insertable_def row by auto
  then have w: "WriteReceiptPhase1 ok newID flds db = (Inr newID, ?db')"
    using assms(1-3) by (simp add: WriteReceiptPhase1_def)
  moreover have "filter (\<lambda>q. receipt_id q = newID) (audit_receipts db) = []"
    using assms(4) by (auto simp: filter_empty_conv)
  then have "the_receipt ?db' newID ?row" using row(1) by (simp add: the_receipt_def)
  moreover have "receipts_inv ?db'" using Phase1_log [OF assms(5), of ok newID flds] w by simp
  ultimately show ?thesis by blast
qed

subsection \<open>Properties\<close>

text \<open>
  C21: the receipt log is append-only and replay-free: in every state reachable by any interleaving of the three
  writes, with any arguments and failing statements, no nonce occurs twice and every row satisfies the table's
  constraints; and whatever happens later, every receipt stays in the log, with the same challenge, and
  unchanged once it has its terminal result.
\<close>

theorem receipt_log_append_only:
  assumes "receipt_step\<^sup>*\<^sup>* empty_db db" and "receipt_step\<^sup>*\<^sup>* db db'" and "r \<in> set (audit_receipts db)"
  shows "distinct (map challenge_nonce (audit_receipts db)) \<and> receipt_checks r \<and>
    (\<exists>r'\<in>set (audit_receipts db'). receipt_id r' = receipt_id r \<and> r_chunk_id r' = r_chunk_id r \<and>
       r_provider_id r' = r_provider_id r \<and> challenge_nonce r' = challenge_nonce r \<and>
       (response_hash r \<noteq> None \<longrightarrow> response_hash r' = response_hash r \<and> provider_sig r' = provider_sig r) \<and>
       (audit_result r \<noteq> None \<longrightarrow> r' = r))"
proof -
  have "receipts_inv empty_db" by (simp add: receipts_inv_def empty_db_def)
  then have inv: "receipts_inv db" using receipt_steps_log [OF assms(1)] by blast
  then have "log_le db db'" using receipt_steps_log [OF assms(2)] by blast
  moreover from assms(3) obtain i where "i < length (audit_receipts db)" "r = audit_receipts db ! i"
    by (auto simp: in_set_conv_nth)
  ultimately have "receipt_le r (audit_receipts db' ! i)" "audit_receipts db' ! i \<in> set (audit_receipts db')"
    by (auto simp: log_le_def)
  moreover have "distinct (map challenge_nonce (audit_receipts db))" using inv by (rule receipts_inv_distinct)
  moreover have "receipt_checks r" using inv assms(3) by (simp add: receipts_inv_def)
  ultimately show ?thesis unfolding receipt_le_def by blast
qed

text \<open>A signature scheme for the witnesses: private and public key coincide.\<close>

definition sample_sign :: sign_fun where
  "sample_sign k m = copy_slice (replicate 64 0) (k @ m)"

lemma sample_key_pair: "key_pair sample_sign (\<lambda>k m s. s = sample_sign k m) (replicate 32 5) (replicate 32 5)"
  by (simp add: key_pair_def sample_sign_def)

definition sample_fields :: ReceiptFields where
  "sample_fields = \<lparr>rf_ChunkID = replicate 32 2, rf_FileID = None, rf_ProviderID = replicate 16 1,
     rf_ChallengeNonce = 1 # replicate 32 3, rf_ServerChallengeTs = 0, rf_AddressWasStale = False\<rparr>"

definition sample_db :: database where
  "sample_db = empty_db\<lparr>providers := [sample_provider]\<rparr>"

lemma find_sample_db: "find_provider sample_db (replicate 16 1) = Some sample_provider"
  unfolding sample_db_def by (rule find_sample_provider)

lemma sample_db_empty [simp]: "audit_receipts sample_db = []" "audit_receipt_nonces sample_db = []"
  "receipts_inv sample_db" "files sample_db = []"
  by (simp_all add: sample_db_def empty_db_def receipts_inv_def)

definition sample_phase1 :: database where
  "sample_phase1 = snd (WriteReceiptPhase1 (\<lambda>_. True) (replicate 16 9) sample_fields sample_db)"

definition sample_phase2 :: database where
  "sample_phase2 = snd (WriteReceiptPhase2 (\<lambda>_. True) (replicate 16 9) AuditTimeout (replicate 64 4) 5 sample_phase1)"

lemma sample_fields_valid: "validate sample_fields = None"
  by code_simp

lemma sample_phase1_receipt:
  "the_receipt sample_phase1 (replicate 16 9) (pending_row (replicate 16 9) sample_fields)"
proof -
  have "\<exists>db' rows nonces. WriteReceiptPhase1 (\<lambda>_. True) (replicate 16 9) sample_fields sample_db =
      (Inr (replicate 16 9), db') \<and> the_receipt db' (replicate 16 9) (pending_row (replicate 16 9) sample_fields) \<and>
      receipts_inv db' \<and> db' = sample_db\<lparr>audit_receipt_nonces := nonces, audit_receipts := rows\<rparr>"
    by (rule Phase1_fresh) (simp_all add: sample_fields_valid find_sample_db, simp_all add: sample_fields_def find_sample_db)
  then show ?thesis by (auto simp: sample_phase1_def)
qed

lemma sample_phase2_receipt:
  "the_receipt sample_phase2 (replicate 16 9) ((pending_row (replicate 16 9) sample_fields)\<lparr>audit_result := Some TIMEOUT,
     service_sig := Some (replicate 64 4), service_countersign_ts := Some 5\<rparr>)"
  using Phase2_one(1) [OF sample_phase1_receipt, of "\<lambda>_. True" AuditTimeout TIMEOUT "replicate 64 4" 5]
  by (auto simp: sample_phase2_def auditResultToSQL_def AuditPass_def AuditFail_def AuditTimeout_def open_receipt_def
      pending_row_def receipt_checks_def response_consistency_def)

text \<open>A timed-out receipt survives an attempt to make it a pass.\<close>

theorem receipt_log_append_only_witness:
  "(pending_row (replicate 16 9) sample_fields)\<lparr>audit_result := Some TIMEOUT, service_sig := Some (replicate 64 4),
     service_countersign_ts := Some 5\<rparr> \<in> set (audit_receipts (snd (WriteReceiptPhase2 (\<lambda>_. True) (replicate 16 9) AuditPass
        (replicate 64 4) 6 sample_phase2)))"
proof -
  have "receipt_step empty_db sample_db" by (rule elsewhere) (simp_all add: empty_db_def)
  moreover have "receipt_step sample_db sample_phase1" unfolding sample_phase1_def by (rule phase1)
  moreover have "receipt_step sample_phase1 sample_phase2" unfolding sample_phase2_def by (rule phase2)
  ultimately have run: "receipt_step\<^sup>*\<^sup>* empty_db sample_phase2" by auto
  have next_step: "receipt_step\<^sup>*\<^sup>* sample_phase2
      (snd (WriteReceiptPhase2 (\<lambda>_. True) (replicate 16 9) AuditPass (replicate 64 4) 6 sample_phase2))"
    using phase2 by blast
  show ?thesis
    using receipt_log_append_only [OF run next_step the_receipt_in [OF sample_phase2_receipt]] by auto
qed

text \<open>
  the order of the three writes is enforced: on a pending receipt a pass or fail is refused until the
  response is recorded, after which a timeout is refused; a response is recorded once, a result is set once, and
  every refused or repeated call reports its error and leaves the database as it was.
\<close>

theorem three_phase_write:
  assumes "the_receipt db rid r" and "open_receipt rid r" and "response_hash r = None" and "receipt_checks r"
    and "\<forall>s. ok s" and "0 \<le> ms" and "0 \<le> ms'" and "res \<in> {AuditPass, AuditFail}" and "res' \<in> {AuditPass, AuditFail, AuditTimeout}"
  shows "WriteReceiptPhase2 ok rid res sg ts db = (Some ErrAuditDB, db) \<and>
    (\<exists>db1. WriteReceiptRecordResponse ok rid h psg ms p95 db = (None, db1) \<and>
       WriteReceiptRecordResponse ok rid h' psg' ms' p95' db1 = (Some ErrResponseAlreadyRecorded, db1) \<and>
       WriteReceiptPhase2 ok rid AuditTimeout sg ts db1 = (Some ErrAuditDB, db1) \<and>
       (\<exists>db2 x. WriteReceiptPhase2 ok rid res sg ts db1 = (None, db2) \<and> auditResultToSQL res = Inr x \<and>
          the_receipt db2 rid (r\<lparr>response_hash := Some h, provider_sig := Some psg, response_latency_ms := Some ms,
            jit_flag := EvaluateJIT ms p95, audit_result := Some x, service_sig := Some sg,
            service_countersign_ts := Some ts\<rparr>) \<and>
          WriteReceiptPhase2 ok rid res' sg' ts' db2 = (Some ErrReceiptAlreadyFinal, db2)))"
proof -
  obtain x where x: "auditResultToSQL res = Inr x" "x \<noteq> TIMEOUT"
    using assms(8) by (auto simp: auditResultToSQL_def AuditPass_def AuditFail_def)
  obtain x' where x': "auditResultToSQL res' = Inr x'"
    using assms(9) by (auto simp: auditResultToSQL_def AuditPass_def AuditFail_def AuditTimeout_def)
  have timeout: "auditResultToSQL AuditTimeout = Inr TIMEOUT"
    by (simp add: auditResultToSQL_def AuditPass_def AuditFail_def AuditTimeout_def)
  have ok: "ok RecordUpdate" "ok P2Update" using assms(5) by blast+
  let ?r1 = "r\<lparr>response_hash := Some h, provider_sig := Some psg, response_latency_ms := Some ms, jit_flag := EvaluateJIT ms p95\<rparr>"
  have early: "WriteReceiptPhase2 ok rid res sg ts db = (Some ErrAuditDB, db)"
    using x assms(3) by (intro Phase2_one(2) [where ok = ok, OF assms(1) ok(2) x(1) assms(2)])
      (auto simp: response_consistency_def split: audit_result_type.split)
  obtain db1 where db1: "WriteReceiptRecordResponse ok rid h psg ms p95 db = (None, db1)" "the_receipt db1 rid ?r1"
    using RecordResponse_one(1) [where ok = ok, OF assms(1) ok(1) assms(6) conjI [OF assms(2,3)] assms(4)] by blast
  have r1: "open_receipt rid ?r1" "receipt_checks ?r1" "response_consistency (?r1\<lparr>audit_result := Some x\<rparr>)"
    "\<not> response_consistency (?r1\<lparr>audit_result := Some TIMEOUT\<rparr>)"
    using assms(2,4,6) x(2)
    by (auto simp: open_receipt_def receipt_checks_def response_consistency_def split: audit_result_type.split)
  have dup: "WriteReceiptRecordResponse ok rid h' psg' ms' p95' db1 = (Some ErrResponseAlreadyRecorded, db1)"
    by (rule RecordResponse_one(2) [where ok = ok, OF db1(2) ok(1) assms(7)]) simp
  have late: "WriteReceiptPhase2 ok rid AuditTimeout sg ts db1 = (Some ErrAuditDB, db1)"
    by (rule Phase2_one(2) [where ok = ok, OF db1(2) ok(2) timeout r1(1,4)])
  obtain db2 where db2: "WriteReceiptPhase2 ok rid res sg ts db1 = (None, db2)"
    "the_receipt db2 rid (?r1\<lparr>audit_result := Some x, service_sig := Some sg, service_countersign_ts := Some ts\<rparr>)"
    using Phase2_one(1) [where ok = ok, OF db1(2) ok(2) x(1) r1(1,2,3)] by blast
  have again: "WriteReceiptPhase2 ok rid res' sg' ts' db2 = (Some ErrReceiptAlreadyFinal, db2)"
    by (rule Phase2_one(3) [where ok = ok, OF db2(2) ok(2) x']) (simp add: open_receipt_def)
  show ?thesis
    using early db1(1) dup late db2 x(1) again by blast
qed

theorem three_phase_write_witness:
  "\<exists>db1 db2. WriteReceiptRecordResponse (\<lambda>_. True) (replicate 16 9) (replicate 32 5) (replicate 64 6) 40 None
       sample_phase1 = (None, db1) \<and>
     WriteReceiptPhase2 (\<lambda>_. True) (replicate 16 9) AuditPass (replicate 64 4) 5 db1 = (None, db2) \<and>
     WriteReceiptPhase2 (\<lambda>_. True) (replicate 16 9) AuditFail (replicate 64 4) 6 db2 = (Some ErrReceiptAlreadyFinal, db2)"
  using three_phase_write [OF sample_phase1_receipt, of "\<lambda>_. True" 40 0 AuditPass AuditFail "replicate 64 4" 5
      "replicate 32 5" "replicate 64 6" None undefined undefined undefined "replicate 64 4" 6]
  by (auto simp: open_receipt_def pending_row_def receipt_checks_def response_consistency_def)

text \<open>
  a provider's signature commits it to one statement: the signing inputs of an accepted
  possession proof determine hash, nonce, time and provider, those of a signed failure determine
  status, nonce, time and provider, and no input is both.
\<close>

theorem signing_inputs_unambiguous:
  assumes "length n = 33" and "length n' = 33" and "length h = 32" and "length h' = 32"
    and "length pid = 16" and "length pid' = 16"
    and "- (2 ^ 63) \<le> ts" and "ts < 2 ^ 63" and "- (2 ^ 63) \<le> ts'" and "ts' < 2 ^ 63"
  shows "(ok_signing_input n h ts pid = ok_signing_input n' h' ts' pid' \<longleftrightarrow> n = n' \<and> h = h' \<and> ts = ts' \<and> pid = pid') \<and>
    (fail_signing_input b n ts pid = fail_signing_input b' n' ts' pid' \<longleftrightarrow> b = b' \<and> n = n' \<and> ts = ts' \<and> pid = pid') \<and>
    ok_signing_input n h ts pid \<noteq> fail_signing_input b n' ts' pid'"
proof -
  have ts: "be_bytes 8 (u64_of_i64 ts) = be_bytes 8 (u64_of_i64 ts') \<longleftrightarrow> ts = ts'"
    using be_u64_inj [OF assms(7-10)] by blast
  have "ok_signing_input n h ts pid = h @ n @ be_bytes 8 (u64_of_i64 ts) @ pid"
    "ok_signing_input n' h' ts' pid' = h' @ n' @ be_bytes 8 (u64_of_i64 ts') @ pid'"
    "fail_signing_input b n ts pid = b # n @ be_bytes 8 (u64_of_i64 ts) @ pid"
    "fail_signing_input b n' ts' pid' = b # n' @ be_bytes 8 (u64_of_i64 ts') @ pid'"
    "fail_signing_input b' n' ts' pid' = b' # n' @ be_bytes 8 (u64_of_i64 ts') @ pid'"
    using assms by (simp_all add: ok_signing_input_layout fail_signing_input_layout)
  note layout = this
  have "length (ok_signing_input n h ts pid) = 89" "length (fail_signing_input b n' ts' pid') = 58"
    unfolding layout using assms by simp_all
  then have "ok_signing_input n h ts pid \<noteq> fail_signing_input b n' ts' pid'" by auto
  then show ?thesis unfolding layout using assms ts by (auto simp: append_eq_append_conv)
qed

theorem signing_inputs_unambiguous_witness:
  "ok_signing_input (replicate 33 1) (replicate 32 2) (- 1) (replicate 16 3) \<noteq>
     ok_signing_input (replicate 33 1) (replicate 32 2) 1 (replicate 16 3)"
  using signing_inputs_unambiguous [of "replicate 33 1" "replicate 33 1" "replicate 32 2" "replicate 32 2"
      "replicate 16 3" "replicate 16 3" "- 1" 1]
  by simp

end
