(* ===== verification/AuditProtocol.thy ===== *)
theory AuditProtocol
  imports Receipts Storage
begin

text \<open>
  The audit challenge protocol: the provider's stream handler, \<^verbatim>\<open>cmd/provider/handler_audit.go\<close>, and the
  microservice's dispatcher, \<^verbatim>\<open>cmd/microservice/audit_dispatch.go\<close>. A stream is the list of the bytes that the
  other side sends; a read that asks for more fails. \<open>dispatch_env\<close> fixes what one dispatch observes: the
  cryptographic functions and keys, the clock, the outcome of the SQL statements and stream operations, the
  bytes the peer answers, and the time until they are read. Write errors of the handler and metrics are
  not part of the state, log lines neither.
\<close>

subsection \<open>The provider\<close>

definition auditLengthPrefixSize :: nat where "auditLengthPrefixSize = 4"
definition auditChunkIDSize :: nat where "auditChunkIDSize = 32"
definition auditChallengeNonceSize :: nat where "auditChallengeNonceSize = 33"
definition auditServerTsSize :: nat where "auditServerTsSize = 8"
definition auditFrame1PayloadBytes :: nat where
  "auditFrame1PayloadBytes = auditChunkIDSize + auditChallengeNonceSize + auditServerTsSize"
definition auditResponseHashSize :: nat where "auditResponseHashSize = 32"
definition auditProviderSigSize :: nat where "auditProviderSigSize = 64"

definition auditStatusOK :: byte where "auditStatusOK = 0x00"
definition auditStatusFailNotFound :: byte where "auditStatusFailNotFound = 0x01"
definition auditStatusFailCorruption :: byte where "auditStatusFailCorruption = 0x02"
definition auditStatusInvalidNonce :: byte where "auditStatusInvalidNonce = 0x03"
definition auditStatusInternalError :: byte where "auditStatusInternalError = 0x04"

definition auditVersionRetirementWindow :: duration where "auditVersionRetirementWindow = 24 * hour"

record auditNonceVersionTracker =
  highest :: byte
  highestFirstAt :: time

definition newAuditNonceVersionTracker :: auditNonceVersionTracker where
  "newAuditNonceVersionTracker = \<lparr>highest = 0, highestFirstAt = zero_time\<rparr>"

definition tracker_Accept :: "time \<Rightarrow> byte \<Rightarrow> auditNonceVersionTracker \<Rightarrow> bool \<times> auditNonceVersionTracker" where
  "tracker_Accept now version t =
     (if version = 0 then (False, t)
      else if highest t = 0 then (True, t\<lparr>highest := version, highestFirstAt := now\<rparr>)
      else if version \<ge> highest t then
        (True, if version > highest t then t\<lparr>highest := version, highestFirstAt := now\<rparr> else t)
      else (now - highestFirstAt t \<le> auditVersionRetirementWindow, t))"

definition audit_writeStatusOnly :: "byte \<Rightarrow> byte list" where
  "audit_writeStatusOnly st = be_bytes auditLengthPrefixSize 1 @ [st]"

definition audit_writeFailFrame :: "byte \<Rightarrow> byte list \<Rightarrow> byte list" where
  "audit_writeFailFrame st sig = be_bytes auditLengthPrefixSize (1 + auditProviderSigSize) @ [st] @ sig"

definition audit_writeOKFrame :: "byte list \<Rightarrow> byte list \<Rightarrow> byte list" where
  "audit_writeOKFrame responseHash sig =
     be_bytes auditLengthPrefixSize (1 + auditResponseHashSize + auditProviderSigSize) @
     [auditStatusOK] @ responseHash @ sig"

record AuditHandler =
  ah_sha :: hash
  ah_sign :: sign_fun
  ah_store :: "chunk_id \<Rightarrow> store_error + byte list"
  ah_providerSigningKey :: "byte list"
  ah_providerIDBytes :: "byte list"

definition auditSigningInputPrefix :: "AuditHandler \<Rightarrow> byte list \<Rightarrow> int \<Rightarrow> byte list \<Rightarrow> byte list" where
  "auditSigningInputPrefix h nonce serverChallengeTsMs leading =
     leading @ nonce @ be_bytes 8 (u64_of_i64 serverChallengeTsMs) @ ah_providerIDBytes h"

definition signOKReceipt :: "AuditHandler \<Rightarrow> byte list \<Rightarrow> byte list \<Rightarrow> int \<Rightarrow> byte list" where
  "signOKReceipt h responseHash nonce serverChallengeTsMs =
     SignBytes (ah_sha h) (ah_sign h) (ah_providerSigningKey h)
       (auditSigningInputPrefix h nonce serverChallengeTsMs responseHash)"

definition signFailReceipt :: "AuditHandler \<Rightarrow> byte \<Rightarrow> byte list \<Rightarrow> int \<Rightarrow> byte list" where
  "signFailReceipt h st nonce serverChallengeTsMs =
     SignBytes (ah_sha h) (ah_sign h) (ah_providerSigningKey h)
       (auditSigningInputPrefix h nonce serverChallengeTsMs [st])"

text \<open>\<^verbatim>\<open>readStreamFull(s, buf)\<close> with a buffer of \<open>n\<close> bytes: what was read and what is left on the stream.\<close>

definition read_full :: "nat \<Rightarrow> byte list \<Rightarrow> (byte list \<times> byte list) option" where
  "read_full n input = (if length input < n then None else Some (take n input, drop n input))"

text \<open>The lookup and the frame that answers an accepted challenge.\<close>

definition answer_challenge :: "AuditHandler \<Rightarrow> byte list \<Rightarrow> byte list \<Rightarrow> int \<Rightarrow> byte list" where
  "answer_challenge h chunkID nonce serverChallengeTsMs =
     (case ah_store h chunkID of
        Inl ErrChunkNotFound \<Rightarrow>
          audit_writeFailFrame auditStatusFailNotFound
            (signFailReceipt h auditStatusFailNotFound nonce serverChallengeTsMs)
      | Inl ErrContentHashMismatch \<Rightarrow>
          audit_writeFailFrame auditStatusFailCorruption
            (signFailReceipt h auditStatusFailCorruption nonce serverChallengeTsMs)
      | Inl _ \<Rightarrow> audit_writeStatusOnly auditStatusInternalError
      | Inr chunkData \<Rightarrow>
          let responseHash = ah_sha h (chunkData @ nonce)
          in audit_writeOKFrame responseHash (signOKReceipt h responseHash nonce serverChallengeTsMs))"

definition audit_HandleStream ::
  "AuditHandler \<Rightarrow> time \<Rightarrow> auditNonceVersionTracker \<Rightarrow> byte list \<Rightarrow> byte list \<times> auditNonceVersionTracker" where
  "audit_HandleStream h now versions s =
     (case read_full auditLengthPrefixSize s of
        None \<Rightarrow> ([], versions)
      | Some (lenBuf, s) \<Rightarrow>
          let len = be_value lenBuf
          in if len \<noteq> auditFrame1PayloadBytes then (audit_writeStatusOnly auditStatusInvalidNonce, versions)
             else case read_full len s of
                None \<Rightarrow> ([], versions)
              | Some (payload, s) \<Rightarrow>
                  let chunkID = slice 0 auditChunkIDSize payload;
                      nonce = slice auditChunkIDSize (auditChunkIDSize + auditChallengeNonceSize) payload;
                      ts_off = auditChunkIDSize + auditChallengeNonceSize;
                      serverChallengeTsMs = i64 (int (be_value (slice ts_off (ts_off + auditServerTsSize) payload)))
                  in case tracker_Accept now (hd nonce) versions of
                       (False, versions) \<Rightarrow> (audit_writeStatusOnly auditStatusInvalidNonce, versions)
                     | (True, versions) \<Rightarrow> (answer_challenge h chunkID nonce serverChallengeTsMs, versions))"

subsection \<open>The dispatcher\<close>

definition challengeRequestFrameSize :: nat where "challengeRequestFrameSize = 32 + 33 + 8"
definition challengeResponseOKSize :: nat where "challengeResponseOKSize = 1 + 32 + 64"
definition challengeResponseFailSize :: nat where "challengeResponseFailSize = 1 + 64"

definition challengeStatusOK :: byte where "challengeStatusOK = 0x00"
definition challengeStatusFailNotFound :: byte where "challengeStatusFailNotFound = 0x01"
definition challengeStatusFailCorruption :: byte where "challengeStatusFailCorruption = 0x02"
definition challengeStatusInvalidNonce :: byte where "challengeStatusInvalidNonce = 0x03"
definition challengeStatusInternalError :: byte where "challengeStatusInternalError = 0x04"

definition throughputBytesPerKB :: rat where "throughputBytesPerKB = 1024"
definition msPerSecondFloat :: rat where "msPerSecondFloat = 1000"
definition bootstrapFallbackRTO :: duration where "bootstrapFallbackRTO = 15 * second"
definition rtoVarianceMultiplier :: rat where "rtoVarianceMultiplier = 4"
definition rtoSampleThreshold :: int where "rtoSampleThreshold = 5"

record chunkAssignmentRow =
  ca_ChunkID :: "byte list"
  ca_FileID :: "uuid option"
  ca_ProviderID :: uuid
  ca_MultiaddrStale :: bool

definition loadActiveChunkAssignments :: "bool \<Rightarrow> database \<Rightarrow> chunkAssignmentRow list option" where
  "loadActiveChunkAssignments ok db =
     (if \<not> ok then None
      else Some (List.map_filter
        (\<lambda>a. map_option
               (\<lambda>p. \<lparr>ca_ChunkID = copy_slice (replicate 32 0) (a_chunk_id a),
                      ca_FileID = Option.bind (a_segment_id a) (segment_file db),
                      ca_ProviderID = a_provider_id a, ca_MultiaddrStale = multiaddr_stale p\<rparr>)
               (find_provider db (a_provider_id a)))
        (filter (\<lambda>a. a_status a = A_ACTIVE) (chunk_assignments db))))"

definition writeChallengeRequest :: "byte list \<Rightarrow> byte list \<Rightarrow> int \<Rightarrow> byte list" where
  "writeChallengeRequest chunkID nonce serverTsMs =
     be_bytes 4 challengeRequestFrameSize @ chunkID @ nonce @ be_bytes 8 (u64_of_i64 serverTsMs)"

text \<open>\<open>None\<close> is any of the read and format errors, which the caller does not distinguish.\<close>

definition readChallengeResponse :: "byte list \<Rightarrow> (byte \<times> byte list \<times> byte list) option" where
  "readChallengeResponse r =
     (case read_full 4 r of
        None \<Rightarrow> None
      | Some (lengthBuf, r) \<Rightarrow>
          (case read_full (be_value lengthBuf) r of
             None \<Rightarrow> None
           | Some (body, _) \<Rightarrow>
               if length body < 1 then None
               else let st = hd body
                    in if st = challengeStatusOK then
                         (if length body \<noteq> challengeResponseOKSize then None
                          else Some (st, slice 1 33 body, drop 33 body))
                       else if st = challengeStatusFailNotFound \<or> st = challengeStatusFailCorruption then
                         (if length body \<noteq> challengeResponseFailSize then None
                          else Some (st, replicate 32 0, drop 1 body))
                       else if st = challengeStatusInvalidNonce \<or> st = challengeStatusInternalError then
                         Some (st, replicate 32 0, replicate 64 0)
                       else None))"

datatype dispatch_error =
    DSecret secret_error
  | DPanic
  | DReceipt audit_error
  | DComputeRTO
  | DSetDeadline
  | DPubKey
  | DThroughput

record dispatch_env =
  e_hmac :: "byte list \<Rightarrow> byte list \<Rightarrow> byte list"
  e_sha :: hash
  e_verify :: verify_fun
  e_sign :: sign_fun
  e_signingKey :: "byte list"
  e_newID :: uuid
  e_now :: time
  e_now_response :: time
  e_now_sign :: time
  e_now_score :: time
  e_ok :: "receipt_stmt \<Rightarrow> bool"
  e_rto_ok :: bool
  e_median_ok :: bool
  e_pubkey_ok :: bool
  e_p95_ok :: bool
  e_passes_ok :: "passes_stmt \<Rightarrow> bool"
  e_reset_ok :: bool
  e_updateRTO_ok :: "rto_stmt \<Rightarrow> bool"
  e_open :: bool
  e_setDeadline :: bool
  e_write :: bool
  e_peer :: "byte list \<Rightarrow> byte list"
  e_delay :: duration

text \<open>\<^verbatim>\<open>time.Duration(x)\<close> of a \<^verbatim>\<open>float64\<close>: truncation towards zero.\<close>

definition duration_of :: "rat \<Rightarrow> duration" where
  "duration_of x = (if 0 \<le> x then \<lfloor>x\<rfloor> else \<lceil>x\<rceil>)"

definition computeRTO ::
  "dispatch_env \<Rightarrow> uuid \<Rightarrow> database \<Rightarrow> poolMedianCacheEntry option \<Rightarrow>
     duration option \<times> poolMedianCacheEntry option" where
  "computeRTO env providerID db median =
     (if \<not> e_rto_ok env then (None, median)
      else case find_provider db providerID of
        None \<Rightarrow> (None, median)
      | Some r \<Rightarrow>
          (case (rto_sample_count r < rtoSampleThreshold, avg_rtt_ms r) of
             (False, Some avgRTT) \<Rightarrow>
               (Some (duration_of ((avgRTT + rtoVarianceMultiplier * var_rtt_ms r) * of_int millisecond)), median)
           | _ \<Rightarrow>
               (case PoolMedianRTO (e_median_ok env) (e_now env) db median of
                  (Inr medianMs, median) \<Rightarrow> (Some (duration_of (medianMs * of_int millisecond)), median)
                | (Inl e, median) \<Rightarrow>
                    (if e = ErrNoPoolMedianAvailable then Some bootstrapFallbackRTO else None, median))))"

definition lookupProviderPubKey :: "bool \<Rightarrow> uuid \<Rightarrow> database \<Rightarrow> byte list option" where
  "lookupProviderPubKey ok providerID db =
     (if \<not> ok then None
      else case find_provider db providerID of
        None \<Rightarrow> None
      | Some r \<Rightarrow> if length (ed25519_public_key r) \<noteq> 32 then None else Some (ed25519_public_key r))"

definition currentP95ThroughputKbps :: "bool \<Rightarrow> uuid \<Rightarrow> database \<Rightarrow> rat option option" where
  "currentP95ThroughputKbps ok providerID db =
     (if \<not> ok then None else map_option p95_throughput_kbps (find_provider db providerID))"

definition computeThroughputKbps :: "NetworkProfile \<Rightarrow> int \<Rightarrow> rat" where
  "computeThroughputKbps profile responseLatencyMs =
     (if responseLatencyMs \<le> 0 then 0
      else (of_int (ShardSizeField profile) / throughputBytesPerKB) / (of_int responseLatencyMs / msPerSecondFloat))"

definition adjudicateResponse ::
  "dispatch_env \<Rightarrow> byte list \<Rightarrow> int \<Rightarrow> uuid \<Rightarrow> byte \<Rightarrow> byte list \<Rightarrow> byte list \<Rightarrow> database \<Rightarrow> AuditResult option" where
  "adjudicateResponse env nonce serverChallengeTsMs providerUUID st responseHash providerSig db =
     (if st = challengeStatusInvalidNonce \<or> st = challengeStatusInternalError then Some AuditFail
      else case lookupProviderPubKey (e_pubkey_ok env) providerUUID db of
        None \<Rightarrow> None
      | Some providerPubKey \<Rightarrow>
          if st = challengeStatusOK then
            (if ValidateResponse (e_sha env) (e_verify env) nonce responseHash serverChallengeTsMs providerUUID
                  providerSig providerPubKey \<noteq> None
             then Some AuditFail else Some AuditPass)
          else Some AuditFail)"

definition signServiceReceipt :: "dispatch_env \<Rightarrow> uuid \<Rightarrow> AuditResult \<Rightarrow> byte list \<times> time" where
  "signServiceReceipt env receiptID result =
     (copy_slice (replicate 64 0)
        (e_sign env (e_signingKey env)
           (receiptID @ [word_of_int result] @ be_bytes 8 (u64_of_i64 (e_now_sign env div millisecond)))),
      e_now_sign env)"

definition finalizeTimeout ::
  "dispatch_env \<Rightarrow> uuid \<Rightarrow> chunkAssignmentRow \<Rightarrow> database \<Rightarrow> dispatch_error option \<times> database" where
  "finalizeTimeout env receiptID assignment db =
     (let (serviceSig, serviceTS) = signServiceReceipt env receiptID AuditTimeout
      in case WriteReceiptPhase2 (e_ok env) receiptID AuditTimeout serviceSig serviceTS db of
           (Some e, db) \<Rightarrow> (Some (DReceipt e), db)
         | (None, db) \<Rightarrow>
             (None, if \<not> ca_MultiaddrStale assignment
                    then snd (ResetConsecutivePasses (e_reset_ok env) (ca_ProviderID assignment) db) else db))"

text \<open>Steps 8 and 9: the vetting counter and the round-trip estimate.\<close>

definition score_result ::
  "dispatch_env \<Rightarrow> NetworkProfile \<Rightarrow> chunkAssignmentRow \<Rightarrow> AuditResult \<Rightarrow> int \<Rightarrow> database \<Rightarrow> database" where
  "score_result env profile assignment result responseLatencyMs db =
     (let providerID = ca_ProviderID assignment;
          db = (if result = AuditPass
                then snd (IncrementConsecutivePasses (e_passes_ok env) (e_now_score env) providerID profile db)
                else if result \<noteq> AuditTimeout \<or> \<not> ca_MultiaddrStale assignment
                then snd (ResetConsecutivePasses (e_reset_ok env) providerID db)
                else db)
      in if result \<noteq> AuditTimeout
         then snd (UpdateRTO (e_updateRTO_ok env) providerID responseLatencyMs
                     (computeThroughputKbps profile responseLatencyMs) db)
         else db)"

text \<open>From the response to the end of \<^verbatim>\<open>dispatchOneChallenge\<close>.\<close>

definition record_result ::
  "dispatch_env \<Rightarrow> NetworkProfile \<Rightarrow> chunkAssignmentRow \<Rightarrow> byte list \<Rightarrow> int \<Rightarrow> byte \<times> byte list \<times> byte list \<Rightarrow>
     database \<Rightarrow> dispatch_error option \<times> database" where
  "record_result env profile assignment nonce serverTsMs response db =
     (let (st, responseHash, providerSig) = response;
          providerID = ca_ProviderID assignment;
          receiptID = e_newID env;
          responseLatencyMs = e_delay env div millisecond
      in case adjudicateResponse env nonce serverTsMs providerID st responseHash providerSig db of
           None \<Rightarrow> (Some DPubKey, db)
         | Some result \<Rightarrow>
             (case currentP95ThroughputKbps (e_p95_ok env) providerID db of
                None \<Rightarrow> (Some DThroughput, db)
              | Some p95ThroughputKbps \<Rightarrow>
                  (case WriteReceiptRecordResponse (e_ok env) receiptID responseHash providerSig responseLatencyMs
                          p95ThroughputKbps db of
                     (Some e, db) \<Rightarrow> (Some (DReceipt e), db)
                   | (None, db) \<Rightarrow>
                       let (serviceSig, serviceTS) = signServiceReceipt env receiptID result
                       in case WriteReceiptPhase2 (e_ok env) receiptID result serviceSig serviceTS db of
                            (Some e, db) \<Rightarrow> (Some (DReceipt e), db)
                          | (None, db) \<Rightarrow> (None, score_result env profile assignment result responseLatencyMs db))))"

definition dispatchOneChallenge ::
  "dispatch_env \<Rightarrow> NetworkProfile \<Rightarrow> ClusterSecretCache \<Rightarrow> chunkAssignmentRow \<Rightarrow>
     database \<times> poolMedianCacheEntry option \<Rightarrow>
     dispatch_error option \<times> database \<times> poolMedianCacheEntry option" where
  "dispatchOneChallenge env profile cache assignment s =
     (let (db, median) = s
      in case CurrentSecret (e_now env) cache of
           Inl e \<Rightarrow> (Some (DSecret e), db, median)
         | Inr (secret, versionByte) \<Rightarrow>
             let serverTsMs = e_now env div millisecond
             in case ChallengeNonce (e_hmac env) secret versionByte (ca_ChunkID assignment) serverTsMs of
                  None \<Rightarrow> (Some DPanic, db, median)
                | Some nonce \<Rightarrow>
                    (case WriteReceiptPhase1 (e_ok env) (e_newID env)
                            \<lparr>rf_ChunkID = ca_ChunkID assignment, rf_FileID = ca_FileID assignment,
                             rf_ProviderID = ca_ProviderID assignment, rf_ChallengeNonce = nonce,
                             rf_ServerChallengeTs = serverTsMs * millisecond,
                             rf_AddressWasStale = ca_MultiaddrStale assignment\<rparr> db of
                       (Inl e, db) \<Rightarrow> (Some (DReceipt e), db, median)
                     | (Inr receiptID, db) \<Rightarrow>
                         if \<not> e_open env then
                           (case finalizeTimeout env receiptID assignment db of (r, db) \<Rightarrow> (r, db, median))
                         else case computeRTO env (ca_ProviderID assignment) db median of
                             (None, median) \<Rightarrow> (Some DComputeRTO, db, median)
                           | (Some rto, median) \<Rightarrow>
                               if \<not> e_setDeadline env then (Some DSetDeadline, db, median)
                               else if \<not> e_write env \<or> e_delay env > rto then
                                 (case finalizeTimeout env receiptID assignment db of (r, db) \<Rightarrow> (r, db, median))
                               else case readChallengeResponse
                                           (e_peer env (writeChallengeRequest (ca_ChunkID assignment) nonce serverTsMs)) of
                                   None \<Rightarrow>
                                     (case finalizeTimeout env receiptID assignment db of (r, db) \<Rightarrow> (r, db, median))
                                 | Some response \<Rightarrow>
                                     if \<not> IsVersionValid (e_now_response env) cache (hd nonce) then (None, db, median)
                                     else case record_result env profile assignment nonce serverTsMs response db of
                                            (r, db) \<Rightarrow> (r, db, median)))"

text \<open>
  One cycle: every active assignment is dispatched once by its own goroutine. \<open>order\<close> is the order in which the
  random delays let them run, \<open>envs\<close> what each observes; an assignment whose delay could not be drawn is skipped.
\<close>

definition randomJitterDelay :: "(int \<Rightarrow> int option) \<Rightarrow> duration \<Rightarrow> duration option" where
  "randomJitterDelay rand_Int window = (if window \<le> 0 then Some 0 else rand_Int window)"

definition dispatchAuditCycle ::
  "bool \<Rightarrow> (chunkAssignmentRow \<Rightarrow> dispatch_env) \<Rightarrow> (chunkAssignmentRow \<Rightarrow> int \<Rightarrow> int option) \<Rightarrow>
     (chunkAssignmentRow list \<Rightarrow> chunkAssignmentRow list) \<Rightarrow> NetworkProfile \<Rightarrow> ClusterSecretCache \<Rightarrow>
     database \<times> poolMedianCacheEntry option \<Rightarrow> database \<times> poolMedianCacheEntry option" where
  "dispatchAuditCycle ok envs rand_Int order profile cache s =
     (case loadActiveChunkAssignments ok (fst s) of
        None \<Rightarrow> s
      | Some assignments \<Rightarrow>
          fold (\<lambda>a s. snd (dispatchOneChallenge (envs a) profile cache a s))
            (order (filter (\<lambda>a. randomJitterDelay (rand_Int a) (PollingInterval profile) \<noteq> None) assignments)) s)"

subsection \<open>Lemmas: the dispatcher keeps the receipt log\<close>

lemma Increment_frame: "\<exists>ps. snd (IncrementConsecutivePasses ok now pid profile db) = db\<lparr>providers := ps\<rparr>"
  by (rule exI [of _ "providers (snd (IncrementConsecutivePasses ok now pid profile db))"])
    (auto simp: IncrementConsecutivePasses_def Let_def split: option.split)

lemma Reset_frame: "\<exists>ps. snd (ResetConsecutivePasses ok pid db) = db\<lparr>providers := ps\<rparr>"
  by (rule exI [of _ "providers (snd (ResetConsecutivePasses ok pid db))"]) (auto simp: ResetConsecutivePasses_def)

lemma UpdateRTO_frame: "\<exists>ps. snd (UpdateRTO ok pid ms tp db) = db\<lparr>providers := ps\<rparr>"
  by (rule exI [of _ "providers (snd (UpdateRTO ok pid ms tp db))"]) (auto simp: UpdateRTO_def split: option.split)

lemma score_result_frame: "\<exists>ps. score_result env profile a result ms db = db\<lparr>providers := ps\<rparr>"
proof -
  have same: "\<exists>ps. db = db\<lparr>providers := ps\<rparr>" by (rule exI [of _ "providers db"]) simp
  have "\<exists>ps. (if result = AuditPass
      then snd (IncrementConsecutivePasses (e_passes_ok env) (e_now_score env) (ca_ProviderID a) profile db)
      else if result \<noteq> AuditTimeout \<or> \<not> ca_MultiaddrStale a
      then snd (ResetConsecutivePasses (e_reset_ok env) (ca_ProviderID a) db) else db) = db\<lparr>providers := ps\<rparr>"
    using Increment_frame Reset_frame same by (simp split: if_split)
  then obtain ps where "(if result = AuditPass
      then snd (IncrementConsecutivePasses (e_passes_ok env) (e_now_score env) (ca_ProviderID a) profile db)
      else if result \<noteq> AuditTimeout \<or> \<not> ca_MultiaddrStale a
      then snd (ResetConsecutivePasses (e_reset_ok env) (ca_ProviderID a) db) else db) = db\<lparr>providers := ps\<rparr>"
    by blast
  then show ?thesis
    using UpdateRTO_frame [of "e_updateRTO_ok env" "ca_ProviderID a" ms "computeThroughputKbps profile ms" "db\<lparr>providers := ps\<rparr>"]
    by (auto simp: score_result_def Let_def)
qed

lemma receipt_step_providers: "receipt_step db (db\<lparr>providers := ps\<rparr>)"
  by (rule elsewhere) simp_all

lemma finalizeTimeout_steps: "receipt_step\<^sup>*\<^sup>* db (snd (finalizeTimeout env rid a db))"
proof -
  obtain sg ts where sign: "signServiceReceipt env rid AuditTimeout = (sg, ts)" by (cases "signServiceReceipt env rid AuditTimeout")
  obtain r db1 where w: "WriteReceiptPhase2 (e_ok env) rid AuditTimeout sg ts db = (r, db1)"
    by (cases "WriteReceiptPhase2 (e_ok env) rid AuditTimeout sg ts db")
  then have "receipt_step db db1" using phase2 [of db "e_ok env" rid AuditTimeout sg ts] by simp
  moreover have "receipt_step db1 (snd (ResetConsecutivePasses (e_reset_ok env) (ca_ProviderID a) db1))"
    using Reset_frame [of "e_reset_ok env" "ca_ProviderID a" db1] receipt_step_providers by metis
  ultimately show ?thesis
    using sign w by (cases r) (auto simp: finalizeTimeout_def)
qed

lemma record_result_steps: "receipt_step\<^sup>*\<^sup>* db (snd (record_result env profile a nonce ts resp db))"
proof -
  obtain st h psg where resp: "resp = (st, h, psg)" by (cases resp)
  show ?thesis
  proof (cases "adjudicateResponse env nonce ts (ca_ProviderID a) st h psg db")
    case None
    with resp show ?thesis by (simp add: record_result_def)
  next
    case (Some result)
    note adj = this
    show ?thesis
    proof (cases "currentP95ThroughputKbps (e_p95_ok env) (ca_ProviderID a) db")
      case None
      with resp adj show ?thesis by (simp add: record_result_def)
    next
      case (Some p95)
      let ?ms = "e_delay env div millisecond"
      obtain r1 db1 where w1: "WriteReceiptRecordResponse (e_ok env) (e_newID env) h psg ?ms p95 db = (r1, db1)"
        by (cases "WriteReceiptRecordResponse (e_ok env) (e_newID env) h psg ?ms p95 db")
      then have s1: "receipt_step db db1"
        using record_response [of db "e_ok env" "e_newID env" h psg ?ms p95] by simp
      obtain sg sts where sign: "signServiceReceipt env (e_newID env) result = (sg, sts)"
        by (cases "signServiceReceipt env (e_newID env) result")
      obtain r2 db2 where w2: "WriteReceiptPhase2 (e_ok env) (e_newID env) result sg sts db1 = (r2, db2)"
        by (cases "WriteReceiptPhase2 (e_ok env) (e_newID env) result sg sts db1")
      then have s2: "receipt_step db1 db2" using phase2 [of db1 "e_ok env" "e_newID env" result sg sts] by simp
      have s3: "receipt_step db2 (score_result env profile a result ?ms db2)"
        using score_result_frame [of env profile a result ?ms db2] receipt_step_providers by metis
      from resp adj Some w1 sign w2 have "snd (record_result env profile a nonce ts resp db) =
          (if r1 \<noteq> None then db1 else if r2 \<noteq> None then db2 else score_result env profile a result ?ms db2)"
        by (auto simp: record_result_def Let_def split: option.split)
      with s1 s2 s3 show ?thesis by auto
    qed
  qed
qed

abbreviation challenge_ts :: "dispatch_env \<Rightarrow> int" where
  "challenge_ts env \<equiv> e_now env div millisecond"

abbreviation challenge_fields :: "dispatch_env \<Rightarrow> chunkAssignmentRow \<Rightarrow> byte list \<Rightarrow> ReceiptFields" where
  "challenge_fields env a nonce \<equiv> \<lparr>rf_ChunkID = ca_ChunkID a, rf_FileID = ca_FileID a, rf_ProviderID = ca_ProviderID a,
     rf_ChallengeNonce = nonce, rf_ServerChallengeTs = challenge_ts env * millisecond,
     rf_AddressWasStale = ca_MultiaddrStale a\<rparr>"

text \<open>A dispatch either stops before the insert or inserts and continues in one of three ways.\<close>

lemma dispatch_cases:
  assumes "dispatchOneChallenge env profile cache a (db, m) = (r, db', m')"
  obtains (unsent) "db' = db" "r \<noteq> None"
  | (sent) secret v nonce db1 where "CurrentSecret (e_now env) cache = Inr (secret, v)"
      "ChallengeNonce (e_hmac env) secret v (ca_ChunkID a) (challenge_ts env) = Some nonce"
      "WriteReceiptPhase1 (e_ok env) (e_newID env) (challenge_fields env a nonce) db = (Inr (e_newID env), db1)"
      "(r, db') = finalizeTimeout env (e_newID env) a db1 \<or> db' = db1 \<or>
       (\<exists>resp rto. computeRTO env (ca_ProviderID a) db1 m = (Some rto, m') \<and> e_delay env \<le> rto \<and>
          readChallengeResponse (e_peer env (writeChallengeRequest (ca_ChunkID a) nonce (challenge_ts env))) = Some resp \<and>
          IsVersionValid (e_now_response env) cache (hd nonce) \<and>
          (r, db') = record_result env profile a nonce (challenge_ts env) resp db1)"
proof (cases "CurrentSecret (e_now env) cache")
  case (Inl e)
  with assms unsent show ?thesis by (auto simp: dispatchOneChallenge_def)
next
  case (Inr sv)
  then obtain secret v where current: "CurrentSecret (e_now env) cache = Inr (secret, v)" by (cases sv) auto
  show ?thesis
  proof (cases "ChallengeNonce (e_hmac env) secret v (ca_ChunkID a) (challenge_ts env)")
    case None
    with assms current unsent show ?thesis by (auto simp: dispatchOneChallenge_def)
  next
    case (Some nonce)
    note nonce = this
    let ?w = "WriteReceiptPhase1 (e_ok env) (e_newID env) (challenge_fields env a nonce) db"
    show ?thesis
    proof (cases "fst ?w")
      case (Inl e)
      then have "?w = (Inl e, db)"
        by (auto simp: WriteReceiptPhase1_def split: option.splits if_splits)
      with assms current nonce unsent show ?thesis by (auto simp: dispatchOneChallenge_def)
    next
      case (Inr rid)
      then obtain db1 where w: "?w = (Inr (e_newID env), db1)"
        by (auto simp: WriteReceiptPhase1_def split: option.splits if_splits)
      obtain rr dbt where t: "finalizeTimeout env (e_newID env) a db1 = (rr, dbt)"
        by (cases "finalizeTimeout env (e_newID env) a db1")
      have "(r, db') = finalizeTimeout env (e_newID env) a db1 \<or> db' = db1 \<or>
       (\<exists>resp rto. computeRTO env (ca_ProviderID a) db1 m = (Some rto, m') \<and> e_delay env \<le> rto \<and>
          readChallengeResponse (e_peer env (writeChallengeRequest (ca_ChunkID a) nonce (challenge_ts env))) = Some resp \<and>
          IsVersionValid (e_now_response env) cache (hd nonce) \<and>
          (r, db') = record_result env profile a nonce (challenge_ts env) resp db1)"
        using assms current nonce w t
        by (auto simp: dispatchOneChallenge_def Let_def not_less split: if_splits prod.splits option.splits)
      with current nonce w show ?thesis by (rule sent)
    qed
  qed
qed

lemma dispatch_steps:
  assumes "dispatchOneChallenge env profile cache a (db, m) = (r, db', m')"
  shows "receipt_step\<^sup>*\<^sup>* db db'"
  using assms
proof (cases rule: dispatch_cases)
  case unsent
  then show ?thesis by simp
next
  case (sent secret v nonce db1)
  have first: "receipt_step db db1"
    using phase1 [of db "e_ok env" "e_newID env" "challenge_fields env a nonce"] sent(3) by simp
  have "receipt_step\<^sup>*\<^sup>* db1 db'"
    using sent(4) finalizeTimeout_steps [of db1 env "e_newID env" a]
      record_result_steps [of db1 env profile a nonce "challenge_ts env"]
    by (metis rtranclp.rtrancl_refl snd_conv)
  with first show ?thesis by (rule converse_rtranclp_into_rtranclp)
qed

lemma cycle_steps: "receipt_step\<^sup>*\<^sup>* (fst s) (fst (dispatchAuditCycle ok envs rnd order profile cache s))"
proof -
  have one: "receipt_step\<^sup>*\<^sup>* (fst s) (fst (snd (dispatchOneChallenge env profile cache a s)))" for env a s
    using dispatch_steps [of env profile cache a "fst s" "snd s"]
    by (cases "dispatchOneChallenge env profile cache a s") auto
  have "receipt_step\<^sup>*\<^sup>* (fst s) (fst (fold (\<lambda>a s. snd (dispatchOneChallenge (envs a) profile cache a s)) as s))" for as
  proof (induction as arbitrary: s)
    case Nil
    then show ?case by simp
  next
    case (Cons a as)
    from Cons [of "snd (dispatchOneChallenge (envs a) profile cache a s)"] one [of s "envs a" a] show ?case
      by simp
  qed
  then show ?thesis by (simp add: dispatchAuditCycle_def split: option.split)
qed

subsection \<open>Lemmas: frames on the wire\<close>

lemma read_full_append: "length a = n \<Longrightarrow> read_full n (a @ b) = Some (a, b)"
  by (simp add: read_full_def)

lemma read_full_all: "length a = n \<Longrightarrow> read_full n a = Some (a, [])"
  by (simp add: read_full_def)

lemma be_value_4: "k < 2 ^ 32 \<Longrightarrow> be_value (be_bytes 4 k) = k"
  by (simp add: be_value_be_bytes)

lemma be_value_ts:
  assumes "- (2 ^ 63) \<le> ts" and "ts < 2 ^ 63"
  shows "i64 (int (be_value (be_bytes 8 (u64_of_i64 ts)))) = ts"
proof -
  have "int (be_value (be_bytes 8 (u64_of_i64 ts))) = ts mod 2 ^ 64"
    using u64_of_i64_less [of ts] by (simp add: be_value_be_bytes) (simp add: u64_of_i64_def)
  then have "i64 (int (be_value (be_bytes 8 (u64_of_i64 ts)))) = i64 ts"
    unfolding i64_def by (metis mod_add_left_eq)
  with assms show ?thesis by (simp add: i64_id)
qed

lemmas audit_frame_sizes = auditLengthPrefixSize_def auditChunkIDSize_def auditChallengeNonceSize_def auditServerTsSize_def
  auditFrame1PayloadBytes_def auditResponseHashSize_def auditProviderSigSize_def challengeRequestFrameSize_def
  challengeResponseOKSize_def challengeResponseFailSize_def

lemmas audit_status_defs = auditStatusOK_def auditStatusFailNotFound_def auditStatusFailCorruption_def
  auditStatusInvalidNonce_def auditStatusInternalError_def challengeStatusOK_def challengeStatusFailNotFound_def
  challengeStatusFailCorruption_def challengeStatusInvalidNonce_def challengeStatusInternalError_def

text \<open>The handler answers the request that the dispatcher writes.\<close>

lemma HandleStream_challenge:
  assumes "length chunk = 32" and "length nonce = 33" and "- (2 ^ 63) \<le> ts" and "ts < 2 ^ 63"
  shows "audit_HandleStream h now versions (writeChallengeRequest chunk nonce ts) =
    (case tracker_Accept now (hd nonce) versions of
       (False, versions) \<Rightarrow> (audit_writeStatusOnly auditStatusInvalidNonce, versions)
     | (True, versions) \<Rightarrow> (answer_challenge h chunk nonce ts, versions))"
proof -
  let ?payload = "chunk @ nonce @ be_bytes 8 (u64_of_i64 ts)"
  have "slice 0 32 ?payload = chunk" "slice 32 65 ?payload = nonce" "slice 65 73 ?payload = be_bytes 8 (u64_of_i64 ts)"
    using assms by (simp_all add: slice_def)
  moreover have "read_full 4 (be_bytes 4 73 @ ?payload) = Some (be_bytes 4 73, ?payload)"
    by (rule read_full_append) simp
  moreover have "be_value (be_bytes 4 73) = 73" by (rule be_value_4) simp
  moreover have "read_full 73 ?payload = Some (?payload, [])"
    using assms by (intro read_full_all) simp
  ultimately show ?thesis
    using be_value_ts [OF assms(3,4)]
    by (simp add: audit_HandleStream_def writeChallengeRequest_def audit_frame_sizes Let_def split: prod.split bool.split)
qed

lemma readResponse_body:
  assumes "length body < 2 ^ 32"
  shows "readChallengeResponse (be_bytes 4 (length body) @ body) =
    (if length body < 1 then None
     else if hd body = 0 then (if length body \<noteq> 97 then None else Some (0, slice 1 33 body, drop 33 body))
     else if hd body = 1 \<or> hd body = 2 then
       (if length body \<noteq> 65 then None else Some (hd body, replicate 32 0, drop 1 body))
     else if hd body = 3 \<or> hd body = 4 then Some (hd body, replicate 32 0, replicate 64 0) else None)"
proof -
  have "read_full 4 (be_bytes 4 (length body) @ body) = Some (be_bytes 4 (length body), body)"
    by (rule read_full_append) simp
  moreover have "read_full (length body) body = Some (body, [])" by (rule read_full_all) simp
  ultimately show ?thesis
    using be_value_4 [OF assms] by (auto simp: readChallengeResponse_def Let_def audit_frame_sizes audit_status_defs)
qed

lemma readResponse_OK:
  assumes "length rh = 32" and "length sg = 64"
  shows "readChallengeResponse (audit_writeOKFrame rh sg) = Some (0, rh, sg)"
proof -
  have frame: "audit_writeOKFrame rh sg = be_bytes 4 (length (0 # rh @ sg)) @ (0 # rh @ sg)"
    using assms by (simp add: audit_writeOKFrame_def audit_frame_sizes audit_status_defs)
  have "slice 1 33 (0 # rh @ sg) = rh" "drop 33 (0 # rh @ sg) = sg" using assms by (simp_all add: slice_def)
  then show ?thesis unfolding frame using assms by (subst readResponse_body) simp_all
qed

lemma readResponse_FAIL:
  assumes "st = 1 \<or> st = 2" and "length sg = 64"
  shows "readChallengeResponse (audit_writeFailFrame st sg) = Some (st, replicate 32 0, sg)"
proof -
  have frame: "audit_writeFailFrame st sg = be_bytes 4 (length (st # sg)) @ (st # sg)"
    using assms by (simp add: audit_writeFailFrame_def audit_frame_sizes)
  show ?thesis unfolding frame using assms by (subst readResponse_body) auto
qed

lemma readResponse_status:
  assumes "st = 3 \<or> st = 4"
  shows "readChallengeResponse (audit_writeStatusOnly st) = Some (st, replicate 32 0, replicate 64 0)"
proof -
  have frame: "audit_writeStatusOnly st = be_bytes 4 (length [st]) @ [st]"
    by (simp add: audit_writeStatusOnly_def audit_frame_sizes)
  show ?thesis unfolding frame using assms by (subst readResponse_body) auto
qed

subsection \<open>Lemmas: a dispatch that is answered\<close>

text \<open>Nothing fails on the side of the microservice, and the stream opens.\<close>

definition healthy :: "dispatch_env \<Rightarrow> bool" where
  "healthy env \<longleftrightarrow> (\<forall>s. e_ok env s) \<and> e_rto_ok env \<and> e_median_ok env \<and> e_pubkey_ok env \<and> e_p95_ok env \<and>
     (\<forall>s. e_passes_ok env s) \<and> e_reset_ok env \<and> (\<forall>s. e_updateRTO_ok env s) \<and>
     e_setDeadline env \<and> e_write env \<and> 0 \<le> e_delay env \<and> hash32 (e_sha env) \<and>
     (\<forall>k m. length (e_hmac env k m) = 32)"

text \<open>The challenge is well formed and new: no receipt has its nonce or its identifier.\<close>

definition fresh_challenge :: "dispatch_env \<Rightarrow> chunkAssignmentRow \<Rightarrow> byte list \<Rightarrow> database \<Rightarrow> bool" where
  "fresh_challenge env a nonce db \<longleftrightarrow>
     length (ca_ChunkID a) = 32 \<and> length (ca_ProviderID a) = 16 \<and>
     - (2 ^ 63) \<le> challenge_ts env \<and> challenge_ts env < 2 ^ 63 \<and>
     validate (challenge_fields env a nonce) = None \<and>
     nonce \<notin> fst ` set (audit_receipt_nonces db) \<and> e_newID env \<notin> receipt_id ` set (audit_receipts db) \<and>
     receipts_inv db \<and> (case ca_FileID a of None \<Rightarrow> True | Some fid \<Rightarrow> fid \<in> file_id ` set (files db))"

lemma computeRTO_providers:
  assumes "providers db' = providers db"
  shows "computeRTO env pid db' m = computeRTO env pid db m"
proof -
  have "find_provider db' pid = find_provider db pid" using assms by (simp add: find_provider_def)
  moreover have "queryPoolMedianRTO db' = queryPoolMedianRTO db" using assms by (simp add: queryPoolMedianRTO_def)
  then have "PoolMedianRTO ok now db' m = PoolMedianRTO ok now db m" for ok now
    by (simp only: PoolMedianRTO_def)
  ultimately show ?thesis by (simp only: computeRTO_def)
qed

lemma adjudicate_providers:
  "providers db' = providers db \<Longrightarrow>
   adjudicateResponse env nonce ts pid st h sg db' = adjudicateResponse env nonce ts pid st h sg db"
  by (simp add: adjudicateResponse_def lookupProviderPubKey_def find_provider_def)

lemma p95_providers:
  "providers db' = providers db \<Longrightarrow> currentP95ThroughputKbps ok pid db' = currentP95ThroughputKbps ok pid db"
  by (simp add: currentP95ThroughputKbps_def find_provider_def)

lemma Increment_providers:
  "providers db' = providers db \<Longrightarrow>
   providers (snd (IncrementConsecutivePasses ok now pid profile db')) =
   providers (snd (IncrementConsecutivePasses ok now pid profile db))"
  by (simp add: IncrementConsecutivePasses_def find_provider_def Let_def split: option.split)

lemma Reset_providers:
  "providers db' = providers db \<Longrightarrow>
   providers (snd (ResetConsecutivePasses ok pid db')) = providers (snd (ResetConsecutivePasses ok pid db))"
  by (simp add: ResetConsecutivePasses_def)

lemma UpdateRTO_providers:
  "providers db' = providers db \<Longrightarrow>
   providers (snd (UpdateRTO ok pid ms tp db')) = providers (snd (UpdateRTO ok pid ms tp db))"
  by (auto simp: UpdateRTO_def find_provider_def split: option.split)

lemma score_result_providers:
  assumes "providers db' = providers db"
  shows "providers (score_result env profile a result ms db') = providers (score_result env profile a result ms db)"
  unfolding score_result_def Let_def
  using assms by (auto intro!: UpdateRTO_providers Increment_providers Reset_providers)

lemma the_receipt_providers: "the_receipt (db\<lparr>providers := ps\<rparr>) rid r \<longleftrightarrow> the_receipt db rid r"
  by (simp add: the_receipt_def)

lemma pending_open: "open_receipt rid (pending_row rid f)" "response_hash (pending_row rid f) = None"
  "receipt_checks (pending_row rid f)"
  by (simp_all add: open_receipt_def pending_row_def receipt_checks_def response_consistency_def)

lemma auditResultToSQL_cases:
  "auditResultToSQL AuditPass = Inr PASS" "auditResultToSQL AuditFail = Inr FAIL" "auditResultToSQL AuditTimeout = Inr TIMEOUT"
  by (simp_all add: auditResultToSQL_def AuditPass_def AuditFail_def AuditTimeout_def)

lemma record_result_final:
  assumes "healthy env" and "the_receipt db rid r" and "rid = e_newID env" and "open_receipt rid r"
    and "response_hash r = None" and "receipt_checks r" and "find_provider db (ca_ProviderID a) = Some p"
    and "adjudicateResponse env nonce ts (ca_ProviderID a) st h sg db = Some res" and "res \<in> {AuditPass, AuditFail}"
  shows "\<exists>db' r'. record_result env profile a nonce ts (st, h, sg) db = (None, db') \<and> the_receipt db' rid r' \<and>
      audit_result r' = Some (if res = AuditPass then PASS else FAIL) \<and> response_hash r' = Some h \<and>
      provider_sig r' = Some sg \<and> r_chunk_id r' = r_chunk_id r \<and> r_provider_id r' = r_provider_id r \<and>
      challenge_nonce r' = challenge_nonce r \<and> response_latency_ms r' = Some (e_delay env div millisecond) \<and>
      jit_flag r' = EvaluateJIT (e_delay env div millisecond) (p95_throughput_kbps p) \<and>
      providers db' = providers (score_result env profile a res (e_delay env div millisecond) db)"
proof -
  let ?ms = "e_delay env div millisecond"
  let ?x = "if res = AuditPass then PASS else FAIL"
  from assms(1) have ok: "e_ok env RecordUpdate" "e_ok env P2Update" and ms: "0 \<le> ?ms" and p95: "e_p95_ok env"
    by (simp_all add: healthy_def millisecond_def pos_imp_zdiv_nonneg_iff)
  have sql: "auditResultToSQL res = Inr ?x" using assms(9) auditResultToSQL_cases by auto
  have cur: "currentP95ThroughputKbps (e_p95_ok env) (ca_ProviderID a) db = Some (p95_throughput_kbps p)"
    using assms(7) p95 by (simp add: currentP95ThroughputKbps_def)
  let ?r1 = "r\<lparr>response_hash := Some h, provider_sig := Some sg, response_latency_ms := Some ?ms,
      jit_flag := EvaluateJIT ?ms (p95_throughput_kbps p)\<rparr>"
  obtain db1 rows1 where w1: "WriteReceiptRecordResponse (e_ok env) rid h sg ?ms (p95_throughput_kbps p) db = (None, db1)"
    "the_receipt db1 rid ?r1" "db1 = db\<lparr>audit_receipts := rows1\<rparr>"
    using RecordResponse_one(1) [where ok = "e_ok env", OF assms(2) ok(1) ms conjI [OF assms(4,5)] assms(6)] by blast
  obtain ssg sts where sign: "signServiceReceipt env rid res = (ssg, sts)" by (cases "signServiceReceipt env rid res")
  have r1: "open_receipt rid ?r1" "receipt_checks ?r1" "response_consistency (?r1\<lparr>audit_result := Some ?x\<rparr>)"
    using assms(4,6) ms by (auto simp: open_receipt_def receipt_checks_def response_consistency_def)
  let ?r2 = "?r1\<lparr>audit_result := Some ?x, service_sig := Some ssg, service_countersign_ts := Some sts\<rparr>"
  obtain db2 rows2 where w2: "WriteReceiptPhase2 (e_ok env) rid res ssg sts db1 = (None, db2)" "the_receipt db2 rid ?r2"
    "db2 = db1\<lparr>audit_receipts := rows2\<rparr>"
    using Phase2_one(1) [where ok = "e_ok env", OF w1(2) ok(2) sql r1] by blast
  let ?db3 = "score_result env profile a res ?ms db2"
  obtain ps where "?db3 = db2\<lparr>providers := ps\<rparr>" using score_result_frame by blast
  then have "the_receipt ?db3 rid ?r2" using w2(2) by (simp add: the_receipt_providers)
  moreover have "providers db2 = providers db" using w1(3) w2(3) by simp
  then have "providers ?db3 = providers (score_result env profile a res ?ms db)" by (rule score_result_providers)
  moreover have "record_result env profile a nonce ts (st, h, sg) db = (None, ?db3)"
    using assms(3,8) cur w1(1) sign w2(1) by (simp add: record_result_def Let_def)
  ultimately show ?thesis by (intro exI [of _ ?db3] exI [of _ ?r2]) simp
qed

lemma dispatch_answered:
  assumes "healthy env" and "e_open env" and "CurrentSecret (e_now env) cache = Inr (secret, v)"
    and "ChallengeNonce (e_hmac env) secret v (ca_ChunkID a) (challenge_ts env) = Some nonce" and "hd nonce = v"
    and "fresh_challenge env a nonce db" and "find_provider db (ca_ProviderID a) = Some p"
    and "computeRTO env (ca_ProviderID a) db m = (Some rto, m')" and "e_delay env \<le> rto"
    and "readChallengeResponse (e_peer env (writeChallengeRequest (ca_ChunkID a) nonce (challenge_ts env))) = Some (st, h, sg)"
    and "adjudicateResponse env nonce (challenge_ts env) (ca_ProviderID a) st h sg db = Some res"
    and "res \<in> {AuditPass, AuditFail}"
  shows "\<exists>db' r. dispatchOneChallenge env profile cache a (db, m) = (None, db', m') \<and> the_receipt db' (e_newID env) r \<and>
      audit_result r = Some (if res = AuditPass then PASS else FAIL) \<and> response_hash r = Some h \<and>
      provider_sig r = Some sg \<and> r_chunk_id r = ca_ChunkID a \<and> r_provider_id r = ca_ProviderID a \<and>
      challenge_nonce r = nonce \<and> response_latency_ms r = Some (e_delay env div millisecond) \<and>
      jit_flag r = EvaluateJIT (e_delay env div millisecond) (p95_throughput_kbps p) \<and>
      providers db' = providers (score_result env profile a res (e_delay env div millisecond) db)"
proof -
  let ?f = "challenge_fields env a nonce"
  let ?row = "pending_row (e_newID env) ?f"
  have "\<exists>db1 rows nonces. WriteReceiptPhase1 (e_ok env) (e_newID env) ?f db = (Inr (e_newID env), db1) \<and>
      the_receipt db1 (e_newID env) ?row \<and> receipts_inv db1 \<and>
      db1 = db\<lparr>audit_receipt_nonces := nonces, audit_receipts := rows\<rparr>"
    by (rule Phase1_fresh) (use assms(1,6,7) in \<open>simp_all add: healthy_def fresh_challenge_def\<close>)
  then obtain db1 rows nonces where w: "WriteReceiptPhase1 (e_ok env) (e_newID env) ?f db = (Inr (e_newID env), db1)"
    "the_receipt db1 (e_newID env) ?row" "db1 = db\<lparr>audit_receipt_nonces := nonces, audit_receipts := rows\<rparr>"
    by blast
  then have ps: "providers db1 = providers db" by simp
  have find: "find_provider db1 (ca_ProviderID a) = Some p" using assms(7) ps by (simp add: find_provider_def)
  have adj: "adjudicateResponse env nonce (challenge_ts env) (ca_ProviderID a) st h sg db1 = Some res"
    using assms(11) adjudicate_providers [OF ps] by simp
  have valid: "IsVersionValid (e_now_response env) cache (hd nonce)"
    using assms(3,5) by (auto simp: CurrentSecret_def IsVersionValid_def split: if_splits)
  obtain db' r where rr: "record_result env profile a nonce (challenge_ts env) (st, h, sg) db1 = (None, db')"
    "the_receipt db' (e_newID env) r" "audit_result r = Some (if res = AuditPass then PASS else FAIL)"
    "response_hash r = Some h" "provider_sig r = Some sg" "r_chunk_id r = r_chunk_id ?row"
    "r_provider_id r = r_provider_id ?row" "challenge_nonce r = challenge_nonce ?row"
    "response_latency_ms r = Some (e_delay env div millisecond)"
    "jit_flag r = EvaluateJIT (e_delay env div millisecond) (p95_throughput_kbps p)"
    "providers db' = providers (score_result env profile a res (e_delay env div millisecond) db1)"
    using record_result_final [OF assms(1) w(2) _ pending_open find adj assms(12)] by blast
  have "dispatchOneChallenge env profile cache a (db, m) = (None, db', m')"
    using assms(1,2,3,4,8,9,10) w(1) rr(1) valid computeRTO_providers [OF ps, of env "ca_ProviderID a" m]
    by (simp add: dispatchOneChallenge_def healthy_def Let_def)
  with rr show ?thesis
    using score_result_providers [OF ps, of env profile a res "e_delay env div millisecond"]
    by (intro exI [of _ db'] exI [of _ r]) (simp add: pending_row_def)
qed

lemma dispatch_timed_out:
  assumes "healthy env" and "CurrentSecret (e_now env) cache = Inr (secret, v)"
    and "ChallengeNonce (e_hmac env) secret v (ca_ChunkID a) (challenge_ts env) = Some nonce"
    and "fresh_challenge env a nonce db" and "find_provider db (ca_ProviderID a) = Some p"
    and "computeRTO env (ca_ProviderID a) db m = (Some rto, m')"
    and "\<not> e_open env \<or> rto < e_delay env \<or>
      readChallengeResponse (e_peer env (writeChallengeRequest (ca_ChunkID a) nonce (challenge_ts env))) = None"
  shows "\<exists>db' r m''. dispatchOneChallenge env profile cache a (db, m) = (None, db', m'') \<and> the_receipt db' (e_newID env) r \<and>
      audit_result r = Some TIMEOUT \<and> response_hash r = None \<and> provider_sig r = None \<and>
      r_chunk_id r = ca_ChunkID a \<and> r_provider_id r = ca_ProviderID a \<and>
      providers db' = (if ca_MultiaddrStale a then providers db
        else providers (snd (ResetConsecutivePasses True (ca_ProviderID a) db)))"
proof -
  let ?f = "challenge_fields env a nonce" and ?rid = "e_newID env"
  let ?row = "pending_row ?rid ?f"
  have "\<exists>db1 rows nonces. WriteReceiptPhase1 (e_ok env) ?rid ?f db = (Inr ?rid, db1) \<and>
      the_receipt db1 ?rid ?row \<and> receipts_inv db1 \<and>
      db1 = db\<lparr>audit_receipt_nonces := nonces, audit_receipts := rows\<rparr>"
    by (rule Phase1_fresh) (use assms(1,4,5) in \<open>simp_all add: healthy_def fresh_challenge_def\<close>)
  then obtain db1 rows nonces where w: "WriteReceiptPhase1 (e_ok env) ?rid ?f db = (Inr ?rid, db1)"
    "the_receipt db1 ?rid ?row" "db1 = db\<lparr>audit_receipt_nonces := nonces, audit_receipts := rows\<rparr>"
    by blast
  then have ps: "providers db1 = providers db" by simp
  obtain ssg sts where sign: "signServiceReceipt env ?rid AuditTimeout = (ssg, sts)"
    by (cases "signServiceReceipt env ?rid AuditTimeout")
  have "e_ok env P2Update" "response_consistency (?row\<lparr>audit_result := Some TIMEOUT\<rparr>)"
    using assms(1) by (simp_all add: healthy_def response_consistency_def pending_row_def)
  from Phase2_one(1) [where ok = "e_ok env", OF w(2) this(1) auditResultToSQL_cases(3) pending_open(1,3) this(2)]
  obtain db2 rows2 where w2: "WriteReceiptPhase2 (e_ok env) ?rid AuditTimeout ssg sts db1 = (None, db2)"
    "the_receipt db2 ?rid (?row\<lparr>audit_result := Some TIMEOUT, service_sig := Some ssg, service_countersign_ts := Some sts\<rparr>)"
    "db2 = db1\<lparr>audit_receipts := rows2\<rparr>"
    by blast
  have ps2: "providers db2 = providers db" using w2(3) ps by simp
  let ?db3 = "if \<not> ca_MultiaddrStale a then snd (ResetConsecutivePasses True (ca_ProviderID a) db2) else db2"
  have fin: "finalizeTimeout env ?rid a db1 = (None, ?db3)"
    using assms(1) sign w2(1) by (simp add: finalizeTimeout_def healthy_def)
  have "the_receipt ?db3 ?rid (?row\<lparr>audit_result := Some TIMEOUT, service_sig := Some ssg, service_countersign_ts := Some sts\<rparr>)"
    using w2(2) Reset_frame [of True "ca_ProviderID a" db2] by (auto simp: the_receipt_providers)
  moreover have "providers ?db3 = (if ca_MultiaddrStale a then providers db
        else providers (snd (ResetConsecutivePasses True (ca_ProviderID a) db)))"
    using ps2 Reset_providers [OF ps2] by simp
  moreover have "\<exists>m''. dispatchOneChallenge env profile cache a (db, m) = (None, ?db3, m'')"
    using assms(1,2,3,6,7) w(1) fin computeRTO_providers [OF ps, of env "ca_ProviderID a" m]
    by (auto simp: dispatchOneChallenge_def healthy_def Let_def)
  ultimately show ?thesis
    by (elim exE, intro exI conjI) (assumption+, simp_all add: pending_row_def)
qed

lemma find_update_passes:
  assumes "find_provider db pid = Some p" and "\<And>r. provider_id (f r) = provider_id r"
  shows "find_provider (db\<lparr>providers := update_where (\<lambda>r. provider_id r = pid) f (providers db)\<rparr>) pid = Some (f p)"
  using find_provider_update [OF assms(1), of f] assms(2) find_provider_id [OF assms(1)] by simp

definition passed_row :: "time \<Rightarrow> NetworkProfile \<Rightarrow> provider_row \<Rightarrow> provider_row" where
  "passed_row now profile p =
     (if status p = VETTING
      then p\<lparr>consecutive_audit_passes := consecutive_audit_passes p + 1,
        status := (if VettingMinPasses profile \<le> consecutive_audit_passes p + 1 \<and>
            (case first_chunk_assignment_at p of None \<Rightarrow> False | Some t \<Rightarrow> t + VettingMinDuration profile \<le> now)
          then ACTIVE else VETTING)\<rparr>
      else p)"

lemma Increment_row:
  assumes "find_provider db pid = Some p" and "\<forall>s. ok s"
  shows "find_provider (snd (IncrementConsecutivePasses ok now pid profile db)) pid = Some (passed_row now profile p)"
proof (cases "status p = VETTING")
  case True
  let ?upd = "\<lambda>f. db\<lparr>providers := update_where (\<lambda>r. provider_id r = pid) f (providers db)\<rparr>"
  let ?f1 = "\<lambda>r. r\<lparr>consecutive_audit_passes := consecutive_audit_passes p + 1, status := ACTIVE\<rparr>"
    and ?f2 = "\<lambda>r. r\<lparr>consecutive_audit_passes := consecutive_audit_passes p + 1\<rparr>"
  let ?act = "VettingMinPasses profile \<le> consecutive_audit_passes p + 1 \<and>
    (case first_chunk_assignment_at p of None \<Rightarrow> False | Some t \<Rightarrow> t + VettingMinDuration profile \<le> now)"
  have "snd (IncrementConsecutivePasses ok now pid profile db) = (if ?act then ?upd ?f1 else ?upd ?f2)"
    using assms True
    by (simp add: IncrementConsecutivePasses_def Let_def) (auto simp: not_less split: option.splits)
  moreover have "find_provider (?upd ?f1) pid = Some (?f1 p)" "find_provider (?upd ?f2) pid = Some (?f2 p)"
    by (rule find_update_passes [OF assms(1)], simp)+
  moreover have "?f2 p = p\<lparr>consecutive_audit_passes := consecutive_audit_passes p + 1, status := VETTING\<rparr>"
    using True by (cases p) simp
  ultimately show ?thesis using True unfolding passed_row_def by simp
next
  case False
  with assms show ?thesis by (simp add: IncrementConsecutivePasses_def passed_row_def)
qed

lemma Reset_row:
  assumes "find_provider db pid = Some p"
  shows "find_provider (snd (ResetConsecutivePasses True pid db)) pid = Some (p\<lparr>consecutive_audit_passes := 0\<rparr>)"
  using find_update_passes [OF assms, of "\<lambda>r. r\<lparr>consecutive_audit_passes := 0\<rparr>"] by (simp add: ResetConsecutivePasses_def)

lemma UpdateRTO_row:
  assumes "find_provider db pid = Some p" and "\<forall>s. ok s"
  shows "find_provider (snd (UpdateRTO ok pid ms tp db)) pid = Some (rto_row ms tp p)"
proof -
  have "provider_id (rto_row ms tp r) = provider_id r" for r by (simp add: rto_row_def Let_def split: prod.split)
  then show ?thesis
    using find_update_passes [OF assms(1), of "rto_row ms tp"] assms by (simp add: UpdateRTO_def)
qed

lemma score_row:
  assumes "healthy env" and "find_provider db (ca_ProviderID a) = Some p" and "res \<in> {AuditPass, AuditFail}"
  shows "find_provider (score_result env profile a res ms db) (ca_ProviderID a) =
    Some (rto_row ms (computeThroughputKbps profile ms)
      (if res = AuditPass then passed_row (e_now_score env) profile p else p\<lparr>consecutive_audit_passes := 0\<rparr>))"
proof -
  let ?db1 = "if res = AuditPass
    then snd (IncrementConsecutivePasses (e_passes_ok env) (e_now_score env) (ca_ProviderID a) profile db)
    else snd (ResetConsecutivePasses True (ca_ProviderID a) db)"
  from assms(1) have ok: "\<forall>s. e_passes_ok env s" "e_reset_ok env" "\<forall>s. e_updateRTO_ok env s" by (simp_all add: healthy_def)
  have p1: "find_provider ?db1 (ca_ProviderID a) =
      Some (if res = AuditPass then passed_row (e_now_score env) profile p else p\<lparr>consecutive_audit_passes := 0\<rparr>)"
    using Increment_row [OF assms(2) ok(1)] Reset_row [OF assms(2)] by simp
  have "score_result env profile a res ms db =
      snd (UpdateRTO (e_updateRTO_ok env) (ca_ProviderID a) ms (computeThroughputKbps profile ms) ?db1)"
    using assms(3) ok(2) by (auto simp: score_result_def Let_def AuditPass_def AuditFail_def AuditTimeout_def)
  with UpdateRTO_row [OF p1 ok(3), of ms "computeThroughputKbps profile ms"] show ?thesis by simp
qed

lemma passed_row_sel [simp]:
  "avg_rtt_ms (passed_row now profile p) = avg_rtt_ms p" "var_rtt_ms (passed_row now profile p) = var_rtt_ms p"
  "p95_throughput_kbps (passed_row now profile p) = p95_throughput_kbps p"
  "rto_sample_count (passed_row now profile p) = rto_sample_count p"
  "consecutive_audit_passes (passed_row now profile p) =
     (if status p = VETTING then consecutive_audit_passes p + 1 else consecutive_audit_passes p)"
  by (simp_all add: passed_row_def)

lemma rto_row_sel:
  "avg_rtt_ms (rto_row ms tp p) =
     Some (case avg_rtt_ms p of None \<Rightarrow> of_int ms | Some avg \<Rightarrow> avg + (of_int ms - avg) / 8)"
  "var_rtt_ms (rto_row ms tp p) =
     (case avg_rtt_ms p of None \<Rightarrow> 0 | Some avg \<Rightarrow> var_rtt_ms p + (\<bar>of_int ms - avg\<bar> - var_rtt_ms p) / 4)"
  "p95_throughput_kbps (rto_row ms tp p) =
     Some (case p95_throughput_kbps p of None \<Rightarrow> tp | Some old \<Rightarrow> old + (tp - old) / 8)"
  "rto_sample_count (rto_row ms tp p) = rto_sample_count p + 1"
  "consecutive_audit_passes (rto_row ms tp p) = consecutive_audit_passes p"
  "status (rto_row ms tp p) = status p"
  by (simp_all add: rto_row_def Let_def rtoEWMAAlpha_def rtoEWMABeta_def split: option.split)

text \<open>What the handler answers, as the dispatcher judges it.\<close>

lemma honest_response:
  assumes "healthy env" and "find_provider db pid = Some p" and "length (ed25519_public_key p) = 32"
    and "length nonce = 33" and "length pid = 16"
    and "ah_sha h = e_sha env" and "ah_providerIDBytes h = pid"
    and "\<forall>x. length (ah_sign h (ah_providerSigningKey h) x) = 64 \<and>
           e_verify env (ed25519_public_key p) x (ah_sign h (ah_providerSigningKey h) x)"
  shows "\<exists>st rh sg res. readChallengeResponse (answer_challenge h c nonce ts) = Some (st, rh, sg) \<and>
      res \<in> {AuditPass, AuditFail} \<and> adjudicateResponse env nonce ts pid st rh sg db = Some res \<and>
      (case ah_store h c of Inr data \<Rightarrow> res = AuditPass \<and> rh = e_sha env (data @ nonce) | Inl e \<Rightarrow> res = AuditFail)"
proof -
  let ?resp = "answer_challenge h c nonce ts"
  have sig: "length (SignBytes (ah_sha h) (ah_sign h) (ah_providerSigningKey h) x) = 64"
    "VerifyBytes (e_sha env) (e_verify env) (ed25519_public_key p) x
       (SignBytes (ah_sha h) (ah_sign h) (ah_providerSigningKey h) x)" for x
    using assms(6,8) by (simp_all add: SignBytes_def VerifyBytes_def)
  have key: "lookupProviderPubKey (e_pubkey_ok env) pid db = Some (ed25519_public_key p)"
    using assms(1-3) by (simp add: lookupProviderPubKey_def healthy_def)
  show ?thesis
  proof (cases "ah_store h c")
    case (Inr data)
    let ?rh = "e_sha env (data @ nonce)"
    let ?sg = "signOKReceipt h ?rh nonce ts"
    have "length ?rh = 32" using assms(1) by (simp add: healthy_def hash32_def)
    then have "readChallengeResponse ?resp = Some (0, ?rh, ?sg)"
      using Inr assms(6) readResponse_OK [OF _ sig(1)] by (simp add: answer_challenge_def signOKReceipt_def Let_def)
    moreover have "ok_signing_input nonce ?rh ts pid = auditSigningInputPrefix h nonce ts ?rh"
      using ok_signing_input_layout [OF assms(4) \<open>length ?rh = 32\<close> assms(5)] assms(7)
      by (simp add: auditSigningInputPrefix_def)
    then have "adjudicateResponse env nonce ts pid 0 ?rh ?sg db = Some AuditPass"
      using key sig(2) by (simp add: adjudicateResponse_def ValidateResponse_def signOKReceipt_def audit_status_defs)
    ultimately show ?thesis using Inr by auto
  next
    case (Inl e)
    then obtain st rh sg where "readChallengeResponse ?resp = Some (st, rh, sg)" "st \<noteq> 0"
      by (cases e) (auto simp: answer_challenge_def readResponse_FAIL readResponse_status signFailReceipt_def sig(1)
          audit_status_defs)
    moreover from this have "adjudicateResponse env nonce ts pid st rh sg db = Some AuditFail"
      using key by (simp add: adjudicateResponse_def audit_status_defs)
    ultimately show ?thesis using Inl by auto
  qed
qed

subsection \<open>Properties\<close>

text \<open>
  C22: the verdict of an audit is what the provider's disk says. When the provider runs the handler with its
  registered key and answers in time, the challenge ends with a receipt for that chunk and
  provider, with the measured latency: a pass, with the digest of the data and the nonce, exactly
  when the store returns the chunk, a fail when the lookup fails. A pass extends the provider's
  vetting run and ends it when the required passes and duration are reached, a fail resets it. In
  both cases the round-trip average moves an eighth of the way to the measured latency, its
  deviation a quarter, the throughput estimate an eighth of the way to the shard size over the
  latency, and the number of samples grows by one.
\<close>

theorem audit_verdict:
  assumes "healthy env" and "e_open env" and "CurrentSecret (e_now env) cache = Inr (secret, v)" and "length secret = 32"
    and "ChallengeNonce (e_hmac env) secret v (ca_ChunkID a) (challenge_ts env) = Some nonce"
    and "fresh_challenge env a nonce db" and "find_provider db (ca_ProviderID a) = Some p"
    and "length (ed25519_public_key p) = 32"
    and "computeRTO env (ca_ProviderID a) db m = (Some rto, m')" and "e_delay env \<le> rto"
    and "ah_sha h = e_sha env" and "ah_providerIDBytes h = ca_ProviderID a"
    and "\<forall>x. length (ah_sign h (ah_providerSigningKey h) x) = 64 \<and>
           e_verify env (ed25519_public_key p) x (ah_sign h (ah_providerSigningKey h) x)"
    and "\<forall>req. e_peer env req = fst (audit_HandleStream h t versions req)" and "fst (tracker_Accept t v versions)"
  shows "\<exists>db' r p'. dispatchOneChallenge env profile cache a (db, m) = (None, db', m') \<and>
    the_receipt db' (e_newID env) r \<and> r_chunk_id r = ca_ChunkID a \<and> r_provider_id r = ca_ProviderID a \<and>
    response_latency_ms r = Some (e_delay env div millisecond) \<and>
    find_provider db' (ca_ProviderID a) = Some p' \<and>
    (case ah_store h (ca_ChunkID a) of
       Inr data \<Rightarrow> audit_result r = Some PASS \<and> response_hash r = Some (e_sha env (data @ nonce)) \<and>
         consecutive_audit_passes p' =
           (if status p = VETTING then consecutive_audit_passes p + 1 else consecutive_audit_passes p) \<and>
         status p' =
           (if status p = VETTING \<and> VettingMinPasses profile \<le> consecutive_audit_passes p + 1 \<and>
               (\<exists>t0. first_chunk_assignment_at p = Some t0 \<and> t0 + VettingMinDuration profile \<le> e_now_score env)
            then ACTIVE else status p)
     | Inl e \<Rightarrow> audit_result r = Some FAIL \<and> consecutive_audit_passes p' = 0 \<and> status p' = status p) \<and>
    avg_rtt_ms p' = Some (case avg_rtt_ms p of
        None \<Rightarrow> of_int (e_delay env div millisecond)
      | Some avg \<Rightarrow> avg + (of_int (e_delay env div millisecond) - avg) / 8) \<and>
    var_rtt_ms p' = (case avg_rtt_ms p of
        None \<Rightarrow> 0
      | Some avg \<Rightarrow> var_rtt_ms p + (\<bar>of_int (e_delay env div millisecond) - avg\<bar> - var_rtt_ms p) / 4) \<and>
    p95_throughput_kbps p' = Some (case p95_throughput_kbps p of
        None \<Rightarrow> computeThroughputKbps profile (e_delay env div millisecond)
      | Some old \<Rightarrow> old + (computeThroughputKbps profile (e_delay env div millisecond) - old) / 8) \<and>
    rto_sample_count p' = rto_sample_count p + 1"
proof -
  let ?c = "ca_ChunkID a" and ?ts = "challenge_ts env" and ?pid = "ca_ProviderID a" and ?ms = "e_delay env div millisecond"
  have len: "length ?c = 32" "length ?pid = 16" "- (2 ^ 63) \<le> ?ts" "?ts < 2 ^ 63"
    using assms(6) by (simp_all add: fresh_challenge_def)
  have "nonce = v # e_hmac env secret (?c @ be_bytes 8 (u64_of_i64 ?ts))"
    using ChallengeNonce_layout [OF assms(4) len(1), of "e_hmac env" v ?ts] assms(1,5) by (simp add: healthy_def)
  then have nonce: "length nonce = 33" "hd nonce = v" using assms(1) by (simp_all add: healthy_def)
  let ?resp = "answer_challenge h ?c nonce ?ts"
  have peer: "e_peer env (writeChallengeRequest ?c nonce ?ts) = ?resp"
    using assms(14,15) nonce(2)
    by (cases "tracker_Accept t v versions") (simp add: HandleStream_challenge [OF len(1) nonce(1) len(3,4)])
  have "\<exists>st rh sg res. readChallengeResponse ?resp = Some (st, rh, sg) \<and> res \<in> {AuditPass, AuditFail} \<and>
      adjudicateResponse env nonce ?ts ?pid st rh sg db = Some res \<and>
      (case ah_store h ?c of Inr data \<Rightarrow> res = AuditPass \<and> rh = e_sha env (data @ nonce) | Inl e \<Rightarrow> res = AuditFail)"
    by (rule honest_response [OF assms(1,7,8) nonce(1) len(2) assms(11-13)])
  then obtain st rh sg res where resp: "readChallengeResponse (e_peer env (writeChallengeRequest ?c nonce ?ts)) = Some (st, rh, sg)"
    "res \<in> {AuditPass, AuditFail}" "adjudicateResponse env nonce ?ts ?pid st rh sg db = Some res"
    "case ah_store h ?c of Inr data \<Rightarrow> res = AuditPass \<and> rh = e_sha env (data @ nonce) | Inl e \<Rightarrow> res = AuditFail"
    unfolding peer by blast
  obtain db' r where d: "dispatchOneChallenge env profile cache a (db, m) = (None, db', m')" "the_receipt db' (e_newID env) r"
    "audit_result r = Some (if res = AuditPass then PASS else FAIL)" "response_hash r = Some rh"
    "r_chunk_id r = ?c" "r_provider_id r = ?pid" "response_latency_ms r = Some ?ms"
    "providers db' = providers (score_result env profile a res ?ms db)"
    using dispatch_answered [OF assms(1,2,3,5) nonce(2) assms(6,7,9,10) resp(1,3,2)] by blast
  let ?p1 = "if res = AuditPass then passed_row (e_now_score env) profile p else p\<lparr>consecutive_audit_passes := 0\<rparr>"
  let ?p' = "rto_row ?ms (computeThroughputKbps profile ?ms) ?p1"
  have p': "find_provider db' ?pid = Some ?p'"
    using score_row [OF assms(1,7) resp(2)] d(8) by (simp add: find_provider_def)
  have est: "avg_rtt_ms ?p1 = avg_rtt_ms p" "var_rtt_ms ?p1 = var_rtt_ms p" "p95_throughput_kbps ?p1 = p95_throughput_kbps p"
    "rto_sample_count ?p1 = rto_sample_count p" by simp_all
  have verdict: "case ah_store h ?c of
       Inr data \<Rightarrow> audit_result r = Some PASS \<and> response_hash r = Some (e_sha env (data @ nonce)) \<and>
         consecutive_audit_passes ?p' =
           (if status p = VETTING then consecutive_audit_passes p + 1 else consecutive_audit_passes p) \<and>
         status ?p' =
           (if status p = VETTING \<and> VettingMinPasses profile \<le> consecutive_audit_passes p + 1 \<and>
               (\<exists>t0. first_chunk_assignment_at p = Some t0 \<and> t0 + VettingMinDuration profile \<le> e_now_score env)
            then ACTIVE else status p)
     | Inl e \<Rightarrow> audit_result r = Some FAIL \<and> consecutive_audit_passes ?p' = 0 \<and> status ?p' = status p"
  proof (cases "ah_store h ?c")
    case (Inr data)
    with resp(4) have "res = AuditPass" "rh = e_sha env (data @ nonce)" by simp_all
    with d(3,4) show ?thesis by (auto simp: Inr rto_row_sel passed_row_def split: option.split)
  next
    case (Inl e)
    with resp(4) have "res \<noteq> AuditPass" by (simp add: AuditPass_def AuditFail_def)
    with d(3) show ?thesis by (simp add: Inl rto_row_sel)
  qed
  show ?thesis
    by (intro exI [of _ db'] exI [of _ r] exI [of _ ?p'] conjI d(1,2,5-7) p' verdict) (simp_all only: rto_row_sel est)
qed

definition sample_handler :: "(chunk_id \<Rightarrow> store_error + byte list) \<Rightarrow> AuditHandler" where
  "sample_handler store = \<lparr>ah_sha = copy_slice (replicate 32 0), ah_sign = sample_sign, ah_store = store,
     ah_providerSigningKey = replicate 32 0, ah_providerIDBytes = replicate 16 1\<rparr>"

definition sample_dispatch :: "(chunk_id \<Rightarrow> store_error + byte list) \<Rightarrow> dispatch_env" where
  "sample_dispatch store = \<lparr>e_hmac = \<lambda>k m. copy_slice (replicate 32 0) m, e_sha = copy_slice (replicate 32 0),
     e_verify = \<lambda>k m s. s = sample_sign k m, e_sign = sample_sign, e_signingKey = [], e_newID = replicate 16 9,
     e_now = 5 * second, e_now_response = 6 * second, e_now_sign = 6 * second, e_now_score = 6 * second,
     e_ok = \<lambda>_. True, e_rto_ok = True, e_median_ok = True, e_pubkey_ok = True, e_p95_ok = True,
     e_passes_ok = \<lambda>_. True, e_reset_ok = True, e_updateRTO_ok = \<lambda>_. True, e_open = True, e_setDeadline = True,
     e_write = True, e_peer = \<lambda>req. fst (audit_HandleStream (sample_handler store) 0 newAuditNonceVersionTracker req),
     e_delay = 40 * millisecond\<rparr>"

definition sample_cache :: ClusterSecretCache where
  "sample_cache = \<lparr>currentVersion = 1, currentSecret = replicate 32 7, previousVersion = 0, previousSecret = [],
     overlapExpiresAt = 0, lastLoadedAt = 0\<rparr>"

definition sample_assignment :: chunkAssignmentRow where
  "sample_assignment = \<lparr>ca_ChunkID = replicate 32 2, ca_FileID = None, ca_ProviderID = replicate 16 1,
     ca_MultiaddrStale = False\<rparr>"

definition sample_nonce :: "byte list" where "sample_nonce = 1 # replicate 32 2"

lemma sample_fresh: "fresh_challenge (sample_dispatch store) sample_assignment sample_nonce sample_db"
proof -
  have "replicate 33 (0 :: byte) = 0 # replicate 32 0" by (simp add: numeral_eq_Suc)
  then have "validate (challenge_fields (sample_dispatch store) sample_assignment sample_nonce) = None"
    by (simp add: validate_def sample_dispatch_def sample_assignment_def sample_nonce_def zero_time_def duration_defs)
  then show ?thesis
    by (simp add: fresh_challenge_def) (simp add: sample_dispatch_def sample_assignment_def duration_defs)
qed

lemma sample_healthy: "healthy (sample_dispatch store)"
  by (simp add: healthy_def sample_dispatch_def hash32_def duration_defs)

lemma sample_current: "CurrentSecret (e_now (sample_dispatch store)) sample_cache = Inr (replicate 32 7, 1)"
  by (simp add: CurrentSecret_def sample_dispatch_def sample_cache_def clusterSecretCacheTTL_def duration_defs)

lemma sample_ChallengeNonce:
  "ChallengeNonce (e_hmac (sample_dispatch store)) (replicate 32 7) 1 (ca_ChunkID sample_assignment)
     (challenge_ts (sample_dispatch store)) = Some sample_nonce"
proof -
  have "\<forall>k m. length (e_hmac (sample_dispatch store) k m) = 32" by (simp add: sample_dispatch_def)
  from ChallengeNonce_layout [OF _ _ this, of "replicate 32 7" "ca_ChunkID sample_assignment" 1] show ?thesis
    by (simp add: sample_dispatch_def sample_assignment_def sample_nonce_def copy_slice_def)
qed

lemma sample_RTO:
  "computeRTO (sample_dispatch store) (ca_ProviderID sample_assignment) sample_db None = (Some bootstrapFallbackRTO, None)"
  using find_sample_db
  by (simp add: computeRTO_def sample_dispatch_def sample_assignment_def sample_provider_def rtoSampleThreshold_def
      PoolMedianRTO_def queryPoolMedianRTO_def sample_db_def map_filter_simps percentile_cont_half_def)

theorem audit_verdict_witness:
  "\<exists>db' r. dispatchOneChallenge (sample_dispatch (\<lambda>_. Inr [8])) DemoProfile sample_cache sample_assignment (sample_db, None) =
     (None, db', None) \<and> the_receipt db' (replicate 16 9) r \<and> audit_result r = Some PASS \<and>
     response_latency_ms r = Some 40 \<and> map_option avg_rtt_ms (find_provider db' (replicate 16 1)) = Some (Some 40)"
proof -
  let ?env = "sample_dispatch (\<lambda>_. Inr [8])" and ?h = "sample_handler (\<lambda>_. Inr [8])"
  have find: "find_provider sample_db (ca_ProviderID sample_assignment) = Some sample_provider"
    using find_sample_db by (simp add: sample_assignment_def)
  have delay: "e_delay ?env \<le> bootstrapFallbackRTO"
    by (simp add: sample_dispatch_def bootstrapFallbackRTO_def duration_defs)
  have sig: "\<forall>x. length (ah_sign ?h (ah_providerSigningKey ?h) x) = 64 \<and>
      e_verify ?env (ed25519_public_key sample_provider) x (ah_sign ?h (ah_providerSigningKey ?h) x)"
    by (simp add: sample_handler_def sample_dispatch_def sample_sign_def sample_provider_def)
  have peer: "\<forall>req. e_peer ?env req = fst (audit_HandleStream ?h 0 newAuditNonceVersionTracker req)"
    by (simp add: sample_dispatch_def)
  have same: "e_open ?env" "length (ed25519_public_key sample_provider) = 32" "ah_sha ?h = e_sha ?env"
    "ah_providerIDBytes ?h = ca_ProviderID sample_assignment" "length (replicate 32 (7 :: byte)) = 32"
    "ah_store ?h (ca_ChunkID sample_assignment) = Inr [8]" "e_newID ?env = replicate 16 9"
    by (simp_all add: sample_dispatch_def sample_provider_def sample_handler_def sample_assignment_def)
  have accept: "fst (tracker_Accept 0 1 newAuditNonceVersionTracker)"
    by (simp add: tracker_Accept_def newAuditNonceVersionTracker_def)
  have ms: "e_delay ?env div millisecond = 40" by (simp add: sample_dispatch_def millisecond_def)
  have p: "ca_ProviderID sample_assignment = replicate 16 1" "avg_rtt_ms sample_provider = None"
    by (simp_all add: sample_assignment_def sample_provider_def)
  show ?thesis
    using audit_verdict [OF sample_healthy same(1) sample_current same(5) sample_ChallengeNonce sample_fresh find
        same(2) sample_RTO delay same(3,4) sig peer accept, of DemoProfile]
    unfolding same(6,7) ms p by (elim exE conjE) (intro exI conjI, assumption+, simp_all)
qed

subsection \<open>Soundness of a pass\<close>

lemma update_receipts_any:
  assumes "the_receipt db rid r" and "\<And>q. P q \<Longrightarrow> receipt_id q = rid" and "\<And>q. receipt_id (f q) = receipt_id q"
  shows "\<exists>r'. the_receipt (snd (update_receipts P f db)) rid r' \<and> (r' = r \<or> r' = f r \<and> receipt_checks (f r))"
proof (cases "P r \<and> receipt_checks (f r)")
  case True
  with update_receipts_one(1) [OF assms(1), of P f] assms(2,3) show ?thesis by fastforce
next
  case False
  then have "snd (update_receipts P f db) = db"
    using update_receipts_one(2,3) [OF assms(1), of P f] assms(2,3) by (cases "P r") auto
  with assms(1) show ?thesis by auto
qed

lemma RecordResponse_any:
  assumes "the_receipt db rid r"
  shows "\<exists>r'\<in>{r, r\<lparr>response_hash := Some h, provider_sig := Some sg, response_latency_ms := Some ms,
      jit_flag := EvaluateJIT ms p95\<rparr>}. the_receipt (snd (WriteReceiptRecordResponse ok rid h sg ms p95 db)) rid r'"
proof -
  let ?P = "\<lambda>q. open_receipt rid q \<and> response_hash q = None"
  let ?f = "\<lambda>q :: receipt_row. q\<lparr>response_hash := Some h, provider_sig := Some sg, response_latency_ms := Some ms,
      jit_flag := EvaluateJIT ms p95\<rparr>"
  have "\<exists>r'. the_receipt (snd (update_receipts ?P ?f db)) rid r' \<and> (r' = r \<or> r' = ?f r \<and> receipt_checks (?f r))"
    by (rule update_receipts_any [OF assms]) (simp_all add: open_receipt_def)
  with snd_RecordResponse [of ok rid h sg ms p95 db] assms show ?thesis by (auto split: if_splits)
qed

lemma Phase2_any:
  assumes "the_receipt db rid r"
  shows "\<exists>r'. the_receipt (snd (WriteReceiptPhase2 ok rid result sg ts db)) rid r' \<and>
    (r' = r \<or> (\<exists>x. auditResultToSQL result = Inr x \<and>
       r' = r\<lparr>audit_result := Some x, service_sig := Some sg, service_countersign_ts := Some ts\<rparr> \<and> receipt_checks r'))"
proof (cases "auditResultToSQL result")
  case (Inl e)
  with assms show ?thesis by (auto simp: WriteReceiptPhase2_def)
next
  case (Inr x)
  let ?f = "\<lambda>q :: receipt_row. q\<lparr>audit_result := Some x, service_sig := Some sg, service_countersign_ts := Some ts\<rparr>"
  have "\<exists>r'. the_receipt (snd (update_receipts (open_receipt rid) ?f db)) rid r' \<and>
      (r' = r \<or> r' = ?f r \<and> receipt_checks (?f r))"
    by (rule update_receipts_any [OF assms]) (simp_all add: open_receipt_def)
  moreover have "snd (WriteReceiptPhase2 ok rid result sg ts db) =
      (if ok P2Update then snd (update_receipts (open_receipt rid) ?f db) else db)"
    using Inr by (auto simp: WriteReceiptPhase2_def split: prod.splits option.splits)
  ultimately show ?thesis using Inr assms by (auto split: if_splits)
qed

lemma adjudicate_pass:
  assumes "adjudicateResponse env nonce ts pid st h sg db = Some AuditPass"
  shows "\<exists>p. find_provider db pid = Some p \<and>
    VerifyBytes (e_sha env) (e_verify env) (ed25519_public_key p) (ok_signing_input nonce h ts pid) sg"
  using assms
  by (auto simp: adjudicateResponse_def lookupProviderPubKey_def ValidateResponse_def AuditPass_def AuditFail_def
      split: if_splits option.splits)

lemma record_result_pass:
  assumes "the_receipt db rid r" and "rid = e_newID env" and "audit_result r = None"
    and "r' \<in> set (audit_receipts (snd (record_result env profile a nonce ts (st, h, sg) db)))"
    and "receipt_id r' = rid" and "audit_result r' = Some PASS" and "response_hash r = None"
  shows "adjudicateResponse env nonce ts (ca_ProviderID a) st h sg db = Some AuditPass \<and>
    (\<exists>ms jit ssg sts. r' = r\<lparr>response_hash := Some h, provider_sig := Some sg, response_latency_ms := Some ms,
       jit_flag := jit, audit_result := Some PASS, service_sig := Some ssg, service_countersign_ts := Some sts\<rparr>)"
proof (cases "adjudicateResponse env nonce ts (ca_ProviderID a) st h sg db")
  case None
  with assms the_receipt_iff [OF assms(1), of r'] show ?thesis by (simp add: record_result_def)
next
  case (Some result)
  note adj = this
  show ?thesis
  proof (cases "currentP95ThroughputKbps (e_p95_ok env) (ca_ProviderID a) db")
    case None
    with adj assms the_receipt_iff [OF assms(1), of r'] show ?thesis by (simp add: record_result_def)
  next
    case (Some p95)
    let ?ms = "e_delay env div millisecond"
    obtain e1 db1 where w1: "WriteReceiptRecordResponse (e_ok env) rid h sg ?ms p95 db = (e1, db1)"
      by (cases "WriteReceiptRecordResponse (e_ok env) rid h sg ?ms p95 db")
    obtain r1 where r1: "the_receipt db1 rid r1"
      "r1 \<in> {r, r\<lparr>response_hash := Some h, provider_sig := Some sg, response_latency_ms := Some ?ms,
         jit_flag := EvaluateJIT ?ms p95\<rparr>}"
      using RecordResponse_any [OF assms(1), where h = h and sg = sg and ms = ?ms and ?p95.0 = p95 and ok = "e_ok env"] w1 by auto
    obtain ssg sts where sign: "signServiceReceipt env rid result = (ssg, sts)" by (cases "signServiceReceipt env rid result")
    obtain e2 db2 where w2: "WriteReceiptPhase2 (e_ok env) rid result ssg sts db1 = (e2, db2)"
      by (cases "WriteReceiptPhase2 (e_ok env) rid result ssg sts db1")
    obtain r2 where r2: "the_receipt db2 rid r2" "r2 = r1 \<or> (\<exists>x. auditResultToSQL result = Inr x \<and>
        r2 = r1\<lparr>audit_result := Some x, service_sig := Some ssg, service_countersign_ts := Some sts\<rparr> \<and> receipt_checks r2)"
      using Phase2_any [OF r1(1), of "e_ok env" result ssg sts] w2 by auto
    obtain ps where score: "score_result env profile a result ?ms db2 = db2\<lparr>providers := ps\<rparr>"
      using score_result_frame by blast
    have "snd (record_result env profile a nonce ts (st, h, sg) db) =
        (if e1 \<noteq> None then db1 else if e2 \<noteq> None then db2 else db2\<lparr>providers := ps\<rparr>)"
      using adj Some w1 sign w2 score assms(2) by (auto simp: record_result_def Let_def split: option.split)
    then have "r' = r1 \<or> r' = r2"
      using assms(4,5) the_receipt_iff [OF r1(1), of r'] the_receipt_iff [OF r2(1), of r'] by (auto split: if_splits)
    moreover have "audit_result r1 = None" using r1(2) assms(3) by auto
    ultimately have r': "r' = r1\<lparr>audit_result := Some PASS, service_sig := Some ssg, service_countersign_ts := Some sts\<rparr>"
      and pass: "auditResultToSQL result = Inr PASS" and "receipt_checks r'"
      using r2(2) assms(6) by auto
    then have "response_hash r1 \<noteq> None" by (simp add: receipt_checks_def response_consistency_def)
    then have "r1 \<noteq> r" using assms(7) by auto
    moreover have "result = AuditPass" using pass by (auto simp: auditResultToSQL_def split: if_splits)
    ultimately show ?thesis using adj r1(2) r' by auto
  qed
qed

lemma Phase1_inserted:
  assumes "WriteReceiptPhase1 ok newID flds db = (Inr rid, db1)" and "newID \<notin> receipt_id ` set (audit_receipts db)"
  shows "rid = newID \<and> the_receipt db1 newID (pending_row newID flds) \<and> providers db1 = providers db"
proof -
  have db1: "rid = newID" "db1 = db\<lparr>audit_receipt_nonces := audit_receipt_nonces db @
      [(rf_ChallengeNonce flds, rf_ServerChallengeTs flds)], audit_receipts := audit_receipts db @ [pending_row newID flds]\<rparr>"
    using assms(1) by (auto simp: WriteReceiptPhase1_def split: option.splits if_splits)
  have "filter (\<lambda>q. receipt_id q = newID) (audit_receipts db) = []" using assms(2) by (auto simp: filter_empty_conv)
  with db1 show ?thesis by (simp add: the_receipt_def pending_row_def)
qed

lemma finalizeTimeout_not_pass:
  assumes "the_receipt db rid r" and "audit_result r = None" and "r' \<in> set (audit_receipts (snd (finalizeTimeout env rid a db)))"
    and "receipt_id r' = rid"
  shows "audit_result r' \<noteq> Some PASS"
proof -
  obtain sg ts where sign: "signServiceReceipt env rid AuditTimeout = (sg, ts)" by (cases "signServiceReceipt env rid AuditTimeout")
  obtain e db1 where w: "WriteReceiptPhase2 (e_ok env) rid AuditTimeout sg ts db = (e, db1)"
    by (cases "WriteReceiptPhase2 (e_ok env) rid AuditTimeout sg ts db")
  obtain r1 where r1: "the_receipt db1 rid r1" "audit_result r1 \<noteq> Some PASS"
    using Phase2_any [OF assms(1), of "e_ok env" AuditTimeout sg ts] w assms(2) auditResultToSQL_cases(3) by auto
  have "audit_receipts (snd (finalizeTimeout env rid a db)) = audit_receipts db1"
    using sign w Reset_frame [of "e_reset_ok env" "ca_ProviderID a" db1]
    by (auto simp: finalizeTimeout_def split: option.split)
  then have "r' = r1" using the_receipt_iff [OF r1(1), of r'] assms(3,4) by simp
  with r1(2) show ?thesis by simp
qed

text \<open>
  C23: a pass is never recorded without proof: whatever the peer sends and whichever statements fail, a new receipt
  has the result pass only if the peer answered within the retransmission timeout with a
  signature that verifies, under the provider's registered key, for the recorded digest, the nonce and time of this
  challenge and this provider.
\<close>

theorem pass_is_signed:
  assumes "dispatchOneChallenge env profile cache a (db, m) = (err, db', m')"
    and "e_newID env \<notin> receipt_id ` set (audit_receipts db)"
    and "r \<in> set (audit_receipts db')" and "receipt_id r = e_newID env" and "audit_result r = Some PASS"
  shows "\<exists>p rto hs sg. find_provider db (ca_ProviderID a) = Some p \<and>
    computeRTO env (ca_ProviderID a) db m = (Some rto, m') \<and> e_delay env \<le> rto \<and>
    r_chunk_id r = ca_ChunkID a \<and> r_provider_id r = ca_ProviderID a \<and>
    response_hash r = Some hs \<and> provider_sig r = Some sg \<and>
    VerifyBytes (e_sha env) (e_verify env) (ed25519_public_key p)
      (ok_signing_input (challenge_nonce r) hs (challenge_ts env) (ca_ProviderID a)) sg"
  using assms(1)
proof (cases rule: dispatch_cases)
  case unsent
  with assms(2-4) show ?thesis by (auto simp: image_iff)
next
  case (sent secret v nonce db1)
  let ?rid = "e_newID env"
  let ?row = "pending_row ?rid (challenge_fields env a nonce)"
  have row: "the_receipt db1 ?rid ?row" "providers db1 = providers db" "audit_result ?row = None" "response_hash ?row = None"
    using Phase1_inserted [OF sent(3) assms(2)] by (simp_all add: pending_row_def)
  have "(r :: receipt_row) = ?row" if "db' = db1" using the_receipt_iff [OF row(1), of r] that assms(3,4) by simp
  then have not_pending: "db' \<noteq> db1" using row(3) assms(5) by auto
  have not_timeout: "(err, db') \<noteq> finalizeTimeout env ?rid a db1"
    using finalizeTimeout_not_pass [OF row(1,3), of r env a] assms(3-5) by (metis snd_conv)
  from sent(4) not_pending not_timeout obtain resp rto where resp:
    "computeRTO env (ca_ProviderID a) db1 m = (Some rto, m')" "e_delay env \<le> rto"
    "(err, db') = record_result env profile a nonce (challenge_ts env) resp db1"
    by blast
  obtain st h sg where parts: "resp = (st, h, sg)" by (cases resp)
  have in_db': "r \<in> set (audit_receipts (snd (record_result env profile a nonce (challenge_ts env) (st, h, sg) db1)))"
    using assms(3) resp(3) parts by (metis snd_conv)
  from record_result_pass [OF row(1) refl row(3) in_db' assms(4,5) row(4)] obtain ms jit ssg sts where
    adj: "adjudicateResponse env nonce (challenge_ts env) (ca_ProviderID a) st h sg db1 = Some AuditPass" and
    r: "r = ?row\<lparr>response_hash := Some h, provider_sig := Some sg, response_latency_ms := Some ms,
       jit_flag := jit, audit_result := Some PASS, service_sig := Some ssg, service_countersign_ts := Some sts\<rparr>"
    by blast
  obtain p where "find_provider db1 (ca_ProviderID a) = Some p"
    "VerifyBytes (e_sha env) (e_verify env) (ed25519_public_key p) (ok_signing_input nonce h (challenge_ts env) (ca_ProviderID a)) sg"
    using adjudicate_pass [OF adj] by blast
  then show ?thesis
    using resp(1,2) row(2) r computeRTO_providers [OF row(2)]
    by (intro exI [of _ p] exI [of _ rto] exI [of _ h] exI [of _ sg]) (simp add: pending_row_def find_provider_def)
qed

lemma find_sample_assignment: "find_provider sample_db (ca_ProviderID sample_assignment) = Some sample_provider"
  using find_sample_db by (simp add: sample_assignment_def)

text \<open>The concrete run in which the sample provider answers.\<close>

lemma sample_pass:
  "\<exists>db' r. dispatchOneChallenge (sample_dispatch (\<lambda>_. Inr [8])) DemoProfile sample_cache sample_assignment (sample_db, None) =
     (None, db', None) \<and> the_receipt db' (e_newID (sample_dispatch (\<lambda>_. Inr [8]))) r \<and> audit_result r = Some PASS"
proof -
  let ?env = "sample_dispatch (\<lambda>_. Inr [8])" and ?h = "sample_handler (\<lambda>_. Inr [8])"
  let ?req = "writeChallengeRequest (ca_ChunkID sample_assignment) sample_nonce (challenge_ts ?env)"
  have props: "ah_sha ?h = e_sha ?env" "ah_providerIDBytes ?h = ca_ProviderID sample_assignment"
    "\<forall>x. length (ah_sign ?h (ah_providerSigningKey ?h) x) = 64 \<and>
      e_verify ?env (ed25519_public_key sample_provider) x (ah_sign ?h (ah_providerSigningKey ?h) x)"
    "length (ed25519_public_key sample_provider) = 32" "length (ca_ProviderID sample_assignment) = 16" "length sample_nonce = 33"
    "e_open ?env" "e_delay ?env \<le> bootstrapFallbackRTO" "hd sample_nonce = 1"
    "ah_store ?h (ca_ChunkID sample_assignment) = Inr [8]"
    by (simp_all add: sample_handler_def sample_dispatch_def sample_sign_def sample_provider_def sample_assignment_def
        sample_nonce_def bootstrapFallbackRTO_def duration_defs)
  have "length (ca_ChunkID sample_assignment) = 32" "- (2 ^ 63) \<le> challenge_ts ?env" "challenge_ts ?env < 2 ^ 63"
    using sample_fresh [of "\<lambda>_. Inr [8]"] by (simp_all add: fresh_challenge_def)
  from HandleStream_challenge [OF this(1) props(6) this(2,3)]
  have peer: "e_peer ?env ?req = answer_challenge ?h (ca_ChunkID sample_assignment) sample_nonce (challenge_ts ?env)"
    using props(9) by (simp add: sample_dispatch_def tracker_Accept_def newAuditNonceVersionTracker_def)
  obtain st rh sg where "readChallengeResponse (e_peer ?env ?req) = Some (st, rh, sg)"
    "adjudicateResponse ?env sample_nonce (challenge_ts ?env) (ca_ProviderID sample_assignment) st rh sg sample_db = Some AuditPass"
    unfolding peer
    using honest_response [OF sample_healthy find_sample_assignment props(4,6,5,1,2,3),
        where c = "ca_ChunkID sample_assignment" and ts = "challenge_ts ?env"] props(10) by auto
  from dispatch_answered [OF sample_healthy props(7) sample_current sample_ChallengeNonce props(9) sample_fresh
      find_sample_assignment sample_RTO props(8) this, of DemoProfile]
  show ?thesis by auto
qed

theorem pass_is_signed_witness:
  "\<exists>db' r hs sg. dispatchOneChallenge (sample_dispatch (\<lambda>_. Inr [8])) DemoProfile sample_cache sample_assignment
       (sample_db, None) = (None, db', None) \<and> r \<in> set (audit_receipts db') \<and> audit_result r = Some PASS \<and>
     sg = sample_sign (replicate 32 0)
       (copy_slice (replicate 32 0) (ok_signing_input (challenge_nonce r) hs 5000 (replicate 16 1)))"
proof -
  obtain db' r where run: "dispatchOneChallenge (sample_dispatch (\<lambda>_. Inr [8])) DemoProfile sample_cache sample_assignment
      (sample_db, None) = (None, db', None)"
    and r: "the_receipt db' (e_newID (sample_dispatch (\<lambda>_. Inr [8]))) r" "audit_result r = Some PASS"
    using sample_pass by blast
  have ts: "challenge_ts (sample_dispatch (\<lambda>_. Inr [8])) = 5000" by (simp add: sample_dispatch_def duration_defs)
  show ?thesis
    using pass_is_signed [OF run _ the_receipt_in [OF r(1)] the_receipt_id [OF r(1)] r(2)] run r
      find_sample_assignment the_receipt_in [OF r(1)]
    by (auto simp: VerifyBytes_def sample_dispatch_def sample_provider_def sample_assignment_def duration_defs)
qed

text \<open>
  an unanswered challenge is closed as a timeout: if the provider cannot be reached, answers too late or
  not in the protocol's format, the receipt becomes a signed timeout without response, and the vetting
  run is reset unless the provider's address was known to be stale.
\<close>

theorem unanswered_audit:
  assumes "healthy env" and "CurrentSecret (e_now env) cache = Inr (secret, v)"
    and "ChallengeNonce (e_hmac env) secret v (ca_ChunkID a) (challenge_ts env) = Some nonce"
    and "fresh_challenge env a nonce db" and "find_provider db (ca_ProviderID a) = Some p"
    and "computeRTO env (ca_ProviderID a) db m = (Some rto, m')"
    and "\<not> e_open env \<or> rto < e_delay env \<or>
      readChallengeResponse (e_peer env (writeChallengeRequest (ca_ChunkID a) nonce (challenge_ts env))) = None"
  shows "\<exists>db' r p' m''. dispatchOneChallenge env profile cache a (db, m) = (None, db', m'') \<and>
    the_receipt db' (e_newID env) r \<and> audit_result r = Some TIMEOUT \<and> response_hash r = None \<and> provider_sig r = None \<and>
    r_chunk_id r = ca_ChunkID a \<and> r_provider_id r = ca_ProviderID a \<and>
    find_provider db' (ca_ProviderID a) = Some p' \<and>
    consecutive_audit_passes p' = (if ca_MultiaddrStale a then consecutive_audit_passes p else 0)"
proof -
  obtain db' r m'' where d: "dispatchOneChallenge env profile cache a (db, m) = (None, db', m'')"
    "the_receipt db' (e_newID env) r" "audit_result r = Some TIMEOUT" "response_hash r = None" "provider_sig r = None"
    "r_chunk_id r = ca_ChunkID a" "r_provider_id r = ca_ProviderID a"
    "providers db' = (if ca_MultiaddrStale a then providers db
        else providers (snd (ResetConsecutivePasses True (ca_ProviderID a) db)))"
    using dispatch_timed_out [OF assms] by blast
  moreover obtain p' where "find_provider db' (ca_ProviderID a) = Some p'"
    "consecutive_audit_passes p' = (if ca_MultiaddrStale a then consecutive_audit_passes p else 0)"
    using d(8) assms(5) Reset_row [OF assms(5)] by (auto simp: find_provider_def split: if_splits)
  ultimately show ?thesis by blast
qed

theorem unanswered_audit_witness:
  "\<exists>db' r m''. dispatchOneChallenge ((sample_dispatch (\<lambda>_. Inr [8]))\<lparr>e_peer := \<lambda>_. [0, 0]\<rparr>) DemoProfile sample_cache
       sample_assignment (sample_db, None) = (None, db', m'') \<and> the_receipt db' (replicate 16 9) r \<and> audit_result r = Some TIMEOUT"
proof -
  let ?env = "(sample_dispatch (\<lambda>_. Inr [8]))\<lparr>e_peer := \<lambda>_. [0, 0]\<rparr>"
  have h: "healthy ?env" "CurrentSecret (e_now ?env) sample_cache = Inr (replicate 32 7, 1)"
    "ChallengeNonce (e_hmac ?env) (replicate 32 7) 1 (ca_ChunkID sample_assignment) (challenge_ts ?env) = Some sample_nonce"
    "fresh_challenge ?env sample_assignment sample_nonce sample_db"
    using sample_healthy [of "\<lambda>_. Inr [8]"] sample_current [of "\<lambda>_. Inr [8]"] sample_ChallengeNonce [of "\<lambda>_. Inr [8]"]
      sample_fresh [of "\<lambda>_. Inr [8]"]
    by (simp_all add: healthy_def fresh_challenge_def)
  have rto: "computeRTO ?env (ca_ProviderID sample_assignment) sample_db None = (Some bootstrapFallbackRTO, None)"
    using find_sample_db
    by (simp add: computeRTO_def sample_dispatch_def sample_assignment_def sample_provider_def rtoSampleThreshold_def
        PoolMedianRTO_def queryPoolMedianRTO_def sample_db_def map_filter_simps percentile_cont_half_def)
  have short: "readChallengeResponse [0, 0] = None" by (simp add: readChallengeResponse_def read_full_def)
  show ?thesis
    using unanswered_audit [OF h(1-4) find_sample_assignment rto, of DemoProfile] short
    by (auto simp: sample_dispatch_def)
qed

text \<open>
  the dispatcher keeps the receipt log: any number of dispatch cycles, in any order of their goroutines
  and with any failures and answers, moves the database only by the steps of the receipt protocol, so every
  receipt with a terminal result is still there, unchanged, and no nonce is ever used twice.
\<close>

theorem cycles_keep_receipts:
  assumes "receipts_inv db"
  shows "let db' = fst (fold (\<lambda>(ok, envs, rnd, order, cache). dispatchAuditCycle ok envs rnd order profile cache) cycles (db, m))
    in receipts_inv db' \<and> distinct (map challenge_nonce (audit_receipts db')) \<and>
       (\<forall>r\<in>set (audit_receipts db). audit_result r \<noteq> None \<longrightarrow> r \<in> set (audit_receipts db'))"
proof -
  let ?run = "\<lambda>cycles s. fold (\<lambda>(ok, envs, rnd, order, cache). dispatchAuditCycle ok envs rnd order profile cache) cycles s"
  have "receipt_step\<^sup>*\<^sup>* (fst s) (fst (?run cycles s))" for s
  proof (induction cycles arbitrary: s)
    case Nil
    then show ?case by simp
  next
    case (Cons c cycles)
    obtain ok envs rnd order cache where c: "c = (ok, envs, rnd, order, cache)" by (cases c)
    let ?s = "dispatchAuditCycle ok envs rnd order profile cache s"
    have "receipt_step\<^sup>*\<^sup>* (fst s) (fst ?s)" by (rule cycle_steps)
    also have "receipt_step\<^sup>*\<^sup>* (fst ?s) (fst (?run cycles ?s))" by (rule Cons.IH)
    finally show ?case by (simp add: c)
  qed
  from this [of "(db, m)"] have steps: "receipt_step\<^sup>*\<^sup>* db (fst (?run cycles (db, m)))" by simp
  have inv: "receipts_inv (fst (?run cycles (db, m)))" and le: "log_le db (fst (?run cycles (db, m)))"
    using receipt_steps_log [OF steps assms] by simp_all
  show ?thesis using inv receipts_inv_distinct [OF inv] log_le_final [OF le] by (simp add: Let_def)
qed

theorem cycles_keep_receipts_witness:
  "let db' = fst (fold (\<lambda>(ok, envs, rnd, order, cache). dispatchAuditCycle ok envs rnd order DemoProfile cache)
       [(True, \<lambda>_. sample_dispatch (\<lambda>_. Inr [8]), \<lambda>_ _. Some 3, rev, sample_cache)] (sample_phase2, None))
   in (pending_row (replicate 16 9) sample_fields)\<lparr>audit_result := Some TIMEOUT, service_sig := Some (replicate 64 4),
        service_countersign_ts := Some 5\<rparr> \<in> set (audit_receipts db')"
proof -
  have "receipts_inv sample_phase2"
    using Phase2_log Phase1_log by (simp add: sample_phase2_def sample_phase1_def)
  from cycles_keep_receipts [OF this, of DemoProfile "[(True, \<lambda>_. sample_dispatch (\<lambda>_. Inr [8]), \<lambda>_ _. Some 3, rev, sample_cache)]" None]
  show ?thesis using the_receipt_in [OF sample_phase2_receipt] by (simp add: Let_def)
qed

text \<open>
  C24: the handler does not check who opens the stream, so one frame from any peer with version byte 255 makes a
  provider refuse every challenge of the real cluster from 24 hours later on: the high-water mark can only
  grow, and the answer is the status that the dispatcher scores as a failed audit.
\<close>

theorem forged_version_blocks_audits:
  assumes "length chunk' = 32" and "length nonce' = 33" and "hd nonce' = 255" and "highest versions \<noteq> 255"
    and "length chunk = 32" and "length nonce = 33" and "hd nonce \<noteq> 255"
    and "- (2 ^ 63) \<le> ts'" and "ts' < 2 ^ 63" and "- (2 ^ 63) \<le> ts" and "ts < 2 ^ 63"
    and "t0 + auditVersionRetirementWindow < t"
  shows "let versions' = snd (audit_HandleStream h t0 versions (writeChallengeRequest chunk' nonce' ts'))
    in audit_HandleStream h t versions' (writeChallengeRequest chunk nonce ts) =
         (audit_writeStatusOnly auditStatusInvalidNonce, versions') \<and>
       readChallengeResponse (audit_writeStatusOnly auditStatusInvalidNonce) =
         Some (challengeStatusInvalidNonce, replicate 32 0, replicate 64 0) \<and>
       adjudicateResponse env nonce ts pid challengeStatusInvalidNonce (replicate 32 0) (replicate 64 0) db = Some AuditFail"
proof -
  have top: "v \<le> 255" for v :: byte
  proof -
    have "unat v < 2 ^ LENGTH(8)" by (rule unsigned_less)
    then show ?thesis by (simp add: word_le_nat_alt)
  qed
  have "highest versions < 255" using top [of "highest versions"] assms(4) by simp
  then have accept: "tracker_Accept t0 255 versions = (True, \<lparr>highest = 255, highestFirstAt = t0\<rparr>)"
    by (cases versions) (auto simp: tracker_Accept_def)
  have versions': "snd (audit_HandleStream h t0 versions (writeChallengeRequest chunk' nonce' ts')) =
      \<lparr>highest = 255, highestFirstAt = t0\<rparr>"
    by (simp add: HandleStream_challenge [OF assms(1,2,8,9)] assms(3) accept)
  have "hd nonce < 255" using top [of "hd nonce"] assms(7) by simp
  then have "tracker_Accept t (hd nonce) \<lparr>highest = 255, highestFirstAt = t0\<rparr> = (False, \<lparr>highest = 255, highestFirstAt = t0\<rparr>)"
    using assms(12) by (simp add: tracker_Accept_def not_le [symmetric])
  then show ?thesis
    unfolding versions' Let_def
    by (simp add: HandleStream_challenge [OF assms(5,6,10,11)] readResponse_status adjudicateResponse_def audit_status_defs)
qed

theorem forged_version_blocks_audits_witness:
  "let versions' = snd (audit_HandleStream (sample_handler (\<lambda>_. Inr [8])) 0 \<lparr>highest = 1, highestFirstAt = 0\<rparr>
         (writeChallengeRequest (replicate 32 0) (255 # replicate 32 0) 0))
   in audit_HandleStream (sample_handler (\<lambda>_. Inr [8])) (25 * hour) versions'
        (writeChallengeRequest (replicate 32 2) (1 # replicate 32 2) 90000) =
        (audit_writeStatusOnly auditStatusInvalidNonce, versions')"
  using forged_version_blocks_audits [of "replicate 32 0" "255 # replicate 32 0" "\<lparr>highest = 1, highestFirstAt = 0\<rparr>"
      "replicate 32 2" "1 # replicate 32 2" 0 90000 0 "25 * hour" "sample_handler (\<lambda>_. Inr [8])"]
  by (simp add: Let_def auditVersionRetirementWindow_def duration_defs)

end
