(* ===== verification/Handlers.thy ===== *)
theory Handlers
  imports Executor AuditProtocol
begin

text \<open>
  The provider daemon's stream handlers for chunk upload, repair download, chunk download and vetting
  garbage collection, \<^verbatim>\<open>cmd/provider/handler_*.go\<close>, and the writer goroutine of \<^verbatim>\<open>cmd/provider/main.go\<close>. A handler is a function
  of the bytes on its stream; it returns the bytes it writes before it closes the stream, and the store. Resetting a
  stream and closing it are not distinguished. The registered keys are the fields of the handler records, with
  \<open>None\<close> for a key that was never fetched. The single writer goroutine executes one append at a time, so an
  upload runs its append atomically.
\<close>

subsection \<open>Common framing\<close>

definition status_frame :: "byte \<Rightarrow> byte list" where
  "status_frame st = be_bytes 4 1 @ [st]"

definition data_frame :: "byte \<Rightarrow> byte list \<Rightarrow> byte list" where
  "data_frame st body = be_bytes 4 (1 + length body) @ [st] @ body"

definition now_ms :: "time \<Rightarrow> int" where "now_ms now = now div millisecond"

subsection \<open>Chunk upload\<close>

definition uploadLengthPrefixSize :: nat where "uploadLengthPrefixSize = 4"
definition uploadChunkIDSize :: nat where "uploadChunkIDSize = 32"
definition uploadShardIndexSize :: nat where "uploadShardIndexSize = 4"
definition uploadCapabilityTokenSize :: nat where "uploadCapabilityTokenSize = 72"
definition uploadChunkDataSize :: nat where "uploadChunkDataSize = ChunkDataSize"
definition uploadFrame1PayloadMaxBytes :: nat where
  "uploadFrame1PayloadMaxBytes = uploadChunkIDSize + uploadShardIndexSize + uploadCapabilityTokenSize + uploadChunkDataSize"

definition handler_uploadStatusOK :: byte where "handler_uploadStatusOK = 0x00"
definition uploadStatusFrameTooLarge :: byte where "uploadStatusFrameTooLarge = 0x01"
definition uploadStatusChunkIDMismatch :: byte where "uploadStatusChunkIDMismatch = 0x02"
definition uploadStatusNotAssigned :: byte where "uploadStatusNotAssigned = 0x03"
definition uploadStatusInternalError :: byte where "uploadStatusInternalError = 0x05"
definition handler_uploadStatusAlreadyStored :: byte where "handler_uploadStatusAlreadyStored = 0x06"
definition uploadStatusCapabilityExpired :: byte where "uploadStatusCapabilityExpired = 0x07"

definition capabilityTokenExpiryGraceMs :: int where "capabilityTokenExpiryGraceMs = 30000"
definition capabilityTokenDomainPrefix :: string where "capabilityTokenDomainPrefix = ''vyomanaut-chunk-upload-cap-v1''"
definition providerStatusDeparted :: string where "providerStatusDeparted = ''DEPARTED''"

record UploadHandler =
  uh_sha :: hash
  uh_verify :: verify_fun
  uh_sign :: sign_fun
  uh_msPublicKey :: "byte list option"
  uh_providerSigningKey :: "byte list"
  uh_providerIDBytes :: "byte list"
  uh_status :: "string option"

definition capabilityTokenSigningInput :: "byte list \<Rightarrow> byte list \<Rightarrow> int \<Rightarrow> byte list" where
  "capabilityTokenSigningInput chunkID providerID expiryUnixMs =
     text_bytes capabilityTokenDomainPrefix @ chunkID @ providerID @ be_bytes 8 (u64_of_i64 expiryUnixMs)"

definition verifyCapabilityTokenFrame :: "UploadHandler \<Rightarrow> time \<Rightarrow> byte list \<Rightarrow> byte list \<Rightarrow> byte" where
  "verifyCapabilityTokenFrame h now chunkID token =
     (let expiryUnixMs = i64 (int (be_value (slice 0 8 token)))
      in if expiryUnixMs \<le> now_ms now - capabilityTokenExpiryGraceMs then uploadStatusCapabilityExpired
         else case uh_msPublicKey h of
           None \<Rightarrow> uploadStatusNotAssigned
         | Some key \<Rightarrow>
             if \<not> VerifyBytes (uh_sha h) (uh_verify h) (copy_slice (replicate 32 0) key)
                   (capabilityTokenSigningInput chunkID (uh_providerIDBytes h) expiryUnixMs)
                   (slice 8 uploadCapabilityTokenSize token)
             then uploadStatusNotAssigned else handler_uploadStatusOK)"

definition signUploadReceipt :: "UploadHandler \<Rightarrow> time \<Rightarrow> byte list \<Rightarrow> nat \<Rightarrow> byte list" where
  "signUploadReceipt h now chunkID shardIndex =
     SignBytes (uh_sha h) (uh_sign h) (uh_providerSigningKey h)
       (chunkID @ be_bytes 4 shardIndex @ uh_providerIDBytes h @ be_bytes 8 (u64_of_i64 (now_ms now)))"

text \<open>The writer goroutine: one request, its result on the channel.\<close>

definition runChunkStoreWriter ::
  "hash \<Rightarrow> append_io \<Rightarrow> chunk_id \<times> byte list \<Rightarrow> wiskeyStore \<Rightarrow> (store_error + nat) \<times> wiskeyStore" where
  "runChunkStoreWriter sha io req st = AppendChunk sha io (fst req) (snd req) st"

text \<open>
  \<open>flt\<close> is the outcome of the lookup, \<open>io\<close> of the append, \<open>slow\<close> whether the writer takes longer than
  the handler waits for it.
\<close>

definition upload_HandleStream ::
  "UploadHandler \<Rightarrow> time \<Rightarrow> read_fault \<Rightarrow> append_io \<Rightarrow> bool \<Rightarrow> byte list \<Rightarrow> wiskeyStore \<Rightarrow> byte list \<times> wiskeyStore" where
  "upload_HandleStream h now flt io slow s st =
     (if uh_status h = Some providerStatusDeparted then ([], st)
      else case read_full uploadLengthPrefixSize s of
        None \<Rightarrow> ([], st)
      | Some (lenBuf, s) \<Rightarrow>
          let len = be_value lenBuf
          in if len > uploadFrame1PayloadMaxBytes then (status_frame uploadStatusFrameTooLarge, st)
             else if len \<noteq> uploadFrame1PayloadMaxBytes then ([], st)
             else case read_full len s of
               None \<Rightarrow> ([], st)
             | Some (payload, s) \<Rightarrow>
                 let chunkID = slice 0 32 payload;
                     shardIndex = be_value (slice 32 36 payload);
                     token = slice 36 108 payload;
                     chunkData = slice 108 (108 + uploadChunkDataSize) payload;
                     stat = verifyCapabilityTokenFrame h now chunkID token
                 in if stat \<noteq> handler_uploadStatusOK then (status_frame stat, st)
                    else if uh_sha h chunkData \<noteq> chunkID then (status_frame uploadStatusChunkIDMismatch, st)
                    else case LookupChunk (uh_sha h) flt st chunkID of
                      Inr _ \<Rightarrow>
                        (data_frame handler_uploadStatusAlreadyStored (signUploadReceipt h now chunkID shardIndex), st)
                    | Inl _ \<Rightarrow>
                        (case runChunkStoreWriter (uh_sha h) io (chunkID, chunkData) st of
                           (res, st) \<Rightarrow>
                             if slow then ([], st)
                             else case res of
                               Inl _ \<Rightarrow> (status_frame uploadStatusInternalError, st)
                             | Inr _ \<Rightarrow>
                                 (data_frame handler_uploadStatusOK (signUploadReceipt h now chunkID shardIndex), st)))"

subsection \<open>Repair download\<close>

definition repairFrame1PayloadBytes :: nat where "repairFrame1PayloadBytes = 32 + 8 + 64"

definition repairStatusOK :: byte where "repairStatusOK = 0x00"
definition repairStatusNotFound :: byte where "repairStatusNotFound = 0x01"
definition repairStatusNotAuthorised :: byte where "repairStatusNotAuthorised = 0x02"
definition repairStatusCorruption :: byte where "repairStatusCorruption = 0x03"
definition repairStatusInternalError :: byte where "repairStatusInternalError = 0x04"

text \<open>\<^verbatim>\<open>staticMicroserviceAuthorizer\<close>; \<open>None\<close> is a handler without authorizer.\<close>

type_synonym authorizer = "string set option"

definition IsRegisteredMicroservicePeer :: "authorizer \<Rightarrow> string \<Rightarrow> bool" where
  "IsRegisteredMicroservicePeer a peer \<longleftrightarrow> (case a of None \<Rightarrow> False | Some peers \<Rightarrow> peer \<in> peers)"

definition authorizer_Set :: "string list \<Rightarrow> authorizer" where
  "authorizer_Set peers = Some (set peers)"

record RepairDownloadHandler =
  rh_sha :: hash
  rh_verify :: verify_fun
  rh_msPublicKey :: "byte list option"
  rh_authorizer :: authorizer
  rh_freshnessWindow :: duration
  rh_microservicePeerID :: string

definition go_abs :: "int \<Rightarrow> int" where
  "go_abs v = (if v < 0 then i64 (- v) else v)"

definition verifyRepairAuthSig :: "RepairDownloadHandler \<Rightarrow> byte list \<Rightarrow> byte list \<Rightarrow> int \<Rightarrow> byte list \<Rightarrow> bool" where
  "verifyRepairAuthSig h key chunkID requestTsMs sig \<longleftrightarrow>
     VerifyBytes (rh_sha h) (rh_verify h) (copy_slice (replicate 32 0) key)
       (chunkID @ be_bytes 8 (u64_of_i64 requestTsMs) @ text_bytes (rh_microservicePeerID h)) sig"

text \<open>The answer to an authorised request for a chunk, shared by the two download handlers.\<close>

definition serve_chunk :: "store_error + byte list \<Rightarrow> byte list" where
  "serve_chunk res =
     (case res of
        Inl ErrChunkNotFound \<Rightarrow> status_frame repairStatusNotFound
      | Inl ErrContentHashMismatch \<Rightarrow> status_frame repairStatusCorruption
      | Inl _ \<Rightarrow> status_frame repairStatusInternalError
      | Inr chunkData \<Rightarrow> data_frame repairStatusOK chunkData)"

definition repair_HandleStream ::
  "RepairDownloadHandler \<Rightarrow> time \<Rightarrow> string \<Rightarrow> read_fault \<Rightarrow> wiskeyStore \<Rightarrow> byte list \<Rightarrow> byte list" where
  "repair_HandleStream h now remotePeer flt st s =
     (if \<not> IsRegisteredMicroservicePeer (rh_authorizer h) remotePeer then status_frame repairStatusNotAuthorised
      else case read_full 4 s of
        None \<Rightarrow> []
      | Some (lenBuf, s) \<Rightarrow>
          let len = be_value lenBuf
          in if len \<noteq> repairFrame1PayloadBytes then []
             else case read_full len s of
               None \<Rightarrow> []
             | Some (payload, s) \<Rightarrow>
                 let chunkID = slice 0 32 payload;
                     requestTsMs = i64 (int (be_value (slice 32 40 payload)));
                     sig = slice 40 104 payload
                 in case rh_msPublicKey h of
                      None \<Rightarrow> status_frame repairStatusNotAuthorised
                    | Some key \<Rightarrow>
                        if \<not> verifyRepairAuthSig h key chunkID requestTsMs sig then status_frame repairStatusNotAuthorised
                        else if go_abs (i64 (now_ms now - requestTsMs)) > rh_freshnessWindow h div millisecond
                        then status_frame repairStatusNotAuthorised
                        else serve_chunk (LookupChunk (rh_sha h) flt st chunkID))"

subsection \<open>Chunk download\<close>

definition downloadFrame1PayloadBytes :: nat where "downloadFrame1PayloadBytes = 32 + 8 + 64"
definition downloadStatusOK :: byte where "downloadStatusOK = 0x00"
definition downloadStatusNotAuthorised :: byte where "downloadStatusNotAuthorised = 0x02"
definition downloadCapabilityTokenExpiryGraceMs :: int where "downloadCapabilityTokenExpiryGraceMs = 30000"
definition downloadCapabilityTokenDomainPrefix :: string where
  "downloadCapabilityTokenDomainPrefix = ''vyomanaut-chunk-download-cap-v1''"

record ChunkDownloadHandler =
  dh_sha :: hash
  dh_verify :: verify_fun
  dh_msPublicKey :: "byte list option"
  dh_providerID :: "byte list"

definition download_signing_input :: "byte list \<Rightarrow> byte list \<Rightarrow> int \<Rightarrow> byte list" where
  "download_signing_input chunkID providerID expiryUnixMs =
     text_bytes downloadCapabilityTokenDomainPrefix @ chunkID @ providerID @ be_bytes 8 (u64_of_i64 expiryUnixMs)"

definition verifyDownloadToken :: "ChunkDownloadHandler \<Rightarrow> time \<Rightarrow> byte list \<Rightarrow> int \<Rightarrow> byte list \<Rightarrow> bool" where
  "verifyDownloadToken h now chunkID expiryUnixMs sig \<longleftrightarrow>
     \<not> expiryUnixMs \<le> now_ms now - downloadCapabilityTokenExpiryGraceMs \<and>
     (case dh_msPublicKey h of
        None \<Rightarrow> False
      | Some key \<Rightarrow> VerifyBytes (dh_sha h) (dh_verify h) (copy_slice (replicate 32 0) key)
                     (download_signing_input chunkID (dh_providerID h) expiryUnixMs) sig)"

definition download_HandleStream ::
  "ChunkDownloadHandler \<Rightarrow> time \<Rightarrow> read_fault \<Rightarrow> wiskeyStore \<Rightarrow> byte list \<Rightarrow> byte list" where
  "download_HandleStream h now flt st s =
     (case read_full 4 s of
        None \<Rightarrow> []
      | Some (lenBuf, s) \<Rightarrow>
          let len = be_value lenBuf
          in if len \<noteq> downloadFrame1PayloadBytes then []
             else case read_full len s of
               None \<Rightarrow> []
             | Some (payload, s) \<Rightarrow>
                 let chunkID = slice 0 32 payload;
                     expiryUnixMs = i64 (int (be_value (slice 32 40 payload)));
                     sig = slice 40 104 payload
                 in if \<not> verifyDownloadToken h now chunkID expiryUnixMs sig then status_frame downloadStatusNotAuthorised
                    else serve_chunk (LookupChunk (dh_sha h) flt st chunkID))"

subsection \<open>Vetting garbage collection\<close>

definition vettingGCMaxChunksPerFrame :: nat where "vettingGCMaxChunksPerFrame = 10000"
definition vettingGCStatusOK :: byte where "vettingGCStatusOK = 0x00"
definition vettingGCStatusPartialFailure :: byte where "vettingGCStatusPartialFailure = 0x01"
definition vettingGCStatusNotAuthorised :: byte where "vettingGCStatusNotAuthorised = 0x03"
definition vettingGCStatusStaleRequest :: byte where "vettingGCStatusStaleRequest = 0x04"
definition vettingGCStatusInternalError :: byte where "vettingGCStatusInternalError = 0x05"
definition bitsPerByte :: nat where "bitsPerByte = 8"

definition verifyGCAuthSig :: "RepairDownloadHandler \<Rightarrow> byte list \<Rightarrow> byte list \<Rightarrow> int \<Rightarrow> byte list \<Rightarrow> bool" where
  "verifyGCAuthSig h key chunkIDsBytes requestTsMs sig \<longleftrightarrow>
     VerifyBytes (rh_sha h) (rh_verify h) (copy_slice (replicate 32 0) key)
       (chunkIDsBytes @ be_bytes 8 (u64_of_i64 requestTsMs) @ text_bytes (rh_microservicePeerID h)) sig"

text \<open>The delete loop from index \<open>i\<close>: the failure bitmap, the number of failures and the store.\<close>

fun gc_delete ::
  "(nat \<Rightarrow> bool) \<Rightarrow> byte list \<Rightarrow> nat \<Rightarrow> nat \<Rightarrow> byte list \<times> nat \<times> wiskeyStore \<Rightarrow> byte list \<times> nat \<times> wiskeyStore" where
  "gc_delete ok ids 0 i s = s"
| "gc_delete ok ids (Suc n) i (bitmap, failCount, st) =
     (case DeleteChunk (ok i) (slice (i * 32) ((i + 1) * 32) ids) st of
        (None, st) \<Rightarrow> gc_delete ok ids n (Suc i) (bitmap, failCount, st)
      | (Some _, st) \<Rightarrow>
          gc_delete ok ids n (Suc i)
            (bitmap[i div bitsPerByte := bitmap ! (i div bitsPerByte) OR push_bit (i mod bitsPerByte) 1], Suc failCount, st))"

text \<open>One frame: \<open>None\<close> ends the stream, \<open>Some rest\<close> leaves the unread input for the next frame.\<close>

definition handleOneFrame ::
  "RepairDownloadHandler \<Rightarrow> time \<Rightarrow> string \<Rightarrow> (nat \<Rightarrow> bool) \<Rightarrow> byte list \<Rightarrow> wiskeyStore \<Rightarrow>
     byte list option \<times> byte list \<times> wiskeyStore" where
  "handleOneFrame h now remotePeer ok s st =
     (if \<not> IsRegisteredMicroservicePeer (rh_authorizer h) remotePeer
      then (None, status_frame vettingGCStatusNotAuthorised, st)
      else case read_full 4 s of
        None \<Rightarrow> (None, [], st)
      | Some (lenBuf, s) \<Rightarrow>
          (case read_full 4 s of
             None \<Rightarrow> (None, [], st)
           | Some (countBuf, s) \<Rightarrow>
               let chunkCount = be_value countBuf
               in if chunkCount > vettingGCMaxChunksPerFrame then (None, [], st)
                  else if be_value lenBuf \<noteq> 4 + chunkCount * 32 + 8 + 64 then (None, [], st)
                  else case read_full (chunkCount * 32) s of
                    None \<Rightarrow> (None, [], st)
                  | Some (ids, s) \<Rightarrow>
                      (case read_full 8 s of
                         None \<Rightarrow> (None, [], st)
                       | Some (tsBuf, s) \<Rightarrow>
                           (case read_full 64 s of
                              None \<Rightarrow> (None, [], st)
                            | Some (sig, s) \<Rightarrow>
                                let requestTsMs = i64 (int (be_value tsBuf))
                                in if go_abs (i64 (now_ms now - requestTsMs)) > rh_freshnessWindow h div millisecond
                                   then (None, status_frame vettingGCStatusStaleRequest, st)
                                   else case rh_msPublicKey h of
                                     None \<Rightarrow> (None, status_frame vettingGCStatusNotAuthorised, st)
                                   | Some key \<Rightarrow>
                                       if \<not> verifyGCAuthSig h key ids requestTsMs sig
                                       then (None, status_frame vettingGCStatusNotAuthorised, st)
                                       else
                                         (case gc_delete ok ids chunkCount 0
                                                 (replicate ((chunkCount + bitsPerByte - 1) div bitsPerByte) 0, 0, st) of
                                            (bitmap, failCount, st) \<Rightarrow>
                                              (Some s,
                                               if chunkCount > 0 \<and> failCount = chunkCount
                                               then status_frame vettingGCStatusInternalError
                                               else if failCount > 0 then data_frame vettingGCStatusPartialFailure bitmap
                                               else status_frame vettingGCStatusOK,
                                               st))))))"

lemma read_full_rest: "read_full n s = Some (a, r) \<Longrightarrow> r = drop n s \<and> a = take n s \<and> n \<le> length s"
  by (auto simp: read_full_def split: if_splits)

lemma handleOneFrame_shorter:
  "handleOneFrame h now peer ok s st = (Some rest, out, st') \<Longrightarrow> length rest < length s"
  by (auto simp: handleOneFrame_def Let_def split: if_splits option.splits prod.splits dest!: read_full_rest)

text \<open>The loop over the frames of a stream; \<open>oks k\<close> are the delete outcomes of the \<open>k\<close>-th frame.\<close>

function vetting_gc_HandleStream ::
  "RepairDownloadHandler \<Rightarrow> (nat \<Rightarrow> time) \<Rightarrow> string \<Rightarrow> (nat \<Rightarrow> nat \<Rightarrow> bool) \<Rightarrow> nat \<Rightarrow> byte list \<Rightarrow> wiskeyStore \<Rightarrow>
     byte list \<times> wiskeyStore" where
  "vetting_gc_HandleStream h now remotePeer oks k s st =
     (case handleOneFrame h (now k) remotePeer (oks k) s st of
        (None, out, st) \<Rightarrow> (out, st)
      | (Some rest, out, st) \<Rightarrow>
          (case vetting_gc_HandleStream h now remotePeer oks (Suc k) rest st of (out', st) \<Rightarrow> (out @ out', st)))"
  by pat_completeness auto
termination
  by (relation "measure (\<lambda>(h, now, peer, oks, k, s, st). length s)") (auto dest: handleOneFrame_shorter [OF sym])

declare vetting_gc_HandleStream.simps [simp del]

subsection \<open>Lemmas: framing\<close>

lemma read_frame_data: "1 + length body < 2 ^ 32 \<Longrightarrow> read_frame (data_frame st body) = Some (st # body)"
  using read_frame_bytes [of "st # body"] by (simp add: data_frame_def)

lemma read_frame_status: "read_frame (status_frame st) = Some [st]"
  using read_frame_bytes [of "[st]"] by (simp add: status_frame_def)

lemma unix_milli_u64: "unix_milli t = u64_of_i64 (t div millisecond)"
  by (simp add: unix_milli_def u64_of_i64_def millisecond_def)

lemma length_LookupChunk: "LookupChunk sha flt st i = Inr d \<Longrightarrow> length d = ChunkDataSize"
  by (auto simp: LookupChunk_def readFromVLog_def Let_def layout_defs split: sum.splits if_splits)

lemma LookupChunk_hash: "LookupChunk sha flt st i = Inr d \<Longrightarrow> sha d = i"
  by (auto simp: LookupChunk_def readFromVLog_def Let_def split: sum.splits if_splits)

lemma be_u64_milli: "be_value (be_bytes 8 (unix_milli t)) = unix_milli t"
  using u64_of_i64_less by (simp add: be_value_be_bytes unix_milli_u64)

lemma i64_unix_milli:
  assumes "- (2 ^ 63) \<le> t div millisecond" and "t div millisecond < 2 ^ 63"
  shows "i64 (int (be_value (be_bytes 8 (unix_milli t)))) = t div millisecond"
  using be_value_ts [OF assms] by (simp add: unix_milli_u64)

text \<open>The handler's view of a request that the repair executor writes.\<close>

lemma repair_HandleStream_request:
  assumes "length chunk = 32" and "key_pair (env_sign env) (rh_verify h) (env_key env) pk" and "rh_msPublicKey h = Some pk"
    and "rh_sha h = env_sha env" and "rh_microservicePeerID h = env_peer env"
    and "IsRegisteredMicroservicePeer (rh_authorizer h) remote"
    and "- (2 ^ 63) \<le> env_now env div millisecond" and "env_now env div millisecond < 2 ^ 63"
    and "go_abs (i64 (now_ms now - env_now env div millisecond)) \<le> rh_freshnessWindow h div millisecond"
  shows "repair_HandleStream h now remote flt st (download_request env chunk) =
    serve_chunk (LookupChunk (rh_sha h) flt st chunk)"
proof -
  let ?ts = "unix_milli (env_now env)"
  let ?sig = "signRepairDownloadRequest env chunk ?ts"
  let ?payload = "chunk @ be_bytes 8 ?ts @ ?sig"
  have sig: "?sig = env_sign env (env_key env) (env_sha env (chunk @ be_bytes 8 ?ts @ text_bytes (env_peer env)))"
    using assms(2) by (simp add: signRepairDownloadRequest_def frame_sizes key_pair_def)
  have len: "length ?sig = 64" by (simp add: signRepairDownloadRequest_def frame_sizes)
  have req: "download_request env chunk = be_bytes 4 104 @ ?payload"
    by (simp add: download_request_def frame_sizes Let_def)
  have "read_full 4 (be_bytes 4 104 @ ?payload) = Some (be_bytes 4 104, ?payload)" by (rule read_full_append) simp
  moreover have "be_value (be_bytes 4 104) = 104" by (rule be_value_4) simp
  moreover have "read_full 104 ?payload = Some (?payload, [])" using assms(1) len by (intro read_full_all) simp
  moreover have "slice 0 32 ?payload = chunk" "slice 32 40 ?payload = be_bytes 8 ?ts" "slice 40 104 ?payload = ?sig"
    using assms(1) len by (simp_all add: slice_def)
  moreover have "i64 (int (be_value (be_bytes 8 ?ts))) = env_now env div millisecond" using assms(7,8) by (rule i64_unix_milli)
  moreover have "verifyRepairAuthSig h pk chunk (env_now env div millisecond) ?sig"
    using assms(2,4,5) sig by (simp add: verifyRepairAuthSig_def VerifyBytes_def key_pair_def unix_milli_u64)
  ultimately show ?thesis
    using assms(3,6,9) unfolding req
    by (simp add: repair_HandleStream_def repairFrame1PayloadBytes_def Let_def)
qed

text \<open>The handler's view of a frame that the repair executor uploads.\<close>

lemma upload_payload:
  assumes "length chunk = 32" and "length token = 72" and "length shard = ShardSize"
  shows "\<exists>payload. upload_frame chunk i token shard = be_bytes 4 uploadFrame1PayloadMaxBytes @ payload \<and>
    length payload = uploadFrame1PayloadMaxBytes \<and> slice 0 32 payload = chunk \<and> slice 32 36 payload = be_bytes 4 i \<and>
    slice 36 108 payload = token \<and> slice 108 (108 + uploadChunkDataSize) payload = shard"
proof -
  let ?payload = "chunk @ be_bytes 4 i @ token @ shard"
  have "copy_slice (replicate ShardSize 0) shard = shard" using assms(3) by simp
  moreover have "ShardSize = ChunkDataSize" by (simp add: ShardSize_def ChunkDataSize_def)
  ultimately show ?thesis
    using assms
    by (intro exI [of _ ?payload])
      (simp add: upload_frame_def frame_sizes slice_def uploadFrame1PayloadMaxBytes_def uploadChunkIDSize_def
        uploadShardIndexSize_def uploadCapabilityTokenSize_def uploadChunkDataSize_def)
qed

lemma minted_token_accepted:
  assumes "length chunk = 32" and "key_pair (env_sign env) (uh_verify h) (env_key env) pk" and "uh_msPublicKey h = Some pk"
    and "uh_sha h = env_sha env" and "uh_providerIDBytes h = pid"
    and "- (2 ^ 63) \<le> (env_now env + ttl) div millisecond" and "(env_now env + ttl) div millisecond < 2 ^ 63"
    and "now_ms now - capabilityTokenExpiryGraceMs < (env_now env + ttl) div millisecond"
  shows "verifyCapabilityTokenFrame h now chunk (mintCapabilityToken env chunk pid ttl) = handler_uploadStatusOK"
proof -
  let ?exp = "be_bytes 8 (unix_milli (env_now env + ttl))"
  let ?input = "text_bytes ''vyomanaut-chunk-upload-cap-v1'' @ chunk @ pid @ ?exp"
  let ?sig = "env_sign env (env_key env) (env_sha env ?input)"
  have token: "mintCapabilityToken env chunk pid ttl = ?exp @ ?sig"
    using assms(2) by (simp add: mintCapabilityToken_def Let_def key_pair_def)
  have "slice 0 8 (?exp @ ?sig) = ?exp" "slice 8 72 (?exp @ ?sig) = ?sig"
    using assms(2) by (simp_all add: slice_def key_pair_def)
  moreover have "i64 (int (be_value ?exp)) = (env_now env + ttl) div millisecond" using assms(6,7) by (rule i64_unix_milli)
  moreover have "capabilityTokenSigningInput chunk pid ((env_now env + ttl) div millisecond) = ?input"
    by (simp add: capabilityTokenSigningInput_def capabilityTokenDomainPrefix_def unix_milli_u64)
  moreover have "copy_slice (replicate 32 0) pk = pk" using assms(2) by (simp add: key_pair_def)
  moreover have "VerifyBytes (uh_sha h) (uh_verify h) pk ?input ?sig"
    using assms(2,4) by (simp add: VerifyBytes_def key_pair_def)
  ultimately show ?thesis
    using assms(3,5,8) unfolding token
    by (simp add: verifyCapabilityTokenFrame_def uploadCapabilityTokenSize_def Let_def)
qed

lemma upload_HandleStream_frame:
  assumes "uh_status h \<noteq> Some providerStatusDeparted" and "length chunk = 32" and "length token = 72"
    and "length shard = ShardSize" and "i < 2 ^ 32"
    and "verifyCapabilityTokenFrame h now chunk token = handler_uploadStatusOK" and "uh_sha h shard = chunk"
  shows "upload_HandleStream h now flt io slow (upload_frame chunk i token shard) st =
    (case LookupChunk (uh_sha h) flt st chunk of
       Inr _ \<Rightarrow> (data_frame handler_uploadStatusAlreadyStored (signUploadReceipt h now chunk i), st)
     | Inl _ \<Rightarrow>
         (case AppendChunk (uh_sha h) io chunk shard st of
            (res, st) \<Rightarrow>
              if slow then ([], st)
              else case res of
                Inl _ \<Rightarrow> (status_frame uploadStatusInternalError, st)
              | Inr _ \<Rightarrow> (data_frame handler_uploadStatusOK (signUploadReceipt h now chunk i), st)))"
proof -
  obtain payload where p: "upload_frame chunk i token shard = be_bytes 4 uploadFrame1PayloadMaxBytes @ payload"
    "length payload = uploadFrame1PayloadMaxBytes" "slice 0 32 payload = chunk" "slice 32 36 payload = be_bytes 4 i"
    "slice 36 108 payload = token" "slice 108 (108 + uploadChunkDataSize) payload = shard"
    using upload_payload [OF assms(2-4), of i] by blast
  have "read_full 4 (upload_frame chunk i token shard) = Some (be_bytes 4 uploadFrame1PayloadMaxBytes, payload)"
    unfolding p(1) by (rule read_full_append) simp
  moreover have "be_value (be_bytes 4 uploadFrame1PayloadMaxBytes) = uploadFrame1PayloadMaxBytes"
    by (rule be_value_4) (simp add: uploadFrame1PayloadMaxBytes_def uploadChunkIDSize_def uploadShardIndexSize_def
        uploadCapabilityTokenSize_def uploadChunkDataSize_def ChunkDataSize_def)
  moreover have "read_full uploadFrame1PayloadMaxBytes payload = Some (payload, [])" using p(2) by (rule read_full_all)
  moreover have "be_value (be_bytes 4 i) = i" using assms(5) by (rule be_value_4)
  ultimately show ?thesis
    using assms(1,6,7) p(3-6)
    by (simp add: upload_HandleStream_def uploadLengthPrefixSize_def runChunkStoreWriter_def Let_def
        split: sum.split prod.split)
qed

lemma length_signUploadReceipt: "length (signUploadReceipt h now c i) = 64"
  by (simp add: signUploadReceipt_def SignBytes_def)

lemma uploadShard_success:
  assumes "st = 0 \<or> st = 6" and "length sg = 64"
  shows "uploadShard (\<lambda>_ _ _. Some (data_frame st sg)) peer chunk i token shard = None"
proof -
  have "read_frame (data_frame st sg) = Some (st # sg)" using assms(2) by (intro read_frame_data) simp
  with assms(1) show ?thesis by (auto simp: uploadShard_def uploadStatusOK_def uploadStatusAlreadyStored_def)
qed

subsection \<open>Properties\<close>

text \<open>
  the repair executor's upload reaches the replacement's disk: the token it mints is accepted by the upload
  handler of the provider it names, the upload counts as success, and afterwards the store returns data with
  the chunk's address, the uploaded shard itself if the chunk was new, and every other chunk as before.
\<close>

theorem repaired_shard_stored:
  assumes "length chunk = 32" and "env_sha env shard = chunk" and "length shard = ShardSize" and "i < 2 ^ 32"
    and "key_pair (env_sign env) (uh_verify h) (env_key env) pk" and "uh_msPublicKey h = Some pk"
    and "uh_sha h = env_sha env" and "uh_providerIDBytes h = pid" and "uh_status h \<noteq> Some providerStatusDeparted"
    and "- (2 ^ 63) \<le> (env_now env + capabilityTokenTTL) div millisecond"
    and "(env_now env + capabilityTokenTTL) div millisecond < 2 ^ 63"
    and "now_ms now - capabilityTokenExpiryGraceMs < (env_now env + capabilityTokenTTL) div millisecond"
    and "wiskey_invar (env_sha env) st" and "wiskey_room st 1"
  shows "let token = mintCapabilityToken env chunk pid capabilityTokenTTL;
             (out, st') = upload_HandleStream h now ReadsOk io_ok False (upload_frame chunk i token shard) st
         in uploadShard (\<lambda>_ _ _. Some out) peer chunk i token shard = None \<and>
            (\<exists>d. LookupChunk (env_sha env) ReadsOk st' chunk = Inr d \<and> env_sha env d = chunk \<and>
               (LookupChunk (env_sha env) ReadsOk st chunk = Inl ErrChunkNotFound \<longrightarrow> d = shard)) \<and>
            (\<forall>j. j \<noteq> chunk \<longrightarrow> LookupChunk (env_sha env) ReadsOk st' j = LookupChunk (env_sha env) ReadsOk st j)"
proof -
  let ?token = "mintCapabilityToken env chunk pid capabilityTokenTTL" and ?sha = "env_sha env"
  let ?sg = "signUploadReceipt h now chunk i"
  have "length ?token = 72" using length_mintCapabilityToken by (simp add: capabilityTokenSize_def)
  note run = upload_HandleStream_frame [OF assms(9,1) this assms(3,4) minted_token_accepted [OF assms(1,5,6,7,8,10,11,12)],
      of ReadsOk io_ok False st, unfolded assms(7), OF assms(2)]
  have success: "uploadShard (\<lambda>_ _ _. Some (data_frame s ?sg)) peer chunk i ?token shard = None"
    if "s = handler_uploadStatusOK \<or> s = handler_uploadStatusAlreadyStored" for s
    using that length_signUploadReceipt
    by (intro uploadShard_success) (auto simp: handler_uploadStatusOK_def handler_uploadStatusAlreadyStored_def)
  show ?thesis
  proof (cases "LookupChunk ?sha ReadsOk st chunk")
    case (Inr d)
    with run success LookupChunk_hash [OF Inr] show ?thesis by (simp add: Let_def)
  next
    case (Inl e)
    obtain es where es: "wf_store ?sha es st" using assms(13) by (auto simp: wiskey_invar_def)
    have valid: "valid_chunk ?sha chunk shard"
      using assms(1-3) by (simp add: valid_chunk_def ShardSize_def ChunkDataSize_def)
    have room: "length (vlog st) + vLogEntrySize < 2 ^ 63" using assms(14) by (simp add: wiskey_room_def)
    obtain off where app: "AppendChunk ?sha io_ok chunk shard st = (Inr off, wiskey_append ?sha chunk shard st)"
      using AppendChunk_ok [OF es valid room] by (simp add: wiskey_append_def)
    have "LookupChunk ?sha ReadsOk (wiskey_append ?sha chunk shard st) j =
        (if j = chunk then Inr shard else LookupChunk ?sha ReadsOk st j)" for j
      by (rule LookupChunk_append [OF es valid room])
    with run Inl app success assms(2) show ?thesis by (simp add: Let_def)
  qed
qed

definition sample_upload :: UploadHandler where
  "sample_upload = \<lparr>uh_sha = digest_hd, uh_verify = \<lambda>k m s. s = sample_sign k m, uh_sign = sample_sign,
     uh_msPublicKey = Some (replicate 32 5), uh_providerSigningKey = [], uh_providerIDBytes = replicate 16 4, uh_status = None\<rparr>"

definition sample_executor :: repair_env where
  "sample_executor = \<lparr>env_sha = digest_hd, env_sign = sample_sign, env_key = replicate 32 5, env_peer = ''ms'',
     env_download = \<lambda>_ _ _ _. None, env_upload = \<lambda>_ _ _ _. None, env_shuffle = \<lambda>_ _ ps. ps, env_ok = \<lambda>_. True, env_now = 0,
     env_text = \<lambda>_. []\<rparr>"

theorem repaired_shard_stored_witness:
  "let chunk = replicate 31 0 @ [7]; token = mintCapabilityToken sample_executor chunk (replicate 16 4) capabilityTokenTTL;
       (out, st) = upload_HandleStream sample_upload 0 ReadsOk io_ok False (upload_frame chunk 3 token (const_chunk 7))
                     (newEngineStore Map.empty [])
   in uploadShard (\<lambda>_ _ _. Some out) ''p'' chunk 3 token (const_chunk 7) = None \<and>
      LookupChunk digest_hd ReadsOk st chunk = Inr (const_chunk 7)"
proof -
  have "wiskey_invar digest_hd (newEngineStore Map.empty [])" "wiskey_room (newEngineStore Map.empty []) 1"
    using empty_store(1) [OF hash32_digest_hd] by (simp_all add: wiskey_room_def newEngineStore_def vLogEntrySize_def)
  moreover have "length (replicate 31 0 @ [7 :: byte]) = 32" "length (const_chunk 7) = ShardSize"
    by (simp_all add: const_chunk_def ShardSize_def ChunkDataSize_def)
  moreover have "LookupChunk digest_hd ReadsOk (newEngineStore Map.empty []) (replicate 31 0 @ [7]) = Inl ErrChunkNotFound"
    by (simp add: LookupChunk_def index_get_def newEngineStore_def)
  ultimately show ?thesis
    using repaired_shard_stored [of "replicate 31 0 @ [7]" sample_executor "const_chunk 7" 3 sample_upload "replicate 32 5"
        "replicate 16 4" 0 "newEngineStore Map.empty []" "''p''"] sample_key_pair digest_const_chunk [of 7]
    by (auto simp: sample_executor_def sample_upload_def now_ms_def capabilityTokenTTL_def capabilityTokenExpiryGraceMs_def
        duration_defs Let_def split: prod.splits)
qed

lemma slices_append:
  assumes "i \<le> j" and "j \<le> k"
  shows "slice i j xs @ slice j k xs = slice i k xs"
proof -
  from assms obtain a b where "j = i + a" "k = i + a + b" by (metis le_iff_add)
  then show ?thesis by (simp add: slice_def take_add add.commute)
qed

lemma slice_slice: "k \<le> j - i \<Longrightarrow> slice h k (slice i j xs) = slice (i + h) (i + k) xs"
  by (simp add: slice_def drop_take add.commute min_def)

text \<open>The payload of an upload, field by field.\<close>

lemma upload_fields:
  assumes "length payload = uploadFrame1PayloadMaxBytes"
  shows "payload = slice 0 32 payload @ slice 32 36 payload @ slice 0 8 (slice 36 108 payload) @
      slice 8 uploadCapabilityTokenSize (slice 36 108 payload) @ slice 108 (108 + uploadChunkDataSize) payload"
    and "length (slice 0 32 payload) = 32" and "length (slice 32 36 payload) = 4"
    and "length (slice 0 8 (slice 36 108 payload)) = 8"
    and "length (slice 8 uploadCapabilityTokenSize (slice 36 108 payload)) = 64"
    and "length (slice 108 (108 + uploadChunkDataSize) payload) = ChunkDataSize"
proof -
  have len: "length payload = 108 + uploadChunkDataSize" "uploadCapabilityTokenSize = 72" "uploadChunkDataSize = ChunkDataSize"
    using assms by (simp_all add: uploadFrame1PayloadMaxBytes_def uploadChunkIDSize_def uploadShardIndexSize_def
        uploadCapabilityTokenSize_def uploadChunkDataSize_def)
  have "payload = slice 0 (108 + uploadChunkDataSize) payload" using len(1) by (simp add: slice_def)
  then show "payload = slice 0 32 payload @ slice 32 36 payload @ slice 0 8 (slice 36 108 payload) @
      slice 8 uploadCapabilityTokenSize (slice 36 108 payload) @ slice 108 (108 + uploadChunkDataSize) payload"
    by (simp add: len(2) slice_slice slices_append)
  show "length (slice 0 32 payload) = 32" "length (slice 32 36 payload) = 4" "length (slice 0 8 (slice 36 108 payload)) = 8"
    "length (slice 8 uploadCapabilityTokenSize (slice 36 108 payload)) = 64"
    "length (slice 108 (108 + uploadChunkDataSize) payload) = ChunkDataSize"
    using len by simp_all
qed

text \<open>
  C25: a provider writes to its store only on the microservice's authority. If an upload changes the store, the provider
  is not departed, and the bytes received are a length prefix and a payload whose fields are, in this order, the chunk
  id, the shard index, the token's expiry and signature, and the data; the expiry in the frame has not passed (up to 30
  seconds of clock skew), the signature in the frame is the microservice's over this chunk id, this provider and this
  expiry, the digest of the data is the chunk id, and it is this data that is appended under this id.
\<close>

theorem upload_needs_token:
  assumes "upload_HandleStream h now flt io slow s st = (out, st')" and "st' \<noteq> st"
  shows "\<exists>lenBuf chunk idx expiry sig data rest key.
    s = lenBuf @ chunk @ idx @ expiry @ sig @ data @ rest \<and>
    length lenBuf = 4 \<and> be_value lenBuf = 108 + ChunkDataSize \<and> length chunk = 32 \<and> length idx = 4 \<and>
    length expiry = 8 \<and> length sig = 64 \<and> length data = ChunkDataSize \<and>
    uh_status h \<noteq> Some providerStatusDeparted \<and> uh_msPublicKey h = Some key \<and>
    now_ms now - capabilityTokenExpiryGraceMs < i64 (int (be_value expiry)) \<and>
    VerifyBytes (uh_sha h) (uh_verify h) (copy_slice (replicate 32 0) key)
      (capabilityTokenSigningInput chunk (uh_providerIDBytes h) (i64 (int (be_value expiry)))) sig \<and>
    uh_sha h data = chunk \<and> st' = snd (AppendChunk (uh_sha h) io chunk data st)"
proof -
  have active: "uh_status h \<noteq> Some providerStatusDeparted" using assms by (auto simp: upload_HandleStream_def)
  obtain lenBuf rest where r1: "read_full uploadLengthPrefixSize s = Some (lenBuf, rest)"
    using assms active by (auto simp: upload_HandleStream_def split: option.splits)
  have len: "be_value lenBuf = uploadFrame1PayloadMaxBytes"
    using assms active r1 by (auto simp: upload_HandleStream_def Let_def split: if_splits)
  obtain payload rest2 where r2: "read_full uploadFrame1PayloadMaxBytes rest = Some (payload, rest2)"
    using assms active r1 len by (auto simp: upload_HandleStream_def Let_def split: option.splits)
  let ?chunk = "slice 0 32 payload" and ?idx = "slice 32 36 payload" and ?token = "slice 36 108 payload"
    and ?data = "slice 108 (108 + uploadChunkDataSize) payload"
  let ?expiry = "slice 0 8 ?token" and ?sig = "slice 8 uploadCapabilityTokenSize ?token"
  have status: "verifyCapabilityTokenFrame h now ?chunk ?token = handler_uploadStatusOK" "uh_sha h ?data = ?chunk"
    using assms active r1 len r2 by (auto simp: upload_HandleStream_def Let_def split: if_splits)
  have st': "st' = snd (AppendChunk (uh_sha h) io ?chunk ?data st)"
    using assms active r1 len r2 status
    by (auto simp: upload_HandleStream_def runChunkStoreWriter_def Let_def split: sum.splits prod.splits if_splits)
  have "s = lenBuf @ rest" "rest = payload @ rest2"
    using read_full_rest [OF r1] read_full_rest [OF r2] append_take_drop_id by metis+
  then have s: "s = lenBuf @ payload @ rest2" by simp
  have four: "length lenBuf = 4" and pl: "length payload = uploadFrame1PayloadMaxBytes"
    using read_full_rest [OF r1] read_full_rest [OF r2] by (auto simp: uploadLengthPrefixSize_def)
  note f = upload_fields [OF pl]
  have frame: "s = lenBuf @ ?chunk @ ?idx @ ?expiry @ ?sig @ ?data @ rest2"
    using s f(1) by (metis append.assoc)
  have size: "be_value lenBuf = 108 + ChunkDataSize"
    using len by (simp add: uploadFrame1PayloadMaxBytes_def uploadChunkIDSize_def uploadShardIndexSize_def
        uploadCapabilityTokenSize_def uploadChunkDataSize_def)
  obtain key where key: "uh_msPublicKey h = Some key" "now_ms now - capabilityTokenExpiryGraceMs < i64 (int (be_value ?expiry))"
    "VerifyBytes (uh_sha h) (uh_verify h) (copy_slice (replicate 32 0) key)
      (capabilityTokenSigningInput ?chunk (uh_providerIDBytes h) (i64 (int (be_value ?expiry)))) ?sig"
    using status(1)
    by (auto simp: verifyCapabilityTokenFrame_def Let_def handler_uploadStatusOK_def uploadStatusCapabilityExpired_def
        uploadStatusNotAssigned_def split: if_splits option.splits)
  show ?thesis
    by (intro exI conjI) (rule frame four size f(2-6) active key status(2) st')+
qed

lemma wf_store_empty: "wf_store digest_hd [] (newEngineStore Map.empty [])"
  using hash32_digest_hd by (simp add: wf_store_def valid_log_def newEngineStore_def log_bytes_def)

theorem upload_needs_token_witness:
  "\<exists>lenBuf chunk idx expiry sig data rest.
     upload_frame (replicate 31 0 @ [7]) 3 (mintCapabilityToken sample_executor (replicate 31 0 @ [7]) (replicate 16 4) capabilityTokenTTL)
       (const_chunk 7) = lenBuf @ chunk @ idx @ expiry @ sig @ data @ rest \<and>
     length lenBuf = 4 \<and> length chunk = 32 \<and> length idx = 4 \<and> length expiry = 8 \<and>
     0 - capabilityTokenExpiryGraceMs < i64 (int (be_value expiry)) \<and>
     sig = sample_sign (replicate 32 5)
       (digest_hd (capabilityTokenSigningInput chunk (replicate 16 4) (i64 (int (be_value expiry)))))"
proof -
  let ?chunk = "replicate 31 0 @ [7 :: byte]" and ?st = "newEngineStore Map.empty []"
  let ?token = "mintCapabilityToken sample_executor ?chunk (replicate 16 4) capabilityTokenTTL"
  obtain out st' where run: "upload_HandleStream sample_upload 0 ReadsOk io_ok False (upload_frame ?chunk 3 ?token (const_chunk 7)) ?st =
      (out, st')"
    by (cases "upload_HandleStream sample_upload 0 ReadsOk io_ok False (upload_frame ?chunk 3 ?token (const_chunk 7)) ?st")
  have "length ?token = 72" using length_mintCapabilityToken by (simp add: capabilityTokenSize_def)
  moreover have "verifyCapabilityTokenFrame sample_upload 0 ?chunk ?token = handler_uploadStatusOK"
    by (rule minted_token_accepted [of _ _ _ "replicate 32 5"])
      (use sample_key_pair in \<open>simp_all add: sample_executor_def sample_upload_def now_ms_def capabilityTokenTTL_def
        capabilityTokenExpiryGraceMs_def duration_defs\<close>)
  ultimately have "(out, st') = (case AppendChunk digest_hd io_ok ?chunk (const_chunk 7) ?st of (res, st) \<Rightarrow>
      case res of Inl _ \<Rightarrow> (status_frame uploadStatusInternalError, st)
      | Inr _ \<Rightarrow> (data_frame handler_uploadStatusOK (signUploadReceipt sample_upload 0 ?chunk 3), st))"
    using upload_HandleStream_frame [of sample_upload ?chunk ?token "const_chunk 7" 3 0 ReadsOk io_ok False ?st] run
      digest_const_chunk [of 7]
    by (simp add: sample_upload_def const_chunk_def ShardSize_def ChunkDataSize_def LookupChunk_def index_get_def newEngineStore_def)
  moreover obtain st1 where "AppendChunk digest_hd io_ok ?chunk (const_chunk 7) ?st = (Inr 0, st1)" "index st1 ?chunk \<noteq> None"
    using AppendChunk_ok [OF wf_store_empty valid_const_chunk [of 7]] by (simp add: newEngineStore_def vLogEntrySize_def)
  ultimately have "index st' ?chunk \<noteq> None" by simp
  then have "st' \<noteq> ?st" by (auto simp: newEngineStore_def)
  have h: "uh_sha sample_upload = digest_hd" "uh_verify sample_upload k m x \<longleftrightarrow> x = sample_sign k m"
    "uh_msPublicKey sample_upload = Some key \<longleftrightarrow> key = replicate 32 5" "uh_providerIDBytes sample_upload = replicate 16 4"
    "now_ms 0 = 0" for k m x key by (auto simp: sample_upload_def now_ms_def)
  have key: "copy_slice (replicate 32 0) (replicate 32 (5 :: byte)) = replicate 32 5" by simp
  from upload_needs_token [OF run \<open>st' \<noteq> ?st\<close>] obtain lenBuf chunk idx expiry sig data rest where
    w: "upload_frame ?chunk 3 ?token (const_chunk 7) = lenBuf @ chunk @ idx @ expiry @ sig @ data @ rest"
      "length lenBuf = 4" "length chunk = 32" "length idx = 4" "length expiry = 8"
      "0 - capabilityTokenExpiryGraceMs < i64 (int (be_value expiry))"
      "VerifyBytes digest_hd (uh_verify sample_upload) (replicate 32 5)
        (capabilityTokenSigningInput chunk (replicate 16 4) (i64 (int (be_value expiry)))) sig"
    unfolding h key by (elim exE conjE) (simp only: h key)
  have "sig = sample_sign (replicate 32 5)
       (digest_hd (capabilityTokenSigningInput chunk (replicate 16 4) (i64 (int (be_value expiry)))))"
    using w(7) by (simp add: VerifyBytes_def h)
  with w show ?thesis by blast
qed

text \<open>
  the repair executor's download request is understood and honoured by the provider: for a registered
  microservice within the freshness window, the executor gets the chunk exactly when the provider's store returns it,
  bit for bit, and otherwise the status of the lookup error; a provider never answers with data of another chunk.
\<close>

theorem repair_download_served:
  assumes "length chunk = 32" and "key_pair (env_sign env) (rh_verify h) (env_key env) pk" and "rh_msPublicKey h = Some pk"
    and "rh_sha h = env_sha env" and "rh_microservicePeerID h = env_peer env"
    and "IsRegisteredMicroservicePeer (rh_authorizer h) remote"
    and "- (2 ^ 63) \<le> env_now env div millisecond" and "env_now env div millisecond < 2 ^ 63"
    and "go_abs (i64 (now_ms now - env_now env div millisecond)) \<le> rh_freshnessWindow h div millisecond"
  shows "downloadOneShard env (\<lambda>_ _ req. Some (repair_HandleStream h now remote flt st req)) chunk peer =
    (case LookupChunk (env_sha env) flt st chunk of
       Inr d \<Rightarrow> Inr d
     | Inl ErrChunkNotFound \<Rightarrow> Inl (ErrResponseStatus repairStatusNotFound)
     | Inl ErrContentHashMismatch \<Rightarrow> Inl (ErrResponseStatus repairStatusCorruption)
     | Inl _ \<Rightarrow> Inl (ErrResponseStatus repairStatusInternalError)) \<and>
    (\<forall>d. downloadOneShard env (\<lambda>_ _ req. Some (repair_HandleStream h now remote flt st req)) chunk peer = Inr d \<longrightarrow>
       env_sha env d = chunk)"
proof -
  note run = repair_HandleStream_request [OF assms, of flt st, unfolded assms(4)]
  have shard: "ChunkDataSize = ShardSize" "1 + ShardSize < 2 ^ 32" by (simp_all add: ShardSize_def ChunkDataSize_def)
  show ?thesis
  proof (cases "LookupChunk (env_sha env) flt st chunk")
    case (Inr d)
    have len: "length d = ShardSize" using length_LookupChunk [OF Inr] shard(1) by simp
    then have "read_frame (data_frame 0 d) = Some (0 # d)" using shard(2) by (intro read_frame_data) simp
    then show ?thesis
      using run Inr len LookupChunk_hash [OF Inr]
      by (simp add: downloadOneShard_def serve_chunk_def repairStatusOK_def repairDownloadStatusOK_def)
  next
    case (Inl e)
    then show ?thesis
      using run read_frame_status
      by (cases e) (simp_all add: downloadOneShard_def serve_chunk_def repairDownloadStatusOK_def repairStatusNotFound_def
          repairStatusCorruption_def repairStatusInternalError_def)
  qed
qed

definition sample_download_handler :: RepairDownloadHandler where
  "sample_download_handler = \<lparr>rh_sha = digest_hd, rh_verify = \<lambda>k m s. s = sample_sign k m, rh_msPublicKey = Some (replicate 32 5),
     rh_authorizer = Some {''ms''}, rh_freshnessWindow = 60 * second, rh_microservicePeerID = ''ms''\<rparr>"

theorem repair_download_served_witness:
  "downloadOneShard sample_executor
     (\<lambda>_ _ req. Some (repair_HandleStream sample_download_handler (30 * second) ''ms'' ReadsOk
        (wiskey_append digest_hd (replicate 31 0 @ [7]) (const_chunk 7) (newEngineStore Map.empty [])) req))
     (replicate 31 0 @ [7]) ''p'' = Inr (const_chunk 7)"
proof -
  let ?st = "wiskey_append digest_hd (replicate 31 0 @ [7]) (const_chunk 7) (newEngineStore Map.empty [])"
  have "LookupChunk digest_hd ReadsOk ?st (replicate 31 0 @ [7]) = Inr (const_chunk 7)"
    using LookupChunk_append [OF wf_store_empty valid_const_chunk [of 7]] by (simp add: newEngineStore_def vLogEntrySize_def)
  then show ?thesis
    using repair_download_served [of "replicate 31 0 @ [7]" sample_executor sample_download_handler "replicate 32 5" "''ms''"
        "30 * second" ReadsOk ?st "''p''"] sample_key_pair
    by (simp add: sample_executor_def sample_download_handler_def IsRegisteredMicroservicePeer_def now_ms_def go_abs_def i64_def
        duration_defs)
qed

text \<open>The delete loop removes what it can from the index, counts the failures and sets their bits.\<close>

abbreviation gc_id :: "byte list \<Rightarrow> nat \<Rightarrow> chunk_id" where
  "gc_id ids k \<equiv> slice (k * 32) ((k + 1) * 32) ids"

lemma bit_byte_one: "k < 8 \<Longrightarrow> bit ((2 :: byte) ^ m) k \<longleftrightarrow> m = k"
  by (auto simp: bit_exp_iff possible_bit_word)

lemma gc_index_step:
  assumes "\<And>k. R k \<longleftrightarrow> k = i \<or> R' k"
  shows "(\<lambda>j. if \<exists>k. R k \<and> ok k \<and> j = g k then None else m j) =
    (\<lambda>j. if \<exists>k. R' k \<and> ok k \<and> j = g k then None else (if ok i then m(g i := None) else m) j)"
  by (rule ext) (auto simp: assms)

lemma gc_delete_spec:
  assumes "gc_delete ok ids n i (bm, f, st) = (bm', f', st')" and "i + n \<le> 8 * length bm"
  shows "st' = st\<lparr>index := (\<lambda>j. if \<exists>k. i \<le> k \<and> k < i + n \<and> ok k \<and> j = gc_id ids k then None else index st j)\<rparr> \<and>
    length bm' = length bm \<and> f' = f + card {k. i \<le> k \<and> k < i + n \<and> \<not> ok k} \<and>
    (\<forall>k<8 * length bm. bit (bm' ! (k div 8)) (k mod 8) \<longleftrightarrow>
       bit (bm ! (k div 8)) (k mod 8) \<or> i \<le> k \<and> k < i + n \<and> \<not> ok k)"
  using assms
proof (induction n arbitrary: i bm f st)
  case 0
  have none: "(\<exists>k\<ge>i. k < i \<and> Q k) = False" for Q by auto
  from 0 show ?case by (auto simp: none)
next
  case (Suc n)
  have split: "{k. i \<le> k \<and> k < i + Suc n \<and> \<not> ok k} =
      (if ok i then {} else {i}) \<union> {k. Suc i \<le> k \<and> k < Suc i + n \<and> \<not> ok k}"
    by (auto simp: not_less_eq_eq le_Suc_eq elim: le_neq_implies_less) (metis Suc_leI le_neq_implies_less)+
  have fin: "finite {k. Suc i \<le> k \<and> k < Suc i + n \<and> \<not> ok k}" by simp
  have card: "card {k. i \<le> k \<and> k < i + Suc n \<and> \<not> ok k} =
      (if ok i then 0 else 1) + card {k. Suc i \<le> k \<and> k < Suc i + n \<and> \<not> ok k}"
    unfolding split using fin by (subst card_Un_disjoint) auto
  have range: "i \<le> k \<and> k < i + Suc n \<longleftrightarrow> k = i \<or> Suc i \<le> k \<and> k < Suc i + n" for k by auto
  show ?case
  proof (cases "ok i")
    case True
    let ?st = "st\<lparr>index := (index st)(gc_id ids i := None)\<rparr>"
    have "gc_delete ok ids n (Suc i) (bm, f, ?st) = (bm', f', st')"
      using Suc.prems(1) True by (simp add: DeleteChunk_def index_del_def)
    note IH = Suc.IH [OF this]
    have "st' = st\<lparr>index := (\<lambda>j. if \<exists>k. (i \<le> k \<and> k < i + Suc n) \<and> ok k \<and> j = gc_id ids k then None else index st j)\<rparr>"
      unfolding gc_index_step [where i = i and g = "gc_id ids" and R' = "\<lambda>k. Suc i \<le> k \<and> k < Suc i + n", OF range]
      using IH Suc.prems(2) True by (simp add: conj_assoc cong: if_cong)
    moreover have "bit (bm' ! (k div 8)) (k mod 8) \<longleftrightarrow>
        bit (bm ! (k div 8)) (k mod 8) \<or> (k = i \<or> Suc i \<le> k \<and> k < Suc i + n) \<and> \<not> ok k" if "k < 8 * length bm" for k
      using IH Suc.prems(2) True that by auto
    ultimately show ?thesis using IH Suc.prems(2) card True by (simp only: conj_assoc [symmetric] range) simp
  next
    case False
    let ?bm = "bm[i div 8 := bm ! (i div 8) OR push_bit (i mod 8) 1]"
    have "gc_delete ok ids n (Suc i) (?bm, Suc f, st) = (bm', f', st')"
      using Suc.prems(1) False by (simp add: DeleteChunk_def index_del_def bitsPerByte_def)
    note IH = Suc.IH [OF this]
    have i: "i div 8 < length bm" using Suc.prems(2) by simp
    have one: "bit (?bm ! (k div 8)) (k mod 8) \<longleftrightarrow> bit (bm ! (k div 8)) (k mod 8) \<or> k = i" if "k < 8 * length bm" for k
    proof (cases "k div 8 = i div 8")
      case True
      have "k mod 8 = i mod 8 \<longleftrightarrow> k = i" using True by (metis div_mult_mod_eq)
      with True i show ?thesis by (auto simp: bit_or_iff bit_byte_one)
    next
      case False
      with i that show ?thesis by (auto simp: nth_list_update)
    qed
    have "st' = st\<lparr>index := (\<lambda>j. if \<exists>k. (i \<le> k \<and> k < i + Suc n) \<and> ok k \<and> j = gc_id ids k then None else index st j)\<rparr>"
      unfolding gc_index_step [where i = i and g = "gc_id ids" and R' = "\<lambda>k. Suc i \<le> k \<and> k < Suc i + n", OF range]
      using IH Suc.prems(2) False by (simp add: conj_assoc)
    moreover have "bit (bm' ! (k div 8)) (k mod 8) \<longleftrightarrow>
        bit (bm ! (k div 8)) (k mod 8) \<or> (k = i \<or> Suc i \<le> k \<and> k < Suc i + n) \<and> \<not> ok k" if "k < 8 * length bm" for k
      using IH Suc.prems(2) False one [OF that] that by auto
    ultimately show ?thesis using IH Suc.prems(2) card False by (simp only: conj_assoc [symmetric] range) simp
  qed
qed

text \<open>A frame that the microservice would send for the chunks \<open>ids\<close> at time \<open>ts\<close>.\<close>

definition gc_frame :: "byte list \<Rightarrow> nat \<Rightarrow> int \<Rightarrow> byte list \<Rightarrow> byte list" where
  "gc_frame ids n ts sig = be_bytes 4 (4 + n * 32 + 8 + 64) @ be_bytes 4 n @ ids @ be_bytes 8 (u64_of_i64 ts) @ sig"

lemma handleOneFrame_gc:
  assumes "IsRegisteredMicroservicePeer (rh_authorizer h) remote" and "rh_msPublicKey h = Some key"
    and "length ids = n * 32" and "n \<le> 10000" and "length sig = 64" and "- (2 ^ 63) \<le> ts" and "ts < 2 ^ 63"
    and "go_abs (i64 (now_ms now - ts)) \<le> rh_freshnessWindow h div millisecond" and "verifyGCAuthSig h key ids ts sig"
  shows "handleOneFrame h now remote ok (gc_frame ids n ts sig @ rest) st =
    (case gc_delete ok ids n 0 (replicate ((n + 7) div 8) 0, 0, st) of
       (bitmap, failCount, st) \<Rightarrow>
         (Some rest,
          if n > 0 \<and> failCount = n then status_frame vettingGCStatusInternalError
          else if failCount > 0 then data_frame vettingGCStatusPartialFailure bitmap
          else status_frame vettingGCStatusOK, st))"
proof -
  let ?ts = "be_bytes 8 (u64_of_i64 ts)"
  let ?len = "be_bytes 4 (4 + n * 32 + 8 + 64)"
  have "read_full 4 (gc_frame ids n ts sig @ rest) = Some (?len, be_bytes 4 n @ ids @ ?ts @ sig @ rest)"
    unfolding gc_frame_def append_assoc by (rule read_full_append) simp
  moreover have "read_full 4 (be_bytes 4 n @ ids @ ?ts @ sig @ rest) = Some (be_bytes 4 n, ids @ ?ts @ sig @ rest)"
    by (rule read_full_append) simp
  moreover have "read_full (n * 32) (ids @ ?ts @ sig @ rest) = Some (ids, ?ts @ sig @ rest)"
    using assms(3) by (rule read_full_append)
  moreover have "read_full 8 (?ts @ sig @ rest) = Some (?ts, sig @ rest)" by (rule read_full_append) simp
  moreover have "read_full 64 (sig @ rest) = Some (sig, rest)" using assms(5) by (rule read_full_append)
  moreover have "be_value (be_bytes 4 n) = n" "be_value ?len = 4 + n * 32 + 8 + 64"
    using assms(4) by (simp_all add: be_value_4)
  moreover have "i64 (int (be_value ?ts)) = ts" using assms(6,7) by (rule be_value_ts)
  moreover have "(n + bitsPerByte - 1) div bitsPerByte = (n + 7) div 8" by (simp add: bitsPerByte_def)
  ultimately show ?thesis
    using assms(1,2,4,8,9) by (simp add: handleOneFrame_def Let_def vettingGCMaxChunksPerFrame_def)
qed

text \<open>
  C26: a garbage-collection frame does what it says: for an authorised frame with at most 10000 chunks the handler removes
  exactly the listed chunks whose delete succeeds, touches nothing else of the store, and reports
  success if all deletes succeed, an internal error if all fail, and otherwise a bitmap whose bit is
  set exactly for the chunks that could not be deleted.
\<close>

theorem gc_frame_effect:
  assumes "IsRegisteredMicroservicePeer (rh_authorizer h) remote" and "rh_msPublicKey h = Some key"
    and "length ids = n * 32" and "n \<le> 10000" and "length sig = 64" and "- (2 ^ 63) \<le> ts" and "ts < 2 ^ 63"
    and "go_abs (i64 (now_ms now - ts)) \<le> rh_freshnessWindow h div millisecond" and "verifyGCAuthSig h key ids ts sig"
  shows "\<exists>out. handleOneFrame h now remote ok (gc_frame ids n ts sig @ rest) st =
      (Some rest, out, st\<lparr>index := (\<lambda>j. if \<exists>k<n. ok k \<and> j = gc_id ids k then None else index st j)\<rparr>) \<and>
    (if \<forall>k<n. ok k then out = status_frame vettingGCStatusOK
     else if \<forall>k<n. \<not> ok k then out = status_frame vettingGCStatusInternalError
     else \<exists>bitmap. out = data_frame vettingGCStatusPartialFailure bitmap \<and> length bitmap = (n + 7) div 8 \<and>
       (\<forall>k<n. bit (bitmap ! (k div 8)) (k mod 8) \<longleftrightarrow> \<not> ok k))"
proof -
  obtain bm f st' where run: "gc_delete ok ids n 0 (replicate ((n + 7) div 8) 0, 0, st) = (bm, f, st')"
    by (cases "gc_delete ok ids n 0 (replicate ((n + 7) div 8) 0, 0, st)")
  have "0 + n \<le> 8 * length (replicate ((n + 7) div 8) (0 :: byte))" by simp
  note spec = gc_delete_spec [OF run this]
  have f: "f = card {k. k < n \<and> \<not> ok k}" using spec by simp
  have all: "f = 0 \<longleftrightarrow> (\<forall>k<n. ok k)" unfolding f by auto
  have none: "f = n \<longleftrightarrow> (\<forall>k<n. \<not> ok k)"
  proof
    assume "f = n"
    then have "card {k. k < n \<and> \<not> ok k} = card {..<n}" using f by simp
    moreover have "{k. k < n \<and> \<not> ok k} \<subseteq> {..<n}" by auto
    ultimately have "{k. k < n \<and> \<not> ok k} = {..<n}" by (intro card_subset_eq) auto
    then show "\<forall>k<n. \<not> ok k" by auto
  next
    assume "\<forall>k<n. \<not> ok k"
    then have "{k. k < n \<and> \<not> ok k} = {..<n}" by auto
    then show "f = n" using f by simp
  qed
  have bits: "bit (bm ! (k div 8)) (k mod 8) \<longleftrightarrow> \<not> ok k" if "k < n" for k
  proof -
    have "k < 8 * ((n + 7) div 8)" "k div 8 < (n + 7) div 8" using that by simp_all
    then show ?thesis using spec that by simp
  qed
  have st: "st' = st\<lparr>index := (\<lambda>j. if \<exists>k<n. ok k \<and> j = gc_id ids k then None else index st j)\<rparr>"
    and len: "length bm = (n + 7) div 8" using spec by simp_all
  have run: "handleOneFrame h now remote ok (gc_frame ids n ts sig @ rest) st =
      (Some rest, if n > 0 \<and> f = n then status_frame vettingGCStatusInternalError
         else if f > 0 then data_frame vettingGCStatusPartialFailure bm else status_frame vettingGCStatusOK, st')"
    using handleOneFrame_gc [OF assms, of ok rest st] run by simp
  consider "\<forall>k<n. ok k" | "\<not> (\<forall>k<n. ok k)" "\<forall>k<n. \<not> ok k" | "\<not> (\<forall>k<n. ok k)" "\<not> (\<forall>k<n. \<not> ok k)" by blast
  then show ?thesis
  proof cases
    case 1
    with all have "f = 0" by simp
    with run st 1 show ?thesis by (cases n) simp_all
  next
    case 2
    then have "0 < n" by auto
    with 2 none have "f = n" "0 < n" by simp_all
    with run st 2 show ?thesis by simp blast
  next
    case 3
    with all none have "f > 0" "f \<noteq> n" by auto
    with run st len bits 3 show ?thesis by auto
  qed
qed

text \<open>Identifiers, a frame for three of them, and its signature, for the witness.\<close>

definition sample_gc_ids :: "byte list" where
  "sample_gc_ids = concat (map (\<lambda>b. replicate 31 0 @ [b]) [1, 2, 3])"

definition sample_gc_sig :: "byte list" where
  "sample_gc_sig = sample_sign (replicate 32 5) (digest_hd (sample_gc_ids @ be_bytes 8 29000 @ text_bytes ''ms''))"

theorem gc_frame_effect_witness:
  "fst (handleOneFrame sample_download_handler (30 * second) ''ms'' (\<lambda>k. k = 1)
     (gc_frame sample_gc_ids 3 29000 sample_gc_sig @ []) (newEngineStore Map.empty [])) = Some []"
proof -
  have "verifyGCAuthSig sample_download_handler (replicate 32 5) sample_gc_ids 29000 sample_gc_sig"
    by (simp add: verifyGCAuthSig_def VerifyBytes_def sample_download_handler_def u64_of_i64_def sample_gc_sig_def)
  moreover have "length sample_gc_ids = 3 * 32" "length sample_gc_sig = 64"
    by (simp_all add: sample_gc_ids_def sample_gc_sig_def sample_sign_def)
  ultimately obtain out st where "handleOneFrame sample_download_handler (30 * second) ''ms'' (\<lambda>k. k = 1)
      (gc_frame sample_gc_ids 3 29000 sample_gc_sig @ []) (newEngineStore Map.empty []) = (Some [], out, st)"
    using gc_frame_effect [of sample_download_handler "''ms''" "replicate 32 5" sample_gc_ids 3 sample_gc_sig 29000 "30 * second"
        "\<lambda>k. k = 1" "[]" "newEngineStore Map.empty []"]
    by (force simp: sample_download_handler_def IsRegisteredMicroservicePeer_def now_ms_def go_abs_def i64_def duration_defs)
  then show ?thesis by simp
qed

lemma slice_take_drop: "a \<le> b \<Longrightarrow> b \<le> n \<Longrightarrow> slice a b (take n (drop k s)) = slice (k + a) (k + b) s"
  by (simp add: slice_def drop_take min_def add.commute)

text \<open>
  a provider hands out stored data only to the bearer of a live capability: whatever bytes arrive on a chunk-download
  stream, if the handler answers with data then the request carried a token for that chunk and this provider, signed
  with the microservice key and expired by less than the grace period, and the data is the stored chunk and
  has the requested identifier as its digest.
\<close>

theorem chunk_download_authorised:
  assumes "download_HandleStream h now flt st s = data_frame downloadStatusOK d"
  shows "\<exists>key chunk expiry sig. dh_msPublicKey h = Some key \<and> chunk = slice 4 36 s \<and> sig = slice 44 108 s \<and>
    expiry = i64 (int (be_value (slice 36 44 s))) \<and> now_ms now < expiry + 30000 \<and>
    VerifyBytes (dh_sha h) (dh_verify h) (copy_slice (replicate 32 0) key)
      (download_signing_input chunk (dh_providerID h) expiry) sig \<and>
    LookupChunk (dh_sha h) flt st chunk = Inr d \<and> dh_sha h d = chunk"
proof -
  have status: "status_frame x \<noteq> data_frame downloadStatusOK d" if "x \<noteq> 0" for x
    using that by (auto simp: status_frame_def data_frame_def downloadStatusOK_def append_eq_append_conv)
  have data: "data_frame downloadStatusOK d' = data_frame downloadStatusOK d \<longleftrightarrow> d' = d" for d'
    by (auto simp: data_frame_def append_eq_append_conv)
  have served: "res = Inr d" if "serve_chunk res = data_frame downloadStatusOK d" for res
    using that status data
    by (cases res; cases "projl res")
      (simp_all add: serve_chunk_def repairStatusNotFound_def repairStatusCorruption_def repairStatusInternalError_def
        repairStatusOK_def downloadStatusOK_def)
  have ne: "data_frame downloadStatusOK d \<noteq> []" by (simp add: data_frame_def)
  let ?chunk = "slice 4 36 s" and ?expiry = "i64 (int (be_value (slice 36 44 s)))" and ?sig = "slice 44 108 s"
  have "serve_chunk (LookupChunk (dh_sha h) flt st ?chunk) = data_frame downloadStatusOK d"
    and token: "verifyDownloadToken h now ?chunk ?expiry ?sig"
    using assms ne status [of downloadStatusNotAuthorised]
    by (auto simp: download_HandleStream_def Let_def downloadFrame1PayloadBytes_def downloadStatusNotAuthorised_def
        slice_take_drop split: option.splits prod.splits if_splits dest!: read_full_rest)
  then have lookup: "LookupChunk (dh_sha h) flt st ?chunk = Inr d" using served by blast
  from token obtain key where "dh_msPublicKey h = Some key" "now_ms now < ?expiry + 30000"
    "VerifyBytes (dh_sha h) (dh_verify h) (copy_slice (replicate 32 0) key) (download_signing_input ?chunk (dh_providerID h) ?expiry) ?sig"
    by (auto simp: verifyDownloadToken_def downloadCapabilityTokenExpiryGraceMs_def split: option.splits)
  with lookup LookupChunk_hash [OF lookup] show ?thesis by blast
qed

text \<open>A download request as a client writes it.\<close>

definition chunk_download_frame :: "byte list \<Rightarrow> int \<Rightarrow> byte list \<Rightarrow> byte list" where
  "chunk_download_frame chunk expiry sig = be_bytes 4 104 @ chunk @ be_bytes 8 (u64_of_i64 expiry) @ sig"

lemma download_HandleStream_request:
  assumes "length chunk = 32" and "length sig = 64" and "- (2 ^ 63) \<le> expiry" and "expiry < 2 ^ 63"
  shows "download_HandleStream h now flt st (chunk_download_frame chunk expiry sig) =
    (if verifyDownloadToken h now chunk expiry sig then serve_chunk (LookupChunk (dh_sha h) flt st chunk)
     else status_frame downloadStatusNotAuthorised)"
proof -
  let ?exp = "be_bytes 8 (u64_of_i64 expiry)"
  let ?payload = "chunk @ ?exp @ sig"
  have "read_full 4 (be_bytes 4 104 @ ?payload) = Some (be_bytes 4 104, ?payload)" by (rule read_full_append) simp
  moreover have "be_value (be_bytes 4 104) = 104" by (rule be_value_4) simp
  moreover have "read_full 104 ?payload = Some (?payload, [])" using assms(1,2) by (intro read_full_all) simp
  moreover have "slice 0 32 ?payload = chunk" "slice 32 40 ?payload = ?exp" "slice 40 104 ?payload = sig"
    using assms(1,2) by (simp_all add: slice_def)
  moreover have "i64 (int (be_value ?exp)) = expiry" using assms(3,4) by (rule be_value_ts)
  ultimately show ?thesis
    by (simp add: download_HandleStream_def chunk_download_frame_def downloadFrame1PayloadBytes_def Let_def)
qed

definition sample_chunk_download :: ChunkDownloadHandler where
  "sample_chunk_download = \<lparr>dh_sha = digest_hd, dh_verify = \<lambda>k m s. s = sample_sign k m, dh_msPublicKey = Some (replicate 32 5),
     dh_providerID = replicate 16 4\<rparr>"

definition sample_download_sig :: "byte list" where
  "sample_download_sig = sample_sign (replicate 32 5)
     (digest_hd (download_signing_input (replicate 31 0 @ [7]) (replicate 16 4) 40000))"

theorem chunk_download_authorised_witness:
  "VerifyBytes digest_hd (\<lambda>k m s. s = sample_sign k m) (replicate 32 5)
     (download_signing_input (replicate 31 0 @ [7]) (replicate 16 4) 40000) sample_download_sig"
proof -
  let ?chunk = "replicate 31 0 @ [7 :: byte]"
  let ?st = "wiskey_append digest_hd ?chunk (const_chunk 7) (newEngineStore Map.empty [])"
  let ?s = "chunk_download_frame ?chunk 40000 sample_download_sig"
  have len: "length sample_download_sig = 64" by (simp add: sample_download_sig_def sample_sign_def)
  have "LookupChunk digest_hd ReadsOk ?st ?chunk = Inr (const_chunk 7)"
    using LookupChunk_append [OF wf_store_empty valid_const_chunk [of 7]] by (simp add: newEngineStore_def vLogEntrySize_def)
  moreover have "verifyDownloadToken sample_chunk_download (30 * second) ?chunk 40000 sample_download_sig"
    by (simp add: verifyDownloadToken_def sample_chunk_download_def VerifyBytes_def sample_download_sig_def now_ms_def
        downloadCapabilityTokenExpiryGraceMs_def duration_defs)
  ultimately have "download_HandleStream sample_chunk_download (30 * second) ReadsOk ?st ?s = data_frame downloadStatusOK (const_chunk 7)"
    using download_HandleStream_request [of ?chunk sample_download_sig 40000 sample_chunk_download "30 * second" ReadsOk ?st] len
    by (simp add: serve_chunk_def sample_chunk_download_def repairStatusOK_def downloadStatusOK_def)
  moreover have "slice 4 36 ?s = ?chunk" "slice 36 44 ?s = be_bytes 8 (u64_of_i64 40000)" "slice 44 108 ?s = sample_download_sig"
    using len by (simp_all add: chunk_download_frame_def slice_def)
  moreover have "i64 (int (be_value (be_bytes 8 (u64_of_i64 40000)))) = 40000" by (rule be_value_ts) simp_all
  ultimately show ?thesis
    using chunk_download_authorised [of sample_chunk_download "30 * second" ReadsOk ?st ?s "const_chunk 7"]
    by (simp add: sample_chunk_download_def)
qed

end
