(* ===== verification/Encoding.thy ===== *)
theory Encoding
  imports Database
begin

text \<open>
  The text encodings of the Go standard library that the REST interface uses: \<^verbatim>\<open>encoding/hex\<close> and the padded
  standard alphabet of \<^verbatim>\<open>encoding/base64\<close>. Decoding follows the library: hexadecimal digits of both cases, base64
  that skips line breaks and does not insist on zero trailing bits. Both round trips are proved.
\<close>

subsection \<open>Hexadecimal\<close>

definition hex_value :: "char \<Rightarrow> nat option" where
  "hex_value c =
     (let n = of_char c
      in if 48 \<le> n \<and> n \<le> 57 then Some (n - 48)
         else if 97 \<le> n \<and> n \<le> 102 then Some (n - 87)
         else if 65 \<le> n \<and> n \<le> 70 then Some (n - 55)
         else None)"

fun hex_decode :: "string \<Rightarrow> byte list option" where
  "hex_decode [] = Some []"
| "hex_decode [c] = None"
| "hex_decode (c # d # s) =
     (case (hex_value c, hex_value d, hex_decode s) of
        (Some h, Some l, Some bs) \<Rightarrow> Some (word_of_nat (16 * h + l) # bs)
      | _ \<Rightarrow> None)"

lemma hex_value_digit: "n < 16 \<Longrightarrow> hex_value (hex_digit n) = Some n"
  by (simp add: hex_value_def of_char_hex_digit)

lemma unat_byte_less: "unat (b :: byte) < 256"
  proof -
  have "unat b < 2 ^ LENGTH(8)" by (rule unsigned_less)
  then show ?thesis by simp
qed

lemma hex_decode_encode [simp]: "hex_decode (hex_encode bs) = Some bs"
proof (induction bs)
  case Nil
  then show ?case by (simp add: hex_encode_def)
next
  case (Cons b bs)
  have "unat b div 16 < 16" "unat b mod 16 < 16" using unat_byte_less [of b] by auto
  moreover have "word_of_nat (16 * (unat b div 16) + unat b mod 16) = b" by simp
  ultimately show ?case using Cons by (simp add: hex_encode_def hex_value_digit)
qed

subsection \<open>Base64\<close>

definition b64_char :: "nat \<Rightarrow> char" where
  "b64_char n =
     (if n < 26 then char_of (65 + n) else if n < 52 then char_of (71 + n) else if n < 62 then char_of (n - 4)
      else if n = 62 then CHR ''+'' else CHR ''/'')"

definition b64_value :: "char \<Rightarrow> nat option" where
  "b64_value c =
     (let n = of_char c
      in if 65 \<le> n \<and> n \<le> 90 then Some (n - 65)
         else if 97 \<le> n \<and> n \<le> 122 then Some (n - 71)
         else if 48 \<le> n \<and> n \<le> 57 then Some (n + 4)
         else if c = CHR ''+'' then Some 62
         else if c = CHR ''/'' then Some 63
         else None)"

fun b64_encode :: "byte list \<Rightarrow> string" where
  "b64_encode [] = []"
| "b64_encode [a] = [b64_char (unat a div 4), b64_char (unat a mod 4 * 16), CHR ''='', CHR ''='']"
| "b64_encode [a, b] =
     [b64_char (unat a div 4), b64_char (unat a mod 4 * 16 + unat b div 16), b64_char (unat b mod 16 * 4), CHR ''='']"
| "b64_encode (a # b # c # bs) =
     b64_char (unat a div 4) # b64_char (unat a mod 4 * 16 + unat b div 16) #
     b64_char (unat b mod 16 * 4 + unat c div 64) # b64_char (unat c mod 64) # b64_encode bs"

text \<open>The three bytes of a group, from its four values.\<close>

definition b64_byte1 :: "nat \<Rightarrow> nat \<Rightarrow> byte" where "b64_byte1 p q = word_of_nat (p * 4 + q div 16)"
definition b64_byte2 :: "nat \<Rightarrow> nat \<Rightarrow> byte" where "b64_byte2 q r = word_of_nat (q mod 16 * 16 + r div 4)"
definition b64_byte3 :: "nat \<Rightarrow> nat \<Rightarrow> byte" where "b64_byte3 r t = word_of_nat (r mod 4 * 64 + t)"

text \<open>Four characters at a time; padding is only accepted in the last group.\<close>

fun b64_quads :: "string \<Rightarrow> byte list option" where
  "b64_quads [] = Some []"
| "b64_quads (w # x # y # z # s) =
     (case (b64_value w, b64_value x) of
        (Some p, Some q) \<Rightarrow>
          if z = CHR ''='' then
            (if s \<noteq> [] then None
             else if y = CHR ''='' then Some [b64_byte1 p q]
             else case b64_value y of
                 None \<Rightarrow> None
               | Some r \<Rightarrow> Some [b64_byte1 p q, b64_byte2 q r])
          else
            (case (b64_value y, b64_value z, b64_quads s) of
               (Some r, Some t, Some bs) \<Rightarrow>
                 Some (b64_byte1 p q # b64_byte2 q r #
                       b64_byte3 r t # bs)
             | _ \<Rightarrow> None)
      | _ \<Rightarrow> None)"
| "b64_quads _ = None"

definition b64_decode :: "string \<Rightarrow> byte list option" where
  "b64_decode s = b64_quads (filter (\<lambda>c. c \<noteq> CHR 0x0A \<and> c \<noteq> CHR 0x0D) s)"

lemma of_char_b64_char:
  "n < 64 \<Longrightarrow> (of_char (b64_char n) :: nat) =
     (if n < 26 then 65 + n else if n < 52 then 71 + n else if n < 62 then n - 4 else if n = 62 then 43 else 47)"
  by (simp add: b64_char_def)

lemma b64_value_char: "n < 64 \<Longrightarrow> b64_value (b64_char n) = Some n"
proof -
  assume n: "n < 64"
  then consider "n < 62" | "n = 62" | "n = 63" by linarith
  then show ?thesis
    by cases (auto simp: b64_value_def Let_def of_char_b64_char b64_char_def)
qed

lemma b64_char_neq:
  assumes "n < 64"
  shows "b64_char n \<noteq> CHR ''=''" "b64_char n \<noteq> CHR 0x0A" "b64_char n \<noteq> CHR 0x0D"
proof -
  have "(of_char (b64_char n) :: nat) \<notin> {61, 10, 13}"
    unfolding of_char_b64_char [OF assms] using assms by auto
  then show "b64_char n \<noteq> CHR ''=''" "b64_char n \<noteq> CHR 0x0A" "b64_char n \<noteq> CHR 0x0D" by auto
qed

lemma b64_parts:
  fixes a b c :: byte
  shows "unat a div 4 < 64" "unat a mod 4 * 16 < 64" "unat a mod 4 * 16 + unat b div 16 < 64" "unat b mod 16 * 4 < 64"
    "unat b mod 16 * 4 + unat c div 64 < 64" "unat c mod 64 < 64"
  using unat_byte_less [of a] unat_byte_less [of b] unat_byte_less [of c] by linarith+

lemma b64_join:
  fixes a b c :: byte
  shows "b64_byte1 (unat a div 4) (unat a mod 4 * 16 + unat b div 16) = a"
    and "b64_byte2 (unat a mod 4 * 16 + unat b div 16) (unat b mod 16 * 4 + unat c div 64) = b"
    and "b64_byte3 (unat b mod 16 * 4 + unat c div 64) (unat c mod 64) = c"
proof -
  have b: "unat b div 16 < 16" and c: "unat c div 64 < 4" using unat_byte_less [of b] unat_byte_less [of c] by auto
  have "unat a div 4 * 4 + (unat a mod 4 * 16 + unat b div 16) div 16 = unat a" using b by simp
  then show "b64_byte1 (unat a div 4) (unat a mod 4 * 16 + unat b div 16) = a" unfolding b64_byte1_def by simp
  have "(unat a mod 4 * 16 + unat b div 16) mod 16 * 16 + (unat b mod 16 * 4 + unat c div 64) div 4 = unat b"
    using b c by simp
  then show "b64_byte2 (unat a mod 4 * 16 + unat b div 16) (unat b mod 16 * 4 + unat c div 64) = b"
    unfolding b64_byte2_def by (simp only:) simp
  have "(unat b mod 16 * 4 + unat c div 64) mod 4 * 64 + unat c mod 64 = unat c" using c by simp
  then show "b64_byte3 (unat b mod 16 * 4 + unat c div 64) (unat c mod 64) = c" unfolding b64_byte3_def by (simp only:) simp
qed

lemma b64_join_last:
  fixes a b :: byte
  shows "b64_byte1 (unat a div 4) (unat a mod 4 * 16) = a"
    and "b64_byte2 (unat a mod 4 * 16 + unat b div 16) (unat b mod 16 * 4) = b"
  using b64_join(1) [of a 0] b64_join(2) [of a b 0] by simp_all

lemma b64_quads_encode: "b64_quads (b64_encode bs) = Some bs"
  by (induction bs rule: b64_encode.induct)
    (simp_all add: b64_value_char b64_parts b64_char_neq b64_join b64_join_last)

lemma b64_no_newline: "c \<in> set (b64_encode bs) \<Longrightarrow> c \<noteq> CHR 0x0A \<and> c \<noteq> CHR 0x0D"
  by (induction bs rule: b64_encode.induct) (auto simp: b64_parts b64_char_neq)

lemma b64_decode_encode [simp]: "b64_decode (b64_encode bs) = Some bs"
  using b64_no_newline [of _ bs] by (simp add: b64_decode_def b64_quads_encode cong: filter_cong)

end
