(* ===== verification/PointerFile.thy ===== *)
theory PointerFile
  imports Encoding Keys Receipts
begin

text \<open>
  The pointer file of an upload, on both sides of the REST interface: \<^verbatim>\<open>internal/client/upload/pointer.go\<close> builds, encrypts,
  signs and registers it, \<^verbatim>\<open>internal/client/retrieve/pointer.go\<close> fetches and decrypts it, and
  \<^verbatim>\<open>internal/api/file.go\<close> stores, serves and deletes it. JSON bodies are records and are transported unchanged; the
  base64 and hexadecimal strings inside them are modelled. An HTTP exchange is a status code with a body or an error code. \<open>ok\<close>
  says which SQL statements succeed. The owner's identity comes from the verified token (\<open>claims\<close>).
\<close>

subsection \<open>The interface\<close>

datatype ErrorCode =
    INVALID_REQUEST | NETWORK_NOT_READY | INSUFFICIENT_ASN_DIVERSITY | INTERNAL_ERROR | UNAUTHORIZED | WRONG_ROLE
  | INSUFFICIENT_ESCROW_BALANCE | INVALID_BODY_SIGNATURE | NOT_FOUND | FILE_ALREADY_DELETED | FILE_ALREADY_REGISTERED
  | RESOURCE_OWNER_MISMATCH | INSUFFICIENT_PROVIDER_CAPACITY

type_synonym 'a http = "(nat \<times> ErrorCode) + (nat \<times> 'a)"

record VerifiedClaims =
  Subject :: uuid
  Role :: string

record fileRegisterRequest =
  fr_FileID :: uuid
  fr_PointerCiphertext :: string
  fr_PointerNonce :: string
  fr_PointerTag :: string
  fr_OriginalSizeBytes :: int
  fr_DisplayNameCiphertext :: "string option"
  fr_DisplayNameNonce :: "string option"
  fr_DisplayNameTag :: "string option"
  fr_SchemaVersion :: int
  fr_OwnerSig :: string

record pointerFileResponse =
  pr_FileID :: uuid
  pr_PointerCiphertext :: string
  pr_PointerNonce :: string
  pr_PointerTag :: string
  pr_SchemaVersion :: int
  pr_OriginalSizeBytes :: int
  pr_DisplayNameCiphertext :: "string option"
  pr_DisplayNameNonce :: "string option"
  pr_DisplayNameTag :: "string option"

subsection \<open>Layout of the plaintext\<close>

record erasureParamsInfo =
  ep_S :: int
  ep_R :: int
  ep_N :: int
  ep_LfBytes :: int

record pointerFileSegment =
  pf_SegmentID :: uuid
  pf_SegmentIndex :: int
  pf_FileKey :: string
  pf_ProviderIDs :: "uuid list"
  pf_ChunkIDs :: "string list"
  pf_ErasureParams :: erasureParamsInfo

text \<open>\<^verbatim>\<open>uint32(x)\<close> for an \<^verbatim>\<open>int\<close>, in big-endian order.\<close>

definition be_u32 :: "int \<Rightarrow> byte list" where
  "be_u32 x = be_bytes 4 (nat (x mod 2 ^ 32))"

definition decode_fixed :: "nat \<Rightarrow> string \<Rightarrow> byte list option" where
  "decode_fixed n s = (case hex_decode s of None \<Rightarrow> None | Some b \<Rightarrow> if length b \<noteq> n then None else Some b)"

fun decode_all :: "nat \<Rightarrow> string list \<Rightarrow> byte list option" where
  "decode_all n [] = Some []"
| "decode_all n (s # ss) =
     (case decode_fixed n s of
        None \<Rightarrow> None
      | Some b \<Rightarrow> (case decode_all n ss of None \<Rightarrow> None | Some bs \<Rightarrow> Some (b @ bs)))"

definition marshal_segment :: "pointerFileSegment \<Rightarrow> byte list option" where
  "marshal_segment seg =
     (case decode_fixed 32 (pf_FileKey seg) of
        None \<Rightarrow> None
      | Some fileKeyBytes \<Rightarrow>
          let ep = pf_ErasureParams seg
          in if int (length (pf_ProviderIDs seg)) \<noteq> ep_N ep \<or> int (length (pf_ChunkIDs seg)) \<noteq> ep_N ep then None
             else case decode_all 32 (pf_ChunkIDs seg) of
               None \<Rightarrow> None
             | Some chunkIDs \<Rightarrow>
                 Some (pf_SegmentID seg @ be_u32 (pf_SegmentIndex seg) @ fileKeyBytes @
                       be_u32 (ep_S ep) @ be_u32 (ep_R ep) @ be_u32 (ep_N ep) @ be_u32 (ep_LfBytes ep) @
                       concat (pf_ProviderIDs seg) @ chunkIDs))"

fun marshal_segments :: "pointerFileSegment list \<Rightarrow> byte list option" where
  "marshal_segments [] = Some []"
| "marshal_segments (seg # segs) =
     (case marshal_segment seg of
        None \<Rightarrow> None
      | Some b \<Rightarrow> (case marshal_segments segs of None \<Rightarrow> None | Some bs \<Rightarrow> Some (b @ bs)))"

definition marshalPointerFilePlaintext :: "pointerFileSegment list \<Rightarrow> byte list option" where
  "marshalPointerFilePlaintext segs =
     (case marshal_segments segs of None \<Rightarrow> None | Some bs \<Rightarrow> Some (be_u32 (int (length segs)) @ bs))"

text \<open>One segment from the unread rest of the data.\<close>

definition pointerFixedHeaderSize :: nat where "pointerFixedHeaderSize = 16 + 4 + 32 + 4 + 4 + 4 + 4"

definition unmarshal_segment :: "byte list \<Rightarrow> (pointerFileSegment \<times> byte list) option" where
  "unmarshal_segment data =
     (if length data < pointerFixedHeaderSize then None
      else
        let n = be_value (slice 60 64 data);
            rest = drop pointerFixedHeaderSize data
        in if length rest < n * 16 + n * 32 then None
           else Some
             (\<lparr>pf_SegmentID = slice 0 16 data,
               pf_SegmentIndex = int (be_value (slice 16 20 data)),
               pf_FileKey = hex_encode (slice 20 52 data),
               pf_ProviderIDs = map (\<lambda>j. slice (j * 16) (j * 16 + 16) rest) [0..<n],
               pf_ChunkIDs = map (\<lambda>j. hex_encode (slice (j * 32) (j * 32 + 32) (drop (n * 16) rest))) [0..<n],
               pf_ErasureParams = \<lparr>ep_S = int (be_value (slice 52 56 data)), ep_R = int (be_value (slice 56 60 data)),
                 ep_N = int n, ep_LfBytes = int (be_value (slice 64 68 data))\<rparr>\<rparr>,
              drop (n * 16 + n * 32) rest))"

primrec unmarshal_segments :: "nat \<Rightarrow> byte list \<Rightarrow> pointerFileSegment list option" where
  "unmarshal_segments 0 data = Some []"
| "unmarshal_segments (Suc k) data =
     (case unmarshal_segment data of
        None \<Rightarrow> None
      | Some (seg, rest) \<Rightarrow>
          (case unmarshal_segments k rest of None \<Rightarrow> None | Some segs \<Rightarrow> Some (seg # segs)))"

definition unmarshalPointerFilePlaintext :: "byte list \<Rightarrow> pointerFileSegment list option" where
  "unmarshalPointerFilePlaintext data =
     (if length data < 4 then None else unmarshal_segments (be_value (slice 0 4 data)) (drop 4 data))"

subsection \<open>Registration by the client\<close>

record client_crypto =
  cc_sha :: hash
  cc_hkdf :: hkdf_fun
  cc_seal :: seal_fun
  cc_open :: open_fun
  cc_sign :: sign_fun

datatype client_error =
    CPointerFormat | CPanic | CShortCiphertext | CTransport | CStatus nat | CSchemaVersion int | CBase64
  | ErrPointerTagMismatch | CDecrypt

definition pointerFileSchemaVersion :: int where "pointerFileSchemaVersion = 1"
definition ownerSigDomainPrefix :: string where "ownerSigDomainPrefix = ''vyomanaut-file-register-v1''"

definition pointerAAD :: "uuid \<Rightarrow> uuid \<Rightarrow> byte list" where
  "pointerAAD ownerID fileID = ownerID @ fileID @ be_u32 pointerFileSchemaVersion"

definition deriveFilenameKey :: "hkdf_fun \<Rightarrow> byte list \<Rightarrow> byte list \<Rightarrow> byte list \<Rightarrow> byte list" where
  "deriveFilenameKey hkdf masterSecret ownerID fileID = hkdf masterSecret ownerID (ascii ''vyomanaut-filename-v1'' @ fileID)"

record ownerSigInput =
  os_FileID :: uuid
  os_PointerCiphertext :: "byte list"
  os_PointerNonce :: "byte list"
  os_PointerTag :: "byte list"
  os_OriginalSizeBytes :: int
  os_DisplayNamePresent :: bool
  os_DisplayNameCiphertext :: "byte list"
  os_DisplayNameNonce :: "byte list"
  os_DisplayNameTag :: "byte list"
  os_SchemaVersion :: int

definition owner_sig_input :: "hash \<Rightarrow> ownerSigInput \<Rightarrow> byte list" where
  "owner_sig_input sha i =
     ascii ownerSigDomainPrefix @ os_FileID i @ sha (os_PointerCiphertext i) @ os_PointerNonce i @ os_PointerTag i @
     be_bytes 8 (u64_of_i64 (os_OriginalSizeBytes i)) @ [if os_DisplayNamePresent i then 1 else 0] @
     sha (os_DisplayNameCiphertext i @ os_DisplayNameNonce i @ os_DisplayNameTag i) @ be_u32 (os_SchemaVersion i)"

definition computeOwnerSig :: "hash \<Rightarrow> sign_fun \<Rightarrow> ownerSigInput \<Rightarrow> byte list \<Rightarrow> byte list" where
  "computeOwnerSig sha sign i signingKey = SignBytes sha sign signingKey (owner_sig_input sha i)"

text \<open>The nonce is the constant one.\<close>

definition pointer_nonce_one :: "byte list" where
  "pointer_nonce_one = replicate 11 0 @ [1]"

lemma length_pointer_nonce_one [simp]: "length pointer_nonce_one = 12" "pointer_nonce_one \<noteq> []"
  by (simp_all add: pointer_nonce_one_def)

text \<open>The request that \<^verbatim>\<open>registerPointerFile\<close> builds.\<close>

definition pointer_request ::
  "client_crypto \<Rightarrow> byte list \<Rightarrow> uuid \<Rightarrow> uuid \<Rightarrow> pointerFileSegment list \<Rightarrow> int \<Rightarrow> string \<Rightarrow> byte list \<Rightarrow>
     client_error + fileRegisterRequest" where
  "pointer_request cc masterSecret ownerID fileID segs originalSizeBytes displayName signingKey =
     (case marshalPointerFilePlaintext segs of
        None \<Rightarrow> Inl CPointerFormat
      | Some plaintext \<Rightarrow>
          (case DerivePointerEncKey (cc_hkdf cc) masterSecret ownerID fileID of
             None \<Rightarrow> Inl CPanic
           | Some pointerKey \<Rightarrow>
               (case EncryptPointerFile (cc_seal cc) pointerKey pointer_nonce_one (pointerAAD ownerID fileID) plaintext of
                  Inl _ \<Rightarrow> Inl CPanic
                | Inr ct \<Rightarrow>
                    if length ct < poly1305TagSize then Inl CShortCiphertext
                    else
                      let tag = drop (length ct - 16) ct;
                          ctOnly = take (length ct - 16) ct;
                          present = (displayName \<noteq> []);
                          full = EncryptAEAD (cc_seal cc) (deriveFilenameKey (cc_hkdf cc) masterSecret ownerID fileID)
                                   pointer_nonce_one (pointerAAD ownerID fileID) (ascii displayName);
                          dnCt = (if present then take (length full - 16) full else []);
                          dnNonce = (if present then pointer_nonce_one else replicate 12 0);
                          dnTag = (if present then drop (length full - 16) full else []);
                          sig = computeOwnerSig (cc_sha cc) (cc_sign cc)
                                  \<lparr>os_FileID = fileID, os_PointerCiphertext = ctOnly, os_PointerNonce = pointer_nonce_one,
                                   os_PointerTag = tag, os_OriginalSizeBytes = originalSizeBytes,
                                   os_DisplayNamePresent = present, os_DisplayNameCiphertext = dnCt,
                                   os_DisplayNameNonce = dnNonce, os_DisplayNameTag = dnTag,
                                   os_SchemaVersion = pointerFileSchemaVersion\<rparr> signingKey
                      in if present \<and> length full < poly1305TagSize then Inl CShortCiphertext
                         else Inr \<lparr>fr_FileID = fileID, fr_PointerCiphertext = b64_encode ctOnly,
                                   fr_PointerNonce = b64_encode pointer_nonce_one, fr_PointerTag = b64_encode tag,
                                   fr_OriginalSizeBytes = originalSizeBytes,
                                   fr_DisplayNameCiphertext = (if present then Some (b64_encode dnCt) else None),
                                   fr_DisplayNameNonce = (if present then Some (b64_encode dnNonce) else None),
                                   fr_DisplayNameTag = (if present then Some (b64_encode dnTag) else None),
                                   fr_SchemaVersion = pointerFileSchemaVersion, fr_OwnerSig = hex_encode sig\<rparr>)))"

text \<open>\<open>post\<close> is the exchange with the microservice: the status code, or \<open>None\<close> if the exchange failed.\<close>

definition registerPointerFile ::
  "client_crypto \<Rightarrow> (fileRegisterRequest \<Rightarrow> nat option) \<Rightarrow> byte list \<Rightarrow> uuid \<Rightarrow> uuid \<Rightarrow> pointerFileSegment list \<Rightarrow> int \<Rightarrow>
     string \<Rightarrow> byte list \<Rightarrow> client_error option" where
  "registerPointerFile cc post masterSecret ownerID fileID segs originalSizeBytes displayName signingKey =
     (case pointer_request cc masterSecret ownerID fileID segs originalSizeBytes displayName signingKey of
        Inl e \<Rightarrow> Some e
      | Inr req \<Rightarrow>
          (case post req of
             None \<Rightarrow> Some CTransport
           | Some st \<Rightarrow> if st = 201 then None else Some (CStatus st)))"

subsection \<open>Retrieval by the client\<close>

definition fetchAndDecryptPointerFile ::
  "client_crypto \<Rightarrow> (uuid \<Rightarrow> (pointerFileResponse http) option) \<Rightarrow> byte list \<Rightarrow> uuid \<Rightarrow> uuid \<Rightarrow>
     client_error + (pointerFileSegment list \<times> int)" where
  "fetchAndDecryptPointerFile cc get masterSecret ownerID fileID =
     (case get fileID of
        None \<Rightarrow> Inl CTransport
      | Some (Inl (st, _)) \<Rightarrow> Inl (CStatus st)
      | Some (Inr (st, resp)) \<Rightarrow>
          if st \<noteq> 200 then Inl (CStatus st)
          else if pr_SchemaVersion resp \<noteq> pointerFileSchemaVersion then Inl (CSchemaVersion (pr_SchemaVersion resp))
          else (case (b64_decode (pr_PointerCiphertext resp), b64_decode (pr_PointerNonce resp), b64_decode (pr_PointerTag resp)) of
                  (Some ciphertext, Some nonce, Some tag) \<Rightarrow>
                    if length nonce \<noteq> 12 \<or> length tag \<noteq> 16 then Inl CBase64
                    else (case DerivePointerEncKey (cc_hkdf cc) masterSecret ownerID fileID of
                            None \<Rightarrow> Inl CPanic
                          | Some key \<Rightarrow>
                              (case DecryptPointerFile (cc_open cc) key nonce (pointerAAD ownerID fileID) (ciphertext @ tag) of
                                 Inl ErrTagMismatch \<Rightarrow> Inl ErrPointerTagMismatch
                               | Inl _ \<Rightarrow> Inl CDecrypt
                               | Inr decrypted \<Rightarrow>
                                   (case unmarshalPointerFilePlaintext decrypted of
                                      None \<Rightarrow> Inl CPointerFormat
                                    | Some segs \<Rightarrow> Inr (segs, pr_OriginalSizeBytes resp))))
                | _ \<Rightarrow> Inl CBase64))"

subsection \<open>The microservice: registration\<close>

datatype file_stmt = FileSelect | OwnerKeySelect | FileUpdate | MarkAssignments | MarkFile | CountNotified

definition aesGCMNonceSize :: nat where "aesGCMNonceSize = 12"
definition aesGCMTagSize :: nat where "aesGCMTagSize = 16"

definition ownerSigSigningInput ::
  "hash \<Rightarrow> uuid \<Rightarrow> byte list \<Rightarrow> byte list \<Rightarrow> byte list \<Rightarrow> int \<Rightarrow> bool \<Rightarrow> byte list \<Rightarrow> byte list \<Rightarrow> byte list \<Rightarrow> int \<Rightarrow> byte list" where
  "ownerSigSigningInput sha fileID pointerCiphertext pointerNonce pointerTag originalSizeBytes displayNamePresent
     displayNameCiphertext displayNameNonce displayNameTag schemaVersion =
     (let dnNonce = (if displayNameNonce = [] then replicate aesGCMNonceSize 0 else displayNameNonce)
      in ascii ownerSigDomainPrefix @ fileID @ sha pointerCiphertext @ pointerNonce @ pointerTag @
         be_bytes 8 (u64_of_i64 originalSizeBytes) @ [if displayNamePresent then 1 else 0] @
         sha (displayNameCiphertext @ dnNonce @ displayNameTag) @ be_u32 schemaVersion)"

definition decodeBase64Field :: "nat option \<Rightarrow> string \<Rightarrow> byte list option" where
  "decodeBase64Field wantLen value =
     (case b64_decode value of
        None \<Rightarrow> None
      | Some raw \<Rightarrow> (case wantLen of None \<Rightarrow> Some raw | Some n \<Rightarrow> if length raw \<noteq> n then None else Some raw))"

text \<open>An optional field: absent, or decoded.\<close>

definition decode_optional :: "nat option \<Rightarrow> string option \<Rightarrow> byte list option option" where
  "decode_optional wantLen v =
     (case v of None \<Rightarrow> Some None | Some s \<Rightarrow> map_option Some (decodeBase64Field wantLen s))"

definition decodeProviderSig :: "string \<Rightarrow> byte list option" where
  "decodeProviderSig sigHex = decode_fixed 64 sigHex"

definition bytes_or_nil :: "byte list option \<Rightarrow> byte list" where
  "bytes_or_nil b = (case b of None \<Rightarrow> [] | Some x \<Rightarrow> x)"

definition find_file :: "database \<Rightarrow> uuid \<Rightarrow> file_row option" where
  "find_file db fid = List.find (\<lambda>r. file_id r = fid) (files db)"

definition stored_pointer ::
  "byte list \<Rightarrow> byte list \<Rightarrow> byte list \<Rightarrow> int \<Rightarrow> byte list option \<Rightarrow> byte list option \<Rightarrow> byte list option \<Rightarrow> int \<Rightarrow> file_row \<Rightarrow> file_row" where
  "stored_pointer ct nonce tag sz dnCt dnNonce dnTag version r =
     r\<lparr>pointer_ciphertext := ct, pointer_nonce := nonce, pointer_tag := tag, original_size_bytes := sz,
       display_name_ciphertext := dnCt, display_name_nonce := dnNonce, display_name_tag := dnTag, schema_version := version\<rparr>"

text \<open>The \<^verbatim>\<open>UPDATE\<close> fails when the new row violates the \<^verbatim>\<open>CHECK\<close> on the size.\<close>

definition register_update ::
  "bool \<Rightarrow> uuid \<Rightarrow> byte list \<Rightarrow> byte list \<Rightarrow> byte list \<Rightarrow> int \<Rightarrow> byte list option \<Rightarrow> byte list option \<Rightarrow> byte list option \<Rightarrow> int \<Rightarrow>
     database \<Rightarrow> bool \<times> database" where
  "register_update ok fileID ct nonce tag sz dnCt dnNonce dnTag version db =
     (if \<not> ok \<or> sz \<le> 0 \<or> find_file db fileID = None then (False, db)
      else (True, db\<lparr>files := update_where (\<lambda>r. file_id r = fileID)
              (stored_pointer ct nonce tag sz dnCt dnNonce dnTag version) (files db)\<rparr>))"

definition HandleRegister ::
  "hash \<Rightarrow> verify_fun \<Rightarrow> (file_stmt \<Rightarrow> bool) \<Rightarrow> VerifiedClaims option \<Rightarrow> fileRegisterRequest option \<Rightarrow> database \<Rightarrow>
     uuid http \<times> database" where
  "HandleRegister sha verify ok claims body db =
     (case claims of
        None \<Rightarrow> (Inl (500, INTERNAL_ERROR), db)
      | Some claims \<Rightarrow>
      case body of
        None \<Rightarrow> (Inl (400, INVALID_REQUEST), db)
      | Some req \<Rightarrow>
          if fr_SchemaVersion req \<noteq> 1 then (Inl (400, INVALID_REQUEST), db)
          else
          case (decodeBase64Field None (fr_PointerCiphertext req),
                decodeBase64Field (Some aesGCMNonceSize) (fr_PointerNonce req),
                decodeBase64Field (Some aesGCMTagSize) (fr_PointerTag req),
                decode_optional None (fr_DisplayNameCiphertext req),
                decode_optional (Some aesGCMNonceSize) (fr_DisplayNameNonce req),
                decode_optional (Some aesGCMTagSize) (fr_DisplayNameTag req)) of
            (Some ct, Some nonce, Some tag, Some dnCt, Some dnNonce, Some dnTag) \<Rightarrow>
              if \<not> ok FileSelect then (Inl (500, INTERNAL_ERROR), db)
              else (case find_file db (fr_FileID req) of
                 None \<Rightarrow> (Inl (404, NOT_FOUND), db)
               | Some f \<Rightarrow>
                   if owner_id f \<noteq> Subject claims then (Inl (403, UNAUTHORIZED), db)
                   else if length (pointer_ciphertext f) > 0 \<and> f_status f = F_ACTIVE
                   then (Inl (409, FILE_ALREADY_REGISTERED), db)
                   else if \<not> ok OwnerKeySelect then (Inl (500, INTERNAL_ERROR), db)
                   else (case owner_public_key db (owner_id f) of
                      None \<Rightarrow> (Inl (500, INTERNAL_ERROR), db)
                    | Some key \<Rightarrow>
                        if length key \<noteq> 32 then (Inl (500, INTERNAL_ERROR), db)
                        else (case decodeProviderSig (fr_OwnerSig req) of
                           None \<Rightarrow> (Inl (400, INVALID_REQUEST), db)
                         | Some sig \<Rightarrow>
                             if \<not> VerifyBytes sha verify key
                                  (ownerSigSigningInput sha (fr_FileID req) ct nonce tag (fr_OriginalSizeBytes req)
                                     (fr_DisplayNameCiphertext req \<noteq> None) (bytes_or_nil dnCt) (bytes_or_nil dnNonce)
                                     (bytes_or_nil dnTag) (fr_SchemaVersion req)) sig
                             then (Inl (401, INVALID_BODY_SIGNATURE), db)
                             else (case register_update (ok FileUpdate) (fr_FileID req) ct nonce tag (fr_OriginalSizeBytes req)
                                          dnCt dnNonce dnTag (fr_SchemaVersion req) db of
                                (False, db) \<Rightarrow> (Inl (500, INTERNAL_ERROR), db)
                              | (True, db) \<Rightarrow> (Inr (201, fr_FileID req), db)))))
          | _ \<Rightarrow> (Inl (400, INVALID_REQUEST), db))"

subsection \<open>The microservice: serving and deleting\<close>

definition HandlePointer ::
  "(file_stmt \<Rightarrow> bool) \<Rightarrow> VerifiedClaims option \<Rightarrow> uuid option \<Rightarrow> database \<Rightarrow> pointerFileResponse http" where
  "HandlePointer ok claims path db =
     (case claims of
        None \<Rightarrow> Inl (500, INTERNAL_ERROR)
      | Some claims \<Rightarrow>
      case path of
        None \<Rightarrow> Inl (400, INVALID_REQUEST)
      | Some fileID \<Rightarrow>
          if \<not> ok FileSelect then Inl (500, INTERNAL_ERROR)
          else case find_file db fileID of
            None \<Rightarrow> Inl (404, NOT_FOUND)
          | Some f \<Rightarrow>
              if owner_id f \<noteq> Subject claims then Inl (403, UNAUTHORIZED)
              else Inr (200, \<lparr>pr_FileID = fileID, pr_PointerCiphertext = b64_encode (pointer_ciphertext f),
                              pr_PointerNonce = b64_encode (pointer_nonce f), pr_PointerTag = b64_encode (pointer_tag f),
                              pr_SchemaVersion = schema_version f, pr_OriginalSizeBytes = original_size_bytes f,
                              pr_DisplayNameCiphertext = map_option b64_encode (display_name_ciphertext f),
                              pr_DisplayNameNonce = map_option b64_encode (display_name_nonce f),
                              pr_DisplayNameTag = map_option b64_encode (display_name_tag f)\<rparr>))"

record fileDeleteResponseBody =
  fd_FileID :: uuid
  fd_AssignmentsMarked :: nat
  fd_ProvidersNotified :: nat
  fd_ProvidersPending :: nat

definition of_file :: "database \<Rightarrow> uuid \<Rightarrow> assignment_row \<Rightarrow> bool" where
  "of_file db fileID a \<longleftrightarrow>
     (case a_segment_id a of None \<Rightarrow> False | Some s \<Rightarrow> \<exists>r\<in>set (segments db). segment_id r = s \<and> s_file_id r = fileID)"

definition countNotifiedProviders :: "NetworkProfile \<Rightarrow> time \<Rightarrow> uuid \<Rightarrow> database \<Rightarrow> nat \<times> nat" where
  "countNotifiedProviders profile now fileID db =
     (let window = HeartbeatInterval profile + HeartbeatJitter profile;
          marked = remdups (map a_provider_id
                     (filter (\<lambda>a. of_file db fileID a \<and> a_status a = A_PENDING_DELETION) (chunk_assignments db)));
          rows = filter (\<lambda>p. provider_id p \<in> set marked) (providers db);
          reached = (\<lambda>p. case last_heartbeat_ts p of None \<Rightarrow> False | Some t \<Rightarrow> t > now - window)
      in (length (filter reached rows), length (filter (\<lambda>p. \<not> reached p) rows)))"

definition deletable :: "database \<Rightarrow> uuid \<Rightarrow> assignment_row \<Rightarrow> bool" where
  "deletable db fileID a \<longleftrightarrow> of_file db fileID a \<and> a_status a \<noteq> A_PENDING_DELETION \<and> a_status a \<noteq> A_DELETED"

definition HandleDelete ::
  "NetworkProfile \<Rightarrow> (file_stmt \<Rightarrow> bool) \<Rightarrow> time \<Rightarrow> VerifiedClaims option \<Rightarrow> uuid option \<Rightarrow> database \<Rightarrow>
     fileDeleteResponseBody http \<times> database" where
  "HandleDelete profile ok now claims path db =
     (case claims of
        None \<Rightarrow> (Inl (500, INTERNAL_ERROR), db)
      | Some claims \<Rightarrow>
      case path of
        None \<Rightarrow> (Inl (400, INVALID_REQUEST), db)
      | Some fileID \<Rightarrow>
          if \<not> ok FileSelect then (Inl (500, INTERNAL_ERROR), db)
          else case find_file db fileID of
            None \<Rightarrow> (Inl (404, NOT_FOUND), db)
          | Some f \<Rightarrow>
              if owner_id f \<noteq> Subject claims then (Inl (403, UNAUTHORIZED), db)
              else if f_status f = F_DELETED then (Inl (409, FILE_ALREADY_DELETED), db)
              else if \<not> ok MarkAssignments then (Inl (500, INTERNAL_ERROR), db)
              else
                let assignmentsMarked = length (filter (deletable db fileID) (chunk_assignments db));
                    db = db\<lparr>chunk_assignments := update_where (deletable db fileID)
                              (\<lambda>a. a\<lparr>a_status := A_PENDING_DELETION\<rparr>) (chunk_assignments db)\<rparr>
                in if \<not> ok MarkFile then (Inl (500, INTERNAL_ERROR), db)
                   else
                     let db = db\<lparr>files := update_where (\<lambda>r. file_id r = fileID) (\<lambda>r. r\<lparr>f_status := F_DELETED\<rparr>) (files db)\<rparr>
                     in if \<not> ok CountNotified then (Inl (500, INTERNAL_ERROR), db)
                        else let (notified, pending) = countNotifiedProviders profile now fileID db
                             in (Inr (200, \<lparr>fd_FileID = fileID, fd_AssignmentsMarked = assignmentsMarked,
                                            fd_ProvidersNotified = notified, fd_ProvidersPending = pending\<rparr>), db))"

subsection \<open>Lemmas: the layout\<close>

definition canonical_hex :: "nat \<Rightarrow> string \<Rightarrow> bool" where
  "canonical_hex n s \<longleftrightarrow> (case hex_decode s of None \<Rightarrow> False | Some b \<Rightarrow> length b = n \<and> hex_encode b = s)"

definition u32_range :: "int \<Rightarrow> bool" where
  "u32_range x \<longleftrightarrow> 0 \<le> x \<and> x < 2 ^ 32"

definition segment_wf :: "pointerFileSegment \<Rightarrow> bool" where
  "segment_wf seg \<longleftrightarrow>
     length (pf_SegmentID seg) = 16 \<and> u32_range (pf_SegmentIndex seg) \<and> canonical_hex 32 (pf_FileKey seg) \<and>
     list_all (\<lambda>p. length p = 16) (pf_ProviderIDs seg) \<and> list_all (canonical_hex 32) (pf_ChunkIDs seg) \<and>
     u32_range (ep_S (pf_ErasureParams seg)) \<and> u32_range (ep_R (pf_ErasureParams seg)) \<and>
     u32_range (ep_N (pf_ErasureParams seg)) \<and> u32_range (ep_LfBytes (pf_ErasureParams seg)) \<and>
     int (length (pf_ProviderIDs seg)) = ep_N (pf_ErasureParams seg) \<and>
     int (length (pf_ChunkIDs seg)) = ep_N (pf_ErasureParams seg)"

lemma canonical_hex_decode: "canonical_hex n s \<Longrightarrow> \<exists>b. decode_fixed n s = Some b \<and> length b = n \<and> hex_encode b = s"
  by (auto simp: canonical_hex_def decode_fixed_def split: option.splits)

lemma canonical_hex_encode [simp]: "canonical_hex n (hex_encode b) \<longleftrightarrow> length b = n"
  by (simp add: canonical_hex_def)

lemma length_be_u32 [simp]: "length (be_u32 x) = 4"
  by (simp add: be_u32_def)

lemma be_value_u32: "u32_range x \<Longrightarrow> int (be_value (be_u32 x)) = x"
proof -
  assume "u32_range x"
  then have "x mod 2 ^ 32 = x" "nat x < 2 ^ 32" "0 \<le> x" by (auto simp: u32_range_def)
  moreover have "(256 :: nat) ^ 4 = 2 ^ 32" by simp
  ultimately show ?thesis by (simp only: be_u32_def be_value_be_bytes) simp
qed

lemma decode_all_canonical:
  "list_all (canonical_hex n) ss \<Longrightarrow>
   \<exists>ids. decode_all n ss = Some (concat ids) \<and> map hex_encode ids = ss \<and> list_all (\<lambda>b. length b = n) ids"
proof (induction ss)
  case Nil
  then show ?case by (intro exI [of _ "[]"]) simp
next
  case (Cons s ss)
  then obtain ids where "decode_all n ss = Some (concat ids)" "map hex_encode ids = ss" "list_all (\<lambda>b. length b = n) ids" by auto
  moreover obtain b where "decode_fixed n s = Some b" "length b = n" "hex_encode b = s"
    using Cons.prems canonical_hex_decode by force
  ultimately show ?case by (intro exI [of _ "b # ids"]) simp
qed

lemma length_concat_fixed: "list_all (\<lambda>b. length b = n) bs \<Longrightarrow> length (concat bs) = length bs * n"
  by (induction bs) auto

lemma blocks_of_concat:
  assumes "list_all (\<lambda>b. length b = n) bs"
  shows "map (\<lambda>j. slice (j * n) (j * n + n) (concat bs @ ys)) [0..<length bs] = bs"
proof (rule nth_equalityI)
  fix i assume "i < length (map (\<lambda>j. slice (j * n) (j * n + n) (concat bs @ ys)) [0..<length bs])"
  then have i: "i < length bs" by simp
  have "slice (i * n) (i * n + n) (concat (map id bs) @ ys) = id (bs ! i)"
    using assms i by (intro slice_block) (auto simp: list_all_iff)
  with i show "map (\<lambda>j. slice (j * n) (j * n + n) (concat bs @ ys)) [0..<length bs] ! i = bs ! i" by simp
qed simp

lemma marshal_segment_layout:
  assumes "segment_wf seg"
  obtains key ids where "length key = 32" "hex_encode key = pf_FileKey seg" "list_all (\<lambda>b. length b = 32) ids"
    "map hex_encode ids = pf_ChunkIDs seg"
    "marshal_segment seg = Some (pf_SegmentID seg @ be_u32 (pf_SegmentIndex seg) @ key @ be_u32 (ep_S (pf_ErasureParams seg)) @
       be_u32 (ep_R (pf_ErasureParams seg)) @ be_u32 (ep_N (pf_ErasureParams seg)) @ be_u32 (ep_LfBytes (pf_ErasureParams seg)) @
       concat (pf_ProviderIDs seg) @ concat ids)"
proof -
  obtain key where key: "decode_fixed 32 (pf_FileKey seg) = Some key" "length key = 32" "hex_encode key = pf_FileKey seg"
    using assms canonical_hex_decode by (auto simp: segment_wf_def)
  obtain ids where ids: "decode_all 32 (pf_ChunkIDs seg) = Some (concat ids)" "map hex_encode ids = pf_ChunkIDs seg"
    "list_all (\<lambda>b. length b = 32) ids"
    using assms decode_all_canonical [of 32 "pf_ChunkIDs seg"] by (auto simp: segment_wf_def)
  show thesis
    by (rule that [OF key(2,3) ids(3,2)]) (use assms key ids in \<open>simp add: marshal_segment_def segment_wf_def Let_def\<close>)
qed

lemma unmarshal_marshal_segment:
  assumes "segment_wf seg"
  shows "\<exists>b. marshal_segment seg = Some b \<and> (\<forall>rest. unmarshal_segment (b @ rest) = Some (seg, rest))"
proof -
  let ?ep = "pf_ErasureParams seg"
  obtain key ids where key: "length key = 32" "hex_encode key = pf_FileKey seg"
    and ids: "list_all (\<lambda>b. length b = 32) ids" "map hex_encode ids = pf_ChunkIDs seg"
    and b: "marshal_segment seg = Some (pf_SegmentID seg @ be_u32 (pf_SegmentIndex seg) @ key @ be_u32 (ep_S ?ep) @
       be_u32 (ep_R ?ep) @ be_u32 (ep_N ?ep) @ be_u32 (ep_LfBytes ?ep) @ concat (pf_ProviderIDs seg) @ concat ids)"
    (is "_ = Some ?b")
    by (rule marshal_segment_layout [OF assms])
  let ?n = "length (pf_ProviderIDs seg)"
  have id: "length (pf_SegmentID seg) = 16" and prov: "list_all (\<lambda>p. length p = 16) (pf_ProviderIDs seg)"
    and range: "u32_range (pf_SegmentIndex seg)" "u32_range (ep_S ?ep)" "u32_range (ep_R ?ep)" "u32_range (ep_N ?ep)"
      "u32_range (ep_LfBytes ?ep)" and len: "int ?n = ep_N ?ep" "length ids = ?n"
    using assms ids(2) by (auto simp: segment_wf_def dest: arg_cong [where f = length])
  have n: "be_value (be_u32 (ep_N ?ep)) = ?n" using be_value_u32 [OF range(4)] len(1) by linarith
  have "unmarshal_segment (?b @ rest) = Some (seg, rest)" for rest
  proof -
    let ?tail = "concat (pf_ProviderIDs seg) @ concat ids @ rest"
    have drop: "drop pointerFixedHeaderSize (?b @ rest) = ?tail" using id key(1) by (simp add: pointerFixedHeaderSize_def)
    have size: "length (concat (pf_ProviderIDs seg)) = ?n * 16" "length (concat ids) = ?n * 32"
      using length_concat_fixed [OF prov] length_concat_fixed [OF ids(1)] len(2) by simp_all
    have fields: "slice 0 16 (?b @ rest) = pf_SegmentID seg" "slice 16 20 (?b @ rest) = be_u32 (pf_SegmentIndex seg)"
      "slice 20 52 (?b @ rest) = key" "slice 52 56 (?b @ rest) = be_u32 (ep_S ?ep)" "slice 56 60 (?b @ rest) = be_u32 (ep_R ?ep)"
      "slice 60 64 (?b @ rest) = be_u32 (ep_N ?ep)" "slice 64 68 (?b @ rest) = be_u32 (ep_LfBytes ?ep)"
      using id key(1) by (simp_all add: slice_def)
    have provs: "map (\<lambda>j. slice (j * 16) (j * 16 + 16) ?tail) [0..<?n] = pf_ProviderIDs seg"
      using blocks_of_concat [OF prov] by simp
    have "map (\<lambda>j. slice (j * 32) (j * 32 + 32) (drop (?n * 16) ?tail)) [0..<?n] = ids"
      using blocks_of_concat [OF ids(1), of rest] size(1) len(2) by simp
    then have chunks: "map (\<lambda>j. hex_encode (slice (j * 32) (j * 32 + 32) (drop (?n * 16) ?tail))) [0..<?n] = pf_ChunkIDs seg"
      using ids(2) by (metis (no_types, lifting) map_eq_conv map_map comp_apply)
    have "\<not> length (?b @ rest) < pointerFixedHeaderSize" using id key(1) by (simp add: pointerFixedHeaderSize_def)
    moreover have "\<not> length ?tail < ?n * 16 + ?n * 32" using size by simp
    moreover have "drop (?n * 16 + ?n * 32) ?tail = rest" using size by simp
    ultimately show ?thesis
      unfolding unmarshal_segment_def Let_def fields n drop provs chunks
      using key(2) be_value_u32 [OF range(1)] be_value_u32 [OF range(2)] be_value_u32 [OF range(3)] be_value_u32 [OF range(5)] len(1)
      by simp
  qed
  with b show ?thesis by blast
qed

lemma unmarshal_marshal_segments:
  "list_all segment_wf segs \<Longrightarrow>
   \<exists>b. marshal_segments segs = Some b \<and> (\<forall>rest. unmarshal_segments (length segs) (b @ rest) = Some segs)"
proof (induction segs)
  case Nil
  then show ?case by simp
next
  case (Cons seg segs)
  then obtain bs where "marshal_segments segs = Some bs" "\<And>rest. unmarshal_segments (length segs) (bs @ rest) = Some segs" by auto
  moreover obtain b where "marshal_segment seg = Some b" "\<And>rest. unmarshal_segment (b @ rest) = Some (seg, rest)"
    using Cons.prems unmarshal_marshal_segment by force
  ultimately show ?case by simp
qed

lemma pointer_layout:
  assumes "list_all segment_wf segs" and "length segs < 2 ^ 32"
  obtains b where "marshalPointerFilePlaintext segs = Some b" "unmarshalPointerFilePlaintext b = Some segs" "b \<noteq> []"
proof -
  obtain bs where bs: "marshal_segments segs = Some bs" "unmarshal_segments (length segs) (bs @ []) = Some segs"
    using unmarshal_marshal_segments [OF assms(1)] by blast
  have "be_value (be_u32 (int (length segs))) = length segs"
    using be_value_u32 [of "int (length segs)"] assms(2) by (simp add: u32_range_def)
  moreover have "slice 0 4 (be_u32 (int (length segs)) @ bs) = be_u32 (int (length segs))" by (simp add: slice_def)
  ultimately have "unmarshalPointerFilePlaintext (be_u32 (int (length segs)) @ bs) = Some segs"
    using bs(2) by (simp add: unmarshalPointerFilePlaintext_def)
  moreover have "be_u32 (int (length segs)) \<noteq> []" using length_be_u32 by (metis list.size(3) zero_neq_numeral)
  ultimately show thesis using that bs(1) by (simp add: marshalPointerFilePlaintext_def)
qed

subsection \<open>Properties\<close>

text \<open>
  C27: the pointer-file layout is read back exactly: what \<^verbatim>\<open>marshalPointerFilePlaintext\<close> writes for well-formed
  segments, \<^verbatim>\<open>unmarshalPointerFilePlaintext\<close> of the other package decodes to the same segments.
\<close>

theorem pointer_layout_roundtrip:
  assumes "list_all segment_wf segs" and "length segs < 2 ^ 32"
  shows "Option.bind (marshalPointerFilePlaintext segs) unmarshalPointerFilePlaintext = Some segs"
  using pointer_layout [OF assms] by (metis bind.bind_lunit)

definition sample_segment :: "int \<Rightarrow> pointerFileSegment" where
  "sample_segment i = \<lparr>pf_SegmentID = replicate 16 3, pf_SegmentIndex = i, pf_FileKey = hex_encode (replicate 32 7),
     pf_ProviderIDs = [replicate 16 1, replicate 16 2], pf_ChunkIDs = [hex_encode (replicate 32 8), hex_encode (replicate 32 9)],
     pf_ErasureParams = \<lparr>ep_S = 1, ep_R = 1, ep_N = 2, ep_LfBytes = 262144\<rparr>\<rparr>"

lemma sample_segment_wf: "0 \<le> i \<Longrightarrow> i < 10 \<Longrightarrow> segment_wf (sample_segment i)"
  by (simp add: segment_wf_def sample_segment_def u32_range_def)

theorem pointer_layout_roundtrip_witness:
  "Option.bind (marshalPointerFilePlaintext [sample_segment 0, sample_segment 1]) unmarshalPointerFilePlaintext =
     Some [sample_segment 0, sample_segment 1]"
  by (rule pointer_layout_roundtrip) (simp_all add: sample_segment_wf)

text \<open>The server signs over the same bytes as the client.\<close>

lemma owner_sig_inputs_agree:
  assumes "os_DisplayNamePresent i \<longrightarrow> os_DisplayNameNonce i \<noteq> []"
    and "\<not> os_DisplayNamePresent i \<longrightarrow> os_DisplayNameNonce i = replicate 12 0"
  shows "ownerSigSigningInput sha (os_FileID i) (os_PointerCiphertext i) (os_PointerNonce i) (os_PointerTag i)
      (os_OriginalSizeBytes i) (os_DisplayNamePresent i) (os_DisplayNameCiphertext i)
      (if os_DisplayNamePresent i then os_DisplayNameNonce i else []) (os_DisplayNameTag i) (os_SchemaVersion i) =
    owner_sig_input sha i"
  using assms by (auto simp: ownerSigSigningInput_def owner_sig_input_def Let_def aesGCMNonceSize_def)

abbreviation http_status :: "'a http \<Rightarrow> nat" where
  "http_status r \<equiv> (case r of Inl (s, _) \<Rightarrow> s | Inr (s, _) \<Rightarrow> s)"

lemma find_file_update:
  assumes "find_file db fid = Some f" and "\<And>r. file_id (g r) = file_id r"
  shows "find_file (db\<lparr>files := update_where (\<lambda>r. file_id r = fid) g (files db)\<rparr>) fid = Some (g f)"
proof -
  have "List.find (\<lambda>r. file_id r = fid) rows = Some f \<Longrightarrow>
      List.find (\<lambda>r. file_id r = fid) (update_where (\<lambda>r. file_id r = fid) g rows) = Some (g f)" for rows
    using assms(2) by (induction rows) (auto split: if_splits)
  with assms(1) show ?thesis by (simp add: find_file_def)
qed

text \<open>What the client puts into a registration request, in closed form.\<close>

lemma pointer_request_fields:
  assumes "aead_correct (cc_seal cc) (cc_open cc)" and "length ms = 32" and "length owner = 16" and "length fid = 16"
    and "marshalPointerFilePlaintext segs = Some b"
  obtains ct tag dnCt dnNonce dnTag where
    "ct @ tag = cc_seal cc (cc_hkdf cc ms owner (ascii ''vyomanaut-pointer-v1'' @ fid)) pointer_nonce_one (pointerAAD owner fid) b"
    "length ct = length b" "length tag = 16" "length dnNonce = 12" "name \<noteq> [] \<longrightarrow> length dnTag = 16"
    "name = [] \<longrightarrow> dnCt = [] \<and> dnNonce = replicate 12 0 \<and> dnTag = []"
    "pointer_request cc ms owner fid segs sz name sk = Inr \<lparr>fr_FileID = fid, fr_PointerCiphertext = b64_encode ct,
       fr_PointerNonce = b64_encode pointer_nonce_one, fr_PointerTag = b64_encode tag, fr_OriginalSizeBytes = sz,
       fr_DisplayNameCiphertext = (if name \<noteq> [] then Some (b64_encode dnCt) else None),
       fr_DisplayNameNonce = (if name \<noteq> [] then Some (b64_encode dnNonce) else None),
       fr_DisplayNameTag = (if name \<noteq> [] then Some (b64_encode dnTag) else None),
       fr_SchemaVersion = 1,
       fr_OwnerSig = hex_encode (computeOwnerSig (cc_sha cc) (cc_sign cc)
         \<lparr>os_FileID = fid, os_PointerCiphertext = ct, os_PointerNonce = pointer_nonce_one, os_PointerTag = tag,
          os_OriginalSizeBytes = sz, os_DisplayNamePresent = (name \<noteq> []), os_DisplayNameCiphertext = dnCt,
          os_DisplayNameNonce = dnNonce, os_DisplayNameTag = dnTag, os_SchemaVersion = 1\<rparr> sk)\<rparr>"
proof -
  define c where "c = cc_seal cc (cc_hkdf cc ms owner (ascii ''vyomanaut-pointer-v1'' @ fid)) pointer_nonce_one (pointerAAD owner fid) b"
  define d where "d = cc_seal cc (cc_hkdf cc ms owner (ascii ''vyomanaut-filename-v1'' @ fid)) pointer_nonce_one
      (pointerAAD owner fid) (ascii name)"
  have len: "length c = length b + 16" "length d = length name + 16"
    using assms(1) by (simp_all add: c_def d_def aead_correct_def poly1305TagSize_def)
  have "pointerAAD owner fid \<noteq> []" using assms(3) by (auto simp: pointerAAD_def)
  then have enc: "EncryptPointerFile (cc_seal cc) (cc_hkdf cc ms owner (ascii ''vyomanaut-pointer-v1'' @ fid)) pointer_nonce_one
      (pointerAAD owner fid) b = Inr c"
    by (simp add: EncryptPointerFile_def EncryptAEAD_def c_def)
  have key: "DerivePointerEncKey (cc_hkdf cc) ms owner fid = Some (cc_hkdf cc ms owner (ascii ''vyomanaut-pointer-v1'' @ fid))"
    using assms(2-4) by (simp add: DerivePointerEncKey_def mustLen_def masterSecretSize_def uuidSize_def)
  show thesis
    by (rule that [of "take (length b) c" "drop (length b) c"
        "if name \<noteq> [] then pointer_nonce_one else replicate 12 0" "if name \<noteq> [] then drop (length name) d else []"
        "if name \<noteq> [] then take (length name) d else []"])
      (use len key enc assms(5) in \<open>simp_all add: c_def [symmetric] pointer_request_def Let_def poly1305TagSize_def
        pointerFileSchemaVersion_def deriveFilenameKey_def EncryptAEAD_def d_def [symmetric]\<close>)
qed

lemma decodeBase64Field_encode:
  "decodeBase64Field None (b64_encode b) = Some b"
  "decodeBase64Field (Some n) (b64_encode b) = (if length b = n then Some b else None)"
  by (simp_all add: decodeBase64Field_def)

lemma HandleRegister_accepts:
  assumes aead: "aead_correct (cc_seal cc) (cc_open cc)" and len: "length ms = 32" "length owner = 16" "length fid = 16"
    and plain: "marshalPointerFilePlaintext segs = Some b"
    and keys: "key_pair (cc_sign cc) verify sk pk" "owner_public_key db owner = Some pk"
    and row: "find_file db fid = Some f" "owner_id f = owner" "Subject claims = owner" "pointer_ciphertext f = []"
    and sz: "0 < sz"
  obtains req g ct tag where "pointer_request cc ms owner fid segs sz name sk = Inr req"
    "HandleRegister (cc_sha cc) verify (\<lambda>_. True) (Some claims) (Some req) db = (Inr (201, fid), db\<lparr>files :=
        update_where (\<lambda>r. file_id r = fid) g (files db)\<rparr>)"
    "ct @ tag = cc_seal cc (cc_hkdf cc ms owner (ascii ''vyomanaut-pointer-v1'' @ fid)) pointer_nonce_one (pointerAAD owner fid) b"
    "length ct = length b" "length tag = 16"
    "\<forall>r. pointer_ciphertext (g r) = ct \<and> pointer_nonce (g r) = pointer_nonce_one \<and> pointer_tag (g r) = tag \<and>
       original_size_bytes (g r) = sz \<and> schema_version (g r) = 1 \<and> file_id (g r) = file_id r \<and> owner_id (g r) = owner_id r \<and>
       f_status (g r) = f_status r"
proof -
  obtain ct tag dnCt dnNonce dnTag where ct:
    "ct @ tag = cc_seal cc (cc_hkdf cc ms owner (ascii ''vyomanaut-pointer-v1'' @ fid)) pointer_nonce_one (pointerAAD owner fid) b"
    "length ct = length b" "length tag = 16"
    and dn: "length dnNonce = 12" "name \<noteq> [] \<longrightarrow> length dnTag = 16"
      "name = [] \<longrightarrow> dnCt = [] \<and> dnNonce = replicate 12 0 \<and> dnTag = []"
    and req: "pointer_request cc ms owner fid segs sz name sk = Inr \<lparr>fr_FileID = fid, fr_PointerCiphertext = b64_encode ct,
       fr_PointerNonce = b64_encode pointer_nonce_one, fr_PointerTag = b64_encode tag, fr_OriginalSizeBytes = sz,
       fr_DisplayNameCiphertext = (if name \<noteq> [] then Some (b64_encode dnCt) else None),
       fr_DisplayNameNonce = (if name \<noteq> [] then Some (b64_encode dnNonce) else None),
       fr_DisplayNameTag = (if name \<noteq> [] then Some (b64_encode dnTag) else None),
       fr_SchemaVersion = 1,
       fr_OwnerSig = hex_encode (computeOwnerSig (cc_sha cc) (cc_sign cc)
         \<lparr>os_FileID = fid, os_PointerCiphertext = ct, os_PointerNonce = pointer_nonce_one, os_PointerTag = tag,
          os_OriginalSizeBytes = sz, os_DisplayNamePresent = (name \<noteq> []), os_DisplayNameCiphertext = dnCt,
          os_DisplayNameNonce = dnNonce, os_DisplayNameTag = dnTag, os_SchemaVersion = 1\<rparr> sk)\<rparr>"
    (is "_ = Inr ?req")
    by (rule pointer_request_fields [OF aead len plain])
  let ?i = "\<lparr>os_FileID = fid, os_PointerCiphertext = ct, os_PointerNonce = pointer_nonce_one, os_PointerTag = tag,
          os_OriginalSizeBytes = sz, os_DisplayNamePresent = (name \<noteq> []), os_DisplayNameCiphertext = dnCt,
          os_DisplayNameNonce = dnNonce, os_DisplayNameTag = dnTag, os_SchemaVersion = 1\<rparr>"
  let ?sig = "computeOwnerSig (cc_sha cc) (cc_sign cc) ?i sk"
  let ?opt = "\<lambda>b. if name \<noteq> [] then Some b else None"
  let ?g = "stored_pointer ct pointer_nonce_one tag sz (?opt dnCt) (?opt dnNonce) (?opt dnTag) 1"
  have sig: "length ?sig = 64" "\<And>x. x = owner_sig_input (cc_sha cc) ?i \<Longrightarrow> VerifyBytes (cc_sha cc) verify pk x ?sig"
    using keys(1) by (simp_all add: computeOwnerSig_def SignBytes_def VerifyBytes_def key_pair_def)
  have "ownerSigSigningInput (cc_sha cc) fid ct pointer_nonce_one tag sz (name \<noteq> []) dnCt (if name \<noteq> [] then dnNonce else []) dnTag 1 =
      owner_sig_input (cc_sha cc) ?i"
  proof -
    have "dnNonce \<noteq> []" using dn(1) by auto
    then show ?thesis using owner_sig_inputs_agree [of ?i "cc_sha cc"] dn by (cases "name = []") auto
  qed
  then have verified: "VerifyBytes (cc_sha cc) verify pk (ownerSigSigningInput (cc_sha cc) fid ct pointer_nonce_one tag sz (name \<noteq> [])
      dnCt (if name \<noteq> [] then dnNonce else []) dnTag 1) ?sig"
    by (rule sig(2))
  have "HandleRegister (cc_sha cc) verify (\<lambda>_. True) (Some claims) (Some ?req) db = (Inr (201, fid), db\<lparr>files :=
        update_where (\<lambda>r. file_id r = fid) ?g (files db)\<rparr>)"
    using verified sig(1) row keys sz dn ct(3)
    by (cases "name = []") (simp_all add: HandleRegister_def decodeBase64Field_encode decode_optional_def aesGCMNonceSize_def aesGCMTagSize_def
        decodeProviderSig_def decode_fixed_def register_update_def key_pair_def bytes_or_nil_def)
  with req ct show thesis by (intro that [of ?req ?g ct tag]) (simp_all add: stored_pointer_def)
qed

text \<open>
  C28: a registered pointer file comes back to its owner: the request the client builds is
  accepted by \<^verbatim>\<open>HandleRegister\<close> (the two sides agree on the signed bytes, with and without a file name), and what
  \<^verbatim>\<open>HandlePointer\<close> serves afterwards decrypts at the retrieving client to the same segments and the same size.
\<close>

theorem registered_pointer_recovered:
  assumes "aead_correct (cc_seal cc) (cc_open cc)" and "length ms = 32" and "length owner = 16" and "length fid = 16"
    and "list_all segment_wf segs" and "length segs < 2 ^ 32"
    and "key_pair (cc_sign cc) verify sk pk" and "owner_public_key db owner = Some pk"
    and "find_file db fid = Some f" and "owner_id f = owner" and "Subject claims = owner" and "pointer_ciphertext f = []"
    and "0 < sz"
  shows "\<exists>req db'. pointer_request cc ms owner fid segs sz name sk = Inr req \<and>
    HandleRegister (cc_sha cc) verify (\<lambda>_. True) (Some claims) (Some req) db = (Inr (201, fid), db') \<and>
    registerPointerFile cc (\<lambda>r. Some (http_status (fst (HandleRegister (cc_sha cc) verify (\<lambda>_. True) (Some claims) (Some r) db))))
      ms owner fid segs sz name sk = None \<and>
    fetchAndDecryptPointerFile cc (\<lambda>x. Some (HandlePointer (\<lambda>_. True) (Some claims) (Some x) db')) ms owner fid = Inr (segs, sz)"
proof -
  obtain b where b: "marshalPointerFilePlaintext segs = Some b" "unmarshalPointerFilePlaintext b = Some segs"
    by (rule pointer_layout [OF assms(5,6)])
  obtain req g ct tag where req: "pointer_request cc ms owner fid segs sz name sk = Inr req"
    and reg: "HandleRegister (cc_sha cc) verify (\<lambda>_. True) (Some claims) (Some req) db = (Inr (201, fid), db\<lparr>files :=
        update_where (\<lambda>r. file_id r = fid) g (files db)\<rparr>)"
    and ct: "ct @ tag = cc_seal cc (cc_hkdf cc ms owner (ascii ''vyomanaut-pointer-v1'' @ fid)) pointer_nonce_one (pointerAAD owner fid) b"
      "length ct = length b" "length tag = 16"
    and g: "\<forall>r. pointer_ciphertext (g r) = ct \<and> pointer_nonce (g r) = pointer_nonce_one \<and> pointer_tag (g r) = tag \<and>
       original_size_bytes (g r) = sz \<and> schema_version (g r) = 1 \<and> file_id (g r) = file_id r \<and> owner_id (g r) = owner_id r \<and>
       f_status (g r) = f_status r"
    by (rule HandleRegister_accepts [OF assms(1-4) b(1) assms(7-13), where name = name])
  let ?db' = "db\<lparr>files := update_where (\<lambda>r. file_id r = fid) g (files db)\<rparr>"
  have find: "find_file ?db' fid = Some (g f)" using assms(9) g by (intro find_file_update) auto
  have "DecryptPointerFile (cc_open cc) (cc_hkdf cc ms owner (ascii ''vyomanaut-pointer-v1'' @ fid)) pointer_nonce_one
      (pointerAAD owner fid) (ct @ tag) = Inr b"
    using DecryptAEAD_EncryptAEAD [OF assms(1)] ct(1) by (simp add: DecryptPointerFile_def EncryptAEAD_def)
  then have "fetchAndDecryptPointerFile cc (\<lambda>x. Some (HandlePointer (\<lambda>_. True) (Some claims) (Some x) ?db')) ms owner fid = Inr (segs, sz)"
    using find g assms(2-4,10,11) ct(3) b(2)
    by (simp add: fetchAndDecryptPointerFile_def HandlePointer_def pointerFileSchemaVersion_def DerivePointerEncKey_def mustLen_def
        masterSecretSize_def uuidSize_def)
  with req reg show ?thesis by (simp add: registerPointerFile_def)
qed

definition sample_crypto :: client_crypto where
  "sample_crypto = \<lparr>cc_sha = copy_slice (replicate 32 0), cc_hkdf = \<lambda>k s i. copy_slice (replicate 32 0) (k @ s @ i),
     cc_seal = \<lambda>k n a p. p @ replicate 16 5, cc_open = \<lambda>k n a c. Some (take (length c - 16) c), cc_sign = sample_sign\<rparr>"

definition placeholder_file :: file_row where
  "placeholder_file = \<lparr>file_id = replicate 16 7, owner_id = replicate 16 8, original_size_bytes = 10, f_status = F_ACTIVE,
     pointer_ciphertext = [], pointer_nonce = replicate 12 0, pointer_tag = replicate 16 0, display_name_ciphertext = None,
     display_name_nonce = None, display_name_tag = None, schema_version = 1\<rparr>"

definition placeholder_db :: database where
  "placeholder_db = empty_db\<lparr>files := [placeholder_file], owner_public_key := [replicate 16 8 \<mapsto> replicate 32 5]\<rparr>"

definition sample_claims :: VerifiedClaims where
  "sample_claims = \<lparr>Subject = replicate 16 8, Role = ''owner''\<rparr>"

lemma sample_aead: "aead_correct (cc_seal sample_crypto) (cc_open sample_crypto)"
  by (simp add: aead_correct_def sample_crypto_def poly1305TagSize_def)

lemma sample_file_found: "find_file placeholder_db (replicate 16 7) = Some placeholder_file"
  by (simp add: find_file_def placeholder_db_def placeholder_file_def)

theorem registered_pointer_recovered_witness:
  "\<exists>req db'. pointer_request sample_crypto (replicate 32 1) (replicate 16 8) (replicate 16 7) [sample_segment 0] 10 ''a.txt''
       (replicate 32 5) = Inr req \<and>
     fetchAndDecryptPointerFile sample_crypto (\<lambda>x. Some (HandlePointer (\<lambda>_. True) (Some sample_claims) (Some x) db'))
       (replicate 32 1) (replicate 16 8) (replicate 16 7) = Inr ([sample_segment 0], 10)"
proof -
  have "key_pair (cc_sign sample_crypto) (\<lambda>k m s. s = sample_sign k m) (replicate 32 5) (replicate 32 5)"
    using sample_key_pair by (simp add: sample_crypto_def)
  moreover have "owner_public_key placeholder_db (replicate 16 8) = Some (replicate 32 5)" by (simp add: placeholder_db_def)
  ultimately show ?thesis
    using registered_pointer_recovered [OF sample_aead _ _ _ _ _ _ _ sample_file_found, of "replicate 32 1" "replicate 16 8"
        "[sample_segment 0]" "\<lambda>k m s. s = sample_sign k m" "replicate 32 5" "replicate 32 5" sample_claims 10 "''a.txt''"]
      sample_segment_wf [of 0]
    by (fastforce simp: placeholder_file_def sample_claims_def)
qed

text \<open>
  C29: only the owner's own signature installs a pointer file: whatever request arrives, \<^verbatim>\<open>HandleRegister\<close> changes the
  database only for a file of the token's subject that has no registered pointer yet, and only if the request carries a signature
  that verifies under the owner's key over exactly the values it stores; then it changes nothing but that file's row.
\<close>

theorem register_needs_owner_signature:
  assumes "HandleRegister sha verify ok claims body db = (res, db')" and "db' \<noteq> db"
  shows "\<exists>c req f key ct nonce tag dnCt dnNonce dnTag sig. claims = Some c \<and> body = Some req \<and> find_file db (fr_FileID req) = Some f \<and>
    owner_id f = Subject c \<and> \<not> (pointer_ciphertext f \<noteq> [] \<and> f_status f = F_ACTIVE) \<and>
    owner_public_key db (Subject c) = Some key \<and> decodeProviderSig (fr_OwnerSig req) = Some sig \<and>
    VerifyBytes sha verify key (ownerSigSigningInput sha (fr_FileID req) ct nonce tag (fr_OriginalSizeBytes req)
      (fr_DisplayNameCiphertext req \<noteq> None) (bytes_or_nil dnCt) (bytes_or_nil dnNonce) (bytes_or_nil dnTag) 1) sig \<and>
    res = Inr (201, fr_FileID req) \<and> 0 < fr_OriginalSizeBytes req \<and>
    db' = db\<lparr>files := update_where (\<lambda>r. file_id r = fr_FileID req)
      (stored_pointer ct nonce tag (fr_OriginalSizeBytes req) dnCt dnNonce dnTag 1) (files db)\<rparr>"
proof -
  obtain c req where "claims = Some c" "body = Some req"
    using assms by (auto simp: HandleRegister_def split: option.splits)
  with assms show ?thesis
    by (simp add: HandleRegister_def register_update_def not_le split: option.splits if_splits prod.splits) blast+
qed

theorem register_needs_owner_signature_witness:
  "\<exists>req sig. decodeProviderSig (fr_OwnerSig req) = Some sig \<and> fr_OriginalSizeBytes req = 10 \<and>
     fst (HandleRegister (cc_sha sample_crypto) (\<lambda>k m s. s = sample_sign k m) (\<lambda>_. True) (Some sample_claims) (Some req) placeholder_db) =
       Inr (201, replicate 16 7)"
proof -
  let ?v = "\<lambda>k m s. s = sample_sign k m"
  obtain b where b: "marshalPointerFilePlaintext [sample_segment 0] = Some b" "b \<noteq> []"
    using pointer_layout [of "[sample_segment 0]"] sample_segment_wf [of 0] by auto
  have keys: "key_pair (cc_sign sample_crypto) ?v (replicate 32 5) (replicate 32 5)"
    "owner_public_key placeholder_db (replicate 16 8) = Some (replicate 32 5)"
    using sample_key_pair by (simp_all add: sample_crypto_def placeholder_db_def)
  have row: "owner_id placeholder_file = replicate 16 8" "Subject sample_claims = replicate 16 8" "pointer_ciphertext placeholder_file = []"
    by (simp_all add: placeholder_file_def sample_claims_def)
  have "\<exists>req g ct. pointer_request sample_crypto (replicate 32 1) (replicate 16 8) (replicate 16 7) [sample_segment 0] 10 []
      (replicate 32 5) = Inr req \<and>
    HandleRegister (cc_sha sample_crypto) ?v (\<lambda>_. True) (Some sample_claims) (Some req) placeholder_db =
      (Inr (201, replicate 16 7), placeholder_db\<lparr>files := update_where (\<lambda>r. file_id r = replicate 16 7) g (files placeholder_db)\<rparr>) \<and>
    length ct = length b \<and> (\<forall>r. pointer_ciphertext (g r) = ct)"
    by (rule HandleRegister_accepts [OF sample_aead length_replicate length_replicate length_replicate b(1) keys sample_file_found row,
        where sz = 10 and name = "[]"]) (simp, blast)
  then obtain req g ct where req: "pointer_request sample_crypto (replicate 32 1) (replicate 16 8) (replicate 16 7) [sample_segment 0] 10 []
      (replicate 32 5) = Inr req"
    and run: "HandleRegister (cc_sha sample_crypto) ?v (\<lambda>_. True) (Some sample_claims) (Some req) placeholder_db =
      (Inr (201, replicate 16 7), placeholder_db\<lparr>files := update_where (\<lambda>r. file_id r = replicate 16 7) g (files placeholder_db)\<rparr>)"
    and g: "length ct = length b" "\<forall>r. pointer_ciphertext (g r) = ct"
    by blast
  let ?db = "placeholder_db\<lparr>files := update_where (\<lambda>r. file_id r = replicate 16 7) g (files placeholder_db)\<rparr>"
  have "pointer_ciphertext (hd (files ?db)) \<noteq> []" using g b(2) by (auto simp: placeholder_db_def placeholder_file_def)
  moreover have "pointer_ciphertext (hd (files placeholder_db)) = []" by (simp add: placeholder_db_def placeholder_file_def)
  ultimately have "?db \<noteq> placeholder_db" by metis
  moreover have "fr_OriginalSizeBytes req = 10"
    using req b by (auto simp: pointer_request_def Let_def split: option.splits sum.splits if_splits)
  ultimately show ?thesis using register_needs_owner_signature [OF run] run by auto
qed

text \<open>
  deletion completes on retry: if \<^verbatim>\<open>HandleDelete\<close> is repeated after any outcome of an earlier attempt by the owner, then
  the file is deleted, none of its assignments is active or under repair, and the assignments of other files are as before;
  a further attempt is refused as already deleted and changes nothing.
\<close>

lemma of_file_frame [simp]:
  "of_file (db\<lparr>chunk_assignments := x\<rparr>) fid = of_file db fid" "of_file (db\<lparr>files := y\<rparr>) fid = of_file db fid"
  "of_file db fid (a\<lparr>a_status := s\<rparr>) = of_file db fid a"
  by (simp_all add: of_file_def fun_eq_iff split: option.split)

lemma find_file_frame [simp]: "find_file (db\<lparr>chunk_assignments := x\<rparr>) fid = find_file db fid"
  by (simp add: find_file_def)

definition mark_assignments :: "uuid \<Rightarrow> database \<Rightarrow> database" where
  "mark_assignments fid db = db\<lparr>chunk_assignments := update_where (deletable db fid)
     (\<lambda>a. a\<lparr>a_status := A_PENDING_DELETION\<rparr>) (chunk_assignments db)\<rparr>"

definition mark_file :: "uuid \<Rightarrow> database \<Rightarrow> database" where
  "mark_file fid db = db\<lparr>files := update_where (\<lambda>r. file_id r = fid) (\<lambda>r. r\<lparr>f_status := F_DELETED\<rparr>) (files db)\<rparr>"

lemma mark_assignments_twice: "mark_assignments fid (mark_assignments fid db) = mark_assignments fid db"
proof -
  have "chunk_assignments (mark_assignments fid (mark_assignments fid db)) = chunk_assignments (mark_assignments fid db)"
    by (auto simp: mark_assignments_def deletable_def update_where_def)
  then show ?thesis by (simp add: mark_assignments_def)
qed

lemma HandleDelete_states:
  assumes "find_file db fid = Some f" and "f_status f \<noteq> F_DELETED" and "owner_id f = Subject c"
  shows "snd (HandleDelete profile ok now (Some c) (Some fid) db) \<in>
      {db, mark_assignments fid db, mark_file fid (mark_assignments fid db)}"
    and "(\<forall>s. ok s) \<Longrightarrow> \<exists>r. HandleDelete profile ok now (Some c) (Some fid) db =
      (Inr (200, r), mark_file fid (mark_assignments fid db)) \<and> fd_FileID r = fid"
  using assms by (auto simp: HandleDelete_def Let_def mark_assignments_def mark_file_def split: prod.split)

lemma find_file_mark: "find_file (mark_assignments fid db) fid' = find_file db fid'"
  by (simp add: mark_assignments_def)

lemma find_file_mark_file:
  "find_file db fid = Some f \<Longrightarrow> find_file (mark_file fid db) fid = Some (f\<lparr>f_status := F_DELETED\<rparr>)"
  unfolding mark_file_def by (rule find_file_update) simp_all

theorem delete_retry_completes:
  assumes "find_file db fid = Some f" and "f_status f \<noteq> F_DELETED" and "owner_id f = Subject c"
    and "db1 = snd (HandleDelete profile ok now (Some c) (Some fid) db)"
    and "db2 = snd (HandleDelete profile (\<lambda>_. True) now' (Some c) (Some fid) db1)"
  shows "(\<exists>g. find_file db2 fid = Some g \<and> f_status g = F_DELETED) \<and>
    (\<forall>a\<in>set (chunk_assignments db2). of_file db2 fid a \<longrightarrow> a_status a = A_PENDING_DELETION \<or> a_status a = A_DELETED) \<and>
    filter (\<lambda>a. \<not> of_file db fid a) (chunk_assignments db2) = filter (\<lambda>a. \<not> of_file db fid a) (chunk_assignments db) \<and>
    HandleDelete profile ok' now'' (Some c) (Some fid) db2 =
      (if ok' FileSelect then Inl (409, FILE_ALREADY_DELETED) else Inl (500, INTERNAL_ERROR), db2)"
proof -
  let ?m = "mark_assignments fid db" and ?d = "mark_file fid (mark_assignments fid db)"
  let ?g = "f\<lparr>f_status := F_DELETED\<rparr>"
  have deleted: "find_file ?d fid = Some ?g" using assms(1) by (intro find_file_mark_file) (simp add: find_file_mark)
  then have again: "HandleDelete profile ok2 now2 (Some c) (Some fid) ?d =
      (if ok2 FileSelect then Inl (409, FILE_ALREADY_DELETED) else Inl (500, INTERNAL_ERROR), ?d)" for ok2 now2
    using assms(3) by (simp add: HandleDelete_def)
  have "db1 \<in> {db, ?m, ?d}" using HandleDelete_states(1) [OF assms(1-3)] assms(4) by blast
  then have db2: "db2 = ?d"
  proof (elim insertE emptyE)
    assume "db1 = db"
    with HandleDelete_states(2) [OF assms(1-3), of "\<lambda>_. True" profile now'] assms(5) show ?thesis by auto
  next
    assume "db1 = ?m"
    with HandleDelete_states(2) [of ?m fid f c "\<lambda>_. True" profile now'] assms(1-3,5) show ?thesis
      by (auto simp: find_file_mark mark_assignments_twice)
  next
    assume "db1 = ?d"
    with again assms(5) show ?thesis by simp
  qed
  have "of_file ?d fid = of_file db fid" by (simp add: mark_file_def mark_assignments_def)
  moreover have "\<forall>a\<in>set (chunk_assignments ?d). of_file db fid a \<longrightarrow> a_status a = A_PENDING_DELETION \<or> a_status a = A_DELETED"
    by (auto simp: mark_file_def mark_assignments_def in_update_where deletable_def)
  moreover have "filter (\<lambda>a. \<not> of_file db fid a) (update_where (deletable db fid) (\<lambda>a. a\<lparr>a_status := A_PENDING_DELETION\<rparr>) rows) =
      filter (\<lambda>a. \<not> of_file db fid a) rows" for rows
    by (induction rows) (auto simp: deletable_def)
  ultimately show ?thesis using deleted again db2 by (simp add: mark_file_def mark_assignments_def)
qed

theorem delete_retry_completes_witness:
  "snd (HandleDelete DemoProfile (\<lambda>s. s = FileSelect) 0 (Some sample_claims) (Some (replicate 16 7)) placeholder_db) = placeholder_db \<and>
   fst (HandleDelete DemoProfile (\<lambda>_. True) 0 (Some sample_claims) (Some (replicate 16 7))
     (snd (HandleDelete DemoProfile (\<lambda>_. True) 0 (Some sample_claims) (Some (replicate 16 7)) placeholder_db))) =
     Inl (409, FILE_ALREADY_DELETED)"
proof -
  have same: "snd (HandleDelete DemoProfile (\<lambda>s. s = FileSelect) 0 (Some sample_claims) (Some (replicate 16 7)) placeholder_db) = placeholder_db"
    using sample_file_found by (simp add: HandleDelete_def)
  have "f_status placeholder_file \<noteq> F_DELETED" "owner_id placeholder_file = Subject sample_claims"
    by (simp_all add: placeholder_file_def sample_claims_def)
  from delete_retry_completes [OF sample_file_found this, where ok = "\<lambda>s. s = FileSelect" and profile = DemoProfile and now = 0 and
      now' = 0 and now'' = 0 and ok' = "\<lambda>_. True", OF refl refl] same
  show ?thesis by simp
qed

end
