(* ===== verification/Readiness.thy ===== *)
theory Readiness
  imports Secrets Charge PointerFile
begin

text \<open>
  The gates that an upload passes before its shards are placed: the readiness conditions of
  \<^verbatim>\<open>internal/api/readiness.go\<close> with their cache, the storage ceiling per provider of
  \<^verbatim>\<open>internal/api/upload.go\<close>, and the balance and cost of \<^verbatim>\<open>internal/api/owner.go\<close>. The cluster membership
  and the relay counter are interfaces of the evaluator and therefore fields of its record. Costs and thresholds that the code computes in
  \<^verbatim>\<open>float64\<close> are rationals here; the arithmetic of \<^verbatim>\<open>fileMonthlyCostPaiseForBytes\<close> is exact in \<^verbatim>\<open>float64\<close> as long as
  the product of size and rate stays below \<open>2 ^ 52\<close>.
\<close>

datatype ready_stmt =
    RActive | RASNs | RRegions | RRazorpay | RNearCeiling
  | OverCeiling | EligibleCount | BalanceSelect | ActiveBytes

text \<open>\<^verbatim>\<open>int64(x)\<close> of a floating-point number truncates towards zero.\<close>

definition int64_of_float :: "rat \<Rightarrow> int" where
  "int64_of_float q = (if 0 \<le> q then \<lfloor>q\<rfloor> else \<lceil>q\<rceil>)"

subsection \<open>Storage ceiling\<close>

definition mttfTier180Days :: int where "mttfTier180Days = 180"
definition mttfTier300Days :: int where "mttfTier300Days = 300"
definition storageCeiling180DaysGB :: int where "storageCeiling180DaysGB = 70"
definition storageCeiling300DaysGB :: int where "storageCeiling300DaysGB = 130"
definition nearCeilingThresholdFraction :: rat where "nearCeilingThresholdFraction = 9 / 10"
definition mttfMidpointDays :: int where "mttfMidpointDays = (mttfTier180Days + mttfTier300Days) sdiv 2"

definition storageCeilingForMTTFDays :: "int \<Rightarrow> int" where
  "storageCeilingForMTTFDays mttfDays =
     (if mttfDays \<le> mttfTier180Days then storageCeiling180DaysGB
      else if mttfDays \<ge> mttfTier300Days then storageCeiling300DaysGB
      else if mttfDays < mttfMidpointDays then storageCeiling180DaysGB
      else storageCeiling300DaysGB)"

definition activeChunkStorageCeilingGB :: int where
  "activeChunkStorageCeilingGB = storageCeilingForMTTFDays mttfTier180Days"

definition chunkCeilingMaxChunks :: "NetworkProfile \<Rightarrow> int" where
  "chunkCeilingMaxChunks profile = i64 (activeChunkStorageCeilingGB * bytesPerGB) sdiv ShardSizeField profile"

text \<open>The real chunks that a provider holds, and the providers with at least \<open>m\<close> of them.\<close>

definition live_real :: "assignment_row \<Rightarrow> bool" where
  "live_real a \<longleftrightarrow> \<not> is_vetting_chunk a \<and> (a_status a = A_ACTIVE \<or> a_status a = A_REPAIRING)"

definition held_chunks :: "database \<Rightarrow> uuid \<Rightarrow> nat" where
  "held_chunks db pid = length (filter (\<lambda>a. live_real a \<and> a_provider_id a = pid) (chunk_assignments db))"

definition group_having :: "int \<Rightarrow> database \<Rightarrow> uuid list" where
  "group_having m db =
     filter (\<lambda>pid. m \<le> int (held_chunks db pid)) (remdups (map a_provider_id (filter live_real (chunk_assignments db))))"

definition providersAtOrOverChunkCount :: "bool \<Rightarrow> int \<Rightarrow> database \<Rightarrow> uuid list option" where
  "providersAtOrOverChunkCount ok maxChunks db = (if ok then Some (group_having maxChunks db) else None)"

definition eligibleActiveProviderCountAtOrUnder :: "bool \<Rightarrow> int \<Rightarrow> database \<Rightarrow> nat option" where
  "eligibleActiveProviderCountAtOrUnder ok maxChunks db =
     (if ok then Some (length (filter (\<lambda>p. status p = ACTIVE \<and> provider_id p \<notin> set (group_having maxChunks db)) (providers db)))
      else None)"

definition providersNearChunkCeilingCount :: "bool \<Rightarrow> int \<Rightarrow> database \<Rightarrow> nat option" where
  "providersNearChunkCeilingCount ok maxChunks db =
     (if ok then Some (length (group_having (int64_of_float (of_int maxChunks * nearCeilingThresholdFraction)) db)) else None)"

text \<open>The providers to exclude, or the error response.\<close>

definition enforceProviderCapacity :: "(ready_stmt \<Rightarrow> bool) \<Rightarrow> database \<Rightarrow> int \<Rightarrow> int \<Rightarrow> (nat \<times> ErrorCode) + uuid list" where
  "enforceProviderCapacity ok db maxChunks minActiveProviders =
     (case providersAtOrOverChunkCount (ok OverCeiling) maxChunks db of
        None \<Rightarrow> Inl (500, INTERNAL_ERROR)
      | Some overCeiling \<Rightarrow>
          (case eligibleActiveProviderCountAtOrUnder (ok EligibleCount) maxChunks db of
             None \<Rightarrow> Inl (500, INTERNAL_ERROR)
           | Some n \<Rightarrow> if int n < minActiveProviders then Inl (503, INSUFFICIENT_PROVIDER_CAPACITY) else Inr overCeiling))"

subsection \<open>Balance and cost\<close>

definition roundingHalf :: rat where "roundingHalf = 1 / 2"

definition fileMonthlyCostPaiseForBytes :: "int \<Rightarrow> NetworkProfile \<Rightarrow> int" where
  "fileMonthlyCostPaiseForBytes sizeBytes profile =
     (let gb = (of_int sizeBytes :: rat) / of_int bytesPerGB
      in int64_of_float (gb * of_int (StorageRatePaisePerGBPerMonth profile) + roundingHalf))"

definition active_bytes :: "database \<Rightarrow> uuid \<Rightarrow> int" where
  "active_bytes db ownerID =
     sum_list (map original_size_bytes (filter (\<lambda>f. owner_id f = ownerID \<and> f_status f = F_ACTIVE) (files db)))"

definition ownerBalanceAndReserved :: "(ready_stmt \<Rightarrow> bool) \<Rightarrow> NetworkProfile \<Rightarrow> uuid \<Rightarrow> database \<Rightarrow> (int \<times> int) option" where
  "ownerBalanceAndReserved ok profile ownerID db =
     (if \<not> ok BalanceSelect then None
      else let balancePaise = (case mv_owner_escrow_balance db ownerID of None \<Rightarrow> 0 | Some b \<Rightarrow> b)
           in if \<not> ok ActiveBytes then None
              else Some (balancePaise, fileMonthlyCostPaiseForBytes (active_bytes db ownerID) profile))"

subsection \<open>Readiness\<close>

definition productionQuorumSize :: int where "productionQuorumSize = 3"
definition soloInstanceSize :: int where "soloInstanceSize = 1"
definition clusterAuditSecretRequiredValue :: int where "clusterAuditSecretRequiredValue = 1"

record ReadinessCondition =
  Name :: string
  Satisfied :: bool
  CurrentValue :: int
  RequiredValue :: int
  DemoValue :: "int option"

record ReadinessConditions =
  ActiveVettedProviders :: ReadinessCondition
  DistinctASNs :: ReadinessCondition
  DistinctMetroRegions :: ReadinessCondition
  MicroserviceQuorum :: ReadinessCondition
  RazorpayAccountsReady :: ReadinessCondition
  RelayNodesDeployed :: ReadinessCondition
  ClusterAuditSecretLoaded :: ReadinessCondition

record ReadinessResponse =
  AllConditionsMet :: bool
  EvaluatedAt :: time
  re_Mode :: string
  Conditions :: ReadinessConditions
  ProvidersNearCeilingCount :: int
  EffectiveDepartureThresholdSeconds :: int

record ReadinessEvaluator =
  re_profile :: NetworkProfile
  clusterSecretCache :: ClusterSecretCache
  HealthyCount :: int
  relayNodeCount :: "int option"
  effectiveDepartureThreshold :: duration
  re_cached :: "ReadinessResponse option"

definition demoValue :: "ReadinessEvaluator \<Rightarrow> int \<Rightarrow> int option" where
  "demoValue e requiredValue = (if \<not> IsDemoMode (re_profile e) then None else Some requiredValue)"

text \<open>A condition that compares a count with its requirement.\<close>

definition at_least :: "ReadinessEvaluator \<Rightarrow> string \<Rightarrow> int \<Rightarrow> int \<Rightarrow> ReadinessCondition" where
  "at_least e n current required =
     \<lparr>Name = n, Satisfied = (current \<ge> required), CurrentValue = current, RequiredValue = required,
      DemoValue = demoValue e required\<rparr>"

definition vetting_or_active :: "provider_row \<Rightarrow> bool" where
  "vetting_or_active p \<longleftrightarrow> status p = VETTING \<or> status p = ACTIVE"

definition count_distinct :: "('a \<Rightarrow> 'b) \<Rightarrow> 'a list \<Rightarrow> int" where
  "count_distinct f rows = int (length (remdups (map f rows)))"

definition evaluateActiveVettedProviders :: "bool \<Rightarrow> ReadinessEvaluator \<Rightarrow> database \<Rightarrow> ReadinessCondition option" where
  "evaluateActiveVettedProviders ok e db =
     (if \<not> ok then None
      else Some (at_least e ''active_vetted_providers'' (int (length (filter vetting_or_active (providers db))))
                   (MinActiveProviders (re_profile e))))"

definition evaluateDistinctASNs :: "bool \<Rightarrow> ReadinessEvaluator \<Rightarrow> database \<Rightarrow> ReadinessCondition option" where
  "evaluateDistinctASNs ok e db =
     (if \<not> ok then None
      else Some (at_least e ''distinct_asns'' (count_distinct asn (filter vetting_or_active (providers db)))
                   (MinDistinctASNs (re_profile e))))"

definition evaluateDistinctMetroRegions :: "bool \<Rightarrow> ReadinessEvaluator \<Rightarrow> database \<Rightarrow> ReadinessCondition option" where
  "evaluateDistinctMetroRegions ok e db =
     (if \<not> ok then None
      else Some (at_least e ''distinct_metro_regions'' (count_distinct region (filter vetting_or_active (providers db)))
                   (MinMetroRegions (re_profile e))))"

definition evaluateQuorum :: "ReadinessEvaluator \<Rightarrow> ReadinessCondition" where
  "evaluateQuorum e =
     (if \<not> RequireQuorum (re_profile e)
      then \<lparr>Name = ''microservice_quorum'', Satisfied = True, CurrentValue = soloInstanceSize, RequiredValue = soloInstanceSize,
            DemoValue = demoValue e soloInstanceSize\<rparr>
      else at_least e ''microservice_quorum'' (HealthyCount e) productionQuorumSize)"

definition evaluateRazorpayAccountsReady :: "bool \<Rightarrow> time \<Rightarrow> ReadinessEvaluator \<Rightarrow> database \<Rightarrow> ReadinessCondition option" where
  "evaluateRazorpayAccountsReady ok now e db =
     (if \<not> ok then None
      else Some (at_least e ''razorpay_accounts_ready''
                   (int (length (filter (\<lambda>p. linked_account p \<noteq> None \<and>
                      (case cooling_until p of None \<Rightarrow> False | Some t \<Rightarrow> t < now)) (providers db))))
                   (MinCooledAccounts (re_profile e))))"

definition evaluateRelayNodesDeployed :: "ReadinessEvaluator \<Rightarrow> ReadinessCondition option" where
  "evaluateRelayNodesDeployed e =
     (case relayNodeCount e of
        None \<Rightarrow> None
      | Some current \<Rightarrow> Some (at_least e ''relay_nodes_deployed'' current (MinRelayNodes (re_profile e))))"

definition evaluateClusterAuditSecretLoaded :: "ReadinessEvaluator \<Rightarrow> ReadinessCondition" where
  "evaluateClusterAuditSecretLoaded e =
     (let current = (if IsLoaded (clusterSecretCache e) then 1 else 0)
      in \<lparr>Name = ''cluster_audit_secret_loaded'', Satisfied = (current = clusterAuditSecretRequiredValue),
          CurrentValue = current, RequiredValue = clusterAuditSecretRequiredValue,
          DemoValue = demoValue e clusterAuditSecretRequiredValue\<rparr>)"

definition all_met :: "ReadinessConditions \<Rightarrow> bool" where
  "all_met c \<longleftrightarrow>
     Satisfied (ActiveVettedProviders c) \<and> Satisfied (DistinctASNs c) \<and> Satisfied (DistinctMetroRegions c) \<and>
     Satisfied (MicroserviceQuorum c) \<and> Satisfied (RazorpayAccountsReady c) \<and> Satisfied (RelayNodesDeployed c) \<and>
     Satisfied (ClusterAuditSecretLoaded c)"

definition Evaluate :: "(ready_stmt \<Rightarrow> bool) \<Rightarrow> time \<Rightarrow> ReadinessEvaluator \<Rightarrow> database \<Rightarrow> ReadinessResponse option" where
  "Evaluate ok now e db =
     (case (evaluateActiveVettedProviders (ok RActive) e db, evaluateDistinctASNs (ok RASNs) e db,
            evaluateDistinctMetroRegions (ok RRegions) e db, evaluateRazorpayAccountsReady (ok RRazorpay) now e db,
            evaluateRelayNodesDeployed e,
            providersNearChunkCeilingCount (ok RNearCeiling) (chunkCeilingMaxChunks (re_profile e)) db) of
        (Some activeVettedCond, Some asnCond, Some regionCond, Some razorpayCond, Some relayCond, Some nearCeilingCount) \<Rightarrow>
          let c = \<lparr>ActiveVettedProviders = activeVettedCond, DistinctASNs = asnCond, DistinctMetroRegions = regionCond,
                   MicroserviceQuorum = evaluateQuorum e, RazorpayAccountsReady = razorpayCond,
                   RelayNodesDeployed = relayCond, ClusterAuditSecretLoaded = evaluateClusterAuditSecretLoaded e\<rparr>
          in Some \<lparr>AllConditionsMet = all_met c, EvaluatedAt = now, re_Mode = Mode (re_profile e), Conditions = c,
                   ProvidersNearCeilingCount = int nearCeilingCount,
                   EffectiveDepartureThresholdSeconds = effectiveDepartureThreshold e sdiv second\<rparr>
      | _ \<Rightarrow> None)"

definition RefreshCache ::
  "(ready_stmt \<Rightarrow> bool) \<Rightarrow> time \<Rightarrow> ReadinessEvaluator \<Rightarrow> database \<Rightarrow> ReadinessResponse option \<times> ReadinessEvaluator" where
  "RefreshCache ok now e db =
     (case Evaluate ok now e db of
        None \<Rightarrow> (None, e)
      | Some resp \<Rightarrow> (Some resp, e\<lparr>re_cached := Some resp\<rparr>))"

definition Cached :: "ReadinessEvaluator \<Rightarrow> ReadinessResponse option" where
  "Cached e = re_cached e"

definition HandleReadiness ::
  "(ready_stmt \<Rightarrow> bool) \<Rightarrow> time \<Rightarrow> ReadinessEvaluator \<Rightarrow> database \<Rightarrow> ReadinessResponse http" where
  "HandleReadiness ok now e db =
     (case (case Cached e of Some resp \<Rightarrow> Some resp | None \<Rightarrow> Evaluate ok now e db) of
        None \<Rightarrow> Inl (500, INTERNAL_ERROR)
      | Some resp \<Rightarrow> Inr (200, resp))"

subsection \<open>Properties\<close>

lemma floor_half: "\<lfloor>(of_int m :: rat) / of_int (2 * h) + 1 / 2\<rfloor> = (m + h) div (2 * h)" if "0 < h"
proof -
  have "(of_int m :: rat) / of_int (2 * h) + 1 / 2 = of_int (m + h) / of_int (2 * h)"
    using that by (simp add: field_simps)
  then show ?thesis by (simp only: floor_divide_of_int_eq)
qed

text \<open>
  C32: the cost that an owner is quoted when the file is assigned (and that is reserved for it) is the cost
  that the monthly run charges for it, although one is computed in floating point and the other with
  integers, for every file and rate whose product stays below \<open>2 ^ 52\<close>.
\<close>

theorem quote_equals_charge:
  assumes "0 \<le> sz" and "0 \<le> StorageRatePaisePerGBPerMonth profile"
    and "sz * StorageRatePaisePerGBPerMonth profile < 2 ^ 52"
  shows "fileMonthlyCostPaiseForBytes sz profile = fileMonthlyCostPaise sz profile"
proof -
  let ?m = "sz * StorageRatePaisePerGBPerMonth profile"
  have m: "0 \<le> ?m" using assms(1,2) by simp
  have gb: "bytesPerGB = 2 * 536870912" "roundingHalfBytes = 536870912"
    by (simp_all add: bytesPerGB_def roundingHalfBytes_def)
  have "fileMonthlyCostPaiseForBytes sz profile = \<lfloor>(of_int ?m :: rat) / of_int (2 * 536870912) + 1 / 2\<rfloor>"
    using m by (simp add: fileMonthlyCostPaiseForBytes_def int64_of_float_def roundingHalf_def gb flip: of_int_mult)
  also have "\<dots> = (?m + 536870912) div (2 * 536870912)" by (rule floor_half) simp
  also have "\<dots> = fileMonthlyCostPaise sz profile"
    using m assms(3) by (simp add: fileMonthlyCostPaise_def i64_id gb sdiv_nonneg)
  finally show ?thesis .
qed

theorem quote_equals_charge_witness:
  "fileMonthlyCostPaiseForBytes 805306368 ProductionProfile = fileMonthlyCostPaise 805306368 ProductionProfile"
  by (rule quote_equals_charge) (simp_all add: ProductionProfile_def)

end
