(* ===== verification/UploadApi.thy ===== *)
theory UploadApi
  imports Readiness Handlers
begin

text \<open>
  Placing the shards of an upload and resolving them for a retrieval: \<^verbatim>\<open>internal/api/upload.go\<close> and
  \<^verbatim>\<open>internal/api/retrieve.go\<close>. A segment and its shards are written in one transaction, which is modelled by
  returning the database of the beginning on every error path. \<open>ae_fresh\<close> is the segment identifier
  that the database generates, \<open>ae_shuffle\<close> the random order of the candidate draws for a segment and a shard, \<open>ae_ok\<close>
  says which statements succeed. Error bodies are reduced to status and code; metrics and logging are left out.
\<close>

subsection \<open>Capability tokens\<close>

definition capabilityTokenLifetime :: duration where "capabilityTokenLifetime = 1 * hour"
definition capabilityTokenByteLen :: nat where "capabilityTokenByteLen = 72"
definition downloadCapabilityTokenLifetime :: duration where "downloadCapabilityTokenLifetime = 15 * minute"
definition downloadCapabilityTokenByteLen :: nat where "downloadCapabilityTokenByteLen = 72"

definition unix_ms :: "time \<Rightarrow> int" where "unix_ms t = t div millisecond"

definition generateCapabilityToken :: "hash \<Rightarrow> sign_fun \<Rightarrow> byte list \<Rightarrow> byte list \<Rightarrow> uuid \<Rightarrow> time \<Rightarrow> byte list" where
  "generateCapabilityToken sha sign msSigningKey chunkID providerID issuedAt =
     (let expiryBytes = be_bytes 8 (u64_of_i64 (unix_ms (issuedAt + capabilityTokenLifetime)));
          input = text_bytes capabilityTokenDomainPrefix @ chunkID @ providerID @ expiryBytes
      in expiryBytes @ SignBytes sha sign msSigningKey input)"

definition generateDownloadCapabilityToken :: "hash \<Rightarrow> sign_fun \<Rightarrow> byte list \<Rightarrow> byte list \<Rightarrow> uuid \<Rightarrow> time \<Rightarrow> byte list" where
  "generateDownloadCapabilityToken sha sign msSigningKey chunkID providerID issuedAt =
     (let expiryBytes = be_bytes 8 (u64_of_i64 (unix_ms (issuedAt + downloadCapabilityTokenLifetime)));
          input = text_bytes downloadCapabilityTokenDomainPrefix @ chunkID @ providerID @ expiryBytes
      in expiryBytes @ SignBytes sha sign msSigningKey input)"

subsection \<open>Requests and responses\<close>

record segmentChunkIDsRequestBody =
  sq_SegmentIndex :: int
  sq_ChunkIDs :: "string list"

record uploadAssignRequestBody =
  uq_FileID :: uuid
  uq_NumSegments :: int
  uq_OriginalSizeBytes :: int
  uq_Segments :: "segmentChunkIDsRequestBody list"

record ShardAssignmentBody =
  sa_ShardIndex :: nat
  sa_ProviderID :: uuid
  sa_Multiaddrs :: "string list"
  sa_ASN :: string
  sa_CapabilityToken :: string
  sa_ChunkID :: string

record segmentAssignmentBody =
  sg_SegmentIndex :: int
  sg_SegmentID :: uuid
  sg_Providers :: "ShardAssignmentBody list"

record uploadAssignResponseBody =
  ur_Assignments :: "segmentAssignmentBody list"
  ur_MonthlyCostPaise :: int
  ur_RequiredEscrowPaise :: int

definition minNumSegments :: int where "minNumSegments = 1"
definition maxNumSegments :: int where "maxNumSegments = 10000"

fun decode_ids :: "string list \<Rightarrow> byte list list option" where
  "decode_ids [] = Some []"
| "decode_ids (s # ss) =
     (case decode_fixed 32 s of
        None \<Rightarrow> None
      | Some b \<Rightarrow> (case decode_ids ss of None \<Rightarrow> None | Some bs \<Rightarrow> Some (b # bs)))"

text \<open>\<open>out\<close> is the map built so far, with the segment indices in request order.\<close>

fun parse_segments ::
  "int \<Rightarrow> int \<Rightarrow> segmentChunkIDsRequestBody list \<Rightarrow> (int \<times> byte list list) list \<Rightarrow> (int \<times> byte list list) list option" where
  "parse_segments numSegments totalShards [] out = Some out"
| "parse_segments numSegments totalShards (seg # segs) out =
     (if sq_SegmentIndex seg < 0 \<or> sq_SegmentIndex seg \<ge> numSegments then None
      else if sq_SegmentIndex seg \<in> fst ` set out then None
      else if int (length (sq_ChunkIDs seg)) \<noteq> totalShards then None
      else (case decode_ids (sq_ChunkIDs seg) of
              None \<Rightarrow> None
            | Some parsed \<Rightarrow> parse_segments numSegments totalShards segs (out @ [(sq_SegmentIndex seg, parsed)])))"

definition parseSegmentChunkIDs ::
  "segmentChunkIDsRequestBody list \<Rightarrow> int \<Rightarrow> int \<Rightarrow> (int \<times> byte list list) list option" where
  "parseSegmentChunkIDs segs numSegments totalShards =
     (if segs = [] then None else parse_segments numSegments totalShards segs [])"

subsection \<open>The handler's environment\<close>

datatype assign_stmt =
    AFileOwner | ALoadExisting | ACreateFile | ALoadAfter | AReady ready_stmt
  | ABegin int | AInsertSegment int | ASelect int nat select_stmt | AInsertShard int nat | ACountASNs | ACommit int

record assign_env =
  ae_sha :: hash
  ae_sign :: sign_fun
  ae_signingKey :: "byte list"
  ae_profile :: NetworkProfile
  ae_readiness :: ReadinessEvaluator
  ae_now :: time
  ae_ok :: "assign_stmt \<Rightarrow> bool"
  ae_fresh :: "int \<Rightarrow> uuid"
  ae_shuffle :: "int \<Rightarrow> nat \<Rightarrow> nat \<Rightarrow> provider_row list \<Rightarrow> provider_row list"

definition fileOwnerID :: "bool \<Rightarrow> uuid \<Rightarrow> database \<Rightarrow> uuid option option" where
  "fileOwnerID ok fileID db = (if \<not> ok then None else Some (map_option owner_id (find_file db fileID)))"

definition placeholder_row :: "uuid \<Rightarrow> uuid \<Rightarrow> int \<Rightarrow> file_row" where
  "placeholder_row fileID ownerID originalSizeBytes =
     \<lparr>file_id = fileID, owner_id = ownerID, original_size_bytes = originalSizeBytes, f_status = F_ACTIVE,
      pointer_ciphertext = [], pointer_nonce = replicate aesGCMNonceSize 0, pointer_tag = replicate aesGCMTagSize 0,
      display_name_ciphertext = None, display_name_nonce = None, display_name_tag = None, schema_version = 1\<rparr>"

text \<open>
  The insert fails when the \<^verbatim>\<open>CHECK\<close> on the size is violated or a new row refers to no owner. The public
  key of an owner is a mandatory column, so an owner exists when it has one.
\<close>

definition createPlaceholderFile :: "bool \<Rightarrow> uuid \<Rightarrow> uuid \<Rightarrow> int \<Rightarrow> database \<Rightarrow> bool \<times> database" where
  "createPlaceholderFile ok fileID ownerID originalSizeBytes db =
     (if \<not> ok \<or> originalSizeBytes \<le> 0 then (False, db)
      else if find_file db fileID \<noteq> None then (True, db)
      else if owner_public_key db ownerID = None then (False, db)
      else (True, db\<lparr>files := files db @ [placeholder_row fileID ownerID originalSizeBytes]\<rparr>))"

subsection \<open>Assigning a segment\<close>

datatype assign_error = NoEligibleReplacement nat | AssignFailed

definition countDistinctActiveASNs :: "bool \<Rightarrow> database \<Rightarrow> nat option" where
  "countDistinctActiveASNs ok db =
     (if \<not> ok then None else Some (length (remdups (map asn (filter (\<lambda>p. status p = ACTIVE) (providers db))))))"

definition insert_segment :: "bool \<Rightarrow> uuid \<Rightarrow> uuid \<Rightarrow> int \<Rightarrow> database \<Rightarrow> database option" where
  "insert_segment ok segmentID fileID segIdx db =
     (if \<not> ok \<or> find_file db fileID = None \<or> segIdx < 0 \<or>
         (\<exists>r\<in>set (segments db). segment_id r = segmentID \<or> s_file_id r = fileID \<and> segment_index r = segIdx)
      then None
      else Some (db\<lparr>segments := segments db @ [\<lparr>segment_id = segmentID, s_file_id = fileID, segment_index = segIdx\<rparr>]\<rparr>))"

definition shard_row :: "byte list \<Rightarrow> uuid \<Rightarrow> nat \<Rightarrow> uuid \<Rightarrow> assignment_row" where
  "shard_row chunkID segmentID shardIdx providerID =
     \<lparr>a_chunk_id = chunkID, is_vetting_chunk = False, a_segment_id = Some segmentID, shard_index = Some shardIdx,
      a_provider_id = providerID, a_status = A_ACTIVE\<rparr>"

definition insert_shard :: "bool \<Rightarrow> byte list \<Rightarrow> uuid \<Rightarrow> nat \<Rightarrow> uuid \<Rightarrow> database \<Rightarrow> database option" where
  "insert_shard ok chunkID segmentID shardIdx providerID db =
     (if \<not> ok \<or> length chunkID \<noteq> 32 \<or> 55 < shardIdx \<or> find_assignment db chunkID providerID \<noteq> None \<or> slot_taken db segmentID shardIdx
      then None
      else Some (db\<lparr>chunk_assignments := chunk_assignments db @ [shard_row chunkID segmentID shardIdx providerID]\<rparr>))"

text \<open>
  The loop over the shards, on the chunk identifiers that are left; \<^verbatim>\<open>parseSegmentChunkIDs\<close> has checked that
  there are \<open>TotalShards\<close> of them. The count of autonomous systems for the error is taken outside the transaction, on \<open>db0\<close>.
\<close>

fun assign_shards ::
  "assign_env \<Rightarrow> database \<Rightarrow> int \<Rightarrow> uuid \<Rightarrow> nat \<Rightarrow> byte list list \<Rightarrow> uuid list \<Rightarrow> database \<Rightarrow> assign_error + database" where
  "assign_shards env db0 segIdx segmentID shardIdx [] excludeIDs db = Inr db"
| "assign_shards env db0 segIdx segmentID shardIdx (chunkID # rest) excludeIDs db =
     (case SelectReplacementProvider (\<lambda>q. ae_ok env (ASelect segIdx shardIdx q)) (ae_now env) (ae_shuffle env segIdx shardIdx) db
             (ae_profile env) segmentID excludeIDs of
        Inl e \<Rightarrow>
          if e = ErrNoEligibleReplacement
          then Inl (NoEligibleReplacement (case countDistinctActiveASNs (ae_ok env ACountASNs) db0 of None \<Rightarrow> 0 | Some n \<Rightarrow> n))
          else Inl AssignFailed
      | Inr providerID \<Rightarrow>
          (case insert_shard (ae_ok env (AInsertShard segIdx shardIdx)) chunkID segmentID shardIdx providerID db of
             None \<Rightarrow> Inl AssignFailed
           | Some db \<Rightarrow> assign_shards env db0 segIdx segmentID (Suc shardIdx) rest (excludeIDs @ [providerID]) db))"

definition assignSegment ::
  "assign_env \<Rightarrow> uuid \<Rightarrow> int \<Rightarrow> byte list list \<Rightarrow> uuid list \<Rightarrow> database \<Rightarrow> assign_error option \<times> database" where
  "assignSegment env fileID segIdx chunkIDs excludeForCeiling db =
     (if \<not> ae_ok env (ABegin segIdx) then (Some AssignFailed, db)
      else case insert_segment (ae_ok env (AInsertSegment segIdx)) (ae_fresh env segIdx) fileID segIdx db of
        None \<Rightarrow> (Some AssignFailed, db)
      | Some db1 \<Rightarrow>
          (case assign_shards env db segIdx (ae_fresh env segIdx) 0 chunkIDs excludeForCeiling db1 of
             Inl e \<Rightarrow> (Some e, db)
           | Inr db2 \<Rightarrow> if \<not> ae_ok env (ACommit segIdx) then (Some AssignFailed, db) else (None, db2)))"

subsection \<open>Loading and answering\<close>

record existingShardRow =
  ex_segmentIndex :: int
  ex_segmentID :: uuid
  ex_shardIndex :: nat
  ex_providerID :: uuid
  ex_chunkID :: "byte list"
  ex_multiaddrs :: "string list"
  ex_asn :: string
  ex_multiaddrStale :: bool

text \<open>
  The join of segments, real assignments and providers that both handlers query. The rows come back by segment
  and shard index; rows with the same indices in table order. A real assignment has a shard index.
\<close>

definition join_rows :: "(assignment_row \<Rightarrow> bool) \<Rightarrow> uuid \<Rightarrow> database \<Rightarrow> existingShardRow list" where
  "join_rows keep fileID db =
     concat (map (\<lambda>s. concat (map (\<lambda>a. concat (map (\<lambda>p.
       case shard_index a of
         None \<Rightarrow> []
       | Some i \<Rightarrow>
           [\<lparr>ex_segmentIndex = segment_index s, ex_segmentID = segment_id s, ex_shardIndex = i, ex_providerID = a_provider_id a,
             ex_chunkID = a_chunk_id a, ex_multiaddrs = last_known_multiaddrs p, ex_asn = asn p,
             ex_multiaddrStale = multiaddr_stale p\<rparr>])
       (filter (\<lambda>p. provider_id p = a_provider_id a) (providers db))))
       (filter (\<lambda>a. a_segment_id a = Some (segment_id s) \<and> \<not> is_vetting_chunk a \<and> keep a) (chunk_assignments db))))
       (filter (\<lambda>s. s_file_id s = fileID) (segments db)))"

definition ordered_rows :: "(assignment_row \<Rightarrow> bool) \<Rightarrow> uuid \<Rightarrow> database \<Rightarrow> existingShardRow list" where
  "ordered_rows keep fileID db = sort_key ex_segmentIndex (sort_key ex_shardIndex (join_rows keep fileID db))"

definition loadExistingAssignments :: "bool \<Rightarrow> uuid \<Rightarrow> database \<Rightarrow> existingShardRow list option" where
  "loadExistingAssignments ok fileID db = (if \<not> ok then None else Some (ordered_rows (\<lambda>_. True) fileID db))"

text \<open>Both responses group the rows by segment index, in the order in which the indices first occur.\<close>

fun add_row :: "int \<Rightarrow> uuid \<Rightarrow> 'b \<Rightarrow> (int \<times> uuid \<times> 'b list) list \<Rightarrow> (int \<times> uuid \<times> 'b list) list" where
  "add_row idx sid b [] = [(idx, sid, [b])]"
| "add_row idx sid b ((idx', sid', bs) # gs) =
     (if idx' = idx then (idx', sid', bs @ [b]) # gs else (idx', sid', bs) # add_row idx sid b gs)"

definition group_rows :: "(existingShardRow \<Rightarrow> 'b) \<Rightarrow> existingShardRow list \<Rightarrow> (int \<times> uuid \<times> 'b list) list" where
  "group_rows f rows = fold (\<lambda>r. add_row (ex_segmentIndex r) (ex_segmentID r) (f r)) rows []"

definition shard_body :: "assign_env \<Rightarrow> existingShardRow \<Rightarrow> ShardAssignmentBody" where
  "shard_body env row =
     \<lparr>sa_ShardIndex = ex_shardIndex row, sa_ProviderID = ex_providerID row, sa_Multiaddrs = ex_multiaddrs row, sa_ASN = ex_asn row,
      sa_CapabilityToken = hex_encode (generateCapabilityToken (ae_sha env) (ae_sign env) (ae_signingKey env) (ex_chunkID row)
                             (ex_providerID row) (ae_now env)),
      sa_ChunkID = hex_encode (ex_chunkID row)\<rparr>"

definition respondWithFreshTokens :: "assign_env \<Rightarrow> existingShardRow list \<Rightarrow> int \<Rightarrow> uploadAssignResponseBody" where
  "respondWithFreshTokens env rows monthlyCost =
     \<lparr>ur_Assignments = map (\<lambda>(idx, sid, bs). \<lparr>sg_SegmentIndex = idx, sg_SegmentID = sid, sg_Providers = bs\<rparr>)
        (group_rows (shard_body env) rows),
      ur_MonthlyCostPaise = monthlyCost, ur_RequiredEscrowPaise = monthlyCost\<rparr>"

subsection \<open>The assignment handler\<close>

text \<open>The segments that were assigned by this call stay committed when a later one fails.\<close>

fun assign_segments ::
  "assign_env \<Rightarrow> uuid \<Rightarrow> (int \<times> byte list list) list \<Rightarrow> uuid list \<Rightarrow> int list \<Rightarrow> database \<Rightarrow> (nat \<times> ErrorCode) option \<times> database" where
  "assign_segments env fileID segChunkIDs overCeiling [] db = (None, db)"
| "assign_segments env fileID segChunkIDs overCeiling (segIdx # rest) db =
     (case assignSegment env fileID segIdx (case map_of segChunkIDs segIdx of None \<Rightarrow> [] | Some c \<Rightarrow> c) overCeiling db of
        (Some (NoEligibleReplacement _), db) \<Rightarrow> (Some (503, INSUFFICIENT_ASN_DIVERSITY), db)
      | (Some AssignFailed, db) \<Rightarrow> (Some (500, INTERNAL_ERROR), db)
      | (None, db) \<Rightarrow> assign_segments env fileID segChunkIDs overCeiling rest db)"

text \<open>The gates of a file that has no assignment yet: readiness, escrow, and the placeholder row.\<close>

definition first_call ::
  "assign_env \<Rightarrow> VerifiedClaims \<Rightarrow> uploadAssignRequestBody \<Rightarrow> int \<Rightarrow> database \<Rightarrow> (nat \<times> ErrorCode) option \<times> database" where
  "first_call env claims req monthlyCost db =
     (case (case Cached (ae_readiness env) of
              Some resp \<Rightarrow> Some resp
            | None \<Rightarrow> Evaluate (\<lambda>q. ae_ok env (AReady q)) (ae_now env) (ae_readiness env) db) of
        None \<Rightarrow> (Some (500, INTERNAL_ERROR), db)
      | Some readinessResp \<Rightarrow>
          if \<not> AllConditionsMet readinessResp then (Some (503, NETWORK_NOT_READY), db)
          else (case ownerBalanceAndReserved (\<lambda>q. ae_ok env (AReady q)) (ae_profile env) (Subject claims) db of
             None \<Rightarrow> (Some (500, INTERNAL_ERROR), db)
           | Some (balance, reserved) \<Rightarrow>
               if balance - reserved < monthlyCost then (Some (409, INSUFFICIENT_ESCROW_BALANCE), db)
               else (case createPlaceholderFile (ae_ok env ACreateFile) (uq_FileID req) (Subject claims) (uq_OriginalSizeBytes req) db of
                  (False, db) \<Rightarrow> (Some (500, INTERNAL_ERROR), db)
                | (True, db) \<Rightarrow> (None, db))))"

definition complete_segments :: "NetworkProfile \<Rightarrow> existingShardRow list \<Rightarrow> int list" where
  "complete_segments profile rows =
     filter (\<lambda>idx. int (length (filter (\<lambda>r. ex_segmentIndex r = idx) rows)) \<ge> TotalShards profile)
       (remdups (map ex_segmentIndex rows))"

definition new_segments :: "NetworkProfile \<Rightarrow> existingShardRow list \<Rightarrow> (int \<times> byte list list) list \<Rightarrow> int list" where
  "new_segments profile rows segChunkIDs =
     sort (filter (\<lambda>idx. idx \<notin> set (complete_segments profile rows)) (map fst segChunkIDs))"

definition assign_new ::
  "assign_env \<Rightarrow> uuid \<Rightarrow> (int \<times> byte list list) list \<Rightarrow> int list \<Rightarrow> database \<Rightarrow> (nat \<times> ErrorCode) option \<times> database" where
  "assign_new env fileID segChunkIDs newSegIdx db =
     (if newSegIdx = [] then (None, db)
      else case enforceProviderCapacity (\<lambda>q. ae_ok env (AReady q)) db (chunkCeilingMaxChunks (ae_profile env))
                  (MinActiveProviders (ae_profile env)) of
        Inl e \<Rightarrow> (Some e, db)
      | Inr overCeiling \<Rightarrow> assign_segments env fileID segChunkIDs overCeiling newSegIdx db)"

definition assign_body ::
  "assign_env \<Rightarrow> VerifiedClaims \<Rightarrow> uploadAssignRequestBody \<Rightarrow> (int \<times> byte list list) list \<Rightarrow> database \<Rightarrow>
     uploadAssignResponseBody http \<times> database" where
  "assign_body env claims req segChunkIDs db =
     (let monthlyCost = fileMonthlyCostPaiseForBytes (uq_OriginalSizeBytes req) (ae_profile env)
      in case fileOwnerID (ae_ok env AFileOwner) (uq_FileID req) db of
           None \<Rightarrow> (Inl (500, INTERNAL_ERROR), db)
         | Some existingOwner \<Rightarrow>
             if existingOwner \<noteq> None \<and> existingOwner \<noteq> Some (Subject claims) then (Inl (403, RESOURCE_OWNER_MISMATCH), db)
             else case loadExistingAssignments (ae_ok env ALoadExisting) (uq_FileID req) db of
               None \<Rightarrow> (Inl (500, INTERNAL_ERROR), db)
             | Some existing \<Rightarrow>
                 (case (if existing = [] then first_call env claims req monthlyCost db else (None, db)) of
                    (Some e, db) \<Rightarrow> (Inl e, db)
                  | (None, db) \<Rightarrow>
                      (case assign_new env (uq_FileID req) segChunkIDs (new_segments (ae_profile env) existing segChunkIDs) db of
                         (Some e, db) \<Rightarrow> (Inl e, db)
                       | (None, db) \<Rightarrow>
                           (case loadExistingAssignments (ae_ok env ALoadAfter) (uq_FileID req) db of
                              None \<Rightarrow> (Inl (500, INTERNAL_ERROR), db)
                            | Some rows \<Rightarrow> (Inr (200, respondWithFreshTokens env rows monthlyCost), db)))))"

definition HandleAssign ::
  "assign_env \<Rightarrow> VerifiedClaims option \<Rightarrow> uploadAssignRequestBody option \<Rightarrow> database \<Rightarrow> uploadAssignResponseBody http \<times> database" where
  "HandleAssign env claims body db =
     (case claims of
        None \<Rightarrow> (Inl (500, INTERNAL_ERROR), db)
      | Some claims \<Rightarrow>
      case body of
        None \<Rightarrow> (Inl (400, INVALID_REQUEST), db)
      | Some req \<Rightarrow>
          if uq_NumSegments req < minNumSegments \<or> uq_NumSegments req > maxNumSegments then (Inl (400, INVALID_REQUEST), db)
          else if uq_OriginalSizeBytes req < 1 then (Inl (400, INVALID_REQUEST), db)
          else (case parseSegmentChunkIDs (uq_Segments req) (uq_NumSegments req) (TotalShards (ae_profile env)) of
                  None \<Rightarrow> (Inl (400, INVALID_REQUEST), db)
                | Some segChunkIDs \<Rightarrow> assign_body env claims req segChunkIDs db))"

subsection \<open>The resolve handler\<close>

record RetrieveShardBody =
  rs_ShardIndex :: nat
  rs_ProviderID :: uuid
  rs_ChunkID :: string
  rs_Multiaddrs :: "string list"
  rs_MultiaddrStale :: bool
  rs_DownloadToken :: string

record RetrieveSegmentBody =
  rg_SegmentIndex :: int
  rg_SegmentID :: uuid
  rg_Shards :: "RetrieveShardBody list"

record RetrieveResolveResponseBody =
  rr_FileID :: uuid
  rr_Segments :: "RetrieveSegmentBody list"

definition retrievable :: "assignment_row \<Rightarrow> bool" where
  "retrievable a \<longleftrightarrow> a_status a \<noteq> A_DELETED \<and> a_status a \<noteq> A_PENDING_DELETION"

definition loadShardsForRetrieval :: "bool \<Rightarrow> uuid \<Rightarrow> database \<Rightarrow> existingShardRow list option" where
  "loadShardsForRetrieval ok fileID db = (if \<not> ok then None else Some (ordered_rows retrievable fileID db))"

definition retrieve_body :: "hash \<Rightarrow> sign_fun \<Rightarrow> byte list \<Rightarrow> time \<Rightarrow> existingShardRow \<Rightarrow> RetrieveShardBody" where
  "retrieve_body sha sign signingKey now row =
     \<lparr>rs_ShardIndex = ex_shardIndex row, rs_ProviderID = ex_providerID row, rs_ChunkID = hex_encode (ex_chunkID row),
      rs_Multiaddrs = ex_multiaddrs row, rs_MultiaddrStale = ex_multiaddrStale row,
      rs_DownloadToken = hex_encode (generateDownloadCapabilityToken sha sign signingKey (ex_chunkID row) (ex_providerID row) now)\<rparr>"

definition buildResolveResponse ::
  "hash \<Rightarrow> sign_fun \<Rightarrow> byte list \<Rightarrow> uuid \<Rightarrow> existingShardRow list \<Rightarrow> time \<Rightarrow> RetrieveResolveResponseBody" where
  "buildResolveResponse sha sign signingKey fileID rows now =
     \<lparr>rr_FileID = fileID,
      rr_Segments = map (\<lambda>(idx, sid, bs). \<lparr>rg_SegmentIndex = idx, rg_SegmentID = sid, rg_Shards = bs\<rparr>)
        (group_rows (retrieve_body sha sign signingKey now) rows)\<rparr>"

datatype resolve_stmt = ResolveFile | ResolveShards

definition HandleResolve ::
  "hash \<Rightarrow> sign_fun \<Rightarrow> byte list \<Rightarrow> (resolve_stmt \<Rightarrow> bool) \<Rightarrow> time \<Rightarrow> VerifiedClaims option \<Rightarrow> uuid option \<Rightarrow> database \<Rightarrow>
     RetrieveResolveResponseBody http" where
  "HandleResolve sha sign signingKey ok now claims path db =
     (case claims of
        None \<Rightarrow> Inl (401, UNAUTHORIZED)
      | Some claims \<Rightarrow>
          if Role claims \<noteq> ''owner'' then Inl (401, UNAUTHORIZED)
          else case path of
            None \<Rightarrow> Inl (400, INVALID_REQUEST)
          | Some fileID \<Rightarrow>
              if \<not> ok ResolveFile then Inl (500, INTERNAL_ERROR)
              else case find_file db fileID of
                None \<Rightarrow> Inl (404, NOT_FOUND)
              | Some f \<Rightarrow>
                  if owner_id f \<noteq> Subject claims then Inl (404, NOT_FOUND)
                  else if f_status f \<noteq> F_ACTIVE then Inl (409, INVALID_REQUEST)
                  else case loadShardsForRetrieval (ok ResolveShards) fileID db of
                    None \<Rightarrow> Inl (500, INTERNAL_ERROR)
                  | Some rows \<Rightarrow>
                      if rows = [] then Inl (404, NOT_FOUND)
                      else Inr (200, buildResolveResponse sha sign signingKey fileID rows now))"

subsection \<open>Lemmas: placing a segment\<close>

text \<open>The keys that the schema enforces, as far as the placement relies on them.\<close>

definition db_keys :: "database \<Rightarrow> bool" where
  "db_keys db \<longleftrightarrow>
     distinct (map provider_id (providers db)) \<and> distinct (map segment_id (segments db)) \<and>
     distinct (map (\<lambda>s. (s_file_id s, segment_index s)) (segments db)) \<and>
     (\<forall>a\<in>set (chunk_assignments db). case a_segment_id a of None \<Rightarrow> True | Some s \<Rightarrow> s \<in> segment_id ` set (segments db))"

definition shard_rows :: "uuid \<Rightarrow> nat \<Rightarrow> byte list list \<Rightarrow> uuid list \<Rightarrow> assignment_row list" where
  "shard_rows seg i cs ps = map (\<lambda>(k, c, p). shard_row c seg k p) (zip [i..<i + length cs] (zip cs ps))"

lemma shard_rows_Nil [simp]: "shard_rows seg i [] ps = []"
  by (simp add: shard_rows_def)

lemma shard_rows_Cons [simp]:
  "shard_rows seg i (c # cs) (p # ps) = shard_row c seg i p # shard_rows seg (Suc i) cs ps"
proof -
  have "[i..<i + length (c # cs)] = i # [Suc i..<Suc i + length cs]"
    unfolding add_Suc list.size by (subst upt_conv_Cons) simp_all
  then show ?thesis by (simp add: shard_rows_def del: upt_Suc)
qed

lemma length_shard_rows: "length ps = length cs \<Longrightarrow> length (shard_rows seg i cs ps) = length cs"
  by (simp add: shard_rows_def)

text \<open>What the selection guarantees of a chosen provider.\<close>

definition good_provider :: "time \<Rightarrow> uuid list \<Rightarrow> database \<Rightarrow> uuid \<Rightarrow> bool" where
  "good_provider now ex db pid \<longleftrightarrow>
     (\<exists>r\<in>set (providers db). provider_id r = pid \<and> eligible now ex r)"

definition cap_kept :: "NetworkProfile \<Rightarrow> database \<Rightarrow> uuid \<Rightarrow> bool" where
  "cap_kept profile db seg \<longleftrightarrow> (\<forall>a. int (asn_count db seg a) \<le> max_per_asn profile)"

lemma find_provider_distinct:
  assumes "distinct (map provider_id (providers db))" and "r \<in> set (providers db)"
  shows "find_provider db (provider_id r) = Some r"
proof -
  have "distinct (map provider_id rows) \<Longrightarrow> r \<in> set rows \<Longrightarrow> List.find (\<lambda>x. provider_id x = provider_id r) rows = Some r" for rows
    by (induction rows) auto
  with assms show ?thesis by (simp add: find_provider_def)
qed

lemma find_provider_frame [simp]:
  "find_provider (db\<lparr>chunk_assignments := x\<rparr>) = find_provider db"
  "find_provider (db\<lparr>segments := y\<rparr>) = find_provider db"
  "find_provider (db\<lparr>files := z\<rparr>) = find_provider db"
  by (simp_all add: find_provider_def fun_eq_iff)

lemma asn_count_insert:
  "asn_count (db\<lparr>chunk_assignments := chunk_assignments db @ [shard_row c seg i pid]\<rparr>) seg a =
     asn_count db seg a + (case find_provider db pid of None \<Rightarrow> 0 | Some p \<Rightarrow> if asn p = a then 1 else 0)"
  by (simp add: asn_count_def shard_row_def split: option.split)

lemma SelectReplacementProvider_sound:
  assumes "\<forall>k. permutes_rows (ae_shuffle env segIdx k)"
    and "SelectReplacementProvider ok now (ae_shuffle env segIdx i) db profile seg ex = Inr pid"
  obtains r where "r \<in> set (providers db)" "eligible now ex r" "provider_id r = pid"
    "int (asn_count db seg (asn r)) + 1 \<le> max_per_asn profile"
  using select_attempts_sound [OF assms(1) [rule_format, of i] assms(2) [unfolded SelectReplacementProvider_def]] that
  unfolding acceptable_def by blast

lemma good_provider_mono: "good_provider now ex' db p \<Longrightarrow> set ex \<subseteq> set ex' \<Longrightarrow> good_provider now ex db p"
  unfolding good_provider_def eligible_def by blast

lemma assign_shards_placed:
  assumes "\<forall>k. permutes_rows (ae_shuffle env segIdx k)"
    and "assign_shards env db0 segIdx seg i cs ex db = Inr db'"
    and "distinct (map provider_id (providers db))" and "cap_kept (ae_profile env) db seg"
  shows "\<exists>ps. length ps = length cs \<and> distinct ps \<and> set ps \<inter> set ex = {} \<and> (\<forall>p\<in>set ps. good_provider (ae_now env) ex db p) \<and>
     list_all (\<lambda>c. length c = 32) cs \<and> i + length cs \<le> max i 56 \<and>
     db' = db\<lparr>chunk_assignments := chunk_assignments db @ shard_rows seg i cs ps\<rparr> \<and> cap_kept (ae_profile env) db' seg"
  using assms(2-)
proof (induction cs arbitrary: i ex db)
  case Nil
  then show ?case by (intro exI [of _ "[]"]) simp
next
  case (Cons c cs)
  from Cons.prems(1) obtain pid db1 where
    sel: "SelectReplacementProvider (\<lambda>q. ae_ok env (ASelect segIdx i q)) (ae_now env) (ae_shuffle env segIdx i) db
            (ae_profile env) seg ex = Inr pid"
    and ins: "insert_shard (ae_ok env (AInsertShard segIdx i)) c seg i pid db = Some db1"
    and rest: "assign_shards env db0 segIdx seg (Suc i) cs (ex @ [pid]) db1 = Inr db'"
    by (auto split: sum.splits if_splits option.splits)
  obtain r where r: "r \<in> set (providers db)" "eligible (ae_now env) ex r" "provider_id r = pid"
    "int (asn_count db seg (asn r)) + 1 \<le> max_per_asn (ae_profile env)"
    by (rule SelectReplacementProvider_sound [OF assms(1) sel])
  have db1: "db1 = db\<lparr>chunk_assignments := chunk_assignments db @ [shard_row c seg i pid]\<rparr>" and c: "length c = 32" "i \<le> 55"
    using ins by (auto simp: insert_shard_def split: if_splits)
  have "find_provider db pid = Some r" using find_provider_distinct [OF Cons.prems(2) r(1)] r(3) by simp
  then have cap: "cap_kept (ae_profile env) db1 seg"
    using Cons.prems(3) r(4) by (auto simp: cap_kept_def db1 asn_count_insert)
  from Cons.IH [OF rest] Cons.prems(2) cap obtain ps where
    ps: "length ps = length cs" "distinct ps" "set ps \<inter> set (ex @ [pid]) = {}" "\<forall>p\<in>set ps. good_provider (ae_now env) (ex @ [pid]) db p"
      "list_all (\<lambda>c. length c = 32) cs" "Suc i + length cs \<le> max (Suc i) 56"
      "db' = db1\<lparr>chunk_assignments := chunk_assignments db1 @ shard_rows seg (Suc i) cs ps\<rparr>" "cap_kept (ae_profile env) db' seg"
    by (auto simp: db1 good_provider_def)
  have "good_provider (ae_now env) ex db pid" using r by (auto simp: good_provider_def)
  moreover have "good_provider (ae_now env) ex db p" if "p \<in> set ps" for p
    by (rule good_provider_mono [OF bspec [OF ps(4) that]]) auto
  moreover have "pid \<notin> set ex" using r by (auto simp: eligible_def)
  ultimately show ?case using ps c by (intro exI [of _ "pid # ps"]) (auto simp: db1)
qed

text \<open>The database after a segment has been placed, and what holds of the placement.\<close>

definition place :: "uuid \<Rightarrow> uuid \<Rightarrow> int \<Rightarrow> byte list list \<Rightarrow> uuid list \<Rightarrow> database \<Rightarrow> database" where
  "place fileID sid segIdx cs ps db =
     db\<lparr>segments := segments db @ [\<lparr>segment_id = sid, s_file_id = fileID, segment_index = segIdx\<rparr>],
        chunk_assignments := chunk_assignments db @ shard_rows sid 0 cs ps\<rparr>"

definition place_ok :: "assign_env \<Rightarrow> uuid \<Rightarrow> uuid \<Rightarrow> int \<Rightarrow> byte list list \<Rightarrow> uuid list \<Rightarrow> database \<Rightarrow> bool" where
  "place_ok env fileID sid segIdx cs ps db \<longleftrightarrow>
     sid \<notin> segment_id ` set (segments db) \<and> (fileID, segIdx) \<notin> (\<lambda>s. (s_file_id s, segment_index s)) ` set (segments db) \<and>
     length ps = length cs \<and> distinct ps \<and> (\<forall>p\<in>set ps. good_provider (ae_now env) [] db p) \<and> list_all (\<lambda>c. length c = 32) cs \<and>
     length cs \<le> 56 \<and> cap_kept (ae_profile env) (place fileID sid segIdx cs ps db) sid"

lemma fresh_segment_unused:
  assumes "db_keys db" and "sid \<notin> segment_id ` set (segments db)"
  shows "filter (\<lambda>a. a_segment_id a = Some sid) (chunk_assignments db) = []" and "asn_count db sid x = 0"
proof -
  have no: "a_segment_id a \<noteq> Some sid" if "a \<in> set (chunk_assignments db)" for a
    using assms that by (auto simp: db_keys_def)
  then show "filter (\<lambda>a. a_segment_id a = Some sid) (chunk_assignments db) = []" by (auto simp: filter_empty_conv)
  show "asn_count db sid x = 0" unfolding asn_count_def length_0_conv filter_empty_conv using no by blast
qed

lemma asn_count_frame [simp]:
  "asn_count (db\<lparr>segments := x\<rparr>) = asn_count db" "asn_count (db\<lparr>files := y\<rparr>) = asn_count db"
  by (simp_all add: asn_count_def fun_eq_iff)

lemma assignSegment_cases:
  assumes "\<forall>k. permutes_rows (ae_shuffle env segIdx k)" and "db_keys db" and "0 \<le> max_per_asn (ae_profile env)"
  obtains (failed) e where "assignSegment env fileID segIdx cs ex db = (Some e, db)"
  | (placed) ps where "assignSegment env fileID segIdx cs ex db = (None, place fileID (ae_fresh env segIdx) segIdx cs ps db)"
    "place_ok env fileID (ae_fresh env segIdx) segIdx cs ps db" "set ps \<inter> set ex = {}" "find_file db fileID \<noteq> None"
proof (cases "fst (assignSegment env fileID segIdx cs ex db)")
  case (Some e)
  then have "assignSegment env fileID segIdx cs ex db = (Some e, db)"
    by (auto simp: assignSegment_def split: option.splits sum.splits if_splits)
  then show thesis by (rule failed)
next
  case None
  let ?sid = "ae_fresh env segIdx"
  from None obtain db1 db2 where ins: "insert_segment (ae_ok env (AInsertSegment segIdx)) ?sid fileID segIdx db = Some db1"
    and sh: "assign_shards env db segIdx ?sid 0 cs ex db1 = Inr db2"
    and res: "assignSegment env fileID segIdx cs ex db = (None, db2)"
    by (auto simp: assignSegment_def split: option.splits sum.splits if_splits)
  have db1: "db1 = db\<lparr>segments := segments db @ [\<lparr>segment_id = ?sid, s_file_id = fileID, segment_index = segIdx\<rparr>]\<rparr>"
    and new: "?sid \<notin> segment_id ` set (segments db)" "(fileID, segIdx) \<notin> (\<lambda>s. (s_file_id s, segment_index s)) ` set (segments db)"
    and f: "find_file db fileID \<noteq> None"
    using ins by (auto simp: insert_segment_def split: if_splits)
  have "cap_kept (ae_profile env) db1 ?sid"
    using assms(3) fresh_segment_unused(2) [OF assms(2) new(1)] by (simp add: cap_kept_def db1)
  from assign_shards_placed [OF assms(1) sh _ this] assms(2) obtain ps where
    ps: "length ps = length cs" "distinct ps" "set ps \<inter> set ex = {}" "\<forall>p\<in>set ps. good_provider (ae_now env) ex db1 p"
      "list_all (\<lambda>c. length c = 32) cs" "length cs \<le> max 0 56"
      "db2 = db1\<lparr>chunk_assignments := chunk_assignments db1 @ shard_rows ?sid 0 cs ps\<rparr>" "cap_kept (ae_profile env) db2 ?sid"
    by (auto simp: db_keys_def db1)
  have db2: "db2 = place fileID ?sid segIdx cs ps db" by (simp add: ps(7) db1 place_def)
  have "good_provider (ae_now env) [] db p" if "p \<in> set ps" for p
    using good_provider_mono [OF bspec [OF ps(4) that], of "[]"] by (simp add: good_provider_def db1)
  then have "place_ok env fileID ?sid segIdx cs ps db"
    using ps new db2 by (simp add: place_ok_def)
  with res db2 ps(3) f show thesis using placed by simp
qed

subsection \<open>Lemmas: a sequence of placements\<close>

text \<open>The segments that one call places, one after the other.\<close>

inductive placements :: "assign_env \<Rightarrow> uuid \<Rightarrow> (int \<times> byte list list) list \<Rightarrow> database \<Rightarrow> database \<Rightarrow> bool"
  for env fileID cids where
  none: "placements env fileID cids db db"
| more: "place_ok env fileID sid segIdx cs ps db \<Longrightarrow> map_of cids segIdx = Some cs \<Longrightarrow>
           placements env fileID cids (place fileID sid segIdx cs ps db) db' \<Longrightarrow> placements env fileID cids db db'"

lemma shard_rows_segment: "a \<in> set (shard_rows sid i cs ps) \<Longrightarrow> a_segment_id a = Some sid \<and> \<not> is_vetting_chunk a \<and> a_status a = A_ACTIVE"
  by (auto simp: shard_rows_def shard_row_def)

lemma place_keys: "db_keys db \<Longrightarrow> place_ok env fileID sid segIdx cs ps db \<Longrightarrow> db_keys (place fileID sid segIdx cs ps db)"
  by (fastforce simp: db_keys_def place_ok_def place_def dest: shard_rows_segment split: option.split)

lemma placements_keys: "placements env fileID cids db db' \<Longrightarrow> db_keys db \<Longrightarrow> db_keys db'"
  by (induction rule: placements.induct) (auto intro: place_keys)

text \<open>Placements only append to the two tables.\<close>

lemma placements_extend:
  assumes "placements env fileID cids db db'"
  shows "\<exists>segs rows. db' = db\<lparr>segments := segments db @ segs, chunk_assignments := chunk_assignments db @ rows\<rparr>"
  using assms
proof (induction rule: placements.induct)
  case (none db)
  show ?case by (intro exI [of _ "[]"]) simp
next
  case (more sid segIdx cs ps db db')
  from more.IH obtain segs rows where
    "db' = (place fileID sid segIdx cs ps db)\<lparr>segments := segments (place fileID sid segIdx cs ps db) @ segs,
       chunk_assignments := chunk_assignments (place fileID sid segIdx cs ps db) @ rows\<rparr>" by blast
  then have "db' = db\<lparr>segments := segments db @ (\<lparr>segment_id = sid, s_file_id = fileID, segment_index = segIdx\<rparr> # segs),
      chunk_assignments := chunk_assignments db @ (shard_rows sid 0 cs ps @ rows)\<rparr>" by (simp add: place_def)
  then show ?case by blast
qed

text \<open>A segment with its rows in the database, as the placement left it.\<close>

definition segment_at :: "assign_env \<Rightarrow> database \<Rightarrow> segment_row \<Rightarrow> byte list list \<Rightarrow> uuid list \<Rightarrow> bool" where
  "segment_at env db s cs ps \<longleftrightarrow>
     filter (\<lambda>a. a_segment_id a = Some (segment_id s)) (chunk_assignments db) = shard_rows (segment_id s) 0 cs ps \<and>
     length ps = length cs \<and> distinct ps \<and> (\<forall>p\<in>set ps. good_provider (ae_now env) [] db p) \<and> list_all (\<lambda>c. length c = 32) cs \<and>
     length cs \<le> 56 \<and> cap_kept (ae_profile env) db (segment_id s)"

lemma filter_shard_rows: "filter (\<lambda>a. a_segment_id a = Some sid) (shard_rows sid' i cs ps) = (if sid = sid' then shard_rows sid' i cs ps else [])"
  by (auto simp: filter_id_conv filter_empty_conv dest!: shard_rows_segment)

lemma good_provider_place: "good_provider now ex (place fileID sid segIdx cs ps db) = good_provider now ex db"
  by (simp add: good_provider_def place_def fun_eq_iff)

lemma asn_count_place_other: "seg \<noteq> sid \<Longrightarrow> asn_count (place fileID sid segIdx cs ps db) seg a = asn_count db seg a"
proof -
  assume "seg \<noteq> sid"
  then have "filter (\<lambda>ca. a_segment_id ca = Some seg \<and> P ca) (shard_rows sid 0 cs ps) = []" for P
    by (auto simp: filter_empty_conv dest!: shard_rows_segment)
  moreover have "find_provider (place fileID sid segIdx cs ps db) = find_provider db"
    by (simp add: place_def find_provider_def fun_eq_iff)
  ultimately show ?thesis by (simp add: asn_count_def place_def)
qed

lemma segment_at_new:
  assumes "db_keys db" and "place_ok env fileID sid segIdx cs ps db"
  shows "segment_at env (place fileID sid segIdx cs ps db) \<lparr>segment_id = sid, s_file_id = fileID, segment_index = segIdx\<rparr> cs ps"
proof -
  have "sid \<notin> segment_id ` set (segments db)" using assms(2) by (simp add: place_ok_def)
  from fresh_segment_unused(1) [OF assms(1) this] assms(2) show ?thesis
    by (simp add: segment_at_def place_ok_def filter_shard_rows good_provider_place) (simp add: place_def filter_shard_rows)
qed

lemma segment_at_other:
  assumes "segment_at env db s cs' ps'" and "segment_id s \<noteq> sid"
  shows "segment_at env (place fileID sid segIdx cs ps db) s cs' ps'"
  using assms by (simp add: segment_at_def cap_kept_def good_provider_place asn_count_place_other) (simp add: place_def filter_shard_rows)

lemma placements_segment_at:
  assumes "placements env fileID cids db db'" and "segment_at env db s cs ps" and "s \<in> set (segments db)"
  shows "segment_at env db' s cs ps"
  using assms
proof (induction rule: placements.induct)
  case (more sid segIdx cs' ps' db db')
  have "segment_id s \<noteq> sid" using more.prems(2) more.hyps(1) by (auto simp: place_ok_def)
  with more.prems show ?case by (intro more.IH) (simp_all add: segment_at_other, simp add: place_def)
qed

lemma placements_new_segment:
  assumes "placements env fileID cids db db'" and "db_keys db" and "s \<in> set (segments db')" and "s \<notin> set (segments db)"
  shows "s_file_id s = fileID \<and> (\<exists>cs ps. map_of cids (segment_index s) = Some cs \<and> segment_at env db' s cs ps)"
  using assms
proof (induction rule: placements.induct)
  case (more sid segIdx cs ps db db')
  let ?s = "\<lparr>segment_id = sid, s_file_id = fileID, segment_index = segIdx\<rparr>"
  have at: "segment_at env (place fileID sid segIdx cs ps db) ?s cs ps" by (rule segment_at_new [OF more.prems(1) more.hyps(1)])
  show ?case
  proof (cases "s = ?s")
    case True
    have "segment_at env db' ?s cs ps"
      by (rule placements_segment_at [OF more.hyps(3) at]) (simp add: place_def)
    with True more.hyps(2) show ?thesis by auto
  next
    case False
    with more.prems show ?thesis by (intro more.IH place_keys [OF _ more.hyps(1)]) (auto simp: place_def)
  qed
qed simp

subsection \<open>Lemmas: the effect of the handler\<close>

lemma decode_ids_length: "decode_ids hs = Some cs \<Longrightarrow> length cs = length hs"
  by (induction hs arbitrary: cs) (auto split: option.splits)

lemma decode_ids_hex: "list_all (\<lambda>c. length c = 32) cs \<Longrightarrow> decode_ids (map hex_encode cs) = Some cs"
  by (induction cs) (simp_all add: decode_fixed_def)

definition submitted :: "int \<Rightarrow> int \<Rightarrow> segmentChunkIDsRequestBody list \<Rightarrow> int \<times> byte list list \<Rightarrow> bool" where
  "submitted n t segs e \<longleftrightarrow>
     (\<exists>q\<in>set segs. sq_SegmentIndex q = fst e \<and> decode_ids (sq_ChunkIDs q) = Some (snd e)) \<and>
     0 \<le> fst e \<and> fst e < n \<and> int (length (snd e)) = t"

lemma parse_segments_sound:
  assumes "parse_segments n t segs out = Some cids" and "set segs \<subseteq> set all" and "\<forall>e\<in>set out. submitted n t all e"
    and "distinct (map fst out)"
  shows "(\<forall>e\<in>set cids. submitted n t all e) \<and> distinct (map fst cids) \<and> fst ` set out \<union> sq_SegmentIndex ` set segs = fst ` set cids"
  using assms
proof (induction segs arbitrary: out)
  case Nil
  then show ?case by auto
next
  case (Cons seg segs)
  from Cons.prems(1) obtain parsed where new: "0 \<le> sq_SegmentIndex seg" "sq_SegmentIndex seg < n" "sq_SegmentIndex seg \<notin> fst ` set out"
      "int (length (sq_ChunkIDs seg)) = t" "decode_ids (sq_ChunkIDs seg) = Some parsed"
    and rest: "parse_segments n t segs (out @ [(sq_SegmentIndex seg, parsed)]) = Some cids"
    by (auto split: if_splits option.splits)
  have "submitted n t all (sq_SegmentIndex seg, parsed)"
    using new Cons.prems(2) decode_ids_length [OF new(5)] unfolding submitted_def by force
  then show ?case using Cons.IH [OF rest] Cons.prems(2-) new(3) by auto
qed

lemma parseSegmentChunkIDs_sound:
  assumes "parseSegmentChunkIDs segs n t = Some cids"
  shows "\<forall>e\<in>set cids. submitted n t segs e" "distinct (map fst cids)" "fst ` set cids = sq_SegmentIndex ` set segs" "cids \<noteq> []"
proof -
  have p: "parse_segments n t segs [] = Some cids" "segs \<noteq> []"
    using assms by (auto simp: parseSegmentChunkIDs_def split: if_splits)
  from parse_segments_sound [OF p(1) subset_refl]
  have *: "(\<forall>e\<in>set cids. submitted n t segs e)" "distinct (map fst cids)" "fst ` set cids = sq_SegmentIndex ` set segs"
    by auto
  with p(2) show "\<forall>e\<in>set cids. submitted n t segs e" "distinct (map fst cids)" "fst ` set cids = sq_SegmentIndex ` set segs" "cids \<noteq> []"
    by auto
qed

definition env_ok :: "assign_env \<Rightarrow> bool" where
  "env_ok env \<longleftrightarrow> (\<forall>i k. permutes_rows (ae_shuffle env i k)) \<and> 0 \<le> max_per_asn (ae_profile env)"

lemma assign_segments_placements:
  assumes "env_ok env" and "assign_segments env fileID cids ex idxs db = (res, db')" and "db_keys db" and "set idxs \<subseteq> fst ` set cids"
  shows "placements env fileID cids db db' \<and>
    (res = None \<longrightarrow> (\<forall>i\<in>set idxs. \<exists>s\<in>set (segments db') - set (segments db). s_file_id s = fileID \<and> segment_index s = i))"
  using assms(2-)
proof (induction idxs arbitrary: db)
  case Nil
  then show ?case by (auto intro: placements.none)
next
  case (Cons idx idxs)
  obtain cs where cs: "map_of cids idx = Some cs" using Cons.prems(3) by (cases "map_of cids idx") (auto simp: map_of_eq_None_iff)
  have perm: "\<forall>k. permutes_rows (ae_shuffle env idx k)" "0 \<le> max_per_asn (ae_profile env)" using assms(1) by (auto simp: env_ok_def)
  show ?case
  proof (cases rule: assignSegment_cases [OF perm(1) Cons.prems(2) perm(2), of fileID cs ex])
    case (1 e)
    with Cons.prems(1) cs show ?thesis by (auto split: assign_error.splits intro: placements.none)
  next
    case (2 ps)
    let ?sid = "ae_fresh env idx"
    let ?db = "place fileID ?sid idx cs ps db"
    have rest: "assign_segments env fileID cids ex idxs ?db = (res, db')" using Cons.prems(1) cs 2(1) by simp
    have IH: "placements env fileID cids ?db db'"
      "res = None \<longrightarrow> (\<forall>i\<in>set idxs. \<exists>s\<in>set (segments db') - set (segments ?db). s_file_id s = fileID \<and> segment_index s = i)"
      using Cons.IH [OF rest place_keys [OF Cons.prems(2) 2(2)]] Cons.prems(3) by auto
    let ?s = "\<lparr>segment_id = ?sid, s_file_id = fileID, segment_index = idx\<rparr>"
    obtain segs rows where "db' = ?db\<lparr>segments := segments ?db @ segs, chunk_assignments := chunk_assignments ?db @ rows\<rparr>"
      using placements_extend [OF IH(1)] by blast
    then have "?s \<in> set (segments db')" by (simp add: place_def)
    moreover have "segment_id ?s \<notin> segment_id ` set (segments db)" using 2(2) by (simp add: place_ok_def)
    then have "?s \<notin> set (segments db)" by blast
    ultimately have "\<exists>s\<in>set (segments db') - set (segments db). s_file_id s = fileID \<and> segment_index s = idx"
      by (intro bexI [of _ ?s]) auto
    moreover have "set (segments db') - set (segments ?db) \<subseteq> set (segments db') - set (segments db)" by (auto simp: place_def)
    ultimately have "res = None \<longrightarrow> (\<forall>i\<in>set (idx # idxs). \<exists>s\<in>set (segments db') - set (segments db). s_file_id s = fileID \<and> segment_index s = i)"
      using IH(2) unfolding list.set ball_simps by blast
    with placements.more [OF 2(2) cs IH(1)] show ?thesis by blast
  qed
qed

text \<open>The handler adds at most the placeholder row and then places segments.\<close>

inductive file_added :: "uuid \<Rightarrow> uuid \<Rightarrow> int \<Rightarrow> database \<Rightarrow> database \<Rightarrow> bool" for fileID owner sz where
  kept: "file_added fileID owner sz db db"
| added: "find_file db fileID = None \<Longrightarrow> file_added fileID owner sz db (db\<lparr>files := files db @ [placeholder_row fileID owner sz]\<rparr>)"

lemma file_added_frame:
  "file_added fileID owner sz db db0 \<Longrightarrow>
     segments db0 = segments db \<and> chunk_assignments db0 = chunk_assignments db \<and> providers db0 = providers db"
  by (cases rule: file_added.cases) auto

lemma file_added_keys: "file_added fileID owner sz db db0 \<Longrightarrow> db_keys db \<Longrightarrow> db_keys db0"
  by (drule file_added_frame) (simp add: db_keys_def cong: option.case_cong)

lemma first_call_effect:
  assumes "first_call env claims req cost db = (res, db0)"
  shows "file_added (uq_FileID req) (Subject claims) (uq_OriginalSizeBytes req) db db0"
  using assms
  by (auto simp: first_call_def createPlaceholderFile_def split: option.splits if_splits intro: file_added.intros)

lemma assign_new_effect:
  assumes "env_ok env" and "db_keys db" and "set idxs \<subseteq> fst ` set cids" and "assign_new env fileID cids idxs db = (res, db')"
  shows "placements env fileID cids db db' \<and>
    (res = None \<longrightarrow> (\<forall>i\<in>set idxs. \<exists>s\<in>set (segments db') - set (segments db). s_file_id s = fileID \<and> segment_index s = i))"
proof (cases "assign_segments env fileID cids
    (case enforceProviderCapacity (\<lambda>q. ae_ok env (AReady q)) db (chunkCeilingMaxChunks (ae_profile env)) (MinActiveProviders (ae_profile env)) of
       Inl _ \<Rightarrow> [] | Inr l \<Rightarrow> l) idxs db = (res, db') \<and> idxs \<noteq> []")
  case True
  then show ?thesis using assign_segments_placements [OF assms(1) _ assms(2,3)] by blast
next
  case False
  with assms(4) have "db' = db \<and> (res \<noteq> None \<or> idxs = [])"
    by (auto simp: assign_new_def split: if_splits sum.splits)
  then show ?thesis by (auto intro: placements.none)
qed

lemma new_segments_subset: "set (new_segments profile rows cids) \<subseteq> fst ` set cids"
  by (auto simp: new_segments_def)

text \<open>The steps of a call that gets past the checks of the request.\<close>

lemma assign_body_effect:
  assumes "env_ok env" and "db_keys db" and "assign_body env claims req cids db = (res, db')"
  obtains db0 where "file_added (uq_FileID req) (Subject claims) (uq_OriginalSizeBytes req) db db0"
    "placements env (uq_FileID req) cids db0 db'"
proof -
  note d = assign_body_def [of env claims req cids db, unfolded Let_def, unfolded assms(3), symmetric]
  show thesis
  proof (cases "db' = db")
    case True
    then show thesis using that [OF file_added.kept] placements.none by metis
  next
    case False
    let ?ex = "ordered_rows (\<lambda>_. True) (uq_FileID req) db"
    let ?gate = "if ?ex = [] then first_call env claims req (fileMonthlyCostPaiseForBytes (uq_OriginalSizeBytes req) (ae_profile env)) db else (None, db)"
    obtain g db0 where gate: "?gate = (g, db0)" by fastforce
    have added: "file_added (uq_FileID req) (Subject claims) (uq_OriginalSizeBytes req) db db0"
      using gate first_call_effect by (cases "?ex = []") (auto intro: file_added.kept)
    show thesis
    proof (cases g)
      case (Some e)
      with d False gate have "db' = db0" by (auto simp: loadExistingAssignments_def split: option.splits if_splits)
      then show thesis using that [OF added] placements.none by metis
    next
      case None
      obtain r db1 where new: "assign_new env (uq_FileID req) cids (new_segments (ae_profile env) ?ex cids) db0 = (r, db1)" by fastforce
      with d False gate None have "db' = db1" by (auto simp: loadExistingAssignments_def split: option.splits if_splits)
      moreover have "placements env (uq_FileID req) cids db0 db1"
        using assign_new_effect [OF assms(1) file_added_keys [OF added assms(2)] new_segments_subset new] by blast
      ultimately show thesis using that [OF added] by simp
    qed
  qed
qed

subsection \<open>Properties: placement\<close>

lemma HandleAssign_effect:
  assumes "env_ok env" and "db_keys db" and "HandleAssign env claims body db = (res, db')"
  obtains (refused) "db' = db" "\<exists>e. res = Inl e"
  | (run) c req cids db0 where "claims = Some c" "body = Some req" "1 \<le> uq_OriginalSizeBytes req"
    "parseSegmentChunkIDs (uq_Segments req) (uq_NumSegments req) (TotalShards (ae_profile env)) = Some cids"
    "assign_body env c req cids db = (res, db')"
    "file_added (uq_FileID req) (Subject c) (uq_OriginalSizeBytes req) db db0" "placements env (uq_FileID req) cids db0 db'"
proof (cases "db' = db \<and> (\<exists>e. res = Inl e)")
  case True
  then show thesis using refused by blast
next
  case False
  with assms(3) obtain c req cids where *: "claims = Some c" "body = Some req" "1 \<le> uq_OriginalSizeBytes req"
    "parseSegmentChunkIDs (uq_Segments req) (uq_NumSegments req) (TotalShards (ae_profile env)) = Some cids"
    "assign_body env c req cids db = (res, db')"
    by (auto simp: HandleAssign_def split: option.splits if_splits)
  obtain db0 where "file_added (uq_FileID req) (Subject c) (uq_OriginalSizeBytes req) db db0" "placements env (uq_FileID req) cids db0 db'"
    by (rule assign_body_effect [OF assms(1,2) *(5)])
  with * show thesis using run by blast
qed

text \<open>
  C30: a segment is placed completely or not at all. Whatever a call of the assignment endpoint is given
  and wherever it fails, it keeps the keys of the tables and only appends rows. Every segment that it adds belongs to the requested
  file, and its shard rows are exactly one per shard index \<open>0 \<dots> TotalShards - 1\<close> with the submitted chunk identifiers, on pairwise different
  active providers with a cooled-down account, with no more of them in one autonomous system than
  \<open>TotalShards * ASNCapFraction\<close>.
\<close>

theorem assign_all_or_nothing:
  assumes "env_ok env" and "db_keys db" and "HandleAssign env claims body db = (res, db')"
  shows "db_keys db' \<and>
    (\<exists>segs rows. segments db' = segments db @ segs \<and> chunk_assignments db' = chunk_assignments db @ rows \<and>
       (\<forall>s\<in>set segs. \<exists>req q cs ps. body = Some req \<and> s_file_id s = uq_FileID req \<and>
          q \<in> set (uq_Segments req) \<and> sq_SegmentIndex q = segment_index s \<and> decode_ids (sq_ChunkIDs q) = Some cs \<and>
          int (length cs) = TotalShards (ae_profile env) \<and> length ps = length cs \<and> distinct ps \<and>
          filter (\<lambda>a. a_segment_id a = Some (segment_id s)) (chunk_assignments db') =
            map (\<lambda>(i, c, p). shard_row c (segment_id s) i p) (zip [0..<length cs] (zip cs ps)) \<and>
          (\<forall>p\<in>set ps. \<exists>r\<in>set (providers db). provider_id r = p \<and> eligible (ae_now env) [] r) \<and>
          (\<forall>a. of_int (int (asn_count db' (segment_id s) a)) \<le> of_int (TotalShards (ae_profile env)) * ASNCapFraction (ae_profile env))))"
proof (cases rule: HandleAssign_effect [OF assms])
  case 1
  with assms(2) show ?thesis by (auto intro!: exI [of _ "[]"])
next
  case (2 c req cids db0)
  note k0 = file_added_keys [OF 2(6) assms(2)] and f0 = file_added_frame [OF 2(6)]
  obtain segs rows where ext: "db' = db0\<lparr>segments := segments db0 @ segs, chunk_assignments := chunk_assignments db0 @ rows\<rparr>"
    using placements_extend [OF 2(7)] by blast
  have keys: "db_keys db'" by (rule placements_keys [OF 2(7) k0])
  have "\<exists>q cs ps. s_file_id s = uq_FileID req \<and> q \<in> set (uq_Segments req) \<and> sq_SegmentIndex q = segment_index s \<and>
      decode_ids (sq_ChunkIDs q) = Some cs \<and> int (length cs) = TotalShards (ae_profile env) \<and> segment_at env db' s cs ps"
    if s: "s \<in> set segs" for s
  proof -
    have "distinct (segments db')" using keys by (auto simp: db_keys_def distinct_map)
    then have "s \<in> set (segments db')" "s \<notin> set (segments db0)" using s by (auto simp: ext)
    from placements_new_segment [OF 2(7) k0 this] obtain cs ps where
      *: "s_file_id s = uq_FileID req" "map_of cids (segment_index s) = Some cs" "segment_at env db' s cs ps" by blast
    have "submitted (uq_NumSegments req) (TotalShards (ae_profile env)) (uq_Segments req) (segment_index s, cs)"
      using parseSegmentChunkIDs_sound(1) [OF 2(4)] map_of_SomeD [OF *(2)] by blast
    with * show ?thesis by (auto simp: submitted_def)
  qed
  then have "\<forall>s\<in>set segs. \<exists>req q cs ps. body = Some req \<and> s_file_id s = uq_FileID req \<and>
          q \<in> set (uq_Segments req) \<and> sq_SegmentIndex q = segment_index s \<and> decode_ids (sq_ChunkIDs q) = Some cs \<and>
          int (length cs) = TotalShards (ae_profile env) \<and> length ps = length cs \<and> distinct ps \<and>
          filter (\<lambda>a. a_segment_id a = Some (segment_id s)) (chunk_assignments db') =
            map (\<lambda>(i, c, p). shard_row c (segment_id s) i p) (zip [0..<length cs] (zip cs ps)) \<and>
          (\<forall>p\<in>set ps. \<exists>r\<in>set (providers db). provider_id r = p \<and> eligible (ae_now env) [] r) \<and>
          (\<forall>a. of_int (int (asn_count db' (segment_id s) a)) \<le> of_int (TotalShards (ae_profile env)) * ASNCapFraction (ae_profile env))"
    using 2(2) f0
    by (fastforce simp: segment_at_def shard_rows_def good_provider_def cap_kept_def max_per_asn_def le_floor_iff ext)
  with keys ext f0 show ?thesis by auto
qed

subsection \<open>Lemmas: when a placement succeeds\<close>

text \<open>Enough providers, each in an autonomous system of its own.\<close>

definition pool :: "time \<Rightarrow> uuid list \<Rightarrow> database \<Rightarrow> provider_row list" where
  "pool now ex db = filter (eligible now ex) (providers db)"

text \<open>The rows written so far for the segment and its chunks belong to excluded providers and earlier shard indices.\<close>

definition partial :: "uuid \<Rightarrow> nat \<Rightarrow> byte list list \<Rightarrow> uuid list \<Rightarrow> database \<Rightarrow> bool" where
  "partial seg i cs ex db \<longleftrightarrow>
     (\<forall>a\<in>set (chunk_assignments db).
        (a_segment_id a = Some seg \<longrightarrow> a_provider_id a \<in> set ex \<and> (\<exists>k<i. shard_index a = Some k)) \<and>
        (a_chunk_id a \<in> set cs \<longrightarrow> a_provider_id a \<in> set ex))"

lemma asn_count_partial:
  assumes "partial seg i cs ex db" and "inj_on asn (set (providers db))" and "r \<in> set (providers db)" and "provider_id r \<notin> set ex"
  shows "asn_count db seg (asn r) = 0"
proof -
  have "\<not> (a_segment_id a = Some seg \<and> (case find_provider db (a_provider_id a) of None \<Rightarrow> False | Some p \<Rightarrow> asn p = asn r))"
    if "a \<in> set (chunk_assignments db)" for a
  proof (rule notI, elim conjE)
    assume seg: "a_segment_id a = Some seg" and "case find_provider db (a_provider_id a) of None \<Rightarrow> False | Some p \<Rightarrow> asn p = asn r"
    then obtain p where p: "find_provider db (a_provider_id a) = Some p" "asn p = asn r" by (auto split: option.splits)
    have "a_provider_id a \<in> set ex" using assms(1) that seg unfolding partial_def by blast
    have "p \<in> set (providers db)" "provider_id p = a_provider_id a"
      using p(1) by (auto simp: find_provider_def find_Some_iff)
    with assms(2,3) p(2) have "p = r" by (auto dest: inj_onD)
    with assms(4) \<open>provider_id p = a_provider_id a\<close> \<open>a_provider_id a \<in> set ex\<close> show False by simp
  qed
  then show ?thesis unfolding asn_count_def length_0_conv filter_empty_conv by blast
qed

lemma Select_succeeds:
  assumes "\<forall>k. permutes_rows (ae_shuffle env segIdx k)" and "distinct (map provider_id (providers db))"
    and "inj_on asn (set (providers db))" and "partial seg i cs ex db" and "pool now ex db \<noteq> []" and "1 \<le> max_per_asn profile"
  shows "\<exists>pid. SelectReplacementProvider (\<lambda>_. True) now (ae_shuffle env segIdx i) db profile seg ex = Inr pid"
proof -
  have zero: "asn_count db seg (asn r) = 0" if "r \<in> set (providers db)" "eligible now ex r" for r
    using asn_count_partial [OF assms(4,3) that(1)] that(2) by (simp add: eligible_def)
  obtain g where g: "g \<in> set (providers db)" "eligible now ex g"
    using assms(5) by (auto simp: pool_def filter_empty_conv)
  have "acceptable now ex db seg (max_per_asn profile) g" using g zero [OF g] assms(6) by (simp add: acceptable_def)
  moreover have "over_cap now ex db seg (max_per_asn profile) = []"
    using zero assms(6) by (auto simp: over_cap_def filter_empty_conv)
  ultimately show ?thesis
    using select_attempts_complete [OF assms(1) [rule_format, of i] assms(2), of now ex seg "max_per_asn profile" g 5 0]
    by (simp add: SelectReplacementProvider_def maxReplacementSelectionAttempts_def)
qed

lemma pool_shrinks:
  assumes "distinct (map provider_id (providers db))"
  shows "length (pool now ex db) \<le> Suc (length (pool now (ex @ [p]) db))"
proof -
  have "distinct (map provider_id rows) \<Longrightarrow>
      length (filter (eligible now ex) rows) \<le> length (filter (eligible now (ex @ [p])) rows) + (if p \<in> provider_id ` set rows then 1 else 0)" for rows
  proof (induction rows)
    case (Cons r rows)
    then show ?case by (cases "provider_id r = p") (auto simp: eligible_def)
  qed simp
  from this [OF assms] show ?thesis by (simp add: pool_def split: if_splits)
qed

lemma assign_shards_succeeds:
  assumes "ae_ok env = (\<lambda>_. True)" and "\<forall>k. permutes_rows (ae_shuffle env segIdx k)" and "1 \<le> max_per_asn (ae_profile env)"
    and "distinct (map provider_id (providers db))" and "inj_on asn (set (providers db))"
    and "list_all (\<lambda>c. length c = 32) cs" and "i + length cs \<le> 56" and "partial seg i cs ex db"
    and "length cs \<le> length (pool (ae_now env) ex db)"
  shows "\<exists>db'. assign_shards env db0 segIdx seg i cs ex db = Inr db'"
  using assms(4-)
proof (induction cs arbitrary: i ex db)
  case Nil
  show ?case by simp
next
  case (Cons c cs)
  have "pool (ae_now env) ex db \<noteq> []" using Cons.prems(6) by auto
  then obtain pid where sel: "SelectReplacementProvider (\<lambda>_. True) (ae_now env) (ae_shuffle env segIdx i) db (ae_profile env) seg ex = Inr pid"
    using Select_succeeds [OF assms(2) Cons.prems(1,2,5) _ assms(3)] by blast
  obtain r where r: "r \<in> set (providers db)" "eligible (ae_now env) ex r" "provider_id r = pid"
    by (rule SelectReplacementProvider_sound [OF assms(2) sel])
  then have new: "pid \<notin> set ex" by (auto simp: eligible_def)
  let ?db = "db\<lparr>chunk_assignments := chunk_assignments db @ [shard_row c seg i pid]\<rparr>"
  have "find_assignment db c pid = None" "\<not> slot_taken db seg i"
    using Cons.prems(5) new by (auto simp: partial_def find_assignment_def find_None_iff slot_taken_def)
  then have "insert_shard True c seg i pid db = Some ?db"
    using Cons.prems(3,4) by (simp add: insert_shard_def)
  moreover have "partial seg (Suc i) cs (ex @ [pid]) ?db"
    using Cons.prems(5) by (auto simp: partial_def shard_row_def less_Suc_eq)
  moreover have "length cs \<le> length (pool (ae_now env) (ex @ [pid]) db)"
    using pool_shrinks [OF Cons.prems(1), of "ae_now env" ex pid] Cons.prems(6) by simp
  then have "length cs \<le> length (pool (ae_now env) (ex @ [pid]) ?db)" by (simp add: pool_def)
  ultimately show ?case using Cons.IH [of ?db "Suc i" "ex @ [pid]"] Cons.prems sel assms(1) by simp
qed

text \<open>
  The state of the database that lets a request through: unused chunk identifiers and segment identifiers, and
  for every segment of the request enough eligible providers below the storage ceiling.
\<close>

definition free_chunks :: "assign_env \<Rightarrow> (int \<times> byte list list) list \<Rightarrow> uuid list \<Rightarrow> int list \<Rightarrow> database \<Rightarrow> int \<Rightarrow> byte list list \<Rightarrow> bool" where
  "free_chunks env cids ex idxs db i cs \<longleftrightarrow>
     map_of cids i = Some cs \<and> list_all (\<lambda>c. length c = 32) cs \<and> length cs \<le> 56 \<and>
     length cs \<le> length (pool (ae_now env) ex db) \<and> (\<forall>a\<in>set (chunk_assignments db). a_chunk_id a \<notin> set cs) \<and>
     (\<forall>j\<in>set idxs. \<forall>cs'. map_of cids j = Some cs' \<longrightarrow> j \<noteq> i \<longrightarrow> set cs' \<inter> set cs = {})"

definition can_place :: "assign_env \<Rightarrow> uuid \<Rightarrow> (int \<times> byte list list) list \<Rightarrow> uuid list \<Rightarrow> int list \<Rightarrow> database \<Rightarrow> bool" where
  "can_place env fileID cids ex idxs db \<longleftrightarrow>
     db_keys db \<and> inj_on asn (set (providers db)) \<and> find_file db fileID \<noteq> None \<and> distinct idxs \<and> inj_on (ae_fresh env) (set idxs) \<and>
     (\<forall>i\<in>set idxs. 0 \<le> i \<and> ae_fresh env i \<notin> segment_id ` set (segments db) \<and>
        (fileID, i) \<notin> (\<lambda>s. (s_file_id s, segment_index s)) ` set (segments db) \<and>
        (\<exists>cs. free_chunks env cids ex idxs db i cs))"

lemma pool_place [simp]: "pool now ex (place fileID sid segIdx cs ps db) = pool now ex db"
  by (simp add: pool_def place_def)

lemma find_file_place [simp]: "find_file (place fileID sid segIdx cs ps db) f = find_file db f"
  by (simp add: find_file_def place_def)

lemma shard_rows_chunk: "a \<in> set (shard_rows sid i cs ps) \<Longrightarrow> a_chunk_id a \<in> set cs"
  by (auto simp: shard_rows_def shard_row_def elim!: in_set_zipE)

lemma can_place_step:
  assumes "can_place env fileID cids ex (idx # idxs) db" and "map_of cids idx = Some cs"
    and "place_ok env fileID (ae_fresh env idx) idx cs ps db"
  shows "can_place env fileID cids ex idxs (place fileID (ae_fresh env idx) idx cs ps db)"
proof -
  have keys: "db_keys (place fileID (ae_fresh env idx) idx cs ps db)" using assms by (auto simp: can_place_def intro: place_keys)
  have "\<exists>cs'. free_chunks env cids ex idxs (place fileID (ae_fresh env idx) idx cs ps db) i cs'" if i: "i \<in> set idxs" for i
  proof -
    have "\<exists>cs'. free_chunks env cids ex (idx # idxs) db i cs'" using assms(1) i by (simp add: can_place_def)
    then obtain cs' where cs': "free_chunks env cids ex (idx # idxs) db i cs'" ..
    have "idx \<noteq> i" using assms(1) i by (auto simp: can_place_def)
    with cs' assms(2) have disj: "set cs \<inter> set cs' = {}" by (auto simp: free_chunks_def)
    have "a_chunk_id a \<notin> set cs'" if "a \<in> set (chunk_assignments (place fileID (ae_fresh env idx) idx cs ps db))" for a
      using that cs' disj by (auto simp: place_def free_chunks_def dest: shard_rows_chunk)
    with cs' show ?thesis by (intro exI [of _ cs']) (simp add: free_chunks_def)
  qed
  moreover have "ae_fresh env i \<noteq> ae_fresh env idx \<and> i \<noteq> idx" if "i \<in> set idxs" for i
    using assms(1) that by (auto simp: can_place_def inj_on_def)
  ultimately show ?thesis using assms(1) keys by (simp add: can_place_def) (auto simp: place_def)
qed

lemma placements_file: "placements env fileID cids db db' \<Longrightarrow> find_file db' f = find_file db f"
  by (induction rule: placements.induct) simp_all

definition new_segment :: "assign_env \<Rightarrow> uuid \<Rightarrow> int \<Rightarrow> segment_row" where
  "new_segment env fileID i = \<lparr>segment_id = ae_fresh env i, s_file_id = fileID, segment_index = i\<rparr>"

lemma assign_segments_succeeds:
  assumes "ae_ok env = (\<lambda>_. True)" and "\<forall>i k. permutes_rows (ae_shuffle env i k)" and "1 \<le> max_per_asn (ae_profile env)"
    and "can_place env fileID cids ex idxs db"
  shows "\<exists>db' ps. assign_segments env fileID cids ex idxs db = (None, db') \<and> placements env fileID cids db db' \<and>
           segments db' = segments db @ map (new_segment env fileID) idxs \<and>
           (\<forall>i\<in>set idxs. segment_at env db' (new_segment env fileID i) (the (map_of cids i)) (ps i))"
  using assms(4)
proof (induction idxs arbitrary: db)
  case Nil
  show ?case by (auto intro: placements.none)
next
  case (Cons idx idxs)
  let ?sid = "ae_fresh env idx"
  have perm: "\<forall>k. permutes_rows (ae_shuffle env idx k)" using assms(2) by blast
  from Cons.prems have keys: "db_keys db" "find_file db fileID \<noteq> None" "inj_on asn (set (providers db))" "0 \<le> idx"
    "?sid \<notin> segment_id ` set (segments db)" "(fileID, idx) \<notin> (\<lambda>s. (s_file_id s, segment_index s)) ` set (segments db)"
    by (auto simp: can_place_def)
  have "\<exists>cs. free_chunks env cids ex (idx # idxs) db idx cs" using Cons.prems by (simp add: can_place_def)
  then obtain cs where cs: "map_of cids idx = Some cs" "list_all (\<lambda>c. length c = 32) cs" "length cs \<le> 56"
    "length cs \<le> length (pool (ae_now env) ex db)" "\<forall>a\<in>set (chunk_assignments db). a_chunk_id a \<notin> set cs"
    by (auto simp: free_chunks_def)
  let ?db1 = "db\<lparr>segments := segments db @ [\<lparr>segment_id = ?sid, s_file_id = fileID, segment_index = idx\<rparr>]\<rparr>"
  have ins: "insert_segment True ?sid fileID idx db = Some ?db1"
    using keys unfolding insert_segment_def image_iff by auto
  have "partial ?sid 0 cs ex ?db1"
    using cs(5) fresh_segment_unused(1) [OF keys(1,5)] by (auto simp: partial_def filter_empty_conv)
  then obtain db2 where "assign_shards env db idx ?sid 0 cs ex ?db1 = Inr db2"
    using assign_shards_succeeds [OF assms(1) perm assms(3), of ?db1 cs 0 ?sid ex db] keys(1,3) cs by (auto simp: db_keys_def pool_def)
  with ins have fst: "fst (assignSegment env fileID idx cs ex db) = None" by (simp add: assignSegment_def assms(1))
  have cap: "0 \<le> max_per_asn (ae_profile env)" using assms(3) by simp
  show ?case
  proof (cases rule: assignSegment_cases [OF perm keys(1) cap, of fileID cs ex])
    case (1 e)
    with fst show ?thesis by simp
  next
    case (2 ps)
    let ?db = "place fileID ?sid idx cs ps db" and ?s = "new_segment env fileID idx"
    from Cons.IH [OF can_place_step [OF Cons.prems cs(1) 2(2)]] obtain db' qs where
      IH: "assign_segments env fileID cids ex idxs ?db = (None, db')" "placements env fileID cids ?db db'"
        "segments db' = segments ?db @ map (new_segment env fileID) idxs"
        "\<forall>i\<in>set idxs. segment_at env db' (new_segment env fileID i) (the (map_of cids i)) (qs i)" by blast
    have "segment_at env db' ?s cs ps"
      by (rule placements_segment_at [OF IH(2)])
        (use segment_at_new [OF keys(1) 2(2)] in \<open>simp_all add: new_segment_def\<close>, simp add: place_def)
    then have "\<forall>i\<in>set (idx # idxs). segment_at env db' (new_segment env fileID i) (the (map_of cids i)) ((qs(idx := ps)) i)"
      using IH(4) cs(1) by simp
    moreover have "segments db' = segments db @ map (new_segment env fileID) (idx # idxs)"
      using IH(3) by (simp add: place_def new_segment_def)
    moreover have "assign_segments env fileID cids ex (idx # idxs) db = (None, db')" using IH(1) 2(1) cs(1) by simp
    ultimately show ?thesis using placements.more [OF 2(2) cs(1) IH(2)] by blast
  qed
qed

text \<open>
  The conditions under which a new file is accepted: every statement succeeds, the network is ready, the owner can pay, the file and
  the chunk identifiers are new, and below the storage ceiling there are enough eligible providers, in different
  autonomous systems, for one segment.
\<close>

definition over_ceiling :: "assign_env \<Rightarrow> database \<Rightarrow> uuid list" where
  "over_ceiling env db = group_having (chunkCeilingMaxChunks (ae_profile env)) db"

definition accepting :: "assign_env \<Rightarrow> VerifiedClaims \<Rightarrow> uploadAssignRequestBody \<Rightarrow> (int \<times> byte list list) list \<Rightarrow> database \<Rightarrow> bool" where
  "accepting env c req cids db \<longleftrightarrow>
     ae_ok env = (\<lambda>_. True) \<and> (\<forall>i k. permutes_rows (ae_shuffle env i k)) \<and> 1 \<le> max_per_asn (ae_profile env) \<and>
     (case (case Cached (ae_readiness env) of Some r \<Rightarrow> Some r | None \<Rightarrow> Evaluate (\<lambda>_. True) (ae_now env) (ae_readiness env) db) of
        None \<Rightarrow> False | Some r \<Rightarrow> AllConditionsMet r) \<and>
     (case ownerBalanceAndReserved (\<lambda>_. True) (ae_profile env) (Subject c) db of
        None \<Rightarrow> False
      | Some (b, r) \<Rightarrow> b - r \<ge> fileMonthlyCostPaiseForBytes (uq_OriginalSizeBytes req) (ae_profile env)) \<and>
     db_keys db \<and> inj_on asn (set (providers db)) \<and> find_file db (uq_FileID req) = None \<and>
     uq_FileID req \<notin> s_file_id ` set (segments db) \<and> owner_public_key db (Subject c) \<noteq> None \<and>
     (\<forall>i\<in>fst ` set cids. ae_fresh env i \<notin> segment_id ` set (segments db)) \<and> inj_on (ae_fresh env) (fst ` set cids) \<and>
     (\<forall>(i, u)\<in>set cids. \<forall>(j, v)\<in>set cids. i \<noteq> j \<longrightarrow> set u \<inter> set v = {}) \<and> list_all (\<lambda>k. length k = 32) (concat (map snd cids)) \<and>
     (\<forall>a\<in>set (chunk_assignments db). a_chunk_id a \<notin> set (concat (map snd cids))) \<and>
     TotalShards (ae_profile env) \<le> 56 \<and>
     TotalShards (ae_profile env) \<le> int (length (pool (ae_now env) (over_ceiling env db) db)) \<and>
     MinActiveProviders (ae_profile env) \<le> int (length (filter (\<lambda>p. status p = ACTIVE \<and> provider_id p \<notin> set (over_ceiling env db)) (providers db)))"

lemma find_file_placeholder:
  assumes "find_file db fileID = None"
  shows "find_file (db\<lparr>files := files db @ [placeholder_row fileID owner sz]\<rparr>) fileID = Some (placeholder_row fileID owner sz)"
proof -
  have "List.find P xs = None \<Longrightarrow> P x \<Longrightarrow> List.find P (xs @ [x]) = Some x" for P and x :: file_row and xs
    by (induction xs) (auto split: if_splits)
  from this [of "\<lambda>r. file_id r = fileID" "files db" "placeholder_row fileID owner sz"] assms show ?thesis
    by (simp add: find_file_def) (simp add: placeholder_row_def)
qed

lemma accepting_can_place:
  assumes acc: "accepting env c req cids db"
    and parse: "parseSegmentChunkIDs (uq_Segments req) (uq_NumSegments req) (TotalShards (ae_profile env)) = Some cids"
    and idxs: "set idxs = fst ` set cids" "distinct idxs"
  shows "can_place env (uq_FileID req) cids (over_ceiling env db) idxs
           (db\<lparr>files := files db @ [placeholder_row (uq_FileID req) (Subject c) (uq_OriginalSizeBytes req)]\<rparr>)" (is "can_place _ _ _ _ _ ?db")
proof -
  note p = parseSegmentChunkIDs_sound [OF parse]
  have free: "free_chunks env cids (over_ceiling env db) idxs ?db i cs" if e: "(i, cs) \<in> set cids" for i cs
  proof -
    have m: "map_of cids i = Some cs" using e p(2) by simp
    have sub: "set cs \<subseteq> set (concat (map snd cids))" using e by force
    have "int (length cs) = TotalShards (ae_profile env)" using p(1) e by (auto simp: submitted_def)
    moreover have "set cs' \<inter> set cs = {}" if "map_of cids j = Some cs'" "j \<noteq> i" for j cs'
    proof -
      have "\<forall>(i, u)\<in>set cids. \<forall>(j, v)\<in>set cids. i \<noteq> j \<longrightarrow> set u \<inter> set v = {}" using acc by (simp add: accepting_def)
      from bspec [OF bspec [OF this map_of_SomeD [OF that(1)], simplified prod.case] e] that(2) show ?thesis by simp
    qed
    moreover have "list_all (\<lambda>k. length k = 32) cs" using acc sub unfolding accepting_def list_all_iff by blast
    moreover have "\<forall>a\<in>set (chunk_assignments db). a_chunk_id a \<notin> set cs" using acc sub unfolding accepting_def by blast
    ultimately show ?thesis
      using acc m by (simp add: free_chunks_def accepting_def pool_def)
  qed
  have "0 \<le> i \<and> (\<exists>cs. free_chunks env cids (over_ceiling env db) idxs ?db i cs)" if i: "i \<in> set idxs" for i
  proof -
    from i idxs(1) obtain cs where e: "(i, cs) \<in> set cids" by auto
    with p(1) have "0 \<le> i" by (auto simp: submitted_def)
    with free [OF e] show ?thesis by blast
  qed
  moreover have k: "db_keys db" "find_file db (uq_FileID req) = None" using acc by (simp_all add: accepting_def)
  have "db_keys ?db" by (rule file_added_keys [OF file_added.added [OF k(2)] k(1)])
  moreover have "find_file ?db (uq_FileID req) \<noteq> None" using find_file_placeholder [OF k(2)] by simp
  moreover have "uq_FileID req \<notin> s_file_id ` set (segments db)" using acc by (simp add: accepting_def)
  then have "(uq_FileID req, i) \<notin> (\<lambda>s. (s_file_id s, segment_index s)) ` set (segments db)" for i by auto
  ultimately show ?thesis using acc idxs by (simp add: can_place_def accepting_def)
qed

lemma assign_body_new_file:
  assumes acc: "accepting env c req cids db" and sz: "1 \<le> uq_OriginalSizeBytes req"
    and parse: "parseSegmentChunkIDs (uq_Segments req) (uq_NumSegments req) (TotalShards (ae_profile env)) = Some cids"
  obtains db' ps where "assign_body env c req cids db = (Inr (200, respondWithFreshTokens env (ordered_rows (\<lambda>_. True) (uq_FileID req) db')
      (fileMonthlyCostPaiseForBytes (uq_OriginalSizeBytes req) (ae_profile env))), db')"
    and "segments db' = segments db @ map (new_segment env (uq_FileID req)) (sort (map fst cids))"
    and "\<forall>(i, cs)\<in>set cids. segment_at env db' (new_segment env (uq_FileID req) i) cs (ps i)"
    and "find_file db' (uq_FileID req) = Some (placeholder_row (uq_FileID req) (Subject c) (uq_OriginalSizeBytes req))"
    and "db_keys db'" and "providers db' = providers db"
proof -
  let ?db = "db\<lparr>files := files db @ [placeholder_row (uq_FileID req) (Subject c) (uq_OriginalSizeBytes req)]\<rparr>"
  let ?cost = "fileMonthlyCostPaiseForBytes (uq_OriginalSizeBytes req) (ae_profile env)"
  let ?idxs = "sort (map fst cids)"
  have ok: "ae_ok env = (\<lambda>_. True)" using acc by (simp add: accepting_def)
  have "uq_FileID req \<notin> s_file_id ` set (segments db)" using acc by (simp add: accepting_def)
  then have "filter (\<lambda>s. s_file_id s = uq_FileID req) (segments db) = []" unfolding filter_empty_conv by (metis image_eqI)
  then have ex: "ordered_rows (\<lambda>_. True) (uq_FileID req) db = []" by (simp add: ordered_rows_def join_rows_def)
  have first: "first_call env c req ?cost db = (None, ?db)"
    using acc sz by (auto simp: first_call_def accepting_def createPlaceholderFile_def split: option.splits)
  have new: "new_segments (ae_profile env) [] cids = ?idxs" by (simp add: new_segments_def complete_segments_def)
  have cap: "enforceProviderCapacity (\<lambda>_. True) ?db (chunkCeilingMaxChunks (ae_profile env)) (MinActiveProviders (ae_profile env)) = Inr (over_ceiling env db)"
    using acc by (simp add: enforceProviderCapacity_def providersAtOrOverChunkCount_def eligibleActiveProviderCountAtOrUnder_def
        over_ceiling_def accepting_def group_having_def held_chunks_def)
  have "\<exists>db' ps. assign_segments env (uq_FileID req) cids (over_ceiling env db) ?idxs ?db = (None, db') \<and>
      placements env (uq_FileID req) cids ?db db' \<and> segments db' = segments ?db @ map (new_segment env (uq_FileID req)) ?idxs \<and>
      (\<forall>i\<in>set ?idxs. segment_at env db' (new_segment env (uq_FileID req) i) (the (map_of cids i)) (ps i))"
    using acc parseSegmentChunkIDs_sound(2) [OF parse]
    by (intro assign_segments_succeeds accepting_can_place [OF acc parse]) (auto simp: accepting_def)
  then obtain db' ps where seg: "assign_segments env (uq_FileID req) cids (over_ceiling env db) ?idxs ?db = (None, db')"
    "placements env (uq_FileID req) cids ?db db'" "segments db' = segments ?db @ map (new_segment env (uq_FileID req)) ?idxs"
    "\<forall>i\<in>set ?idxs. segment_at env db' (new_segment env (uq_FileID req) i) (the (map_of cids i)) (ps i)" by blast
  have "length ?idxs \<noteq> 0" using parseSegmentChunkIDs_sound(4) [OF parse] by simp
  then have "?idxs \<noteq> []" by (metis list.size(3))
  then have "assign_new env (uq_FileID req) cids ?idxs ?db = (None, db')"
    using seg(1) cap by (simp add: assign_new_def ok)
  then have run: "assign_body env c req cids db = (Inr (200, respondWithFreshTokens env (ordered_rows (\<lambda>_. True) (uq_FileID req) db') ?cost), db')"
    using first ex new acc by (simp add: assign_body_def fileOwnerID_def loadExistingAssignments_def ok accepting_def Let_def)
  have k: "db_keys db" "find_file db (uq_FileID req) = None" using acc by (simp_all add: accepting_def)
  have f: "find_file db' (uq_FileID req) = Some (placeholder_row (uq_FileID req) (Subject c) (uq_OriginalSizeBytes req))"
    using find_file_placeholder [OF k(2)] placements_file [OF seg(2)] by simp
  have "\<forall>(i, cs)\<in>set cids. segment_at env db' (new_segment env (uq_FileID req) i) cs (ps i)"
    using seg(4) parseSegmentChunkIDs_sound(2) [OF parse] by (fastforce simp: image_iff)
  moreover have "db_keys db'" by (rule placements_keys [OF seg(2) file_added_keys [OF file_added.added [OF k(2)] k(1)]])
  moreover have "providers db' = providers db" using placements_extend [OF seg(2)] by auto
  ultimately show thesis using that [OF run _ _ f] seg(3) by simp
qed

subsection \<open>Lemmas: acceptance\<close>

lemma HandleAssign_accepts:
  assumes "accepting env c req cids db" and "1 \<le> uq_OriginalSizeBytes req"
    and "1 \<le> uq_NumSegments req" and "uq_NumSegments req \<le> 10000"
    and "parseSegmentChunkIDs (uq_Segments req) (uq_NumSegments req) (TotalShards (ae_profile env)) = Some cids"
  obtains resp db' where "HandleAssign env (Some c) (Some req) db = (Inr (200, resp), db')"
proof -
  obtain db' where "assign_body env c req cids db = (Inr (200, respondWithFreshTokens env (ordered_rows (\<lambda>_. True) (uq_FileID req) db')
      (fileMonthlyCostPaiseForBytes (uq_OriginalSizeBytes req) (ae_profile env))), db')"
    by (rule assign_body_new_file [OF assms(1,2,5)])
  with assms(2-) that show thesis by (simp add: HandleAssign_def minNumSegments_def maxNumSegments_def)
qed

subsection \<open>A sample upload\<close>

definition sample_provider :: "nat \<Rightarrow> provider_row" where
  "sample_provider k = candidate_row\<lparr>provider_id := replicate 16 (word_of_nat k), asn := replicate (k + 2) CHR ''A''\<rparr>"

definition sample_response :: ReadinessResponse where
  "sample_response =
     (let c = \<lparr>Name = [], Satisfied = True, CurrentValue = 0, RequiredValue = 0, DemoValue = None\<rparr>
      in \<lparr>AllConditionsMet = True, EvaluatedAt = 0, re_Mode = ''demo'', Conditions = \<lparr>ActiveVettedProviders = c, DistinctASNs = c,
        DistinctMetroRegions = c, MicroserviceQuorum = c, RazorpayAccountsReady = c, RelayNodesDeployed = c, ClusterAuditSecretLoaded = c\<rparr>,
        ProvidersNearCeilingCount = 0, EffectiveDepartureThresholdSeconds = 600\<rparr>)"

lemma sample_response_met [simp]: "AllConditionsMet sample_response"
  by (simp add: sample_response_def Let_def)

definition sample_ready :: ReadinessEvaluator where
  "sample_ready = \<lparr>re_profile = DemoProfile, clusterSecretCache = NewClusterSecretCache, HealthyCount = 1,
     relayNodeCount = Some 0, effectiveDepartureThreshold = 600 * second, re_cached = Some sample_response\<rparr>"

definition sample_assign_env :: "time \<Rightarrow> assign_env" where
  "sample_assign_env now = \<lparr>ae_sha = (\<lambda>_. replicate 32 0), ae_sign = sample_sign, ae_signingKey = replicate 32 5, ae_profile = DemoProfile,
     ae_readiness = sample_ready, ae_now = now, ae_ok = (\<lambda>_. True), ae_fresh = (\<lambda>i. replicate 16 (word_of_int (7 + i))),
     ae_shuffle = (\<lambda>_ _ _ rows. rows)\<rparr>"

definition sample_chunk :: "nat \<Rightarrow> byte list" where "sample_chunk k = replicate 32 (word_of_nat k)"

definition sample_assign_request :: uploadAssignRequestBody where
  "sample_assign_request = \<lparr>uq_FileID = replicate 16 1, uq_NumSegments = 1, uq_OriginalSizeBytes = 1000,
     uq_Segments = [\<lparr>sq_SegmentIndex = 0, sq_ChunkIDs = map hex_encode (map sample_chunk [0, 1, 2, 3, 4])\<rparr>]\<rparr>"

definition sample_upload_db :: database where
  "sample_upload_db = empty_db\<lparr>providers := map sample_provider [1, 2, 3, 4, 5], owner_public_key := (\<lambda>_. Some (replicate 32 5))\<rparr>"

definition sample_owner :: VerifiedClaims where "sample_owner = \<lparr>Subject = replicate 16 9, Role = ''owner''\<rparr>"

lemma sample_parse:
  "parseSegmentChunkIDs (uq_Segments sample_assign_request) (uq_NumSegments sample_assign_request) (TotalShards DemoProfile) =
     Some [(0, map sample_chunk [0, 1, 2, 3, 4])]"
proof -
  have "decode_ids (map hex_encode (map sample_chunk [0, 1, 2, 3, 4])) = Some (map sample_chunk [0, 1, 2, 3, 4])"
    by (rule decode_ids_hex) (simp add: sample_chunk_def)
  then show ?thesis by (simp add: parseSegmentChunkIDs_def sample_assign_request_def DemoProfile_def)
qed

lemma sample_env: "env_ok (sample_assign_env now)"
  by (simp add: env_ok_def sample_assign_env_def permutes_rows_id max_per_asn_def DemoProfile_def)

lemma sample_asn: "asn (sample_provider j) = asn (sample_provider k) \<Longrightarrow> j = k"
  by (simp add: sample_provider_def del: replicate_Suc)

lemma sample_keys: "db_keys sample_upload_db" "inj_on asn (set (providers sample_upload_db))"
proof -
  show "db_keys sample_upload_db" by (simp add: db_keys_def sample_upload_db_def empty_db_def sample_provider_def)
  show "inj_on asn (set (providers sample_upload_db))"
    by (rule inj_onI) (auto simp: sample_upload_db_def dest!: sample_asn simp del: One_nat_def)
qed

lemma sample_eligible: "eligible 1 [] (sample_provider k)" "status (sample_provider k) = ACTIVE"
  by (simp_all add: eligible_def sample_provider_def candidate_row_def)

lemma sample_upload_cost: "fileMonthlyCostPaiseForBytes 1000 DemoProfile = 0" "fileMonthlyCostPaiseForBytes 0 DemoProfile = 0"
  by (simp_all add: fileMonthlyCostPaiseForBytes_def int64_of_float_def roundingHalf_def bytesPerGB_def DemoProfile_def floor_eq_iff)

lemma sample_accepting:
  "accepting (sample_assign_env 1) sample_owner sample_assign_request [(0, map sample_chunk [0, 1, 2, 3, 4])] sample_upload_db"
proof -
  have over: "over_ceiling (sample_assign_env 1) sample_upload_db = []"
    by (simp add: over_ceiling_def group_having_def sample_upload_db_def empty_db_def)
  have "pool 1 [] sample_upload_db = providers sample_upload_db"
    by (simp add: pool_def sample_upload_db_def sample_eligible)
  moreover have "distinct (map sample_chunk [0, 1, 2, 3, 4])" by (simp add: sample_chunk_def)
  moreover have "list_all (\<lambda>k. length k = 32) (map sample_chunk [0, 1, 2, 3, 4])" by (simp add: sample_chunk_def)
  ultimately show ?thesis
    using sample_keys over sample_upload_cost
    by (simp add: accepting_def sample_assign_env_def sample_ready_def Cached_def permutes_rows_id max_per_asn_def
        ownerBalanceAndReserved_def active_bytes_def Let_def sample_eligible sample_assign_request_def)
      (simp add: sample_upload_db_def empty_db_def find_file_def DemoProfile_def sample_eligible)
qed

theorem assign_all_or_nothing_witness:
  "\<exists>resp db'. HandleAssign (sample_assign_env 1) (Some sample_owner) (Some sample_assign_request) sample_upload_db = (Inr (200, resp), db') \<and>
     db_keys db'"
proof -
  obtain resp db' where run: "HandleAssign (sample_assign_env 1) (Some sample_owner) (Some sample_assign_request) sample_upload_db = (Inr (200, resp), db')"
    by (rule HandleAssign_accepts [OF sample_accepting]) (use sample_parse in \<open>simp_all add: sample_assign_request_def sample_assign_env_def\<close>)
  with assign_all_or_nothing [OF sample_env sample_keys(1) run] show ?thesis by blast
qed

subsection \<open>Lemmas: the rows of a segment\<close>

definition shard_of :: "database \<Rightarrow> segment_row \<Rightarrow> assignment_row \<Rightarrow> existingShardRow list" where
  "shard_of db s a = concat (map (\<lambda>p.
       case shard_index a of
         None \<Rightarrow> []
       | Some i \<Rightarrow>
           [\<lparr>ex_segmentIndex = segment_index s, ex_segmentID = segment_id s, ex_shardIndex = i, ex_providerID = a_provider_id a,
             ex_chunkID = a_chunk_id a, ex_multiaddrs = last_known_multiaddrs p, ex_asn = asn p,
             ex_multiaddrStale = multiaddr_stale p\<rparr>])
       (filter (\<lambda>p. provider_id p = a_provider_id a) (providers db)))"

definition rows_of :: "(assignment_row \<Rightarrow> bool) \<Rightarrow> database \<Rightarrow> segment_row \<Rightarrow> existingShardRow list" where
  "rows_of keep db s = concat (map (shard_of db s)
     (filter (\<lambda>a. a_segment_id a = Some (segment_id s) \<and> \<not> is_vetting_chunk a \<and> keep a) (chunk_assignments db)))"

lemma join_rows_alt: "join_rows keep fileID db = concat (map (rows_of keep db) (filter (\<lambda>s. s_file_id s = fileID) (segments db)))"
  by (simp add: join_rows_def rows_of_def [abs_def] shard_of_def [abs_def])

lemma shard_of_frame [simp]:
  "shard_of (db\<lparr>segments := x\<rparr>) = shard_of db" "shard_of (db\<lparr>chunk_assignments := y\<rparr>) = shard_of db"
  "shard_of (db\<lparr>segments := x, chunk_assignments := y\<rparr>) = shard_of db"
  by (simp_all add: shard_of_def [abs_def])

definition shard_at :: "database \<Rightarrow> segment_row \<Rightarrow> nat \<times> byte list \<times> uuid \<Rightarrow> existingShardRow" where
  "shard_at db s e = (case e of (i, c, pid) \<Rightarrow>
     (case find_provider db pid of
        None \<Rightarrow> \<lparr>ex_segmentIndex = segment_index s, ex_segmentID = segment_id s, ex_shardIndex = i, ex_providerID = pid, ex_chunkID = c,
                 ex_multiaddrs = [], ex_asn = [], ex_multiaddrStale = False\<rparr>
      | Some p \<Rightarrow> \<lparr>ex_segmentIndex = segment_index s, ex_segmentID = segment_id s, ex_shardIndex = i, ex_providerID = pid, ex_chunkID = c,
                   ex_multiaddrs = last_known_multiaddrs p, ex_asn = asn p, ex_multiaddrStale = multiaddr_stale p\<rparr>))"

lemma shard_at_fields [simp]:
  "ex_segmentIndex (shard_at db s (i, c, pid)) = segment_index s" "ex_segmentID (shard_at db s (i, c, pid)) = segment_id s"
  "ex_shardIndex (shard_at db s (i, c, pid)) = i" "ex_providerID (shard_at db s (i, c, pid)) = pid" "ex_chunkID (shard_at db s (i, c, pid)) = c"
  by (simp_all add: shard_at_def split: option.split)

lemma filter_provider:
  assumes "distinct (map provider_id (providers db))" and "r \<in> set (providers db)"
  shows "filter (\<lambda>p. provider_id p = provider_id r) (providers db) = [r]"
proof -
  have "distinct (map provider_id rows) \<Longrightarrow> r \<in> set rows \<Longrightarrow> filter (\<lambda>p. provider_id p = provider_id r) rows = [r]" for rows
    by (induction rows) (auto simp: filter_empty_conv image_iff)
  with assms show ?thesis by blast
qed

text \<open>The part of a placement that does not depend on the time of the call.\<close>

definition placed_segment :: "database \<Rightarrow> segment_row \<Rightarrow> byte list list \<Rightarrow> uuid list \<Rightarrow> bool" where
  "placed_segment db s cs ps \<longleftrightarrow>
     filter (\<lambda>a. a_segment_id a = Some (segment_id s)) (chunk_assignments db) = shard_rows (segment_id s) 0 cs ps \<and>
     length ps = length cs \<and> set ps \<subseteq> provider_id ` set (providers db)"

lemma placed_segmentI: "segment_at env db s cs ps \<Longrightarrow> placed_segment db s cs ps"
  by (auto simp: segment_at_def placed_segment_def good_provider_def)

lemma shard_of_placed:
  assumes "distinct (map provider_id (providers db))" and "pid \<in> provider_id ` set (providers db)"
  shows "shard_of db s (shard_row c sid i pid) = [shard_at db s (i, c, pid)]"
proof -
  from assms(2) obtain r where r: "r \<in> set (providers db)" "provider_id r = pid" by auto
  with filter_provider [OF assms(1) r(1)] find_provider_distinct [OF assms(1) r(1)] show ?thesis
    by (simp add: shard_of_def shard_row_def shard_at_def)
qed

lemma rows_of_placed:
  assumes "placed_segment db s cs ps" and "distinct (map provider_id (providers db))" and "\<And>a. a_status a = A_ACTIVE \<Longrightarrow> keep a"
  shows "rows_of keep db s = map (shard_at db s) (zip [0..<length cs] (zip cs ps))"
proof -
  let ?z = "zip [0..<length cs] (zip cs ps)"
  have "filter (\<lambda>a. a_segment_id a = Some (segment_id s) \<and> \<not> is_vetting_chunk a \<and> keep a) (chunk_assignments db) =
      filter (\<lambda>a. \<not> is_vetting_chunk a \<and> keep a) (filter (\<lambda>a. a_segment_id a = Some (segment_id s)) (chunk_assignments db))"
    by (simp add: conj_commute conj_left_commute)
  also have "\<dots> = shard_rows (segment_id s) 0 cs ps"
    using assms(1,3) by (auto simp: placed_segment_def filter_id_conv dest: shard_rows_segment)
  finally have f: "filter (\<lambda>a. a_segment_id a = Some (segment_id s) \<and> \<not> is_vetting_chunk a \<and> keep a) (chunk_assignments db) =
      map (\<lambda>(k, c, p). shard_row c (segment_id s) k p) ?z" by (simp add: shard_rows_def)
  have one: "shard_of db s (shard_row c (segment_id s) i p) = [shard_at db s (i, c, p)]" if "(i, c, p) \<in> set ?z" for i c p
  proof (rule shard_of_placed [OF assms(2)])
    have "p \<in> set ps" using that by (auto elim!: in_set_zipE)
    then show "p \<in> provider_id ` set (providers db)" using assms(1) by (auto simp: placed_segment_def)
  qed
  have "map (shard_of db s \<circ> (\<lambda>(k, c, p). shard_row c (segment_id s) k p)) ?z = map (\<lambda>e. [shard_at db s e]) ?z"
    by (rule map_cong) (auto simp: one)
  then show ?thesis by (simp only: rows_of_def f map_map) simp
qed

text \<open>The placed segments of a file stay listed when more rows are appended.\<close>

lemma rows_of_append:
  "rows_of keep (db\<lparr>segments := x, chunk_assignments := chunk_assignments db @ rows\<rparr>) s =
     rows_of keep db s @ rows_of keep (db\<lparr>chunk_assignments := rows\<rparr>) s"
  by (simp add: rows_of_def)

lemma length_filter_concat: "length (filter P (concat xss)) = sum_list (map (\<lambda>xs. length (filter P xs)) xss)"
  by (induction xss) auto

definition listed :: "uuid \<Rightarrow> database \<Rightarrow> int \<Rightarrow> nat" where
  "listed fileID db i = length (filter (\<lambda>r. ex_segmentIndex r = i) (ordered_rows (\<lambda>_. True) fileID db))"

lemma listed_sum:
  "listed fileID db i =
     sum_list (map (\<lambda>s. length (filter (\<lambda>r. ex_segmentIndex r = i) (rows_of (\<lambda>_. True) db s))) (filter (\<lambda>s. s_file_id s = fileID) (segments db)))"
proof -
  have "mset (ordered_rows (\<lambda>_. True) fileID db) = mset (join_rows (\<lambda>_. True) fileID db)" by (simp add: ordered_rows_def)
  then have "mset (filter P (ordered_rows (\<lambda>_. True) fileID db)) = mset (filter P (join_rows (\<lambda>_. True) fileID db))" for P
    by (simp add: mset_filter)
  then have "listed fileID db i = length (filter (\<lambda>r. ex_segmentIndex r = i) (join_rows (\<lambda>_. True) fileID db))"
    unfolding listed_def by (rule mset_eq_length)
  then show ?thesis by (simp add: join_rows_alt length_filter_concat comp_def)
qed

lemma listed_mono: "listed fileID db i \<le> listed fileID (db\<lparr>segments := segments db @ segs, chunk_assignments := chunk_assignments db @ rows\<rparr>) i"
  by (simp add: listed_sum rows_of_append) (intro trans_le_add1 sum_list_mono, simp)

lemma listed_placed:
  assumes "placed_segment db s cs ps" and "distinct (map provider_id (providers db))" and "s \<in> set (segments db)" and "s_file_id s = fileID"
  shows "length cs \<le> listed fileID db (segment_index s)"
proof -
  have rows: "rows_of (\<lambda>_. True) db s = map (shard_at db s) (zip [0..<length cs] (zip cs ps))"
    by (rule rows_of_placed [OF assms(1,2)]) simp
  then have "\<forall>r\<in>set (rows_of (\<lambda>_. True) db s). ex_segmentIndex r = segment_index s" by auto
  then have "length (filter (\<lambda>r. ex_segmentIndex r = segment_index s) (rows_of (\<lambda>_. True) db s)) = length cs"
    using assms(1) by (simp add: rows placed_segment_def)
  then have "length cs \<in> set (map (\<lambda>x. length (filter (\<lambda>r. ex_segmentIndex r = segment_index s) (rows_of (\<lambda>_. True) db x)))
      (filter (\<lambda>s. s_file_id s = fileID) (segments db)))"
    unfolding set_map using assms(3,4) by (intro image_eqI [of _ _ s]) simp_all
  then show ?thesis unfolding listed_sum by (rule member_le_sum_list) simp
qed

subsection \<open>Properties: repeated calls\<close>

lemma complete_iff:
  assumes "1 \<le> TotalShards profile"
  shows "i \<in> set (complete_segments profile (ordered_rows (\<lambda>_. True) fileID db)) \<longleftrightarrow> TotalShards profile \<le> int (listed fileID db i)"
proof -
  have "i \<in> ex_segmentIndex ` set (ordered_rows (\<lambda>_. True) fileID db)" if "TotalShards profile \<le> int (listed fileID db i)"
  proof -
    have "filter (\<lambda>r. ex_segmentIndex r = i) (ordered_rows (\<lambda>_. True) fileID db) \<noteq> []" using that assms by (auto simp: listed_def)
    then obtain r where "r \<in> set (ordered_rows (\<lambda>_. True) fileID db)" "ex_segmentIndex r = i" by (auto simp: filter_empty_conv)
    then show ?thesis by blast
  qed
  then show ?thesis by (auto simp: complete_segments_def listed_def)
qed

lemma new_segments_complete:
  assumes "\<forall>e\<in>set cids. fst e \<in> set (complete_segments profile rows)"
  shows "new_segments profile rows cids = []"
proof -
  have "filter (\<lambda>i. i \<notin> set (complete_segments profile rows)) (map fst cids) = []" using assms by (auto simp: filter_empty_conv)
  then show ?thesis by (simp add: new_segments_def)
qed

lemma file_added_owner:
  assumes "file_added fileID owner sz db db0" and "\<forall>f. find_file db fileID = Some f \<longrightarrow> owner_id f = owner"
  shows "\<forall>f. find_file db0 fileID = Some f \<longrightarrow> owner_id f = owner"
  using assms
proof (cases rule: file_added.cases)
  case added
  then show ?thesis using find_file_placeholder [of db fileID owner sz] by (simp add: placeholder_row_def)
qed simp

text \<open>What a successful call leaves behind.\<close>

lemma assign_body_done:
  assumes env: "env_ok env" and keys: "db_keys db" and n: "1 \<le> TotalShards (ae_profile env)"
    and parse: "parseSegmentChunkIDs (uq_Segments req) (uq_NumSegments req) (TotalShards (ae_profile env)) = Some cids"
    and run: "assign_body env c req cids db = (Inr (st, resp), db')"
  shows "st = 200 \<and> resp = respondWithFreshTokens env (ordered_rows (\<lambda>_. True) (uq_FileID req) db')
           (fileMonthlyCostPaiseForBytes (uq_OriginalSizeBytes req) (ae_profile env)) \<and>
         (\<forall>f. find_file db' (uq_FileID req) = Some f \<longrightarrow> owner_id f = Subject c) \<and>
         (\<forall>e\<in>set cids. TotalShards (ae_profile env) \<le> int (listed (uq_FileID req) db' (fst e)))"
proof -
  let ?f = "uq_FileID req" and ?cost = "fileMonthlyCostPaiseForBytes (uq_OriginalSizeBytes req) (ae_profile env)"
  let ?ex = "ordered_rows (\<lambda>_. True) ?f db"
  let ?gate = "if ?ex = [] then first_call env c req ?cost db else (None, db)"
  obtain g db0 where gate: "?gate = (g, db0)" by fastforce
  have added: "file_added ?f (Subject c) (uq_OriginalSizeBytes req) db db0"
    using gate first_call_effect by (cases "?ex = []") (auto intro: file_added.kept)
  obtain r db1 where new: "assign_new env ?f cids (new_segments (ae_profile env) ?ex cids) db0 = (r, db1)" by fastforce
  have own: "\<forall>f. find_file db ?f = Some f \<longrightarrow> owner_id f = Subject c"
    and res: "g = None" "r = None" "db' = db1" "st = 200" "resp = respondWithFreshTokens env (ordered_rows (\<lambda>_. True) ?f db1) ?cost"
    using run gate new
    by (auto simp: assign_body_def Let_def fileOwnerID_def loadExistingAssignments_def split: option.splits if_splits)
  have k0: "db_keys db0" by (rule file_added_keys [OF added keys])
  note eff = assign_new_effect [OF env k0 new_segments_subset new]
  have pl: "placements env ?f cids db0 db'" using eff res by simp
  have same: "listed ?f db0 i = listed ?f db i" for i
    using file_added_frame [OF added] by (simp add: listed_sum rows_of_def [abs_def] shard_of_def [abs_def])
  have "TotalShards (ae_profile env) \<le> int (listed ?f db' (fst e))" if e: "e \<in> set cids" for e
  proof (cases "fst e \<in> set (complete_segments (ae_profile env) ?ex)")
    case True
    obtain segs rows where "db' = db0\<lparr>segments := segments db0 @ segs, chunk_assignments := chunk_assignments db0 @ rows\<rparr>"
      using placements_extend [OF pl] by blast
    then have "listed ?f db0 (fst e) \<le> listed ?f db' (fst e)" by (simp add: listed_mono)
    with True same n show ?thesis by (simp add: complete_iff)
  next
    case False
    with e have "fst e \<in> set (new_segments (ae_profile env) ?ex cids)" by (simp add: new_segments_def)
    with eff res obtain s where s: "s \<in> set (segments db')" "s \<notin> set (segments db0)" "s_file_id s = ?f" "segment_index s = fst e" by blast
    from placements_new_segment [OF pl k0 s(1,2)] obtain cs ps where
      *: "map_of cids (segment_index s) = Some cs" "segment_at env db' s cs ps" by blast
    have "int (length cs) = TotalShards (ae_profile env)"
      using parseSegmentChunkIDs_sound(1) [OF parse] map_of_SomeD [OF *(1)] by (auto simp: submitted_def)
    moreover have "distinct (map provider_id (providers db'))" using placements_keys [OF pl k0] by (simp add: db_keys_def)
    ultimately show ?thesis using listed_placed [OF placed_segmentI [OF *(2)] _ s(1,3)] s(4) by simp
  qed
  moreover have "\<forall>f. find_file db' ?f = Some f \<longrightarrow> owner_id f = Subject c"
    using file_added_owner [OF added own] placements_file [OF pl] by simp
  ultimately show ?thesis using res by simp
qed

text \<open>
  C33: repeating an assignment is safe. After a call has been answered with assignments, the same request, made at any later time with
  any other random draws, is answered with the same segments on the same providers and changes nothing; only the tokens are new.
  It does not depend on readiness, escrow or capacity any more.
\<close>

theorem assign_retry_same_placement:
  assumes "env_ok env" and "db_keys db" and "1 \<le> TotalShards (ae_profile env)"
    and "HandleAssign env (Some c) (Some req) db = (Inr (st, resp), db')"
    and "ae_profile env' = ae_profile env" and "ae_ok env' AFileOwner" and "ae_ok env' ALoadExisting" and "ae_ok env' ALoadAfter"
  shows "\<exists>rows cost. resp = respondWithFreshTokens env rows cost \<and>
           HandleAssign env' (Some c) (Some req) db' = (Inr (200, respondWithFreshTokens env' rows cost), db')"
proof (cases rule: HandleAssign_effect [OF assms(1,2,4)])
  case 1
  then show ?thesis by blast
next
  case (2 c' req' cids db0)
  then have eqs: "c' = c" "req' = req" by simp_all
  let ?f = "uq_FileID req" and ?cost = "fileMonthlyCostPaiseForBytes (uq_OriginalSizeBytes req) (ae_profile env)"
  let ?rows = "ordered_rows (\<lambda>_. True) ?f db'"
  note fin = assign_body_done [OF assms(1-3) 2(4)[unfolded eqs] 2(5)[unfolded eqs]]
  have new: "new_segments (ae_profile env) ?rows cids = []"
    by (rule new_segments_complete) (use fin assms(3) in \<open>simp add: complete_iff\<close>)
  obtain e where "e \<in> set cids" using parseSegmentChunkIDs_sound(4) [OF 2(4)] by (cases cids) auto
  then have "listed ?f db' (fst e) \<noteq> 0" using fin assms(3) by fastforce
  then have ne: "?rows \<noteq> []" by (auto simp: listed_def)
  have owner: "fileOwnerID True ?f db' = Some None \<or> fileOwnerID True ?f db' = Some (Some (Subject c))"
    using fin by (cases "find_file db' ?f") (simp_all add: fileOwnerID_def)
  have "assign_body env' c req cids db' = (Inr (200, respondWithFreshTokens env' ?rows ?cost), db')"
    using new ne owner assms(5-8) by (auto simp: assign_body_def Let_def loadExistingAssignments_def assign_new_def)
  moreover have "HandleAssign env' (Some c) (Some req) db' = assign_body env' c req cids db'"
    using assms(4) 2(4)[unfolded eqs] assms(5) by (auto simp: HandleAssign_def split: if_splits option.splits)
  ultimately show ?thesis using fin by auto
qed

theorem assign_retry_same_placement_witness:
  "\<exists>resp db' rows cost. HandleAssign (sample_assign_env 1) (Some sample_owner) (Some sample_assign_request) sample_upload_db = (Inr (200, resp), db') \<and>
     resp = respondWithFreshTokens (sample_assign_env 1) rows cost \<and>
     HandleAssign (sample_assign_env (2 * hour)) (Some sample_owner) (Some sample_assign_request) db' =
       (Inr (200, respondWithFreshTokens (sample_assign_env (2 * hour)) rows cost), db')"
proof -
  obtain resp db' where run: "HandleAssign (sample_assign_env 1) (Some sample_owner) (Some sample_assign_request) sample_upload_db = (Inr (200, resp), db')"
    by (rule HandleAssign_accepts [OF sample_accepting]) (use sample_parse in \<open>simp_all add: sample_assign_request_def sample_assign_env_def\<close>)
  have "1 \<le> TotalShards (ae_profile (sample_assign_env 1))" by (simp add: sample_assign_env_def DemoProfile_def)
  from assign_retry_same_placement [OF sample_env sample_keys(1) this run, of "sample_assign_env (2 * hour)"] run
  show ?thesis by (simp add: sample_assign_env_def)
qed

lemma assign_segments_no_capacity: "fst (assign_segments env fileID cids over idxs db) \<noteq> Some (503, INSUFFICIENT_PROVIDER_CAPACITY)"
  by (induction env fileID cids over idxs db rule: assign_segments.induct) (auto split: prod.splits option.splits assign_error.splits)

text \<open>
  C35: a retry reserves the file's own cost twice. A first call that passes the escrow check but finds too few providers has already inserted the
  placeholder row of the file, which counts as an active file of the owner. When the same request is made again, the escrow check
  subtracts the cost of this very file from the balance and then asks for it once more: an owner whose balance covered the
  file the first time is refused.
\<close>

theorem retry_reserves_twice:
  assumes "HandleAssign env (Some c) (Some req) db = (Inl (503, INSUFFICIENT_PROVIDER_CAPACITY), db1)"
    and "find_file db (uq_FileID req) = None" and "uq_FileID req \<notin> s_file_id ` set (segments db)"
    and "mv_owner_escrow_balance db (Subject c) = Some b"
    and "b < fileMonthlyCostPaiseForBytes (active_bytes db (Subject c) + uq_OriginalSizeBytes req) (ae_profile env) +
             fileMonthlyCostPaiseForBytes (uq_OriginalSizeBytes req) (ae_profile env)"
    and "ae_profile env' = ae_profile env" and "ae_ok env' = (\<lambda>_. True)"
    and "Cached (ae_readiness env') = Some ready" and "AllConditionsMet ready"
  shows "HandleAssign env' (Some c) (Some req) db1 = (Inl (409, INSUFFICIENT_ESCROW_BALANCE), db1)"
proof -
  let ?cost = "fileMonthlyCostPaiseForBytes (uq_OriginalSizeBytes req) (ae_profile env)"
  let ?db = "db\<lparr>files := files db @ [placeholder_row (uq_FileID req) (Subject c) (uq_OriginalSizeBytes req)]\<rparr>"
  have "filter (\<lambda>s. s_file_id s = uq_FileID req) (segments db) = []" unfolding filter_empty_conv using assms(3) by (metis image_eqI)
  then have ex: "ordered_rows (\<lambda>_. True) (uq_FileID req) db = []" "ordered_rows (\<lambda>_. True) (uq_FileID req) ?db = []"
    by (simp_all add: ordered_rows_def join_rows_def)
  obtain cids where ok: "\<not> (uq_NumSegments req < minNumSegments \<or> uq_NumSegments req > maxNumSegments)" "\<not> uq_OriginalSizeBytes req < 1"
    "parseSegmentChunkIDs (uq_Segments req) (uq_NumSegments req) (TotalShards (ae_profile env)) = Some cids"
    and run: "assign_body env c req cids db = (Inl (503, INSUFFICIENT_PROVIDER_CAPACITY), db1)"
    using assms(1) by (auto simp: HandleAssign_def split: if_splits option.splits)
  obtain g db0 where gate: "first_call env c req ?cost db = (g, db0)" by fastforce
  have passed: "g = None \<Longrightarrow> db0 = ?db"
    using gate assms(2) by (auto simp: first_call_def createPlaceholderFile_def split: option.splits if_splits)
  have refused: "g \<noteq> Some (503, INSUFFICIENT_PROVIDER_CAPACITY)"
    using gate by (auto simp: first_call_def createPlaceholderFile_def split: option.splits if_splits)
  obtain r db2 where new: "assign_new env (uq_FileID req) cids (new_segments (ae_profile env) [] cids) db0 = (r, db2)" by fastforce
  have "g = None" "r = Some (503, INSUFFICIENT_PROVIDER_CAPACITY)" "db1 = db2"
    using run gate new refused ex(1)
    by (auto simp: assign_body_def Let_def fileOwnerID_def loadExistingAssignments_def split: option.splits if_splits)
  then have db1: "db1 = ?db"
    using new passed assign_segments_no_capacity by (auto simp: assign_new_def split: if_splits sum.splits) (metis fst_conv)
  have bytes: "active_bytes ?db (Subject c) = active_bytes db (Subject c) + uq_OriginalSizeBytes req"
    by (simp add: active_bytes_def placeholder_row_def)
  have "find_file ?db (uq_FileID req) = Some (placeholder_row (uq_FileID req) (Subject c) (uq_OriginalSizeBytes req))"
    by (rule find_file_placeholder [OF assms(2)])
  then have owner: "fileOwnerID True (uq_FileID req) ?db = Some (Some (Subject c))" by (simp add: fileOwnerID_def placeholder_row_def)
  have "first_call env' c req ?cost ?db = (Some (409, INSUFFICIENT_ESCROW_BALANCE), ?db)"
    using assms(4-) bytes by (simp add: first_call_def ownerBalanceAndReserved_def)
  then have "assign_body env' c req cids ?db = (Inl (409, INSUFFICIENT_ESCROW_BALANCE), ?db)"
    using owner ex(2) assms(6,7) by (simp add: assign_body_def Let_def loadExistingAssignments_def)
  then show ?thesis using ok assms(6) db1 by (simp add: HandleAssign_def)
qed

definition big_request :: uploadAssignRequestBody where
  "big_request = sample_assign_request\<lparr>uq_OriginalSizeBytes := bytesPerGB\<rparr>"

definition funded_db :: database where
  "funded_db = empty_db\<lparr>owner_public_key := (\<lambda>_. Some (replicate 32 5)), mv_owner_escrow_balance := (\<lambda>_. Some 100000)\<rparr>"

lemma gigabyte_cost: "fileMonthlyCostPaiseForBytes bytesPerGB DemoProfile = 100000" "fileMonthlyCostPaiseForBytes 0 DemoProfile = 0"
  by (simp_all add: fileMonthlyCostPaiseForBytes_def int64_of_float_def roundingHalf_def bytesPerGB_def DemoProfile_def floor_eq_iff)

lemma big_parse:
  "parseSegmentChunkIDs (uq_Segments big_request) 1 (TotalShards DemoProfile) = Some [(0, map sample_chunk [0, 1, 2, 3, 4])]"
  using sample_parse by (simp add: big_request_def) (simp add: sample_assign_request_def)

lemma big_request_refused:
  "\<exists>db1. HandleAssign (sample_assign_env 1) (Some sample_owner) (Some big_request) funded_db = (Inl (503, INSUFFICIENT_PROVIDER_CAPACITY), db1)"
proof -
  let ?db = "funded_db\<lparr>files := [placeholder_row (replicate 16 1) (replicate 16 9) bytesPerGB]\<rparr>"
  have f: "uq_FileID big_request = replicate 16 1" "uq_OriginalSizeBytes big_request = bytesPerGB" "uq_NumSegments big_request = 1"
    "Subject sample_owner = replicate 16 9"
    by (simp_all add: big_request_def sample_assign_request_def sample_owner_def)
  have gate: "first_call (sample_assign_env 1) sample_owner big_request 100000 funded_db = (None, ?db)"
    using gigabyte_cost
    by (simp add: first_call_def sample_assign_env_def sample_ready_def Cached_def ownerBalanceAndReserved_def
        createPlaceholderFile_def f funded_db_def active_bytes_def empty_db_def find_file_def bytesPerGB_def)
  have ord: "ordered_rows (\<lambda>_. True) (uq_FileID big_request) funded_db = []"
    by (simp add: ordered_rows_def join_rows_def funded_db_def empty_db_def)
  have cap: "enforceProviderCapacity (\<lambda>_. True) ?db m (MinActiveProviders DemoProfile) = Inl (503, INSUFFICIENT_PROVIDER_CAPACITY)" for m
    by (simp add: enforceProviderCapacity_def providersAtOrOverChunkCount_def eligibleActiveProviderCountAtOrUnder_def funded_db_def
        empty_db_def DemoProfile_def)
  have new: "new_segments DemoProfile [] [(0, cs)] = [0]" for cs by (simp add: new_segments_def complete_segments_def)
  have "assign_body (sample_assign_env 1) sample_owner big_request [(0, map sample_chunk [0, 1, 2, 3, 4])] funded_db =
      (Inl (503, INSUFFICIENT_PROVIDER_CAPACITY), ?db)"
    using gate ord cap
    by (simp add: assign_body_def Let_def fileOwnerID_def loadExistingAssignments_def assign_new_def sample_assign_env_def new f gigabyte_cost(1))
      (simp add: funded_db_def empty_db_def find_file_def)
  then show ?thesis using big_parse
    by (simp add: HandleAssign_def f minNumSegments_def maxNumSegments_def sample_assign_env_def bytesPerGB_def)
qed

theorem retry_reserves_twice_witness:
  "\<exists>db1. HandleAssign (sample_assign_env 1) (Some sample_owner) (Some big_request) funded_db = (Inl (503, INSUFFICIENT_PROVIDER_CAPACITY), db1) \<and>
     HandleAssign (sample_assign_env 2) (Some sample_owner) (Some big_request) db1 = (Inl (409, INSUFFICIENT_ESCROW_BALANCE), db1)"
proof -
  obtain db1 where run: "HandleAssign (sample_assign_env 1) (Some sample_owner) (Some big_request) funded_db = (Inl (503, INSUFFICIENT_PROVIDER_CAPACITY), db1)"
    using big_request_refused by blast
  have "HandleAssign (sample_assign_env 2) (Some sample_owner) (Some big_request) db1 = (Inl (409, INSUFFICIENT_ESCROW_BALANCE), db1)"
    by (rule retry_reserves_twice [OF run, of 100000 _ sample_response])
      (simp_all add: funded_db_def empty_db_def find_file_def active_bytes_def big_request_def sample_assign_env_def sample_ready_def
        Cached_def gigabyte_cost)
  with run show ?thesis by blast
qed

subsection \<open>Lemmas: the shape of a response\<close>

lemma map_of_add_row:
  "map_of (add_row i sid b gs) j =
     (if j = i then Some (case map_of gs i of None \<Rightarrow> (sid, [b]) | Some (s, bs) \<Rightarrow> (s, bs @ [b])) else map_of gs j)"
  by (induction i sid b gs rule: add_row.induct) auto

lemma fst_add_row: "map fst (add_row i sid b gs) = (if i \<in> fst ` set gs then map fst gs else map fst gs @ [i])"
  by (induction i sid b gs rule: add_row.induct) auto

lemma group_rows_snoc: "group_rows f (rows @ [r]) = add_row (ex_segmentIndex r) (ex_segmentID r) (f r) (group_rows f rows)"
  by (simp add: group_rows_def)

lemma group_rows_Nil [simp]: "group_rows f [] = []"
  by (simp add: group_rows_def)

lemma map_of_group_rows:
  "map_of (group_rows f rows) i =
     (case filter (\<lambda>r. ex_segmentIndex r = i) rows of [] \<Rightarrow> None | r # rs \<Rightarrow> Some (ex_segmentID r, map f (r # rs)))"
  by (induction rows rule: rev_induct) (auto simp: group_rows_snoc map_of_add_row split: list.split)

lemma set_fst_group_rows: "fst ` set (group_rows f rows) = ex_segmentIndex ` set rows"
proof (induction rows rule: rev_induct)
  case (snoc r rows)
  have "fst ` set (group_rows f (rows @ [r])) = set (map fst (group_rows f (rows @ [r])))" by simp
  also have "\<dots> = insert (ex_segmentIndex r) (fst ` set (group_rows f rows))"
    unfolding group_rows_snoc fst_add_row by auto
  finally show ?case by (simp add: snoc)
qed simp

lemma sorted_group_rows:
  assumes "sorted (map ex_segmentIndex rows)"
  shows "sorted (map fst (group_rows f rows)) \<and> distinct (map fst (group_rows f rows))"
  using assms
proof (induction rows rule: rev_induct)
  case (snoc r rows)
  then have IH: "sorted (map fst (group_rows f rows))" "distinct (map fst (group_rows f rows))" by (simp_all add: sorted_append)
  have "\<forall>i\<in>fst ` set (group_rows f rows). i \<le> ex_segmentIndex r"
    using snoc.prems by (auto simp: set_fst_group_rows sorted_append)
  with IH show ?case by (auto simp: group_rows_snoc fst_add_row sorted_append)
qed simp

lemma sorted_ordered_rows: "sorted (map ex_segmentIndex (ordered_rows keep fileID db))"
  by (simp add: ordered_rows_def)

text \<open>A group is the list of the rows with its index.\<close>

lemma group_rows_entry:
  assumes "sorted (map ex_segmentIndex rows)" and "(i, sid, bs) \<in> set (group_rows f rows)"
  shows "bs = map f (filter (\<lambda>r. ex_segmentIndex r = i) rows) \<and> bs \<noteq> []"
proof -
  have "map_of (group_rows f rows) i = Some (sid, bs)"
    using assms(2) sorted_group_rows [OF assms(1), of f] by (intro map_of_is_SomeI) simp_all
  then show ?thesis by (auto simp: map_of_group_rows split: list.splits)
qed

lemma length_generateCapabilityToken: "length (generateCapabilityToken sha sign key c p now) = capabilityTokenByteLen"
  by (simp add: generateCapabilityToken_def Let_def SignBytes_def capabilityTokenByteLen_def)

lemma join_rows_chunk:
  assumes "r \<in> set (ordered_rows keep fileID db)"
  shows "\<exists>a\<in>set (chunk_assignments db). a_chunk_id a = ex_chunkID r \<and> shard_index a = Some (ex_shardIndex r) \<and> \<not> is_vetting_chunk a"
  using assms by (auto simp: ordered_rows_def join_rows_def split: option.splits)

subsection \<open>Properties: acceptance\<close>

lemma rows_of_index: "r \<in> set (rows_of keep db s) \<Longrightarrow> ex_segmentIndex r = segment_index s"
  by (auto simp: rows_of_def shard_of_def split: option.splits)

lemma rows_of_segment: "r \<in> set (rows_of keep db s) \<Longrightarrow> ex_segmentID r = segment_id s"
  by (auto simp: rows_of_def shard_of_def split: option.splits)

lemma concat_single: "distinct is \<Longrightarrow> i \<in> set is \<Longrightarrow> concat (map (\<lambda>j. if j = i then f j else []) is) = f i"
proof (induction "is")
  case (Cons j "is")
  have "concat (map (\<lambda>j. if j = i then f j else []) is) = []" if "i \<notin> set is" using that by (auto simp: concat_eq_Nil_conv)
  with Cons show ?case by (cases "i = j") auto
qed simp

text \<open>The rows and the groups of a file whose segments are all placed.\<close>

lemma segment_rows:
  assumes segs: "filter (\<lambda>s. s_file_id s = fileID) (segments db) = map sg idxs" and idxs: "distinct idxs"
    and placed: "\<forall>i\<in>set idxs. segment_index (sg i) = i \<and> placed_segment db (sg i) (cs i) (ps i)"
    and keys: "distinct (map provider_id (providers db))" and i: "i \<in> set idxs"
  shows "filter (\<lambda>r. ex_segmentIndex r = i) (ordered_rows (\<lambda>_. True) fileID db) =
    map (shard_at db (sg i)) (zip [0..<length (cs i)] (zip (cs i) (ps i)))"
proof -
  let ?P = "\<lambda>r. ex_segmentIndex r = i" and ?R = "rows_of (\<lambda>_. True) db (sg i)"
  have "filter ?P (join_rows (\<lambda>_. True) fileID db) = concat (map (\<lambda>j. filter ?P (rows_of (\<lambda>_. True) db (sg j))) idxs)"
    by (simp add: join_rows_alt segs filter_concat comp_def)
  also have "map (\<lambda>j. filter ?P (rows_of (\<lambda>_. True) db (sg j))) idxs = map (\<lambda>j. if j = i then rows_of (\<lambda>_. True) db (sg j) else []) idxs"
    using placed by (intro map_cong) (auto simp: filter_empty_conv filter_id_conv dest!: rows_of_index)
  also have "concat \<dots> = ?R" by (rule concat_single [OF idxs i])
  finally have join: "filter ?P (join_rows (\<lambda>_. True) fileID db) = ?R" .
  have pl: "placed_segment db (sg i) (cs i) (ps i)" and len: "length (ps i) = length (cs i)"
    using placed i by (auto simp: placed_segment_def)
  have R: "?R = map (shard_at db (sg i)) (zip [0..<length (cs i)] (zip (cs i) (ps i)))"
    by (rule rows_of_placed [OF pl keys]) simp
  have "map ex_shardIndex ?R = [0..<length (cs i)]" unfolding R using len by (intro nth_equalityI) simp_all
  then have "sort_key ex_shardIndex ?R = ?R" by (intro sort_key_id_if_sorted) simp
  moreover have "map ex_segmentIndex ?R = replicate (length ?R) (segment_index (sg i))"
    by (intro nth_equalityI) (simp_all add: rows_of_index [OF nth_mem])
  then have "sorted (map ex_segmentIndex ?R)" by simp
  ultimately have "filter ?P (ordered_rows (\<lambda>_. True) fileID db) = ?R"
    unfolding ordered_rows_def by (simp add: filter_sort join sort_key_id_if_sorted)
  with R show ?thesis by simp
qed

lemma segment_groups:
  assumes segs: "filter (\<lambda>s. s_file_id s = fileID) (segments db) = map sg idxs" and idxs: "distinct idxs" "sorted idxs"
    and placed: "\<forall>i\<in>set idxs. segment_index (sg i) = i \<and> placed_segment db (sg i) (cs i) (ps i) \<and> cs i \<noteq> []"
    and keys: "distinct (map provider_id (providers db))"
  shows "group_rows f (ordered_rows (\<lambda>_. True) fileID db) =
    map (\<lambda>i. (i, segment_id (sg i), map (f \<circ> shard_at db (sg i)) (zip [0..<length (cs i)] (zip (cs i) (ps i))))) idxs"
proof -
  let ?rows = "ordered_rows (\<lambda>_. True) fileID db"
  let ?gs = "group_rows f ?rows" and ?z = "\<lambda>i. zip [0..<length (cs i)] (zip (cs i) (ps i))"
  note sd = sorted_group_rows [OF sorted_ordered_rows, of f "\<lambda>_. True" fileID db]
  have placed': "\<forall>i\<in>set idxs. segment_index (sg i) = i \<and> placed_segment db (sg i) (cs i) (ps i)" using placed by blast
  note sel = segment_rows [OF segs idxs(1) placed' keys]
  have ne: "?z i \<noteq> []" if "i \<in> set idxs" for i using placed that by (auto simp: placed_segment_def zip_eq_Nil_iff)
  have "ex_segmentIndex ` set ?rows = set idxs"
  proof (intro equalityI subsetI)
    fix k assume "k \<in> ex_segmentIndex ` set ?rows"
    then show "k \<in> set idxs" using placed by (auto simp: ordered_rows_def join_rows_alt segs dest!: rows_of_index)
  next
    fix k assume k: "k \<in> set idxs"
    then have "filter (\<lambda>r. ex_segmentIndex r = k) ?rows \<noteq> []" using sel [OF k] ne [OF k] by simp
    then show "k \<in> ex_segmentIndex ` set ?rows" by (auto simp: filter_empty_conv)
  qed
  then have fsts: "map fst ?gs = idxs"
    using sd idxs set_fst_group_rows [of f ?rows] by (intro sorted_distinct_set_unique) simp_all
  have len: "length ?gs = length idxs" using arg_cong [OF fsts, of length] by simp
  have nth: "?gs ! n = (idxs ! n, segment_id (sg (idxs ! n)), map (f \<circ> shard_at db (sg (idxs ! n))) (?z (idxs ! n)))"
    if n: "n < length idxs" for n
  proof -
    obtain k sid bs where e: "?gs ! n = (k, sid, bs)" by (metis prod_cases3)
    have k: "k = idxs ! n" using arg_cong [OF fsts, of "\<lambda>l. l ! n"] n len e by simp
    have i: "idxs ! n \<in> set idxs" using n by simp
    have "(k, sid, bs) \<in> set ?gs" using nth_mem [of n ?gs] n len e by simp
    then have "map_of ?gs (idxs ! n) = Some (sid, bs)" using sd k by (intro map_of_is_SomeI) simp_all
    moreover obtain z zs where z: "?z (idxs ! n) = z # zs" using ne [OF i] by (cases "?z (idxs ! n)") auto
    ultimately have "sid = segment_id (sg (idxs ! n)) \<and> bs = map f (map (shard_at db (sg (idxs ! n))) (?z (idxs ! n)))"
      by (cases z) (auto simp: map_of_group_rows sel [OF i])
    with e k show ?thesis by simp
  qed
  show ?thesis by (intro nth_equalityI) (use len nth in simp_all)
qed

lemma shard_body_fields:
  "sa_ShardIndex (shard_body env (shard_at db s (j, c, p))) = j" "sa_ProviderID (shard_body env (shard_at db s (j, c, p))) = p"
  "sa_ChunkID (shard_body env (shard_at db s (j, c, p))) = hex_encode c"
  "sa_CapabilityToken (shard_body env (shard_at db s (j, c, p))) =
     hex_encode (generateCapabilityToken (ae_sha env) (ae_sign env) (ae_signingKey env) c p (ae_now env))"
  "find_provider db p = Some r \<Longrightarrow> sa_Multiaddrs (shard_body env (shard_at db s (j, c, p))) = last_known_multiaddrs r"
  by (simp_all add: shard_body_def) (simp add: shard_at_def)

lemma accepted_response:
  assumes "accepting env c req cids db" and "1 \<le> TotalShards (ae_profile env)"
    and parse: "parseSegmentChunkIDs (uq_Segments req) (uq_NumSegments req) (TotalShards (ae_profile env)) = Some cids"
    and segs: "segments db' = segments db @ map (new_segment env (uq_FileID req)) (sort (map fst cids))"
    and at: "\<forall>(i, cs)\<in>set cids. segment_at env db' (new_segment env (uq_FileID req) i) cs (ps i)" and keys: "db_keys db'"
  shows "ur_Assignments (respondWithFreshTokens env (ordered_rows (\<lambda>_. True) (uq_FileID req) db') cost) =
    map (\<lambda>i. \<lparr>sg_SegmentIndex = i, sg_SegmentID = ae_fresh env i,
               sg_Providers = map (shard_body env \<circ> shard_at db' (new_segment env (uq_FileID req) i))
                 (zip [0..<length (the (map_of cids i))] (zip (the (map_of cids i)) (ps i)))\<rparr>) (sort (map fst cids))"
proof -
  note p = parseSegmentChunkIDs_sound [OF parse]
  have "filter (\<lambda>s. s_file_id s = uq_FileID req) (segments db) = []"
    using assms(1) unfolding accepting_def filter_empty_conv by (metis image_eqI)
  then have fs: "filter (\<lambda>s. s_file_id s = uq_FileID req) (segments db') = map (new_segment env (uq_FileID req)) (sort (map fst cids))"
    by (simp add: segs filter_id_conv new_segment_def)
  have pl: "\<forall>i\<in>set (sort (map fst cids)). segment_index (new_segment env (uq_FileID req) i) = i \<and>
      placed_segment db' (new_segment env (uq_FileID req) i) (the (map_of cids i)) (ps i) \<and> the (map_of cids i) \<noteq> []"
  proof
    fix i assume "i \<in> set (sort (map fst cids))"
    then obtain cs where e: "(i, cs) \<in> set cids" by auto
    then have m: "map_of cids i = Some cs" using p(2) by simp
    have "int (length cs) = TotalShards (ae_profile env)" using p(1) e by (auto simp: submitted_def)
    with assms(2) have "cs \<noteq> []" by auto
    moreover have "placed_segment db' (new_segment env (uq_FileID req) i) cs (ps i)" using at e placed_segmentI by fast
    ultimately show "segment_index (new_segment env (uq_FileID req) i) = i \<and>
      placed_segment db' (new_segment env (uq_FileID req) i) (the (map_of cids i)) (ps i) \<and> the (map_of cids i) \<noteq> []"
      using m by (simp add: new_segment_def)
  qed
  have "distinct (map provider_id (providers db'))" using keys by (simp add: db_keys_def)
  from segment_groups [OF fs _ _ pl this, of "shard_body env"] p(2) show ?thesis
    by (simp add: respondWithFreshTokens_def comp_def new_segment_def)
qed

text \<open>
  C31: an acceptable upload is accepted and placed. If the network is ready, the owner can pay, the identifiers are new and for a
  segment there are as many eligible providers below the storage ceiling, each in its own autonomous system, as the code has shards,
  then the request is answered, whatever the random draws. The file is then recorded for its owner, every submitted segment is in the
  database with one row per submitted chunk identifier, on pairwise different eligible providers, and the answer lists exactly
  these segments in ascending order and for each of them the shards with their indices, providers, chunk
  identifiers and tokens minted for them.
\<close>

theorem assign_succeeds:
  assumes "accepting env c req cids db" and "1 \<le> uq_OriginalSizeBytes req"
    and "1 \<le> uq_NumSegments req" and "uq_NumSegments req \<le> 10000" and "1 \<le> TotalShards (ae_profile env)"
    and "parseSegmentChunkIDs (uq_Segments req) (uq_NumSegments req) (TotalShards (ae_profile env)) = Some cids"
  shows "\<exists>resp db' ps. HandleAssign env (Some c) (Some req) db = (Inr (200, resp), db') \<and>
    find_file db' (uq_FileID req) = Some (placeholder_row (uq_FileID req) (Subject c) (uq_OriginalSizeBytes req)) \<and>
    segments db' = segments db @
      map (\<lambda>i. \<lparr>segment_id = ae_fresh env i, s_file_id = uq_FileID req, segment_index = i\<rparr>) (sort (map fst cids)) \<and>
    (\<forall>(i, cs)\<in>set cids. length (ps i) = length cs \<and> distinct (ps i) \<and>
       filter (\<lambda>a. a_segment_id a = Some (ae_fresh env i)) (chunk_assignments db') =
         map (\<lambda>(j, k, p). shard_row k (ae_fresh env i) j p) (zip [0..<length cs] (zip cs (ps i))) \<and>
       (\<forall>p\<in>set (ps i). \<exists>r\<in>set (providers db). provider_id r = p \<and> eligible (ae_now env) [] r)) \<and>
    map (\<lambda>g. (sg_SegmentIndex g, sg_SegmentID g)) (ur_Assignments resp) = map (\<lambda>i. (i, ae_fresh env i)) (sort (map fst cids)) \<and>
    (\<forall>g\<in>set (ur_Assignments resp). \<forall>cs. map_of cids (sg_SegmentIndex g) = Some cs \<longrightarrow>
       map (\<lambda>b. (sa_ShardIndex b, sa_ChunkID b, sa_ProviderID b, sa_CapabilityToken b)) (sg_Providers g) =
         map (\<lambda>(j, k, p). (j, hex_encode k, p,
                hex_encode (generateCapabilityToken (ae_sha env) (ae_sign env) (ae_signingKey env) k p (ae_now env))))
           (zip [0..<length cs] (zip cs (ps (sg_SegmentIndex g))))) \<and>
    ur_MonthlyCostPaise resp = fileMonthlyCostPaiseForBytes (uq_OriginalSizeBytes req) (ae_profile env)"
proof -
  let ?f = "uq_FileID req" and ?cost = "fileMonthlyCostPaiseForBytes (uq_OriginalSizeBytes req) (ae_profile env)"
  obtain db' ps where run: "assign_body env c req cids db = (Inr (200, respondWithFreshTokens env (ordered_rows (\<lambda>_. True) ?f db') ?cost), db')"
    and segs: "segments db' = segments db @ map (new_segment env ?f) (sort (map fst cids))"
    and at: "\<forall>(i, cs)\<in>set cids. segment_at env db' (new_segment env ?f i) cs (ps i)"
    and registered: "find_file db' ?f = Some (placeholder_row ?f (Subject c) (uq_OriginalSizeBytes req))"
    and keys: "db_keys db'" and prov: "providers db' = providers db"
    by (rule assign_body_new_file [OF assms(1,2,6)])
  let ?resp = "respondWithFreshTokens env (ordered_rows (\<lambda>_. True) ?f db') ?cost"
  have handle: "HandleAssign env (Some c) (Some req) db = (Inr (200, ?resp), db')"
    using run assms(2-4,6) by (simp add: HandleAssign_def minNumSegments_def maxNumSegments_def)
  note resp = accepted_response [OF assms(1,5,6) segs at keys, of ?cost]
  have rows: "\<forall>(i, cs)\<in>set cids. length (ps i) = length cs \<and> distinct (ps i) \<and>
       filter (\<lambda>a. a_segment_id a = Some (ae_fresh env i)) (chunk_assignments db') =
         map (\<lambda>(j, k, p). shard_row k (ae_fresh env i) j p) (zip [0..<length cs] (zip cs (ps i))) \<and>
       (\<forall>p\<in>set (ps i). \<exists>r\<in>set (providers db). provider_id r = p \<and> eligible (ae_now env) [] r)"
    using at prov by (auto simp: segment_at_def new_segment_def shard_rows_def good_provider_def)
  have groups: "map (\<lambda>g. (sg_SegmentIndex g, sg_SegmentID g)) (ur_Assignments ?resp) = map (\<lambda>i. (i, ae_fresh env i)) (sort (map fst cids))"
    unfolding resp by (simp add: comp_def)
  have shards: "\<forall>g\<in>set (ur_Assignments ?resp). \<forall>cs. map_of cids (sg_SegmentIndex g) = Some cs \<longrightarrow>
       map (\<lambda>b. (sa_ShardIndex b, sa_ChunkID b, sa_ProviderID b, sa_CapabilityToken b)) (sg_Providers g) =
         map (\<lambda>(j, k, p). (j, hex_encode k, p,
                hex_encode (generateCapabilityToken (ae_sha env) (ae_sign env) (ae_signingKey env) k p (ae_now env))))
           (zip [0..<length cs] (zip cs (ps (sg_SegmentIndex g))))"
    unfolding resp by (auto simp: shard_body_fields)
  have "ur_MonthlyCostPaise ?resp = ?cost" by (simp add: respondWithFreshTokens_def)
  with handle registered segs rows groups shards show ?thesis
    by (intro exI [of _ ?resp] exI [of _ db'] exI [of _ ps]) (simp add: new_segment_def [abs_def])
qed

theorem assign_succeeds_witness:
  "\<exists>resp db' ps. HandleAssign (sample_assign_env 1) (Some sample_owner) (Some sample_assign_request) sample_upload_db = (Inr (200, resp), db') \<and>
     map (\<lambda>g. (sg_SegmentIndex g, sg_SegmentID g)) (ur_Assignments resp) = [(0, replicate 16 7)] \<and>
     length (ps 0) = 5 \<and> distinct (ps 0) \<and>
     filter (\<lambda>a. a_segment_id a = Some (replicate 16 7)) (chunk_assignments db') =
       map (\<lambda>(j, k, p). shard_row k (replicate 16 7) j p) (zip [0..<5] (zip (map sample_chunk [0, 1, 2, 3, 4]) (ps (0 :: int))))"
proof -
  let ?cids = "[(0, map sample_chunk [0, 1, 2, 3, 4])] :: (int \<times> byte list list) list"
  have e: "ae_profile (sample_assign_env 1) = DemoProfile" "ae_fresh (sample_assign_env 1) 0 = replicate 16 7"
    by (simp_all add: sample_assign_env_def)
  have r: "1 \<le> uq_OriginalSizeBytes sample_assign_request" "1 \<le> uq_NumSegments sample_assign_request"
    "uq_NumSegments sample_assign_request \<le> 10000" "1 \<le> TotalShards (ae_profile (sample_assign_env 1))"
    by (simp_all add: sample_assign_request_def e DemoProfile_def)
  have five: "length (map sample_chunk [0, 1, 2, 3, 4]) = 5" by simp
  from assign_succeeds [OF sample_accepting r, unfolded e, OF sample_parse] obtain resp db' ps where
    w: "HandleAssign (sample_assign_env 1) (Some sample_owner) (Some sample_assign_request) sample_upload_db = (Inr (200, resp), db')"
      "\<forall>(i, cs)\<in>set ?cids. length (ps i) = length cs \<and> distinct (ps i) \<and>
         filter (\<lambda>a. a_segment_id a = Some (ae_fresh (sample_assign_env 1) i)) (chunk_assignments db') =
           map (\<lambda>(j, k, p). shard_row k (ae_fresh (sample_assign_env 1) i) j p) (zip [0..<length cs] (zip cs (ps i))) \<and>
         (\<forall>p\<in>set (ps i). \<exists>r\<in>set (providers sample_upload_db). provider_id r = p \<and> eligible (ae_now (sample_assign_env 1)) [] r)"
      "map (\<lambda>g. (sg_SegmentIndex g, sg_SegmentID g)) (ur_Assignments resp) = map (\<lambda>i. (i, ae_fresh (sample_assign_env 1) i)) (sort (map fst ?cids))"
    by (elim exE conjE) (rule that)
  from bspec [OF w(2), of "(0, map sample_chunk [0, 1, 2, 3, 4])", simplified prod.case five e]
  have placed: "length (ps 0) = 5" "distinct (ps 0)"
     "filter (\<lambda>a. a_segment_id a = Some (replicate 16 7)) (chunk_assignments db') =
       map (\<lambda>(j, k, p). shard_row k (replicate 16 7) j p) (zip [0..<5] (zip (map sample_chunk [0, 1, 2, 3, 4]) (ps 0)))"
    by (simp_all only: list.set insertI1 simp_thms)
  have groups: "map (\<lambda>g. (sg_SegmentIndex g, sg_SegmentID g)) (ur_Assignments resp) = [(0, replicate 16 7)]"
    using w(3) by (simp add: e)
  show ?thesis by (rule exI [of _ resp], rule exI [of _ db'], rule exI [of _ ps]) (intro conjI w(1) groups placed)
qed

subsection \<open>Properties: the response\<close>

text \<open>The checks of the schema on a stored shard row.\<close>

definition rows_typed :: "NetworkProfile \<Rightarrow> database \<Rightarrow> bool" where
  "rows_typed profile db \<longleftrightarrow>
     (\<forall>a\<in>set (chunk_assignments db). length (a_chunk_id a) = 32 \<and>
        (\<not> is_vetting_chunk a \<longrightarrow> (\<exists>i. shard_index a = Some i \<and> int i < TotalShards profile)))"

definition well_typed_shard :: "NetworkProfile \<Rightarrow> ShardAssignmentBody \<Rightarrow> bool" where
  "well_typed_shard profile sa \<longleftrightarrow>
     int (sa_ShardIndex sa) < TotalShards profile \<and> canonical_hex 32 (sa_ChunkID sa) \<and> canonical_hex 72 (sa_CapabilityToken sa)"

definition well_typed_response :: "NetworkProfile \<Rightarrow> uploadAssignResponseBody \<Rightarrow> bool" where
  "well_typed_response profile resp \<longleftrightarrow>
     sorted (map sg_SegmentIndex (ur_Assignments resp)) \<and> distinct (map sg_SegmentIndex (ur_Assignments resp)) \<and>
     list_all (\<lambda>seg. sg_Providers seg \<noteq> [] \<and> list_all (well_typed_shard profile) (sg_Providers seg)) (ur_Assignments resp)"

lemma canonical_hex_encoded: "length b = n \<Longrightarrow> canonical_hex n (hex_encode b)"
  by (simp add: canonical_hex_def)

lemma well_typed_respond:
  assumes "rows_typed (ae_profile env) db"
  shows "well_typed_response (ae_profile env) (respondWithFreshTokens env (ordered_rows keep fileID db) cost)"
proof -
  let ?rows = "ordered_rows keep fileID db"
  let ?gs = "group_rows (shard_body env) ?rows"
  have idx: "map sg_SegmentIndex (ur_Assignments (respondWithFreshTokens env ?rows cost)) = map fst ?gs"
    by (simp add: respondWithFreshTokens_def comp_def split_beta)
  have shard: "well_typed_shard (ae_profile env) (shard_body env r)" if "r \<in> set ?rows" for r
    using join_rows_chunk [OF that] assms
    by (fastforce simp: well_typed_shard_def shard_body_def rows_typed_def length_generateCapabilityToken capabilityTokenByteLen_def intro!: canonical_hex_encoded)
  have "bs \<noteq> [] \<and> list_all (well_typed_shard (ae_profile env)) bs" if "(i, sid, bs) \<in> set ?gs" for i sid bs
    using group_rows_entry [OF sorted_ordered_rows that] shard by (auto simp: list_all_iff)
  then show ?thesis
    using sorted_group_rows [OF sorted_ordered_rows, of "shard_body env" keep fileID db] unfolding well_typed_response_def idx
    by (auto simp: respondWithFreshTokens_def list_all_iff)
qed

lemma placements_typed:
  assumes "placements env f cids d d'" and "\<forall>e\<in>set cids. int (length (snd e)) = TotalShards (ae_profile env)"
    and "rows_typed (ae_profile env) d"
  shows "rows_typed (ae_profile env) d'"
  using assms
proof (induction rule: placements.induct)
  case (more sid segIdx cs ps d d')
  have "int (length cs) = TotalShards (ae_profile env)" using more.prems(1) map_of_SomeD [OF more.hyps(2)] by fastforce
  then have "rows_typed (ae_profile env) (place f sid segIdx cs ps d)" using more.hyps(1) more.prems(2)
    by (auto simp: rows_typed_def place_def place_ok_def shard_rows_def shard_row_def list_all_iff elim!: in_set_zipE)
  with more show ?case by blast
qed

text \<open>
  C34: responses are well typed. When the stored rows satisfy the checks of the schema, every answer of the assignment endpoint lists each segment once, in
  ascending order, with at least one shard, and every shard has an index below \<open>TotalShards\<close>, a chunk identifier of 32
  bytes and a capability token of 72 bytes in lower-case hexadecimal; and the rows still satisfy the checks.
\<close>

theorem assign_response_typed:
  assumes "env_ok env" and "db_keys db" and "rows_typed (ae_profile env) db" and "HandleAssign env claims body db = (res, db')"
  shows "rows_typed (ae_profile env) db' \<and> (\<forall>st resp. res = Inr (st, resp) \<longrightarrow> st = 200 \<and> well_typed_response (ae_profile env) resp)"
proof (cases rule: HandleAssign_effect [OF assms(1,2,4)])
  case 1
  with assms(3) show ?thesis by auto
next
  case (2 c req cids db0)
  have sub: "\<forall>e\<in>set cids. int (length (snd e)) = TotalShards (ae_profile env)"
    using parseSegmentChunkIDs_sound(1) [OF 2(4)] by (simp add: submitted_def)
  have kept: "rows_typed (ae_profile env) db0" using assms(3) file_added_frame [OF 2(6)] by (simp add: rows_typed_def)
  have typed: "rows_typed (ae_profile env) db'" by (rule placements_typed [OF 2(7) sub kept])
  have "st = 200 \<and> (\<exists>cost. resp = respondWithFreshTokens env (ordered_rows (\<lambda>_. True) (uq_FileID req) db') cost)" if "res = Inr (st, resp)" for st resp
    using 2(5) that
    by (auto simp: assign_body_def Let_def loadExistingAssignments_def split: option.splits if_splits prod.splits)
  with typed well_typed_respond [OF typed] show ?thesis by blast
qed

theorem assign_response_typed_witness:
  "\<exists>resp db'. HandleAssign (sample_assign_env 1) (Some sample_owner) (Some sample_assign_request) sample_upload_db = (Inr (200, resp), db') \<and>
     well_typed_response DemoProfile resp"
proof -
  obtain resp db' where run: "HandleAssign (sample_assign_env 1) (Some sample_owner) (Some sample_assign_request) sample_upload_db = (Inr (200, resp), db')"
    by (rule HandleAssign_accepts [OF sample_accepting]) (use sample_parse in \<open>simp_all add: sample_assign_request_def sample_assign_env_def\<close>)
  have p: "ae_profile (sample_assign_env 1) = DemoProfile" by (simp add: sample_assign_env_def)
  have "rows_typed (ae_profile (sample_assign_env 1)) sample_upload_db" by (simp add: rows_typed_def sample_upload_db_def empty_db_def)
  from assign_response_typed [OF sample_env sample_keys(1) this run] run show ?thesis unfolding p by blast
qed

end
