(* ===== verification/Multiaddr.thy ===== *)
theory Multiaddr
  imports Prelude
begin

text \<open>
  Peer addresses as the client reads them: \<^verbatim>\<open>ParseMultiaddr\<close> of \<^verbatim>\<open>internal/p2p/types.go\<close> and the resolution of a peer from the
  addresses of an assignment, which \<^verbatim>\<open>internal/client/upload/transfer.go\<close> and \<^verbatim>\<open>internal/client/retrieve/download.go\<close> have in
  the same form. Strings are read byte by byte, as Go's \<^verbatim>\<open>strings\<close> and \<^verbatim>\<open>strconv\<close> do on these inputs.
\<close>

subsection \<open>String functions\<close>

fun split_slash :: "string \<Rightarrow> string list" where
  "split_slash [] = [[]]"
| "split_slash (c # s) =
     (if c = CHR ''/'' then [] # split_slash s
      else case split_slash s of [] \<Rightarrow> [[c]] | w # ws \<Rightarrow> (c # w) # ws)"

definition trim_slash :: "string \<Rightarrow> string" where
  "trim_slash s = rev (dropWhile (\<lambda>c. c = CHR ''/'') (rev (dropWhile (\<lambda>c. c = CHR ''/'') s)))"

definition last_index :: "string \<Rightarrow> string \<Rightarrow> nat option" where
  "last_index s sub =
     (case rev (filter (\<lambda>i. take (length sub) (drop i s) = sub) [0..<Suc (length s)]) of [] \<Rightarrow> None | i # _ \<Rightarrow> Some i)"

definition digit :: "char \<Rightarrow> bool" where
  "digit c \<longleftrightarrow> 48 \<le> (of_char c :: nat) \<and> (of_char c :: nat) \<le> 57"

definition digits_value :: "string \<Rightarrow> int" where
  "digits_value s = foldl (\<lambda>n c. 10 * n + (int (of_char c) - 48)) 0 s"

text \<open>\<^verbatim>\<open>strconv.Atoi\<close>: an optional sign and at least one digit; a value outside 64 bits is an error.\<close>

definition go_atoi :: "string \<Rightarrow> int option" where
  "go_atoi s =
     (let neg = (s \<noteq> [] \<and> hd s = CHR ''-'');
          ds = (if s \<noteq> [] \<and> (hd s = CHR ''-'' \<or> hd s = CHR ''+'') then tl s else s);
          n = (if neg then - digits_value ds else digits_value ds)
      in if ds = [] \<or> \<not> list_all digit ds \<or> n < - (2 ^ 63) \<or> 2 ^ 63 \<le> n then None else Some n)"

subsection \<open>Addresses\<close>

record multiaddr =
  ma_raw :: string
  ma_network :: string
  ma_hostport :: string
  ma_isRelay :: bool
  ma_relayTo :: string

datatype multiaddr_error =
    TooFewSegments | MalformedRelay | TooFewDirect | UnsupportedFamily string | UnsupportedTransport string | InvalidPort string

definition minRelayMultiaddrSegments :: nat where "minRelayMultiaddrSegments = 2"
definition minDirectMultiaddrSegments :: nat where "minDirectMultiaddrSegments = 4"
definition minValidPort :: int where "minValidPort = 1"

definition ParseMultiaddr :: "string \<Rightarrow> multiaddr_error + multiaddr" where
  "ParseMultiaddr s =
     (let parts = split_slash (trim_slash s)
      in if length parts < minRelayMultiaddrSegments then Inl TooFewSegments
         else if parts ! 0 = ''p2p-circuit'' then
           (if length parts \<noteq> 3 \<or> parts ! 1 \<noteq> ''p2p'' then Inl MalformedRelay
            else Inr \<lparr>ma_raw = s, ma_network = [], ma_hostport = [], ma_isRelay = True, ma_relayTo = parts ! 2\<rparr>)
         else if length parts < minDirectMultiaddrSegments then Inl TooFewDirect
         else if parts ! 0 \<notin> {''ip4'', ''ip6'', ''dns4'', ''dns6''} then Inl (UnsupportedFamily (parts ! 0))
         else if parts ! 2 \<noteq> ''tcp'' \<and> parts ! 2 \<noteq> ''udp'' then Inl (UnsupportedTransport (parts ! 2))
         else (case go_atoi (parts ! 3) of
                 None \<Rightarrow> Inl (InvalidPort (parts ! 3))
               | Some port \<Rightarrow>
                   if port < minValidPort \<or> port > 65535 then Inl (InvalidPort (parts ! 3))
                   else Inr \<lparr>ma_raw = s, ma_network = parts ! 2, ma_hostport = parts ! 1 @ '':'' @ parts ! 3,
                             ma_isRelay = False, ma_relayTo = []\<rparr>))"

definition HostPort :: "multiaddr \<Rightarrow> string option" where
  "HostPort m = (if ma_isRelay m then None else Some (ma_hostport m))"

definition extractPeerIDFromMultiaddr :: "string \<Rightarrow> string option" where
  "extractPeerIDFromMultiaddr raw =
     (case last_index raw ''/p2p/'' of
        None \<Rightarrow> None
      | Some idx \<Rightarrow>
          let peer = trim_slash (drop (idx + length ''/p2p/'') raw) in if peer = [] then None else Some peer)"

subsection \<open>Resolution\<close>

datatype peer_error = NoMultiaddrs | NoParseable nat | NoPeerID

text \<open>The loop over the addresses, with the peer and the addresses found so far.\<close>

fun scan_multiaddrs :: "string list \<Rightarrow> string \<Rightarrow> multiaddr list \<Rightarrow> string \<times> multiaddr list" where
  "scan_multiaddrs [] peerID addrs = (peerID, addrs)"
| "scan_multiaddrs (raw # raws) peerID addrs =
     (case ParseMultiaddr raw of
        Inl _ \<Rightarrow> scan_multiaddrs raws peerID addrs
      | Inr addr \<Rightarrow>
          scan_multiaddrs raws
            (if peerID = [] then (case extractPeerIDFromMultiaddr raw of None \<Rightarrow> peerID | Some pid \<Rightarrow> pid) else peerID)
            (addrs @ [addr]))"

definition resolveShardPeer :: "string list \<Rightarrow> peer_error + (string \<times> multiaddr list)" where
  "resolveShardPeer multiaddrs =
     (if multiaddrs = [] then Inl NoMultiaddrs
      else case scan_multiaddrs multiaddrs [] [] of
        (peerID, addrs) \<Rightarrow>
          if addrs = [] then Inl (NoParseable (length multiaddrs))
          else if peerID = [] then Inl NoPeerID
          else Inr (peerID, addrs))"

definition resolveDownloadPeer :: "string list \<Rightarrow> peer_error + (string \<times> multiaddr list)" where
  "resolveDownloadPeer multiaddrs =
     (if multiaddrs = [] then Inl NoMultiaddrs
      else case scan_multiaddrs multiaddrs [] [] of
        (peerID, addrs) \<Rightarrow>
          if addrs = [] then Inl (NoParseable (length multiaddrs))
          else if peerID = [] then Inl NoPeerID
          else Inr (peerID, addrs))"

subsection \<open>Lemmas\<close>

text \<open>Both directions of a transfer resolve the same peer from the same addresses.\<close>

lemma resolve_same_peer: "resolveDownloadPeer ms = resolveShardPeer ms"
  by (simp add: resolveDownloadPeer_def resolveShardPeer_def)

lemma split_slash_not_Nil [simp]: "split_slash s \<noteq> []"
  by (cases s) (auto split: list.splits)

lemma split_slash_append:
  "CHR ''/'' \<notin> set w \<Longrightarrow> split_slash (w @ CHR ''/'' # s) = w # split_slash s"
  by (induction w) auto

lemma split_slash_word: "CHR ''/'' \<notin> set w \<Longrightarrow> split_slash w = [w]"
  by (induction w) auto

lemma scan_multiaddrs_peer: "peerID \<noteq> [] \<Longrightarrow> fst (scan_multiaddrs raws peerID addrs) = peerID"
  by (induction raws peerID addrs rule: scan_multiaddrs.induct) (auto split: sum.splits)

lemma scan_multiaddrs_addrs: "\<exists>more. snd (scan_multiaddrs raws peerID addrs) = addrs @ more"
  by (induction raws peerID addrs rule: scan_multiaddrs.induct) (auto split: sum.splits)

text \<open>The first parseable address that names a peer decides.\<close>

lemma resolveShardPeer_first:
  assumes "ParseMultiaddr raw = Inr addr" and "extractPeerIDFromMultiaddr raw = Some peer" and "peer \<noteq> []"
  shows "\<exists>addrs. resolveShardPeer (raw # raws) = Inr (peer, addr # addrs)"
proof -
  obtain more where "snd (scan_multiaddrs raws peer [addr]) = [addr] @ more" using scan_multiaddrs_addrs by blast
  moreover have "fst (scan_multiaddrs raws peer [addr]) = peer" by (rule scan_multiaddrs_peer) (rule assms(3))
  ultimately have "scan_multiaddrs raws peer [addr] = (peer, addr # more)" by (metis append_Cons append_Nil prod.collapse)
  with assms show ?thesis by (simp add: resolveShardPeer_def)
qed

end
