(* ===== verification/ClientUpload.thy ===== *)
theory ClientUpload
  imports UploadApi AONT Multiaddr
begin

text \<open>
  The upload orchestrator of the client, \<^verbatim>\<open>internal/client/upload\<close> (\<^verbatim>\<open>orchestrator.go\<close>, \<^verbatim>\<open>assign.go\<close>, \<^verbatim>\<open>transfer.go\<close>,
  \<^verbatim>\<open>session.go\<close>). The microservice and the providers are functions on a state \<open>'w\<close> of the network: an exchange returns what the client
  receives and the state afterwards, also when the answer is lost. JSON bodies are transported as records. The goroutines of a
  transfer are modelled by the order in which they finish; every exchange is atomic. The session files are a map, and a write either replaces the file or
  leaves it (write to a temporary file and rename). Error texts are reduced to their sentinel or the step that failed.
\<close>

subsection \<open>Bodies of the assignment call\<close>

record shardAssignment =
  ca_ShardIndex :: int
  ca_ProviderID :: uuid
  ca_Multiaddrs :: "string list"
  ca_ASN :: string
  ca_CapabilityToken :: string
  ca_ChunkID :: string

record segmentAssignment =
  cg_SegmentIndex :: int
  cg_SegmentID :: uuid
  cg_Providers :: "shardAssignment list"

record uploadAssignResponse =
  cr_Assignments :: "segmentAssignment list"
  cr_MonthlyCostPaise :: int
  cr_RequiredEscrowPaise :: int

text \<open>The identifiers of a segment are \<open>None\<close> (a nil slice) until the segment is encoded.\<close>

type_synonym segment_ids = "byte list list option"

subsection \<open>Session state\<close>

record SessionState =
  ss_FileID :: uuid
  ss_ChunkIDs :: "segment_ids list"
  ss_AckStatus :: "bool list list"
  ss_TotalShards :: int
  ss_ShardData :: "byte list list list"
  ss_OriginalSizeBytes :: int

record shardUploadTask =
  tk_segmentIndex :: int
  tk_shardIndex :: int
  tk_chunkID :: "byte list"
  tk_data :: "byte list"

record 'w upload_net =
  un_assign :: "uploadAssignRequestBody \<Rightarrow> 'w \<Rightarrow> (nat \<times> uploadAssignResponse) option \<times> 'w"
  un_register :: "fileRegisterRequest \<Rightarrow> 'w \<Rightarrow> nat option \<times> 'w"
  un_send :: "string \<Rightarrow> multiaddr list \<Rightarrow> byte list \<Rightarrow> 'w \<Rightarrow> byte list option \<times> 'w"

record upload_client =
  uc_crypto :: client_crypto
  uc_keystream :: keystream
  uc_engine :: Engine
  uc_profile :: NetworkProfile
  uc_signingKey :: "byte list"
  uc_aesNI :: bool

text \<open>What the environment decides: new identifiers, random keys, file operations, clock readings, and the order in which transfers finish.\<close>

record upload_env =
  ue_fileID :: "uuid option"
  ue_rnd :: "nat \<Rightarrow> byte list option"
  ue_save :: "nat \<Rightarrow> bool"
  ue_load :: bool
  ue_remove :: bool
  ue_clock :: "nat \<Rightarrow> time"
  ue_order :: "bool \<Rightarrow> shardUploadTask list \<Rightarrow> shardUploadTask list"

record 'w client_world =
  wd_net :: 'w
  wd_disk :: "uuid \<rightharpoonup> SessionState"
  wd_writes :: nat
  wd_reads :: nat

datatype upload_error =
    ErrInsufficientEscrow | ErrNetworkNotReady | ErrUploadIncomplete
  | UFileID | USegmentSize | UAont aont_error | UErasure rs_error | UHTTP | UHTTPStatus nat | UVerify
  | UPeer peer_error | UToken | UStream | UFrame | USession | URegister client_error | UPanic

definition SaveSessionState :: "upload_env \<Rightarrow> SessionState \<Rightarrow> 'w client_world \<Rightarrow> upload_error option \<times> 'w client_world" where
  "SaveSessionState env state w =
     (if ue_save env (wd_writes w)
      then (None, w\<lparr>wd_disk := (wd_disk w)(ss_FileID state \<mapsto> state), wd_writes := Suc (wd_writes w)\<rparr>)
      else (Some USession, w\<lparr>wd_writes := Suc (wd_writes w)\<rparr>))"

definition LoadSessionState :: "upload_env \<Rightarrow> uuid \<Rightarrow> 'w client_world \<Rightarrow> upload_error + SessionState" where
  "LoadSessionState env fileID w =
     (if \<not> ue_load env then Inl USession
      else case wd_disk w fileID of None \<Rightarrow> Inl USession | Some state \<Rightarrow> Inr state)"

definition DeleteSessionState :: "upload_env \<Rightarrow> uuid \<Rightarrow> 'w client_world \<Rightarrow> upload_error option \<times> 'w client_world" where
  "DeleteSessionState env fileID w =
     (if \<not> ue_remove env \<or> wd_disk w fileID = None then (Some USession, w)
      else (None, w\<lparr>wd_disk := (wd_disk w)(fileID := None)\<rparr>))"

subsection \<open>Assignment\<close>

definition buildSegmentChunkIDRequests :: "segment_ids list \<Rightarrow> segmentChunkIDsRequestBody list" where
  "buildSegmentChunkIDRequests chunkIDs =
     concat (map (\<lambda>(i, ids). case ids of
         None \<Rightarrow> []
       | Some ids \<Rightarrow> [\<lparr>sq_SegmentIndex = int i, sq_ChunkIDs = map hex_encode ids\<rparr>])
       (zip [0..<length chunkIDs] chunkIDs))"

definition requestAssignment ::
  "'w upload_net \<Rightarrow> uuid \<Rightarrow> int \<Rightarrow> int \<Rightarrow> segment_ids list \<Rightarrow> 'w client_world \<Rightarrow> (upload_error + uploadAssignResponse) \<times> 'w client_world" where
  "requestAssignment net fileID numSegments originalSizeBytes chunkIDs w =
     (let req = \<lparr>uq_FileID = fileID, uq_NumSegments = numSegments, uq_OriginalSizeBytes = originalSizeBytes,
                 uq_Segments = buildSegmentChunkIDRequests chunkIDs\<rparr>
      in case un_assign net req (wd_net w) of
           (res, n) \<Rightarrow>
             (case res of
                None \<Rightarrow> Inl UHTTP
              | Some (st, body) \<Rightarrow>
                  if st = 200 then Inr body
                  else if st = 503 then Inl ErrNetworkNotReady
                  else if st = 409 then Inl ErrInsufficientEscrow
                  else Inl (UHTTPStatus st),
              w\<lparr>wd_net := n\<rparr>))"

text \<open>Indexing with a Go \<^verbatim>\<open>int\<close>: out of range panics.\<close>

definition go_at :: "'a list \<Rightarrow> int \<Rightarrow> 'a option" where
  "go_at xs i = (if 0 \<le> i \<and> i < int (length xs) then Some (xs ! nat i) else None)"

definition echoed :: "byte list list \<Rightarrow> shardAssignment \<Rightarrow> bool" where
  "echoed want sa \<longleftrightarrow>
     (case go_at want (ca_ShardIndex sa) of None \<Rightarrow> False | Some c \<Rightarrow> ca_ChunkID sa = hex_encode c)"

definition verifyAssignedChunkIDsMatch :: "uploadAssignResponse option \<Rightarrow> segment_ids list \<Rightarrow> upload_error option" where
  "verifyAssignedChunkIDsMatch assignResp chunkIDs =
     (case assignResp of
        None \<Rightarrow> Some UVerify
      | Some resp \<Rightarrow>
          if list_all (\<lambda>seg. case go_at chunkIDs (cg_SegmentIndex seg) of
                  Some (Some want) \<Rightarrow> list_all (echoed want) (cg_Providers seg)
                | _ \<Rightarrow> True) (cr_Assignments resp)
          then None else Some UVerify)"

subsection \<open>Transfer of one shard\<close>

definition client_uploadStatusOK :: byte where "client_uploadStatusOK = 0x00"
definition client_uploadStatusAlreadyStored :: byte where "client_uploadStatusAlreadyStored = 0x06"
definition client_uploadStatusCapabilityExpired :: byte where "client_uploadStatusCapabilityExpired = 0x07"
definition client_uploadCapabilityTokenSize :: nat where "client_uploadCapabilityTokenSize = 72"
definition sessionCheckpointInterval :: duration where "sessionCheckpointInterval = 750 * millisecond"

definition writeUploadRequest :: "byte list \<Rightarrow> int \<Rightarrow> byte list \<Rightarrow> byte list \<Rightarrow> byte list" where
  "writeUploadRequest chunkID shardIndex token data =
     be_u32 (int (32 + 4 + client_uploadCapabilityTokenSize + length data)) @ chunkID @ be_u32 shardIndex @ token @ data"

definition readUploadResponse :: "byte list \<Rightarrow> byte option" where
  "readUploadResponse s = (case read_frame s of None \<Rightarrow> None | Some body \<Rightarrow> if body = [] then None else Some (hd body))"

text \<open>
  Connecting, opening the stream and setting the deadline are part of \<open>un_send\<close>; the token is decoded after them in the code, which makes no difference to
  the result since nothing was written yet.
\<close>

definition uploadOneShard ::
  "'w upload_net \<Rightarrow> shardAssignment \<Rightarrow> shardUploadTask \<Rightarrow> 'w \<Rightarrow> (upload_error + byte) \<times> 'w" where
  "uploadOneShard net sa task n =
     (case resolveShardPeer (ca_Multiaddrs sa) of
        Inl e \<Rightarrow> (Inl (UPeer e), n)
      | Inr (peerID, addrs) \<Rightarrow>
          (case hex_decode (ca_CapabilityToken sa) of
             None \<Rightarrow> (Inl UToken, n)
           | Some token \<Rightarrow>
               if length token \<noteq> client_uploadCapabilityTokenSize then (Inl UToken, n)
               else (case un_send net peerID addrs (writeUploadRequest (tk_chunkID task) (tk_shardIndex task) token (tk_data task)) n of
                       (None, n) \<Rightarrow> (Inl UStream, n)
                     | (Some resp, n) \<Rightarrow>
                         (case readUploadResponse resp of None \<Rightarrow> (Inl UFrame, n) | Some st \<Rightarrow> (Inr st, n)))))"

subsection \<open>Transfer of all shards\<close>

definition pending_one :: "SessionState \<Rightarrow> byte list list list \<Rightarrow> int \<Rightarrow> shardAssignment \<Rightarrow> shardUploadTask list option" where
  "pending_one sess shardData segIdx sa =
     (case Option.bind (go_at (ss_AckStatus sess) segIdx) (\<lambda>acks. go_at acks (ca_ShardIndex sa)) of
        None \<Rightarrow> None
      | Some True \<Rightarrow> Some []
      | Some False \<Rightarrow>
          (case (case go_at (ss_ChunkIDs sess) segIdx of Some (Some ids) \<Rightarrow> go_at ids (ca_ShardIndex sa) | _ \<Rightarrow> None,
                 Option.bind (go_at shardData segIdx) (\<lambda>shards. go_at shards (ca_ShardIndex sa))) of
             (Some c, Some d) \<Rightarrow>
               Some [\<lparr>tk_segmentIndex = segIdx, tk_shardIndex = ca_ShardIndex sa, tk_chunkID = c, tk_data = d\<rparr>]
           | _ \<Rightarrow> None))"

fun concat_opt :: "'a list option list \<Rightarrow> 'a list option" where
  "concat_opt [] = Some []"
| "concat_opt (None # xs) = None"
| "concat_opt (Some x # xs) = (case concat_opt xs of None \<Rightarrow> None | Some y \<Rightarrow> Some (x @ y))"

definition pendingTasks :: "segmentAssignment list \<Rightarrow> byte list list list \<Rightarrow> SessionState \<Rightarrow> shardUploadTask list option" where
  "pendingTasks assignments shardData sess =
     concat_opt (concat (map (\<lambda>seg. map (pending_one sess shardData (cg_SegmentIndex seg)) (cg_Providers seg)) assignments))"

definition findShardAssignment :: "segmentAssignment list \<Rightarrow> int \<Rightarrow> int \<Rightarrow> shardAssignment option" where
  "findShardAssignment assignments segIdx shardIdx =
     (case go_at assignments segIdx of
        None \<Rightarrow> None
      | Some seg \<Rightarrow> find (\<lambda>sa. ca_ShardIndex sa = shardIdx) (cg_Providers seg))"

text \<open>The variables that the goroutines share under the mutex. \<open>up_checkpoint\<close> is \<open>None\<close> for the zero time.\<close>

record upload_progress =
  up_sess :: SessionState
  up_expired :: bool
  up_success :: bool
  up_err :: bool
  up_checkpoint :: "time option"

definition set_ack :: "shardUploadTask \<Rightarrow> SessionState \<Rightarrow> SessionState" where
  "set_ack task sess =
     sess\<lparr>ss_AckStatus := (ss_AckStatus sess)[nat (tk_segmentIndex task) :=
       (ss_AckStatus sess ! nat (tk_segmentIndex task))[nat (tk_shardIndex task) := True]]\<rparr>"

definition checkpoint :: "upload_env \<Rightarrow> upload_progress \<Rightarrow> 'w client_world \<Rightarrow> upload_progress \<times> 'w client_world" where
  "checkpoint env p w =
     (let now = ue_clock env (wd_reads w); w = w\<lparr>wd_reads := Suc (wd_reads w)\<rparr>
      in if (case up_checkpoint p of None \<Rightarrow> True | Some t \<Rightarrow> now - t \<ge> sessionCheckpointInterval) then
           (case SaveSessionState env (up_sess p) w of
              (None, w) \<Rightarrow> (p\<lparr>up_checkpoint := Some (ue_clock env (wd_reads w))\<rparr>, w\<lparr>wd_reads := Suc (wd_reads w)\<rparr>)
            | (Some _, w) \<Rightarrow> (p, w))
         else (p, w))"

definition report :: "upload_env \<Rightarrow> shardUploadTask \<Rightarrow> upload_error + byte \<Rightarrow> upload_progress \<Rightarrow> 'w client_world \<Rightarrow> upload_progress \<times> 'w client_world" where
  "report env task res p w =
     (case res of
        Inl _ \<Rightarrow> (p\<lparr>up_err := True\<rparr>, w)
      | Inr st \<Rightarrow>
          if st = client_uploadStatusCapabilityExpired then (p\<lparr>up_expired := True\<rparr>, w)
          else if st = client_uploadStatusOK \<or> st = client_uploadStatusAlreadyStored
          then checkpoint env (p\<lparr>up_sess := set_ack task (up_sess p), up_success := True\<rparr>) w
          else (p\<lparr>up_err := True\<rparr>, w))"

fun run_tasks ::
  "upload_env \<Rightarrow> 'w upload_net \<Rightarrow> segmentAssignment list \<Rightarrow> shardUploadTask list \<Rightarrow> upload_progress \<Rightarrow> 'w client_world \<Rightarrow> upload_progress \<times> 'w client_world" where
  "run_tasks env net assignments [] p w = (p, w)"
| "run_tasks env net assignments (task # tasks) p w =
     (case findShardAssignment assignments (tk_segmentIndex task) (tk_shardIndex task) of
        None \<Rightarrow> run_tasks env net assignments tasks p w
      | Some sa \<Rightarrow>
          (case uploadOneShard net sa task (wd_net w) of
             (res, n) \<Rightarrow>
               (case report env task res p (w\<lparr>wd_net := n\<rparr>) of
                  (p, w) \<Rightarrow> run_tasks env net assignments tasks p w)))"

text \<open>The result is whether a token had expired, whether there was an error, and the session.\<close>

definition uploadTasks ::
  "upload_env \<Rightarrow> 'w upload_net \<Rightarrow> bool \<Rightarrow> segmentAssignment list \<Rightarrow> shardUploadTask list \<Rightarrow> SessionState \<Rightarrow> 'w client_world \<Rightarrow>
     bool \<times> bool \<times> SessionState \<times> 'w client_world" where
  "uploadTasks env net again assignments tasks sess w =
     (case run_tasks env net assignments (ue_order env again tasks)
             \<lparr>up_sess = sess, up_expired = False, up_success = False, up_err = False, up_checkpoint = None\<rparr> w of
        (p, w) \<Rightarrow>
          if up_success p then
            (case SaveSessionState env (up_sess p) w of
               (Some _, w) \<Rightarrow> (up_expired p, True, up_sess p, w)
             | (None, w) \<Rightarrow> (up_expired p, up_err p, up_sess p, w))
          else (up_expired p, up_err p, up_sess p, w))"

text \<open>\<open>reassigned\<close> is the loop variable of the same name: the loop runs at most twice.\<close>

function transfer_loop ::
  "upload_env \<Rightarrow> 'w upload_net \<Rightarrow> uuid \<Rightarrow> byte list list list \<Rightarrow> bool \<Rightarrow> segmentAssignment list \<Rightarrow> SessionState \<Rightarrow> 'w client_world \<Rightarrow>
     upload_error option \<times> SessionState \<times> 'w client_world" where
  "transfer_loop env net fileID shardData reassigned assignments sess w =
     (case pendingTasks assignments shardData sess of
        None \<Rightarrow> (Some UPanic, sess, w)
      | Some tasks \<Rightarrow>
          if tasks = [] then (None, sess, w)
          else (case uploadTasks env net reassigned assignments tasks sess w of
             (capabilityExpired, uploadErr, sess, w) \<Rightarrow>
               if capabilityExpired then
                 (if reassigned then (Some ErrUploadIncomplete, sess, w)
                  else (case requestAssignment net fileID (int (length shardData)) (ss_OriginalSizeBytes sess) (ss_ChunkIDs sess) w of
                     (Inl e, w) \<Rightarrow> (Some e, sess, w)
                   | (Inr fresh, w) \<Rightarrow>
                       (case verifyAssignedChunkIDsMatch (Some fresh) (ss_ChunkIDs sess) of
                          Some e \<Rightarrow> (Some e, sess, w)
                        | None \<Rightarrow> transfer_loop env net fileID shardData True (cr_Assignments fresh) sess w)))
               else (case pendingTasks assignments shardData sess of
                       None \<Rightarrow> (Some UPanic, sess, w)
                     | Some [] \<Rightarrow> (None, sess, w)
                     | Some _ \<Rightarrow> (Some ErrUploadIncomplete, sess, w))))"
  by pat_completeness auto

termination transfer_loop
  by (relation "measure (\<lambda>(_, _, _, _, reassigned, _, _, _). if reassigned then 0 else 1)") auto

definition transferAll ::
  "upload_env \<Rightarrow> 'w upload_net \<Rightarrow> uuid \<Rightarrow> uploadAssignResponse \<Rightarrow> byte list list list \<Rightarrow> SessionState \<Rightarrow> 'w client_world \<Rightarrow>
     upload_error option \<times> SessionState \<times> 'w client_world" where
  "transferAll env net fileID assignResp shardData sess w =
     transfer_loop env net fileID shardData False (cr_Assignments assignResp) sess w"

declare transfer_loop.simps [simp del]

subsection \<open>Registration\<close>

text \<open>\<^verbatim>\<open>providerIDs[sa.ShardIndex] = sa.ProviderID\<close> for the shards of a segment.\<close>

fun fill_providers :: "shardAssignment list \<Rightarrow> uuid list \<Rightarrow> uuid list option" where
  "fill_providers [] ids = Some ids"
| "fill_providers (sa # sas) ids =
     (if 0 \<le> ca_ShardIndex sa \<and> ca_ShardIndex sa < int (length ids)
      then fill_providers sas (ids[nat (ca_ShardIndex sa) := ca_ProviderID sa]) else None)"

definition pointer_segment ::
  "upload_client \<Rightarrow> byte list \<Rightarrow> uuid \<Rightarrow> uuid \<Rightarrow> segmentAssignment list \<Rightarrow> nat \<Rightarrow> segment_ids \<Rightarrow> pointerFileSegment option" where
  "pointer_segment uc masterSecret ownerID fileID assignments i ids =
     (let n = nat (TotalShards (uc_profile uc)); ids = (case ids of None \<Rightarrow> [] | Some ids \<Rightarrow> ids)
      in case (DeriveFileKey (cc_hkdf (uc_crypto uc)) masterSecret ownerID fileID, go_at assignments (int i)) of
           (Some fileKey, Some seg) \<Rightarrow>
             (case fill_providers (cg_Providers seg) (replicate n (replicate 16 0)) of
                None \<Rightarrow> None
              | Some providerIDs \<Rightarrow>
                  if length ids > n then None
                  else Some \<lparr>pf_SegmentID = cg_SegmentID seg, pf_SegmentIndex = int i, pf_FileKey = hex_encode fileKey,
                             pf_ProviderIDs = providerIDs,
                             pf_ChunkIDs = map hex_encode ids @ replicate (n - length ids) [],
                             pf_ErasureParams = \<lparr>ep_S = DataShards (uc_profile uc), ep_R = ParityShards (uc_profile uc),
                               ep_N = TotalShards (uc_profile uc), ep_LfBytes = ShardSizeField (uc_profile uc)\<rparr>\<rparr>)
         | _ \<Rightarrow> None)"

definition pointer_segments ::
  "upload_client \<Rightarrow> byte list \<Rightarrow> uuid \<Rightarrow> uuid \<Rightarrow> segmentAssignment list \<Rightarrow> segment_ids list \<Rightarrow> pointerFileSegment list option" where
  "pointer_segments uc masterSecret ownerID fileID assignments chunkIDs =
     concat_opt (map (\<lambda>(i, ids). map_option (\<lambda>s. [s]) (pointer_segment uc masterSecret ownerID fileID assignments i ids))
       (zip [0..<length chunkIDs] chunkIDs))"

definition finishUpload ::
  "upload_env \<Rightarrow> upload_client \<Rightarrow> 'w upload_net \<Rightarrow> byte list \<Rightarrow> uuid \<Rightarrow> uuid \<Rightarrow> uploadAssignResponse \<Rightarrow> segment_ids list \<Rightarrow> int \<Rightarrow>
     'w client_world \<Rightarrow> upload_error option \<times> 'w client_world" where
  "finishUpload env uc net masterSecret ownerID fileID assignResp chunkIDs originalSizeBytes w =
     (case pointer_segments uc masterSecret ownerID fileID (cr_Assignments assignResp) chunkIDs of
        None \<Rightarrow> (Some UPanic, w)
      | Some segs \<Rightarrow>
          let post = (\<lambda>req. un_register net req (wd_net w));
              w' = (case pointer_request (uc_crypto uc) masterSecret ownerID fileID segs originalSizeBytes [] (uc_signingKey uc) of
                      Inl _ \<Rightarrow> w
                    | Inr req \<Rightarrow> w\<lparr>wd_net := snd (post req)\<rparr>)
          in case registerPointerFile (uc_crypto uc) (\<lambda>req. fst (post req)) masterSecret ownerID fileID segs originalSizeBytes []
                    (uc_signingKey uc) of
               Some e \<Rightarrow> (Some (URegister e), w')
             | None \<Rightarrow> DeleteSessionState env fileID w')"

subsection \<open>Upload and resume\<close>

definition aontOverheadBytes :: int where "aontOverheadBytes = 48"

definition plaintextSegmentSize :: "NetworkProfile \<Rightarrow> int" where
  "plaintextSegmentSize profile = DataShards profile * ShardSizeField profile - aontOverheadBytes"

definition ceilDivInt :: "int \<Rightarrow> int \<Rightarrow> int" where
  "ceilDivInt a b = (if a \<le> 0 then 0 else (a + b - 1) div b)"

definition segment_plain :: "nat \<Rightarrow> byte list \<Rightarrow> nat \<Rightarrow> byte list" where
  "segment_plain segSize plaintext i =
     (let start = i * segSize
      in if start < length plaintext
         then copy_slice (replicate segSize 0) (slice start (min (start + segSize) (length plaintext)) plaintext)
         else replicate segSize 0)"

definition encode_one :: "upload_env \<Rightarrow> upload_client \<Rightarrow> byte list \<Rightarrow> nat \<Rightarrow> upload_error + byte list list" where
  "encode_one env uc plaintext i =
     (case AONTEncodeSegment (cc_sha (uc_crypto uc)) (uc_keystream uc) (ue_rnd env i)
             (segment_plain (nat (plaintextSegmentSize (uc_profile uc))) plaintext i) (uc_aesNI uc) of
        Inl e \<Rightarrow> Inl (UAont e)
      | Inr aontPkg \<Rightarrow>
          (case EncodeSegment (uc_engine uc) aontPkg of Inl e \<Rightarrow> Inl (UErasure e) | Inr shards \<Rightarrow> Inr shards))"

text \<open>
  The loop over the segments: \<open>left\<close> counts the iterations to come, \<open>ids\<close> and \<open>sd\<close> are the entries filled so far; the entries
  after them are still nil.
\<close>

fun upload_segments ::
  "upload_env \<Rightarrow> upload_client \<Rightarrow> 'w upload_net \<Rightarrow> uuid \<Rightarrow> byte list \<Rightarrow> nat \<Rightarrow> byte list list list \<Rightarrow> byte list list list \<Rightarrow>
     uploadAssignResponse option \<Rightarrow> 'w client_world \<Rightarrow>
     (upload_error + (byte list list list \<times> byte list list list \<times> uploadAssignResponse option)) \<times> 'w client_world" where
  "upload_segments env uc net fileID plaintext 0 ids sd resp w = (Inr (ids, sd, resp), w)"
| "upload_segments env uc net fileID plaintext (Suc left) ids sd resp w =
     (case encode_one env uc plaintext (length sd) of
        Inl e \<Rightarrow> (Inl e, w)
      | Inr shards \<Rightarrow>
          let ids = ids @ [map (cc_sha (uc_crypto uc)) shards]; sd = sd @ [shards]
          in case requestAssignment net fileID (int (length sd + left)) (int (length plaintext)) (map Some ids @ replicate left None) w of
               (Inl e, w) \<Rightarrow> (Inl e, w)
             | (Inr resp, w) \<Rightarrow> upload_segments env uc net fileID plaintext left ids sd (Some resp) w)"

definition new_session :: "upload_client \<Rightarrow> uuid \<Rightarrow> byte list list list \<Rightarrow> byte list list list \<Rightarrow> int \<Rightarrow> SessionState" where
  "new_session uc fileID ids sd originalSizeBytes =
     \<lparr>ss_FileID = fileID, ss_ChunkIDs = map Some ids,
      ss_AckStatus = replicate (length sd) (replicate (nat (TotalShards (uc_profile uc))) False),
      ss_TotalShards = TotalShards (uc_profile uc), ss_ShardData = sd, ss_OriginalSizeBytes = originalSizeBytes\<rparr>"

text \<open>What follows the loop: verification, session file, transfer, registration.\<close>

definition distribute ::
  "upload_env \<Rightarrow> upload_client \<Rightarrow> 'w upload_net \<Rightarrow> byte list \<Rightarrow> uuid \<Rightarrow> uuid \<Rightarrow> int \<Rightarrow> byte list list list \<Rightarrow> byte list list list \<Rightarrow>
     uploadAssignResponse option \<Rightarrow> 'w client_world \<Rightarrow> upload_error option \<times> 'w client_world" where
  "distribute env uc net masterSecret ownerID fileID originalSizeBytes ids sd resp w =
     (case (verifyAssignedChunkIDsMatch resp (map Some ids), resp) of
        (None, Some resp) \<Rightarrow>
          let sess = new_session uc fileID ids sd originalSizeBytes
          in (case SaveSessionState env sess w of
                (Some e, w) \<Rightarrow> (Some e, w)
              | (None, w) \<Rightarrow>
                  (case transferAll env net fileID resp sd sess w of
                     (Some e, _, w) \<Rightarrow> (Some e, w)
                   | (None, sess, w) \<Rightarrow> finishUpload env uc net masterSecret ownerID fileID resp (map Some ids) originalSizeBytes w))
      | (Some e, _) \<Rightarrow> (Some e, w)
      | (None, None) \<Rightarrow> (Some UVerify, w))"

definition UploadFile ::
  "upload_env \<Rightarrow> upload_client \<Rightarrow> 'w upload_net \<Rightarrow> byte list \<Rightarrow> uuid \<Rightarrow> byte list \<Rightarrow> 'w client_world \<Rightarrow>
     uuid \<times> upload_error option \<times> 'w client_world" where
  "UploadFile env uc net masterSecret ownerID plaintext w =
     (case ue_fileID env of
        None \<Rightarrow> (replicate 16 0, Some UFileID, w)
      | Some fileID \<Rightarrow>
          let segSize = plaintextSegmentSize (uc_profile uc);
              k = ceilDivInt (int (length plaintext)) segSize;
              numSegments = (if k = 0 then 1 else k)
          in if segSize \<le> 0 then (fileID, Some USegmentSize, w)
             else case upload_segments env uc net fileID plaintext (nat numSegments) [] [] None w of
               (Inl e, w) \<Rightarrow> (fileID, Some e, w)
             | (Inr (ids, sd, resp), w) \<Rightarrow>
                 (fileID, distribute env uc net masterSecret ownerID fileID (int (length plaintext)) ids sd resp w))"

text \<open>A resumed upload with a fresh assignment: the transfer is skipped when nothing is pending.\<close>

definition resume_transfer ::
  "upload_env \<Rightarrow> upload_client \<Rightarrow> 'w upload_net \<Rightarrow> byte list \<Rightarrow> uuid \<Rightarrow> uuid \<Rightarrow> SessionState \<Rightarrow> uploadAssignResponse \<Rightarrow> 'w client_world \<Rightarrow>
     upload_error option \<times> 'w client_world" where
  "resume_transfer env uc net masterSecret ownerID fileID sess resp w =
     (case verifyAssignedChunkIDsMatch (Some resp) (ss_ChunkIDs sess) of
        Some e \<Rightarrow> (Some e, w)
      | None \<Rightarrow>
          (case (if list_all (list_all id) (ss_AckStatus sess) then (None, sess, w)
                 else transferAll env net fileID resp (ss_ShardData sess) sess w) of
             (Some e, _, w) \<Rightarrow> (Some e, w)
           | (None, _, w) \<Rightarrow>
               finishUpload env uc net masterSecret ownerID fileID resp (ss_ChunkIDs sess) (ss_OriginalSizeBytes sess) w))"

definition ResumeUpload ::
  "upload_env \<Rightarrow> upload_client \<Rightarrow> 'w upload_net \<Rightarrow> byte list \<Rightarrow> uuid \<Rightarrow> uuid \<Rightarrow> 'w client_world \<Rightarrow> upload_error option \<times> 'w client_world" where
  "ResumeUpload env uc net masterSecret ownerID fileID w =
     (case LoadSessionState env fileID w of
        Inl e \<Rightarrow> (Some e, w)
      | Inr sess \<Rightarrow>
          if ss_FileID sess \<noteq> fileID then (Some USession, w)
          else (case requestAssignment net fileID (int (length (ss_ChunkIDs sess))) (ss_OriginalSizeBytes sess) (ss_ChunkIDs sess) w of
             (Inl e, w) \<Rightarrow> (Some e, w)
           | (Inr resp, w) \<Rightarrow> resume_transfer env uc net masterSecret ownerID fileID sess resp w))"

subsection \<open>Lemmas: sessions and tasks\<close>

lemma go_at_nth [simp]: "i < length xs \<Longrightarrow> go_at xs (int i) = Some (xs ! i)"
  by (simp add: go_at_def)

lemma go_at_SomeD: "go_at xs k = Some x \<Longrightarrow> \<exists>i<length xs. k = int i \<and> x = xs ! i"
  by (auto simp: go_at_def split: if_splits intro!: exI [of _ "nat k"])

lemma concat_opt_Some: "concat_opt xs = Some ys \<longleftrightarrow> (\<exists>zs. xs = map Some zs \<and> ys = concat zs)"
proof (induction xs arbitrary: ys)
  case (Cons x xs)
  show ?case
  proof (cases x)
    case (Some z)
    have "concat_opt (x # xs) = Some ys \<longleftrightarrow> (\<exists>rest. concat_opt xs = Some rest \<and> ys = z @ rest)"
      using Some by (auto split: option.splits)
    also have "\<dots> \<longleftrightarrow> (\<exists>zs. xs = map Some zs \<and> ys = z @ concat zs)" using Cons.IH by blast
    also have "\<dots> \<longleftrightarrow> (\<exists>zs. x # xs = map Some zs \<and> ys = concat zs)" using Some by (auto simp: Cons_eq_map_conv)
    finally show ?thesis .
  qed (auto simp: Cons_eq_map_conv)
qed auto

text \<open>A session as \<^verbatim>\<open>UploadFile\<close> creates it, whatever was acknowledged since.\<close>

definition session_fits :: "hash \<Rightarrow> nat \<Rightarrow> SessionState \<Rightarrow> bool" where
  "session_fits sha n sess \<longleftrightarrow>
     ss_ChunkIDs sess = map (\<lambda>shards. Some (map sha shards)) (ss_ShardData sess) \<and>
     (\<forall>shards\<in>set (ss_ShardData sess). length shards = n \<and> (\<forall>d\<in>set shards. length d = ShardSize)) \<and>
     length (ss_AckStatus sess) = length (ss_ShardData sess) \<and> (\<forall>acks\<in>set (ss_AckStatus sess). length acks = n)"

definition task_of :: "hash \<Rightarrow> byte list list list \<Rightarrow> nat \<Rightarrow> nat \<Rightarrow> shardUploadTask" where
  "task_of sha sd i j = \<lparr>tk_segmentIndex = int i, tk_shardIndex = int j, tk_chunkID = sha (sd ! i ! j), tk_data = sd ! i ! j\<rparr>"

definition acked :: "SessionState \<Rightarrow> nat \<Rightarrow> nat \<Rightarrow> bool" where
  "acked sess i j \<longleftrightarrow> ss_AckStatus sess ! i ! j"

lemma session_fits_at:
  assumes "session_fits sha n sess" and "i < length (ss_ShardData sess)"
  shows "go_at (ss_ChunkIDs sess) (int i) = Some (Some (map sha (ss_ShardData sess ! i)))" "length (ss_ShardData sess ! i) = n"
    "go_at (ss_AckStatus sess) (int i) = Some (ss_AckStatus sess ! i)" "length (ss_AckStatus sess ! i) = n"
    "j < n \<Longrightarrow> length (ss_ShardData sess ! i ! j) = ShardSize"
proof -
  have row: "length (ss_ShardData sess ! i) = n" "\<forall>d\<in>set (ss_ShardData sess ! i). length d = ShardSize"
    using assms nth_mem [OF assms(2)] by (auto simp: session_fits_def)
  then show "length (ss_ShardData sess ! i) = n" "j < n \<Longrightarrow> length (ss_ShardData sess ! i ! j) = ShardSize"
    by simp_all
qed (use assms in \<open>auto simp: session_fits_def\<close>)

lemma pending_one_fits:
  assumes "session_fits sha n sess" and "pending_one sess (ss_ShardData sess) k sa = Some ts"
  shows "\<exists>i<length (ss_ShardData sess). \<exists>j<n. k = int i \<and> ca_ShardIndex sa = int j \<and>
           ts = (if acked sess i j then [] else [task_of sha (ss_ShardData sess) i j])"
proof -
  from assms(2) obtain b where b: "Option.bind (go_at (ss_AckStatus sess) k) (\<lambda>acks. go_at acks (ca_ShardIndex sa)) = Some b"
    by (auto simp: pending_one_def split: option.splits)
  then obtain i j where ij: "i < length (ss_AckStatus sess)" "k = int i" "j < length (ss_AckStatus sess ! i)" "ca_ShardIndex sa = int j"
    "b = ss_AckStatus sess ! i ! j" by (auto simp: bind_eq_Some_conv dest!: go_at_SomeD)
  from assms(1) ij(1) have i: "i < length (ss_ShardData sess)" by (simp add: session_fits_def)
  note s = session_fits_at [OF assms(1) i]
  have j: "j < n" using ij(3) s(4) by simp
  have "ts = (if acked sess i j then [] else [task_of sha (ss_ShardData sess) i j])"
    using assms(2) s i j ij by (auto simp: pending_one_def acked_def task_of_def split: bool.splits)
  with i j ij show ?thesis by blast
qed

lemma pendingTasks_fits:
  assumes "session_fits sha n sess" and "pendingTasks assignments (ss_ShardData sess) sess = Some tasks"
  shows "t \<in> set tasks \<Longrightarrow> \<exists>i<length (ss_ShardData sess). \<exists>j<n. t = task_of sha (ss_ShardData sess) i j"
    and "seg \<in> set assignments \<Longrightarrow> sa \<in> set (cg_Providers seg) \<Longrightarrow> tasks = [] \<Longrightarrow>
           \<exists>i<length (ss_ShardData sess). \<exists>j<n. cg_SegmentIndex seg = int i \<and> ca_ShardIndex sa = int j \<and> acked sess i j"
proof -
  let ?f = "\<lambda>seg. map (pending_one sess (ss_ShardData sess) (cg_SegmentIndex seg)) (cg_Providers seg)"
  from assms(2) obtain zs where zs: "concat (map ?f assignments) = map Some zs" "tasks = concat zs"
    by (auto simp: pendingTasks_def concat_opt_Some)
  have set: "set (concat (map ?f assignments)) = Some ` set zs" unfolding zs(1) by simp
  show "\<exists>i<length (ss_ShardData sess). \<exists>j<n. t = task_of sha (ss_ShardData sess) i j" if "t \<in> set tasks"
  proof -
    from that zs(2) obtain ts where ts: "ts \<in> set zs" "t \<in> set ts" by auto
    then have "Some ts \<in> set (concat (map ?f assignments))" unfolding set by blast
    then obtain seg :: segmentAssignment and sa where "Some ts = pending_one sess (ss_ShardData sess) (cg_SegmentIndex seg) sa" by auto
    from pending_one_fits [OF assms(1) this [symmetric]] obtain i j where ij: "i < length (ss_ShardData sess)" "j < n"
      "ts = (if acked sess i j then [] else [task_of sha (ss_ShardData sess) i j])" by blast
    with ts(2) have "t = task_of sha (ss_ShardData sess) i j" by (simp split: if_splits)
    with ij(1,2) show ?thesis by blast
  qed
  show "\<exists>i<length (ss_ShardData sess). \<exists>j<n. cg_SegmentIndex seg = int i \<and> ca_ShardIndex sa = int j \<and> acked sess i j"
    if "seg \<in> set assignments" "sa \<in> set (cg_Providers seg)" "tasks = []"
  proof -
    have "pending_one sess (ss_ShardData sess) (cg_SegmentIndex seg) sa \<in> set (concat (map ?f assignments))" using that by auto
    then obtain ts where ts: "pending_one sess (ss_ShardData sess) (cg_SegmentIndex seg) sa = Some ts" "ts \<in> set zs" unfolding set by auto
    from pending_one_fits [OF assms(1) ts(1)] obtain i j where ij: "i < length (ss_ShardData sess)" "j < n" "cg_SegmentIndex seg = int i"
      "ca_ShardIndex sa = int j" "ts = (if acked sess i j then [] else [task_of sha (ss_ShardData sess) i j])" by blast
    have "ts = []" using ts(2) that(3) zs(2) by simp
    with ij(5) have "acked sess i j" by (simp split: if_splits)
    with ij show ?thesis by blast
  qed
qed

lemma set_ack_fields [simp]:
  "ss_FileID (set_ack t sess) = ss_FileID sess" "ss_ChunkIDs (set_ack t sess) = ss_ChunkIDs sess"
  "ss_ShardData (set_ack t sess) = ss_ShardData sess" "ss_OriginalSizeBytes (set_ack t sess) = ss_OriginalSizeBytes sess"
  "ss_TotalShards (set_ack t sess) = ss_TotalShards sess"
  by (simp_all add: set_ack_def)

lemma set_ack_fits:
  assumes "session_fits sha n sess" and "i < length (ss_ShardData sess)" and "j < n"
  shows "session_fits sha n (set_ack (task_of sha sd i j) sess)"
    and "acked (set_ack (task_of sha sd i j) sess) i' j' \<longleftrightarrow> acked sess i' j' \<or> i' = i \<and> j' = j"
proof -
  have i: "i < length (ss_AckStatus sess)" "j < length (ss_AckStatus sess ! i)" using assms by (simp_all add: session_fits_def)
  have "\<forall>acks\<in>set ((ss_AckStatus sess)[i := (ss_AckStatus sess ! i)[j := True]]). length acks = n"
    using assms i by (auto simp: session_fits_def dest!: subsetD [OF set_update_subset_insert])
  then show "session_fits sha n (set_ack (task_of sha sd i j) sess)"
    using assms(1) by (simp add: session_fits_def set_ack_def task_of_def)
  show "acked (set_ack (task_of sha sd i j) sess) i' j' \<longleftrightarrow> acked sess i' j' \<or> i' = i \<and> j' = j"
    using i by (auto simp: acked_def set_ack_def task_of_def nth_list_update)
qed

subsection \<open>The interface to the network\<close>

text \<open>
  What the client relies on. \<open>placed n ids\<close>: in state \<open>n\<close> the service has placed the segments with the chunk identifiers \<open>ids\<close> and no others of
  this file; \<open>offered n c ms\<close>: it names the addresses \<open>ms\<close> for the chunk \<open>c\<close>; \<open>stored n peer c d\<close>: the provider \<open>peer\<close> holds the data \<open>d\<close> under \<open>c\<close>.
\<close>

definition assign_request :: "uuid \<Rightarrow> nat \<Rightarrow> int \<Rightarrow> byte list list list \<Rightarrow> uploadAssignRequestBody" where
  "assign_request fileID m sz ids =
     \<lparr>uq_FileID = fileID, uq_NumSegments = int m, uq_OriginalSizeBytes = sz,
      uq_Segments = buildSegmentChunkIDRequests (map Some ids @ replicate (m - length ids) None)\<rparr>"

definition ids_wf :: "nat \<Rightarrow> byte list list list \<Rightarrow> bool" where
  "ids_wf k ids \<longleftrightarrow> (\<forall>x\<in>set ids. length x = k)"

definition covers :: "(byte list \<Rightarrow> string list \<Rightarrow> bool) \<Rightarrow> byte list list list \<Rightarrow> segmentAssignment list \<Rightarrow> bool" where
  "covers offered ids assignments \<longleftrightarrow>
     length assignments = length ids \<and>
     (\<forall>i<length ids. cg_SegmentIndex (assignments ! i) = int i \<and> length (cg_Providers (assignments ! i)) = length (ids ! i) \<and>
        (\<forall>j<length (ids ! i). ca_ShardIndex (cg_Providers (assignments ! i) ! j) = int j \<and>
           offered (ids ! i ! j) (ca_Multiaddrs (cg_Providers (assignments ! i) ! j))))"

definition carries ::
  "('w \<Rightarrow> byte list \<Rightarrow> string list \<Rightarrow> bool) \<Rightarrow> ('w \<Rightarrow> string \<Rightarrow> byte list \<Rightarrow> byte list \<Rightarrow> bool) \<Rightarrow> 'w \<Rightarrow> 'w \<Rightarrow> bool" where
  "carries offered stored n n' \<longleftrightarrow>
     (\<forall>c ms. offered n c ms \<longrightarrow> offered n' c ms) \<and> (\<forall>p c d. stored n p c d \<longrightarrow> stored n' p c d)"

text \<open>The chunk is held by a provider that the service names for it.\<close>

definition safe_at ::
  "('w \<Rightarrow> byte list \<Rightarrow> string list \<Rightarrow> bool) \<Rightarrow> ('w \<Rightarrow> string \<Rightarrow> byte list \<Rightarrow> byte list \<Rightarrow> bool) \<Rightarrow> 'w \<Rightarrow> byte list \<Rightarrow> byte list \<Rightarrow> bool" where
  "safe_at offered stored n c d \<longleftrightarrow>
     (\<exists>ms peer addrs. offered n c ms \<and> resolveShardPeer ms = Inr (peer, addrs) \<and> stored n peer c d)"

lemma report_net:
  "report env task res p w = (p', w') \<Longrightarrow> wd_net w' = wd_net w"
  by (auto simp: report_def checkpoint_def SaveSessionState_def Let_def split: sum.splits if_splits option.splits)

text \<open>A session of this file in which every acknowledged shard is safe.\<close>

definition session_good :: "hash \<Rightarrow> nat \<Rightarrow> uuid \<Rightarrow> byte list list list \<Rightarrow> int \<Rightarrow> (byte list \<Rightarrow> byte list \<Rightarrow> bool) \<Rightarrow> SessionState \<Rightarrow> bool" where
  "session_good sha k fileID sd sz safe sess \<longleftrightarrow>
     session_fits sha k sess \<and> ss_FileID sess = fileID \<and> ss_ShardData sess = sd \<and> ss_OriginalSizeBytes sess = sz \<and>
     (\<forall>i<length sd. \<forall>j<k. acked sess i j \<longrightarrow> safe (sha (sd ! i ! j)) (sd ! i ! j))"

lemma carries_refl: "carries offered stored n n"
  by (simp add: carries_def)

lemma carries_trans: "carries offered stored n n' \<Longrightarrow> carries offered stored n' n'' \<Longrightarrow> carries offered stored n n''"
  by (simp add: carries_def)

lemma safe_at_carries: "carries offered stored n n' \<Longrightarrow> safe_at offered stored n c d \<Longrightarrow> safe_at offered stored n' c d"
  unfolding carries_def safe_at_def by blast

lemma covers_carries: "carries offered stored n n' \<Longrightarrow> covers (offered n) ids as \<Longrightarrow> covers (offered n') ids as"
  by (simp add: carries_def covers_def)

lemma session_good_mono:
  "session_good sha k fileID sd sz P sess \<Longrightarrow> (\<And>c d. P c d \<Longrightarrow> Q c d) \<Longrightarrow> session_good sha k fileID sd sz Q sess"
  by (simp add: session_good_def)

lemma session_good_ack:
  assumes "session_good sha k fileID sd sz P sess" and "i < length sd" and "j < k" and "P (sha (sd ! i ! j)) (sd ! i ! j)"
  shows "session_good sha k fileID sd sz P (set_ack (task_of sha sd i j) sess)"
  using assms set_ack_fits [of sha k sess i j sd] by (auto simp: session_good_def)

lemma covers_find:
  assumes "covers offered ids assignments" and "i < length ids" and "j < length (ids ! i)"
  shows "\<exists>sa. findShardAssignment assignments (int i) (int j) = Some sa \<and> offered (ids ! i ! j) (ca_Multiaddrs sa)"
proof -
  let ?ps = "cg_Providers (assignments ! i)"
  have i: "go_at assignments (int i) = Some (assignments ! i)" using assms(1,2) by (simp add: covers_def)
  have ps: "length ?ps = length (ids ! i)" "\<forall>j<length (ids ! i). ca_ShardIndex (?ps ! j) = int j \<and> offered (ids ! i ! j) (ca_Multiaddrs (?ps ! j))"
    using assms(1,2) by (simp_all add: covers_def)
  have "find (\<lambda>sa. ca_ShardIndex sa = int j) ?ps = Some (?ps ! j)"
    using ps assms(3) by (auto simp: find_Some_iff intro!: exI [of _ j])
  with i ps(2) assms(3) show ?thesis by (simp add: findShardAssignment_def)
qed

lemma uploadOneShard_cases:
  assumes "uploadOneShard net sa task n = (res, n')"
  obtains (stopped) e where "res = Inl e" "n' = n"
  | (sent) peer addrs token resp where "resolveShardPeer (ca_Multiaddrs sa) = Inr (peer, addrs)" "hex_decode (ca_CapabilityToken sa) = Some token"
      "length token = 72" "un_send net peer addrs (writeUploadRequest (tk_chunkID task) (tk_shardIndex task) token (tk_data task)) n = (resp, n')"
      "\<And>st. res = Inr st \<Longrightarrow> \<exists>b. resp = Some b \<and> readUploadResponse b = Some st"
  using assms
  by (auto simp: uploadOneShard_def client_uploadCapabilityTokenSize_def split: sum.splits option.splits prod.splits if_splits)

text \<open>The shards of the first segments of a file, as the client encodes them.\<close>

definition encoded :: "upload_env \<Rightarrow> upload_client \<Rightarrow> byte list \<Rightarrow> byte list list list \<Rightarrow> bool" where
  "encoded env uc plaintext sd \<longleftrightarrow> (\<forall>i<length sd. encode_one env uc plaintext i = Inr (sd ! i))"

definition numSegments_of :: "NetworkProfile \<Rightarrow> byte list \<Rightarrow> nat" where
  "numSegments_of profile plaintext =
     (let k = ceilDivInt (int (length plaintext)) (plaintextSegmentSize profile) in nat (if k = 0 then 1 else k))"

lemma encoded_snoc:
  "encoded env uc plaintext sd \<Longrightarrow> encode_one env uc plaintext (length sd) = Inr shards \<Longrightarrow> encoded env uc plaintext (sd @ [shards])"
  by (auto simp: encoded_def nth_append less_Suc_eq)

text \<open>The pointer file lists the chunk identifiers of the encoding.\<close>

definition lists_chunks :: "upload_client \<Rightarrow> byte list list list \<Rightarrow> pointerFileSegment list \<Rightarrow> bool" where
  "lists_chunks uc ids segs \<longleftrightarrow>
     length segs = length ids \<and>
     (\<forall>i<length ids. pf_SegmentIndex (segs ! i) = int i \<and> pf_ChunkIDs (segs ! i) = map hex_encode (ids ! i) \<and>
        length (pf_ProviderIDs (segs ! i)) = nat (TotalShards (uc_profile uc)))"

lemma fill_providers_length: "fill_providers sas ids = Some ids' \<Longrightarrow> length ids' = length ids"
  by (induction sas ids rule: fill_providers.induct) (auto split: if_splits)

lemma pointer_segment_shape:
  assumes "pointer_segment uc masterSecret ownerID fileID as i (Some ids) = Some s" and "length ids = nat (TotalShards (uc_profile uc))"
  shows "pf_SegmentIndex s = int i \<and> pf_ChunkIDs s = map hex_encode ids \<and> length (pf_ProviderIDs s) = nat (TotalShards (uc_profile uc))"
  using assms by (auto simp: pointer_segment_def Let_def split: option.splits if_splits dest: fill_providers_length)

lemma map_option_single_concat:
  assumes "concat_opt (map (\<lambda>x. map_option (\<lambda>s. [s]) (f x)) xs) = Some ys"
  shows "length ys = length xs \<and> (\<forall>i<length xs. f (xs ! i) = Some (ys ! i))"
proof -
  from assms obtain zs where zs: "map (\<lambda>x. map_option (\<lambda>s. [s]) (f x)) xs = map Some zs" "ys = concat zs"
    by (auto simp: concat_opt_Some)
  have len: "length zs = length xs" using arg_cong [OF zs(1), of length] by simp
  have one: "\<exists>s. f (xs ! i) = Some s \<and> zs ! i = [s]" if "i < length xs" for i
    using arg_cong [OF zs(1), of "\<lambda>l. l ! i"] that len by (cases "f (xs ! i)") auto
  have "zs = map (\<lambda>x. [the (f x)]) xs" by (rule nth_equalityI) (use len one in force)+
  then have "ys = map (\<lambda>x. the (f x)) xs" unfolding zs(2) by (simp add: concat_map_singleton)
  with one show ?thesis by fastforce
qed

lemma pointer_segments_shape:
  assumes "pointer_segments uc masterSecret ownerID fileID as (map Some ids) = Some segs"
    and "\<forall>x\<in>set ids. length x = nat (TotalShards (uc_profile uc))"
  shows "lists_chunks uc ids segs"
proof -
  let ?xs = "zip [0..<length ids] (map Some ids)"
  have "concat_opt (map (\<lambda>x. map_option (\<lambda>s. [s]) ((\<lambda>(i, ids). pointer_segment uc masterSecret ownerID fileID as i ids) x)) ?xs) = Some segs"
    using assms(1) by (simp add: pointer_segments_def split_beta')
  from map_option_single_concat [OF this] have len: "length segs = length ids"
    and seg: "i < length ids \<Longrightarrow> pointer_segment uc masterSecret ownerID fileID as i (Some (ids ! i)) = Some (segs ! i)" for i
    by fastforce+
  then show ?thesis using pointer_segment_shape [OF seg] assms(2) by (simp add: lists_chunks_def)
qed

text \<open>The last exchange was the registration of a pointer file with these segments, in a state \<open>before\<close>, and it was accepted.\<close>

definition registered ::
  "upload_client \<Rightarrow> 'w upload_net \<Rightarrow> ('w \<Rightarrow> bool) \<Rightarrow> byte list \<Rightarrow> uuid \<Rightarrow> uuid \<Rightarrow> int \<Rightarrow> pointerFileSegment list \<Rightarrow> 'w \<Rightarrow> bool" where
  "registered uc net before masterSecret ownerID fileID sz segs n' \<longleftrightarrow>
     (\<exists>req n. before n \<and> pointer_request (uc_crypto uc) masterSecret ownerID fileID segs sz [] (uc_signingKey uc) = Inr req \<and>
        un_register net req n = (Some 201, n'))"

lemma finishUpload_cases:
  assumes "finishUpload env uc net masterSecret ownerID fileID resp chunkIDs sz w = (r, w')"
  obtains (early) e where "r = Some e" "w' = w"
  | (posted) segs req s n where "pointer_segments uc masterSecret ownerID fileID (cr_Assignments resp) chunkIDs = Some segs"
      "pointer_request (uc_crypto uc) masterSecret ownerID fileID segs sz [] (uc_signingKey uc) = Inr req"
      "un_register net req (wd_net w) = (s, n)" "wd_net w' = n"
      "r \<noteq> None \<Longrightarrow> wd_disk w' = wd_disk w" "r = None \<Longrightarrow> s = Some 201 \<and> wd_disk w' = (wd_disk w)(fileID := None)"
proof (cases "pointer_segments uc masterSecret ownerID fileID (cr_Assignments resp) chunkIDs")
  case None
  with assms early show ?thesis by (auto simp: finishUpload_def)
next
  case segs: (Some segs)
  show ?thesis
  proof (cases "pointer_request (uc_crypto uc) masterSecret ownerID fileID segs sz [] (uc_signingKey uc)")
    case (Inl e)
    with assms segs early show ?thesis by (auto simp: finishUpload_def registerPointerFile_def)
  next
    case (Inr req)
    obtain s n where reg: "un_register net req (wd_net w) = (s, n)" by fastforce
    have "wd_net w' = n \<and> (r \<noteq> None \<longrightarrow> wd_disk w' = wd_disk w) \<and> (r = None \<longrightarrow> s = Some 201 \<and> wd_disk w' = (wd_disk w)(fileID := None))"
      using assms segs Inr reg
      by (auto simp: finishUpload_def registerPointerFile_def DeleteSessionState_def Let_def split: option.splits if_splits)
    with posted [OF segs Inr reg] show ?thesis by blast
  qed
qed

locale upload_service = rs_engine "uc_profile uc" "uc_engine uc" for uc :: upload_client +
  fixes net :: "'w upload_net" and fileID :: uuid and m :: nat and sz :: int
    and placed :: "'w \<Rightarrow> byte list list list \<Rightarrow> bool"
    and offered :: "'w \<Rightarrow> byte list \<Rightarrow> string list \<Rightarrow> bool"
    and stored :: "'w \<Rightarrow> string \<Rightarrow> byte list \<Rightarrow> byte list \<Rightarrow> bool"
  assumes assign_places: "placed n ids0 \<Longrightarrow> ids = ids0 \<or> (\<exists>x. ids = ids0 @ [x]) \<Longrightarrow> ids \<noteq> [] \<Longrightarrow> length ids \<le> m \<Longrightarrow>
      ids_wf (eng_TotalShards (uc_engine uc)) ids \<Longrightarrow> un_assign net (assign_request fileID m sz ids) n = (res, n') \<Longrightarrow>
      (placed n' ids0 \<or> placed n' ids) \<and> carries offered stored n n' \<and>
      (\<forall>resp. res = Some (200, resp) \<longrightarrow> placed n' ids \<and> covers (offered n') ids (cr_Assignments resp))"
    and send_keeps: "placed n ids \<Longrightarrow> un_send net peer addrs frame n = (r, n') \<Longrightarrow> placed n' ids \<and> carries offered stored n n'"
    and register_keeps: "placed n ids \<Longrightarrow> un_register net req n = (s, n') \<Longrightarrow> placed n' ids \<and> carries offered stored n n'"
    and send_stores: "placed n ids \<Longrightarrow> length token = 72 \<Longrightarrow> length d = ShardSize \<Longrightarrow> c = cc_sha (uc_crypto uc) d \<Longrightarrow> j < 256 \<Longrightarrow>
      un_send net peer addrs (writeUploadRequest c (int j) token d) n = (Some b, n') \<Longrightarrow> readUploadResponse b = Some st \<Longrightarrow>
      st = client_uploadStatusOK \<or> st = client_uploadStatusAlreadyStored \<Longrightarrow> stored n' peer c d"
begin

abbreviation shards_n :: nat where "shards_n \<equiv> eng_TotalShards (uc_engine uc)"
abbreviation hash_of :: hash where "hash_of \<equiv> cc_sha (uc_crypto uc)"
abbreviation chunk_ids :: "byte list list list \<Rightarrow> byte list list list" where "chunk_ids sd \<equiv> map (map hash_of) sd"
abbreviation good_session :: "byte list list list \<Rightarrow> 'w \<Rightarrow> SessionState \<Rightarrow> bool" where
  "good_session sd n \<equiv> session_good hash_of shards_n fileID sd sz (safe_at offered stored n)"
abbreviation good_world :: "byte list list list \<Rightarrow> 'w client_world \<Rightarrow> bool" where
  "good_world sd w \<equiv> placed (wd_net w) (chunk_ids sd) \<and> (\<exists>s. wd_disk w fileID = Some s \<and> good_session sd (wd_net w) s)"

lemma good_session_carries: "good_session sd n s \<Longrightarrow> carries offered stored n n' \<Longrightarrow> good_session sd n' s"
  by (erule session_good_mono) (rule safe_at_carries)

lemma shards_small: "shards_n < 256"
  using sizes(2) small by simp

lemma upload_one:
  assumes "placed n ids" and "good_session sd n sess" and "i < length sd" and "j < shards_n" and "offered n (hash_of (sd ! i ! j)) (ca_Multiaddrs sa)"
    and "uploadOneShard net sa (task_of hash_of sd i j) n = (res, n')"
  shows "placed n' ids \<and> carries offered stored n n' \<and>
    (\<forall>st. res = Inr st \<and> (st = client_uploadStatusOK \<or> st = client_uploadStatusAlreadyStored) \<longrightarrow>
       safe_at offered stored n' (hash_of (sd ! i ! j)) (sd ! i ! j))"
  using assms(6)
proof (cases rule: uploadOneShard_cases)
  case (sent peer addrs token resp)
  let ?c = "hash_of (sd ! i ! j)"
  have frame: "un_send net peer addrs (writeUploadRequest ?c (int j) token (sd ! i ! j)) n = (resp, n')"
    using sent(4) by (simp add: task_of_def)
  note kept = send_keeps [OF assms(1) frame]
  have len: "length (sd ! i ! j) = ShardSize"
    using assms(2-4) session_fits_at(5) [of hash_of shards_n sess i j] by (simp add: session_good_def)
  have "safe_at offered stored n' ?c (sd ! i ! j)"
    if st: "res = Inr st" "st = client_uploadStatusOK \<or> st = client_uploadStatusAlreadyStored" for st
  proof -
    from sent(5) [OF st(1)] obtain b where b: "resp = Some b" "readUploadResponse b = Some st" by blast
    have "stored n' peer ?c (sd ! i ! j)"
      by (rule send_stores [OF assms(1) sent(3) len refl _ frame [unfolded b(1)] b(2) st(2)]) (use assms(4) shards_small in simp)
    moreover have "offered n' ?c (ca_Multiaddrs sa)" using kept assms(5) by (simp add: carries_def)
    ultimately show ?thesis unfolding safe_at_def using sent(1) by blast
  qed
  with kept show ?thesis by blast
qed (use assms(1) in \<open>simp add: carries_refl\<close>)

lemma save_good:
  assumes "good_world sd w" and "good_session sd (wd_net w) sess" and "SaveSessionState env sess w = (e, w')"
  shows "good_world sd w' \<and> wd_net w' = wd_net w"
  using assms by (auto simp: SaveSessionState_def session_good_def split: if_splits)

lemma checkpoint_good:
  assumes "good_world sd w" and "good_session sd (wd_net w) (up_sess p)" and "checkpoint env p w = (p', w')"
  shows "good_world sd w' \<and> good_session sd (wd_net w') (up_sess p')"
proof -
  let ?w = "w\<lparr>wd_reads := Suc (wd_reads w)\<rparr>"
  obtain e v where save: "SaveSessionState env (up_sess p) ?w = (e, v)" by fastforce
  have "good_world sd v \<and> wd_net v = wd_net ?w" by (rule save_good [OF _ _ save]) (use assms(1,2) in simp_all)
  then show ?thesis using assms save by (auto simp: checkpoint_def Let_def split: if_splits option.splits)
qed

lemma report_good:
  assumes "good_world sd w" and "good_session sd (wd_net w) (up_sess p)" and "i < length sd" and "j < shards_n"
    and "\<forall>st. res = Inr st \<and> (st = client_uploadStatusOK \<or> st = client_uploadStatusAlreadyStored) \<longrightarrow>
       safe_at offered stored (wd_net w) (hash_of (sd ! i ! j)) (sd ! i ! j)"
    and "report env (task_of hash_of sd i j) res p w = (p', w')"
  shows "good_world sd w' \<and> good_session sd (wd_net w') (up_sess p')"
proof (cases "\<exists>st. res = Inr st \<and> (st = client_uploadStatusOK \<or> st = client_uploadStatusAlreadyStored)")
  case True
  let ?p = "p\<lparr>up_sess := set_ack (task_of hash_of sd i j) (up_sess p), up_success := True\<rparr>"
  have run: "checkpoint env ?p w = (p', w')"
    using True assms(6) by (auto simp: report_def client_uploadStatusOK_def client_uploadStatusAlreadyStored_def client_uploadStatusCapabilityExpired_def)
  have "good_session sd (wd_net w) (up_sess ?p)" using session_good_ack [OF assms(2-4)] True assms(5) by simp
  then show ?thesis by (rule checkpoint_good [OF assms(1) _ run])
next
  case False
  then show ?thesis using assms(1,2,6) by (auto simp: report_def split: sum.splits if_splits)
qed

lemma run_tasks_good:
  assumes "good_world sd w" and "good_session sd (wd_net w) (up_sess p)" and "covers (offered (wd_net w)) (chunk_ids sd) as"
    and "\<forall>t\<in>set ts. \<exists>i j. i < length sd \<and> j < shards_n \<and> t = task_of hash_of sd i j" and "run_tasks env net as ts p w = (p', w')"
  shows "good_world sd w' \<and> good_session sd (wd_net w') (up_sess p') \<and> carries offered stored (wd_net w) (wd_net w')"
  using assms
proof (induction ts arbitrary: p w)
  case Nil
  then show ?case by (auto simp: carries_refl)
next
  case (Cons t ts)
  from Cons.prems(4) obtain i j where ij: "i < length sd" "j < shards_n" "t = task_of hash_of sd i j" by auto
  have len: "length (sd ! i) = shards_n"
    using Cons.prems(2) ij(1) session_fits_at(2) [of hash_of shards_n "up_sess p" i] by (simp add: session_good_def)
  obtain sa where sa: "findShardAssignment as (int i) (int j) = Some sa" "offered (wd_net w) (hash_of (sd ! i ! j)) (ca_Multiaddrs sa)"
    using covers_find [OF Cons.prems(3), of i j] ij len by auto
  obtain res n where one: "uploadOneShard net sa t (wd_net w) = (res, n)" by fastforce
  obtain p1 w1 where rep: "report env t res p (w\<lparr>wd_net := n\<rparr>) = (p1, w1)" by fastforce
  have rest: "run_tasks env net as ts p1 w1 = (p', w')" using Cons.prems(5) sa(1) one rep ij(3) by (simp add: task_of_def)
  note up = upload_one [OF conjunct1 [OF Cons.prems(1)] Cons.prems(2) ij(1,2) sa(2) one [unfolded ij(3)]]
  have w: "good_world sd (w\<lparr>wd_net := n\<rparr>)" using Cons.prems(1) up by (auto intro: good_session_carries)
  have s: "good_session sd n (up_sess p)" using Cons.prems(2) up by (auto intro: good_session_carries)
  have step: "good_world sd w1 \<and> good_session sd (wd_net w1) (up_sess p1)"
    by (rule report_good [OF w _ ij(1,2) _ rep [unfolded ij(3)]]) (use s up in simp_all)
  have net: "wd_net w1 = n" using report_net [OF rep] by simp
  have "good_world sd w' \<and> good_session sd (wd_net w') (up_sess p') \<and> carries offered stored (wd_net w1) (wd_net w')"
    by (rule Cons.IH [OF conjunct1 [OF step] conjunct2 [OF step] _ _ rest])
      (use Cons.prems(3,4) covers_carries up net in auto)
  with up net show ?case by (auto intro: carries_trans)
qed

lemma uploadTasks_good:
  assumes "good_world sd w" and "good_session sd (wd_net w) sess" and "covers (offered (wd_net w)) (chunk_ids sd) as"
    and "\<forall>t\<in>set (ue_order env again ts). \<exists>i j. i < length sd \<and> j < shards_n \<and> t = task_of hash_of sd i j"
    and "uploadTasks env net again as ts sess w = (x, y, sess', w')"
  shows "good_world sd w' \<and> good_session sd (wd_net w') sess' \<and> carries offered stored (wd_net w) (wd_net w')"
proof -
  let ?p = "\<lparr>up_sess = sess, up_expired = False, up_success = False, up_err = False, up_checkpoint = None\<rparr>"
  obtain p1 w1 where run: "run_tasks env net as (ue_order env again ts) ?p w = (p1, w1)" by fastforce
  note good = run_tasks_good [OF assms(1) _ assms(3,4) run, simplified, OF assms(2)]
  obtain e w2 where save: "SaveSessionState env (up_sess p1) w1 = (e, w2)" by fastforce
  note saved = save_good [OF _ _ save, of sd]
  show ?thesis using assms(5) run save good saved by (auto simp: uploadTasks_def split: if_splits option.splits)
qed

lemma request_good:
  assumes "placed (wd_net w) ids0" and "ids = ids0 \<or> (\<exists>x. ids = ids0 @ [x])" and "ids \<noteq> []" and "length ids \<le> m"
    and "ids_wf shards_n ids" and "requestAssignment net fileID (int m) sz (map Some ids @ replicate (m - length ids) None) w = (res, w')"
  shows "carries offered stored (wd_net w) (wd_net w') \<and> wd_disk w' = wd_disk w \<and> (placed (wd_net w') ids0 \<or> placed (wd_net w') ids) \<and>
    (\<forall>resp. res = Inr resp \<longrightarrow> placed (wd_net w') ids \<and> covers (offered (wd_net w')) ids (cr_Assignments resp))"
proof -
  obtain r n where run: "un_assign net (assign_request fileID m sz ids) (wd_net w) = (r, n)" by fastforce
  have w': "w' = w\<lparr>wd_net := n\<rparr>" "\<And>resp. res = Inr resp \<Longrightarrow> r = Some (200, resp)"
    using assms(6) run by (auto simp: requestAssignment_def assign_request_def split: option.splits if_splits)
  from assign_places [OF assms(1-5) run] w' show ?thesis by auto
qed

lemma good_session_ids:
  assumes "good_session sd n sess"
  shows "ss_ChunkIDs sess = map Some (chunk_ids sd)" and "ids_wf shards_n (chunk_ids sd)"
  using assms by (auto simp: session_good_def session_fits_def ids_wf_def)

lemma good_world_carries:
  "good_world sd w \<Longrightarrow> carries offered stored (wd_net w) (wd_net w') \<Longrightarrow> wd_disk w' = wd_disk w \<Longrightarrow> placed (wd_net w') (chunk_ids sd) \<Longrightarrow> good_world sd w'"
  by (auto intro: good_session_carries)

lemma all_acked:
  assumes "good_session sd n sess" and "covers P (chunk_ids sd) as" and "pendingTasks as sd sess = Some []" and "i < length sd" and "j < shards_n"
  shows "acked sess i j"
proof -
  have fits: "session_fits hash_of shards_n sess" and sd: "ss_ShardData sess = sd" using assms(1) by (simp_all add: session_good_def)
  have j: "j < length (chunk_ids sd ! i)" using session_fits_at(2) [OF fits, of i] sd assms(4,5) by simp
  let ?seg = "as ! i" and ?sa = "cg_Providers (as ! i) ! j"
  have idx: "?seg \<in> set as" "?sa \<in> set (cg_Providers ?seg)" "cg_SegmentIndex ?seg = int i" "ca_ShardIndex ?sa = int j"
    using assms(2,4) j by (simp_all add: covers_def)
  from pendingTasks_fits(2) [OF fits assms(3) [folded sd] idx(1,2) refl] idx(3,4) show ?thesis by force
qed

lemma tasks_shape:
  assumes "good_session sd n sess" and "pendingTasks as sd sess = Some ts" and "set ts' = set ts"
  shows "\<forall>t\<in>set ts'. \<exists>i j. i < length sd \<and> j < shards_n \<and> t = task_of hash_of sd i j"
proof
  fix t assume "t \<in> set ts'"
  moreover have fits: "session_fits hash_of shards_n sess" and sd: "ss_ShardData sess = sd" using assms(1) by (simp_all add: session_good_def)
  ultimately show "\<exists>i j. i < length sd \<and> j < shards_n \<and> t = task_of hash_of sd i j"
    using pendingTasks_fits(1) [OF fits assms(2) [folded sd]] assms(3) by blast
qed

lemma transfer_round:
  assumes "good_world sd w" and "good_session sd (wd_net w) sess" and "covers (offered (wd_net w)) (chunk_ids sd) as"
    and "length sd = m" and "sd \<noteq> []" and "\<And>b ts. set (ue_order env b ts) = set ts"
    and "transfer_loop env net fileID sd reassigned as sess w = (r, sess', w')"
  obtains (finished) "good_world sd w'" "good_session sd (wd_net w') sess'" "r = None \<Longrightarrow> \<forall>i<length sd. \<forall>j. j < shards_n \<longrightarrow> acked sess' i j"
  | (again) as' s1 w1 where "\<not> reassigned" "good_world sd w1" "good_session sd (wd_net w1) s1" "covers (offered (wd_net w1)) (chunk_ids sd) as'"
      "transfer_loop env net fileID sd True as' s1 w1 = (r, sess', w')"
proof -
  note loop = assms(7) [unfolded transfer_loop.simps [of env net fileID sd reassigned as sess w]]
  show thesis
  proof (cases "pendingTasks as sd sess")
    case None
    with loop have "r \<noteq> None" "sess' = sess" "w' = w" by auto
    with assms(1,2) finished show thesis by blast
  next
    case (Some ts)
    show thesis
    proof (cases "ts = []")
      case True
      with loop Some have "r = None" "sess' = sess" "w' = w" by simp_all
      with assms(1,2) finished all_acked [OF assms(2,3)] Some True show thesis by blast
    next
      case False
      obtain x y s1 w1 where up: "uploadTasks env net reassigned as ts sess w = (x, y, s1, w1)" by (metis prod_cases4)
      note g = uploadTasks_good [OF assms(1-3) tasks_shape [OF assms(2) Some assms(6)] up]
      have cov: "covers (offered (wd_net w1)) (chunk_ids sd) as" using g assms(3) by (blast intro: covers_carries)
      have g1: "good_world sd w1" "good_session sd (wd_net w1) s1" using g by blast+
      have s1: "ss_OriginalSizeBytes s1 = sz" using g by (simp add: session_good_def)
      show thesis
      proof (cases "x \<and> \<not> reassigned")
        case False
        then have fin: "sess' = s1" "w' = w1" "r = None \<Longrightarrow> pendingTasks as sd s1 = Some []"
          using loop Some \<open>ts \<noteq> []\<close> up by (auto split: if_splits option.splits list.splits)
        show thesis
        proof (rule finished)
          show "\<forall>i<length sd. \<forall>j. j < shards_n \<longrightarrow> acked sess' i j" if "r = None"
            using all_acked [OF g1(2) cov fin(3) [OF that]] fin(1) by blast
        qed (use g1 fin in simp_all)
      next
        case True
        obtain res w2 where req: "requestAssignment net fileID (int (length sd)) (ss_OriginalSizeBytes s1) (ss_ChunkIDs s1) w1 = (res, w2)" by fastforce
        then have req': "requestAssignment net fileID (int m) sz (map Some (chunk_ids sd) @ replicate (m - length (chunk_ids sd)) None) w1 = (res, w2)"
          using good_session_ids(1) [OF g1(2)] s1 assms(4) by simp
        have rg: "carries offered stored (wd_net w1) (wd_net w2) \<and> wd_disk w2 = wd_disk w1 \<and> placed (wd_net w2) (chunk_ids sd) \<and>
            (\<forall>resp. res = Inr resp \<longrightarrow> covers (offered (wd_net w2)) (chunk_ids sd) (cr_Assignments resp))"
          using request_good [OF conjunct1 [OF g1(1)] _ _ _ good_session_ids(2) [OF g1(2)] req'] assms(4,5) by auto
        have g2: "good_world sd w2" by (rule good_world_carries [OF g1(1)]) (use rg in blast)+
        have s2: "good_session sd (wd_net w2) s1" using good_session_carries [OF g1(2)] rg by blast
        have step: "(case res of Inl e \<Rightarrow> (Some e, s1, w2)
            | Inr fresh \<Rightarrow> (case verifyAssignedChunkIDsMatch (Some fresh) (ss_ChunkIDs s1) of
                 Some e \<Rightarrow> (Some e, s1, w2)
               | None \<Rightarrow> transfer_loop env net fileID sd True (cr_Assignments fresh) s1 w2)) = (r, sess', w')"
          using loop Some \<open>ts \<noteq> []\<close> up True req by (simp split: sum.splits)
        show thesis
        proof (cases "\<exists>fresh. res = Inr fresh \<and> verifyAssignedChunkIDsMatch (Some fresh) (ss_ChunkIDs s1) = None")
          case True
          then obtain fresh where fresh: "res = Inr fresh" "verifyAssignedChunkIDsMatch (Some fresh) (ss_ChunkIDs s1) = None" by blast
          with step have "transfer_loop env net fileID sd True (cr_Assignments fresh) s1 w2 = (r, sess', w')" by simp
          then show thesis using again \<open>x \<and> \<not> reassigned\<close> g2 s2 rg fresh(1) by blast
        next
          case False
          with step have "(\<exists>e. (Some e, s1, w2) = (r, sess', w'))" by (auto split: sum.splits option.splits dest: sym)
          then have "r \<noteq> None" "sess' = s1" "w' = w2" by auto
          with finished g2 s2 show thesis by blast
        qed
      qed
    qed
  qed
qed

lemma transfer_good:
  assumes "good_world sd w" and "good_session sd (wd_net w) sess" and "covers (offered (wd_net w)) (chunk_ids sd) as"
    and "length sd = m" and "sd \<noteq> []" and "\<And>b ts. set (ue_order env b ts) = set ts"
    and "transfer_loop env net fileID sd reassigned as sess w = (r, sess', w')"
  shows "good_world sd w' \<and> good_session sd (wd_net w') sess' \<and>
    (r = None \<longrightarrow> (\<forall>i<length sd. \<forall>j. j < shards_n \<longrightarrow> acked sess' i j))"
proof (cases rule: transfer_round [OF assms])
  case 2
  show ?thesis by (cases rule: transfer_round [OF 2(2-4) assms(4-6) 2(5)]) auto
qed blast

lemma encode_one_shape:
  assumes "encode_one env uc plaintext i = Inr shards"
  shows "length shards = shards_n" and "\<forall>d\<in>set shards. length d = ShardSize"
proof -
  from assms obtain pkg where "EncodeSegment (uc_engine uc) pkg = Inr shards" by (auto simp: encode_one_def split: sum.splits)
  from encode_total(1,2) [OF this] show "length shards = shards_n" "\<forall>d\<in>set shards. length d = ShardSize"
    by (auto simp: in_set_conv_nth)
qed

lemma encoded_shape:
  assumes "encoded env uc plaintext sd"
  shows "\<forall>shards\<in>set sd. length shards = shards_n \<and> (\<forall>d\<in>set shards. length d = ShardSize)" and "ids_wf shards_n (chunk_ids sd)"
proof -
  show sh: "\<forall>shards\<in>set sd. length shards = shards_n \<and> (\<forall>d\<in>set shards. length d = ShardSize)"
    using assms encode_one_shape by (fastforce simp: encoded_def in_set_conv_nth)
  then show "ids_wf shards_n (chunk_ids sd)" by (auto simp: ids_wf_def)
qed

lemma upload_segments_good:
  assumes "placed (wd_net w) (chunk_ids sd)" and "encoded env uc plaintext sd" and "length sd + left = m" and "int (length plaintext) = sz"
    and "upload_segments env uc net fileID plaintext left (chunk_ids sd) sd resp w = (res, w')"
    and "left = 0 \<Longrightarrow> \<exists>r. resp = Some r \<and> covers (offered (wd_net w)) (chunk_ids sd) (cr_Assignments r)"
  shows "wd_disk w' = wd_disk w \<and>
    (\<forall>x. res = Inr x \<longrightarrow> (\<exists>sd' r. x = (chunk_ids sd', sd', Some r) \<and> encoded env uc plaintext sd' \<and> length sd' = m \<and>
       placed (wd_net w') (chunk_ids sd') \<and> covers (offered (wd_net w')) (chunk_ids sd') (cr_Assignments r)))"
  using assms
proof (induction left arbitrary: sd resp w)
  case 0
  then show ?case by auto
next
  case (Suc left)
  show ?case
  proof (cases "encode_one env uc plaintext (length sd)")
    case (Inl e)
    with Suc.prems(5) show ?thesis by auto
  next
    case (Inr shards)
    let ?sd = "sd @ [shards]"
    have enc: "encoded env uc plaintext ?sd" by (rule encoded_snoc [OF Suc.prems(2) Inr])
    obtain r1 w1 where req: "requestAssignment net fileID (int m) sz (map Some (chunk_ids ?sd) @ replicate (m - length (chunk_ids ?sd)) None) w = (r1, w1)"
      by fastforce
    have eqs: "1 + int (length sd) + int left = int m" "m - Suc (length sd) = left" using Suc.prems(3) by simp_all
    have g: "wd_disk w1 = wd_disk w \<and> (\<forall>resp. r1 = Inr resp \<longrightarrow> placed (wd_net w1) (chunk_ids ?sd) \<and>
        covers (offered (wd_net w1)) (chunk_ids ?sd) (cr_Assignments resp))"
      using request_good [OF Suc.prems(1) _ _ _ encoded_shape(2) [OF enc] req] Suc.prems(3) by simp
    have step: "(case (r1, w1) of (Inl e, w) \<Rightarrow> (Inl e, w)
        | (Inr resp, w) \<Rightarrow> upload_segments env uc net fileID plaintext left (chunk_ids sd @ [map hash_of shards]) ?sd (Some resp) w) = (res, w')"
      using Suc.prems(4,5) Inr req eqs by (simp add: Let_def)
    show ?thesis
    proof (cases r1)
      case (Inl e)
      with step g show ?thesis by auto
    next
      case (Inr resp1)
      with step have run: "upload_segments env uc net fileID plaintext left (chunk_ids ?sd) ?sd (Some resp1) w1 = (res, w')" by simp
      have d: "wd_disk w1 = wd_disk w" using g by blast
      show ?thesis unfolding d [symmetric] by (rule Suc.IH [OF _ enc _ Suc.prems(4) run]) (use Suc.prems(3) g Inr in simp_all)
    qed
  qed
qed

lemma finish_good:
  assumes "good_world sd w" and "\<forall>x\<in>set sd. length x = shards_n"
    and "finishUpload env uc net masterSecret ownerID fileID resp (map Some (chunk_ids sd)) sz w = (r, w')"
  shows "placed (wd_net w') (chunk_ids sd) \<and> carries offered stored (wd_net w) (wd_net w') \<and> (r \<noteq> None \<longrightarrow> good_world sd w') \<and>
    (r = None \<longrightarrow> wd_disk w' fileID = None \<and>
       (\<exists>segs. lists_chunks uc (chunk_ids sd) segs \<and> registered uc net (\<lambda>n. placed n (chunk_ids sd)) masterSecret ownerID fileID sz segs (wd_net w')))"
  using assms(3)
proof (cases rule: finishUpload_cases)
  case (early e)
  then show ?thesis using assms(1) by (auto simp: carries_refl)
next
  case (posted segs req s n)
  have keep: "placed (wd_net w') (chunk_ids sd)" "carries offered stored (wd_net w) (wd_net w')"
    using register_keeps [OF conjunct1 [OF assms(1)] posted(3)] posted(4) by simp_all
  have "\<forall>x\<in>set (chunk_ids sd). length x = nat (TotalShards (uc_profile uc))" using assms(2) sizes(2) by auto
  from pointer_segments_shape [OF posted(1) this] have "lists_chunks uc (chunk_ids sd) segs" .
  moreover have "registered uc net (\<lambda>n. placed n (chunk_ids sd)) masterSecret ownerID fileID sz segs (wd_net w')" if "r = None"
    using posted that assms(1) by (auto simp: registered_def)
  moreover have "good_world sd w'" if "r \<noteq> None" by (rule good_world_carries [OF assms(1) keep(2) posted(5) [OF that] keep(1)])
  ultimately show ?thesis using keep posted(6) by auto
qed

text \<open>What a completed upload means, and that an interrupted one leaves a session from which it can be resumed.\<close>

abbreviation complete :: "byte list list list \<Rightarrow> byte list \<Rightarrow> uuid \<Rightarrow> 'w client_world \<Rightarrow> bool" where
  "complete sd masterSecret ownerID w \<equiv>
     placed (wd_net w) (chunk_ids sd) \<and> wd_disk w fileID = None \<and>
     (\<forall>i<length sd. \<forall>j. j < shards_n \<longrightarrow> safe_at offered stored (wd_net w) (hash_of (sd ! i ! j)) (sd ! i ! j)) \<and>
     (\<exists>segs. lists_chunks uc (chunk_ids sd) segs \<and> registered uc net (\<lambda>n. placed n (chunk_ids sd)) masterSecret ownerID fileID sz segs (wd_net w))"

lemma all_safe:
  assumes "good_session sd n sess" and "\<forall>i<length sd. \<forall>j. j < shards_n \<longrightarrow> acked sess i j" and "carries offered stored n n'"
  shows "\<forall>i<length sd. \<forall>j. j < shards_n \<longrightarrow> safe_at offered stored n' (hash_of (sd ! i ! j)) (sd ! i ! j)"
  using assms by (auto simp: session_good_def intro: safe_at_carries)

lemma transfer_and_finish:
  assumes "good_world sd w" and "good_session sd (wd_net w) sess" and "covers (offered (wd_net w)) (chunk_ids sd) (cr_Assignments resp)"
    and "length sd = m" and "sd \<noteq> []" and "\<And>b ts. set (ue_order env b ts) = set ts"
    and "transferAll env net fileID resp sd sess w = (r1, s1, w1)"
    and "r1 = None \<Longrightarrow> finishUpload env uc net masterSecret ownerID fileID resp (map Some (chunk_ids sd)) sz w1 = (r, w')"
    and "r1 \<noteq> None \<Longrightarrow> r = r1 \<and> w' = w1"
  shows "if r = None then complete sd masterSecret ownerID w' else good_world sd w'"
proof -
  note t = transfer_good [OF assms(1-6) assms(7) [unfolded transferAll_def]]
  have shape: "\<forall>x\<in>set sd. length x = shards_n" using assms(2) by (simp add: session_good_def session_fits_def)
  show ?thesis
  proof (cases "r1 = None")
    case True
    note f = finish_good [OF conjunct1 [OF t] shape assms(8) [OF True]]
    have "\<forall>i<length sd. \<forall>j. j < shards_n \<longrightarrow> safe_at offered stored (wd_net w') (hash_of (sd ! i ! j)) (sd ! i ! j)"
      by (rule all_safe [of sd "wd_net w1" s1]) (use t f True in blast)+
    with f show ?thesis by simp
  next
    case False
    with assms(9) t show ?thesis by auto
  qed
qed

lemma new_session_good:
  assumes "encoded env uc plaintext sd"
  shows "session_good hash_of shards_n fileID sd sz P (new_session uc fileID (chunk_ids sd) sd sz)"
proof -
  have n: "nat (TotalShards (uc_profile uc)) = shards_n" using sizes(2) by simp
  have "\<not> acked (new_session uc fileID (chunk_ids sd) sd sz) i j" if "i < length sd" "j < shards_n" for i j
    using that by (simp add: acked_def new_session_def n)
  then show ?thesis
    using encoded_shape(1) [OF assms] by (auto simp: session_good_def session_fits_def new_session_def n)
qed

lemma distribute_good:
  assumes "placed (wd_net w) (chunk_ids sd)" and "encoded env uc plaintext sd" and "length sd = m" and "sd \<noteq> []"
    and "covers (offered (wd_net w)) (chunk_ids sd) (cr_Assignments resp)" and "\<And>b ts. set (ue_order env b ts) = set ts"
    and "distribute env uc net masterSecret ownerID fileID sz (chunk_ids sd) sd (Some resp) w = (r, w')"
  shows "r \<noteq> None \<and> wd_disk w' = wd_disk w \<or> (if r = None then complete sd masterSecret ownerID w' else good_world sd w')"
proof -
  let ?sess = "new_session uc fileID (chunk_ids sd) sd sz"
  obtain e w2 where save: "SaveSessionState env ?sess w = (e, w2)" by fastforce
  obtain r1 s1 w3 where tr: "transferAll env net fileID resp sd ?sess w2 = (r1, s1, w3)" by (metis prod_cases3)
  obtain r2 w4 where fin: "finishUpload env uc net masterSecret ownerID fileID resp (map Some (chunk_ids sd)) sz w3 = (r2, w4)" by fastforce
  show ?thesis
  proof (cases "verifyAssignedChunkIDsMatch (Some resp) (map Some (chunk_ids sd)) = None \<and> e = None")
    case False
    then have "r \<noteq> None \<and> wd_disk w' = wd_disk w"
    proof (cases "verifyAssignedChunkIDsMatch (Some resp) (map Some (chunk_ids sd))")
      case None
      with False obtain e' where "e = Some e'" by auto
      with None save assms(7) have "r = e" "w' = w2" by (simp_all add: distribute_def Let_def)
      with save \<open>e = Some e'\<close> show ?thesis by (auto simp: SaveSessionState_def split: if_splits)
    next
      case (Some e')
      with assms(7) have "r = Some e' \<and> w' = w" by (auto simp: distribute_def)
      then show ?thesis by simp
    qed
    then show ?thesis ..
  next
    case True
    have sess: "good_session sd (wd_net w2) ?sess" by (rule new_session_good [OF assms(2)])
    have w2: "wd_net w2 = wd_net w" "wd_disk w2 fileID = Some ?sess"
      using save True by (auto simp: SaveSessionState_def new_session_def split: if_splits)
    have "(r, w') = (if r1 = None then (r2, w4) else (r1, w3))"
      using assms(7) save True tr fin by (cases r1) (auto simp: distribute_def Let_def)
    then have eqs: "r1 = None \<Longrightarrow> r2 = r \<and> w4 = w'" "r1 \<noteq> None \<Longrightarrow> r = r1 \<and> w' = w3" by (auto split: if_splits)
    have "if r = None then complete sd masterSecret ownerID w' else good_world sd w'"
      by (rule transfer_and_finish [OF _ sess _ assms(3,4,6) tr]) (use w2 sess assms(1,5) eqs fin in auto)
    then show ?thesis ..
  qed
qed

lemma UploadFile_good:
  assumes "placed (wd_net w) []" and "ue_fileID env = Some fileID" and "m = numSegments_of (uc_profile uc) plaintext" and "sz = int (length plaintext)"
    and "\<And>b ts. set (ue_order env b ts) = set ts" and "UploadFile env uc net masterSecret ownerID plaintext w = (fid, r, w')"
  shows "fid = fileID \<and>
    (r \<noteq> None \<and> wd_disk w' = wd_disk w \<or>
     (\<exists>sd. encoded env uc plaintext sd \<and> length sd = m \<and> (if r = None then complete sd masterSecret ownerID w' else good_world sd w')))"
proof (cases "plaintextSegmentSize (uc_profile uc) \<le> 0")
  case True
  then show ?thesis using assms(2,6) by (auto simp: UploadFile_def Let_def)
next
  case False
  let ?k = "ceilDivInt (int (length plaintext)) (plaintextSegmentSize (uc_profile uc))"
  have m: "nat (if ?k = 0 then 1 else ?k) = m" using assms(3) by (simp add: numSegments_of_def Let_def)
  have "0 \<le> ?k" using False by (auto simp: ceilDivInt_def intro!: div_int_pos_iff [THEN iffD2])
  then have pos: "0 < m" using m by (auto split: if_splits)
  obtain res w1 where segs: "upload_segments env uc net fileID plaintext m [] [] None w = (res, w1)" by fastforce
  have g: "wd_disk w1 = wd_disk w \<and> (\<forall>x. res = Inr x \<longrightarrow> (\<exists>sd' r. x = (chunk_ids sd', sd', Some r) \<and> encoded env uc plaintext sd' \<and> length sd' = m \<and>
     placed (wd_net w1) (chunk_ids sd') \<and> covers (offered (wd_net w1)) (chunk_ids sd') (cr_Assignments r)))"
    by (rule upload_segments_good [of w "[]" env plaintext m None]) (use assms(1,4) segs pos in \<open>simp_all add: encoded_def\<close>)
  have run: "(case res of Inl e \<Rightarrow> (fileID, Some e, w1)
      | Inr (ids, sd, resp) \<Rightarrow> (fileID, distribute env uc net masterSecret ownerID fileID sz ids sd resp w1)) = (fid, r, w')"
    unfolding assms(4) using assms(2,6) False segs m by (simp add: UploadFile_def Let_def)
  show ?thesis
  proof (cases res)
    case (Inl e)
    with run g show ?thesis by auto
  next
    case (Inr x)
    with g obtain sd resp where x: "res = Inr (chunk_ids sd, sd, Some resp)" "encoded env uc plaintext sd" "length sd = m"
      "placed (wd_net w1) (chunk_ids sd)" "covers (offered (wd_net w1)) (chunk_ids sd) (cr_Assignments resp)" by blast
    with run have dist: "distribute env uc net masterSecret ownerID fileID sz (chunk_ids sd) sd (Some resp) w1 = (r, w')" and fid: "fid = fileID" by auto
    have "sd \<noteq> []" using x(3) pos by auto
    from distribute_good [OF x(4,2,3) this x(5) assms(5) dist] fid g x(2,3) show ?thesis by auto
  qed
qed

lemma resume_transfer_good:
  assumes "good_world sd w" and "good_session sd (wd_net w) sess" and "covers (offered (wd_net w)) (chunk_ids sd) (cr_Assignments resp)"
    and "length sd = m" and "sd \<noteq> []" and "\<And>b ts. set (ue_order env b ts) = set ts"
    and "resume_transfer env uc net masterSecret ownerID fileID sess resp w = (r, w')"
  shows "if r = None then complete sd masterSecret ownerID w' else good_world sd w'"
proof -
  let ?acks = "list_all (list_all id) (ss_AckStatus sess)" and ?ids = "map Some (chunk_ids sd)"
  have fields: "ss_OriginalSizeBytes sess = sz" "ss_ShardData sess = sd" "ss_ChunkIDs sess = ?ids"
    "length (ss_AckStatus sess) = length sd" "\<forall>acks\<in>set (ss_AckStatus sess). length acks = shards_n" "\<forall>x\<in>set sd. length x = shards_n"
    using assms(2) good_session_ids(1) [OF assms(2)] by (simp_all add: session_good_def session_fits_def)
  note run = assms(7) [unfolded resume_transfer_def fields(1-3)]
  show ?thesis
  proof (cases "verifyAssignedChunkIDsMatch (Some resp) ?ids")
    case (Some e)
    with run have "r = Some e \<and> w' = w" by auto
    with assms(1) show ?thesis by auto
  next
    case None
    obtain r1 s2 w2 where tr: "(if ?acks then (None, sess, w) else transferAll env net fileID resp sd sess w) = (r1, s2, w2)" by (metis prod_cases3)
    obtain r2 w3 where fin: "finishUpload env uc net masterSecret ownerID fileID resp ?ids sz w2 = (r2, w3)" by fastforce
    have eq: "(if r1 = None then (r2, w3) else (r1, w2)) = (r, w')" using run None tr fin by (cases r1) auto
    show ?thesis
    proof (cases ?acks)
      case False
      with tr have "transferAll env net fileID resp sd sess w = (r1, s2, w2)" by simp
      then show ?thesis
        by (rule transfer_and_finish [OF assms(1-6)]) (use fin eq in \<open>auto split: if_splits\<close>)
    next
      case True
      have ack: "\<forall>i<length sd. \<forall>j. j < shards_n \<longrightarrow> acked sess i j"
        using True fields(4,5) by (simp add: acked_def list_all_length)
      have eqs: "w2 = w" "r2 = r" "w3 = w'" using tr eq True by auto
      note f = finish_good [OF assms(1) fields(6) fin [unfolded eqs]]
      from all_safe [OF assms(2) ack conjunct1 [OF conjunct2 [OF f]]] f show ?thesis by simp
    qed
  qed
qed

lemma ResumeUpload_good:
  assumes "good_world sd w" and "length sd = m" and "sd \<noteq> []" and "\<And>b ts. set (ue_order env b ts) = set ts"
    and "ResumeUpload env uc net masterSecret ownerID fileID w = (r, w')"
  shows "if r = None then complete sd masterSecret ownerID w' else good_world sd w'"
proof -
  obtain sess where sess: "wd_disk w fileID = Some sess" "good_session sd (wd_net w) sess" using assms(1) by blast
  have fields: "ss_FileID sess = fileID" "ss_OriginalSizeBytes sess = sz" "ss_ChunkIDs sess = map Some (chunk_ids sd)"
    using sess(2) good_session_ids(1) [OF sess(2)] by (simp_all add: session_good_def)
  obtain res w1 where req: "requestAssignment net fileID (int m) sz (map Some (chunk_ids sd) @ replicate (m - length (chunk_ids sd)) None) w = (res, w1)"
    by fastforce
  have g: "carries offered stored (wd_net w) (wd_net w1) \<and> wd_disk w1 = wd_disk w \<and> placed (wd_net w1) (chunk_ids sd) \<and>
      (\<forall>resp. res = Inr resp \<longrightarrow> covers (offered (wd_net w1)) (chunk_ids sd) (cr_Assignments resp))"
    using request_good [OF conjunct1 [OF assms(1)] _ _ _ good_session_ids(2) [OF sess(2)] req] assms(2,3) by auto
  have w1: "good_world sd w1" by (rule good_world_carries [OF assms(1)]) (use g in blast)+
  have s1: "good_session sd (wd_net w1) sess" using good_session_carries [OF sess(2)] g by blast
  have run: "(if \<not> ue_load env then (Some USession, w)
      else case res of Inl e \<Rightarrow> (Some e, w1) | Inr resp \<Rightarrow> resume_transfer env uc net masterSecret ownerID fileID sess resp w1) = (r, w')"
    using assms(2,5) sess(1) fields req by (simp add: ResumeUpload_def LoadSessionState_def split: if_splits)
  show ?thesis
  proof (cases "\<exists>resp. ue_load env \<and> res = Inr resp")
    case True
    then obtain resp where resp: "ue_load env" "res = Inr resp" by blast
    with run have run': "resume_transfer env uc net masterSecret ownerID fileID sess resp w1 = (r, w')" by simp
    show ?thesis by (rule resume_transfer_good [OF w1 s1 _ assms(2-4) run']) (use g resp in blast)
  next
    case False
    with run have "\<exists>e. r = Some e \<and> (w' = w \<or> w' = w1)" by (auto split: if_splits sum.splits)
    with assms(1) w1 show ?thesis by auto
  qed
qed

end

end
