(* ===== verification/Retrieve.thy ===== *)
theory Retrieve
  imports ClientUpload
begin

text \<open>
  The retrieval orchestrator of the client, \<^verbatim>\<open>internal/client/retrieve\<close> (\<^verbatim>\<open>orchestrator.go\<close>, \<^verbatim>\<open>download.go\<close>, \<^verbatim>\<open>decode.go\<close>). The two REST calls and the
  download streams are functions of the request; a download may be answered differently for every segment and shard. The goroutines of a
  segment are modelled by the order in which their results arrive, a list of shard indices. Everything that \<^verbatim>\<open>fetchOneShard\<close> reports as an error is
  dropped by its caller, so it returns an option.
\<close>

subsection \<open>Resolution\<close>

record resolvedShard =
  rv_multiaddrs :: "string list"
  rv_multiaddrStale :: bool
  rv_downloadToken :: string

record retrieve_net =
  rn_pointer :: "uuid \<Rightarrow> (pointerFileResponse http) option"
  rn_resolve :: "uuid \<Rightarrow> (nat \<times> RetrieveResolveResponseBody) option"
  rn_fetch :: "int \<Rightarrow> nat \<Rightarrow> string \<Rightarrow> multiaddr list \<Rightarrow> byte list \<Rightarrow> byte list option"
  rn_order :: "int \<Rightarrow> nat list"

record retrieve_client =
  rt_crypto :: client_crypto
  rt_keystream :: keystream
  rt_engine :: Engine
  rt_profile :: NetworkProfile
  rt_aesNI :: bool

datatype retrieve_error =
    RPointer client_error | RHTTP | RHTTPStatus nat | RTooFewShards nat | RErasure rs_error | RAont aont_error
  | RShort nat | RPanic

definition resolved_shard :: "RetrieveShardBody \<Rightarrow> resolvedShard" where
  "resolved_shard b = \<lparr>rv_multiaddrs = rs_Multiaddrs b, rv_multiaddrStale = rs_MultiaddrStale b, rv_downloadToken = rs_DownloadToken b\<rparr>"

definition resolveFileForRetrieval :: "retrieve_net \<Rightarrow> uuid \<Rightarrow> retrieve_error + (string \<rightharpoonup> resolvedShard)" where
  "resolveFileForRetrieval net fileID =
     (case rn_resolve net fileID of
        None \<Rightarrow> Inl RHTTP
      | Some (st, resp) \<Rightarrow>
          if st \<noteq> 200 then Inl (RHTTPStatus st)
          else Inr (fold (\<lambda>b m. m(rs_ChunkID b \<mapsto> resolved_shard b)) (concat (map rg_Shards (rr_Segments resp))) Map.empty))"

subsection \<open>Download\<close>

definition client_downloadFrame1PayloadBytes :: nat where "client_downloadFrame1PayloadBytes = 32 + 8 + 64"
definition client_downloadTokenByteLen :: nat where "client_downloadTokenByteLen = 72"
definition client_downloadStatusOK :: byte where "client_downloadStatusOK = 0x00"

definition writeChunkDownloadRequest :: "byte list \<Rightarrow> byte list \<Rightarrow> byte list \<Rightarrow> byte list" where
  "writeChunkDownloadRequest chunkID expiryBytes capSig =
     be_u32 (int client_downloadFrame1PayloadBytes) @ chunkID @ expiryBytes @ capSig"

definition readChunkDownloadResponse :: "byte list \<Rightarrow> (byte \<times> byte list) option" where
  "readChunkDownloadResponse s =
     (case read_frame s of
        None \<Rightarrow> None
      | Some body \<Rightarrow>
          if body = [] then None
          else Some (hd body, if hd body = client_downloadStatusOK then tl body else []))"

text \<open>A chunk that was not resolved has the zero value: no addresses and an empty token.\<close>

definition fetchOneShard ::
  "hash \<Rightarrow> (string \<Rightarrow> multiaddr list \<Rightarrow> byte list \<Rightarrow> byte list option) \<Rightarrow> string \<Rightarrow> resolvedShard option \<Rightarrow> byte list option" where
  "fetchOneShard sha dial chunkIDHex shard =
     (let shard = (case shard of None \<Rightarrow> \<lparr>rv_multiaddrs = [], rv_multiaddrStale = False, rv_downloadToken = []\<rparr> | Some s \<Rightarrow> s)
      in case (hex_decode chunkIDHex, hex_decode (rv_downloadToken shard)) of
           (Some chunkID, Some token) \<Rightarrow>
             if length chunkID \<noteq> 32 \<or> length token \<noteq> client_downloadTokenByteLen then None
             else (case resolveDownloadPeer (rv_multiaddrs shard) of
                     Inl _ \<Rightarrow> None
                   | Inr (peerID, addrs) \<Rightarrow>
                       (case dial peerID addrs (writeChunkDownloadRequest chunkID (slice 0 8 token) (slice 8 72 token)) of
                          None \<Rightarrow> None
                        | Some s \<Rightarrow>
                            (case readChunkDownloadResponse s of
                               None \<Rightarrow> None
                             | Some (st, data) \<Rightarrow>
                                 if st \<noteq> client_downloadStatusOK then None
                                 else if sha data \<noteq> chunkID then None
                                 else Some data)))
         | _ \<Rightarrow> None)"

text \<open>The loop over the results, until \<open>need\<close> shards have arrived.\<close>

fun collect_results :: "nat \<Rightarrow> (nat \<times> byte list) list \<Rightarrow> nat \<Rightarrow> shards \<Rightarrow> nat \<times> shards" where
  "collect_results need [] got shards = (got, shards)"
| "collect_results need ((i, d) # rs) got shards =
     (let (got, shards) = (if shards ! i = None then (Suc got, shards[i := Some d]) else (got, shards))
      in if need \<le> got then (got, shards) else collect_results need rs got shards)"

definition shard_results :: "(nat \<Rightarrow> byte list option) \<Rightarrow> nat list \<Rightarrow> (nat \<times> byte list) list" where
  "shard_results fetch order = concat (map (\<lambda>i. case fetch i of None \<Rightarrow> [] | Some d \<Rightarrow> [(i, d)]) order)"

definition downloadSegment ::
  "retrieve_client \<Rightarrow> retrieve_net \<Rightarrow> pointerFileSegment \<Rightarrow> (string \<rightharpoonup> resolvedShard) \<Rightarrow> retrieve_error + shards" where
  "downloadSegment rc net seg resolved =
     (let need = nat (DataShards (rt_profile rc)); k = pf_SegmentIndex seg; n = length (pf_ProviderIDs seg)
      in if length (pf_ChunkIDs seg) < n then Inl RPanic
         else
           let fetch = (\<lambda>i. let chunkIDHex = pf_ChunkIDs seg ! i
                            in fetchOneShard (cc_sha (rt_crypto rc)) (rn_fetch net k i) chunkIDHex (resolved chunkIDHex));
               (got, shards) = collect_results need (shard_results fetch (rn_order net k)) 0 (replicate n None)
           in if got < need then Inl (RTooFewShards got) else Inr shards)"

subsection \<open>Decoding\<close>

definition decodeSegment :: "retrieve_client \<Rightarrow> shards \<Rightarrow> retrieve_error + byte list" where
  "decodeSegment rc shards =
     (case DecodeSegment (rt_engine rc) shards of
        Inl e \<Rightarrow> Inl (RErasure e)
      | Inr (aontPkg, _) \<Rightarrow>
          (case AONTDecodePackage (cc_sha (rt_crypto rc)) (rt_keystream rc) aontPkg (rt_aesNI rc) of
             Inl e \<Rightarrow> Inl (RAont e)
           | Inr plaintext \<Rightarrow> Inr plaintext))"

fun retrieve_segments ::
  "retrieve_client \<Rightarrow> retrieve_net \<Rightarrow> (string \<rightharpoonup> resolvedShard) \<Rightarrow> pointerFileSegment list \<Rightarrow> byte list \<Rightarrow> retrieve_error + byte list" where
  "retrieve_segments rc net resolved [] out = Inr out"
| "retrieve_segments rc net resolved (seg # segs) out =
     (case downloadSegment rc net seg resolved of
        Inl e \<Rightarrow> Inl e
      | Inr shards \<Rightarrow>
          (case decodeSegment rc shards of
             Inl e \<Rightarrow> Inl e
           | Inr segPlain \<Rightarrow> retrieve_segments rc net resolved segs (out @ segPlain)))"

text \<open>
  Segments with the same index, whose order \<^verbatim>\<open>sort.Slice\<close> leaves open, keep their order here. A negative size is not
  below the length and panics when it is used as the bound of a slice.
\<close>

definition RetrieveFile ::
  "retrieve_client \<Rightarrow> retrieve_net \<Rightarrow> byte list \<Rightarrow> uuid \<Rightarrow> uuid \<Rightarrow> retrieve_error + byte list" where
  "RetrieveFile rc net masterSecret ownerID fileID =
     (case fetchAndDecryptPointerFile (rt_crypto rc) (rn_pointer net) masterSecret ownerID fileID of
        Inl e \<Rightarrow> Inl (RPointer e)
      | Inr (segs, originalSizeBytes) \<Rightarrow>
          (case resolveFileForRetrieval net fileID of
             Inl e \<Rightarrow> Inl e
           | Inr resolved \<Rightarrow>
               (case retrieve_segments rc net resolved (sort_key pf_SegmentIndex segs) [] of
                  Inl e \<Rightarrow> Inl e
                | Inr out \<Rightarrow>
                    if int (length out) < originalSizeBytes then Inl (RShort (length out))
                    else if originalSizeBytes < 0 then Inl RPanic
                    else Inr (take (nat originalSizeBytes) out))))"

subsection \<open>Lemmas: collecting shards\<close>

text \<open>The counter counts the slots that are filled, and every filled slot holds a result.\<close>

lemma collect_results_sound:
  assumes "collect_results need rs got shards = (got', shards')" and "\<forall>(i, d)\<in>set rs. i < length shards" and "got = non_nil shards"
    and "\<forall>(i, d)\<in>set rs. P i d" and "\<forall>i<length shards. \<forall>d. shards ! i = Some d \<longrightarrow> P i d"
  shows "length shards' = length shards \<and> got' = non_nil shards' \<and> (\<forall>i<length shards. \<forall>d. shards' ! i = Some d \<longrightarrow> P i d)"
  using assms
proof (induction rs arbitrary: got shards)
  case (Cons r rs)
  obtain i d where r: "r = (i, d)" by fastforce
  define g1 where "g1 = (if shards ! i = None then Suc got else got)"
  define s1 where "s1 = (if shards ! i = None then shards[i := Some d] else shards)"
  have i: "i < length shards" "P i d" using Cons.prems(2,4) r by auto
  have len: "length s1 = length shards" by (simp add: s1_def)
  have g: "g1 = non_nil s1" using Cons.prems(3) i non_nil_update [of i shards d] by (simp add: g1_def s1_def)
  have p: "\<forall>i<length s1. \<forall>d. s1 ! i = Some d \<longrightarrow> P i d" using Cons.prems(5) i by (auto simp: s1_def nth_list_update)
  have run: "(if need \<le> g1 then (g1, s1) else collect_results need rs g1 s1) = (got', shards')"
    using Cons.prems(1) r by (auto simp: g1_def s1_def Let_def split: if_splits)
  show ?case
  proof (cases "need \<le> g1")
    case True
    with run g p len show ?thesis by auto
  next
    case False
    with run have "collect_results need rs g1 s1 = (got', shards')" by simp
    from Cons.IH [OF this _ g _ p] Cons.prems(2,4) len show ?thesis by auto
  qed
qed auto

lemma collect_results_enough:
  assumes "distinct (map fst rs)" and "\<forall>i\<in>fst ` set rs. i < length shards \<and> shards ! i = None" and "need \<le> got + length rs" and "rs \<noteq> [] \<or> need \<le> got"
  shows "need \<le> fst (collect_results need rs got shards)"
  using assms
proof (induction rs arbitrary: got shards)
  case (Cons r rs)
  obtain i d where r: "r = (i, d)" by fastforce
  have i: "i < length shards" "shards ! i = None" "i \<notin> fst ` set rs" using Cons.prems(1,2) r by auto
  show ?case
  proof (cases "need \<le> Suc got")
    case True
    with r i show ?thesis by simp
  next
    case False
    have "need \<le> fst (collect_results need rs (Suc got) (shards[i := Some d]))"
    proof (rule Cons.IH)
      show "\<forall>k\<in>fst ` set rs. k < length (shards[i := Some d]) \<and> shards[i := Some d] ! k = None"
      proof
        fix k assume k: "k \<in> fst ` set rs"
        then have "k \<noteq> i" using i(3) by blast
        with k Cons.prems(2) show "k < length (shards[i := Some d]) \<and> shards[i := Some d] ! k = None" by auto
      qed
      show "rs \<noteq> [] \<or> need \<le> Suc got" using Cons.prems(3) False by auto
    qed (use Cons.prems(1,3) in auto)
    with r i False show ?thesis by simp
  qed
qed simp

lemma shard_results_set: "(i, d) \<in> set (shard_results fetch order) \<longleftrightarrow> i \<in> set order \<and> fetch i = Some d"
  by (auto simp: shard_results_def split: option.splits)

lemma shard_results_distinct: "distinct order \<Longrightarrow> distinct (map fst (shard_results fetch order))"
proof (induction order)
  case (Cons i order)
  have "i \<notin> fst ` set (shard_results fetch order)" using Cons.prems shard_results_set [of _ _ fetch order] by force
  then show ?case using Cons by (auto simp: shard_results_def split: option.splits)
qed (simp add: shard_results_def)

lemma shard_results_length: "length (shard_results fetch order) = length (filter (\<lambda>i. fetch i \<noteq> None) order)"
  by (induction order) (auto simp: shard_results_def split: option.splits)

subsection \<open>Lemmas: one segment\<close>

text \<open>The data that some peer delivers during the retrieval.\<close>

definition delivered :: "retrieve_net \<Rightarrow> byte list set" where
  "delivered net =
     {d. \<exists>k i peer addrs frame s. rn_fetch net k i peer addrs frame = Some s \<and>
        readChunkDownloadResponse s = Some (client_downloadStatusOK, d)}"

text \<open>No delivered data collides with a shard of the file under the hash.\<close>

definition no_collision :: "hash \<Rightarrow> retrieve_net \<Rightarrow> byte list list list \<Rightarrow> bool" where
  "no_collision sha net sd \<longleftrightarrow> (\<forall>shards\<in>set sd. \<forall>c\<in>set shards. \<forall>d\<in>delivered net. sha d = sha c \<longrightarrow> d = c)"

lemma fetchOneShard_Some:
  assumes "fetchOneShard sha (rn_fetch net k i) (hex_encode c) r = Some d"
  shows "sha d = c \<and> d \<in> delivered net"
  using assms by (fastforce simp: fetchOneShard_def Let_def delivered_def split: option.splits sum.splits prod.splits if_splits)

lemma downloadSegment_sound:
  assumes "pf_ChunkIDs seg = map hex_encode (map (cc_sha (rt_crypto rc)) cw)" and "length (pf_ProviderIDs seg) = length cw"
    and "\<forall>c\<in>set cw. \<forall>d\<in>delivered net. cc_sha (rt_crypto rc) d = cc_sha (rt_crypto rc) c \<longrightarrow> d = c"
    and "set (rn_order net (pf_SegmentIndex seg)) \<subseteq> {..<length cw}" and "downloadSegment rc net seg resolved = Inr kept"
  shows "erased cw kept \<and> nat (DataShards (rt_profile rc)) \<le> non_nil kept"
proof -
  let ?k = "pf_SegmentIndex seg" and ?need = "nat (DataShards (rt_profile rc))" and ?sha = "cc_sha (rt_crypto rc)"
  define fetch where "fetch = (\<lambda>i. fetchOneShard ?sha (rn_fetch net ?k i) (pf_ChunkIDs seg ! i) (resolved (pf_ChunkIDs seg ! i)))"
  let ?rs = "shard_results fetch (rn_order net ?k)"
  obtain got where run: "collect_results ?need ?rs 0 (replicate (length cw) None) = (got, kept)" "?need \<le> got"
    using assms(5,2,1) by (auto simp: downloadSegment_def Let_def fetch_def split: prod.splits if_splits)
  have res: "i < length cw \<and> d = cw ! i" if "(i, d) \<in> set ?rs" for i d
  proof -
    have i: "i < length cw" "fetch i = Some d" using that assms(4) by (auto simp: shard_results_set)
    then have "fetchOneShard ?sha (rn_fetch net ?k i) (hex_encode (?sha (cw ! i))) (resolved (pf_ChunkIDs seg ! i)) = Some d"
      using assms(1) by (simp add: fetch_def)
    from fetchOneShard_Some [OF this] assms(3) i(1) show ?thesis by (metis nth_mem)
  qed
  have "length kept = length cw \<and> got = non_nil kept \<and> (\<forall>i<length cw. \<forall>d. kept ! i = Some d \<longrightarrow> d = cw ! i)"
    using collect_results_sound [OF run(1), of "\<lambda>i d. d = cw ! i"] res by (fastforce simp: non_nil_def)
  with run(2) show ?thesis unfolding erased_def by (metis not_None_eq)
qed

lemma downloadSegment_enough:
  assumes "length (pf_ChunkIDs seg) = length (pf_ProviderIDs seg)" and "0 < nat (DataShards (rt_profile rc))"
    and "distinct (rn_order net (pf_SegmentIndex seg))" and "set (rn_order net (pf_SegmentIndex seg)) \<subseteq> {..<length (pf_ProviderIDs seg)}"
    and "nat (DataShards (rt_profile rc)) \<le> length (filter (\<lambda>i. fetchOneShard (cc_sha (rt_crypto rc)) (rn_fetch net (pf_SegmentIndex seg) i)
           (pf_ChunkIDs seg ! i) (resolved (pf_ChunkIDs seg ! i)) \<noteq> None) (rn_order net (pf_SegmentIndex seg)))"
  shows "\<exists>kept. downloadSegment rc net seg resolved = Inr kept"
proof -
  let ?k = "pf_SegmentIndex seg" and ?need = "nat (DataShards (rt_profile rc))" and ?sha = "cc_sha (rt_crypto rc)"
  define fetch where "fetch = (\<lambda>i. fetchOneShard ?sha (rn_fetch net ?k i) (pf_ChunkIDs seg ! i) (resolved (pf_ChunkIDs seg ! i)))"
  let ?rs = "shard_results fetch (rn_order net ?k)"
  have n: "?need \<le> length ?rs" using assms(5) by (simp add: shard_results_length fetch_def)
  have "?need \<le> fst (collect_results ?need ?rs 0 (replicate (length (pf_ProviderIDs seg)) None))"
  proof (rule collect_results_enough)
    show "distinct (map fst ?rs)" by (rule shard_results_distinct [OF assms(3)])
    show "\<forall>i\<in>fst ` set ?rs. i < length (replicate (length (pf_ProviderIDs seg)) None) \<and> replicate (length (pf_ProviderIDs seg)) None ! i = None"
      using assms(4) shard_results_set [of _ _ fetch "rn_order net ?k"] by fastforce
  qed (use n assms(2) in auto)
  then show ?thesis using assms(1) by (auto simp: downloadSegment_def Let_def fetch_def split: prod.splits)
qed

subsection \<open>Lemmas: the plaintext\<close>

lemma segment_plain_eq: "segment_plain n pt i = take n (drop (i * n) pt) @ replicate (n - (length pt - i * n)) 0"
proof (cases "i * n < length pt")
  case True
  have "slice (i * n) (min (i * n + n) (length pt)) pt = take n (drop (i * n) pt)"
    using True by (simp add: slice_def min_def not_le)
  with True show ?thesis by (simp add: segment_plain_def Let_def copy_slice_def)
next
  case False
  then show ?thesis by (simp add: segment_plain_def)
qed

lemma length_segment_plain [simp]: "length (segment_plain n pt i) = n"
  by (simp add: segment_plain_eq)

lemma concat_segment_plain: "concat (map (segment_plain n pt) [0..<k]) = take (k * n) pt @ replicate (k * n - length pt) 0"
proof (induction k)
  case (Suc k)
  have "take (k * n) pt @ replicate (k * n - length pt) 0 @ take n (drop (k * n) pt) @ replicate (n - (length pt - k * n)) (0 :: byte) =
      take (Suc k * n) pt @ replicate (Suc k * n - length pt) 0"
  proof (cases "k * n \<le> length pt")
    case True
    then have "Suc k * n - length pt = n - (length pt - k * n)" by simp
    with True show ?thesis by (simp add: take_add add.commute [of n])
  next
    case False
    then have e: "Suc k * n - length pt = (k * n - length pt) + n" "n - (length pt - k * n) = n" by simp_all
    show ?thesis unfolding e replicate_add using False by simp
  qed
  with Suc show ?case by (simp add: segment_plain_eq)
qed simp

lemma segments_suffice:
  assumes "0 < plaintextSegmentSize profile"
  shows "length pt \<le> numSegments_of profile pt * nat (plaintextSegmentSize profile)"
proof (cases "pt = []")
  case False
  let ?s = "plaintextSegmentSize profile" and ?a = "int (length pt)"
  let ?k = "(?a + ?s - 1) div ?s"
  have a: "1 \<le> ?a" using False by (cases pt) auto
  have "?s div ?s \<le> ?k" by (rule zdiv_mono1) (use a assms in linarith)+
  then have k: "1 \<le> ?k" using assms by simp
  have "(?a + ?s - 1) mod ?s < ?s" using assms by simp
  then have "?a \<le> ?k * ?s" using div_mult_mod_eq [of "?a + ?s - 1" ?s] by linarith
  then have "?a \<le> int (nat ?k * nat ?s)" using k assms by simp
  moreover have "numSegments_of profile pt = nat ?k" using False k by (simp add: numSegments_of_def ceilDivInt_def Let_def)
  ultimately show ?thesis by (simp only: of_nat_le_iff)
qed simp

text \<open>What is padded beyond the file is zero.\<close>

definition padded :: "NetworkProfile \<Rightarrow> byte list \<Rightarrow> byte list" where
  "padded profile pt =
     pt @ replicate (numSegments_of profile pt * nat (plaintextSegmentSize profile) - length pt) 0"

lemma padded_eq:
  assumes "0 < plaintextSegmentSize profile"
  shows "padded profile pt = concat (map (segment_plain (nat (plaintextSegmentSize profile)) pt) [0..<numSegments_of profile pt])"
  using segments_suffice [OF assms, of pt] by (simp add: padded_def concat_segment_plain)

subsection \<open>Lemmas: decoding what was encoded\<close>

text \<open>The uploading and the retrieving client share the primitives, the profile and the choice of the cipher.\<close>

definition same_client :: "upload_client \<Rightarrow> retrieve_client \<Rightarrow> bool" where
  "same_client uc rc \<longleftrightarrow>
     cc_sha (rt_crypto rc) = cc_sha (uc_crypto uc) \<and> rt_keystream rc = uc_keystream uc \<and> rt_engine rc = uc_engine uc \<and>
     rt_profile rc = uc_profile uc \<and> rt_aesNI rc = uc_aesNI uc"

definition random_keys :: "upload_env \<Rightarrow> bool" where
  "random_keys env \<longleftrightarrow> (\<forall>i K. ue_rnd env i = Some K \<longrightarrow> length K = 32)"

lemma AONTEncodeSegment_Inr:
  "AONTEncodeSegment sha ks rnd seg aes = Inr pkg \<Longrightarrow> \<exists>K. rnd = Some K \<and> seg \<noteq> [] \<and> 16 dvd length seg"
  by (auto simp: AONTEncodeSegment_def aontWordSize_def mod_eq_0_iff_dvd split: if_splits option.splits)

lemma encode_one_package:
  assumes "encode_one env uc pt i = Inr cw" and "random_keys env"
  obtains K where "ue_rnd env i = Some K" "length K = 32" "segment_plain (nat (plaintextSegmentSize (uc_profile uc))) pt i \<noteq> []"
    "16 dvd length (segment_plain (nat (plaintextSegmentSize (uc_profile uc))) pt i)"
    "EncodeSegment (uc_engine uc) (aont_package (cc_sha (uc_crypto uc)) (uc_keystream uc) K
       (segment_plain (nat (plaintextSegmentSize (uc_profile uc))) pt i) (uc_aesNI uc)) = Inr cw"
proof -
  let ?seg = "segment_plain (nat (plaintextSegmentSize (uc_profile uc))) pt i"
  from assms(1) obtain pkg where pkg: "AONTEncodeSegment (cc_sha (uc_crypto uc)) (uc_keystream uc) (ue_rnd env i) ?seg (uc_aesNI uc) = Inr pkg"
    "EncodeSegment (uc_engine uc) pkg = Inr cw" by (auto simp: encode_one_def split: sum.splits)
  then obtain K where K: "ue_rnd env i = Some K" "?seg \<noteq> []" "16 dvd length ?seg"
    using AONTEncodeSegment_Inr by blast
  have len: "length K = 32" using assms(2) K(1) by (simp add: random_keys_def)
  have "pkg = aont_package (cc_sha (uc_crypto uc)) (uc_keystream uc) K ?seg (uc_aesNI uc)"
    using pkg(1) AONTEncodeSegment_eq [OF K(2,3) len] K(1) by simp
  with that [OF K(1) len K(2,3)] pkg(2) show thesis by simp
qed

lemma decodeSegment_encoded:
  assumes "NewEngine (uc_profile uc) = Inr (uc_engine uc)" and "TotalShards (uc_profile uc) \<le> 255" and "same_client uc rc" and "random_keys env"
    and "encode_one env uc pt i = Inr cw" and "erased cw kept" and "nat (DataShards (rt_profile rc)) \<le> non_nil kept"
  shows "decodeSegment rc kept = Inr (segment_plain (nat (plaintextSegmentSize (uc_profile uc))) pt i)"
proof -
  note eng = rs_engine.intro [OF assms(1,2)]
  obtain K where K: "length K = 32" "segment_plain (nat (plaintextSegmentSize (uc_profile uc))) pt i \<noteq> []"
    "16 dvd length (segment_plain (nat (plaintextSegmentSize (uc_profile uc))) pt i)"
    "EncodeSegment (uc_engine uc) (aont_package (cc_sha (uc_crypto uc)) (uc_keystream uc) K
       (segment_plain (nat (plaintextSegmentSize (uc_profile uc))) pt i) (uc_aesNI uc)) = Inr cw"
    by (rule encode_one_package [OF assms(5,4)])
  have "eng_DataShards (uc_engine uc) \<le> non_nil kept"
    using assms(3,7) rs_engine.sizes(1) [OF eng] by (simp add: same_client_def)
  from rs_engine.encode_total(3) [OF eng K(4) assms(6) this] obtain out where
    "DecodeSegment (uc_engine uc) kept = Inr (aont_package (cc_sha (uc_crypto uc)) (uc_keystream uc) K
       (segment_plain (nat (plaintextSegmentSize (uc_profile uc))) pt i) (uc_aesNI uc), out)" by blast
  with aont_roundtrip_aux(2) [OF K(2,3,1)] assms(3) show ?thesis by (simp add: decodeSegment_def same_client_def)
qed

lemma retrieve_segments_sound:
  assumes "\<forall>seg\<in>set segs. \<forall>kept. downloadSegment rc net seg resolved = Inr kept \<longrightarrow> decodeSegment rc kept = Inr (f seg)"
    and "retrieve_segments rc net resolved segs out = Inr out'"
  shows "out' = out @ concat (map f segs)"
  using assms
proof (induction segs arbitrary: out)
  case (Cons seg segs)
  then obtain kept where "downloadSegment rc net seg resolved = Inr kept" by (auto split: sum.splits)
  with Cons.prems have "retrieve_segments rc net resolved segs (out @ f seg) = Inr out'" by simp
  from Cons.IH [OF _ this] Cons.prems(1) show ?case by simp
qed simp

lemma retrieve_segments_complete:
  assumes "\<forall>seg\<in>set segs. \<exists>kept. downloadSegment rc net seg resolved = Inr kept \<and> decodeSegment rc kept = Inr (f seg)"
  shows "retrieve_segments rc net resolved segs out = Inr (out @ concat (map f segs))"
  using assms by (induction segs arbitrary: out) auto

subsection \<open>Lemmas: the file\<close>

lemma lists_chunks_sorted:
  assumes "lists_chunks uc ids segs"
  shows "sort_key pf_SegmentIndex segs = segs" and "map (\<lambda>s. nat (pf_SegmentIndex s)) segs = [0..<length ids]"
proof -
  have eq: "map pf_SegmentIndex segs = map int [0..<length ids]"
    using assms by (intro nth_equalityI) (simp_all add: lists_chunks_def)
  then show "sort_key pf_SegmentIndex segs = segs" by (intro sort_key_id_if_sorted) (simp add: sorted_map)
  show "map (\<lambda>s. nat (pf_SegmentIndex s)) segs = [0..<length ids]"
    using arg_cong [OF eq, of "map nat"] by (simp add: comp_def)
qed

text \<open>Whatever was downloaded of a segment decodes to the padded plaintext of the segment.\<close>

lemma segment_decodes:
  assumes "NewEngine (uc_profile uc) = Inr (uc_engine uc)" and "TotalShards (uc_profile uc) \<le> 255" and "same_client uc rc" and "random_keys env"
    and "encoded env uc pt sd" and "lists_chunks uc (map (map (cc_sha (uc_crypto uc))) sd) segs" and "no_collision (cc_sha (uc_crypto uc)) net sd"
    and "\<forall>k. set (rn_order net k) \<subseteq> {..<eng_TotalShards (uc_engine uc)}" and "seg \<in> set segs" and "downloadSegment rc net seg resolved = Inr kept"
  shows "decodeSegment rc kept = Inr (segment_plain (nat (plaintextSegmentSize (uc_profile uc))) pt (nat (pf_SegmentIndex seg)))"
proof -
  note eng = rs_engine.intro [OF assms(1,2)]
  from assms(9,6) obtain i where i: "i < length sd" "seg = segs ! i" "pf_SegmentIndex seg = int i"
    "pf_ChunkIDs seg = map hex_encode (map (cc_sha (uc_crypto uc)) (sd ! i))" "length (pf_ProviderIDs seg) = nat (TotalShards (uc_profile uc))"
    by (auto simp: lists_chunks_def in_set_conv_nth)
  have enc: "encode_one env uc pt i = Inr (sd ! i)" using assms(5) i(1) by (simp add: encoded_def)
  then obtain pkg where "EncodeSegment (uc_engine uc) pkg = Inr (sd ! i)" by (auto simp: encode_one_def split: sum.splits)
  then have len: "length (sd ! i) = eng_TotalShards (uc_engine uc)" by (rule rs_engine.encode_total(1) [OF eng])
  have sha: "cc_sha (rt_crypto rc) = cc_sha (uc_crypto uc)" using assms(3) by (simp add: same_client_def)
  have "erased (sd ! i) kept \<and> nat (DataShards (rt_profile rc)) \<le> non_nil kept"
  proof (rule downloadSegment_sound [OF _ _ _ _ assms(10)])
    show "length (pf_ProviderIDs seg) = length (sd ! i)" using i(5) len rs_engine.sizes(2) [OF eng] by simp
    show "\<forall>c\<in>set (sd ! i). \<forall>d\<in>delivered net. cc_sha (rt_crypto rc) d = cc_sha (rt_crypto rc) c \<longrightarrow> d = c"
      using assms(7) i(1) unfolding no_collision_def sha by (meson nth_mem)
  qed (use i(4) len assms(8) sha in simp_all)
  with decodeSegment_encoded [OF assms(1-4) enc, of kept] i(3) show ?thesis by simp
qed

text \<open>
  The pointer file that the microservice delivers is not a forgery: if it opens under the owner's key, then it is what the owner sealed, the
  encryption of the registered segments under the delivered nonce. Nothing is said of ciphertexts that are not delivered.
\<close>

definition unforged ::
  "client_crypto \<Rightarrow> (uuid \<Rightarrow> (pointerFileResponse http) option) \<Rightarrow> byte list \<Rightarrow> uuid \<Rightarrow> uuid \<Rightarrow> pointerFileSegment list \<Rightarrow> bool" where
  "unforged cc get masterSecret ownerID fileID segs \<longleftrightarrow>
     (\<forall>st resp ciphertext nonce tag key p.
        get fileID = Some (Inr (st, resp)) \<and> b64_decode (pr_PointerCiphertext resp) = Some ciphertext \<and>
        b64_decode (pr_PointerNonce resp) = Some nonce \<and> b64_decode (pr_PointerTag resp) = Some tag \<and>
        DerivePointerEncKey (cc_hkdf cc) masterSecret ownerID fileID = Some key \<and>
        DecryptPointerFile (cc_open cc) key nonce (pointerAAD ownerID fileID) (ciphertext @ tag) = Inr p \<longrightarrow>
        (\<exists>b. marshalPointerFilePlaintext segs = Some b \<and>
           EncryptPointerFile (cc_seal cc) key nonce (pointerAAD ownerID fileID) b = Inr (ciphertext @ tag)))"

lemma fetch_unforged:
  assumes "aead_correct (cc_seal cc) (cc_open cc)" and "unforged cc get masterSecret ownerID fileID segs"
    and "list_all segment_wf segs" and "length segs < 2 ^ 32"
    and "fetchAndDecryptPointerFile cc get masterSecret ownerID fileID = Inr (segs', sz)"
  shows "segs' = segs"
proof -
  from assms(5) obtain st resp ciphertext nonce tag key p where *: "get fileID = Some (Inr (st, resp))"
    "b64_decode (pr_PointerCiphertext resp) = Some ciphertext" "b64_decode (pr_PointerNonce resp) = Some nonce"
    "b64_decode (pr_PointerTag resp) = Some tag" "DerivePointerEncKey (cc_hkdf cc) masterSecret ownerID fileID = Some key"
    "DecryptPointerFile (cc_open cc) key nonce (pointerAAD ownerID fileID) (ciphertext @ tag) = Inr p"
    "unmarshalPointerFilePlaintext p = Some segs'"
    by (auto simp: fetchAndDecryptPointerFile_def split: option.splits sum.splits if_splits prod.splits key_error.splits)
  with assms(2) obtain b where b: "marshalPointerFilePlaintext segs = Some b"
    "EncryptPointerFile (cc_seal cc) key nonce (pointerAAD ownerID fileID) b = Inr (ciphertext @ tag)"
    unfolding unforged_def by blast
  then have "p = b"
    using *(6) DecryptAEAD_EncryptAEAD [OF assms(1), of key nonce "pointerAAD ownerID fileID" b]
    by (auto simp: EncryptPointerFile_def DecryptPointerFile_def split: if_splits)
  moreover have "unmarshalPointerFilePlaintext b = Some segs"
    by (rule pointer_layout [OF assms(3,4)]) (use b(1) in simp)
  ultimately show ?thesis using *(7) by simp
qed

lemma concat_padded:
  assumes "0 < plaintextSegmentSize profile" and "map (\<lambda>s. nat (pf_SegmentIndex s)) segs = [0..<numSegments_of profile pt]"
  shows "concat (map (\<lambda>s. segment_plain (nat (plaintextSegmentSize profile)) pt (nat (pf_SegmentIndex s))) segs) = padded profile pt"
  using arg_cong [OF assms(2), of "map (segment_plain (nat (plaintextSegmentSize profile)) pt)"]
  by (simp add: padded_eq [OF assms(1)] comp_def)

lemma encoded_segment_size:
  assumes "encoded env uc pt sd" and "sd \<noteq> []"
  shows "0 < plaintextSegmentSize (uc_profile uc)"
proof -
  have "encode_one env uc pt 0 = Inr (sd ! 0)" using assms by (auto simp: encoded_def)
  then obtain pkg where "AONTEncodeSegment (cc_sha (uc_crypto uc)) (uc_keystream uc) (ue_rnd env 0)
      (segment_plain (nat (plaintextSegmentSize (uc_profile uc))) pt 0) (uc_aesNI uc) = Inr pkg" by (auto simp: encode_one_def split: sum.splits)
  then have "segment_plain (nat (plaintextSegmentSize (uc_profile uc))) pt 0 \<noteq> []" using AONTEncodeSegment_Inr by blast
  then show ?thesis by (cases "0 < plaintextSegmentSize (uc_profile uc)") (simp_all add: segment_plain_eq)
qed

subsection \<open>Properties\<close>

text \<open>
  C36: nobody can make the client accept altered data. Whatever the microservice and the providers answer, in whatever order the
  shards arrive, if \<^verbatim>\<open>RetrieveFile\<close> returns something then it is a prefix of the uploaded plaintext padded with
  zeros. This rests on the hash (no delivered data collides with a shard) and on the authenticated encryption: opening what was sealed
  gives the plaintext, and the delivered pointer file, if it opens under the owner's key, is what the owner sealed. The
  length of the prefix is what the microservice says.
\<close>

theorem retrieved_file_intact:
  assumes "NewEngine (uc_profile uc) = Inr (uc_engine uc)" and "TotalShards (uc_profile uc) \<le> 255" and "same_client uc rc" and "random_keys env"
    and "encoded env uc pt sd" and "length sd = numSegments_of (uc_profile uc) pt" and "sd \<noteq> []"
    and "lists_chunks uc (map (map (cc_sha (uc_crypto uc))) sd) segs" and "list_all segment_wf segs" and "length segs < 2 ^ 32"
    and "aead_correct (cc_seal (rt_crypto rc)) (cc_open (rt_crypto rc))"
    and "unforged (rt_crypto rc) (rn_pointer net) masterSecret ownerID fileID segs" and "no_collision (cc_sha (uc_crypto uc)) net sd"
    and "\<forall>k. set (rn_order net k) \<subseteq> {..<eng_TotalShards (uc_engine uc)}" and "RetrieveFile rc net masterSecret ownerID fileID = Inr out"
  shows "\<exists>n\<le>length (padded (uc_profile uc) pt). out = take n (padded (uc_profile uc) pt)"
proof -
  from assms(15) obtain segs' sz resolved whole where run: "fetchAndDecryptPointerFile (rt_crypto rc) (rn_pointer net) masterSecret ownerID fileID = Inr (segs', sz)"
    "retrieve_segments rc net resolved (sort_key pf_SegmentIndex segs') [] = Inr whole" "sz \<le> int (length whole)" "out = take (nat sz) whole"
    by (auto simp: RetrieveFile_def split: sum.splits prod.splits if_splits)
  have "segs' = segs" by (rule fetch_unforged [OF assms(11,12,9,10) run(1)])
  then have rs: "retrieve_segments rc net resolved segs [] = Inr whole" using run(2) lists_chunks_sorted(1) [OF assms(8)] by simp
  have "whole = [] @ concat (map (\<lambda>s. segment_plain (nat (plaintextSegmentSize (uc_profile uc))) pt (nat (pf_SegmentIndex s))) segs)"
    by (rule retrieve_segments_sound [OF _ rs]) (use segment_decodes [OF assms(1-5,8,13,14)] in blast)
  then have "whole = padded (uc_profile uc) pt"
    using concat_padded [OF encoded_segment_size [OF assms(5,7)], of segs pt] lists_chunks_sorted(2) [OF assms(8)] assms(6) by simp
  with run(3,4) show ?thesis by (intro exI [of _ "nat sz"]) auto
qed

text \<open>Enough providers of the segment deliver their shard.\<close>

definition answered :: "retrieve_client \<Rightarrow> retrieve_net \<Rightarrow> (string \<rightharpoonup> resolvedShard) \<Rightarrow> pointerFileSegment \<Rightarrow> bool" where
  "answered rc net resolved seg \<longleftrightarrow>
     distinct (rn_order net (pf_SegmentIndex seg)) \<and> set (rn_order net (pf_SegmentIndex seg)) \<subseteq> {..<length (pf_ProviderIDs seg)} \<and>
     nat (DataShards (rt_profile rc)) \<le> length (filter (\<lambda>i. fetchOneShard (cc_sha (rt_crypto rc)) (rn_fetch net (pf_SegmentIndex seg) i)
       (pf_ChunkIDs seg ! i) (resolved (pf_ChunkIDs seg ! i)) \<noteq> None) (rn_order net (pf_SegmentIndex seg)))"

lemma answered_download:
  assumes "NewEngine (uc_profile uc) = Inr (uc_engine uc)" and "TotalShards (uc_profile uc) \<le> 255" and "rt_profile rc = uc_profile uc"
    and "lists_chunks uc ids segs" and "ids_wf (eng_TotalShards (uc_engine uc)) ids" and "seg \<in> set segs" and "answered rc net resolved seg"
  shows "\<exists>kept. downloadSegment rc net seg resolved = Inr kept"
proof (rule downloadSegment_enough)
  note eng = rs_engine.intro [OF assms(1,2)]
  have "nat (TotalShards (uc_profile uc)) = eng_TotalShards (uc_engine uc)" using rs_engine.sizes(2) [OF eng] by simp
  moreover obtain i where i: "i < length ids" "seg = segs ! i" using assms(4,6) by (auto simp: lists_chunks_def in_set_conv_nth)
  ultimately show "length (pf_ChunkIDs seg) = length (pf_ProviderIDs seg)"
    using assms(4,5) nth_mem [OF i(1)] by (simp add: lists_chunks_def ids_wf_def)
  have "1 \<le> DataShards (uc_profile uc)" using assms(1) by (auto simp: NewEngine_def profileConsistencyCheck_def split: option.splits if_splits)
  then show "0 < nat (DataShards (rt_profile rc))" using assms(3) by simp
qed (use assms(7) in \<open>simp_all add: answered_def\<close>)

lemma RetrieveFile_eq:
  assumes "NewEngine (uc_profile uc) = Inr (uc_engine uc)" and "TotalShards (uc_profile uc) \<le> 255" and "same_client uc rc" and "random_keys env"
    and "encoded env uc pt sd" and "length sd = numSegments_of (uc_profile uc) pt" and "sd \<noteq> []" and "\<forall>d. length (cc_sha (uc_crypto uc) d) = 32"
    and "lists_chunks uc (map (map (cc_sha (uc_crypto uc))) sd) segs" and "no_collision (cc_sha (uc_crypto uc)) net sd"
    and "\<forall>k. set (rn_order net k) \<subseteq> {..<eng_TotalShards (uc_engine uc)}"
    and "fetchAndDecryptPointerFile (rt_crypto rc) (rn_pointer net) masterSecret ownerID fileID = Inr (segs, sz)"
    and "resolveFileForRetrieval net fileID = Inr resolved" and "\<forall>seg\<in>set segs. answered rc net resolved seg"
    and "0 \<le> sz" and "sz \<le> int (length (padded (uc_profile uc) pt))"
  shows "RetrieveFile rc net masterSecret ownerID fileID = Inr (take (nat sz) (padded (uc_profile uc) pt))"
proof -
  let ?ids = "map (map (cc_sha (uc_crypto uc))) sd"
  let ?f = "\<lambda>s. segment_plain (nat (plaintextSegmentSize (uc_profile uc))) pt (nat (pf_SegmentIndex s))"
  note eng = rs_engine.intro [OF assms(1,2)]
  have len: "length (sd ! i) = eng_TotalShards (uc_engine uc)" if "i < length sd" for i
  proof -
    have "encode_one env uc pt i = Inr (sd ! i)" using assms(5) that by (simp add: encoded_def)
    then obtain pkg where "EncodeSegment (uc_engine uc) pkg = Inr (sd ! i)" by (auto simp: encode_one_def split: sum.splits)
    then show ?thesis by (rule rs_engine.encode_total(1) [OF eng])
  qed
  have wf: "ids_wf (eng_TotalShards (uc_engine uc)) ?ids" using len assms(8) by (auto simp: ids_wf_def in_set_conv_nth)
  have prof: "rt_profile rc = uc_profile uc" using assms(3) by (simp add: same_client_def)
  have seg: "\<exists>kept. downloadSegment rc net s resolved = Inr kept \<and> decodeSegment rc kept = Inr (?f s)" if s: "s \<in> set segs" for s
    using answered_download [OF assms(1,2) prof assms(9) wf s] segment_decodes [OF assms(1-5,9-11) s] assms(14) s by blast
  then have "retrieve_segments rc net resolved segs [] = Inr (concat (map ?f segs))"
    using retrieve_segments_complete [of segs rc net resolved ?f "[]"] by simp
  moreover have "concat (map ?f segs) = padded (uc_profile uc) pt"
    using concat_padded [OF encoded_segment_size [OF assms(5,7)], of segs pt] lists_chunks_sorted(2) [OF assms(9)] assms(6) by simp
  ultimately show ?thesis
    using assms(12,13,15,16) lists_chunks_sorted(1) [OF assms(9)] by (simp add: RetrieveFile_def)
qed

text \<open>
  C37: enough honest providers suffice. If the pointer file and the addresses are served and of every segment at least \<open>DataShards\<close> providers deliver
  a shard whose hash is right, then \<^verbatim>\<open>RetrieveFile\<close> returns the uploaded file, whichever these providers are, in
  whatever order they answer, and whatever the others send.
\<close>

theorem retrieve_succeeds:
  assumes "NewEngine (uc_profile uc) = Inr (uc_engine uc)" and "TotalShards (uc_profile uc) \<le> 255" and "same_client uc rc" and "random_keys env"
    and "encoded env uc pt sd" and "length sd = numSegments_of (uc_profile uc) pt" and "sd \<noteq> []" and "\<forall>d. length (cc_sha (uc_crypto uc) d) = 32"
    and "lists_chunks uc (map (map (cc_sha (uc_crypto uc))) sd) segs" and "no_collision (cc_sha (uc_crypto uc)) net sd"
    and "\<forall>k. set (rn_order net k) \<subseteq> {..<eng_TotalShards (uc_engine uc)}"
    and "fetchAndDecryptPointerFile (rt_crypto rc) (rn_pointer net) masterSecret ownerID fileID = Inr (segs, int (length pt))"
    and "resolveFileForRetrieval net fileID = Inr resolved" and "\<forall>seg\<in>set segs. answered rc net resolved seg"
  shows "RetrieveFile rc net masterSecret ownerID fileID = Inr pt"
  using RetrieveFile_eq [OF assms] by (simp add: padded_def)

text \<open>A network that serves the same pointer file with another size.\<close>

definition claim_size :: "int \<Rightarrow> pointerFileResponse http \<Rightarrow> pointerFileResponse http" where
  "claim_size sz r = (case r of Inl e \<Rightarrow> Inl e | Inr (st, resp) \<Rightarrow> Inr (st, resp\<lparr>pr_OriginalSizeBytes := sz\<rparr>))"

lemma downloadSegment_pointer [simp]: "downloadSegment rc (net\<lparr>rn_pointer := p\<rparr>) = downloadSegment rc net"
  by (simp add: downloadSegment_def fun_eq_iff Let_def)

lemma retrieve_segments_pointer [simp]:
  "retrieve_segments rc (net\<lparr>rn_pointer := p\<rparr>) resolved segs out = retrieve_segments rc net resolved segs out"
  by (induction segs arbitrary: out) (simp_all split: sum.split)

lemma fetch_claim_size:
  assumes "fetchAndDecryptPointerFile cc get masterSecret ownerID fileID = Inr (segs, sz)"
  shows "fetchAndDecryptPointerFile cc (\<lambda>f. map_option (claim_size n) (get f)) masterSecret ownerID fileID = Inr (segs, n)"
proof -
  from assms obtain st resp where resp: "get fileID = Some (Inr (st, resp))"
    by (auto simp: fetchAndDecryptPointerFile_def split: option.splits sum.splits)
  with assms show ?thesis
    by (auto simp: fetchAndDecryptPointerFile_def claim_size_def split: option.splits sum.splits if_splits key_error.splits)
qed

text \<open>
  C39: the length of the file is not authenticated. If a retrieval succeeds, then the same
  retrieval from a microservice that reports a smaller \<open>original_size_bytes\<close> with the same pointer file succeeds too, with the file cut off there.
\<close>

theorem server_truncates_file:
  assumes "RetrieveFile rc net masterSecret ownerID fileID = Inr out" and "n \<le> length out"
  shows "RetrieveFile rc (net\<lparr>rn_pointer := \<lambda>f. map_option (claim_size (int n)) (rn_pointer net f)\<rparr>) masterSecret ownerID fileID = Inr (take n out)"
proof -
  from assms(1) obtain segs sz resolved whole where run: "fetchAndDecryptPointerFile (rt_crypto rc) (rn_pointer net) masterSecret ownerID fileID = Inr (segs, sz)"
    "resolveFileForRetrieval net fileID = Inr resolved"
    "retrieve_segments rc net resolved (sort_key pf_SegmentIndex segs) [] = Inr whole" "out = take (nat sz) whole"
    by (auto simp: RetrieveFile_def split: sum.splits prod.splits if_splits)
  have "resolveFileForRetrieval (net\<lparr>rn_pointer := p\<rparr>) fileID = Inr resolved" for p using run(2) by (simp add: resolveFileForRetrieval_def)
  moreover have "n \<le> length whole" "take n out = take n whole" using run(4) assms(2) by simp_all
  ultimately show ?thesis using fetch_claim_size [OF run(1), of "int n"] run(3) by (simp add: RetrieveFile_def)
qed

lemma xor_cancel:
  fixes x y z :: byte
  assumes "x XOR (y XOR z) = x"
  shows "y = z"
proof -
  have "y XOR z = (x XOR x) XOR (y XOR z)" by simp
  also have "\<dots> = x XOR x" unfolding xor.assoc assms ..
  finally have "y XOR z = 0" by simp
  then have "(y XOR z) XOR z = 0 XOR z" by simp
  then show ?thesis by (simp add: xor.assoc)
qed

lemma AONTDecodePackage_other_cipher:
  assumes "seg \<noteq> []" and "16 dvd length seg" and "length K = 32" and "length seg \<le> i" and "i < length seg + 16" and "ks aes K i \<noteq> ks aes' K i"
  shows "AONTDecodePackage sha ks (aont_package sha ks K seg aes) aes' = Inl ErrCanaryMismatch"
proof -
  let ?c = "xor_stream ks aes K (seg @ aontCanary)"
  have len: "16 \<le> length seg" using assms(1,2) by (auto intro: dvd_imp_le)
  have pkg: "aont_package sha ks K seg aes = ?c @ xor32 K (sha ?c)" by (simp add: aont_package_def Let_def)
  have n: "length (aont_package sha ks K seg aes) - 32 = length ?c" by (simp add: length_aont_package)
  let ?p = "xor_stream ks aes' K ?c"
  have "drop (length seg) ?p \<noteq> aontCanary"
  proof
    assume canary: "drop (length seg) ?p = aontCanary"
    have "?p ! i = drop (length seg) ?p ! (i - length seg)" using assms(4,5) by simp
    also have "\<dots> = (seg @ aontCanary) ! i" unfolding canary using assms(4,5) by (simp add: nth_append)
    finally have "(seg @ aontCanary) ! i XOR (ks aes K i XOR ks aes' K i) = (seg @ aontCanary) ! i"
      using assms(5) by (simp add: xor_stream_def xor.assoc)
    from xor_cancel [OF this] assms(6) show False by blast
  qed
  then show ?thesis
    using len assms(2,3) by (subst AONTDecodePackage_eq) (simp_all add: length_aont_package, simp add: pkg xor32_involution)
qed

lemma downloadSegment_cipher [simp]: "downloadSegment (rc\<lparr>rt_aesNI := b\<rparr>) = downloadSegment rc"
  by (simp add: downloadSegment_def fun_eq_iff Let_def)

text \<open>
  C38: a file is tied to the processor it was uploaded from. The cipher of the transform is chosen by the AES support of the machine and is not recorded. On a machine
  that makes the other choice, the retrieval of a file that every provider serves correctly fails with \<open>ErrCanaryMismatch\<close>, unless the
  two key streams happen to agree on the sixteen bytes of the canary.
\<close>

theorem other_cpu_cannot_retrieve:
  assumes "NewEngine (uc_profile uc) = Inr (uc_engine uc)" and "TotalShards (uc_profile uc) \<le> 255"
    and "same_client uc (rc\<lparr>rt_aesNI := uc_aesNI uc\<rparr>)" and "rt_aesNI rc \<noteq> uc_aesNI uc" and "random_keys env"
    and "encoded env uc pt sd" and "sd \<noteq> []" and "\<forall>d. length (cc_sha (uc_crypto uc) d) = 32"
    and "lists_chunks uc (map (map (cc_sha (uc_crypto uc))) sd) segs" and "no_collision (cc_sha (uc_crypto uc)) net sd"
    and "\<forall>k. set (rn_order net k) \<subseteq> {..<eng_TotalShards (uc_engine uc)}"
    and "fetchAndDecryptPointerFile (rt_crypto rc) (rn_pointer net) masterSecret ownerID fileID = Inr (segs, sz)"
    and "resolveFileForRetrieval net fileID = Inr resolved" and "\<forall>seg\<in>set segs. answered rc net resolved seg"
    and "ue_rnd env 0 = Some K" and "plaintextSegmentSize (uc_profile uc) \<le> int i" and "int i < plaintextSegmentSize (uc_profile uc) + 16"
    and "uc_keystream uc True K i \<noteq> uc_keystream uc False K i"
  shows "RetrieveFile rc net masterSecret ownerID fileID = Inl (RAont ErrCanaryMismatch)"
proof -
  let ?rc = "rc\<lparr>rt_aesNI := uc_aesNI uc\<rparr>" and ?sha = "cc_sha (uc_crypto uc)"
  let ?plain = "segment_plain (nat (plaintextSegmentSize (uc_profile uc))) pt 0"
  note eng = rs_engine.intro [OF assms(1,2)]
  have same: "cc_sha (rt_crypto rc) = ?sha" "rt_keystream rc = uc_keystream uc" "rt_engine rc = uc_engine uc" "rt_profile rc = uc_profile uc"
    using assms(3) by (simp_all add: same_client_def)
  have enc: "encode_one env uc pt 0 = Inr (sd ! 0)" using assms(6,7) by (auto simp: encoded_def)
  obtain pkg where "EncodeSegment (uc_engine uc) pkg = Inr (sd ! 0)" using enc by (auto simp: encode_one_def split: sum.splits)
  then have len: "length (sd ! 0) = eng_TotalShards (uc_engine uc)" by (rule rs_engine.encode_total(1) [OF eng])
  obtain seg rest where segs: "segs = seg # rest" using assms(7,9) by (cases segs) (auto simp: lists_chunks_def)
  have seg: "pf_SegmentIndex seg = 0" "pf_ChunkIDs seg = map hex_encode (map ?sha (sd ! 0))" "length (pf_ProviderIDs seg) = length (sd ! 0)"
    using assms(7,9) len rs_engine.sizes(2) [OF eng] by (auto simp: lists_chunks_def segs)
  have ans: "answered rc net resolved seg" using assms(14) by (simp add: segs)
  obtain kept where kept: "downloadSegment rc net seg resolved = Inr kept"
    using downloadSegment_enough [of seg rc net resolved] ans seg(2,3) same(4) rs_engine.sizes(1) [OF eng] assms(1)
    by (auto simp: answered_def NewEngine_def profileConsistencyCheck_def split: option.splits if_splits)
  have "erased (sd ! 0) kept \<and> nat (DataShards (rt_profile rc)) \<le> non_nil kept"
  proof (rule downloadSegment_sound [OF _ seg(3) _ _ kept])
    show "\<forall>c\<in>set (sd ! 0). \<forall>d\<in>delivered net. cc_sha (rt_crypto rc) d = cc_sha (rt_crypto rc) c \<longrightarrow> d = c"
      using assms(7,10) unfolding no_collision_def same(1) by (meson length_greater_0_conv nth_mem)
  qed (use seg(2) same(1) assms(11) len in simp_all)
  then have er: "erased (sd ! 0) kept" "eng_DataShards (uc_engine uc) \<le> non_nil kept" using same(4) rs_engine.sizes(1) [OF eng] by auto
  obtain K' where K': "ue_rnd env 0 = Some K'" "length K' = 32" "?plain \<noteq> []" "16 dvd length ?plain"
    "EncodeSegment (uc_engine uc) (aont_package ?sha (uc_keystream uc) K' ?plain (uc_aesNI uc)) = Inr (sd ! 0)"
    by (rule encode_one_package [OF enc assms(5)])
  have K: "K' = K" using K'(1) assms(15) by simp
  obtain out where dec: "DecodeSegment (uc_engine uc) kept = Inr (aont_package ?sha (uc_keystream uc) K ?plain (uc_aesNI uc), out)"
    using rs_engine.encode_total(3) [OF eng K'(5) er] K by blast
  have "AONTDecodePackage ?sha (uc_keystream uc) (aont_package ?sha (uc_keystream uc) K ?plain (uc_aesNI uc)) (rt_aesNI rc) = Inl ErrCanaryMismatch"
  proof (rule AONTDecodePackage_other_cipher [of _ _ i])
    show "uc_keystream uc (uc_aesNI uc) K i \<noteq> uc_keystream uc (rt_aesNI rc) K i"
      using assms(4,18) by (cases "uc_aesNI uc"; cases "rt_aesNI rc") auto
  qed (use K' K assms(16,17) in auto)
  then have "decodeSegment rc kept = Inl (RAont ErrCanaryMismatch)" using dec same by (simp add: decodeSegment_def)
  then show ?thesis
    using assms(12,13) lists_chunks_sorted(1) [OF assms(9)] kept by (simp add: RetrieveFile_def segs)
qed

subsection \<open>A sample retrieval\<close>

text \<open>
  A file of three bytes. The key stream of the uploading machine is chosen such that its package is all zero, so the data shards are
  zero too; the providers of the data shards answer, in reverse order.
\<close>

definition zero_shard :: "byte list" where "zero_shard = replicate ShardSize 0"

definition zero_sha :: hash where
  "zero_sha d = (if d = zero_shard then replicate 32 0 else replicate 32 1)"

definition sample_pt :: "byte list" where "sample_pt = [1, 2, 3]"

definition sample_keystream :: keystream where
  "sample_keystream aes K i = (if aes then 0 else (segment_plain 786384 sample_pt 0 @ aontCanary) ! i)"

definition sample_uc :: upload_client where
  "sample_uc = \<lparr>uc_crypto = sample_crypto\<lparr>cc_sha := zero_sha\<rparr>, uc_keystream = sample_keystream, uc_engine = engine_of DemoProfile,
     uc_profile = DemoProfile, uc_signingKey = replicate 32 5, uc_aesNI = False\<rparr>"

definition sample_rc :: retrieve_client where
  "sample_rc = \<lparr>rt_crypto = sample_crypto\<lparr>cc_sha := zero_sha\<rparr>, rt_keystream = sample_keystream, rt_engine = engine_of DemoProfile,
     rt_profile = DemoProfile, rt_aesNI = False\<rparr>"

definition sample_ue :: upload_env where
  "sample_ue = \<lparr>ue_fileID = Some (replicate 16 7), ue_rnd = \<lambda>_. Some (replicate 32 1), ue_save = \<lambda>_. True, ue_load = True, ue_remove = True,
     ue_clock = \<lambda>_. 0, ue_order = \<lambda>_ ts. ts\<rparr>"

definition sample_pointer :: "byte list list \<Rightarrow> pointerFileSegment" where
  "sample_pointer cw = \<lparr>pf_SegmentID = replicate 16 3, pf_SegmentIndex = 0, pf_FileKey = hex_encode (replicate 32 7),
     pf_ProviderIDs = replicate 5 (replicate 16 1), pf_ChunkIDs = map (\<lambda>d. hex_encode (zero_sha d)) cw,
     pf_ErasureParams = \<lparr>ep_S = 3, ep_R = 2, ep_N = 5, ep_LfBytes = 262144\<rparr>\<rparr>"

definition sample_resolution :: RetrieveResolveResponseBody where
  "sample_resolution = \<lparr>rr_FileID = replicate 16 7, rr_Segments = [\<lparr>rg_SegmentIndex = 0, rg_SegmentID = replicate 16 3,
     rg_Shards = [\<lparr>rs_ShardIndex = 0, rs_ProviderID = replicate 16 1, rs_ChunkID = hex_encode (replicate 32 0),
       rs_Multiaddrs = [''/ip4/10.0.0.1/tcp/4001/p2p/QmPeer''], rs_MultiaddrStale = False, rs_DownloadToken = hex_encode (replicate 72 0)\<rparr>]\<rparr>]\<rparr>"

definition sample_rnet :: "byte list \<Rightarrow> retrieve_net" where
  "sample_rnet b = \<lparr>rn_pointer = \<lambda>_. Some (Inr (200, \<lparr>pr_FileID = replicate 16 7, pr_PointerCiphertext = b64_encode b,
       pr_PointerNonce = b64_encode (replicate 12 1), pr_PointerTag = b64_encode (replicate 16 5), pr_SchemaVersion = 1, pr_OriginalSizeBytes = 3,
       pr_DisplayNameCiphertext = None, pr_DisplayNameNonce = None, pr_DisplayNameTag = None\<rparr>)),
     rn_resolve = \<lambda>_. Some (200, sample_resolution), rn_fetch = \<lambda>_ _ _ _ _. Some (data_frame 0 zero_shard), rn_order = \<lambda>_. [2, 1, 0]\<rparr>"

lemma sample_sizes: "plaintextSegmentSize DemoProfile = 786384" "numSegments_of DemoProfile sample_pt = 1"
  by (simp_all add: plaintextSegmentSize_def DemoProfile_def aontOverheadBytes_def numSegments_of_def ceilDivInt_def sample_pt_def Let_def)

lemma length_zero_sha: "length (zero_sha d) = 32"
  by (simp add: zero_sha_def)

lemma sample_package:
  "aont_package zero_sha sample_keystream (replicate 32 1) (segment_plain 786384 sample_pt 0) False = replicate (3 * ShardSize) 0"
proof -
  let ?s = "segment_plain 786384 sample_pt 0 @ aontCanary"
  have c: "xor_stream sample_keystream False (replicate 32 1) ?s = replicate 786400 0"
    by (rule nth_equalityI) (simp_all add: xor_stream_def sample_keystream_def)
  have "length (replicate 786400 (0 :: byte)) \<noteq> length zero_shard" by (simp add: zero_shard_def ShardSize_def)
  then have "zero_sha (replicate 786400 0) = replicate 32 1" unfolding zero_sha_def by metis
  moreover have "xor32 (replicate 32 1) (replicate 32 1) = replicate 32 0"
    by (rule nth_equalityI) (simp_all add: xor32_def aontKeyBlockSize_def)
  ultimately show ?thesis
    unfolding aont_package_def Let_def c by (simp add: replicate_add [symmetric] ShardSize_def)
qed

lemma sample_encoded:
  obtains cw where "encoded sample_ue sample_uc sample_pt [cw]" "length cw = 5" "\<And>i. i < 3 \<Longrightarrow> cw ! i = zero_shard"
proof -
  let ?e = "engine_of DemoProfile" and ?pkg = "replicate (3 * ShardSize) (0 :: byte)"
  note e = NewEngine_Inr [OF demo_engine.built demo_engine.small]
  have d: "eng_DataShards ?e = 3" "eng_TotalShards ?e = 5" using demo_engine.sizes by (simp_all add: DemoProfile_def)
  obtain cw where cw: "EncodeSegment ?e ?pkg = Inr cw" "concat (map (\<lambda>i. cw ! i) [0..<3]) = ?pkg"
    using EncodeSegment_correct [of ?e ?pkg] e d by auto
  note len = demo_engine.encode_total(1,2) [OF cw(1)]
  have seg: "segment_plain 786384 sample_pt 0 \<noteq> []" "16 dvd length (segment_plain 786384 sample_pt 0)"
    using length_segment_plain [of 786384 sample_pt 0] by (auto simp del: length_segment_plain)
  have "AONTEncodeSegment zero_sha sample_keystream (Some (replicate 32 1)) (segment_plain 786384 sample_pt 0) False = Inr ?pkg"
    using AONTEncodeSegment_eq [OF seg, of "replicate 32 1"] sample_package by simp
  then have "encode_one sample_ue sample_uc sample_pt 0 = Inr cw"
    using cw(1) by (simp add: encode_one_def sample_ue_def sample_uc_def sample_sizes)
  then have "encoded sample_ue sample_uc sample_pt [cw]" by (simp add: encoded_def)
  moreover have "cw ! i = zero_shard" if "i < 3" for i
  proof -
    have "set (cw ! i) \<subseteq> set (concat (map (\<lambda>i. cw ! i) [0..<3]))" using that by auto
    also have "\<dots> \<subseteq> {0}" unfolding cw(2) by (simp add: set_replicate_conv_if)
    finally have "set (cw ! i) \<subseteq> {0}" .
    moreover have "length (cw ! i) = ShardSize" using len d that by simp
    ultimately show ?thesis unfolding zero_shard_def by (metis replicate_eqI singletonD subsetD)
  qed
  ultimately show thesis using that len d by simp
qed

lemma sample_no_collision: "no_collision zero_sha (sample_rnet b) [cw]"
proof -
  have "readChunkDownloadResponse (data_frame 0 zero_shard) = Some (0, zero_shard)"
    by (simp add: readChunkDownloadResponse_def read_frame_data zero_shard_def ShardSize_def client_downloadStatusOK_def)
  then have "delivered (sample_rnet b) \<subseteq> {zero_shard}" by (auto simp: delivered_def sample_rnet_def client_downloadStatusOK_def)
  then show ?thesis by (auto simp: no_collision_def zero_sha_def split: if_splits)
qed

lemma sample_fetch:
  assumes "list_all segment_wf segs" and "length segs < 2 ^ 32"
  obtains b where "fetchAndDecryptPointerFile (rt_crypto sample_rc) (rn_pointer (sample_rnet b)) (replicate 32 1) (replicate 16 8) (replicate 16 7) = Inr (segs, 3)"
proof -
  obtain b where b: "unmarshalPointerFilePlaintext b = Some segs" by (rule pointer_layout [OF assms])
  have "DecryptPointerFile (cc_open (sample_crypto\<lparr>cc_sha := zero_sha\<rparr>)) key (replicate 12 1) aad (b @ replicate 16 5) = Inr b" for key aad
    by (simp add: DecryptPointerFile_def DecryptAEAD_def sample_crypto_def poly1305TagSize_def)
  then show thesis
    by (intro that [of b])
      (simp add: fetchAndDecryptPointerFile_def sample_rnet_def sample_rc_def pointerFileSchemaVersion_def DerivePointerEncKey_def mustLen_def
        masterSecretSize_def uuidSize_def b)
qed

lemma sample_peer: "\<exists>addrs. resolveDownloadPeer [''/ip4/10.0.0.1/tcp/4001/p2p/QmPeer''] = Inr (''QmPeer'', addrs)"
proof -
  have "ParseMultiaddr ''/ip4/10.0.0.1/tcp/4001/p2p/QmPeer'' = Inr \<lparr>ma_raw = ''/ip4/10.0.0.1/tcp/4001/p2p/QmPeer'', ma_network = ''tcp'',
      ma_hostport = ''10.0.0.1:4001'', ma_isRelay = False, ma_relayTo = []\<rparr>"
    "extractPeerIDFromMultiaddr ''/ip4/10.0.0.1/tcp/4001/p2p/QmPeer'' = Some ''QmPeer''" by code_simp+
  from resolveShardPeer_first [OF this] show ?thesis by (auto simp: resolve_same_peer)
qed

lemma sample_answered:
  assumes "\<And>i. i < 3 \<Longrightarrow> cw ! i = zero_shard" and "length cw = 5"
  obtains resolved where "resolveFileForRetrieval (sample_rnet b) (replicate 16 7) = Inr resolved" "answered sample_rc (sample_rnet b) resolved (sample_pointer cw)"
proof -
  define resolved :: "string \<rightharpoonup> resolvedShard" where "resolved = [hex_encode (replicate 32 0) \<mapsto>
    \<lparr>rv_multiaddrs = [''/ip4/10.0.0.1/tcp/4001/p2p/QmPeer''], rv_multiaddrStale = False, rv_downloadToken = hex_encode (replicate 72 0)\<rparr>]"
  have res: "resolveFileForRetrieval (sample_rnet b) (replicate 16 7) = Inr resolved"
    by (simp add: resolveFileForRetrieval_def sample_rnet_def sample_resolution_def resolved_shard_def resolved_def)
  obtain addrs where peer: "resolveDownloadPeer [''/ip4/10.0.0.1/tcp/4001/p2p/QmPeer''] = Inr (''QmPeer'', addrs)" using sample_peer by blast
  have read: "readChunkDownloadResponse (data_frame 0 zero_shard) = Some (0, zero_shard)"
    by (simp add: readChunkDownloadResponse_def read_frame_data zero_shard_def ShardSize_def client_downloadStatusOK_def)
  have hash: "zero_sha zero_shard = replicate 32 0" by (simp add: zero_sha_def)
  have one: "fetchOneShard zero_sha (\<lambda>_ _ _. Some (data_frame 0 zero_shard)) (hex_encode (replicate 32 0)) (resolved (hex_encode (replicate 32 0))) = Some zero_shard"
    by (simp add: fetchOneShard_def resolved_def peer read hash client_downloadTokenByteLen_def client_downloadStatusOK_def)
  have "pf_ChunkIDs (sample_pointer cw) ! i = hex_encode (replicate 32 0)" if "i < 3" for i
    using assms that by (simp add: sample_pointer_def hash)
  then have "answered sample_rc (sample_rnet b) resolved (sample_pointer cw)"
    using one by (simp add: answered_def sample_rnet_def sample_rc_def DemoProfile_def sample_pointer_def)
  with res show thesis using that by blast
qed

text \<open>The parts of the sample together.\<close>

lemma sample_parts:
  obtains cw b resolved where "encoded sample_ue sample_uc sample_pt [cw]"
    "lists_chunks sample_uc (map (map (cc_sha (uc_crypto sample_uc))) [cw]) [sample_pointer cw]" "list_all segment_wf [sample_pointer cw]"
    "no_collision (cc_sha (uc_crypto sample_uc)) (sample_rnet b) [cw]" "\<forall>k. set (rn_order (sample_rnet b) k) \<subseteq> {..<eng_TotalShards (uc_engine sample_uc)}"
    "fetchAndDecryptPointerFile (rt_crypto sample_rc) (rn_pointer (sample_rnet b)) (replicate 32 1) (replicate 16 8) (replicate 16 7) = Inr ([sample_pointer cw], 3)"
    "resolveFileForRetrieval (sample_rnet b) (replicate 16 7) = Inr resolved" "answered sample_rc (sample_rnet b) resolved (sample_pointer cw)"
proof -
  obtain cw where cw: "encoded sample_ue sample_uc sample_pt [cw]" "length cw = 5" "\<And>i. i < 3 \<Longrightarrow> cw ! i = zero_shard"
    using sample_encoded by metis
  have wf: "list_all segment_wf [sample_pointer cw]"
    using cw(2) by (auto simp: segment_wf_def sample_pointer_def u32_range_def list_all_iff length_zero_sha)
  obtain b where b: "fetchAndDecryptPointerFile (rt_crypto sample_rc) (rn_pointer (sample_rnet b)) (replicate 32 1) (replicate 16 8) (replicate 16 7) = Inr ([sample_pointer cw], 3)"
    by (rule sample_fetch [OF wf]) simp
  obtain resolved where r: "resolveFileForRetrieval (sample_rnet b) (replicate 16 7) = Inr resolved" "answered sample_rc (sample_rnet b) resolved (sample_pointer cw)"
    by (rule sample_answered [OF cw(3,2)])
  have "lists_chunks sample_uc (map (map (cc_sha (uc_crypto sample_uc))) [cw]) [sample_pointer cw]"
    by (simp add: lists_chunks_def sample_uc_def sample_pointer_def DemoProfile_def)
  moreover have "\<forall>k. set (rn_order (sample_rnet b) k) \<subseteq> {..<eng_TotalShards (uc_engine sample_uc)}"
    using demo_engine.sizes(2) by (auto simp: sample_rnet_def sample_uc_def DemoProfile_def)
  moreover have "no_collision (cc_sha (uc_crypto sample_uc)) (sample_rnet b) [cw]" by (simp add: sample_uc_def sample_no_collision)
  ultimately show thesis using that cw(1) wf b r by blast
qed

lemma sample_clients:
  "NewEngine (uc_profile sample_uc) = Inr (uc_engine sample_uc)" "TotalShards (uc_profile sample_uc) \<le> 255" "same_client sample_uc sample_rc"
  "random_keys sample_ue" "\<forall>d. length (cc_sha (uc_crypto sample_uc) d) = 32" "length [cw] = numSegments_of (uc_profile sample_uc) sample_pt"
  using demo_engine.built demo_engine.small sample_sizes(2)
  by (simp_all add: same_client_def sample_uc_def sample_rc_def random_keys_def sample_ue_def length_zero_sha)

theorem retrieve_succeeds_witness:
  "\<exists>b. RetrieveFile sample_rc (sample_rnet b) (replicate 32 1) (replicate 16 8) (replicate 16 7) = Inr [1, 2, 3]"
proof -
  obtain cw b resolved where p: "encoded sample_ue sample_uc sample_pt [cw]"
    "lists_chunks sample_uc (map (map (cc_sha (uc_crypto sample_uc))) [cw]) [sample_pointer cw]" "list_all segment_wf [sample_pointer cw]"
    "no_collision (cc_sha (uc_crypto sample_uc)) (sample_rnet b) [cw]" "\<forall>k. set (rn_order (sample_rnet b) k) \<subseteq> {..<eng_TotalShards (uc_engine sample_uc)}"
    "fetchAndDecryptPointerFile (rt_crypto sample_rc) (rn_pointer (sample_rnet b)) (replicate 32 1) (replicate 16 8) (replicate 16 7) = Inr ([sample_pointer cw], 3)"
    "resolveFileForRetrieval (sample_rnet b) (replicate 16 7) = Inr resolved" "answered sample_rc (sample_rnet b) resolved (sample_pointer cw)"
    by (rule sample_parts)
  from retrieve_succeeds [OF sample_clients(1-4) p(1) sample_clients(6) _ sample_clients(5) p(2,4,5) _ p(7)] p(6,8) show ?thesis
    by (auto simp: sample_pt_def)
qed

theorem server_truncates_file_witness:
  "\<exists>b. RetrieveFile sample_rc ((sample_rnet b)\<lparr>rn_pointer := \<lambda>f. map_option (claim_size (int 2)) (rn_pointer (sample_rnet b) f)\<rparr>)
     (replicate 32 1) (replicate 16 8) (replicate 16 7) = Inr [1, 2]"
proof -
  obtain cw b resolved where p: "encoded sample_ue sample_uc sample_pt [cw]"
    "lists_chunks sample_uc (map (map (cc_sha (uc_crypto sample_uc))) [cw]) [sample_pointer cw]" "list_all segment_wf [sample_pointer cw]"
    "no_collision (cc_sha (uc_crypto sample_uc)) (sample_rnet b) [cw]" "\<forall>k. set (rn_order (sample_rnet b) k) \<subseteq> {..<eng_TotalShards (uc_engine sample_uc)}"
    "fetchAndDecryptPointerFile (rt_crypto sample_rc) (rn_pointer (sample_rnet b)) (replicate 32 1) (replicate 16 8) (replicate 16 7) = Inr ([sample_pointer cw], 3)"
    "resolveFileForRetrieval (sample_rnet b) (replicate 16 7) = Inr resolved" "answered sample_rc (sample_rnet b) resolved (sample_pointer cw)"
    by (rule sample_parts)
  have "RetrieveFile sample_rc (sample_rnet b) (replicate 32 1) (replicate 16 8) (replicate 16 7) = Inr (take (nat 3) (padded (uc_profile sample_uc) sample_pt))"
    by (rule RetrieveFile_eq [OF sample_clients(1-4) p(1) sample_clients(6) _ sample_clients(5) p(2,4-7)])
      (use p(8) in \<open>simp_all add: padded_def sample_pt_def\<close>)
  then have "RetrieveFile sample_rc (sample_rnet b) (replicate 32 1) (replicate 16 8) (replicate 16 7) = Inr [1, 2, 3]" by (simp add: padded_def sample_pt_def)
  from server_truncates_file [OF this, of 2] show ?thesis by (intro exI [of _ b]) simp
qed

theorem other_cpu_cannot_retrieve_witness:
  "\<exists>b. RetrieveFile (sample_rc\<lparr>rt_aesNI := True\<rparr>) (sample_rnet b) (replicate 32 1) (replicate 16 8) (replicate 16 7) = Inl (RAont ErrCanaryMismatch)"
proof -
  obtain cw b resolved where p: "encoded sample_ue sample_uc sample_pt [cw]"
    "lists_chunks sample_uc (map (map (cc_sha (uc_crypto sample_uc))) [cw]) [sample_pointer cw]" "list_all segment_wf [sample_pointer cw]"
    "no_collision (cc_sha (uc_crypto sample_uc)) (sample_rnet b) [cw]" "\<forall>k. set (rn_order (sample_rnet b) k) \<subseteq> {..<eng_TotalShards (uc_engine sample_uc)}"
    "fetchAndDecryptPointerFile (rt_crypto sample_rc) (rn_pointer (sample_rnet b)) (replicate 32 1) (replicate 16 8) (replicate 16 7) = Inr ([sample_pointer cw], 3)"
    "resolveFileForRetrieval (sample_rnet b) (replicate 16 7) = Inr resolved" "answered sample_rc (sample_rnet b) resolved (sample_pointer cw)"
    by (rule sample_parts)
  let ?rc = "sample_rc\<lparr>rt_aesNI := True\<rparr>"
  have same: "same_client sample_uc (?rc\<lparr>rt_aesNI := uc_aesNI sample_uc\<rparr>)" "rt_aesNI ?rc \<noteq> uc_aesNI sample_uc"
    using sample_clients(3) by (simp_all add: same_client_def sample_uc_def sample_rc_def)
  have K: "ue_rnd sample_ue 0 = Some (replicate 32 1)" by (simp add: sample_ue_def)
  have "uc_keystream sample_uc False (replicate 32 1) 786384 = 0x16"
    by (simp add: sample_uc_def sample_keystream_def nth_append aontCanary_def)
  moreover have "uc_keystream sample_uc True (replicate 32 1) 786384 = 0" by (simp add: sample_uc_def sample_keystream_def)
  ultimately have ks: "uc_keystream sample_uc True (replicate 32 1) 786384 \<noteq> uc_keystream sample_uc False (replicate 32 1) 786384" by simp
  have "RetrieveFile ?rc (sample_rnet b) (replicate 32 1) (replicate 16 8) (replicate 16 7) = Inl (RAont ErrCanaryMismatch)"
    by (rule other_cpu_cannot_retrieve [OF sample_clients(1,2) same sample_clients(4) p(1) _ sample_clients(5) p(2,4,5) _ p(7) _ K _ _ ks])
      (use p(6,8) in \<open>simp_all add: answered_def sample_uc_def sample_sizes(1)\<close>)
  then show ?thesis by blast
qed

theorem retrieved_file_intact_witness:
  "\<exists>b n. RetrieveFile sample_rc (sample_rnet b) (replicate 32 1) (replicate 16 8) (replicate 16 7) = Inr [1, 2, 3] \<and>
     [1, 2, 3] = take n (padded DemoProfile sample_pt)"
proof -
  obtain cw where cw: "encoded sample_ue sample_uc sample_pt [cw]" "length cw = 5" "\<And>i. i < 3 \<Longrightarrow> cw ! i = zero_shard"
    using sample_encoded by metis
  let ?segs = "[sample_pointer cw]" and ?cc = "rt_crypto sample_rc"
  have wf: "list_all segment_wf ?segs"
    using cw(2) by (auto simp: segment_wf_def sample_pointer_def u32_range_def list_all_iff length_zero_sha)
  obtain b where b: "marshalPointerFilePlaintext ?segs = Some b" "unmarshalPointerFilePlaintext b = Some ?segs"
    using pointer_layout [OF wf] by auto
  obtain resolved where r: "resolveFileForRetrieval (sample_rnet b) (replicate 16 7) = Inr resolved" "answered sample_rc (sample_rnet b) resolved (sample_pointer cw)"
    by (rule sample_answered [OF cw(3,2)])
  then have ans: "\<forall>s\<in>set ?segs. answered sample_rc (sample_rnet b) resolved s" by simp
  have chunks: "lists_chunks sample_uc (map (map (cc_sha (uc_crypto sample_uc))) [cw]) ?segs"
    by (simp add: lists_chunks_def sample_uc_def sample_pointer_def DemoProfile_def)
  have order: "\<forall>k. set (rn_order (sample_rnet b) k) \<subseteq> {..<eng_TotalShards (uc_engine sample_uc)}"
    using demo_engine.sizes(2) by (auto simp: sample_rnet_def sample_uc_def DemoProfile_def)
  have coll: "no_collision (cc_sha (uc_crypto sample_uc)) (sample_rnet b) [cw]" by (simp add: sample_uc_def sample_no_collision)
  have aead: "aead_correct (cc_seal ?cc) (cc_open ?cc)" using sample_aead by (simp add: sample_rc_def)
  have "DecryptPointerFile (cc_open ?cc) key nonce aad (b @ replicate 16 5) = Inr b" for key nonce aad
    by (simp add: DecryptPointerFile_def DecryptAEAD_def sample_rc_def sample_crypto_def poly1305TagSize_def)
  then have fetch: "fetchAndDecryptPointerFile ?cc (rn_pointer (sample_rnet b)) (replicate 32 1) (replicate 16 8) (replicate 16 7) = Inr (?segs, 3)"
    by (simp add: fetchAndDecryptPointerFile_def sample_rnet_def pointerFileSchemaVersion_def DerivePointerEncKey_def mustLen_def
        masterSecretSize_def uuidSize_def b(2))
  have auth: "unforged ?cc (rn_pointer (sample_rnet b)) (replicate 32 1) (replicate 16 8) (replicate 16 7) ?segs"
    using b(1) by (auto simp: unforged_def sample_rnet_def EncryptPointerFile_def EncryptAEAD_def sample_rc_def sample_crypto_def pointerAAD_def)
  have run: "RetrieveFile sample_rc (sample_rnet b) (replicate 32 1) (replicate 16 8) (replicate 16 7) = Inr (take (nat 3) (padded (uc_profile sample_uc) sample_pt))"
    by (rule RetrieveFile_eq [OF sample_clients(1-4) cw(1) sample_clients(6) _ sample_clients(5) chunks coll order fetch r(1) ans])
      (simp_all add: padded_def sample_pt_def)
  then have out: "RetrieveFile sample_rc (sample_rnet b) (replicate 32 1) (replicate 16 8) (replicate 16 7) = Inr [1, 2, 3]"
    by (simp add: padded_def sample_pt_def)
  have prof: "uc_profile sample_uc = DemoProfile" by (simp add: sample_uc_def)
  from retrieved_file_intact [OF sample_clients(1-4) cw(1) sample_clients(6) _ chunks wf _ aead auth coll order out] out
  show ?thesis unfolding prof by auto
qed

end
