(* ===== verification/Deployment.thy ===== *)
theory Deployment
  imports Retrieve
begin

text \<open>
  The upload orchestrator of the client against the handlers of the microservice and of the providers. The state is the database, one value log
  per peer and a counter of the exchanges; every exchange runs the handler that the other theories model. The
  environment decides per exchange what fails: requests and answers that get lost, statements, disks, clocks, random draws. The theory
  interprets the interface \<open>upload_service\<close> of \<^emph>\<open>ClientUpload\<close> on this network and concludes what an upload achieves.
\<close>

subsection \<open>The network\<close>










subsection \<open>Lemmas: the segments of a file\<close>

definition file_segments :: "uuid \<Rightarrow> database \<Rightarrow> segment_row list" where
  "file_segments fileID db = filter (\<lambda>s. s_file_id s = fileID) (segments db)"

definition placed_ids :: "uuid \<Rightarrow> byte list list list \<Rightarrow> database \<Rightarrow> bool" where
  "placed_ids fileID ids db \<longleftrightarrow>
     db_keys db \<and> length (file_segments fileID db) = length ids \<and>
     (\<forall>i<length ids. segment_index (file_segments fileID db ! i) = int i \<and> (\<exists>ps. placed_segment db (file_segments fileID db ! i) (ids ! i) ps))"







lemma placed_choice:
  assumes "placed_ids fileID ids db"
  obtains ps where "filter (\<lambda>s. s_file_id s = fileID) (segments db) = map (\<lambda>k. file_segments fileID db ! nat k) (map int [0..<length ids])"
    and "\<forall>k\<in>set (map int [0..<length ids]). segment_index (file_segments fileID db ! nat k) = k \<and>
           placed_segment db (file_segments fileID db ! nat k) (ids ! nat k) (ps k)"
    and "distinct (map provider_id (providers db))"
    and "\<And>i. i < length ids \<Longrightarrow> rows_of (\<lambda>_. True) db (file_segments fileID db ! i) =
           map (shard_at db (file_segments fileID db ! i)) (zip [0..<length (ids ! i)] (zip (ids ! i) (ps (int i))))"
proof -
  let ?ss = "file_segments fileID db"
  have "\<forall>k\<in>int ` {..<length ids}. \<exists>ps. placed_segment db (?ss ! nat k) (ids ! nat k) ps" using assms by (auto simp: placed_ids_def)
  then obtain ps where ps: "\<forall>k\<in>int ` {..<length ids}. placed_segment db (?ss ! nat k) (ids ! nat k) (ps k)" by metis
  have "?ss = map (\<lambda>k. ?ss ! nat k) (map int [0..<length ids])"
    using assms by (intro nth_equalityI) (simp_all add: placed_ids_def)
  then have ss: "filter (\<lambda>s. s_file_id s = fileID) (segments db) = map (\<lambda>k. ?ss ! nat k) (map int [0..<length ids])"
    by (simp only: file_segments_def)
  have keys: "distinct (map provider_id (providers db))" using assms by (simp add: placed_ids_def db_keys_def)
  have "rows_of (\<lambda>_. True) db (?ss ! i) = map (shard_at db (?ss ! i)) (zip [0..<length (ids ! i)] (zip (ids ! i) (ps (int i))))"
    if "i < length ids" for i
    using ps that by (intro rows_of_placed [OF _ keys]) force+
  moreover have "\<forall>k\<in>set (map int [0..<length ids]). segment_index (?ss ! nat k) = k \<and> placed_segment db (?ss ! nat k) (ids ! nat k) (ps k)"
    using ps assms by (simp add: placed_ids_def)
  ultimately show thesis using that [of ps] ss keys by blast
qed

lemma placed_filter:
  assumes "placed_ids fileID ids db" and "i < length ids"
  shows "filter (\<lambda>r. ex_segmentIndex r = int i) (ordered_rows (\<lambda>_. True) fileID db) = rows_of (\<lambda>_. True) db (file_segments fileID db ! i)"
proof -
  obtain ps where ps: "filter (\<lambda>s. s_file_id s = fileID) (segments db) = map (\<lambda>k. file_segments fileID db ! nat k) (map int [0..<length ids])"
    "\<forall>k\<in>set (map int [0..<length ids]). segment_index (file_segments fileID db ! nat k) = k \<and>
       placed_segment db (file_segments fileID db ! nat k) (ids ! nat k) (ps k)" "distinct (map provider_id (providers db))"
    "rows_of (\<lambda>_. True) db (file_segments fileID db ! i) =
       map (shard_at db (file_segments fileID db ! i)) (zip [0..<length (ids ! i)] (zip (ids ! i) (ps (int i))))"
    by (rule placed_choice [OF assms(1)]) (use assms(2) in blast)
  from segment_rows [OF ps(1) _ ps(2,3), of "int i"] assms(2) ps(4) show ?thesis by (simp add: distinct_map)
qed



subsection \<open>Lemmas: requests of the client and answers of the microservice\<close>









subsection \<open>What the network keeps\<close>


















lemma readUploadResponse_frames [simp]:
  "readUploadResponse [] = None" "readUploadResponse (status_frame st) = Some st"
  by (simp_all add: readUploadResponse_def read_frame_status) (simp add: read_frame_def lengthPrefixSize_def)



subsection \<open>The network is an upload service\<close>




subsection \<open>Properties: uploads over the network\<close>





















end
