(* ===== verification/Spec2Isabelle.thy ===== *)
theory Spec2Isabelle
  imports Erasure Storage Config AONT Keys Charge Release Handlers UploadApi Deployment
begin

text \<open>
  Verification of Vyomanaut V2, a storage network in which data owners pay providers to hold erasure-coded, encrypted shards of their
  files. The program is written in Go. This library models the logic of the owner's client, of the coordinating microservice
  and of the provider daemon as HOL functions and proves the properties listed in \<^verbatim>\<open>PROJECT.json\<close>.

  \<^bold>\<open>The program and the theories\<close>

  \<^descr> \<^emph>\<open>Prelude\<close>: byte strings, big-endian integers, slices, lemmas on lists and options.
  \<^descr> \<^emph>\<open>GF256, Matrix, Erasure\<close>: \<^verbatim>\<open>internal/erasure\<close>. Tables and arithmetic of GF(256), Gauss-Jordan inversion, the systematic
    Reed-Solomon code and its \<^verbatim>\<open>Engine\<close>. Any \<open>DataShards\<close> shards determine the segment.
  \<^descr> \<^emph>\<open>AONT, Mnemonic, Keys\<close>: \<^verbatim>\<open>internal/crypto\<close> and \<^verbatim>\<open>internal/client/account\<close>. The all-or-nothing transform, the recovery phrase, key
    derivation, AEAD wrappers, keystore and recovery. AES, SHA-256, HKDF, Argon2 and ChaCha20-Poly1305 are arguments of the definitions; a property
    that needs one of their documented laws (decryption inverts encryption, digests have 32 bytes) has it as a hypothesis.
  \<^descr> \<^emph>\<open>Storage\<close>: \<^verbatim>\<open>internal/storage\<close>. The provider's value log with its index, crash recovery and garbage collection, and the Badger engine. The
    outcome of every file operation is an argument, so that crashes and short reads are part of the model.
  \<^descr> \<^emph>\<open>Config, Database\<close>: \<^verbatim>\<open>internal/config\<close> and the tables of \<^verbatim>\<open>migrations/001_initial_schema.sql\<close> that the handlers use.
  \<^descr> \<^emph>\<open>Scoring, Ledger, Charge, Release\<close>: \<^verbatim>\<open>internal/scoring\<close> and \<^verbatim>\<open>internal/payment\<close>. Scores and timeouts, the two escrow ledgers with
    their idempotency keys, monthly charges to owners and monthly releases to providers.
  \<^descr> \<^emph>\<open>Queue, Assignment, Departure, Executor\<close>: \<^verbatim>\<open>internal/repair\<close> and the repair loop of \<^verbatim>\<open>cmd/microservice\<close>. The job queue, choice of a
    replacement provider, departures, and the execution of a job against a transport.
  \<^descr> \<^emph>\<open>Secrets, Receipts, AuditProtocol\<close>: \<^verbatim>\<open>internal/audit\<close>, \<^verbatim>\<open>cmd/microservice/audit_dispatch.go\<close> and \<^verbatim>\<open>cmd/provider/handler_audit.go\<close>.
    Rotating cluster secrets, challenges, signed responses, the three-phase receipt log, and an audit from one end to the other.
  \<^descr> \<^emph>\<open>Handlers\<close>: the other stream handlers of \<^verbatim>\<open>cmd/provider\<close>, on byte streams over the store of \<^emph>\<open>Storage\<close>.
  \<^descr> \<^emph>\<open>Encoding, PointerFile\<close>: hexadecimal and base64, and the pointer file in \<^verbatim>\<open>internal/client/upload/pointer.go\<close>,
    \<^verbatim>\<open>internal/client/retrieve/pointer.go\<close> and \<^verbatim>\<open>internal/api/file.go\<close>.
  \<^descr> \<^emph>\<open>Readiness, UploadApi\<close>: \<^verbatim>\<open>internal/api/readiness.go\<close>, \<^verbatim>\<open>upload.go\<close>, \<^verbatim>\<open>retrieve.go\<close> and the cost functions of
    \<^verbatim>\<open>owner.go\<close>: the gates of an upload, the placement of its shards and the resolution of a file for retrieval.
  \<^descr> \<^emph>\<open>Multiaddr, ClientUpload, Retrieve\<close>: \<^verbatim>\<open>internal/p2p/types.go\<close> and the orchestrators of \<^verbatim>\<open>internal/client/upload\<close> and
    \<^verbatim>\<open>internal/client/retrieve\<close>: encoding, assignment, transfer, sessions and registration of an upload; download and decoding of a file.
  \<^descr> \<^emph>\<open>Deployment\<close>: the upload orchestrator connected to the handlers of the microservice and the providers, with failures at every exchange.

  \<^bold>\<open>How the code is modelled\<close>

  A struct is a \<^theory_text>\<open>record\<close>, an enumeration or sentinel error a \<^theory_text>\<open>datatype\<close>, a Go function a definition with the same name (with a prefix
  where two components use the same one). State is passed explicitly: the store of a provider, the database of the microservice. A
  table is the list of its rows, a query a function of the database, an update a new database; unique and check constraints that a
  statement can violate are error branches. An argument \<open>ok\<close> says which statements succeed, so every property that does not fix it holds for
  all failures; a transaction that is rolled back returns the old database. Errors are values of a sum or option type. Bytes are
  8-bit words, 64-bit arithmetic that can wrap is written with \<open>i64\<close>, durations and times are integers of nanoseconds, and the
  floating-point columns are rationals. Randomness (candidate draws, nonces, identifiers) and the network are arguments.
  Goroutines that share no state are sequenced in the order in which the code starts them; the transfers of an upload and the
  downloads of a retrieval, which race, run in an order that is an argument.

  \<^bold>\<open>Interfaces\<close>

  Locales state what one component promises another: \<open>chunk_store\<close> (a store refines a map; interpreted on the value-log and the Badger engine),
  \<open>rs_engine\<close> (an engine built from a consistent profile; interpreted on both profiles), \<open>keyed_ledger\<close> (an insert with a used key
  changes nothing; interpreted on both ledgers), \<open>escrow_provider\<close> and \<open>seizing_provider\<close> (interpreted on the mock and the Razorpay
  provider), \<open>secrets_manager\<close> (interpreted on both secret clients), and \<open>upload_service\<close> (what an upload needs from microservice and
  providers; interpreted in \<^emph>\<open>Deployment\<close> on the assignment, registration and upload handlers). The properties use the interpreted facts.

  \<^bold>\<open>What is proved\<close>

  Round trips (erasure code, keystore, pointer file), refinement of a map by the value log and agreement of the two engines,
  durability across crashes, conservation of money in charges and single payment of releases, order and completion of repairs,
  soundness of the replacement choice, freshness of secrets, append-only receipts, verdicts of audits, authorisation of every stream handler,
  placement of shards and acceptance of uploads. Several theorems describe behaviour that the comments of the code do
  not intend; they are listed as findings in \<^verbatim>\<open>PROJECT.json\<close>.

  \<^bold>\<open>Bounds and fuel\<close>

  Loops of the code are structural recursions or folds. Where the code bounds a loop by a constant (five draws of a replacement, the retries
  of an upload or download, the scan bound of secret versions) the recursion counts down from that constant, so no fuel is
  invented. The log scans of \<^emph>\<open>Storage\<close> recurse on the bytes that are left. The rejection loop of the confirmation words recurses on the random bytes that it
  consumes, and its theorem says when they are enough.

  \<^bold>\<open>Not modelled\<close>

  Libraries (libp2p, Badger, PostgreSQL, Razorpay, the cryptographic primitives) are arguments. The command-line and terminal interfaces, the
  wiring of the processes, metrics, the SQL generator, the libp2p adapters and the REST endpoints that are not named above are left
  out: they print, parse flags, start goroutines or forward to code that is modelled. Timers are not modelled as such; a property speaks of the calls
  that a timer makes.
\<close>

end
